(* ===== verification/Sop_Prelude.thy ===== *)
theory Sop_Prelude
  imports Main "HOL-Library.Word"
begin

text \<open>
  Shared ground of the development: UUIDs, the error values of the Go code, the
  state-and-error monad in which the stateful code is written, Go slices
  (bounds-checked reads and writes, \<open>copy\<close>, re-slicing), \<open>sort.Search\<close>, and the
  list lemmas that the components share.

  Go's \<open>int\<close> and \<open>int64\<close> are modelled by \<open>int\<close> (or by \<open>nat\<close> where the value
  never goes below zero): the quantities involved are slot positions and item
  counts, which stay far below \<open>2 ^ 63\<close>. The capacity of a slice is not modelled:
  a re-slice beyond the length is the panic it would be with \<open>cap = len\<close>.
\<close>

section \<open>Collections of facts\<close>

named_theorems exec_simps
  "symbolic execution of the monadic code: one rule per primitive"

named_theorems slice_simps
  "what the slice operations do on in-range arguments"

section \<open>UUIDs\<close>

type_synonym uuid = "128 word"

abbreviation NilUUID :: uuid where
  "NilUUID \<equiv> 0"

section \<open>Errors and the state-and-error monad\<close>

text \<open>
  \<open>Panic\<close> is a Go run-time panic (an index out of range, a nil dereference).
  \<open>OutOfFuel\<close> is not a value of the program: a loop whose termination depends on
  the shape of the heap runs on fuel, and this value says that the fuel was used up.
\<close>

datatype go_error = Panic | OutOfFuel | Err string

type_synonym ('s, 'a) gom = "'s \<Rightarrow> (go_error + 'a) \<times> 's"

definition ret :: "'a \<Rightarrow> ('s, 'a) gom" where
  "ret x = (\<lambda>s. (Inr x, s))"

definition fail :: "go_error \<Rightarrow> ('s, 'a) gom" where
  "fail e = (\<lambda>s. (Inl e, s))"

definition gbind :: "('s, 'a) gom \<Rightarrow> ('a \<Rightarrow> ('s, 'b) gom) \<Rightarrow> ('s, 'b) gom" where
  "gbind m f = (\<lambda>s. case m s of (Inl e, s') \<Rightarrow> (Inl e, s') | (Inr x, s') \<Rightarrow> f x s')"

definition gseq :: "('s, 'a) gom \<Rightarrow> ('s, 'b) gom \<Rightarrow> ('s, 'b) gom" where
  "gseq m k = gbind m (\<lambda>_. k)"

definition reads :: "('s \<Rightarrow> 'a) \<Rightarrow> ('s, 'a) gom" where
  "reads f = (\<lambda>s. (Inr (f s), s))"

definition modify :: "('s \<Rightarrow> 's) \<Rightarrow> ('s, unit) gom" where
  "modify f = (\<lambda>s. (Inr (), f s))"

text \<open>A pure computation that may fail, used inside the monad.\<close>

definition lift_res :: "go_error + 'a \<Rightarrow> ('s, 'a) gom" where
  "lift_res r = (\<lambda>s. (r, s))"

lemma ret_apply [exec_simps]: "ret x s = (Inr x, s)"
  by (simp add: ret_def)

lemma fail_apply [exec_simps]: "fail e s = (Inl e, s)"
  by (simp add: fail_def)

lemma gbind_apply [exec_simps]:
  "gbind m f s = (case m s of (Inl e, s') \<Rightarrow> (Inl e, s') | (Inr x, s') \<Rightarrow> f x s')"
  by (simp add: gbind_def)

lemma gseq_apply [exec_simps]:
  "gseq m k s = (case m s of (Inl e, s') \<Rightarrow> (Inl e, s') | (Inr x, s') \<Rightarrow> k s')"
  by (simp add: gseq_def gbind_def)

lemma reads_apply [exec_simps]: "reads f s = (Inr (f s), s)"
  by (simp add: reads_def)

lemma modify_apply [exec_simps]: "modify f s = (Inr (), f s)"
  by (simp add: modify_def)

lemma lift_res_apply [exec_simps]: "lift_res r s = (r, s)"
  by (simp add: lift_res_def)

lemma gbind_step: "m s = (Inr x, s') \<Longrightarrow> gbind m f s = f x s'"
  by (simp add: gbind_def)

lemma gseq_step: "m s = (Inr x, s') \<Longrightarrow> gseq m k s = k s'"
  by (simp add: gseq_def gbind_def)

lemma gbind_reads: "gbind (reads f) g s = g (f s) s"
  by (simp add: gbind_def reads_def)

lemma gbind_ret [simp]: "gbind (ret x) f = f x"
  by (simp add: gbind_def ret_def)

lemma gbind_ret_right [simp]: "gbind m ret = m"
  by (rule ext) (simp add: gbind_def ret_def split: prod.split sum.split)

lemma gbind_assoc: "gbind (gbind m f) g = gbind m (\<lambda>x. gbind (f x) g)"
  by (rule ext) (simp add: gbind_def split: prod.split sum.split)

text \<open>A \<open>for range\<close> loop, the use of a part of the state, and Go's handling of a returned error.\<close>

fun gfor :: "'x list \<Rightarrow> ('x \<Rightarrow> ('s, unit) gom) \<Rightarrow> ('s, unit) gom" where
  "gfor [] f = ret ()"
| "gfor (x # xs) f = gseq (f x) (gfor xs f)"

definition zoom :: "('s \<Rightarrow> 't) \<Rightarrow> ('t \<Rightarrow> 's \<Rightarrow> 's) \<Rightarrow> ('t, 'a) gom \<Rightarrow> ('s, 'a) gom" where
  "zoom g p m = (\<lambda>s. case m (g s) of (r, t) \<Rightarrow> (r, p t s))"

text \<open>\<open>attempt m\<close> hands the error of \<open>m\<close> to the code that follows; a panic is not an error.\<close>

definition attempt :: "('s, 'a) gom \<Rightarrow> ('s, string + 'a) gom" where
  "attempt m = (\<lambda>s. case m s of
     (Inl (Err e), s') \<Rightarrow> (Inr (Inl e), s')
   | (Inl Panic, s') \<Rightarrow> (Inl Panic, s')
   | (Inl OutOfFuel, s') \<Rightarrow> (Inl OutOfFuel, s')
   | (Inr x, s') \<Rightarrow> (Inr (Inr x), s'))"

lemma zoom_apply [exec_simps]: "zoom g p m s = (case m (g s) of (r, t) \<Rightarrow> (r, p t s))"
  by (simp add: zoom_def)

lemma attempt_apply [exec_simps]: "attempt m s = (case m s of
     (Inl (Err e), s') \<Rightarrow> (Inr (Inl e), s')
   | (Inl Panic, s') \<Rightarrow> (Inl Panic, s')
   | (Inl OutOfFuel, s') \<Rightarrow> (Inl OutOfFuel, s')
   | (Inr x, s') \<Rightarrow> (Inr (Inr x), s'))"
  by (simp add: attempt_def)

section \<open>Go slices\<close>

text \<open>\<open>xs[i]\<close> and \<open>xs[i] = v\<close>, with the panic of an index out of range.\<close>

definition sget :: "'a list \<Rightarrow> nat \<Rightarrow> go_error + 'a" where
  "sget xs i = (if i < length xs then Inr (xs ! i) else Inl Panic)"

definition sset :: "'a list \<Rightarrow> nat \<Rightarrow> 'a \<Rightarrow> go_error + 'a list" where
  "sset xs i v = (if i < length xs then Inr (xs[i := v]) else Inl Panic)"

definition sget_int :: "'a list \<Rightarrow> int \<Rightarrow> go_error + 'a" where
  "sget_int xs i = (if 0 \<le> i \<and> i < int (length xs) then Inr (xs ! nat i) else Inl Panic)"

definition aget :: "'a list \<Rightarrow> nat \<Rightarrow> ('s, 'a) gom" where
  "aget xs i = lift_res (sget xs i)"

definition aset :: "'a list \<Rightarrow> nat \<Rightarrow> 'a \<Rightarrow> ('s, 'a list) gom" where
  "aset xs i v = lift_res (sset xs i v)"

definition aget_int :: "'a list \<Rightarrow> int \<Rightarrow> ('s, 'a) gom" where
  "aget_int xs i = lift_res (sget_int xs i)"

lemma aget_ok [exec_simps]: "i < length xs \<Longrightarrow> aget xs i s = (Inr (xs ! i), s)"
  by (simp add: aget_def sget_def lift_res_def)

lemma aset_ok [exec_simps]: "i < length xs \<Longrightarrow> aset xs i v s = (Inr (xs[i := v]), s)"
  by (simp add: aset_def sset_def lift_res_def)

lemma aget_int_ok [exec_simps]: "i < length xs \<Longrightarrow> aget_int xs (int i) s = (Inr (xs ! i), s)"
  by (simp add: aget_int_def sget_int_def lift_res_def)

text \<open>\<open>xs[a:]\<close> panics when \<open>a\<close> is beyond the end.\<close>

definition slice_from :: "'a list \<Rightarrow> nat \<Rightarrow> ('s, 'a list) gom" where
  "slice_from xs a = (if a \<le> length xs then ret (drop a xs) else fail Panic)"

lemma slice_from_ok [exec_simps]: "a \<le> length xs \<Longrightarrow> slice_from xs a s = (Inr (drop a xs), s)"
  by (simp add: slice_from_def ret_def)

text \<open>
  \<open>copy(dst, src)\<close> writes the first \<open>min (len dst) (len src)\<close> elements;
  source and destination may overlap, and the elements read are the old ones.
\<close>

definition go_copy :: "'a list \<Rightarrow> 'a list \<Rightarrow> 'a list" where
  "go_copy dst src = take (length dst) src @ drop (length src) dst"

text \<open>\<open>copy(xs[d:], ys)\<close>, the whole array afterwards.\<close>

definition go_copy_at :: "'a list \<Rightarrow> nat \<Rightarrow> 'a list \<Rightarrow> 'a list" where
  "go_copy_at xs d ys = take d xs @ go_copy (drop d xs) ys"

lemma length_go_copy [simp]: "length (go_copy dst src) = length dst"
  by (simp add: go_copy_def)

lemma length_go_copy_at [simp]: "length (go_copy_at xs d ys) = length xs"
  by (simp add: go_copy_at_def)

lemma go_copy_same_length [slice_simps]:
  "length src = length dst \<Longrightarrow> go_copy dst src = src"
  by (simp add: go_copy_def)

lemma go_copy_longer_dst [slice_simps]:
  "length src \<le> length dst \<Longrightarrow> go_copy dst src = src @ drop (length src) dst"
  by (simp add: go_copy_def)

lemma go_copy_longer_src [slice_simps]:
  "length dst \<le> length src \<Longrightarrow> go_copy dst src = take (length dst) src"
  by (simp add: go_copy_def)

text \<open>\<open>clear(xs)\<close> sets every element to the zero value of its type.\<close>

definition go_clear :: "'a \<Rightarrow> 'a list \<Rightarrow> 'a list" where
  "go_clear z xs = map (\<lambda>_. z) xs"

lemma go_clear_eq [simp]: "go_clear z xs = replicate (length xs) z"
  by (simp add: go_clear_def map_replicate_const)

section \<open>sort.Search\<close>

text \<open>
  Go's \<open>sort.Search(n, f)\<close>: the binary search of the standard library, with a test
  that may panic (it indexes a slice).
\<close>

function sort_search_loop :: "(nat \<Rightarrow> go_error + bool) \<Rightarrow> nat \<Rightarrow> nat \<Rightarrow> go_error + nat" where
  "sort_search_loop f i j =
     (if i < j
      then let h = (i + j) div 2
           in (case f h of
                 Inl e \<Rightarrow> Inl e
               | Inr b \<Rightarrow> if \<not> b then sort_search_loop f (Suc h) j
                         else sort_search_loop f i h)
      else Inr i)"
  by pat_completeness auto
termination
  by (relation "measure (\<lambda>(f, i, j). j - i)") auto

declare sort_search_loop.simps [simp del]

definition sort_search :: "nat \<Rightarrow> (nat \<Rightarrow> go_error + bool) \<Rightarrow> go_error + nat" where
  "sort_search n f = sort_search_loop f 0 n"

text \<open>
  The contract of \<open>sort.Search\<close>: on a monotone test, the least index that passes,
  \<open>n\<close> when there is none.
\<close>

lemma sort_search_loop_least:
  assumes "i \<le> j"
    and "\<And>h. h < j \<Longrightarrow> f h = Inr (p h)"
    and "\<And>a b. a \<le> b \<Longrightarrow> b < j \<Longrightarrow> p a \<Longrightarrow> p b"
    and "\<And>h. h < i \<Longrightarrow> \<not> p h"
  shows "\<exists>r. sort_search_loop f i j = Inr r \<and> i \<le> r \<and> r \<le> j \<and>
           (\<forall>h<r. \<not> p h) \<and> (r < j \<longrightarrow> p r)"
  using assms
proof (induction f i j rule: sort_search_loop.induct)
  case (1 f i j)
  define h where "h = (i + j) div 2"
  show ?case
  proof (cases "i < j")
    case False
    with "1.prems" show ?thesis by (simp add: sort_search_loop.simps)
  next
    case True
    then have h: "i \<le> h" "h < j" by (auto simp: h_def)
    note eq = sort_search_loop.simps [of f i j, folded h_def]
    show ?thesis
    proof (cases "p h")
      case False
      have nl: "\<not> p a" if "a < Suc h" for a
        using "1.prems"(3) [of a h] h(2) False that by auto
      have "\<exists>r. sort_search_loop f (Suc h) j = Inr r \<and> Suc h \<le> r \<and> r \<le> j \<and>
              (\<forall>h<r. \<not> p h) \<and> (r < j \<longrightarrow> p r)"
        using "1.prems" h False nl
        by (intro "1.IH"(1) [of h False]) (auto simp: h_def)
      then show ?thesis
        using True False "1.prems"(2) [of h] h by (fastforce simp: eq)
    next
      case ph: True
      have "\<exists>r. sort_search_loop f i h = Inr r \<and> i \<le> r \<and> r \<le> h \<and>
              (\<forall>h<r. \<not> p h) \<and> (r < h \<longrightarrow> p r)"
        using "1.prems" h ph
        by (intro "1.IH"(2) [of h True]) (auto simp: h_def)
      then obtain r where r: "sort_search_loop f i h = Inr r" "i \<le> r" "r \<le> h"
        "\<forall>h<r. \<not> p h" "r < h \<longrightarrow> p r" by blast
      have "p r" using r ph by (cases "r < h") auto
      then show ?thesis
        using True ph "1.prems"(2) [of h] h r by (auto simp: eq)
    qed
  qed
qed

lemma sort_search_least:
  assumes "\<And>h. h < n \<Longrightarrow> f h = Inr (p h)"
    and "\<And>a b. a \<le> b \<Longrightarrow> b < n \<Longrightarrow> p a \<Longrightarrow> p b"
  shows "\<exists>r. sort_search n f = Inr r \<and> r \<le> n \<and> (\<forall>h<r. \<not> p h) \<and> (r < n \<longrightarrow> p r)"
  unfolding sort_search_def
  using sort_search_loop_least [of 0 n f p] assms by simp

section \<open>List lemmas\<close>

lemma drop_nth_Cons: "i < length xs \<Longrightarrow> drop i xs = xs ! i # drop (Suc i) xs"
  by (rule Cons_nth_drop_Suc [symmetric])

lemma take_nth_append: "i < length xs \<Longrightarrow> take (Suc i) xs = take i xs @ [xs ! i]"
  by (rule take_Suc_conv_app_nth)

lemma split_at: "i < length xs \<Longrightarrow> xs = take i xs @ xs ! i # drop (Suc i) xs"
  by (rule id_take_nth_drop)

end
