(* ===== verification/Comparer.thy ===== *)
theory Comparer
  imports Complex_Main Sop_Prelude
begin

text \<open>
  Key comparison (\<open>btree/comparer.go\<close>): \<open>Compare\<close>, \<open>CoerceComparer\<close>,
  \<open>IsPrimitive\<close>, \<open>typedComparerFor\<close> and \<open>scalarComparer\<close> over Go's dynamically
  typed values, and the contract \<open>key_order\<close> (a three-way comparison that is a
  total preorder) under which the B-tree is correct, interpreted on the program's
  own comparison functions.
\<close>

section \<open>Dynamically typed values\<close>

text \<open>
  The dynamic types that \<open>Compare\<close> distinguishes. A finite float is the rational it
  denotes. A \<open>VComparer\<close> is an object with a \<open>Compare\<close> method of its own, identified by a
  number: the method is user code, a parameter of \<open>Compare\<close>. \<open>VOther\<close> stands for a
  value of any other type. The text \<open>%v\<close> gives for a value is a parameter too.
\<close>

datatype int_kind = KInt | KInt8 | KInt16 | KInt32 | KInt64
  | KUint | KUint8 | KUint16 | KUint32 | KUint64 | KUintptr

datatype float_kind = KFloat32 | KFloat64

datatype gofloat = NaN | NegInf | Finite rat | PosInf

datatype goany =
    VInt int_kind int
  | VFloat float_kind gofloat
  | VString string
  | VGoogleUUID uuid
  | VUUID uuid
  | VTime int
  | VAnys "goany list"
  | VBytes "8 word list"
  | VStrings "string list"
  | VInts "int list"
  | VFloats float_kind "gofloat list"
  | VNil
  | VComparer nat
  | VOther string

section \<open>cmp.Compare and bytes.Compare\<close>

definition cmp_int :: "int \<Rightarrow> int \<Rightarrow> int" where
  "cmp_int x y = (if x < y then -1 else if x > y then 1 else 0)"

text \<open>\<open>cmp.Compare\<close> on floats: NaN is below every number and equal to itself.\<close>

fun float_rank :: "gofloat \<Rightarrow> int" where
  "float_rank NaN = 0"
| "float_rank NegInf = 1"
| "float_rank (Finite _) = 2"
| "float_rank PosInf = 3"

fun cmp_float :: "gofloat \<Rightarrow> gofloat \<Rightarrow> int" where
  "cmp_float (Finite x) (Finite y) = (if x < y then -1 else if x > y then 1 else 0)"
| "cmp_float x y = cmp_int (float_rank x) (float_rank y)"

text \<open>Element by element over the common prefix, then by length.\<close>

fun cmp_seq :: "('a \<Rightarrow> 'a \<Rightarrow> int) \<Rightarrow> 'a list \<Rightarrow> 'a list \<Rightarrow> int" where
  "cmp_seq c [] [] = 0"
| "cmp_seq c [] (_ # _) = -1"
| "cmp_seq c (_ # _) [] = 1"
| "cmp_seq c (x # xs) (y # ys) = (let d = c x y in if d \<noteq> 0 then d else cmp_seq c xs ys)"

definition cmp_byte :: "8 word \<Rightarrow> 8 word \<Rightarrow> int" where
  "cmp_byte x y = cmp_int (uint x) (uint y)"

definition cmp_bytes :: "8 word list \<Rightarrow> 8 word list \<Rightarrow> int" where
  "cmp_bytes = cmp_seq cmp_byte"

text \<open>Go strings are byte sequences, ordered as such.\<close>

definition cmp_string :: "string \<Rightarrow> string \<Rightarrow> int" where
  "cmp_string = cmp_seq (\<lambda>a b. cmp_int (of_char a) (of_char b))"

text \<open>The 16 bytes of a UUID, most significant first.\<close>

definition uuid_bytes :: "uuid \<Rightarrow> 8 word list" where
  "uuid_bytes u = map (\<lambda>i. ucast (drop_bit (8 * (15 - i)) u)) [0..<16]"

definition UUID_Compare :: "uuid \<Rightarrow> uuid \<Rightarrow> int" where
  "UUID_Compare x y = cmp_bytes (uuid_bytes x) (uuid_bytes y)"

text \<open>The canonical text of a UUID: 32 hexadecimal digits in groups of 8, 4, 4, 4 and 12.\<close>

definition uuid_String :: "uuid \<Rightarrow> string" where
  "uuid_String u = (let digit = (\<lambda>n. ''0123456789abcdef'' ! n);
       hex = concat (map (\<lambda>b. [digit (unat b div 16), digit (unat b mod 16)]) (uuid_bytes u))
     in take 8 hex @ ''-'' @ take 4 (drop 8 hex) @ ''-'' @ take 4 (drop 12 hex) @ ''-'' @ take 4 (drop 16 hex) @ ''-'' @ drop 20 hex)"

text \<open>
  The slice cases of \<open>Compare\<close> walk the indices below the shorter length and then
  compare the lengths, which is \<open>cmp_seq\<close>: see \<open>cmp_seq_loop\<close> below.
\<close>

fun cmp_prefix_loop :: "('a \<Rightarrow> 'a \<Rightarrow> int) \<Rightarrow> 'a list \<Rightarrow> 'a list \<Rightarrow> nat \<Rightarrow> nat \<Rightarrow> int" where
  "cmp_prefix_loop c xs ys i 0 = cmp_int (int (length xs)) (int (length ys))"
| "cmp_prefix_loop c xs ys i (Suc n) =
     (let d = c (xs ! i) (ys ! i) in if d \<noteq> 0 then d else cmp_prefix_loop c xs ys (Suc i) n)"

lemma cmp_seq_loop:
  "cmp_prefix_loop c xs ys 0 (min (length xs) (length ys)) = cmp_seq c xs ys"
proof -
  have "cmp_prefix_loop c (ps @ xs) (qs @ ys) (length ps) (min (length xs) (length ys)) =
      cmp_seq c xs ys" if "length ps = length qs" for ps qs
    using that
  proof (induction c xs ys arbitrary: ps qs rule: cmp_seq.induct)
    case (4 c x xs y ys)
    show ?case
      using "4.IH" [of "c x y" "ps @ [x]" "qs @ [y]"] "4.prems"
      by (simp add: Let_def nth_append)
  qed (simp_all add: cmp_int_def)
  from this [of "[]" "[]"] show ?thesis by simp
qed

section \<open>Compare\<close>

text \<open>
  A failed type assertion \<open>y1, _ := anyY.(T)\<close> leaves the zero value of \<open>T\<close>:
  the \<open>as_\<close> functions.
\<close>

fun as_int :: "int_kind \<Rightarrow> goany \<Rightarrow> int" where
  "as_int k (VInt k' i) = (if k = k' then i else 0)"
| "as_int k _ = 0"

fun as_float :: "float_kind \<Rightarrow> goany \<Rightarrow> gofloat" where
  "as_float k (VFloat k' f) = (if k = k' then f else Finite 0)"
| "as_float k _ = Finite 0"

fun as_string :: "goany \<Rightarrow> string" where
  "as_string (VString s) = s"
| "as_string _ = []"

fun as_google_uuid :: "goany \<Rightarrow> uuid" where
  "as_google_uuid (VGoogleUUID u) = u"
| "as_google_uuid _ = NilUUID"

fun as_uuid :: "goany \<Rightarrow> uuid" where
  "as_uuid (VUUID u) = u"
| "as_uuid _ = NilUUID"

text \<open>The zero \<open>time.Time\<close> is January 1, year 1: instant 0 here.\<close>

fun as_time :: "goany \<Rightarrow> int" where
  "as_time (VTime t) = t"
| "as_time _ = 0"

fun as_anys :: "goany \<Rightarrow> goany list" where
  "as_anys (VAnys xs) = xs"
| "as_anys _ = []"

fun as_bytes :: "goany \<Rightarrow> 8 word list" where
  "as_bytes (VBytes xs) = xs"
| "as_bytes _ = []"

fun as_strings :: "goany \<Rightarrow> string list" where
  "as_strings (VStrings xs) = xs"
| "as_strings _ = []"

fun as_ints :: "goany \<Rightarrow> int list" where
  "as_ints (VInts xs) = xs"
| "as_ints _ = []"

fun as_floats :: "float_kind \<Rightarrow> goany \<Rightarrow> gofloat list" where
  "as_floats k (VFloats k' xs) = (if k = k' then xs else [])"
| "as_floats k _ = []"

text \<open>
  \<open>objCompare n y\<close> is the \<open>Compare\<close> method of object \<open>n\<close>; \<open>sprintf v\<close> is
  \<open>fmt.Sprintf("%v", v)\<close>.
\<close>

fun Compare :: "(nat \<Rightarrow> goany \<Rightarrow> int) \<Rightarrow> (goany \<Rightarrow> string) \<Rightarrow> goany \<Rightarrow> goany \<Rightarrow> int"
  and Compare_anys :: "(nat \<Rightarrow> goany \<Rightarrow> int) \<Rightarrow> (goany \<Rightarrow> string) \<Rightarrow> goany list \<Rightarrow> goany list \<Rightarrow> int"
where
  "Compare objCompare sprintf (VInt k x) y = cmp_int x (as_int k y)"
| "Compare objCompare sprintf (VFloat k x) y = cmp_float x (as_float k y)"
| "Compare objCompare sprintf (VString x) y = cmp_string x (as_string y)"
| "Compare objCompare sprintf (VGoogleUUID x) y =
     cmp_bytes (uuid_bytes x) (uuid_bytes (as_google_uuid y))"
| "Compare objCompare sprintf (VUUID x) y = UUID_Compare x (as_uuid y)"
| "Compare objCompare sprintf (VTime x) y = cmp_int x (as_time y)"
| "Compare objCompare sprintf (VAnys xs) y = Compare_anys objCompare sprintf xs (as_anys y)"
| "Compare objCompare sprintf (VBytes xs) y = cmp_bytes xs (as_bytes y)"
| "Compare objCompare sprintf (VStrings xs) y = cmp_seq cmp_string xs (as_strings y)"
| "Compare objCompare sprintf (VInts xs) y = cmp_seq cmp_int xs (as_ints y)"
| "Compare objCompare sprintf (VFloats k xs) y = cmp_seq cmp_float xs (as_floats k y)"
| "Compare objCompare sprintf VNil y = (if y = VNil then 0 else -1)"
| "Compare objCompare sprintf (VComparer n) y = (if y = VNil then 1 else objCompare n y)"
| "Compare objCompare sprintf (VOther s) y =
     (if y = VNil then 1 else cmp_string (sprintf (VOther s)) (sprintf y))"
| "Compare_anys objCompare sprintf [] [] = 0"
| "Compare_anys objCompare sprintf [] (_ # _) = -1"
| "Compare_anys objCompare sprintf (_ # _) [] = 1"
| "Compare_anys objCompare sprintf (x # xs) (y # ys) =
     (let d = Compare objCompare sprintf x y
      in if d \<noteq> 0 then d else Compare_anys objCompare sprintf xs ys)"

text \<open>
  \<open>CoerceComparer(anyX)\<close> chooses by the type of a sample; the closure it returns
  asserts both arguments to that type.
\<close>

fun CoerceComparer :: "(nat \<Rightarrow> goany \<Rightarrow> int) \<Rightarrow> (goany \<Rightarrow> string) \<Rightarrow> goany \<Rightarrow> goany \<Rightarrow> goany \<Rightarrow> int"
where
  "CoerceComparer objCompare sprintf (VInt k _) x y = cmp_int (as_int k x) (as_int k y)"
| "CoerceComparer objCompare sprintf (VFloat k _) x y = cmp_float (as_float k x) (as_float k y)"
| "CoerceComparer objCompare sprintf (VString _) x y = cmp_string (as_string x) (as_string y)"
| "CoerceComparer objCompare sprintf (VGoogleUUID _) x y =
     cmp_bytes (uuid_bytes (as_google_uuid x)) (uuid_bytes (as_google_uuid y))"
| "CoerceComparer objCompare sprintf (VUUID _) x y = UUID_Compare (as_uuid x) (as_uuid y)"
| "CoerceComparer objCompare sprintf (VTime _) x y = cmp_int (as_time x) (as_time y)"
| "CoerceComparer objCompare sprintf (VAnys _) x y =
     cmp_seq (Compare objCompare sprintf) (as_anys x) (as_anys y)"
| "CoerceComparer objCompare sprintf (VBytes _) x y = cmp_bytes (as_bytes x) (as_bytes y)"
| "CoerceComparer objCompare sprintf (VStrings _) x y =
     cmp_seq cmp_string (as_strings x) (as_strings y)"
| "CoerceComparer objCompare sprintf (VInts _) x y = cmp_seq cmp_int (as_ints x) (as_ints y)"
| "CoerceComparer objCompare sprintf (VFloats k _) x y =
     cmp_seq cmp_float (as_floats k x) (as_floats k y)"
| "CoerceComparer objCompare sprintf _ x y =
     (if x = VNil \<and> y = VNil then 0
      else if x = VNil then -1
      else if y = VNil then 1
      else case x of VComparer n \<Rightarrow> objCompare n y
           | _ \<Rightarrow> cmp_string (sprintf x) (sprintf y))"

text \<open>\<open>IsPrimitive[TK]()\<close>, decided on the zero value of the key type.\<close>

fun IsPrimitive :: "goany \<Rightarrow> bool" where
  "IsPrimitive VNil = False"
| "IsPrimitive (VAnys _) = False"
| "IsPrimitive (VComparer _) = False"
| "IsPrimitive (VOther _) = False"
| "IsPrimitive _ = True"

text \<open>
  \<open>scalarComparer\<close>: a direct comparison when the key type is a built-in ordered type.
  Its unchecked assertions \<open>any(b).(int)\<close> panic on another type, which cannot
  happen when the key type is not an interface; the closure is then the comparison
  of the underlying values.
\<close>

fun scalarComparer :: "goany \<Rightarrow> (goany \<Rightarrow> goany \<Rightarrow> go_error + int) option" where
  "scalarComparer (VInt k _) = Some (\<lambda>a b. case (a, b) of
     (VInt k1 x, VInt k2 y) \<Rightarrow> if k1 = k \<and> k2 = k then Inr (cmp_int x y) else Inl Panic
   | _ \<Rightarrow> Inl Panic)"
| "scalarComparer (VFloat k _) = Some (\<lambda>a b. case (a, b) of
     (VFloat k1 x, VFloat k2 y) \<Rightarrow> if k1 = k \<and> k2 = k then Inr (cmp_float x y) else Inl Panic
   | _ \<Rightarrow> Inl Panic)"
| "scalarComparer (VString _) = Some (\<lambda>a b. case (a, b) of
     (VString x, VString y) \<Rightarrow> Inr (cmp_string x y)
   | _ \<Rightarrow> Inl Panic)"
| "scalarComparer _ = None"

definition typedComparerFor ::
  "(nat \<Rightarrow> goany \<Rightarrow> int) \<Rightarrow> (goany \<Rightarrow> string) \<Rightarrow> bool \<Rightarrow> goany \<Rightarrow> goany \<Rightarrow> goany \<Rightarrow> go_error + int"
where
  "typedComparerFor objCompare sprintf isInterface sample a b =
     (case (if \<not> isInterface then scalarComparer sample else None) of
        Some c \<Rightarrow> c a b
      | None \<Rightarrow> Inr (CoerceComparer objCompare sprintf sample a b))"

section \<open>The contract of a key comparison\<close>

locale key_order =
  fixes cmp :: "'k \<Rightarrow> 'k \<Rightarrow> int"
  assumes cmp_swap: "cmp a b < 0 \<longleftrightarrow> cmp b a > 0"
    and cmp_trans: "cmp a b \<le> 0 \<Longrightarrow> cmp b c \<le> 0 \<Longrightarrow> cmp a c \<le> 0"
begin

lemma cmp_refl: "cmp a a = 0"
  using cmp_swap [of a a] by linarith

lemma cmp_eq_swap: "cmp a b = 0 \<longleftrightarrow> cmp b a = 0"
  using cmp_swap [of a b] cmp_swap [of b a] by linarith

lemma cmp_total: "cmp a b \<le> 0 \<or> cmp b a \<le> 0"
  using cmp_swap [of a b] cmp_swap [of b a] by linarith

lemma cmp_le_swap: "cmp a b \<le> 0 \<longleftrightarrow> cmp b a \<ge> 0"
  using cmp_swap [of b a] by linarith

lemma cmp_less_le_trans: "cmp a b < 0 \<Longrightarrow> cmp b c \<le> 0 \<Longrightarrow> cmp a c < 0"
proof (rule ccontr)
  assume ab: "cmp a b < 0" and bc: "cmp b c \<le> 0" and "\<not> cmp a c < 0"
  then have "cmp c a \<le> 0" using cmp_le_swap [of c a] by simp
  with bc have "cmp b a \<le> 0" by (rule cmp_trans)
  with ab show False using cmp_swap [of a b] by simp
qed

lemma cmp_le_less_trans: "cmp a b \<le> 0 \<Longrightarrow> cmp b c < 0 \<Longrightarrow> cmp a c < 0"
proof (rule ccontr)
  assume ab: "cmp a b \<le> 0" and bc: "cmp b c < 0" and "\<not> cmp a c < 0"
  then have "cmp c a \<le> 0" using cmp_le_swap [of c a] by simp
  from this ab have "cmp c b \<le> 0" by (rule cmp_trans)
  with bc show False using cmp_swap [of b c] by simp
qed

lemma cmp_eq_trans: "cmp a b = 0 \<Longrightarrow> cmp b c = 0 \<Longrightarrow> cmp a c = 0"
  using cmp_trans [of a b c] cmp_trans [of c b a] cmp_eq_swap [of a b] cmp_eq_swap [of b c]
    cmp_le_swap [of c a] by linarith

end

text \<open>Sequences compared lexicographically inherit the contract from their elements.\<close>

lemma cmp_seq_key_order:
  assumes "key_order c"
  shows "key_order (cmp_seq c)"
proof
  note swap = key_order.cmp_swap [OF assms] and tr = key_order.cmp_trans [OF assms]
    and lt1 = key_order.cmp_less_le_trans [OF assms]
    and lt2 = key_order.cmp_le_less_trans [OF assms]
    and eqs = key_order.cmp_eq_swap [OF assms]
  fix a b :: "'a list"
  show "cmp_seq c a b < 0 \<longleftrightarrow> cmp_seq c b a > 0"
  proof (induction a arbitrary: b)
    case Nil
    show ?case by (cases b) simp_all
  next
    case (Cons x xs)
    show ?case
      using Cons.IH swap [of x] eqs [of x] by (cases b) (auto simp: Let_def)
  qed
next
  note tr = key_order.cmp_trans [OF assms] and et = key_order.cmp_eq_trans [OF assms]
    and lt1 = key_order.cmp_less_le_trans [OF assms]
    and lt2 = key_order.cmp_le_less_trans [OF assms]
  fix a b d :: "'a list"
  show "cmp_seq c a b \<le> 0 \<Longrightarrow> cmp_seq c b d \<le> 0 \<Longrightarrow> cmp_seq c a d \<le> 0"
  proof (induction a arbitrary: b d)
    case Nil
    show ?case by (cases d) simp_all
  next
    case (Cons x xs)
    from Cons.prems obtain y ys z zs where yz: "b = y # ys" "d = z # zs"
      by (cases b; cases d) auto
    consider "c x y < 0" "c y z \<le> 0" | "c x y = 0" "c y z < 0" | "c x y = 0" "c y z = 0"
      using Cons.prems yz by (fastforce simp: Let_def split: if_splits)
    then show ?case
    proof cases
      case 1
      then have "c x z < 0" by (rule lt1)
      then show ?thesis by (simp add: yz Let_def)
    next
      case 2
      then have "c x z < 0" by (intro lt2 [of x y z]) simp_all
      then show ?thesis by (simp add: yz Let_def)
    next
      case 3
      then have "c x z = 0" by (rule et)
      moreover have "cmp_seq c xs zs \<le> 0"
        using Cons.prems 3 by (intro Cons.IH [of ys zs]) (simp_all add: yz Let_def)
      ultimately show ?thesis by (simp add: yz Let_def)
    qed
  qed
qed

lemma key_order_pullback: "key_order c \<Longrightarrow> key_order (\<lambda>x y. c (f x) (f y))"
  by (auto simp: key_order_def)

lemma key_order_by_view:
  "key_order c \<Longrightarrow> (\<And>x y. d x y = c (f x) (f y)) \<Longrightarrow> key_order d"
  by (auto simp: key_order_def)

interpretation int_order: key_order cmp_int
  by unfold_locales (auto simp: cmp_int_def split: if_splits)

lemma cmp_byte_order: "key_order cmp_byte"
  unfolding cmp_byte_def by (rule key_order_pullback) (rule int_order.key_order_axioms)

interpretation byte_order: key_order cmp_byte
  by (rule cmp_byte_order)

interpretation bytes_order: key_order cmp_bytes
  unfolding cmp_bytes_def by (rule cmp_seq_key_order) (rule cmp_byte_order)

interpretation string_order: key_order cmp_string
  unfolding cmp_string_def
  by (rule cmp_seq_key_order) (rule key_order_pullback, rule int_order.key_order_axioms)

lemma cmp_float_le_rank: "cmp_float x y \<le> 0 \<Longrightarrow> float_rank x \<le> float_rank y"
  by (cases x; cases y) (auto simp: cmp_int_def)

interpretation float_order: key_order cmp_float
proof
  fix a b
  show "cmp_float a b < 0 \<longleftrightarrow> cmp_float b a > 0"
    by (cases a; cases b) (auto simp: cmp_int_def)
next
  fix a b c
  show "cmp_float a b \<le> 0 \<Longrightarrow> cmp_float b c \<le> 0 \<Longrightarrow> cmp_float a c \<le> 0"
    by (cases a; cases b; cases c) (auto simp: cmp_int_def split: if_splits)
qed

interpretation uuid_order: key_order UUID_Compare
  unfolding UUID_Compare_def
  by (rule key_order_pullback) (rule bytes_order.key_order_axioms)

text \<open>
  Each sample of a primitive type gives a comparison that meets the contract on all
  values: the type assertions make every argument a value of the sample's type.
\<close>

lemma CoerceComparer_key_order:
  assumes "IsPrimitive sample"
  shows "key_order (CoerceComparer oc sp sample)"
proof (cases sample)
  case (VInt k i)
  then show ?thesis by (intro key_order_by_view [OF int_order.key_order_axioms, of _ "as_int k"]) simp
next
  case (VFloat k i)
  then show ?thesis by (intro key_order_by_view [OF float_order.key_order_axioms, of _ "as_float k"]) simp
next
  case (VString s)
  then show ?thesis by (intro key_order_by_view [OF string_order.key_order_axioms, of _ as_string]) simp
next
  case (VGoogleUUID u)
  then show ?thesis
    by (intro key_order_by_view [OF bytes_order.key_order_axioms, of _ "\<lambda>x. uuid_bytes (as_google_uuid x)"]) simp
next
  case (VUUID u)
  then show ?thesis by (intro key_order_by_view [OF uuid_order.key_order_axioms, of _ as_uuid]) simp
next
  case (VTime t)
  then show ?thesis by (intro key_order_by_view [OF int_order.key_order_axioms, of _ as_time]) simp
next
  case (VBytes bs)
  then show ?thesis by (intro key_order_by_view [OF bytes_order.key_order_axioms, of _ as_bytes]) simp
next
  case (VStrings ss)
  then show ?thesis
    by (intro key_order_by_view [OF cmp_seq_key_order [OF string_order.key_order_axioms], of _ as_strings]) simp
next
  case (VInts xs)
  then show ?thesis
    by (intro key_order_by_view [OF cmp_seq_key_order [OF int_order.key_order_axioms], of _ as_ints]) simp
next
  case (VFloats k fs)
  then show ?thesis
    by (intro key_order_by_view [OF cmp_seq_key_order [OF float_order.key_order_axioms], of _ "as_floats k"]) simp
qed (use assms in simp_all)

section \<open>The comparers agree\<close>

text \<open>The zero value of a value's dynamic type, which identifies the type.\<close>

fun type_of :: "goany \<Rightarrow> goany" where
  "type_of (VInt k _) = VInt k 0"
| "type_of (VFloat k _) = VFloat k (Finite 0)"
| "type_of (VString _) = VString []"
| "type_of (VGoogleUUID _) = VGoogleUUID NilUUID"
| "type_of (VUUID _) = VUUID NilUUID"
| "type_of (VTime _) = VTime 0"
| "type_of (VAnys _) = VAnys []"
| "type_of (VBytes _) = VBytes []"
| "type_of (VStrings _) = VStrings []"
| "type_of (VInts _) = VInts []"
| "type_of (VFloats k _) = VFloats k []"
| "type_of VNil = VNil"
| "type_of (VComparer _) = VComparer 0"
| "type_of (VOther _) = VOther []"

definition same_type :: "goany \<Rightarrow> goany \<Rightarrow> bool" where
  "same_type x y = (type_of x = type_of y)"

lemma Compare_anys_cmp_seq: "Compare_anys oc sp xs ys = cmp_seq (Compare oc sp) xs ys"
  by (induction "Compare oc sp" xs ys rule: cmp_seq.induct) (simp_all add: Let_def)

lemma CoerceComparer_Compare:
  "same_type sample x \<Longrightarrow> CoerceComparer oc sp sample x y = Compare oc sp x y"
  by (cases sample; cases x) (auto simp: same_type_def Compare_anys_cmp_seq)

lemma typedComparerFor_eq:
  assumes "same_type sample x" and "same_type sample y"
  shows "typedComparerFor oc sp iface sample x y = Inr (Compare oc sp x y)"
proof (cases "iface \<or> scalarComparer sample = None")
  case True
  then show ?thesis
    using CoerceComparer_Compare [OF assms(1)] by (auto simp: typedComparerFor_def)
next
  case False
  then show ?thesis
    using assms by (cases sample; cases x; cases y) (auto simp: same_type_def typedComparerFor_def)
qed



end
