(* ===== verification/Store_Info.thy ===== *)
theory Store_Info
  imports Comparer "HOL-Library.Sublist"
begin

text \<open>
  Store configuration (\<open>storeinfo.go\<close>, \<open>storeoptions.go\<close>): \<open>StoreInfo\<close>,
  \<open>StoreOptions\<close>, \<open>StoreCacheConfig\<close> and the normalisation \<open>NewStoreInfo\<close> applies to them.
  The B-tree relies on two of its results: the slot length is even and lies in
  \<open>[2, MaxSlotLength]\<close>. Durations are nanoseconds (\<open>time.Duration\<close>).
\<close>

section \<open>Data\<close>

definition MaxSlotLength :: int where
  "MaxSlotLength = 20000"

definition minute :: int where
  "minute = 60 * 1000000000"

definition minCacheDuration :: int where
  "minCacheDuration = 5 * minute"

record cache_config =
  RegistryCacheDuration :: int
  IsRegistryCacheTTL :: bool
  NodeCacheDuration :: int
  IsNodeCacheTTL :: bool
  ValueDataCacheDuration :: int
  IsValueDataCacheTTL :: bool
  StoreInfoCacheDuration :: int
  IsStoreInfoCacheTTL :: bool

record relation =
  SourceFields :: "string list"
  TargetStore :: string
  TargetFields :: "string list"

text \<open>A nil \<open>CustomData\<close> map is \<open>None\<close>.\<close>

record store_info =
  si_Name :: string
  SlotLength :: int
  IsUnique :: bool
  si_Description :: string
  RegistryTable :: string
  BlobTable :: string
  RootNodeID :: uuid
  si_Count :: int
  CountDelta :: int
  Timestamp :: int
  IsValueDataInNodeSegment :: bool
  IsValueDataActivelyPersisted :: bool
  IsValueDataGloballyCached :: bool
  LeafLoadBalancing :: bool
  CacheConfig :: cache_config
  MapKeyIndexSpecification :: string
  CELexpression :: string
  IsPrimitiveKey :: bool
  Relations :: "relation list"
  Schema :: "string \<rightharpoonup> string"
  KeyFields :: "string list"
  ValueFields :: "string list"
  CustomData :: "(string \<rightharpoonup> goany) option"
  NeedsMetaDataSave :: bool
  si_Version :: string

record store_options =
  so_Name :: string
  so_SlotLength :: int
  so_IsUnique :: bool
  so_IsValueDataInNodeSegment :: bool
  so_IsValueDataActivelyPersisted :: bool
  so_IsValueDataGloballyCached :: bool
  so_LeafLoadBalancing :: bool
  so_Description :: string
  BlobStoreBaseFolderPath :: string
  DisableBlobStoreFormatting :: bool
  DisableRegistryStoreFormatting :: bool
  so_CacheConfig :: "cache_config option"
  so_CELexpression :: string
  so_MapKeyIndexSpecification :: string
  so_IsPrimitiveKey :: bool
  so_Relations :: "relation list"
  so_CustomData :: "(string \<rightharpoonup> goany) option"

datatype value_data_size = SmallData | MediumData | BigData

section \<open>Operations\<close>

definition ValueDataSize :: "store_info \<Rightarrow> value_data_size" where
  "ValueDataSize si =
     (if IsValueDataActivelyPersisted si then BigData
      else if IsValueDataInNodeSegment si then SmallData
      else MediumData)"

definition GetCustomData :: "store_info \<Rightarrow> string \<Rightarrow> goany option" where
  "GetCustomData si key = (case CustomData si of None \<Rightarrow> None | Some m \<Rightarrow> m key)"

definition SetCustomData :: "store_info \<Rightarrow> string \<Rightarrow> goany \<Rightarrow> store_info" where
  "SetCustomData si key v =
     si\<lparr>CustomData := Some ((case CustomData si of None \<Rightarrow> Map.empty | Some m \<Rightarrow> m)(key \<mapsto> v))\<rparr>"

definition DeleteCustomData :: "store_info \<Rightarrow> string \<Rightarrow> bool \<times> store_info" where
  "DeleteCustomData si key =
     (case CustomData si of
        None \<Rightarrow> (False, si)
      | Some m \<Rightarrow> (case m key of
          None \<Rightarrow> (False, si)
        | Some _ \<Rightarrow> (True, si\<lparr>CustomData := Some (m(key := None))\<rparr>)))"

definition NewStoreCacheConfig :: "int \<Rightarrow> bool \<Rightarrow> cache_config" where
  "NewStoreCacheConfig cacheDuration isCacheTTL =
     (let d = (if cacheDuration > 0 \<and> cacheDuration < minCacheDuration then minCacheDuration
               else cacheDuration);
          ttl = (if d = 0 \<and> isCacheTTL then False else isCacheTTL)
      in \<lparr>RegistryCacheDuration = d, IsRegistryCacheTTL = ttl,
          NodeCacheDuration = d, IsNodeCacheTTL = ttl,
          ValueDataCacheDuration = d, IsValueDataCacheTTL = ttl,
          StoreInfoCacheDuration = d, IsStoreInfoCacheTTL = ttl\<rparr>)"

text \<open>The four artifacts are normalised one after the other, as in the code.\<close>

definition enforceNodeRule :: "cache_config \<Rightarrow> cache_config" where
  "enforceNodeRule scc =
     (let c1 = (if NodeCacheDuration scc > 0 \<and> NodeCacheDuration scc < minCacheDuration
                then scc\<lparr>NodeCacheDuration := minCacheDuration\<rparr> else scc);
          c2 = (if NodeCacheDuration c1 = 0 \<and> IsNodeCacheTTL c1
                then c1\<lparr>IsNodeCacheTTL := False\<rparr> else c1)
      in (if NodeCacheDuration c2 = 0 then c2\<lparr>NodeCacheDuration := -1\<rparr> else c2))"

definition enforceRegistryRule :: "cache_config \<Rightarrow> cache_config" where
  "enforceRegistryRule scc =
     (let c1 = (if RegistryCacheDuration scc > 0 \<and> RegistryCacheDuration scc < minCacheDuration
                then scc\<lparr>RegistryCacheDuration := 10 * minute\<rparr> else scc);
          c2 = (if RegistryCacheDuration c1 = 0 \<and> IsRegistryCacheTTL c1
                then c1\<lparr>IsRegistryCacheTTL := False\<rparr> else c1)
      in (if RegistryCacheDuration c2 = 0 then c2\<lparr>RegistryCacheDuration := 10 * minute\<rparr> else c2))"

definition enforceStoreInfoRule :: "cache_config \<Rightarrow> cache_config" where
  "enforceStoreInfoRule scc =
     (let c1 = (if StoreInfoCacheDuration scc > 0 \<and> StoreInfoCacheDuration scc < minCacheDuration
                then scc\<lparr>StoreInfoCacheDuration := minCacheDuration\<rparr> else scc);
          c2 = (if StoreInfoCacheDuration c1 = 0 \<and> IsStoreInfoCacheTTL c1
                then c1\<lparr>IsStoreInfoCacheTTL := False\<rparr> else c1)
      in (if StoreInfoCacheDuration c2 = 0 then c2\<lparr>StoreInfoCacheDuration := minCacheDuration\<rparr> else c2))"

definition enforceValueDataRule :: "cache_config \<Rightarrow> cache_config" where
  "enforceValueDataRule scc =
     (let c1 = (if ValueDataCacheDuration scc \<le> 0 \<and> IsValueDataCacheTTL scc
                then scc\<lparr>IsValueDataCacheTTL := False\<rparr> else scc)
      in (if ValueDataCacheDuration c1 = 0 then c1\<lparr>ValueDataCacheDuration := minCacheDuration\<rparr> else c1))"

definition enforceMinimumRule :: "cache_config \<Rightarrow> cache_config" where
  "enforceMinimumRule scc =
     enforceValueDataRule (enforceStoreInfoRule (enforceRegistryRule (enforceNodeRule scc)))"

definition FormatRegistryTable :: "string \<Rightarrow> string" where
  "FormatRegistryTable name = name @ ''_r''"

text \<open>
  The slot length as \<open>NewStoreInfo\<close> normalises it: the default, the step down to an even
  number, the minimum, and (after the table names) the maximum. \<open>%\<close> truncates towards
  zero in Go; the argument is positive here.
\<close>

definition normalizeSlotLength :: "int \<Rightarrow> int" where
  "normalizeSlotLength n0 =
     (let n1 = (if n0 \<le> 0 then 2000 else n0);
          n2 = (if n1 mod 2 \<noteq> 0 then n1 - 1 else n1);
          n3 = (if n2 < 2 then 2 else n2)
      in (if n3 > MaxSlotLength then MaxSlotLength else n3))"

text \<open>
  \<open>pathSep\<close> is \<open>os.PathSeparator\<close>, \<open>version\<close> the embedded version file, \<open>dcc\<close> the
  process-wide default cache configuration. The code normalises the cache configuration in
  place, so the second component is what \<open>*si.CacheConfig\<close> holds afterwards.
\<close>

definition NewStoreInfo ::
  "char \<Rightarrow> string \<Rightarrow> cache_config \<Rightarrow> store_options \<Rightarrow> store_info \<times> cache_config" where
  "NewStoreInfo pathSep version dcc so =
     (let registryTableName = (if \<not> DisableRegistryStoreFormatting so
                               then FormatRegistryTable (so_Name so) else so_Name so);
          base = (if suffix (so_Name so) (BlobStoreBaseFolderPath so)
                  then BlobStoreBaseFolderPath so
                  else BlobStoreBaseFolderPath so @ [pathSep] @ so_Name so);
          blobTableName = (if \<not> DisableBlobStoreFormatting so
                           then (if BlobStoreBaseFolderPath so \<noteq> [] then base
                                 else so_Name so @ ''_b'')
                           else so_Name so);
          inSeg = so_IsValueDataInNodeSegment so;
          glob0 = (if inSeg then False else so_IsValueDataGloballyCached so);
          actively = (if inSeg then False else so_IsValueDataActivelyPersisted so);
          cc = enforceMinimumRule (case so_CacheConfig so of None \<Rightarrow> dcc | Some c \<Rightarrow> c);
          glob = (if ValueDataCacheDuration cc < 0 then False else glob0)
      in (\<lparr>si_Name = so_Name so,
           SlotLength = normalizeSlotLength (so_SlotLength so),
           IsUnique = so_IsUnique so,
           si_Description = so_Description so,
           RegistryTable = registryTableName,
           BlobTable = blobTableName,
           RootNodeID = NilUUID, si_Count = 0, CountDelta = 0, Timestamp = 0,
           IsValueDataInNodeSegment = inSeg,
           IsValueDataActivelyPersisted = actively,
           IsValueDataGloballyCached = glob,
           LeafLoadBalancing = so_LeafLoadBalancing so,
           CacheConfig = cc,
           MapKeyIndexSpecification = so_MapKeyIndexSpecification so,
           CELexpression = so_CELexpression so,
           IsPrimitiveKey = so_IsPrimitiveKey so,
           Relations = so_Relations so,
           Schema = Map.empty, KeyFields = [], ValueFields = [],
           CustomData = so_CustomData so,
           NeedsMetaDataSave = False,
           si_Version = version\<rparr>, cc))"

definition si_IsEmpty :: "store_info \<Rightarrow> bool" where
  "si_IsEmpty s = (si_Name s = [] \<and> SlotLength s = 0)"

definition IsCompatible :: "store_info \<Rightarrow> store_info \<Rightarrow> bool" where
  "IsCompatible s b =
     (SlotLength s = SlotLength b \<and>
      IsUnique s = IsUnique b \<and>
      BlobTable s = BlobTable b \<and>
      RegistryTable s = RegistryTable b \<and>
      IsValueDataInNodeSegment s = IsValueDataInNodeSegment b \<and>
      IsValueDataActivelyPersisted s = IsValueDataActivelyPersisted b \<and>
      IsValueDataGloballyCached s = IsValueDataGloballyCached b \<and>
      LeafLoadBalancing s = LeafLoadBalancing b \<and>
      MapKeyIndexSpecification s = MapKeyIndexSpecification b \<and>
      CELexpression s = CELexpression b)"

definition defaultCacheConfig :: cache_config where
  "defaultCacheConfig =
     \<lparr>RegistryCacheDuration = 15 * minute, IsRegistryCacheTTL = False,
      NodeCacheDuration = 5 * minute, IsNodeCacheTTL = False,
      ValueDataCacheDuration = 10 * minute, IsValueDataCacheTTL = False,
      StoreInfoCacheDuration = 10 * minute, IsStoreInfoCacheTTL = False\<rparr>"

definition ConfigureStore ::
  "cache_config \<Rightarrow> string \<Rightarrow> bool \<Rightarrow> int \<Rightarrow> string \<Rightarrow> value_data_size \<Rightarrow> string \<Rightarrow> store_options" where
  "ConfigureStore dcc storeName uniqueKey slotLength description valueDataSize base =
     (let so = \<lparr>so_Name = storeName, so_SlotLength = slotLength, so_IsUnique = uniqueKey,
            so_IsValueDataInNodeSegment = True, so_IsValueDataActivelyPersisted = False,
            so_IsValueDataGloballyCached = False, so_LeafLoadBalancing = False,
            so_Description = description, BlobStoreBaseFolderPath = base,
            DisableBlobStoreFormatting = False, DisableRegistryStoreFormatting = False,
            so_CacheConfig = Some dcc,
            so_CELexpression = [], so_MapKeyIndexSpecification = [], so_IsPrimitiveKey = False,
            so_Relations = [], so_CustomData = None\<rparr>;
          so1 = (if valueDataSize = MediumData
                 then so\<lparr>so_IsValueDataInNodeSegment := False, so_IsValueDataGloballyCached := True\<rparr>
                 else so)
      in (if valueDataSize = BigData
          then so1\<lparr>so_IsValueDataInNodeSegment := False, so_IsValueDataGloballyCached := False,
                   so_IsValueDataActivelyPersisted := True\<rparr>
          else so1))"

section \<open>Properties\<close>

lemma normalizeSlotLength_bounds:
  "even (normalizeSlotLength n) \<and> 2 \<le> normalizeSlotLength n \<and> normalizeSlotLength n \<le> MaxSlotLength"
  by (auto simp: normalizeSlotLength_def MaxSlotLength_def Let_def)

text \<open>
  C37. Whatever slot length is asked for, the store that \<open>NewStoreInfo\<close> creates has an
  even slot length between 2 and \<open>MaxSlotLength\<close>: the range the B-tree's splitting relies
  on (half of the slots to each side and one in the middle).
\<close>

theorem NewStoreInfo_slot_length:
  "even (SlotLength (fst (NewStoreInfo sep v dcc so))) \<and>
   2 \<le> SlotLength (fst (NewStoreInfo sep v dcc so)) \<and>
   SlotLength (fst (NewStoreInfo sep v dcc so)) \<le> MaxSlotLength"
  using normalizeSlotLength_bounds by (simp add: NewStoreInfo_def Let_def)

text \<open>Each rule touches its own artifact only, and is idle on a configuration it has normalised.\<close>

lemma enforceNodeRule_fields:
  "NodeCacheDuration (enforceNodeRule c) =
     (if NodeCacheDuration c = 0 then -1
      else if NodeCacheDuration c > 0 \<and> NodeCacheDuration c < minCacheDuration then minCacheDuration
      else NodeCacheDuration c)"
  "IsNodeCacheTTL (enforceNodeRule c) = (IsNodeCacheTTL c \<and> NodeCacheDuration c \<noteq> 0)"
  "RegistryCacheDuration (enforceNodeRule c) = RegistryCacheDuration c"
  "StoreInfoCacheDuration (enforceNodeRule c) = StoreInfoCacheDuration c"
  "ValueDataCacheDuration (enforceNodeRule c) = ValueDataCacheDuration c"
  by (auto simp: enforceNodeRule_def Let_def minCacheDuration_def minute_def)

lemma enforceNodeRule_idle:
  "NodeCacheDuration c < 0 \<or> minCacheDuration \<le> NodeCacheDuration c \<Longrightarrow> enforceNodeRule c = c"
  by (auto simp: enforceNodeRule_def Let_def minCacheDuration_def minute_def)

lemma enforceRegistryRule_fields:
  "RegistryCacheDuration (enforceRegistryRule c) =
     (if RegistryCacheDuration c = 0 \<or> RegistryCacheDuration c > 0 \<and> RegistryCacheDuration c < minCacheDuration
      then 10 * minute else RegistryCacheDuration c)"
  "NodeCacheDuration (enforceRegistryRule c) = NodeCacheDuration c"
  "IsNodeCacheTTL (enforceRegistryRule c) = IsNodeCacheTTL c"
  "StoreInfoCacheDuration (enforceRegistryRule c) = StoreInfoCacheDuration c"
  "ValueDataCacheDuration (enforceRegistryRule c) = ValueDataCacheDuration c"
  by (simp_all add: enforceRegistryRule_def Let_def minCacheDuration_def minute_def)

lemma enforceRegistryRule_idle:
  "RegistryCacheDuration c < 0 \<or> minCacheDuration \<le> RegistryCacheDuration c \<Longrightarrow> enforceRegistryRule c = c"
  by (auto simp: enforceRegistryRule_def Let_def minCacheDuration_def minute_def)

lemma enforceStoreInfoRule_fields:
  "StoreInfoCacheDuration (enforceStoreInfoRule c) =
     (if StoreInfoCacheDuration c = 0 \<or> StoreInfoCacheDuration c > 0 \<and> StoreInfoCacheDuration c < minCacheDuration
      then minCacheDuration else StoreInfoCacheDuration c)"
  "NodeCacheDuration (enforceStoreInfoRule c) = NodeCacheDuration c"
  "IsNodeCacheTTL (enforceStoreInfoRule c) = IsNodeCacheTTL c"
  "RegistryCacheDuration (enforceStoreInfoRule c) = RegistryCacheDuration c"
  "ValueDataCacheDuration (enforceStoreInfoRule c) = ValueDataCacheDuration c"
  by (simp_all add: enforceStoreInfoRule_def Let_def minCacheDuration_def minute_def)

lemma enforceStoreInfoRule_idle:
  "StoreInfoCacheDuration c < 0 \<or> minCacheDuration \<le> StoreInfoCacheDuration c \<Longrightarrow> enforceStoreInfoRule c = c"
  by (auto simp: enforceStoreInfoRule_def Let_def minCacheDuration_def minute_def)

lemma enforceValueDataRule_fields:
  "ValueDataCacheDuration (enforceValueDataRule c) =
     (if ValueDataCacheDuration c = 0 then minCacheDuration else ValueDataCacheDuration c)"
  "NodeCacheDuration (enforceValueDataRule c) = NodeCacheDuration c"
  "IsNodeCacheTTL (enforceValueDataRule c) = IsNodeCacheTTL c"
  "RegistryCacheDuration (enforceValueDataRule c) = RegistryCacheDuration c"
  "StoreInfoCacheDuration (enforceValueDataRule c) = StoreInfoCacheDuration c"
  "IsValueDataCacheTTL (enforceValueDataRule c) = (IsValueDataCacheTTL c \<and> ValueDataCacheDuration c > 0)"
  by (simp_all add: enforceValueDataRule_def Let_def not_le)

lemma enforceValueDataRule_idle:
  "ValueDataCacheDuration c \<noteq> 0 \<Longrightarrow> ValueDataCacheDuration c > 0 \<or> \<not> IsValueDataCacheTTL c \<Longrightarrow>
   enforceValueDataRule c = c"
  by (auto simp: enforceValueDataRule_def Let_def)

lemmas enforce_fields = enforceNodeRule_fields enforceRegistryRule_fields
  enforceStoreInfoRule_fields enforceValueDataRule_fields

text \<open>
  The cache policy: after \<open>enforceMinimumRule\<close> the node, registry and store-info
  durations are negative (no caching) or at least five minutes, the value-data duration is not
  zero and has a sliding TTL only when positive, a node duration of zero means no caching and
  no TTL, and applying the rule a second time changes nothing.
\<close>

theorem enforceMinimumRule_normal:
  "(let c = enforceMinimumRule scc in
     (NodeCacheDuration c < 0 \<or> minCacheDuration \<le> NodeCacheDuration c) \<and>
     (RegistryCacheDuration c < 0 \<or> minCacheDuration \<le> RegistryCacheDuration c) \<and>
     (StoreInfoCacheDuration c < 0 \<or> minCacheDuration \<le> StoreInfoCacheDuration c) \<and>
     ValueDataCacheDuration c \<noteq> 0 \<and>
     (NodeCacheDuration scc = 0 \<longrightarrow> NodeCacheDuration c = -1 \<and> \<not> IsNodeCacheTTL c) \<and>
     enforceMinimumRule c = c)"
proof -
  define c where "c = enforceMinimumRule scc"
  have n: "NodeCacheDuration c < 0 \<or> minCacheDuration \<le> NodeCacheDuration c"
    and r: "RegistryCacheDuration c < 0 \<or> minCacheDuration \<le> RegistryCacheDuration c"
    and s: "StoreInfoCacheDuration c < 0 \<or> minCacheDuration \<le> StoreInfoCacheDuration c"
    and v: "ValueDataCacheDuration c \<noteq> 0"
    and z: "NodeCacheDuration scc = 0 \<longrightarrow> NodeCacheDuration c = -1 \<and> \<not> IsNodeCacheTTL c"
    by (auto simp: c_def enforceMinimumRule_def enforce_fields minCacheDuration_def minute_def)
  have t: "ValueDataCacheDuration c > 0 \<or> \<not> IsValueDataCacheTTL c"
    by (auto simp: c_def enforceMinimumRule_def enforce_fields minCacheDuration_def minute_def)
  have "enforceMinimumRule c = c"
    unfolding enforceMinimumRule_def [of c]
    by (simp add: enforceNodeRule_idle [OF n] enforceRegistryRule_idle [OF r]
        enforceStoreInfoRule_idle [OF s] enforceValueDataRule_idle [OF v t])
  with n r s v z show ?thesis by (simp add: c_def)
qed

text \<open>The theorem at a configuration without node caching.\<close>

theorem enforceMinimumRule_normal_witness:
  "NodeCacheDuration (enforceMinimumRule (defaultCacheConfig\<lparr>NodeCacheDuration := 0\<rparr>)) = -1"
  using enforceMinimumRule_normal [of "defaultCacheConfig\<lparr>NodeCacheDuration := 0\<rparr>"]
  by (simp add: Let_def)

text \<open>
  \<open>ConfigureStore\<close> and \<open>StoreInfo.ValueDataSize\<close> are inverse: a store configured for a
  value size reports that size after normalisation.
\<close>

theorem ConfigureStore_ValueDataSize:
  "ValueDataSize (fst (NewStoreInfo sep v dcc
     (ConfigureStore dcc' name uniq slots descr vds base))) = vds"
  by (cases vds) (simp_all add: NewStoreInfo_def ConfigureStore_def ValueDataSize_def Let_def)

lemma CustomData_ops:
  "GetCustomData (SetCustomData si k v) k' = (if k' = k then Some v else GetCustomData si k')"
  "GetCustomData (snd (DeleteCustomData si k)) k' = (if k' = k then None else GetCustomData si k')"
  "fst (DeleteCustomData si k) = (GetCustomData si k \<noteq> None)"
  by (auto simp: GetCustomData_def SetCustomData_def DeleteCustomData_def split: option.split)

end
