(* ===== verification/Btree_Data.thy ===== *)
theory Btree_Data
  imports Store_Info
begin

text \<open>
  The B-tree's data and its lowest layer (\<open>btree/node.go\<close>, \<open>btree/btree.go\<close>,
  \<open>inmemory/noderepository.go\<close>): items, nodes, the \<open>Btree\<close> struct with its scratch
  fields and cursor, access to the node repository, and the array helpers.

  A pointer to a node is the node's ID: the repository maps an ID to the one node object
  with that ID, as the in-memory repository and a transaction's local cache do. A method
  works on the node record it read and the record is written back where the code calls
  \<open>saveNode\<close>, or by \<open>putNode\<close> where the code changes the shared object without saving it.
\<close>

section \<open>Items and nodes\<close>

record ('k, 'v) item =
  itemID :: uuid
  Key :: 'k
  Value :: "'v option"
  itemVersion :: "32 word"
  ValueNeedsFetch :: bool
  valueWasFetched :: bool

text \<open>\<open>ChildrenIDs = None\<close> is the nil slice.\<close>

record ('k, 'v) node =
  nodeID :: uuid
  ParentID :: uuid
  Slots :: "('k, 'v) item list"
  Count :: nat
  nodeVersion :: "32 word"
  ChildrenIDs :: "uuid list option"
  indexOfNode :: int

datatype item_action = AddAction | GetAction | UpdateAction | RemoveAction

text \<open>
  \<open>*Item\<close> held as the current item: nil, the address of a slot of a node, or an item
  passed in by the caller (\<open>UpdateCurrentItemWithItem\<close>).
\<close>

datatype ('k, 'v) item_ptr = NilPtr | SlotPtr uuid int | ItemPtr "('k, 'v) item"

text \<open>
  The \<open>Btree\<close> struct. \<open>repo\<close> is the node repository's map and \<open>repoFail\<close> its failures: the
  IDs on which \<open>Get\<close> returns an error. \<open>tracker\<close> is the item action tracker, a function of
  the calls made so far (\<open>trackerLog\<close>, oldest first) that returns an error or the item as the
  tracker leaves it (it may fetch the value and raise the version through the pointer it is
  given). \<open>comparer\<close> is the explicit comparer or the one \<open>typedComparerFor\<close> gives for the key
  type. \<open>zeroKey\<close> and \<open>zeroValue\<close> are Go's zero values of the key and value types.
  \<open>uuidGen\<close> is the sequence of UUIDs that \<open>sop.NewUUID\<close> will return, \<open>uuidNext\<close> the number
  already drawn. \<open>fuel\<close> bounds the iterations of each loop over the heap.
\<close>

record ('k, 'v) btree =
  StoreInfo :: store_info
  repo :: "uuid \<rightharpoonup> ('k, 'v) node"
  repoFail :: "uuid \<Rightarrow> string option"
  fetched :: "uuid list"
  tracker :: "(item_action \<times> ('k, 'v) item) list \<Rightarrow> item_action \<Rightarrow> ('k, 'v) item \<Rightarrow> string + ('k, 'v) item"
  trackerLog :: "(item_action \<times> ('k, 'v) item) list"
  tempSlots :: "('k, 'v) item list"
  tempParent :: "('k, 'v) item"
  tempChildren :: "uuid list"
  tempParentChildren :: "uuid list"
  curNodeID :: uuid
  curItemIndex :: int
  currentItem :: "('k, 'v) item_ptr"
  daSource :: "uuid option"
  daItem :: "('k, 'v) item"
  daToLeft :: bool
  paTarget :: "uuid option"
  paIndex :: int
  comparer :: "'k \<Rightarrow> 'k \<Rightarrow> int"
  zeroKey :: 'k
  zeroValue :: 'v
  uuidGen :: "nat \<Rightarrow> uuid"
  uuidNext :: nat
  fuel :: nat

type_synonym ('k, 'v, 'a) bm = "(('k, 'v) btree, 'a) gom"

definition zeroItem :: "'k \<Rightarrow> ('k, 'v) item" where
  "zeroItem z = \<lparr>itemID = NilUUID, Key = z, Value = None, itemVersion = 0,
     ValueNeedsFetch = False, valueWasFetched = False\<rparr>"

section \<open>Helpers of the Btree\<close>

definition getSlotLength :: "('k, 'v) btree \<Rightarrow> nat" where
  "getSlotLength bt =
     (let n = SlotLength (StoreInfo bt)
      in if n < 2 then 2 else if n > MaxSlotLength then nat MaxSlotLength else nat n)"

definition compare :: "('k, 'v) btree \<Rightarrow> 'k \<Rightarrow> 'k \<Rightarrow> int" where
  "compare bt a b = comparer bt a b"

definition isUnique :: "('k, 'v) btree \<Rightarrow> bool" where
  "isUnique bt = IsUnique (StoreInfo bt)"

definition newUUID :: "('k, 'v, uuid) bm" where
  "newUUID = gbind (reads (\<lambda>bt. uuidGen bt (uuidNext bt)))
     (\<lambda>u. gseq (modify (\<lambda>bt. bt\<lparr>uuidNext := Suc (uuidNext bt)\<rparr>)) (ret u))"

definition newItem :: "'k \<Rightarrow> 'v \<Rightarrow> ('k, 'v, ('k, 'v) item) bm" where
  "newItem key v = gbind newUUID (\<lambda>u. ret \<lparr>itemID = u, Key = key, Value = Some v,
     itemVersion = 0, ValueNeedsFetch = False, valueWasFetched = False\<rparr>)"

definition newNode :: "'k \<Rightarrow> nat \<Rightarrow> ('k, 'v) node" where
  "newNode z slotCount = \<lparr>nodeID = NilUUID, ParentID = NilUUID,
     Slots = replicate slotCount (zeroItem z), Count = 0, nodeVersion = 0,
     ChildrenIDs = None, indexOfNode = -1\<rparr>"

text \<open>\<open>newNode[TK, TV](btree.getSlotLength())\<close> followed by \<open>n.newID(parentID)\<close>.\<close>

definition newID :: "('k, 'v) node \<Rightarrow> uuid \<Rightarrow> ('k, 'v, ('k, 'v) node) bm" where
  "newID n parentID = gbind newUUID (\<lambda>u. ret (n\<lparr>nodeID := u, ParentID := parentID\<rparr>))"

definition createNode :: "uuid \<Rightarrow> ('k, 'v, ('k, 'v) node) bm" where
  "createNode parentID =
     gbind (reads (\<lambda>bt. newNode (zeroKey bt) (getSlotLength bt))) (\<lambda>n. newID n parentID)"

section \<open>The node repository\<close>

text \<open>
  \<open>inmemory.nodeRepository\<close>: \<open>Add\<close> and \<open>Update\<close> both upsert, \<open>Get\<close> looks up, \<open>Remove\<close> deletes.
\<close>

definition repoUpsert :: "('k, 'v) node \<Rightarrow> ('k, 'v, unit) bm" where
  "repoUpsert n = modify (\<lambda>bt. bt\<lparr>repo := (repo bt)(nodeID n \<mapsto> n)\<rparr>)"

definition repoGet :: "uuid \<Rightarrow> ('k, 'v, ('k, 'v) node option) bm" where
  "repoGet i = gbind (reads (\<lambda>bt. repoFail bt i)) (\<lambda>f. case f of
     Some e \<Rightarrow> fail (Err e) | None \<Rightarrow> reads (\<lambda>bt. repo bt i))"

definition repoRemove :: "uuid \<Rightarrow> ('k, 'v, unit) bm" where
  "repoRemove i = modify (\<lambda>bt. bt\<lparr>repo := (repo bt)(i := None)\<rparr>)"

definition repoFetched :: "uuid \<Rightarrow> ('k, 'v, unit) bm" where
  "repoFetched i = modify (\<lambda>bt. bt\<lparr>fetched := fetched bt @ [i]\<rparr>)"

definition putNode :: "('k, 'v) node \<Rightarrow> ('k, 'v, unit) bm" where
  "putNode = repoUpsert"

definition resizeSlice :: "'a \<Rightarrow> nat \<Rightarrow> 'a list \<Rightarrow> 'a list" where
  "resizeSlice z n xs = take n xs @ replicate (n - length xs) z"

text \<open>\<open>getNode\<close> also brings the slices of the node object to the store's slot length.\<close>

definition getNode :: "uuid \<Rightarrow> ('k, 'v, ('k, 'v) node option) bm" where
  "getNode i = gbind (repoGet i) (\<lambda>r. case r of
     None \<Rightarrow> ret None
   | Some n \<Rightarrow> gbind (reads (\<lambda>bt. n\<lparr>
         Slots := resizeSlice (zeroItem (zeroKey bt)) (getSlotLength bt) (Slots n),
         ChildrenIDs := map_option (resizeSlice NilUUID (Suc (getSlotLength bt))) (ChildrenIDs n)\<rparr>))
       (\<lambda>n'. gseq (modify (\<lambda>bt. bt\<lparr>repo := (repo bt)(i \<mapsto> n')\<rparr>)) (ret (Some n'))))"

definition saveNode :: "('k, 'v) node \<Rightarrow> ('k, 'v, unit) bm" where
  "saveNode n = (if nodeID n = NilUUID
     then gbind newUUID (\<lambda>u. repoUpsert (n\<lparr>nodeID := u\<rparr>))
     else repoUpsert n)"

definition removeNode :: "('k, 'v) node \<Rightarrow> ('k, 'v, unit) bm" where
  "removeNode n = (if nodeID n = NilUUID then ret () else repoRemove (nodeID n))"

section \<open>The item action tracker\<close>

definition track :: "item_action \<Rightarrow> ('k, 'v) item \<Rightarrow> ('k, 'v, ('k, 'v) item) bm" where
  "track a it = gbind (reads (\<lambda>bt. tracker bt (trackerLog bt) a it)) (\<lambda>r. case r of
     Inl e \<Rightarrow> fail (Err e)
   | Inr it' \<Rightarrow> gseq (modify (\<lambda>bt. bt\<lparr>trackerLog := trackerLog bt @ [(a, it)]\<rparr>)) (ret it'))"

section \<open>The cursor\<close>

text \<open>
  Reading and writing through an item pointer. A \<open>SlotPtr\<close> whose node is gone would be a
  dangling slot address: reading it is a panic here, writing it has no effect.
\<close>

definition derefItem :: "('k, 'v) item_ptr \<Rightarrow> ('k, 'v, ('k, 'v) item) bm" where
  "derefItem p = (case p of
     NilPtr \<Rightarrow> fail Panic
   | ItemPtr it \<Rightarrow> ret it
   | SlotPtr i j \<Rightarrow> gbind (reads (\<lambda>bt. repo bt i)) (\<lambda>r. case r of
       None \<Rightarrow> fail Panic | Some n \<Rightarrow> aget_int (Slots n) j))"

definition setSlot :: "('k, 'v) btree \<Rightarrow> uuid \<Rightarrow> int \<Rightarrow> ('k, 'v) item \<Rightarrow> ('k, 'v) btree" where
  "setSlot bt i j it = (case repo bt i of
     None \<Rightarrow> bt
   | Some n \<Rightarrow> if 0 \<le> j \<and> j < int (length (Slots n))
       then bt\<lparr>repo := (repo bt)(i \<mapsto> n\<lparr>Slots := (Slots n)[nat j := it]\<rparr>)\<rparr> else bt)"

definition writeItem :: "('k, 'v) item_ptr \<Rightarrow> ('k, 'v) item \<Rightarrow> ('k, 'v, unit) bm" where
  "writeItem p it = (case p of
     NilPtr \<Rightarrow> fail Panic
   | ItemPtr _ \<Rightarrow> modify (\<lambda>bt. bt\<lparr>currentItem := ItemPtr it\<rparr>)
   | SlotPtr i j \<Rightarrow> modify (\<lambda>bt. setSlot bt i j it))"

text \<open>
  Values are dropped from memory when the cursor leaves an item only for stores that keep
  the value outside the node, persist it at once and do not cache it globally.
\<close>

definition dropsValues :: "store_info \<Rightarrow> bool" where
  "dropsValues si = (\<not> IsValueDataInNodeSegment si \<and> IsValueDataActivelyPersisted si \<and>
     \<not> IsValueDataGloballyCached si)"

definition unfetchCurrentValue :: "('k, 'v, unit) bm" where
  "unfetchCurrentValue = gbind (reads (\<lambda>bt. dropsValues (StoreInfo bt) \<and> currentItem bt \<noteq> NilPtr))
     (\<lambda>c. if \<not> c then ret ()
          else gbind (reads currentItem) (\<lambda>p. gbind (derefItem p) (\<lambda>it.
            if Value it \<noteq> None \<and> valueWasFetched it
            then writeItem p (it\<lparr>Value := None, ValueNeedsFetch := True, valueWasFetched := False\<rparr>)
            else ret ())))"

definition setCurrentItemID :: "uuid \<Rightarrow> int \<Rightarrow> ('k, 'v, unit) bm" where
  "setCurrentItemID i j = gseq unfetchCurrentValue
     (gseq (modify (\<lambda>bt. bt\<lparr>currentItem := NilPtr\<rparr>))
        (modify (\<lambda>bt. if curNodeID bt = i \<and> curItemIndex bt = j then bt
                      else bt\<lparr>curNodeID := i, curItemIndex := j\<rparr>)))"

definition isCurrentItemSelected :: "('k, 'v) btree \<Rightarrow> bool" where
  "isCurrentItemSelected bt = (curNodeID bt \<noteq> NilUUID \<and> curItemIndex bt \<ge> 0)"

text \<open>\<open>getCurrentItem\<close> returns the pointer, nil when no item is selected.\<close>

definition getCurrentItem :: "('k, 'v, ('k, 'v) item_ptr) bm" where
  "getCurrentItem = gbind (reads id) (\<lambda>bt.
     if curNodeID bt = NilUUID
     then gseq (modify (\<lambda>bt. bt\<lparr>currentItem := NilPtr\<rparr>)) (ret NilPtr)
     else if currentItem bt \<noteq> NilPtr then ret (currentItem bt)
     else gbind (repoGet (curNodeID bt)) (\<lambda>r. case r of
            None \<Rightarrow> fail Panic
          | Some n \<Rightarrow> gbind (aget_int (Slots n) (curItemIndex bt)) (\<lambda>_.
              gseq (modify (\<lambda>bt. bt\<lparr>currentItem := SlotPtr (curNodeID bt) (curItemIndex bt)\<rparr>))
                (ret (SlotPtr (curNodeID bt) (curItemIndex bt))))))"

section \<open>Array helpers of node.go\<close>

definition copyArrayElements :: "'a list \<Rightarrow> 'a list \<Rightarrow> nat \<Rightarrow> ('s, 'a list) gom" where
  "copyArrayElements destination source count =
     (if count = 0 then ret destination
      else if count \<le> length destination \<and> count \<le> length source
      then ret (take count source @ drop count destination) else fail Panic)"

definition moveArrayElements :: "'a list \<Rightarrow> nat \<Rightarrow> nat \<Rightarrow> nat \<Rightarrow> 'a list" where
  "moveArrayElements array destStartIndex srcStartIndex count =
     (if count = 0 \<or> destStartIndex \<ge> length array \<or> srcStartIndex \<ge> length array then array
      else let endSrc = min (srcStartIndex + count) (length array)
           in go_copy_at array destStartIndex (take (endSrc - srcStartIndex) (drop srcStartIndex array)))"

definition shiftSlots :: "'a list \<Rightarrow> nat \<Rightarrow> nat \<Rightarrow> 'a list" where
  "shiftSlots array position noOfOccupiedSlots =
     (if position < noOfOccupiedSlots
      then moveArrayElements array (position + 1) position (noOfOccupiedSlots - position)
      else array)"

section \<open>Node queries\<close>

definition children :: "('k, 'v) node \<Rightarrow> uuid list" where
  "children n = (case ChildrenIDs n of None \<Rightarrow> [] | Some cs \<Rightarrow> cs)"

definition hasChildren :: "('k, 'v) node \<Rightarrow> bool" where
  "hasChildren n = (length (children n) > 0)"

definition isRootNode :: "('k, 'v) node \<Rightarrow> bool" where
  "isRootNode n = (ParentID n = NilUUID)"

definition isFull :: "('k, 'v) node \<Rightarrow> bool" where
  "isFull n = (Count n \<ge> length (Slots n))"

definition isNilChildren :: "('k, 'v) node \<Rightarrow> bool" where
  "isNilChildren n = (\<forall>i\<in>set (children n). i = NilUUID)"

definition getChildID :: "('k, 'v) node \<Rightarrow> nat \<Rightarrow> ('k, 'v, uuid) bm" where
  "getChildID n index = (if length (children n) = 0 then ret NilUUID else aget (children n) index)"

definition getChild :: "('k, 'v) node \<Rightarrow> nat \<Rightarrow> ('k, 'v, ('k, 'v) node option) bm" where
  "getChild n index = gbind (getChildID n index)
     (\<lambda>i. if i = NilUUID then ret None else getNode i)"

definition getParent :: "('k, 'v) node \<Rightarrow> ('k, 'v, ('k, 'v) node option) bm" where
  "getParent n = (if ParentID n = NilUUID then ret None else getNode (ParentID n))"

text \<open>\<open>getChildren\<close>: a nil entry for a nil child ID.\<close>

fun getChildrenFrom :: "uuid list \<Rightarrow> ('k, 'v, ('k, 'v) node option list) bm" where
  "getChildrenFrom [] = ret []"
| "getChildrenFrom (i # is) =
     gbind (if i = NilUUID then ret None else getNode i) (\<lambda>c.
       gbind (getChildrenFrom is) (\<lambda>cs. ret (c # cs)))"

definition getChildren :: "('k, 'v) node \<Rightarrow> ('k, 'v, ('k, 'v) node option list) bm" where
  "getChildren n = getChildrenFrom (children n)"

text \<open>
  \<open>parent.getIndexOfChild(child)\<close>: the cached index, recomputed when it is unknown or no
  longer points at the child. The loop leaves \<open>indexOfNode = len(parent.Slots) + 1\<close> when the
  child is not there. The new index is stored in the child object.
\<close>

fun findChildIndex :: "uuid list \<Rightarrow> uuid \<Rightarrow> nat \<Rightarrow> nat \<Rightarrow> go_error + nat" where
  "findChildIndex cs cid i 0 = Inr i"
| "findChildIndex cs cid i (Suc n) =
     (if i < length cs
      then (if cs ! i \<noteq> NilUUID \<and> cs ! i = cid then Inr i else findChildIndex cs cid (Suc i) n)
      else Inl Panic)"

definition getIndexOfChild :: "('k, 'v) node \<Rightarrow> ('k, 'v) node \<Rightarrow> ('k, 'v, int \<times> ('k, 'v) node) bm" where
  "getIndexOfChild parent child =
     (case ChildrenIDs parent of
        None \<Rightarrow> ret (indexOfNode child, child)
      | Some cs \<Rightarrow>
          gbind (if indexOfNode child = -1 then ret True
                 else gbind (aget_int cs (indexOfNode child)) (\<lambda>c. ret (nodeID child \<noteq> c)))
            (\<lambda>stale. if \<not> stale then ret (indexOfNode child, child)
              else gbind (lift_res (findChildIndex cs (nodeID child) 0 (Suc (length (Slots parent)))))
                (\<lambda>i. let child' = child\<lparr>indexOfNode := int i\<rparr>
                     in gseq (putNode child') (ret (int i, child')))))"

definition getIndexOfNode :: "('k, 'v) node \<Rightarrow> ('k, 'v, int) bm" where
  "getIndexOfNode n = gbind (getParent n) (\<lambda>p. case p of
     None \<Rightarrow> ret 0
   | Some parent \<Rightarrow> gbind (getIndexOfChild parent n) (\<lambda>(i, _). ret i))"

definition getLeftSibling :: "('k, 'v) node \<Rightarrow> ('k, 'v, ('k, 'v) node option) bm" where
  "getLeftSibling n = gbind (getIndexOfNode n) (\<lambda>index. gbind (getParent n) (\<lambda>p. case p of
     None \<Rightarrow> ret None
   | Some parent \<Rightarrow> if index > 0 \<and> index \<le> int (Count parent)
       then getChild parent (nat (index - 1)) else ret None))"

definition getRightSibling :: "('k, 'v) node \<Rightarrow> ('k, 'v, ('k, 'v) node option) bm" where
  "getRightSibling n = gbind (getIndexOfNode n) (\<lambda>index. gbind (getParent n) (\<lambda>p. case p of
     None \<Rightarrow> ret None
   | Some parent \<Rightarrow> if index \<ge> 0 \<and> index < int (Count parent)
       then getChild parent (nat (index + 1)) else ret None))"

text \<open>
  \<open>for i := 0; i <= node.Count; i++\<close> looking for the first nil child: \<open>Count + 1\<close> when
  there is none. Reading past the slice is a panic.
\<close>

fun firstNilChild :: "uuid list \<Rightarrow> nat \<Rightarrow> nat \<Rightarrow> go_error + nat" where
  "firstNilChild cs i 0 = Inr i"
| "firstNilChild cs i (Suc n) =
     (if i < length cs then (if cs ! i = NilUUID then Inr i else firstNilChild cs (Suc i) n)
      else Inl Panic)"

definition nodeHasNilChild :: "('k, 'v) node \<Rightarrow> ('k, 'v, bool) bm" where
  "nodeHasNilChild n = (if \<not> hasChildren n then ret False
     else gbind (lift_res (firstNilChild (children n) 0 (Suc (Count n))))
       (\<lambda>i. ret (i \<le> Count n)))"

section \<open>Copying nodes\<close>

text \<open>
  \<open>CopyTo\<close> and \<open>Clone\<close> produce a node with the same contents in fresh slices; an empty
  slice becomes nil. \<open>MarshalJSON\<close> writes the first \<open>Count\<close> slots only.
\<close>

definition CopyTo :: "('k, 'v) node \<Rightarrow> ('k, 'v) node \<Rightarrow> ('k, 'v) node" where
  "CopyTo n target = target\<lparr>nodeID := nodeID n, ParentID := ParentID n, Count := Count n,
     nodeVersion := nodeVersion n, indexOfNode := indexOfNode n,
     Slots := (if length (Slots n) = 0 then [] else Slots n),
     ChildrenIDs := (if length (children n) = 0 then None else Some (children n))\<rparr>"

definition Clone :: "('k, 'v) node \<Rightarrow> ('k, 'v) node" where
  "Clone n = CopyTo n \<lparr>nodeID = NilUUID, ParentID = NilUUID, Slots = [], Count = 0,
     nodeVersion = 0, ChildrenIDs = None, indexOfNode = 0\<rparr>"

end
