(* ===== verification/Btree_Ops.thy ===== *)
theory Btree_Ops
  imports Btree_Data
begin

text \<open>
  The operations of the B-tree: the methods of \<open>Node\<close> (\<open>btree/node.go\<close>,
  \<open>btree/node.handlenilchild.go\<close>) that walk, insert, distribute, promote and remove, and the
  methods of \<open>Btree\<close> (\<open>btree/btree.go\<close>) that drive them.
\<close>

section \<open>Error handling idioms\<close>

text \<open>
  A call whose error result is dropped. A panic is not an error value, so it passes through.
\<close>

definition ignoreErr :: "('s, 'a) gom \<Rightarrow> ('s, unit) gom" where
  "ignoreErr m = (\<lambda>s. case m s of
     (Inl (Err _), s') \<Rightarrow> (Inr (), s') | (Inl e, s') \<Rightarrow> (Inl e, s') | (Inr _, s') \<Rightarrow> (Inr (), s'))"

text \<open>\<open>r, err := m(); k(); return r, err\<close>, where the error of \<open>k\<close> is dropped.\<close>

definition andThen :: "('s, 'a) gom \<Rightarrow> ('s, 'b) gom \<Rightarrow> ('s, 'a) gom" where
  "andThen m k = (\<lambda>s. case m s of
     (Inl (Err e), s') \<Rightarrow> (case ignoreErr k s' of (Inl e', s'') \<Rightarrow> (Inl e', s'') | (Inr _, s'') \<Rightarrow> (Inl (Err e), s''))
   | (Inl e, s') \<Rightarrow> (Inl e, s')
   | (Inr x, s') \<Rightarrow> (case ignoreErr k s' of (Inl e', s'') \<Rightarrow> (Inl e', s'') | (Inr _, s'') \<Rightarrow> (Inr x, s'')))"

text \<open>A method call on a pointer that may be nil.\<close>

definition nonNil :: "'a option \<Rightarrow> ('s, 'a) gom" where
  "nonNil p = (case p of None \<Rightarrow> fail Panic | Some x \<Rightarrow> ret x)"

text \<open>The node object as it is in the repository now.\<close>

definition refresh :: "('k, 'v) node \<Rightarrow> ('k, 'v, ('k, 'v) node) bm" where
  "refresh n = reads (\<lambda>bt. case repo bt (nodeID n) of None \<Rightarrow> n | Some n' \<Rightarrow> n')"

section \<open>Search in a node\<close>

definition slotSearch :: "('k, 'v) node \<Rightarrow> ('k \<Rightarrow> bool) \<Rightarrow> ('k, 'v, nat) bm" where
  "slotSearch n p = lift_res (sort_search (Count n)
     (\<lambda>i. case sget (Slots n) i of Inl e \<Rightarrow> Inl e | Inr s \<Rightarrow> Inr (p (Key s))))"

definition getIndexToInsertTo :: "('k, 'v) node \<Rightarrow> ('k, 'v) item \<Rightarrow> ('k, 'v, nat \<times> bool) bm" where
  "getIndexToInsertTo n it = gbind (reads id) (\<lambda>bt.
     if Count n = 0 then ret (0, False)
     else gbind (slotSearch n (\<lambda>k. compare bt k (Key it) \<ge> 0)) (\<lambda>index.
       if isUnique bt
       then let i = (if index \<ge> Count n then index - 1 else index)
            in gbind (aget (Slots n) i) (\<lambda>s. ret (index, compare bt (Key s) (Key it) = 0))
       else ret (index, False)))"

definition insertSlotItem :: "('k, 'v) node \<Rightarrow> ('k, 'v) item \<Rightarrow> nat \<Rightarrow> ('k, 'v, ('k, 'v) node) bm" where
  "insertSlotItem n it position =
     gbind (slice_from (Slots n) (position + 1)) (\<lambda>_.
     gbind (slice_from (Slots n) position) (\<lambda>src.
     gbind (aset (go_copy_at (Slots n) (position + 1) src) position it) (\<lambda>slots.
       ret (n\<lparr>Slots := slots, Count := Suc (Count n)\<rparr>))))"

section \<open>Insertion\<close>

definition addItemOnNodeWithNilChild :: "('k, 'v) node \<Rightarrow> ('k, 'v) item \<Rightarrow> nat \<Rightarrow> ('k, 'v, bool) bm" where
  "addItemOnNodeWithNilChild n it index =
     gbind (aget (children n) index) (\<lambda>c.
       if c \<noteq> NilUUID then ret False
       else gbind (createNode (nodeID n)) (\<lambda>child.
         gbind (aset (children n) index (nodeID child)) (\<lambda>cs.
         gbind (aset (Slots child) 0 it) (\<lambda>slots.
           gseq (saveNode (n\<lparr>ChildrenIDs := Some cs\<rparr>))
             (gseq (saveNode (child\<lparr>Slots := slots, Count := 1\<rparr>)) (ret True))))))"

text \<open>
  \<open>isThereVacantSlotInLeft\<close> and \<open>isThereVacantSlotInRight\<close> return the answer and what they
  leave in \<open>*isUnBalanced\<close>. The two loops differ in the sibling they move to.
\<close>

fun vacantSlotLoop :: "nat \<Rightarrow> (('k, 'v) node \<Rightarrow> ('k, 'v, ('k, 'v) node option) bm) \<Rightarrow>
    ('k, 'v) node option \<Rightarrow> ('k, 'v, bool \<times> bool) bm" where
  "vacantSlotLoop 0 sibling temp = fail OutOfFuel"
| "vacantSlotLoop (Suc f) sibling temp = (case temp of
     None \<Rightarrow> ret (False, False)
   | Some n \<Rightarrow> gbind (nodeHasNilChild n) (\<lambda>b.
       if b then ret (True, False)
       else if ChildrenIDs n \<noteq> None then ret (False, True)
       else if \<not> isFull n then ret (True, False)
       else gbind (sibling n) (\<lambda>temp'. vacantSlotLoop f sibling temp')))"

definition isThereVacantSlotInLeft :: "('k, 'v) node \<Rightarrow> ('k, 'v, bool \<times> bool) bm" where
  "isThereVacantSlotInLeft n = gbind (reads id) (\<lambda>bt.
     if \<not> LeafLoadBalancing (StoreInfo bt) then ret (False, False)
     else vacantSlotLoop (fuel bt) getLeftSibling (Some n))"

definition isThereVacantSlotInRight :: "('k, 'v) node \<Rightarrow> ('k, 'v, bool \<times> bool) bm" where
  "isThereVacantSlotInRight n = gbind (reads id) (\<lambda>bt.
     if \<not> LeafLoadBalancing (StoreInfo bt) then ret (False, False)
     else vacantSlotLoop (fuel bt) getRightSibling (Some n))"

definition setTempSlots :: "('k, 'v) item list \<Rightarrow> ('k, 'v, unit) bm" where
  "setTempSlots xs = modify (\<lambda>bt. bt\<lparr>tempSlots := xs\<rparr>)"

definition clearTempSlots :: "('k, 'v, unit) bm" where
  "clearTempSlots = modify (\<lambda>bt. bt\<lparr>tempSlots := go_clear (zeroItem (zeroKey bt)) (tempSlots bt)\<rparr>)"

text \<open>
  Breaking a full node in two: \<open>slotsHalf\<close> slots of \<open>temp\<close> to the left, the next one in the
  middle, \<open>slotsHalf\<close> to the right.
\<close>

definition splitSlots :: "('k, 'v) item list \<Rightarrow> nat \<Rightarrow> ('k, 'v) node \<Rightarrow> ('k, 'v) node \<Rightarrow>
    ('k, 'v, ('k, 'v) node \<times> ('k, 'v) node) bm" where
  "splitSlots temp half leftNode rightNode =
     gbind (copyArrayElements (Slots leftNode) temp half) (\<lambda>ls.
     gbind (slice_from temp (half + 1)) (\<lambda>tail.
     gbind (copyArrayElements (Slots rightNode) tail half) (\<lambda>rs.
       ret (leftNode\<lparr>Slots := ls, Count := half\<rparr>, rightNode\<lparr>Slots := rs, Count := half\<rparr>))))"

text \<open>
  The node becomes the parent of two new leaves. The branch for an unbalanced sub-branch and
  the one for the root share this code; only the root branch sets \<open>node.Count = 1\<close>.
\<close>

definition breakNode :: "bool \<Rightarrow> ('k, 'v) node \<Rightarrow> ('k, 'v) item list \<Rightarrow> ('k, 'v, unit) bm" where
  "breakNode setsCount n temp = gbind (reads id) (\<lambda>bt.
     let half = getSlotLength bt div 2 in
     gbind (createNode (nodeID n)) (\<lambda>rightNode.
     gbind (createNode (nodeID n)) (\<lambda>leftNode.
     gbind (splitSlots temp half leftNode rightNode) (\<lambda>(leftNode, rightNode).
     gbind (aget temp half) (\<lambda>mid.
     gbind (aset (go_clear (zeroItem (zeroKey bt)) (Slots n)) 0 mid) (\<lambda>slots.
       gseq (saveNode leftNode)
         (gseq (saveNode rightNode)
           (gseq (saveNode (n\<lparr>Slots := slots,
               Count := (if setsCount then 1 else Count n),
               ChildrenIDs := Some ((replicate (Suc (getSlotLength bt)) NilUUID)
                 [0 := nodeID leftNode, 1 := nodeID rightNode])\<rparr>))
             clearTempSlots))))))))"

text \<open>The overflowing item goes to a sibling that has room: set up the distribute action.\<close>

definition requestDistribute :: "bool \<Rightarrow> ('k, 'v) node \<Rightarrow> ('k, 'v) item list \<Rightarrow> ('k, 'v, unit) bm" where
  "requestDistribute toLeft n temp = gbind (reads id) (\<lambda>bt.
     let n' = n\<lparr>Slots := go_copy (Slots n) (drop (if toLeft then 0 else 1) temp)\<rparr> in
     gseq (saveNode n')
       (gbind (aget temp (if toLeft then getSlotLength bt else 0)) (\<lambda>it.
         gseq (modify (\<lambda>bt. bt\<lparr>daSource := Some (nodeID n), daItem := it, daToLeft := toLeft\<rparr>))
           clearTempSlots)))"

text \<open>All siblings are full: split off a right sibling and request the promotion of the middle.\<close>

definition splitAndPromote :: "('k, 'v) node \<Rightarrow> ('k, 'v) item list \<Rightarrow> ('k, 'v, unit) bm" where
  "splitAndPromote n temp = gbind (reads id) (\<lambda>bt.
     let half = getSlotLength bt div 2 in
     gbind (createNode (ParentID n)) (\<lambda>rightNode.
     gbind (splitSlots temp half (n\<lparr>Slots := go_clear (zeroItem (zeroKey bt)) (Slots n)\<rparr>) rightNode)
       (\<lambda>(n', rightNode).
     gbind (aget temp half) (\<lambda>mid.
       gseq (putNode n')
         (gseq (modify (\<lambda>bt. bt\<lparr>tempParent := mid,
             tempParentChildren := [nodeID n', nodeID rightNode]\<rparr>))
           (gbind (getNode (ParentID n')) (\<lambda>p. case p of
              None \<Rightarrow> fail (Err ''can't get parent of this node'')
            | Some p \<Rightarrow>
               gseq (saveNode n')
                 (gseq (saveNode rightNode)
                   (gbind (getIndexOfChild p n') (\<lambda>(i, _).
                     modify (\<lambda>bt. bt\<lparr>paTarget := Some (nodeID p), paIndex := i\<rparr>)))))))))))"

definition addOnLeaf :: "('k, 'v) node \<Rightarrow> ('k, 'v) item \<Rightarrow> nat \<Rightarrow> ('k, 'v, unit) bm" where
  "addOnLeaf n it index = gbind (reads id) (\<lambda>bt.
     if Count n < getSlotLength bt
     then gbind (insertSlotItem n it index) saveNode
     else
       let temp0 = go_copy (tempSlots bt) (Slots n) in
       gbind (slice_from temp0 (index + 1)) (\<lambda>_.
       gbind (slice_from temp0 index) (\<lambda>src.
       gbind (aset (go_copy_at temp0 (index + 1) src) index it) (\<lambda>temp.
       gseq (setTempSlots temp)
         (if \<not> isRootNode n
          then gbind (isThereVacantSlotInLeft n) (\<lambda>(isVacantSlotInLeft, _).
               gbind (isThereVacantSlotInRight n) (\<lambda>(isVacantSlotInRight, isUnBalanced).
               gbind (refresh n) (\<lambda>n.
                 if isVacantSlotInLeft \<or> isVacantSlotInRight
                 then requestDistribute isVacantSlotInLeft n temp
                 else if isUnBalanced then breakNode False n temp
                 else splitAndPromote n temp)))
          else breakNode True n temp)))))"

text \<open>
  \<open>Node.add\<close>: down to the leaf (or to a nil child, which becomes a new leaf), refusing a
  duplicate on the way when keys are unique.
\<close>

fun addLoop :: "nat \<Rightarrow> ('k, 'v) node \<Rightarrow> ('k, 'v) item \<Rightarrow> ('k, 'v, bool) bm" where
  "addLoop 0 n it = fail OutOfFuel"
| "addLoop (Suc f) n it =
     gbind (getIndexToInsertTo n it) (\<lambda>(index, itemExists).
       if itemExists then gseq (setCurrentItemID (nodeID n) (int index)) (ret False)
       else if hasChildren n
       then gbind (addItemOnNodeWithNilChild n it index) (\<lambda>ok.
              if ok then ret True
              else gbind (getChild n index) (\<lambda>c. case c of
                     None \<Rightarrow> ret False
                   | Some c \<Rightarrow> addLoop f c it))
       else gbind (reads id) (\<lambda>bt.
              if isUnique bt \<and> Count n > 0
              then let i = (if index > 0 \<and> index \<ge> Count n then index - 1 else index)
                   in gbind (aget (Slots n) i) (\<lambda>s.
                        if compare bt (Key s) (Key it) = 0
                        then gseq (setCurrentItemID (nodeID n) (int i)) (ret False)
                        else gseq (addOnLeaf n it index) (ret True))
              else gseq (addOnLeaf n it index) (ret True)))"

definition node_add :: "('k, 'v) node \<Rightarrow> ('k, 'v) item \<Rightarrow> ('k, 'v, bool) bm" where
  "node_add n it = gbind (reads fuel) (\<lambda>f. addLoop f n it)"

section \<open>Distribution to a sibling\<close>

definition distributeItemOnNodeWithNilChild :: "('k, 'v) node \<Rightarrow> ('k, 'v) item \<Rightarrow> ('k, 'v, bool) bm" where
  "distributeItemOnNodeWithNilChild n it =
     (if \<not> hasChildren n then ret False
      else gbind (lift_res (firstNilChild (children n) 0 (Suc (Count n)))) (\<lambda>i.
        if i > Count n then ret False
        else gbind (createNode (nodeID n)) (\<lambda>child.
          gbind (aset (children n) i (nodeID child)) (\<lambda>cs.
          gbind (aset (Slots child) 0 it) (\<lambda>slots.
            gseq (saveNode (n\<lparr>ChildrenIDs := Some cs\<rparr>))
              (gseq (saveNode (child\<lparr>Slots := slots, Count := 1\<rparr>)) (ret True)))))))"

definition distributeToLeft :: "('k, 'v) node \<Rightarrow> ('k, 'v) item \<Rightarrow> ('k, 'v, unit) bm" where
  "distributeToLeft n it = gbind (distributeItemOnNodeWithNilChild n it) (\<lambda>ok.
     if ok then ret ()
     else if isFull n
     then gbind (getParent n) (\<lambda>p. gbind (nonNil p) (\<lambda>parent.
          gbind (getIndexOfChild parent n) (\<lambda>(indexOfNode, n).
            if indexOfNode > int (Count parent) then ret ()
            else gbind (getLeftSibling n) (\<lambda>sib.
                 gbind (aget_int (Slots parent) (indexOfNode - 1)) (\<lambda>sep.
                 gbind (aget (Slots n) 0) (\<lambda>first.
                 gbind (reads getSlotLength) (\<lambda>L.
                   gseq (modify (\<lambda>bt. bt\<lparr>daSource := map_option nodeID sib, daItem := sep, daToLeft := True\<rparr>))
                     (gseq (saveNode (parent\<lparr>Slots := (Slots parent)[nat (indexOfNode - 1) := first]\<rparr>))
                       (gbind (aset (moveArrayElements (Slots n) 0 1 (L - 1)) (Count n - 1) it) (\<lambda>slots.
                         saveNode (n\<lparr>Slots := slots\<rparr>)))))))))))
     else gbind (aset (Slots n) (Count n) it) (\<lambda>slots.
            saveNode (n\<lparr>Slots := slots, Count := Suc (Count n)\<rparr>)))"

definition distributeToRight :: "('k, 'v) node \<Rightarrow> ('k, 'v) item \<Rightarrow> ('k, 'v, unit) bm" where
  "distributeToRight n it = gbind (distributeItemOnNodeWithNilChild n it) (\<lambda>ok.
     if ok then ret ()
     else gbind (reads getSlotLength) (\<lambda>L.
       gbind (if isFull n
         then gbind (getParent n) (\<lambda>p. gbind (nonNil p) (\<lambda>parent.
              gbind (getIndexOfChild parent n) (\<lambda>(i, n).
              gbind (getRightSibling n) (\<lambda>sib.
              gbind (aget_int (Slots parent) i) (\<lambda>sep.
              gbind (aget (Slots n) (Count n - 1)) (\<lambda>last.
                gseq (modify (\<lambda>bt. bt\<lparr>daSource := map_option nodeID sib, daItem := sep, daToLeft := False\<rparr>))
                  (gseq (saveNode (parent\<lparr>Slots := (Slots parent)[nat i := last]\<rparr>))
                    (ret n))))))))
         else ret (n\<lparr>Count := Suc (Count n)\<rparr>)) (\<lambda>n.
         gbind (aset (moveArrayElements (Slots n) 1 0 (L - 1)) 0 it) (\<lambda>slots.
           saveNode (n\<lparr>Slots := slots\<rparr>)))))"

section \<open>Promotion\<close>

fun setParents :: "uuid \<Rightarrow> ('k, 'v) node option list \<Rightarrow> ('k, 'v, unit) bm" where
  "setParents pid [] = ret ()"
| "setParents pid (None # cs) = setParents pid cs"
| "setParents pid (Some c # cs) = gseq (saveNode (c\<lparr>ParentID := pid\<rparr>)) (setParents pid cs)"

definition updateChildrenParent :: "('k, 'v) node \<Rightarrow> ('k, 'v, unit) bm" where
  "updateChildrenParent n = (if \<not> hasChildren n then ret ()
     else gbind (getChildren n) (setParents (nodeID n)))"

text \<open>The node is not full: shift and insert the separator and its two children.\<close>

definition promoteInsert :: "('k, 'v) node \<Rightarrow> nat \<Rightarrow> ('k, 'v, unit) bm" where
  "promoteInsert n indexPosition = gbind (reads id) (\<lambda>bt.
     let occupied = Count n;
         slots0 = shiftSlots (Slots n) indexPosition occupied;
         index = (if indexPosition > occupied then occupied else indexPosition) in
     gbind (aset slots0 index (tempParent bt)) (\<lambda>slots.
     gbind (aget (tempParentChildren bt) 0) (\<lambda>leftID.
     gbind (aget (tempParentChildren bt) 1) (\<lambda>rightID.
     gbind (aset (children n) index leftID) (\<lambda>cs1.
     gbind (aset (shiftSlots cs1 (index + 1) (occupied + 1)) (index + 1) rightID) (\<lambda>cs2.
       saveNode (n\<lparr>Slots := slots, Count := Suc occupied, ChildrenIDs := Some cs2\<rparr>)))))))"

text \<open>The node is full: the temporary slots and children with the separator inserted.\<close>

definition promoteTemps :: "('k, 'v) node \<Rightarrow> nat \<Rightarrow> ('k, 'v, unit) bm" where
  "promoteTemps n index = gbind (reads id) (\<lambda>bt.
     gbind (copyArrayElements (tempSlots bt) (Slots n) (getSlotLength bt)) (\<lambda>ts0.
     gbind (aset (shiftSlots ts0 index (getSlotLength bt)) index (tempParent bt)) (\<lambda>ts.
     gbind (case ChildrenIDs n of None \<Rightarrow> ret (tempChildren bt)
            | Some cs \<Rightarrow> copyArrayElements (tempChildren bt) cs (Suc (getSlotLength bt))) (\<lambda>tc0.
     gbind (aget (tempParentChildren bt) 0) (\<lambda>leftID.
     gbind (aget (tempParentChildren bt) 1) (\<lambda>rightID.
     gbind (aset tc0 index leftID) (\<lambda>tc1.
     gbind (aset (shiftSlots tc1 (index + 1) (Count n + 1)) (index + 1) rightID) (\<lambda>tc.
       modify (\<lambda>bt. bt\<lparr>tempSlots := ts, tempChildren := tc\<rparr>)))))))))"

text \<open>Splitting the temporary children: \<open>slotsHalf + 1\<close> to each side.\<close>

definition splitChildren :: "uuid list \<Rightarrow> nat \<Rightarrow> uuid list \<Rightarrow> uuid list \<Rightarrow> ('k, 'v, uuid list \<times> uuid list) bm" where
  "splitChildren temp half left right =
     gbind (copyArrayElements left temp (Suc half)) (\<lambda>ls.
     gbind (slice_from temp (half + 1)) (\<lambda>tail.
     gbind (copyArrayElements right tail (Suc half)) (\<lambda>rs. ret (ls, rs))))"

definition promoteRoot :: "('k, 'v) node \<Rightarrow> ('k, 'v, unit) bm" where
  "promoteRoot n = gbind (reads id) (\<lambda>bt.
     let L = getSlotLength bt; half = L div 2; nilIDs = replicate (Suc L) NilUUID in
     gbind (createNode (nodeID n)) (\<lambda>leftNode.
     gbind (createNode (nodeID n)) (\<lambda>rightNode.
     gbind (splitSlots (tempSlots bt) half leftNode rightNode) (\<lambda>(leftNode, rightNode).
     gbind (splitChildren (tempChildren bt) half nilIDs nilIDs) (\<lambda>(lc, rc).
       let leftNode = leftNode\<lparr>ChildrenIDs := Some lc\<rparr>;
           rightNode = rightNode\<lparr>ChildrenIDs := Some rc\<rparr>;
           cleared = n\<lparr>Slots := go_clear (zeroItem (zeroKey bt)) (Slots n),
             ChildrenIDs := map_option (go_clear NilUUID) (ChildrenIDs n)\<rparr> in
       gseq (putNode cleared)
       (gseq (ignoreErr (updateChildrenParent leftNode))
         (gseq (ignoreErr (updateChildrenParent rightNode))
           (gbind (aget (tempSlots bt) half) (\<lambda>mid.
            gbind (aset (Slots cleared) 0 mid) (\<lambda>slots.
            gbind (aset (children cleared) 0 (nodeID leftNode)) (\<lambda>cs0.
            gbind (aset cs0 1 (nodeID rightNode)) (\<lambda>cs.
              gseq (saveNode (n\<lparr>Slots := slots, Count := 1, ChildrenIDs := Some cs\<rparr>))
                (gseq (saveNode leftNode) (saveNode rightNode))))))))))))))"

definition promoteSplit :: "('k, 'v) node \<Rightarrow> ('k, 'v, unit) bm" where
  "promoteSplit n = gbind (reads id) (\<lambda>bt.
     let L = getSlotLength bt; half = L div 2 in
     gbind (createNode (ParentID n)) (\<lambda>rightNode.
     gbind (splitSlots (tempSlots bt) half (n\<lparr>Slots := go_clear (zeroItem (zeroKey bt)) (Slots n)\<rparr>) rightNode)
       (\<lambda>(n', rightNode).
     gbind (splitChildren (tempChildren bt) half (go_clear NilUUID (children n))
         (replicate (Suc L) NilUUID)) (\<lambda>(lc, rc).
       let n' = n'\<lparr>ChildrenIDs := Some lc\<rparr>; rightNode = rightNode\<lparr>ChildrenIDs := Some rc\<rparr> in
       gseq (putNode n')
       (gseq (updateChildrenParent rightNode)
         (gseq (saveNode rightNode)
           (gseq (updateChildrenParent n')
             (gseq (saveNode n')
               (gbind (aget (tempSlots bt) half) (\<lambda>mid.
                 gseq (modify (\<lambda>bt. bt\<lparr>tempParent := mid,
                     tempParentChildren := [nodeID n', nodeID rightNode]\<rparr>))
                   (gbind (getParent n') (\<lambda>p. gbind (nonNil p) (\<lambda>p.
                     gbind (getIndexOfChild p n') (\<lambda>(i, _).
                       modify (\<lambda>bt. bt\<lparr>paTarget := Some (nodeID p), paIndex := i\<rparr>)))))))))))))))"

definition node_promote :: "('k, 'v) node \<Rightarrow> int \<Rightarrow> ('k, 'v, unit) bm" where
  "node_promote n indexPosition = gbind (reads getSlotLength) (\<lambda>L.
     if indexPosition < 0 then fail Panic
     else if Count n < L then promoteInsert n (nat indexPosition)
     else gseq (promoteTemps n (nat indexPosition))
            (if isRootNode n then promoteRoot n else promoteSplit n))"

text \<open>
  The controllers \<open>Btree.distribute\<close> and \<open>Btree.promote\<close>. The latter drops the error that
  \<open>Node.promote\<close> returns.
\<close>

fun distributeLoop :: "nat \<Rightarrow> ('k, 'v, unit) bm" where
  "distributeLoop 0 = fail OutOfFuel"
| "distributeLoop (Suc f) = gbind (reads id) (\<lambda>bt. case daSource bt of
     None \<Rightarrow> ret ()
   | Some i \<Rightarrow>
       gseq (modify (\<lambda>bt. bt\<lparr>daSource := None, daItem := zeroItem (zeroKey bt)\<rparr>))
         (gbind (nonNil (repo bt i)) (\<lambda>n.
           gseq (if daToLeft bt then distributeToLeft n (daItem bt) else distributeToRight n (daItem bt))
             (distributeLoop f))))"

definition distribute :: "('k, 'v, unit) bm" where
  "distribute = gbind (reads fuel) distributeLoop"

fun promoteLoop :: "nat \<Rightarrow> ('k, 'v, unit) bm" where
  "promoteLoop 0 = fail OutOfFuel"
| "promoteLoop (Suc f) = gbind (reads id) (\<lambda>bt. case paTarget bt of
     None \<Rightarrow> ret ()
   | Some i \<Rightarrow>
       gseq (modify (\<lambda>bt. bt\<lparr>paTarget := None, paIndex := 0\<rparr>))
         (gbind (nonNil (repo bt i)) (\<lambda>n.
           gseq (ignoreErr (node_promote n (paIndex bt))) (promoteLoop f))))"

definition promote :: "('k, 'v, unit) bm" where
  "promote = gbind (reads fuel) promoteLoop"

end
