(* ===== verification/Btree_Api.thy ===== *)
theory Btree_Api
  imports Btree_Ops
begin

text \<open>
  The rest of the B-tree's operations: cursor navigation and search, removal, and the public
  methods of \<open>Btree\<close> (\<open>btree/btree.go\<close>).
\<close>

section \<open>Navigation\<close>

fun moveToFirstLoop :: "nat \<Rightarrow> ('k, 'v) node \<Rightarrow> ('k, 'v, ('k, 'v) node) bm" where
  "moveToFirstLoop 0 n = fail OutOfFuel"
| "moveToFirstLoop (Suc f) n = (case ChildrenIDs n of
     None \<Rightarrow> ret n
   | Some cs \<Rightarrow> gbind (aget cs 0) (\<lambda>cid.
       if cid = NilUUID then ret n
       else gbind (getNode cid) (\<lambda>c. case c of None \<Rightarrow> ret n | Some c \<Rightarrow> moveToFirstLoop f c)))"

definition moveToFirst :: "('k, 'v) node \<Rightarrow> ('k, 'v, bool) bm" where
  "moveToFirst n = gbind (reads fuel) (\<lambda>f. gbind (moveToFirstLoop f n) (\<lambda>prev.
     gseq (setCurrentItemID (nodeID prev) 0) (ret True)))"

fun moveToLastLoop :: "nat \<Rightarrow> ('k, 'v) node \<Rightarrow> ('k, 'v, ('k, 'v) node option) bm" where
  "moveToLastLoop 0 n = fail OutOfFuel"
| "moveToLastLoop (Suc f) n = (case ChildrenIDs n of
     None \<Rightarrow> ret (Some n)
   | Some cs \<Rightarrow> gbind (aget cs (Count n)) (\<lambda>cid.
       if cid = NilUUID then ret (Some n)
       else gbind (getNode cid) (\<lambda>c. case c of None \<Rightarrow> ret None | Some c \<Rightarrow> moveToLastLoop f c)))"

definition moveToLast :: "('k, 'v) node \<Rightarrow> ('k, 'v, bool) bm" where
  "moveToLast n = gbind (reads fuel) (\<lambda>f. gbind (moveToLastLoop f n) (\<lambda>r. case r of
     None \<Rightarrow> ret False
   | Some n \<Rightarrow> gseq (setCurrentItemID (nodeID n) (int (Count n) - 1)) (ret (nodeID n \<noteq> NilUUID))))"

text \<open>
  Climbing to the right: the first ancestor in which the child slot is followed by an item.
  \<open>moveToNext\<close> and \<open>goRightUpItemOnNodeWithNilChild\<close> have this loop in common. A parent that
  cannot be read is a nil dereference.
\<close>

fun climbRight :: "nat \<Rightarrow> ('k, 'v) node option \<Rightarrow> int \<Rightarrow> ('k, 'v, bool) bm" where
  "climbRight 0 r i = fail OutOfFuel"
| "climbRight (Suc f) r i = (case r of
     None \<Rightarrow> gseq (setCurrentItemID NilUUID 0) (ret False)
   | Some n \<Rightarrow>
       if i < int (Count n) then gseq (setCurrentItemID (nodeID n) i) (ret True)
       else if isRootNode n then gseq (setCurrentItemID NilUUID 0) (ret False)
       else gbind (getParent n) (\<lambda>p. gbind (nonNil p) (\<lambda>p.
              gbind (getIndexOfChild p n) (\<lambda>(j, _). climbRight f (Some p) j))))"

definition goRightUpItemOnNodeWithNilChild :: "('k, 'v) node \<Rightarrow> int \<Rightarrow> ('k, 'v, bool) bm" where
  "goRightUpItemOnNodeWithNilChild n index = gbind (aget_int (children n) index) (\<lambda>c.
     if c \<noteq> NilUUID then ret False
     else gbind (reads fuel) (\<lambda>f. climbRight f (Some n) index))"

fun moveDownRight :: "nat \<Rightarrow> ('k, 'v) node option \<Rightarrow> int \<Rightarrow> ('k, 'v, bool) bm" where
  "moveDownRight 0 r slotIndex = fail OutOfFuel"
| "moveDownRight (Suc f) r slotIndex = (case r of
     None \<Rightarrow> gseq (setCurrentItemID NilUUID 0) (ret False)
   | Some n \<Rightarrow>
       if hasChildren n
       then gbind (goRightUpItemOnNodeWithNilChild n slotIndex) (\<lambda>ok.
              if ok then ret True
              else gbind (getChild n (nat slotIndex)) (\<lambda>c. moveDownRight f c 0))
       else gseq (setCurrentItemID (nodeID n) 0) (ret True))"

definition moveToNext :: "('k, 'v) node \<Rightarrow> ('k, 'v, bool) bm" where
  "moveToNext n = gbind (reads id) (\<lambda>bt.
     let slotIndex = curItemIndex bt + 1 in
     if hasChildren n then moveDownRight (fuel bt) (Some n) slotIndex
     else climbRight (fuel bt) (Some n) slotIndex)"

text \<open>Climbing to the left, the mirror image.\<close>

fun climbLeft :: "nat \<Rightarrow> ('k, 'v) node \<Rightarrow> int \<Rightarrow> ('k, 'v, bool) bm" where
  "climbLeft 0 n i = fail OutOfFuel"
| "climbLeft (Suc f) n i =
     (if i \<ge> 0 then gseq (setCurrentItemID (nodeID n) i) (ret True)
      else if isRootNode n then gseq (setCurrentItemID NilUUID 0) (ret False)
      else gbind (getParent n) (\<lambda>p. gbind (nonNil p) (\<lambda>p.
             gbind (getIndexOfChild p n) (\<lambda>(j, _). climbLeft f p (j - 1)))))"

definition goLeftUpItemOnNodeWithNilChild :: "('k, 'v) node \<Rightarrow> int \<Rightarrow> ('k, 'v, bool) bm" where
  "goLeftUpItemOnNodeWithNilChild n index = gbind (aget_int (children n) index) (\<lambda>c.
     if c \<noteq> NilUUID then ret False
     else gbind (reads fuel) (\<lambda>f. climbLeft f n (index - 1)))"

fun moveDownLeft :: "nat \<Rightarrow> ('k, 'v) node \<Rightarrow> int \<Rightarrow> ('k, 'v, bool) bm" where
  "moveDownLeft 0 n slotIndex = fail OutOfFuel"
| "moveDownLeft (Suc f) n slotIndex =
     (if hasChildren n
      then gbind (goLeftUpItemOnNodeWithNilChild n slotIndex) (\<lambda>ok.
             if ok then ret True
             else gbind (getChild n (nat slotIndex)) (\<lambda>c. case c of
                    None \<Rightarrow> gseq (setCurrentItemID NilUUID 0) (ret False)
                  | Some c \<Rightarrow> moveDownLeft f c (int (Count c))))
      else gseq (setCurrentItemID (nodeID n) (slotIndex - 1)) (ret True))"

definition moveToPrevious :: "('k, 'v) node \<Rightarrow> ('k, 'v, bool) bm" where
  "moveToPrevious n = gbind (reads id) (\<lambda>bt.
     let slotIndex = curItemIndex bt in
     if hasChildren n then moveDownLeft (fuel bt) n slotIndex
     else climbLeft (fuel bt) n (slotIndex - 1))"

section \<open>Search\<close>

text \<open>
  The walk of \<open>Node.find\<close>: the last node visited (nil when a child could not be read), the
  index in it, and where the key was found (\<open>NilUUID\<close>: nowhere).
\<close>

fun findLoop :: "nat \<Rightarrow> 'k \<Rightarrow> bool \<Rightarrow> ('k, 'v) node option \<Rightarrow> nat \<Rightarrow> uuid \<Rightarrow> nat \<Rightarrow>
    ('k, 'v, ('k, 'v) node option \<times> nat \<times> uuid \<times> nat) bm" where
  "findLoop 0 key firstItemWithKey r index foundNodeID foundItemIndex = fail OutOfFuel"
| "findLoop (Suc f) key firstItemWithKey r index foundNodeID foundItemIndex = (case r of
     None \<Rightarrow> ret (None, index, foundNodeID, foundItemIndex)
   | Some n \<Rightarrow> gbind (reads id) (\<lambda>bt.
       gbind (if Count n > 0
              then gbind (slotSearch n (\<lambda>k. compare bt k key \<ge> 0)) (\<lambda>index.
                     if index < Count n
                     then gbind (aget (Slots n) index) (\<lambda>s. ret (index, compare bt (Key s) key = 0))
                     else ret (index, False))
              else ret (0, False)) (\<lambda>(index, hit).
       let foundNodeID = (if hit then nodeID n else foundNodeID);
           foundItemIndex = (if hit then index else foundItemIndex) in
       if hit \<and> \<not> firstItemWithKey then ret (Some n, index, foundNodeID, foundItemIndex)
       else if hasChildren n
       then gbind (aget (children n) index) (\<lambda>c.
              if c = NilUUID then ret (Some n, index, foundNodeID, foundItemIndex)
              else gbind (getChild n index) (\<lambda>r'.
                     findLoop f key firstItemWithKey r' index foundNodeID foundItemIndex))
       else ret (Some n, index, foundNodeID, foundItemIndex))))"

text \<open>Where the cursor is left after a search, in \<open>find\<close> and \<open>findInDescendingOrder\<close> alike.\<close>

definition findPark :: "('k, 'v) node option \<Rightarrow> nat \<Rightarrow> uuid \<Rightarrow> nat \<Rightarrow> ('k, 'v, bool) bm" where
  "findPark r index foundNodeID foundItemIndex =
     (if foundNodeID \<noteq> NilUUID
      then gseq (setCurrentItemID foundNodeID (int foundItemIndex)) (ret True)
      else gbind (nonNil r) (\<lambda>n.
        let i = (if index = Count n then int index - 1 else int index) in
        if i \<ge> 0 \<and> i < int (Count n)
        then gseq (setCurrentItemID (nodeID n) i) (ret False)
        else gseq (setCurrentItemID (nodeID n) (i - 1)) (gseq (moveToNext n) (ret False))))"

definition node_find :: "('k, 'v) node \<Rightarrow> 'k \<Rightarrow> bool \<Rightarrow> ('k, 'v, bool) bm" where
  "node_find n key firstItemWithKey = gbind (reads fuel) (\<lambda>f.
     gbind (findLoop f key firstItemWithKey (Some n) 0 NilUUID 0)
       (\<lambda>(r, index, foundNodeID, foundItemIndex). findPark r index foundNodeID foundItemIndex))"

fun findDescLoop :: "nat \<Rightarrow> 'k \<Rightarrow> ('k, 'v) node option \<Rightarrow> nat \<Rightarrow> uuid \<Rightarrow> nat \<Rightarrow>
    ('k, 'v, ('k, 'v) node option \<times> nat \<times> uuid \<times> nat) bm" where
  "findDescLoop 0 key r index foundNodeID foundItemIndex = fail OutOfFuel"
| "findDescLoop (Suc f) key r index foundNodeID foundItemIndex = (case r of
     None \<Rightarrow> ret (None, index, foundNodeID, foundItemIndex)
   | Some n \<Rightarrow> gbind (reads id) (\<lambda>bt.
       gbind (if Count n > 0
              then gbind (slotSearch n (\<lambda>k. compare bt k key > 0)) (\<lambda>index.
                     if index > 0
                     then gbind (aget (Slots n) (index - 1)) (\<lambda>s. ret (index, compare bt (Key s) key = 0))
                     else ret (index, False))
              else ret (0, False)) (\<lambda>(index, hit).
       let foundNodeID = (if hit then nodeID n else foundNodeID);
           foundItemIndex = (if hit then index - 1 else foundItemIndex) in
       if hasChildren n
       then gbind (aget (children n) index) (\<lambda>c.
              if c = NilUUID then ret (Some n, index, foundNodeID, foundItemIndex)
              else gbind (getChild n index) (\<lambda>r'.
                     findDescLoop f key r' index foundNodeID foundItemIndex))
       else ret (Some n, index, foundNodeID, foundItemIndex))))"

definition node_findInDescendingOrder :: "('k, 'v) node \<Rightarrow> 'k \<Rightarrow> ('k, 'v, bool) bm" where
  "node_findInDescendingOrder n key = gbind (reads fuel) (\<lambda>f.
     gbind (findDescLoop f key (Some n) 0 NilUUID 0)
       (\<lambda>(r, index, foundNodeID, foundItemIndex). findPark r index foundNodeID foundItemIndex))"

section \<open>Removal\<close>

definition unlink :: "('k, 'v) node \<Rightarrow> ('k, 'v, unit) bm" where
  "unlink n = gbind (getParent n) (\<lambda>p. case p of
     None \<Rightarrow> ret ()
   | Some p \<Rightarrow> if \<not> hasChildren p then ret ()
     else gbind (getIndexOfChild p n) (\<lambda>(i, n).
          gbind (aget_int (children p) i) (\<lambda>_.
            let p' = p\<lparr>ChildrenIDs := Some ((children p)[nat i := NilUUID])\<rparr>;
                p'' = (if isNilChildren p' then p'\<lparr>ChildrenIDs := None\<rparr> else p') in
            gseq (saveNode p'') (removeNode n))))"

definition promoteSingleChildAsParentChild :: "('k, 'v) node \<Rightarrow> ('k, 'v, bool) bm" where
  "promoteSingleChildAsParentChild n = gbind (getParent n) (\<lambda>p. case p of
     None \<Rightarrow> fail (Err ''can't get parent of this node'')
   | Some p \<Rightarrow> gbind (getIndexOfChild p n) (\<lambda>(ion, n).
       gbind (aget_int (children p) ion) (\<lambda>_.
       gbind (aget (children n) 0) (\<lambda>c.
         let p' = p\<lparr>ChildrenIDs := Some ((children p)[nat ion := c])\<rparr> in
         gseq (putNode p')
           (gbind (getChild n 0) (\<lambda>nc. gbind (nonNil nc) (\<lambda>nc.
             gseq (saveNode (nc\<lparr>ParentID := nodeID p'\<rparr>))
               (gseq (saveNode p') (gseq (removeNode n) (ret True))))))))))"

definition unlinkNodeWithNilChild :: "('k, 'v) node \<Rightarrow> ('k, 'v, bool) bm" where
  "unlinkNodeWithNilChild n =
     (if isNilChildren n then ret False else promoteSingleChildAsParentChild n)"

text \<open>The arrays of a node after the item at \<open>index\<close> and the nil child beside it are taken out.\<close>

definition dropItemAndNilChild :: "('k, 'v) btree \<Rightarrow> ('k, 'v) node \<Rightarrow> nat \<Rightarrow> ('k, 'v, ('k, 'v) node) bm" where
  "dropItemAndNilChild bt n index =
     gbind (aget (children n) index) (\<lambda>c0.
       let move = (index < Count n);
           itemsToMove = Count n - index;
           slots0 = (if move then moveArrayElements (Slots n) index (index + 1) itemsToMove else Slots n);
           cs0 = (if c0 = NilUUID
                  then (if move then moveArrayElements (children n) index (index + 1) (itemsToMove + 1)
                        else children n)
                  else (if move then moveArrayElements (children n) (index + 1) (index + 2) (itemsToMove + 1)
                        else children n)) in
       if Count n = 0 then fail Panic
       else gbind (aset slots0 (Count n - 1) (zeroItem (zeroKey bt))) (\<lambda>slots.
            gbind (aset cs0 (Count n) NilUUID) (\<lambda>cs.
              ret (n\<lparr>Slots := slots, ChildrenIDs := Some cs, Count := Count n - 1\<rparr>))))"

text \<open>An emptied root takes over the contents of its single child.\<close>

definition collapseRoot :: "('k, 'v) node \<Rightarrow> ('k, 'v, bool) bm" where
  "collapseRoot n = gseq (putNode n) (gbind (getChild n 0) (\<lambda>r. case r of
     None \<Rightarrow> fail (Err ''can't get child of this root node'')
   | Some nc \<Rightarrow>
       let n1 = n\<lparr>Slots := go_copy (Slots n) (Slots nc), Count := Count nc\<rparr> in
       gbind (if hasChildren nc
              then let n2 = n1\<lparr>ChildrenIDs := Some (go_copy (children n1) (children nc))\<rparr>
                   in gseq (putNode n2) (gseq (updateChildrenParent n2) (ret n2))
              else let n2 = n1\<lparr>ChildrenIDs := Some ((children n1)[0 := NilUUID])\<rparr>
                   in ret (if isNilChildren n2 then n2\<lparr>ChildrenIDs := None\<rparr> else n2)) (\<lambda>n2.
         gseq (removeNode nc) (gseq (saveNode n2) (ret True)))))"

definition removeItemOnNodeWithNilChild :: "('k, 'v) node \<Rightarrow> nat \<Rightarrow> ('k, 'v, bool) bm" where
  "removeItemOnNodeWithNilChild n index =
     (if \<not> hasChildren n then ret False
      else gbind (aget (children n) index) (\<lambda>c0.
        gbind (if c0 \<noteq> NilUUID then aget (children n) (index + 1) else ret NilUUID) (\<lambda>c1.
          if c0 \<noteq> NilUUID \<and> c1 \<noteq> NilUUID then ret False
          else gbind (reads id) (\<lambda>bt. gbind (dropItemAndNilChild bt n index) (\<lambda>n'.
            if Count n' = 0 \<and> children n' ! 0 \<noteq> NilUUID
            then (if isRootNode n' then collapseRoot n'
                  else gseq (putNode n') (promoteSingleChildAsParentChild n'))
            else if Count n' = 0 then gseq (putNode n') (gseq (unlink n') (ret True))
            else gseq (saveNode n') (ret True))))))"

definition fixVacatedSlot :: "('k, 'v) node \<Rightarrow> ('k, 'v, unit) bm" where
  "fixVacatedSlot n = gbind (reads id) (\<lambda>bt.
     let position = curItemIndex bt; z = zeroItem (zeroKey bt) in
     gbind (aget_int (Slots n) position) (\<lambda>deletedItem.
       gseq (track RemoveAction deletedItem)
         (if Count n > 1
          then let slots0 = (if position < int (Count n) - 1
                             then moveArrayElements (Slots n) (nat position) (nat position + 1)
                                    (nat (int (Count n) - position - 1))
                             else Slots n) in
               gbind (aset slots0 (Count n - 1) z) (\<lambda>slots.
                 saveNode (n\<lparr>Slots := slots, Count := Count n - 1\<rparr>))
          else if isRootNode n
          then gbind (aset (Slots n) 0 z) (\<lambda>slots.
                 gseq (putNode (n\<lparr>Slots := slots, Count := 0\<rparr>))
                   (gseq (setCurrentItemID NilUUID 0) (gbind (refresh n) saveNode)))
          else gbind (unlinkNodeWithNilChild n) (\<lambda>ok. if ok then ret () else unlink n))))"

section \<open>The root node and construction\<close>

text \<open>The error of the first read is dropped: a root that cannot be read is created anew.\<close>

definition getRootNode :: "('k, 'v, ('k, 'v) node) bm" where
  "getRootNode = gbind (reads StoreInfo) (\<lambda>si.
     let rid = RootNodeID si in
     gbind (if rid \<noteq> NilUUID \<and> si_Count si = 0
            then (\<lambda>s. case getNode rid s of (Inl (Err _), s') \<Rightarrow> (Inr None, s') | r \<Rightarrow> r)
            else ret None) (\<lambda>r. case r of
       Some rootNode \<Rightarrow> ret rootNode
     | None \<Rightarrow>
         if rid = NilUUID \<or> si_Count si = 0
         then (if rid = NilUUID
               then gbind (createNode NilUUID) (\<lambda>rootNode.
                      gseq (modify (\<lambda>bt. bt\<lparr>StoreInfo := (StoreInfo bt)\<lparr>RootNodeID := nodeID rootNode\<rparr>\<rparr>)) (ret rootNode))
               else reads (\<lambda>bt. (newNode (zeroKey bt) (getSlotLength bt))\<lparr>nodeID := rid\<rparr>))
         else gbind (getNode rid) (\<lambda>r. case r of
                None \<Rightarrow> fail (Err ''can't retrieve root node'') | Some rootNode \<Rightarrow> ret rootNode)))"

text \<open>
  \<open>btree.New\<close>. \<open>keyIsNil\<close> says that the key type is an interface (its zero value is nil),
  \<open>prim\<close> is \<open>IsPrimitive[TK]()\<close>.
\<close>

definition New :: "store_info \<Rightarrow> ((uuid \<rightharpoonup> ('k, 'v) node) option \<times>
     ((item_action \<times> ('k, 'v) item) list \<Rightarrow> item_action \<Rightarrow> ('k, 'v) item \<Rightarrow> string + ('k, 'v) item) option) option \<Rightarrow>
     ('k \<Rightarrow> 'k \<Rightarrow> int) \<Rightarrow> bool \<Rightarrow> bool \<Rightarrow> 'k \<Rightarrow> 'v \<Rightarrow> (nat \<Rightarrow> uuid) \<Rightarrow> nat \<Rightarrow> go_error + ('k, 'v) btree" where
  "New storeInfo si cmp keyIsNil prim zk zv gen f = (case si of
     None \<Rightarrow> Inl (Err ''can't create a b-tree with nil StoreInterface parameter'')
   | Some (None, _) \<Rightarrow> Inl (Err ''can't create a b-tree with nil si.NodeRepository parameter'')
   | Some (Some rp, None) \<Rightarrow> Inl (Err ''can't create a b-tree with nil si.ItemActionTracker parameter'')
   | Some (Some rp, Some tr) \<Rightarrow>
       if si_IsEmpty storeInfo
       then Inl (Err ''can't create a b-tree with empty StoreInfo parameter'')
       else if SlotLength storeInfo < -1 then Inl Panic
       else Inr \<lparr>StoreInfo = (if keyIsNil then storeInfo else storeInfo\<lparr>IsPrimitiveKey := prim\<rparr>),
              repo = rp, repoFail = (\<lambda>_. None), fetched = [], tracker = tr, trackerLog = [],
              tempSlots = replicate (nat (SlotLength storeInfo + 1)) (zeroItem zk),
              tempParent = zeroItem zk,
              tempChildren = replicate (nat (SlotLength storeInfo + 2)) NilUUID,
              tempParentChildren = [NilUUID, NilUUID],
              curNodeID = NilUUID, curItemIndex = 0, currentItem = NilPtr,
              daSource = None, daItem = zeroItem zk, daToLeft = False,
              paTarget = None, paIndex = 0,
              comparer = cmp, zeroKey = zk, zeroValue = zv,
              uuidGen = gen, uuidNext = 0, fuel = f\<rparr>)"

section \<open>Adding\<close>

definition inferSchemaOfFirst :: "('k \<Rightarrow> 'v option \<Rightarrow> (string \<rightharpoonup> string) \<times> string list \<times> string list) \<Rightarrow>
    ('k, 'v) item \<Rightarrow> ('k, 'v, unit) bm" where
  "inferSchemaOfFirst infer it = modify (\<lambda>bt.
     if si_Count (StoreInfo bt) = 0
     then (let (sch, ks, vs) = infer (Key it) (Value it)
           in bt\<lparr>StoreInfo := (StoreInfo bt)\<lparr>Schema := sch, KeyFields := ks, ValueFields := vs,
                                             NeedsMetaDataSave := True\<rparr>\<rparr>)
     else bt)"

definition changeCount :: "int \<Rightarrow> ('k, 'v, unit) bm" where
  "changeCount d = modify (\<lambda>bt. bt\<lparr>StoreInfo := (StoreInfo bt)\<lparr>si_Count := si_Count (StoreInfo bt) + d\<rparr>\<rparr>)"

text \<open>\<open>infer\<close> is \<open>sop.InferSchemaFromTypes\<close>, which works by reflection.\<close>

definition AddItem :: "('k \<Rightarrow> 'v option \<Rightarrow> (string \<rightharpoonup> string) \<times> string list \<times> string list) \<Rightarrow>
    ('k, 'v) item \<Rightarrow> ('k, 'v, bool) bm" where
  "AddItem infer it = gbind getRootNode (\<lambda>n. gbind (node_add n it) (\<lambda>result.
     if \<not> result then ret False
     else gseq distribute (gseq promote (gseq (inferSchemaOfFirst infer it)
            (gseq (changeCount 1) (ret True))))))"

definition Add :: "('k \<Rightarrow> 'v option \<Rightarrow> (string \<rightharpoonup> string) \<times> string list \<times> string list) \<Rightarrow>
    'k \<Rightarrow> 'v \<Rightarrow> ('k, 'v, bool) bm" where
  "Add infer key v = gbind (newItem key v) (\<lambda>it. gbind getRootNode (\<lambda>n. gbind (node_add n it) (\<lambda>result.
     if \<not> result then ret False
     else gbind (track AddAction it) (\<lambda>it.
            gseq distribute (gseq promote (gseq (inferSchemaOfFirst infer it)
              (gseq (changeCount 1) (ret True))))))))"

definition setUnique :: "bool \<Rightarrow> ('k, 'v, unit) bm" where
  "setUnique u = modify (\<lambda>bt. bt\<lparr>StoreInfo := (StoreInfo bt)\<lparr>IsUnique := u\<rparr>\<rparr>)"

definition AddIfNotExist :: "('k \<Rightarrow> 'v option \<Rightarrow> (string \<rightharpoonup> string) \<times> string list \<times> string list) \<Rightarrow>
    'k \<Rightarrow> 'v \<Rightarrow> ('k, 'v, bool) bm" where
  "AddIfNotExist infer key v = gbind (reads isUnique) (\<lambda>u.
     gseq (setUnique True) (andThen (Add infer key v) (setUnique u)))"

section \<open>Finding and moving the cursor\<close>

definition Find :: "'k \<Rightarrow> bool \<Rightarrow> ('k, 'v, bool) bm" where
  "Find key firstItemWithKey = gbind (reads id) (\<lambda>bt.
     if si_Count (StoreInfo bt) = 0 then ret False
     else gbind (if isCurrentItemSelected bt
                 then gbind getCurrentItem (\<lambda>p.
                        if \<not> firstItemWithKey
                        then gbind (derefItem p) (\<lambda>ci. ret (compare bt (Key ci) key = 0))
                        else ret False)
                 else ret False) (\<lambda>already.
            if already then ret True
            else gbind getRootNode (\<lambda>n. andThen (node_find n key firstItemWithKey) getCurrentItem)))"

definition FindInDescendingOrder :: "'k \<Rightarrow> ('k, 'v, bool) bm" where
  "FindInDescendingOrder key = gbind (reads id) (\<lambda>bt.
     if si_Count (StoreInfo bt) = 0 then ret False
     else gbind getRootNode (\<lambda>n. andThen (node_findInDescendingOrder n key) getCurrentItem))"

definition First :: "('k, 'v, bool) bm" where
  "First = gbind (reads id) (\<lambda>bt.
     if si_Count (StoreInfo bt) = 0 then ret False
     else gbind getRootNode (\<lambda>n. andThen (moveToFirst n) getCurrentItem))"

definition Last :: "('k, 'v, bool) bm" where
  "Last = gbind (reads id) (\<lambda>bt.
     if si_Count (StoreInfo bt) = 0 then ret False
     else gbind getRootNode (\<lambda>n. andThen (moveToLast n) getCurrentItem))"

text \<open>\<open>Next\<close> and \<open>Previous\<close> do nothing without a current item, or when its slot is gone.\<close>

definition moveFromCurrent :: "(('k, 'v) node \<Rightarrow> ('k, 'v, bool) bm) \<Rightarrow> ('k, 'v, bool) bm" where
  "moveFromCurrent move = gbind (reads id) (\<lambda>bt.
     if si_Count (StoreInfo bt) = 0 \<or> \<not> isCurrentItemSelected bt then ret False
     else gbind (getNode (curNodeID bt)) (\<lambda>r. case r of
            None \<Rightarrow> ret False
          | Some n \<Rightarrow> if curItemIndex bt \<ge> int (Count n) then ret False
              else andThen (move n) getCurrentItem))"

definition Next :: "('k, 'v, bool) bm" where
  "Next = moveFromCurrent moveToNext"

definition Previous :: "('k, 'v, bool) bm" where
  "Previous = moveFromCurrent moveToPrevious"

fun findWithIDLoop :: "nat \<Rightarrow> uuid \<Rightarrow> ('k, 'v, bool) bm" where
  "findWithIDLoop 0 i = fail OutOfFuel"
| "findWithIDLoop (Suc f) i = gbind getCurrentItem (\<lambda>p. gbind (derefItem p) (\<lambda>it.
     if i = itemID it then ret True
     else gbind Next (\<lambda>ok. if \<not> ok then ret False else findWithIDLoop f i)))"

definition FindWithID :: "'k \<Rightarrow> uuid \<Rightarrow> ('k, 'v, bool) bm" where
  "FindWithID key i = gbind (Find key True) (\<lambda>ok.
     if ok then gbind (reads fuel) (\<lambda>f. findWithIDLoop f i) else ret False)"

section \<open>Reading the current item\<close>

definition GetCurrentKey :: "('k, 'v, ('k, 'v) item) bm" where
  "GetCurrentKey = gbind (reads id) (\<lambda>bt.
     if currentItem bt = NilPtr then ret (zeroItem (zeroKey bt))
     else gbind (derefItem (currentItem bt)) (\<lambda>it.
            ret ((zeroItem (Key it))\<lparr>itemID := itemID it\<rparr>)))"

text \<open>
  Registering a read of the current item: the tracker's \<open>Get\<close>, the repository's \<open>Fetched\<close>, and
  the note that the value was fetched. \<open>GetCurrentValue\<close>, \<open>GetCurrentItem\<close> and
  \<open>RLockCurrentItem\<close> have this in common.
\<close>

definition registerGet :: "('k, 'v) item_ptr \<Rightarrow> ('k, 'v, ('k, 'v) item) bm" where
  "registerGet p = gbind (derefItem p) (\<lambda>it. gbind (track GetAction it) (\<lambda>it1.
     let it2 = (if ValueNeedsFetch it \<and> \<not> ValueNeedsFetch it1 \<and> Value it1 \<noteq> None
                then it1\<lparr>valueWasFetched := True\<rparr> else it1) in
     gseq (writeItem p it2) (gbind (reads curNodeID) (\<lambda>c. gseq (repoFetched c) (ret it2)))))"

definition GetCurrentValue :: "('k, 'v, 'v) bm" where
  "GetCurrentValue = gbind getCurrentItem (\<lambda>p.
     if p = NilPtr then reads zeroValue
     else gbind (registerGet p) (\<lambda>it. case Value it of None \<Rightarrow> reads zeroValue | Some v \<Rightarrow> ret v))"

definition GetCurrentItem :: "('k, 'v, ('k, 'v) item) bm" where
  "GetCurrentItem = gbind getCurrentItem (\<lambda>p.
     if p = NilPtr then reads (\<lambda>bt. zeroItem (zeroKey bt)) else registerGet p)"

definition RLockCurrentItem :: "('k, 'v, unit) bm" where
  "RLockCurrentItem = gbind getCurrentItem (\<lambda>p.
     if p = NilPtr then fail (Err ''no current item selected to lock'')
     else gbind (registerGet p) (\<lambda>_. ret ()))"

text \<open>The lock-free reads only mark a value that is there as fetched.\<close>

definition peekCurrent :: "('k, 'v) item_ptr \<Rightarrow> ('k, 'v, ('k, 'v) item) bm" where
  "peekCurrent p = gbind (derefItem p) (\<lambda>it.
     if ValueNeedsFetch it \<and> Value it \<noteq> None
     then let it1 = it\<lparr>valueWasFetched := True, ValueNeedsFetch := False\<rparr>
          in gseq (writeItem p it1) (ret it1)
     else ret it)"

definition GetCurrentValueNoLock :: "('k, 'v, 'v) bm" where
  "GetCurrentValueNoLock = gbind getCurrentItem (\<lambda>p.
     if p = NilPtr then reads zeroValue
     else gbind (peekCurrent p) (\<lambda>it. case Value it of None \<Rightarrow> reads zeroValue | Some v \<Rightarrow> ret v))"

definition GetCurrentItemNoLock :: "('k, 'v, ('k, 'v) item) bm" where
  "GetCurrentItemNoLock = gbind getCurrentItem (\<lambda>p.
     if p = NilPtr then reads (\<lambda>bt. zeroItem (zeroKey bt))
     else gbind (peekCurrent p) (\<lambda>it.
       if Value it = None then reads (\<lambda>bt. zeroItem (zeroKey bt)) else ret it))"

section \<open>Updating the current item\<close>

text \<open>
  The guards that the update methods share: a cursor position, a node there, an index below
  its count. An index below zero is an index-out-of-range panic.
\<close>

definition withCurrentSlot :: "(('k, 'v) node \<Rightarrow> nat \<Rightarrow> ('k, 'v) item \<Rightarrow> ('k, 'v, bool) bm) \<Rightarrow> ('k, 'v, bool) bm" where
  "withCurrentSlot body = gbind (reads id) (\<lambda>bt.
     if curNodeID bt = NilUUID then ret False
     else gbind (getNode (curNodeID bt)) (\<lambda>r. case r of
            None \<Rightarrow> ret False
          | Some n \<Rightarrow> if curItemIndex bt \<ge> int (Count n) then ret False
              else gbind (aget_int (Slots n) (curItemIndex bt)) (\<lambda>it. body n (nat (curItemIndex bt)) it)))"

definition storeUpdated :: "('k, 'v) node \<Rightarrow> nat \<Rightarrow> ('k, 'v) item \<Rightarrow> ('k, 'v, bool) bm" where
  "storeUpdated n i it = gbind (track UpdateAction it) (\<lambda>it'.
     gseq (saveNode (n\<lparr>Slots := (Slots n)[i := it']\<rparr>)) (ret True))"

text \<open>
  The error text of a refused key change reads \<open>btree.currentItem.Key\<close>: a nil dereference when
  no current item is loaded.
\<close>

definition refuseKey :: "('k, 'v, bool) bm" where
  "refuseKey = gbind (reads currentItem) (\<lambda>p.
     if p = NilPtr then fail Panic
     else fail (Err ''updating key may affect ordering, thus is not allowed''))"

definition UpdateCurrentItem :: "'k \<Rightarrow> 'v \<Rightarrow> ('k, 'v, bool) bm" where
  "UpdateCurrentItem key v = withCurrentSlot (\<lambda>n i it. gbind (reads id) (\<lambda>bt.
     if compare bt (Key it) key \<noteq> 0 then refuseKey
     else storeUpdated n i (it\<lparr>Key := key, Value := Some v\<rparr>)))"

definition UpdateCurrentValue :: "'v \<Rightarrow> ('k, 'v, bool) bm" where
  "UpdateCurrentValue v = withCurrentSlot (\<lambda>n i it. storeUpdated n i (it\<lparr>Value := Some v\<rparr>))"

definition UpdateCurrentKey :: "'k \<Rightarrow> ('k, 'v, bool) bm" where
  "UpdateCurrentKey key = withCurrentSlot (\<lambda>n i it. gbind (reads id) (\<lambda>bt.
     if compare bt (Key it) key \<noteq> 0 then refuseKey
     else storeUpdated n i (it\<lparr>Key := key\<rparr>)))"

text \<open>
  \<open>UpdateCurrentItemWithItem\<close> stores the item before the tracker sees it; the tracker works on
  the caller's item.
\<close>

definition UpdateCurrentItemWithItem :: "('k, 'v) item \<Rightarrow> ('k, 'v, bool) bm" where
  "UpdateCurrentItemWithItem it = withCurrentSlot (\<lambda>n i _.
     gseq unfetchCurrentValue
       (gseq (modify (\<lambda>bt. bt\<lparr>currentItem := ItemPtr it\<rparr>))
         (gbind (refresh n) (\<lambda>n.
           gseq (putNode (n\<lparr>Slots := (Slots n)[i := it]\<rparr>))
             (gbind (track UpdateAction it) (\<lambda>it'.
               gseq (modify (\<lambda>bt. bt\<lparr>currentItem := ItemPtr it'\<rparr>))
                 (gseq (saveNode (n\<lparr>Slots := (Slots n)[i := it]\<rparr>)) (ret True))))))))"

definition Update :: "'k \<Rightarrow> 'v \<Rightarrow> ('k, 'v, bool) bm" where
  "Update key v = gbind (Find key False) (\<lambda>ok. if \<not> ok then ret False else UpdateCurrentItem key v)"

definition UpdateKey :: "'k \<Rightarrow> ('k, 'v, bool) bm" where
  "UpdateKey key = gbind (Find key False) (\<lambda>ok. if \<not> ok then ret False else UpdateCurrentKey key)"

definition Upsert :: "('k \<Rightarrow> 'v option \<Rightarrow> (string \<rightharpoonup> string) \<times> string list \<times> string list) \<Rightarrow>
    'k \<Rightarrow> 'v \<Rightarrow> ('k, 'v, bool) bm" where
  "Upsert infer key v = gbind (AddIfNotExist infer key v) (\<lambda>ok. if \<not> ok then Update key v else ret True)"

section \<open>Removing the current item\<close>

text \<open>What follows a removal that was completed in a node with a nil child.\<close>

definition finishRemove :: "('k, 'v) item \<Rightarrow> ('k, 'v, bool) bm" where
  "finishRemove deletedItem = gseq (track RemoveAction deletedItem)
     (gseq (setCurrentItemID NilUUID 0) (gseq (changeCount (-1)) (ret True)))"

text \<open>The removal in a leaf.\<close>

definition removeOnLeaf :: "('k, 'v) node \<Rightarrow> ('k, 'v, bool) bm" where
  "removeOnLeaf n = gseq (fixVacatedSlot n)
     (gseq (setCurrentItemID NilUUID 0) (gseq (changeCount (-1)) (ret True)))"

definition RemoveCurrentItem :: "('k, 'v, bool) bm" where
  "RemoveCurrentItem = withCurrentSlot (\<lambda>n index it.
     if itemID it = NilUUID then ret False
     else if hasChildren n
     then gbind (removeItemOnNodeWithNilChild n index) (\<lambda>ok.
            if ok then finishRemove it
            else gbind (moveToNext n) (\<lambda>ok.
              if \<not> ok then ret False
              else gbind (reads id) (\<lambda>bt.
                   gbind (\<lambda>s. case getNode (curNodeID bt) s of
                            (Inl (Err _), s') \<Rightarrow> (Inr None, s') | r \<Rightarrow> r) (\<lambda>r. case r of
                     None \<Rightarrow> ret False
                   | Some currentNode \<Rightarrow>
                       gbind (aget_int (Slots currentNode) (curItemIndex bt)) (\<lambda>succ.
                       gbind (refresh n) (\<lambda>n.
                         gseq (saveNode (n\<lparr>Slots := (Slots n)[index := succ]\<rparr>))
                           (gbind (removeItemOnNodeWithNilChild currentNode (nat (curItemIndex bt))) (\<lambda>ok.
                              if ok then finishRemove succ
                              else removeOnLeaf currentNode))))))))
     else removeOnLeaf n)"

definition Remove :: "'k \<Rightarrow> ('k, 'v, bool) bm" where
  "Remove key = gbind (Find key False) (\<lambda>ok. if \<not> ok then ret False else RemoveCurrentItem)"

end
