(* ===== verification/Handle.thy ===== *)
theory Handle
  imports Store_Info
begin

unbundle bit_operations_syntax

text \<open>
  The registry's handles (\<open>handle.go\<close>) and their fixed-size encoding (\<open>encoding/handle.go\<close>):
  a logical ID with two physical IDs, one of them active, so that a node's new version is written
  beside the old one and made current by flipping one bit. Also \<open>UUID.Split\<close> of \<open>uuid.go\<close>.
\<close>

section \<open>Bytes of machine words\<close>

text \<open>\<open>binary.LittleEndian.PutUintN\<close> and \<open>UintN\<close>; a read of too few bytes is an index panic.\<close>

definition le_bytes :: "nat \<Rightarrow> 'a::len word \<Rightarrow> 8 word list" where
  "le_bytes n w = map (\<lambda>i. ucast (drop_bit (8 * i) w)) [0..<n]"

definition le_word :: "8 word list \<Rightarrow> 'a::len word" where
  "le_word bs = foldr (\<lambda>b a. ucast b OR push_bit 8 a) bs 0"

lemma length_le_bytes [simp]: "length (le_bytes n w) = n"
  by (simp add: le_bytes_def)

lemma bit_le_word:
  "bit (le_word bs :: 'a::len word) k \<longleftrightarrow>
     k < LENGTH('a) \<and> k div 8 < length bs \<and> bit (bs ! (k div 8)) (k mod 8)"
proof (induction bs arbitrary: k)
  case Nil
  then show ?case by (simp add: le_word_def)
next
  case (Cons b bs)
  have w: "le_word (b # bs) = (ucast b OR push_bit 8 (le_word bs) :: 'a word)"
    by (simp add: le_word_def)
  show ?case
  proof (cases "k < 8")
    case True
    then show ?thesis unfolding w by (auto simp: bit_or_iff bit_push_bit_iff bit_ucast_iff)
  next
    case False
    then have k: "k div 8 = Suc ((k - 8) div 8)" "(k - 8) mod 8 = k mod 8"
      by (simp_all add: div_if mod_if)
    have "\<not> bit (ucast b :: 'a word) k"
      using False by (auto simp: bit_ucast_iff dest: bit_imp_le_length)
    then have "bit (le_word (b # bs) :: 'a word) k \<longleftrightarrow> k < LENGTH('a) \<and> bit (le_word bs :: 'a word) (k - 8)"
      unfolding w using False by (auto simp: bit_or_iff bit_push_bit_iff)
    then show ?thesis using k by (auto simp: Cons.IH)
  qed
qed

lemma le_word_le_bytes:
  assumes "LENGTH('a) \<le> 8 * n"
  shows "le_word (le_bytes n w) = (w :: 'a::len word)"
proof (rule bit_word_eqI)
  fix k assume k: "k < LENGTH('a)"
  then have "k div 8 < n" using assms by linarith
  then show "bit (le_word (le_bytes n w) :: 'a word) k = bit w k"
    using k by (simp add: bit_le_word le_bytes_def bit_ucast_iff bit_drop_bit_eq)
qed

lemma le_bytes_le_word:
  assumes "length bs = n" and "8 * n \<le> LENGTH('a)"
  shows "le_bytes n (le_word bs :: 'a::len word) = bs"
proof (rule nth_equalityI)
  fix i assume i: "i < length (le_bytes n (le_word bs :: 'a word))"
  show "le_bytes n (le_word bs :: 'a word) ! i = bs ! i"
  proof (rule bit_word_eqI)
    fix k assume "k < LENGTH(8)"
    then show "bit (le_bytes n (le_word bs :: 'a word) ! i) k = bit (bs ! i) k"
      using i assms by (auto simp: le_bytes_def bit_ucast_iff bit_drop_bit_eq bit_le_word)
  qed
qed (simp add: assms)

lemma uuid_bytes_le: "uuid_bytes u = rev (le_bytes 16 u)"
proof (rule nth_equalityI)
  fix i assume i: "i < length (uuid_bytes u)"
  then have "15 - i < 16" by simp
  then show "uuid_bytes u ! i = rev (le_bytes 16 u) ! i"
    using i by (simp add: uuid_bytes_def le_bytes_def rev_nth del: upt_Suc)
qed (simp add: uuid_bytes_def)

text \<open>\<open>uuid.FromBytes\<close> fails unless it is given 16 bytes.\<close>

definition uuid_FromBytes :: "8 word list \<Rightarrow> go_error + uuid" where
  "uuid_FromBytes b = (if length b = 16 then Inr (le_word (rev b)) else Inl (Err ''invalid UUID''))"

lemma uuid_FromBytes_bytes [simp]: "uuid_FromBytes (uuid_bytes u) = Inr u"
  by (simp add: uuid_FromBytes_def uuid_bytes_le le_word_le_bytes)

lemma length_uuid_bytes [simp]: "length (uuid_bytes u) = 16"
  by (simp add: uuid_bytes_def)

text \<open>\<open>UUID.Split\<close>: each half is shifted in byte by byte.\<close>

definition Split :: "uuid \<Rightarrow> 64 word \<times> 64 word" where
  "Split u = (let half = (\<lambda>bs. fold (\<lambda>b a. push_bit 8 a OR ucast b) bs 0)
              in (half (take 8 (uuid_bytes u)), half (drop 8 (uuid_bytes u))))"

section \<open>Handles\<close>

record handle =
  LogicalID :: uuid
  PhysicalIDA :: uuid
  PhysicalIDB :: uuid
  IsActiveIDB :: bool
  h_Version :: "32 word"
  WorkInProgressTimestamp :: "64 word"
  IsDeleted :: bool

definition zeroHandle :: handle where
  "zeroHandle = \<lparr>LogicalID = NilUUID, PhysicalIDA = NilUUID, PhysicalIDB = NilUUID, IsActiveIDB = False,
     h_Version = 0, WorkInProgressTimestamp = 0, IsDeleted = False\<rparr>"

definition HandleSizeInBytes :: nat where
  "HandleSizeInBytes = 62"

definition NewHandle :: "uuid \<Rightarrow> handle" where
  "NewHandle i = zeroHandle\<lparr>LogicalID := i, PhysicalIDA := i\<rparr>"

definition GetActiveID :: "handle \<Rightarrow> uuid" where
  "GetActiveID h = (if IsActiveIDB h then PhysicalIDB h else PhysicalIDA h)"

definition GetInActiveID :: "handle \<Rightarrow> uuid" where
  "GetInActiveID h = (if IsActiveIDB h then PhysicalIDA h else PhysicalIDB h)"

definition IsAandBinUse :: "handle \<Rightarrow> bool" where
  "IsAandBinUse h = (PhysicalIDA h \<noteq> NilUUID \<and> PhysicalIDB h \<noteq> NilUUID)"

text \<open>\<open>AllocateID\<close>: \<open>fresh\<close> is the UUID that \<open>NewUUID\<close> returns, \<open>now\<close> the time in milliseconds.\<close>

definition AllocateID :: "uuid \<Rightarrow> int \<Rightarrow> handle \<Rightarrow> uuid \<times> handle" where
  "AllocateID freshID now h =
     (if IsAandBinUse h then (NilUUID, h)
      else let h' = h\<lparr>WorkInProgressTimestamp := word_of_int now\<rparr>
           in if IsActiveIDB h' then (freshID, h'\<lparr>PhysicalIDA := freshID\<rparr>)
              else (freshID, h'\<lparr>PhysicalIDB := freshID\<rparr>))"

definition IsExpiredInactive :: "int \<Rightarrow> handle \<Rightarrow> bool" where
  "IsExpiredInactive now h =
     (let expiryTime = now - 60 * 60 * 1000
      in sint (WorkInProgressTimestamp h) > 0 \<and> sint (WorkInProgressTimestamp h) < expiryTime)"

definition HasID :: "handle \<Rightarrow> uuid \<Rightarrow> bool" where
  "HasID h i = (PhysicalIDA h = i \<or> PhysicalIDB h = i)"

definition FlipActiveID :: "handle \<Rightarrow> handle" where
  "FlipActiveID h = h\<lparr>IsActiveIDB := \<not> IsActiveIDB h\<rparr>"

definition ClearInactiveID :: "handle \<Rightarrow> handle" where
  "ClearInactiveID h =
     (if IsActiveIDB h then h\<lparr>PhysicalIDA := NilUUID\<rparr> else h\<lparr>PhysicalIDB := NilUUID\<rparr>)
       \<lparr>WorkInProgressTimestamp := 0\<rparr>"

definition h_IsEmpty :: "handle \<Rightarrow> bool" where
  "h_IsEmpty x = (LogicalID x = NilUUID \<and> \<not> IsDeleted x \<and> PhysicalIDA x = NilUUID \<and>
     PhysicalIDB x = NilUUID \<and> h_Version x = 0 \<and> WorkInProgressTimestamp x = 0)"

definition h_IsEqual :: "handle \<Rightarrow> handle \<Rightarrow> bool" where
  "h_IsEqual x y = (LogicalID x = LogicalID y \<and> IsDeleted x = IsDeleted y \<and>
     PhysicalIDA x = PhysicalIDA y \<and> PhysicalIDB x = PhysicalIDB y)"

record 'a registry_payload =
  rp_RegistryTable :: string
  rp_BlobTable :: string
  rp_CacheDuration :: int
  rp_IsCacheTTL :: bool
  rp_IDs :: "'a list"

text \<open>Only the table, the cache duration and the IDs are copied.\<close>

definition ExtractLogicalIDs :: "handle registry_payload list \<Rightarrow> uuid registry_payload list" where
  "ExtractLogicalIDs storeHandles = map (\<lambda>p. \<lparr>rp_RegistryTable = rp_RegistryTable p, rp_BlobTable = [],
     rp_CacheDuration = rp_CacheDuration p, rp_IsCacheTTL = False, rp_IDs = map LogicalID (rp_IDs p)\<rparr>) storeHandles"

section \<open>Encoding\<close>

text \<open>\<open>encode\<close> appends to the buffer, \<open>Marshal\<close> returns the buffer's contents.\<close>

definition encode :: "8 word list \<Rightarrow> handle \<Rightarrow> 8 word list" where
  "encode w h = w @ uuid_bytes (LogicalID h) @ uuid_bytes (PhysicalIDA h) @ uuid_bytes (PhysicalIDB h) @
     [if IsActiveIDB h then 1 else 0] @ le_bytes 4 (h_Version h) @
     le_bytes 8 (WorkInProgressTimestamp h) @ [if IsDeleted h then 1 else 0]"

definition Marshal :: "handle \<Rightarrow> 8 word list \<Rightarrow> 8 word list" where
  "Marshal v buffer = encode buffer v"

text \<open>
  \<open>decode\<close> reads from the state, the unread part of the buffer: \<open>r.Next(n)\<close> returns at most \<open>n\<close>
  bytes. The flags of the target are set when the byte is 1 and otherwise left as they are.
\<close>

definition nextBytes :: "nat \<Rightarrow> (8 word list, 8 word list) gom" where
  "nextBytes n = (\<lambda>r. (Inr (take n r), drop n r))"

definition readUUID :: "(8 word list, uuid) gom" where
  "readUUID = gbind (nextBytes 16) (\<lambda>b. lift_res (uuid_FromBytes b))"

definition readByte :: "(8 word list, 8 word) gom" where
  "readByte = gbind (nextBytes 1) (\<lambda>b. aget b 0)"

definition readUint :: "nat \<Rightarrow> (8 word list, 'a::len word) gom" where
  "readUint n = gbind (nextBytes n) (\<lambda>b. if length b < n then fail Panic else ret (le_word b))"

definition decode :: "handle \<Rightarrow> (8 word list, handle) gom" where
  "decode target =
     gbind readUUID (\<lambda>l. gbind readUUID (\<lambda>a. gbind readUUID (\<lambda>b.
     gbind readByte (\<lambda>fb. gbind (readUint 4) (\<lambda>v. gbind (readUint 8) (\<lambda>ts. gbind readByte (\<lambda>db.
       ret \<lparr>LogicalID = l, PhysicalIDA = a, PhysicalIDB = b,
            IsActiveIDB = (if fb = 1 then True else IsActiveIDB target), h_Version = v,
            WorkInProgressTimestamp = ts,
            IsDeleted = (if db = 1 then True else IsDeleted target)\<rparr>)))))))"

definition Unmarshal :: "8 word list \<Rightarrow> handle \<Rightarrow> go_error + handle" where
  "Unmarshal data target = fst (decode target data)"

definition UnmarshalLogicalID :: "8 word list \<Rightarrow> go_error + uuid" where
  "UnmarshalLogicalID data = fst (readUUID data)"

section \<open>The encoding is faithful\<close>

lemma nextBytes_app: "length xs = n \<Longrightarrow> nextBytes n (xs @ ys) = (Inr xs, ys)"
  by (simp add: nextBytes_def)

lemma readUUID_app: "readUUID (uuid_bytes u @ ys) = (Inr u, ys)"
  by (simp add: readUUID_def exec_simps nextBytes_app)

lemma readByte_app: "readByte (b # ys) = (Inr b, ys)"
  by (simp add: readByte_def exec_simps nextBytes_def aget_def sget_def)

lemma readUint_app:
  "LENGTH('a) = 8 * n \<Longrightarrow> readUint n (le_bytes n w @ ys) = (Inr (w :: 'a::len word), ys)"
  by (simp add: readUint_def exec_simps nextBytes_app le_word_le_bytes)

lemma decode_encode:
  "decode target (encode [] h @ ys) =
     (Inr (h\<lparr>IsActiveIDB := IsActiveIDB h \<or> IsActiveIDB target, IsDeleted := IsDeleted h \<or> IsDeleted target\<rparr>), ys)"
  unfolding decode_def encode_def
  by (simp add: exec_simps readUUID_app readByte_app readUint_app)

lemma length_encode: "length (encode w h) = length w + HandleSizeInBytes"
  by (simp add: encode_def HandleSizeInBytes_def)

lemma readUUID_cases:
  "readUUID r = (if 16 \<le> length r then Inr (le_word (rev (take 16 r))) else Inl (Err ''invalid UUID''), drop 16 r)"
  by (auto simp: readUUID_def exec_simps nextBytes_def uuid_FromBytes_def min_def)

lemma readByte_cases: "readByte r = (if r = [] then Inl Panic else Inr (hd r), drop 1 r)"
  by (cases r) (simp_all add: readByte_def exec_simps nextBytes_def aget_def sget_def)

lemma readUint_cases:
  "readUint n r = (if length r < n then Inl Panic else Inr (le_word (take n r)), drop n r)"
  by (auto simp: readUint_def exec_simps nextBytes_def)

lemma Split_half: "fold (\<lambda>b a. push_bit 8 a OR ucast b) bs (0 :: 'a::len word) = le_word (rev bs)"
  by (simp add: le_word_def foldr_conv_fold or.commute)

lemma Split_parts: "Split u = (ucast (drop_bit 64 u), ucast u)"
proof -
  have hi: "rev (take 8 (uuid_bytes u)) = drop 8 (le_bytes 16 u)"
    and lo: "rev (drop 8 (uuid_bytes u)) = take 8 (le_bytes 16 u)"
    by (simp_all add: uuid_bytes_le take_rev drop_rev)
  have "le_word (drop 8 (le_bytes 16 u)) = (ucast (drop_bit 64 u) :: 64 word)"
    by (rule bit_word_eqI)
      (auto simp: bit_le_word le_bytes_def bit_ucast_iff bit_drop_bit_eq algebra_simps simp del: upt_Suc dest: bit_imp_le_length)
  moreover have "le_word (take 8 (le_bytes 16 u)) = (ucast u :: 64 word)"
    by (rule bit_word_eqI)
      (auto simp: bit_le_word le_bytes_def bit_ucast_iff bit_drop_bit_eq simp del: upt_Suc)
  ultimately show ?thesis by (simp add: Split_def Split_half hi lo)
qed

lemma word_cat_halves: "word_cat (ucast (drop_bit 64 u) :: 64 word) (ucast u :: 64 word) = (u :: uuid)"
  by (rule bit_word_eqI) (auto simp: bit_word_cat_iff bit_ucast_iff bit_drop_bit_eq not_less)

text \<open>
  C29. A handle survives its encoding: \<open>Marshal\<close> appends exactly 62 bytes, \<open>Unmarshal\<close> into a new
  handle gives the handle back, and \<open>UnmarshalLogicalID\<close> finds the logical ID without decoding the rest.
\<close>

theorem Marshal_roundtrip:
  "Unmarshal (Marshal h []) zeroHandle = Inr h \<and> UnmarshalLogicalID (Marshal h []) = Inr (LogicalID h) \<and>
   length (Marshal h buffer) = length buffer + HandleSizeInBytes"
  using decode_encode [of zeroHandle h "[]"] readUUID_app [of "LogicalID h"]
  by (simp add: Unmarshal_def Marshal_def UnmarshalLogicalID_def zeroHandle_def length_encode)
    (simp add: encode_def)

text \<open>
  C39. \<open>Unmarshal\<close> into a handle that is used again does not give the encoded handle: a flag that is
  set in the target stays set.
\<close>

theorem Unmarshal_keeps_flags:
  "Unmarshal (Marshal h []) target =
     Inr (h\<lparr>IsActiveIDB := IsActiveIDB h \<or> IsActiveIDB target, IsDeleted := IsDeleted h \<or> IsDeleted target\<rparr>)"
  using decode_encode [of target h "[]"] by (simp add: Unmarshal_def Marshal_def)

text \<open>
  C40. Short input: below 48 bytes \<open>Unmarshal\<close> reports an invalid UUID, between 48 and 61 bytes it
  panics on an index, and from 62 bytes on it succeeds.
\<close>

theorem Unmarshal_short:
  "Unmarshal data target =
     (if length data < 48 then Inl (Err ''invalid UUID'')
      else if length data < HandleSizeInBytes then Inl Panic
      else Inr \<lparr>LogicalID = le_word (rev (take 16 data)), PhysicalIDA = le_word (rev (take 16 (drop 16 data))),
             PhysicalIDB = le_word (rev (take 16 (drop 32 data))),
             IsActiveIDB = (data ! 48 = 1 \<or> IsActiveIDB target), h_Version = le_word (take 4 (drop 49 data)),
             WorkInProgressTimestamp = le_word (take 8 (drop 53 data)),
             IsDeleted = (data ! 61 = 1 \<or> IsDeleted target)\<rparr>)"
  unfolding Unmarshal_def decode_def
  by (auto simp: exec_simps readUUID_cases readByte_cases readUint_cases HandleSizeInBytes_def hd_drop_conv_nth)

text \<open>
  \<open>Split\<close> loses nothing: the two halves are the high and the low 64 bits, and they put together
  again are the UUID.
\<close>

theorem Split_halves:
  "Split u = (ucast (drop_bit 64 u), ucast u) \<and> word_cat (fst (Split u)) (snd (Split u)) = u"
  by (simp add: Split_parts word_cat_halves)

text \<open>
  The swap protocol on a handle: while a new version is being written under the allocated ID, readers
  still see the old one; flipping makes the new one current in one step, and clearing then leaves it alone;
  giving up instead restores the IDs.
\<close>

theorem handle_swap:
  assumes "GetActiveID h \<noteq> NilUUID" and "GetInActiveID h = NilUUID" and "n \<noteq> NilUUID"
  shows "\<exists>h1. AllocateID n now h = (n, h1) \<and> GetActiveID h1 = GetActiveID h \<and> GetInActiveID h1 = n \<and>
      AllocateID m later h1 = (NilUUID, h1) \<and>
      GetActiveID (FlipActiveID h1) = n \<and> GetInActiveID (FlipActiveID h1) = GetActiveID h \<and>
      GetActiveID (ClearInactiveID (FlipActiveID h1)) = n \<and>
      GetInActiveID (ClearInactiveID (FlipActiveID h1)) = NilUUID \<and>
      ClearInactiveID h1 = h\<lparr>WorkInProgressTimestamp := 0\<rparr>"
  using assms
  by (cases h) (auto simp: GetActiveID_def GetInActiveID_def AllocateID_def IsAandBinUse_def FlipActiveID_def
      ClearInactiveID_def Let_def split: if_splits)

theorem handle_swap_witness:
  "\<exists>h1. AllocateID 7 0 (NewHandle 5) = (7, h1) \<and> GetActiveID h1 = 5 \<and> GetActiveID (FlipActiveID h1) = 7"
  using handle_swap [of "NewHandle 5" 7 0 0 0]
  by (auto simp: NewHandle_def GetActiveID_def GetInActiveID_def zeroHandle_def)

end
