(* ===== verification/Tx_Lifecycle.thy ===== *)
theory Tx_Lifecycle
  imports Handle
begin

text \<open>
  The life cycle of a transaction: \<open>common.Transaction\<close> with its phases
  (\<open>common/twophasecommittransaction.go\<close>) and the end user's \<open>SinglePhaseTransaction\<close> over several
  two-phase participants (\<open>transaction.go\<close>). The bodies of the phases (locking, writing nodes, undoing)
  are arguments here: what is shown holds whatever they do.
\<close>

section \<open>Modes and states\<close>

datatype transaction_mode = NoCheck | ForWriting | ForReading

text \<open>
  \<open>phaseDone\<close> is -1 initially, 0 after \<open>Begin\<close>, 1 after the start of phase 1, 2 when the transaction is
  committed or rolled back. \<open>world\<close> is everything the bodies work on.
\<close>

record 'w tx =
  tx_mode :: transaction_mode
  phaseDone :: int
  committed :: bool
  maxTime :: int
  world :: 'w

type_synonym ('w, 'a) tm = "('w tx, 'a) gom"

text \<open>
  The bodies: \<open>phase1Commit\<close>, \<open>phase2Commit\<close>, \<open>commitForReaderTransaction\<close>, \<open>rollback\<close> (its argument says
  whether the values of tracked items are removed too), \<open>Close\<close>, \<open>onIdle\<close>, the replication error handler
  when one is set, and what the failure path of phase 2 calls. \<open>priorityRollback\<close> gives the error's text and
  whether its code is \<open>RestoreRegistryFileSectorFailure\<close>.
\<close>

record 'w tx_bodies =
  phase1Body :: "('w, unit) gom"
  phase2Body :: "('w, unit) gom"
  readerBody :: "('w, unit) gom"
  rollbackBody :: "bool \<Rightarrow> ('w, unit) gom"
  closeBody :: "('w, unit) gom"
  onIdleBody :: "'w \<Rightarrow> 'w"
  replError :: "(string option \<Rightarrow> string option \<Rightarrow> bool \<Rightarrow> 'w \<Rightarrow> 'w) option"
  nodesKeysExist :: "'w \<Rightarrow> bool"
  priorityRollback :: "'w \<Rightarrow> (string \<times> bool) option \<times> 'w"
  unlockNodesKeys :: "'w \<Rightarrow> 'w"
  removePriorityLog :: "'w \<Rightarrow> 'w"

abbreviation onWorld :: "('w, 'a) gom \<Rightarrow> ('w, 'a) tm" where
  "onWorld \<equiv> zoom world (\<lambda>w t. t\<lparr>world := w\<rparr>)"

definition tell :: "('w \<Rightarrow> 'w) \<Rightarrow> ('w, unit) tm" where
  "tell f = modify (\<lambda>t. t\<lparr>world := f (world t)\<rparr>)"

definition setPhase :: "int \<Rightarrow> ('w, unit) tm" where
  "setPhase p = modify (\<lambda>t. t\<lparr>phaseDone := p\<rparr>)"

definition notifyReplication :: "'w tx_bodies \<Rightarrow> string option \<Rightarrow> string option \<Rightarrow> bool \<Rightarrow> ('w, unit) tm" where
  "notifyReplication B ioError rollbackError ok = (case replError B of None \<Rightarrow> ret ()
     | Some f \<Rightarrow> tell (f ioError rollbackError ok))"

section \<open>The two-phase commit transaction\<close>

text \<open>Durations are in nanoseconds.\<close>

definition minutes :: "int \<Rightarrow> int" where
  "minutes n = n * 60 * 1000000000"

definition NewTwoPhaseCommitTransaction :: "transaction_mode \<Rightarrow> int \<Rightarrow> bool \<Rightarrow> 'w \<Rightarrow> go_error + 'w tx" where
  "NewTwoPhaseCommitTransaction mode commitMaxDuration l2CacheIsNil w =
     (if l2CacheIsNil then Inl (Err ''l2Cache can't be nil'')
      else let d = (if commitMaxDuration \<le> 0 then minutes 15 else commitMaxDuration);
               d = (if d > minutes 60 then minutes 60 else d)
           in Inr \<lparr>tx_mode = mode, phaseDone = -1, committed = False, maxTime = d, world = w\<rparr>)"

definition HasBegun :: "'w tx \<Rightarrow> bool" where
  "HasBegun t = (phaseDone t \<ge> 0 \<and> phaseDone t < 2)"

definition GetMode :: "'w tx \<Rightarrow> transaction_mode" where
  "GetMode t = tx_mode t"

definition Close :: "'w tx_bodies \<Rightarrow> ('w, unit) tm" where
  "Close B = onWorld (closeBody B)"

definition Begin :: "'w tx_bodies \<Rightarrow> ('w, unit) tm" where
  "Begin B = gbind (reads id) (\<lambda>t.
     if HasBegun t then fail (Err ''transaction is ongoing, 'can't begin again'')
     else if phaseDone t = 2 then fail (Err ''transaction is done, 'create a new one'')
     else gseq (setPhase 0) (tell (onIdleBody B)))"

definition Phase1Commit :: "'w tx_bodies \<Rightarrow> ('w, unit) tm" where
  "Phase1Commit B = gbind (reads id) (\<lambda>t.
     if \<not> HasBegun t then fail (Err ''no transaction to commit, call Begin to start a transaction'')
     else if phaseDone t = 2
     then (if committed t then ret () else fail (Err ''transaction is done, 'create a new one''))
     else gseq (setPhase 1)
       (if tx_mode t = NoCheck then ret ()
        else if tx_mode t = ForReading then onWorld (readerBody B)
        else gbind (attempt (onWorld (phase1Body B))) (\<lambda>r. case r of
            Inr _ \<Rightarrow> ret ()
          | Inl err \<Rightarrow> gseq (setPhase 2)
              (gbind (attempt (onWorld (rollbackBody B True))) (\<lambda>r. case r of
                 Inl rerr \<Rightarrow> gseq (notifyReplication B (Some err) (Some rerr) False)
                   (fail (Err (''phase 1 commit failed, details: '' @ err @ '', rollback error: '' @ rerr)))
               | Inr _ \<Rightarrow> gseq (notifyReplication B (Some err) None True)
                   (fail (Err (''phase 1 commit failed, details: '' @ err))))))))"

text \<open>The deferred \<open>Close\<close> runs on every way out; its own error is dropped.\<close>

definition deferClose :: "'w tx_bodies \<Rightarrow> ('w, 'a) tm \<Rightarrow> ('w, 'a) tm" where
  "deferClose B m = (\<lambda>t. case m t of (r, t') \<Rightarrow> (case Close B t' of
      (Inl Panic, t'') \<Rightarrow> (Inl Panic, t'') | (_, t'') \<Rightarrow> (r, t'')))"

text \<open>The failure path of phase 2: the error reported may become that of the priority rollback.\<close>

definition undoPhase2 :: "'w tx_bodies \<Rightarrow> string \<Rightarrow> ('w, string) tm" where
  "undoPhase2 B err = gbind (reads world) (\<lambda>w.
     if nodesKeysExist B w
     then (case priorityRollback B w of (p1Err, w') \<Rightarrow>
            gseq (modify (\<lambda>t. t\<lparr>world := unlockNodesKeys B w'\<rparr>))
              (ret (case p1Err of Some (se, True) \<Rightarrow> se | _ \<Rightarrow> err)))
     else gseq (tell (removePriorityLog B)) (ret err))"

definition failPhase2 :: "'w tx_bodies \<Rightarrow> string \<Rightarrow> ('w, unit) tm" where
  "failPhase2 B err0 = gbind (undoPhase2 B err0) (\<lambda>err.
     gbind (attempt (onWorld (rollbackBody B True))) (\<lambda>r. case r of
        Inl rerr \<Rightarrow> gseq (notifyReplication B (Some err) (Some rerr) False)
          (fail (Err (''phase 2 commit failed, details: '' @ err @ '', rollback error: '' @ rerr)))
      | Inr _ \<Rightarrow> gseq (notifyReplication B (Some err) None True)
          (fail (Err (''phase 2 commit failed, details: '' @ err)))))"

definition Phase2Commit :: "'w tx_bodies \<Rightarrow> ('w, unit) tm" where
  "Phase2Commit B = gbind (reads id) (\<lambda>t.
     if \<not> HasBegun t then fail (Err ''no transaction to commit, call Begin to start a transaction'')
     else if phaseDone t = 0 then fail (Err ''phase 1 commit has not been invoke yet'')
     else if phaseDone t = 2
     then (if committed t then ret () else fail (Err ''transaction is done, 'create a new one''))
     else gseq (setPhase 2) (deferClose B
       (if tx_mode t \<noteq> ForWriting then modify (\<lambda>t. t\<lparr>committed := True\<rparr>)
        else gbind (attempt (onWorld (phase2Body B))) (\<lambda>r. case r of
            Inr _ \<Rightarrow> modify (\<lambda>t. t\<lparr>committed := True\<rparr>)
          | Inl err \<Rightarrow> failPhase2 B err))))"

definition Rollback :: "'w tx_bodies \<Rightarrow> string option \<Rightarrow> ('w, unit) tm" where
  "Rollback B err = gbind (reads id) (\<lambda>t.
     if phaseDone t = 2
     then (if committed t then fail (Err ''transaction is already committed, cannot rollback'') else ret ())
     else if \<not> HasBegun t then fail (Err ''no transaction to rollback, call Begin to start a transaction'')
     else gseq (setPhase 2)
       (gbind (attempt (onWorld (rollbackBody B True))) (\<lambda>r. case r of
          Inl rerr \<Rightarrow> gseq (attempt (Close B)) (gseq (notifyReplication B err (Some rerr) False)
            (fail (Err (''rollback failed, details: '' @ rerr))))
        | Inr _ \<Rightarrow> gseq (attempt (Close B)) (notifyReplication B err None True))))"

section \<open>The life cycle as a state machine\<close>

text \<open>A step is one call of the interface by the owner of the transaction, whatever its result.\<close>

inductive tx_step :: "'w tx_bodies \<Rightarrow> 'w tx \<Rightarrow> 'w tx \<Rightarrow> bool" for B where
  begins: "tx_step B t (snd (Begin B t))"
| phase1: "tx_step B t (snd (Phase1Commit B t))"
| phase2: "tx_step B t (snd (Phase2Commit B t))"
| rollback: "tx_step B t (snd (Rollback B err t))"
| outside: "tx_step B t (t\<lparr>world := w\<rparr>)"

inductive tx_reach :: "'w tx_bodies \<Rightarrow> 'w tx \<Rightarrow> 'w tx \<Rightarrow> bool" for B and s where
  refl: "tx_reach B s s"
| step: "tx_reach B s t \<Longrightarrow> tx_step B t u \<Longrightarrow> tx_reach B s u"

inductive_cases tx_step_cases: "tx_step B t u"

text \<open>What each call does to the phase and the commit mark, whatever the bodies do.\<close>

lemmas tx_exec = exec_simps setPhase_def tell_def notifyReplication_def

lemma Begin_phase:
  "phaseDone (snd (Begin B t)) = (if phaseDone t = 2 \<or> HasBegun t then phaseDone t else 0) \<and>
   committed (snd (Begin B t)) = committed t \<and> tx_mode (snd (Begin B t)) = tx_mode t"
  by (simp add: Begin_def tx_exec)

lemma Phase1Commit_phase:
  "(if HasBegun t then phaseDone (snd (Phase1Commit B t)) \<in> {1, 2} else snd (Phase1Commit B t) = t) \<and>
   (fst (Phase1Commit B t) = Inr () \<longrightarrow> phaseDone (snd (Phase1Commit B t)) = 1) \<and>
   committed (snd (Phase1Commit B t)) = committed t \<and> tx_mode (snd (Phase1Commit B t)) = tx_mode t"
proof (cases "HasBegun t")
  case False
  then show ?thesis by (simp add: Phase1Commit_def tx_exec)
next
  case True
  obtain q w where q: "phase1Body B (world t) = (q, w)" by (cases "phase1Body B (world t)")
  obtain c v where c: "rollbackBody B True w = (c, v)" by (cases "rollbackBody B True w")
  have n: "phaseDone t \<noteq> 2" using True by (simp add: HasBegun_def)
  show ?thesis
  proof (cases "tx_mode t")
    case ForWriting
    then show ?thesis using True n
      by (cases q; cases c) (auto simp: Phase1Commit_def q c tx_exec split: go_error.split option.split)
  qed (use True n in \<open>simp_all add: Phase1Commit_def tx_exec split: prod.split\<close>)
qed

definition same_phase :: "'w tx \<Rightarrow> 'w tx \<Rightarrow> bool" where
  "same_phase t u \<longleftrightarrow> tx_mode u = tx_mode t \<and> phaseDone u = phaseDone t \<and> committed u = committed t"

lemma undoPhase2_phase: "same_phase t (snd (undoPhase2 B e t))"
  by (simp add: undoPhase2_def same_phase_def tx_exec split: prod.split)

lemma notify_phase: "same_phase t (snd (notifyReplication B a b c t))"
  by (simp add: same_phase_def tx_exec split: option.split)

lemma failPhase2_phase: "same_phase t (snd (failPhase2 B e t)) \<and> fst (failPhase2 B e t) \<noteq> Inr ()"
proof -
  obtain r u where u: "undoPhase2 B e t = (r, u)" by (cases "undoPhase2 B e t")
  then have tu: "same_phase t u" using undoPhase2_phase [of t B e] by simp
  obtain q w where q: "rollbackBody B True (world u) = (q, w)" by (cases "rollbackBody B True (world u)")
  show ?thesis using tu
    by (cases r; cases q) (auto simp: failPhase2_def u q tx_exec same_phase_def split: go_error.splits option.splits)
qed

lemma deferClose_phase:
  "same_phase (snd (m t)) (snd (deferClose B m t)) \<and> (fst (deferClose B m t) = Inr x \<longrightarrow> fst (m t) = Inr x)"
  by (simp add: deferClose_def Close_def same_phase_def tx_exec split: prod.splits sum.splits go_error.splits)

definition phase2Inner :: "'w tx_bodies \<Rightarrow> 'w tx \<Rightarrow> ('w, unit) tm" where
  "phase2Inner B t = (if tx_mode t \<noteq> ForWriting then modify (\<lambda>t. t\<lparr>committed := True\<rparr>)
        else gbind (attempt (onWorld (phase2Body B))) (\<lambda>r. case r of
            Inr _ \<Rightarrow> modify (\<lambda>t. t\<lparr>committed := True\<rparr>)
          | Inl err \<Rightarrow> failPhase2 B err))"

lemma phase2Inner_phase:
  "phaseDone (snd (phase2Inner B s t)) = phaseDone t \<and> tx_mode (snd (phase2Inner B s t)) = tx_mode t \<and>
   (fst (phase2Inner B s t) = Inr () \<longrightarrow> committed (snd (phase2Inner B s t)))"
proof -
  obtain q w where q: "phase2Body B (world t) = (q, w)" by (cases "phase2Body B (world t)")
  show ?thesis
    using failPhase2_phase [of "t\<lparr>world := w\<rparr>" B]
    by (cases q) (auto simp: phase2Inner_def q tx_exec same_phase_def split: go_error.splits)
qed

lemma Phase2Commit_unfold:
  "Phase2Commit B t = (if phaseDone t = 1 then deferClose B (phase2Inner B t) (t\<lparr>phaseDone := 2\<rparr>)
     else if HasBegun t then (Inl (Err ''phase 1 commit has not been invoke yet''), t)
     else (Inl (Err ''no transaction to commit, call Begin to start a transaction''), t))"
  by (auto simp: Phase2Commit_def phase2Inner_def [symmetric] HasBegun_def tx_exec)

lemma Phase2Commit_phase:
  "(if phaseDone t = 1 then phaseDone (snd (Phase2Commit B t)) = 2 else snd (Phase2Commit B t) = t) \<and>
   (fst (Phase2Commit B t) = Inr () \<longrightarrow> committed (snd (Phase2Commit B t)) \<and> phaseDone t = 1) \<and>
   tx_mode (snd (Phase2Commit B t)) = tx_mode t"
  using deferClose_phase [of "phase2Inner B t" "t\<lparr>phaseDone := 2\<rparr>" B "()"]
    phase2Inner_phase [of B t "t\<lparr>phaseDone := 2\<rparr>"]
  by (auto simp: Phase2Commit_unfold same_phase_def)

lemma Rollback_phase:
  "(if HasBegun t then phaseDone (snd (Rollback B e t)) = 2 else snd (Rollback B e t) = t) \<and>
   committed (snd (Rollback B e t)) = committed t \<and> tx_mode (snd (Rollback B e t)) = tx_mode t"
proof (cases "HasBegun t")
  case False
  then show ?thesis by (simp add: Rollback_def tx_exec)
next
  case True
  obtain q w where q: "rollbackBody B True (world t) = (q, w)" by (cases "rollbackBody B True (world t)")
  obtain c v where c: "closeBody B w = (c, v)" by (cases "closeBody B w")
  have n: "phaseDone t \<noteq> 2" using True by (simp add: HasBegun_def)
  show ?thesis using True n
    by (cases q; cases c) (simp_all add: Rollback_def Close_def q c tx_exec split: go_error.split option.split)
qed

text \<open>
  The invariant: the phase is one of the four, and only a finished transaction is committed. A
  finished transaction does not change any more, and its mode never does.
\<close>

definition tx_inv :: "'w tx \<Rightarrow> bool" where
  "tx_inv t \<longleftrightarrow> phaseDone t \<in> {-1, 0, 1, 2} \<and> (committed t \<longrightarrow> phaseDone t = 2)"

lemma tx_step_inv:
  "tx_step B t u \<Longrightarrow> tx_inv t \<Longrightarrow> tx_inv u \<and> tx_mode u = tx_mode t \<and>
     (phaseDone t = 2 \<longrightarrow> phaseDone u = 2 \<and> committed u = committed t) \<and>
     (committed u \<longrightarrow> committed t \<or> phaseDone t = 1)"
proof (induction rule: tx_step.induct)
  case (begins t)
  then show ?case using Begin_phase [of B t] by (auto simp: tx_inv_def HasBegun_def)
next
  case (phase1 t)
  then show ?case using Phase1Commit_phase [of t B] by (auto simp: tx_inv_def HasBegun_def split: if_splits)
next
  case (phase2 t)
  then show ?case using Phase2Commit_phase [of t B] by (auto simp: tx_inv_def split: if_splits)
next
  case (rollback t err)
  then show ?case using Rollback_phase [of t B err] by (auto simp: tx_inv_def HasBegun_def split: if_splits)
next
  case (outside t w)
  then show ?case by (simp add: tx_inv_def)
qed

lemma tx_reach_inv: "tx_reach B s t \<Longrightarrow> tx_inv s \<Longrightarrow> tx_inv t \<and> tx_mode t = tx_mode s"
  by (induction rule: tx_reach.induct) (auto dest: tx_step_inv)

section \<open>The two-phase interface\<close>

text \<open>
  What a client of a two-phase transaction relies on: after \<open>Rollback\<close>, successful or not, the
  transaction is not open, and its mode is what it was.
\<close>

locale two_phase =
  fixes hasBegun :: "'t \<Rightarrow> bool" and getMode :: "'t \<Rightarrow> transaction_mode"
    and rollback :: "string option \<Rightarrow> ('t, unit) gom"
  assumes rollback_ends: "\<not> hasBegun (snd (rollback e t))"
    and rollback_mode: "getMode (snd (rollback e t)) = getMode t"

interpretation ctx: two_phase HasBegun GetMode "Rollback B" for B
proof
  fix e t
  show "\<not> HasBegun (snd (Rollback B e t))"
    using Rollback_phase [of t B e] by (auto simp: HasBegun_def split: if_splits)
  show "GetMode (snd (Rollback B e t)) = GetMode t"
    using Rollback_phase [of t B e] by (simp add: GetMode_def)
qed

section \<open>Several participants\<close>

text \<open>
  \<open>SinglePhaseTransaction\<close>: the SOP transaction and the others registered with it. Participants are
  values of any type \<open>'p\<close>, their methods work on a common world.
\<close>

record ('p, 'w) participants =
  p_Begin :: "'p \<Rightarrow> ('w, unit) gom"
  p_Phase1 :: "'p \<Rightarrow> ('w, unit) gom"
  p_Phase2 :: "'p \<Rightarrow> ('w, unit) gom"
  p_Rollback :: "'p \<Rightarrow> string option \<Rightarrow> ('w, unit) gom"

record 'p single_phase =
  SopPhaseCommitTransaction :: 'p
  otherTransactions :: "'p list"

definition AddPhasedTransaction :: "'p list \<Rightarrow> 'p single_phase \<Rightarrow> 'p single_phase" where
  "AddPhasedTransaction ps t = t\<lparr>otherTransactions := otherTransactions t @ ps\<rparr>"

definition sp_Begin :: "('p, 'w) participants \<Rightarrow> 'p single_phase \<Rightarrow> ('w, unit) gom" where
  "sp_Begin P t = gseq (p_Begin P (SopPhaseCommitTransaction t)) (gfor (otherTransactions t) (p_Begin P))"

text \<open>Every participant is rolled back, the last error is kept.\<close>

fun rollbackOthers :: "('p, 'w) participants \<Rightarrow> string option \<Rightarrow> 'p list \<Rightarrow> ('w, string option) gom" where
  "rollbackOthers P lastErr [] = ret lastErr"
| "rollbackOthers P lastErr (p # ps) = gbind (attempt (p_Rollback P p None)) (\<lambda>r.
     rollbackOthers P (case r of Inl e \<Rightarrow> Some e | Inr _ \<Rightarrow> lastErr) ps)"

definition sp_Rollback :: "('p, 'w) participants \<Rightarrow> 'p single_phase \<Rightarrow> ('w, unit) gom" where
  "sp_Rollback P t = gbind (rollbackOthers P None (SopPhaseCommitTransaction t # otherTransactions t)) (\<lambda>e.
     case e of None \<Rightarrow> ret () | Some e \<Rightarrow> fail (Err e))"

text \<open>The way out on a failed phase.\<close>

definition abandon :: "('p, 'w) participants \<Rightarrow> 'p single_phase \<Rightarrow> string \<Rightarrow> string \<Rightarrow> ('w, unit) gom" where
  "abandon P t phase err = gbind (attempt (sp_Rollback P t)) (\<lambda>r. case r of
     Inl rbErr \<Rightarrow> fail (Err (phase @ '' failed: '' @ err @ '', rollback failed: '' @ rbErr))
   | Inr _ \<Rightarrow> fail (Err err))"

fun prepareOthers :: "('p, 'w) participants \<Rightarrow> 'p single_phase \<Rightarrow> 'p list \<Rightarrow> ('w, unit) gom" where
  "prepareOthers P t [] = ret ()"
| "prepareOthers P t (p # ps) = gbind (attempt (p_Phase1 P p)) (\<lambda>r. case r of
     Inl err \<Rightarrow> abandon P t ''Phase1Commit'' err | Inr _ \<Rightarrow> prepareOthers P t ps)"

definition sp_Commit :: "('p, 'w) participants \<Rightarrow> 'p single_phase \<Rightarrow> ('w, unit) gom" where
  "sp_Commit P t = gseq (prepareOthers P t (SopPhaseCommitTransaction t # otherTransactions t))
     (gbind (attempt (p_Phase2 P (SopPhaseCommitTransaction t))) (\<lambda>r. case r of
        Inl err \<Rightarrow> abandon P t ''Phase2Commit'' err
      | Inr _ \<Rightarrow> gfor (otherTransactions t) (\<lambda>p. gseq (attempt (p_Phase2 P p)) (ret ()))))"

text \<open>Participants that record the calls made to them, with their outcome.\<close>

datatype 'p call = Phase1Call 'p bool | Phase2Call 'p bool | RollbackCall 'p

definition recorded :: "(bool \<Rightarrow> 'c) \<Rightarrow> ('w, unit) gom \<Rightarrow> ('w \<times> 'c list, unit) gom" where
  "recorded c m = (\<lambda>(w, l). case m w of (r, w') \<Rightarrow> (r, (w', l @ [c (r = Inr ())])))"

definition observed :: "('p, 'w) participants \<Rightarrow> ('p, 'w \<times> 'p call list) participants" where
  "observed P = \<lparr>p_Begin = (\<lambda>p (w, l). case p_Begin P p w of (r, w') \<Rightarrow> (r, (w', l))),
     p_Phase1 = (\<lambda>p. recorded (Phase1Call p) (p_Phase1 P p)),
     p_Phase2 = (\<lambda>p. recorded (Phase2Call p) (p_Phase2 P p)),
     p_Rollback = (\<lambda>p e. recorded (\<lambda>_. RollbackCall p) (p_Rollback P p e))\<rparr>"

fun isPhase1Call :: "'p call \<Rightarrow> bool" where
  "isPhase1Call (Phase1Call p b) = True"
| "isPhase1Call c = False"

definition everyone :: "'p single_phase \<Rightarrow> 'p list" where
  "everyone t = SopPhaseCommitTransaction t # otherTransactions t"

lemma recorded_apply [exec_simps]:
  "recorded c m s = (case m (fst s) of (r, w') \<Rightarrow> (r, (w', snd s @ [c (r = Inr ())])))"
  by (cases s) (simp add: recorded_def)

lemma observed_simps [simp]:
  "p_Phase1 (observed P) p = recorded (Phase1Call p) (p_Phase1 P p)"
  "p_Phase2 (observed P) p = recorded (Phase2Call p) (p_Phase2 P p)"
  "p_Rollback (observed P) p e = recorded (\<lambda>_. RollbackCall p) (p_Rollback P p e)"
  by (simp_all add: observed_def)

lemma rollbackOthers_calls:
  "case rollbackOthers (observed P) le ps s of
     (Inr _, s') \<Rightarrow> snd s' = snd s @ map RollbackCall ps | (Inl e, s') \<Rightarrow> \<forall>m. e \<noteq> Err m"
proof (induction ps arbitrary: le s)
  case Nil
  then show ?case by (simp add: exec_simps)
next
  case (Cons p ps)
  obtain r w' where r: "p_Rollback P p None (fst s) = (r, w')" by (cases "p_Rollback P p None (fst s)")
  let ?s = "(w', snd s @ [RollbackCall p])"
  have go: ?case if "rollbackOthers (observed P) le (p # ps) s = rollbackOthers (observed P) le' ps ?s" for le'
    using Cons.IH [where le = le' and s = ?s] unfolding that
    by (cases "rollbackOthers (observed P) le' ps ?s"; cases "fst (rollbackOthers (observed P) le' ps ?s)") auto
  show ?case
  proof (cases r)
    case (Inl e)
    show ?thesis
    proof (cases e)
      case (Err m)
      then show ?thesis using Inl r by (intro go [of "Some m"]) (simp add: exec_simps)
    qed (use Inl r in \<open>simp_all add: exec_simps\<close>)
  next
    case (Inr u)
    then show ?thesis using r by (intro go [of le]) (simp add: exec_simps)
  qed
qed

lemma abandon_calls:
  "case abandon (observed P) t ph err s of
     (Inl (Err _), s') \<Rightarrow> snd s' = snd s @ map RollbackCall (everyone t) | (Inl _, s') \<Rightarrow> True | (Inr _, s') \<Rightarrow> False"
proof -
  obtain r s' where r: "rollbackOthers (observed P) None (everyone t) s = (r, s')"
    by (cases "rollbackOthers (observed P) None (everyone t) s")
  then show ?thesis
    using rollbackOthers_calls [where P = P and le = None and ps = "everyone t" and s = s]
    by (cases r) (auto simp: abandon_def sp_Rollback_def everyone_def exec_simps split: go_error.splits option.splits)
qed

lemma prepareOthers_calls:
  "case prepareOthers (observed P) t ps s of
     (Inr _, s') \<Rightarrow> snd s' = snd s @ map (\<lambda>p. Phase1Call p True) ps
   | (Inl (Err _), s') \<Rightarrow> \<exists>l0. snd s' = snd s @ l0 @ map RollbackCall (everyone t) \<and> list_all isPhase1Call l0
   | (Inl _, s') \<Rightarrow> True"
proof (induction ps arbitrary: s)
  case Nil
  then show ?case by (simp add: exec_simps)
next
  case (Cons p ps)
  obtain r w' where r: "p_Phase1 P p (fst s) = (r, w')" by (cases "p_Phase1 P p (fst s)")
  let ?s = "(w', snd s @ [Phase1Call p (r = Inr ())])"
  show ?case
  proof (cases r)
    case (Inl e)
    show ?thesis
    proof (cases e)
      case (Err m)
      have eq: "prepareOthers (observed P) t (p # ps) s = abandon (observed P) t ''Phase1Commit'' m ?s"
        using r Inl Err by (simp add: exec_simps)
      show ?thesis unfolding eq
        using abandon_calls [where P = P and t = t and ph = "''Phase1Commit''" and err = m and s = ?s] Inl
        by (cases "abandon (observed P) t ''Phase1Commit'' m ?s")
          (auto split: sum.splits go_error.splits intro!: exI [of _ "[Phase1Call p False]"])
    qed (use Inl r in \<open>simp_all add: exec_simps\<close>)
  next
    case (Inr u)
    have eq: "prepareOthers (observed P) t (p # ps) s = prepareOthers (observed P) t ps ?s"
      using r Inr by (simp add: exec_simps)
    obtain q s' where q: "prepareOthers (observed P) t ps ?s = (q, s')"
      by (cases "prepareOthers (observed P) t ps ?s")
    have ex: "\<exists>l0. snd s @ Phase1Call p True # l1 @ l2 = snd s @ l0 @ l2 \<and> list_all isPhase1Call l0"
      if "list_all isPhase1Call l1" for l1 l2
      using that by (intro exI [of _ "Phase1Call p True # l1"]) simp
    show ?thesis unfolding eq q
      using Cons.IH [where s = ?s] Inr ex unfolding q by (auto split: sum.splits go_error.splits)
  qed
qed

lemma finishOthers_calls:
  "case gfor ps (\<lambda>p. gseq (attempt (p_Phase2 (observed P) p)) (ret ())) s of
     (Inr _, s') \<Rightarrow> \<exists>bs. length bs = length ps \<and> snd s' = snd s @ map2 Phase2Call ps bs
   | (Inl e, s') \<Rightarrow> \<forall>m. e \<noteq> Err m"
proof (induction ps arbitrary: s)
  case Nil
  then show ?case by (simp add: exec_simps)
next
  case (Cons p ps)
  obtain r w' where r: "p_Phase2 P p (fst s) = (r, w')" by (cases "p_Phase2 P p (fst s)")
  have ex: "\<exists>bs. length bs = Suc (length ps) \<and> l @ Phase2Call p b # map2 Phase2Call ps cs = l @ map2 Phase2Call (p # ps) bs"
    if "length cs = length ps" for l b cs
    using that by (intro exI [of _ "b # cs"]) simp
  let ?s = "(w', snd s @ [Phase2Call p (r = Inr ())])"
  let ?f = "\<lambda>p. gseq (attempt (p_Phase2 (observed P) p)) (ret ())"
  have go: ?case if "gfor (p # ps) ?f s = gfor ps ?f ?s"
    using Cons.IH [where s = ?s] ex unfolding that
    by (cases "gfor ps ?f ?s"; cases "fst (gfor ps ?f ?s)") auto
  show ?case
  proof (cases r)
    case (Inl e)
    then show ?thesis using r go by (cases e) (auto simp: exec_simps)
  next
    case (Inr u)
    then show ?thesis using r by (intro go) (simp add: exec_simps)
  qed
qed

section \<open>Properties\<close>

text \<open>
  C31. From the creation of a transaction on, whatever calls are made and whatever their bodies do: the
  phase is one of the four, the mode never changes, a transaction is committed only in its last phase
  and only by a step out of phase 1, and a finished transaction never changes any more. The commit
  duration is positive and at most an hour.
\<close>

theorem tx_phases:
  assumes "NewTwoPhaseCommitTransaction mode d False w = Inr s" and "tx_reach B s t" and "tx_step B t u"
  shows "phaseDone u \<in> {-1, 0, 1, 2} \<and> tx_mode u = mode \<and> \<not> (HasBegun u \<and> committed u) \<and>
    (committed u \<longrightarrow> committed t \<or> phaseDone t = 1) \<and>
    (phaseDone t = 2 \<longrightarrow> phaseDone u = 2 \<and> committed u = committed t) \<and>
    0 < maxTime s \<and> maxTime s \<le> minutes 60"
proof -
  have s: "tx_inv s" "tx_mode s = mode" "0 < maxTime s" "maxTime s \<le> minutes 60"
    using assms(1) by (auto simp: NewTwoPhaseCommitTransaction_def Let_def tx_inv_def minutes_def split: if_splits)
  from tx_reach_inv [OF assms(2) s(1)] have t: "tx_inv t" "tx_mode t = mode" using s(2) by simp_all
  from tx_step_inv [OF assms(3) t(1)] t(2) s(3,4) show ?thesis by (auto simp: tx_inv_def HasBegun_def)
qed

definition idle_bodies :: "unit tx_bodies" where
  "idle_bodies = \<lparr>phase1Body = ret (), phase2Body = ret (), readerBody = ret (), rollbackBody = (\<lambda>_. ret ()),
     closeBody = ret (), onIdleBody = id, replError = None, nodesKeysExist = (\<lambda>_. False),
     priorityRollback = (\<lambda>w. (None, w)), unlockNodesKeys = id, removePriorityLog = id\<rparr>"

theorem tx_phases_witness:
  "\<exists>s. NewTwoPhaseCommitTransaction ForWriting 0 False () = Inr s \<and>
     (let t = snd (Phase1Commit idle_bodies (snd (Begin idle_bodies s))); u = snd (Phase2Commit idle_bodies t)
      in committed u \<and> phaseDone u \<in> {-1, 0, 1, 2} \<and> tx_mode u = ForWriting)"
proof -
  let ?s = "\<lparr>tx_mode = ForWriting, phaseDone = -1, committed = False, maxTime = minutes 15, world = ()\<rparr>"
  let ?t = "snd (Phase1Commit idle_bodies (snd (Begin idle_bodies ?s)))"
  have n: "NewTwoPhaseCommitTransaction ForWriting 0 False () = Inr ?s"
    by (simp add: NewTwoPhaseCommitTransaction_def minutes_def)
  have r: "tx_reach idle_bodies ?s ?t"
    by (rule tx_reach.step [OF tx_reach.step [OF tx_reach.refl tx_step.begins] tx_step.phase1])
  have "committed (snd (Phase2Commit idle_bodies ?t))"
    by (simp add: Begin_def Phase1Commit_def Phase2Commit_def deferClose_def Close_def idle_bodies_def HasBegun_def tx_exec)
  then show ?thesis using n tx_phases [OF n r tx_step.phase2] by (simp add: Let_def)
qed

text \<open>
  A finished transaction refuses everything but an idempotent rollback: a second commit of a
  committed transaction is an error. (The branches of \<open>Phase1Commit\<close> and \<open>Phase2Commit\<close> that would accept it
  are never reached, because \<open>HasBegun\<close> is tested before.)
\<close>

theorem finished_transaction:
  assumes "phaseDone t = 2"
  shows "fst (Begin B t) = Inl (Err ''transaction is done, 'create a new one'') \<and>
    Phase1Commit B t = (Inl (Err ''no transaction to commit, call Begin to start a transaction''), t) \<and>
    Phase2Commit B t = (Inl (Err ''no transaction to commit, call Begin to start a transaction''), t) \<and>
    Rollback B e t =
      (if committed t then Inl (Err ''transaction is already committed, cannot rollback'') else Inr (), t)"
  using assms by (simp add: Begin_def Phase1Commit_def Phase2Commit_def Rollback_def HasBegun_def tx_exec)

theorem finished_transaction_witness:
  "Phase1Commit idle_bodies \<lparr>tx_mode = ForWriting, phaseDone = 2, committed = True, maxTime = 1, world = ()\<rparr> =
     (Inl (Err ''no transaction to commit, call Begin to start a transaction''),
      \<lparr>tx_mode = ForWriting, phaseDone = 2, committed = True, maxTime = 1, world = ()\<rparr>)"
  using finished_transaction
    [of "\<lparr>tx_mode = ForWriting, phaseDone = 2, committed = True, maxTime = 1, world = ()\<rparr>" idle_bodies None] by simp

text \<open>
  C21. The commit of several participants keeps the order of a two-phase commit. When it succeeds, every
  participant was prepared, then SOP was finalised, then each of the others. When it fails, everyone was
  rolled back, and no phase 2 had been called unless everyone was prepared and it was SOP's that failed.
\<close>

theorem sp_Commit_protocol:
  "case sp_Commit (observed P) t (w, []) of
     (Inr _, (_, l)) \<Rightarrow> \<exists>bs. length bs = length (otherTransactions t) \<and>
        l = map (\<lambda>p. Phase1Call p True) (everyone t) @ [Phase2Call (SopPhaseCommitTransaction t) True] @
            map2 Phase2Call (otherTransactions t) bs
   | (Inl (Err _), (_, l)) \<Rightarrow> \<exists>l0. l = l0 @ map RollbackCall (everyone t) \<and>
        (list_all isPhase1Call l0 \<or>
         l0 = map (\<lambda>p. Phase1Call p True) (everyone t) @ [Phase2Call (SopPhaseCommitTransaction t) False])
   | (Inl _, (_, l)) \<Rightarrow> True"
proof -
  let ?pl = "map (\<lambda>p. Phase1Call p True) (everyone t)"
  let ?sop = "SopPhaseCommitTransaction t"
  obtain q w1 l1 where q: "prepareOthers (observed P) t (everyone t) (w, []) = (q, (w1, l1))"
    by (cases "prepareOthers (observed P) t (everyone t) (w, [])") auto
  note prep = prepareOthers_calls [where P = P and t = t and ps = "everyone t" and s = "(w, [])", unfolded q]
  show ?thesis
  proof (cases q)
    case (Inl e)
    then show ?thesis using prep q
      by (cases e) (auto simp: sp_Commit_def everyone_def exec_simps)
  next
    case (Inr u)
    have l1: "l1 = ?pl" using prep Inr by simp
    obtain r w2 where r: "p_Phase2 P ?sop w1 = (r, w2)" by (cases "p_Phase2 P ?sop w1")
    let ?s = "(w2, ?pl @ [Phase2Call ?sop (r = Inr ())])"
    show ?thesis
    proof (cases r)
      case (Inl e)
      show ?thesis
      proof (cases e)
        case (Err m)
        have eq: "sp_Commit (observed P) t (w, []) = abandon (observed P) t ''Phase2Commit'' m ?s"
          using q Inr l1 r Inl Err by (simp add: sp_Commit_def everyone_def exec_simps)
        show ?thesis unfolding eq
          using abandon_calls [where P = P and t = t and ph = "''Phase2Commit''" and err = m and s = ?s] Inl
          by (cases "abandon (observed P) t ''Phase2Commit'' m ?s") (auto split: sum.splits go_error.splits)
      qed (use q Inr r Inl in \<open>simp_all add: sp_Commit_def everyone_def exec_simps\<close>)
    next
      case (Inr v)
      let ?f = "\<lambda>p. gseq (attempt (p_Phase2 (observed P) p)) (ret ())"
      have eq: "sp_Commit (observed P) t (w, []) = gfor (otherTransactions t) ?f ?s"
        using q \<open>q = Inr u\<close> l1 r Inr by (simp add: sp_Commit_def everyone_def exec_simps)
      show ?thesis unfolding eq
        using finishOthers_calls [where P = P and ps = "otherTransactions t" and s = ?s] Inr
        by (cases "gfor (otherTransactions t) ?f ?s") (auto split: sum.splits go_error.splits)
    qed
  qed
qed

end
