(* ===== verification/With_Transaction.thy ===== *)
theory With_Transaction
  imports Btree_Api Tx_Lifecycle
begin

text \<open>
  The B-tree as a transaction hands it out (\<open>btree/withtransaction.go\<close>): every method first checks the
  transaction, delegates to the B-tree, and rolls the transaction back when the delegate fails. The
  transaction is reached through its interface; what the wrapper guarantees is proved from the
  interface's laws and instantiated on \<open>common.Transaction\<close>.
\<close>

section \<open>The wrapper\<close>

record 't transaction_methods =
  m_HasBegun :: "'t \<Rightarrow> bool"
  m_GetMode :: "'t \<Rightarrow> transaction_mode"
  m_Rollback :: "string option \<Rightarrow> ('t, unit) gom"

text \<open>\<open>btreeWithTransaction\<close>: the wrapped B-tree and the transaction.\<close>

record ('k, 'v, 't) btree_with_transaction =
  wrapped :: "('k, 'v) btree"
  trans :: 't

type_synonym ('k, 'v, 't, 'a) wm = "(('k, 'v, 't) btree_with_transaction, 'a) gom"

abbreviation onTree :: "('k, 'v, 'a) bm \<Rightarrow> ('k, 'v, 't, 'a) wm" where
  "onTree \<equiv> zoom wrapped (\<lambda>b s. s\<lparr>wrapped := b\<rparr>)"

abbreviation onTrans :: "('t, 'a) gom \<Rightarrow> ('k, 'v, 't, 'a) wm" where
  "onTrans \<equiv> zoom trans (\<lambda>t s. s\<lparr>trans := t\<rparr>)"

definition errTransHasNotBegunMsg :: string where
  "errTransHasNotBegunMsg = ''can't do operation on b-tree if transaction has not begun''"

text \<open>A rollback of the transaction after which the method returns an error.\<close>

definition rollbackThen :: "'t transaction_methods \<Rightarrow> string option \<Rightarrow> (string \<Rightarrow> string) \<Rightarrow> string \<Rightarrow> ('k, 'v, 't, 'a) wm" where
  "rollbackThen I cause rbMsg msg = gbind (attempt (onTrans (m_Rollback I cause))) (\<lambda>rb. case rb of
     Inl rbErr \<Rightarrow> fail (Err (rbMsg rbErr)) | Inr _ \<Rightarrow> fail (Err msg))"

text \<open>The delegate, with the rollback that follows its failure.\<close>

definition delegate :: "'t transaction_methods \<Rightarrow> string \<Rightarrow> ('k, 'v, 'a) bm \<Rightarrow> ('k, 'v, 't, 'a) wm" where
  "delegate I what m = gbind (attempt (onTree m)) (\<lambda>r. case r of
     Inr x \<Rightarrow> ret x
   | Inl err \<Rightarrow> let msg = ''btree '' @ what @ '' failed: '' @ err
               in rollbackThen I (Some err) (\<lambda>rbErr. msg @ '', rollback failed: '' @ rbErr) msg)"

text \<open>The pattern of the write operations: \<open>verb\<close> is the one in the message of a wrong mode.\<close>

definition writeOp :: "'t transaction_methods \<Rightarrow> string \<Rightarrow> string \<Rightarrow> ('k, 'v, 'a) bm \<Rightarrow> ('k, 'v, 't, 'a) wm" where
  "writeOp I verb what m = gbind (reads trans) (\<lambda>t.
     if \<not> m_HasBegun I t then fail (Err errTransHasNotBegunMsg)
     else if m_GetMode I t \<noteq> ForWriting
     then let msg = ''can't '' @ verb @ '' item, transaction is not for writing''
          in rollbackThen I None (\<lambda>err. msg @ '', rollback failed: '' @ err) msg
     else delegate I what m)"

text \<open>The pattern of the read operations.\<close>

definition readOp :: "'t transaction_methods \<Rightarrow> string \<Rightarrow> ('k, 'v, 'a) bm \<Rightarrow> ('k, 'v, 't, 'a) wm" where
  "readOp I what m = gbind (reads trans) (\<lambda>t.
     if \<not> m_HasBegun I t
     then rollbackThen I None (\<lambda>err. errTransHasNotBegunMsg @ '', rollback failed: '' @ err) errTransHasNotBegunMsg
     else delegate I what m)"

type_synonym ('k, 'v) infer = "'k \<Rightarrow> 'v option \<Rightarrow> (string \<rightharpoonup> string) \<times> string list \<times> string list"

definition trans_Add :: "'t transaction_methods \<Rightarrow> ('k, 'v) infer \<Rightarrow> 'k \<Rightarrow> 'v \<Rightarrow> ('k, 'v, 't, bool) wm" where
  "trans_Add I infer key v = writeOp I ''add'' ''add'' (Add infer key v)"

definition trans_AddIfNotExist :: "'t transaction_methods \<Rightarrow> ('k, 'v) infer \<Rightarrow> 'k \<Rightarrow> 'v \<Rightarrow> ('k, 'v, 't, bool) wm" where
  "trans_AddIfNotExist I infer key v = writeOp I ''add'' ''add if not exist'' (AddIfNotExist infer key v)"

definition trans_Upsert :: "'t transaction_methods \<Rightarrow> ('k, 'v) infer \<Rightarrow> 'k \<Rightarrow> 'v \<Rightarrow> ('k, 'v, 't, bool) wm" where
  "trans_Upsert I infer key v = writeOp I ''update'' ''upsert'' (Upsert infer key v)"

definition trans_Update :: "'t transaction_methods \<Rightarrow> 'k \<Rightarrow> 'v \<Rightarrow> ('k, 'v, 't, bool) wm" where
  "trans_Update I key v = writeOp I ''update'' ''update'' (Update key v)"

definition trans_UpdateKey :: "'t transaction_methods \<Rightarrow> 'k \<Rightarrow> ('k, 'v, 't, bool) wm" where
  "trans_UpdateKey I key = writeOp I ''update'' ''update key'' (UpdateKey key)"

definition trans_UpdateCurrentValue :: "'t transaction_methods \<Rightarrow> 'v \<Rightarrow> ('k, 'v, 't, bool) wm" where
  "trans_UpdateCurrentValue I v = writeOp I ''update'' ''update current value'' (UpdateCurrentValue v)"

definition trans_UpdateCurrentItem :: "'t transaction_methods \<Rightarrow> 'k \<Rightarrow> 'v \<Rightarrow> ('k, 'v, 't, bool) wm" where
  "trans_UpdateCurrentItem I key v = writeOp I ''update'' ''update current item'' (UpdateCurrentItem key v)"

definition trans_UpdateCurrentKey :: "'t transaction_methods \<Rightarrow> 'k \<Rightarrow> ('k, 'v, 't, bool) wm" where
  "trans_UpdateCurrentKey I key = writeOp I ''update'' ''update current key'' (UpdateCurrentKey key)"

definition trans_Remove :: "'t transaction_methods \<Rightarrow> 'k \<Rightarrow> ('k, 'v, 't, bool) wm" where
  "trans_Remove I key = writeOp I ''update'' ''remove'' (Remove key)"

definition trans_RemoveCurrentItem :: "'t transaction_methods \<Rightarrow> ('k, 'v, 't, bool) wm" where
  "trans_RemoveCurrentItem I = writeOp I ''remove'' ''remove current item'' RemoveCurrentItem"

definition trans_Find :: "'t transaction_methods \<Rightarrow> 'k \<Rightarrow> bool \<Rightarrow> ('k, 'v, 't, bool) wm" where
  "trans_Find I key firstItemWithKey = readOp I ''find'' (Find key firstItemWithKey)"

definition trans_FindWithID :: "'t transaction_methods \<Rightarrow> 'k \<Rightarrow> uuid \<Rightarrow> ('k, 'v, 't, bool) wm" where
  "trans_FindWithID I key i = readOp I ''find with id'' (FindWithID key i)"

definition trans_GetCurrentKey :: "'t transaction_methods \<Rightarrow> ('k, 'v, 't, ('k, 'v) item) wm" where
  "trans_GetCurrentKey I = gbind (reads id) (\<lambda>s.
     if \<not> m_HasBegun I (trans s) then ret (zeroItem (zeroKey (wrapped s))) else onTree GetCurrentKey)"

definition trans_GetCurrentValue :: "'t transaction_methods \<Rightarrow> ('k, 'v, 't, 'v) wm" where
  "trans_GetCurrentValue I = readOp I ''get current value'' GetCurrentValue"

definition trans_GetCurrentValueNoLock :: "'t transaction_methods \<Rightarrow> ('k, 'v, 't, 'v) wm" where
  "trans_GetCurrentValueNoLock I = readOp I ''get current value nolock'' GetCurrentValueNoLock"

definition trans_RLockCurrentItem :: "'t transaction_methods \<Rightarrow> ('k, 'v, 't, unit) wm" where
  "trans_RLockCurrentItem I = readOp I ''rlock current item'' RLockCurrentItem"

definition trans_GetCurrentItem :: "'t transaction_methods \<Rightarrow> ('k, 'v, 't, ('k, 'v) item) wm" where
  "trans_GetCurrentItem I = readOp I ''get current item'' GetCurrentItem"

definition trans_GetCurrentItemNoLock :: "'t transaction_methods \<Rightarrow> ('k, 'v, 't, ('k, 'v) item) wm" where
  "trans_GetCurrentItemNoLock I = readOp I ''get current item nolock'' GetCurrentItemNoLock"

definition trans_First :: "'t transaction_methods \<Rightarrow> ('k, 'v, 't, bool) wm" where
  "trans_First I = readOp I ''first'' First"

definition trans_Last :: "'t transaction_methods \<Rightarrow> ('k, 'v, 't, bool) wm" where
  "trans_Last I = readOp I ''last'' Last"

definition trans_Next :: "'t transaction_methods \<Rightarrow> ('k, 'v, 't, bool) wm" where
  "trans_Next I = readOp I ''next'' Next"

definition trans_Previous :: "'t transaction_methods \<Rightarrow> ('k, 'v, 't, bool) wm" where
  "trans_Previous I = readOp I ''previous'' Previous"

text \<open>
  \<open>FindInDescendingOrder\<close> is not overridden: the wrapper promotes the method of the embedded
  \<open>BtreeInterface\<close>.
\<close>

definition trans_FindInDescendingOrder :: "'t transaction_methods \<Rightarrow> 'k \<Rightarrow> ('k, 'v, 't, bool) wm" where
  "trans_FindInDescendingOrder I key = onTree (FindInDescendingOrder key)"

section \<open>All operations\<close>

definition writeOps :: "'t transaction_methods \<Rightarrow> ('k, 'v) infer \<Rightarrow> 'k \<Rightarrow> 'v \<Rightarrow> ('k, 'v, 't, bool) wm list" where
  "writeOps I infer k v = [trans_Add I infer k v, trans_AddIfNotExist I infer k v, trans_Upsert I infer k v,
     trans_Update I k v, trans_UpdateKey I k, trans_UpdateCurrentValue I v, trans_UpdateCurrentItem I k v,
     trans_UpdateCurrentKey I k, trans_Remove I k, trans_RemoveCurrentItem I]"

definition moveOps :: "'t transaction_methods \<Rightarrow> 'k \<Rightarrow> bool \<Rightarrow> uuid \<Rightarrow> ('k, 'v, 't, bool) wm list" where
  "moveOps I k f i = [trans_Find I k f, trans_FindWithID I k i, trans_First I, trans_Last I, trans_Next I, trans_Previous I]"

lemma writeOps_cases:
  assumes "op \<in> set (writeOps I infer k v)"
  obtains verb what m where "op = writeOp I verb what m"
  using assms unfolding writeOps_def trans_Add_def trans_AddIfNotExist_def trans_Upsert_def trans_Update_def
    trans_UpdateKey_def trans_UpdateCurrentValue_def trans_UpdateCurrentItem_def trans_UpdateCurrentKey_def
    trans_Remove_def trans_RemoveCurrentItem_def
  by (auto intro: that)

lemma moveOps_cases:
  assumes "op \<in> set (moveOps I k f i)"
  obtains what m where "op = readOp I what m"
  using assms unfolding moveOps_def trans_Find_def trans_FindWithID_def trans_First_def trans_Last_def
    trans_Next_def trans_Previous_def
  by (auto intro: that)

text \<open>An open transaction in the right mode is transparent: the delegate's result is returned.\<close>

lemma delegate_ok:
  "m (wrapped s) = (Inr x, b) \<Longrightarrow> delegate I what m s = (Inr x, s\<lparr>wrapped := b\<rparr>)"
  by (simp add: delegate_def exec_simps)

lemma writeOp_ok:
  "m_HasBegun I (trans s) \<Longrightarrow> m_GetMode I (trans s) = ForWriting \<Longrightarrow> m (wrapped s) = (Inr x, b) \<Longrightarrow>
   writeOp I verb what m s = (Inr x, s\<lparr>wrapped := b\<rparr>)"
  by (simp add: writeOp_def exec_simps delegate_ok)

lemma readOp_ok:
  "m_HasBegun I (trans s) \<Longrightarrow> m (wrapped s) = (Inr x, b) \<Longrightarrow> readOp I what m s = (Inr x, s\<lparr>wrapped := b\<rparr>)"
  by (simp add: readOp_def exec_simps delegate_ok)

section \<open>What the interface's laws give\<close>

context two_phase
begin

definition methods :: "'t transaction_methods" where
  "methods = \<lparr>m_HasBegun = hasBegun, m_GetMode = getMode, m_Rollback = rollback\<rparr>"

lemma methods_simps [simp]:
  "m_HasBegun methods = hasBegun" "m_GetMode methods = getMode" "m_Rollback methods = rollback"
  by (simp_all add: methods_def)

lemma rollback_then:
  "\<not> hasBegun (trans (snd (rollbackThen methods e f g s))) \<and>
   wrapped (snd (rollbackThen methods e f g s)) = wrapped s \<and> fst (rollbackThen methods e f g s) \<noteq> Inr x"
proof -
  obtain q t where q: "rollback e (trans s) = (q, t)" by (cases "rollback e (trans s)")
  have "\<not> hasBegun t" using rollback_ends [of e "trans s"] q by simp
  then show ?thesis using q
    by (cases q) (auto simp: rollbackThen_def exec_simps split: go_error.splits)
qed

lemma delegate_error:
  assumes "delegate methods what m s = (Inl (Err e), s')"
  shows "\<not> hasBegun (trans s')"
proof -
  obtain r b where r: "m (wrapped s) = (r, b)" by (cases "m (wrapped s)")
  show ?thesis
  proof (cases "\<exists>err. r = Inl (Err err)")
    case True
    then obtain err where "r = Inl (Err err)" by blast
    then have "delegate methods what m s = rollbackThen methods (Some err)
        (\<lambda>rbErr. (''btree '' @ what @ '' failed: '' @ err) @ '', rollback failed: '' @ rbErr)
        (''btree '' @ what @ '' failed: '' @ err) (s\<lparr>wrapped := b\<rparr>)"
      using r by (simp add: delegate_def gbind_apply zoom_apply attempt_apply Let_def)
    then show ?thesis using assms rollback_then by (metis snd_conv)
  next
    case False
    then show ?thesis using assms r
      by (cases r) (auto simp: delegate_def exec_simps split: go_error.splits)
  qed
qed

lemma writeOp_refused:
  assumes "\<not> (hasBegun (trans s) \<and> getMode (trans s) = ForWriting)"
  shows "wrapped (snd (writeOp methods verb what m s)) = wrapped s \<and>
    \<not> hasBegun (trans (snd (writeOp methods verb what m s))) \<and> fst (writeOp methods verb what m s) \<noteq> Inr x"
proof (cases "hasBegun (trans s)")
  case False
  then show ?thesis by (simp add: writeOp_def gbind_reads fail_apply)
next
  case True
  with assms have "\<exists>f g. writeOp methods verb what m s = rollbackThen methods None f g s"
    unfolding writeOp_def gbind_reads Let_def methods_simps by (simp only: if_True if_False simp_thms) blast
  then show ?thesis using rollback_then by metis
qed

lemma writeOp_error:
  assumes "writeOp methods verb what m s = (Inl (Err e), s')"
  shows "\<not> hasBegun (trans s')"
proof (cases "hasBegun (trans s) \<and> getMode (trans s) = ForWriting")
  case True
  then show ?thesis using assms delegate_error by (simp add: writeOp_def gbind_reads)
next
  case False
  from writeOp_refused [OF this, of verb what m] show ?thesis using assms by simp
qed

lemma readOp_error:
  assumes "readOp methods what m s = (Inl (Err e), s')"
  shows "\<not> hasBegun (trans s')"
proof (cases "hasBegun (trans s)")
  case True
  then show ?thesis using assms delegate_error by (simp add: readOp_def gbind_reads)
next
  case False
  then have "readOp methods what m s = rollbackThen methods None
      (\<lambda>err. errTransHasNotBegunMsg @ '', rollback failed: '' @ err) errTransHasNotBegunMsg s"
    by (simp add: readOp_def gbind_reads)
  then show ?thesis using assms rollback_then by (metis snd_conv)
qed

end

section \<open>The wrapper over \<open>common.Transaction\<close>\<close>

definition tx_methods :: "'w tx_bodies \<Rightarrow> 'w tx transaction_methods" where
  "tx_methods B = \<lparr>m_HasBegun = HasBegun, m_GetMode = GetMode, m_Rollback = Rollback B\<rparr>"

lemma tx_methods_ctx: "tx_methods B = two_phase.methods HasBegun GetMode (Rollback B)"
  by (simp add: tx_methods_def ctx.methods_def)

text \<open>
  C32. Fail-stop: whenever a write or a cursor movement through the wrapper returns an error, the
  transaction is over, so that no later call can work on a state that an error left behind.
\<close>

theorem wrapper_fail_stop:
  assumes "op \<in> set (writeOps (tx_methods B) infer k v) \<union> set (moveOps (tx_methods B) k first i)"
    and "op s = (Inl (Err e), s')"
  shows "\<not> HasBegun (trans s')"
  using assms ctx.writeOp_error ctx.readOp_error unfolding tx_methods_ctx
  by (metis Un_iff writeOps_cases moveOps_cases)

text \<open>
  C23. A write through the wrapper cannot touch the B-tree unless a transaction for writing is open: it
  fails, leaves the tree alone, and ends the transaction.
\<close>

theorem wrapper_write_guard:
  assumes "op \<in> set (writeOps (tx_methods B) infer k v)"
    and "\<not> (HasBegun (trans s) \<and> GetMode (trans s) = ForWriting)" and "op s = (r, s')"
  shows "wrapped s' = wrapped s \<and> \<not> HasBegun (trans s') \<and> r \<noteq> Inr x"
  using assms ctx.writeOp_refused unfolding tx_methods_ctx by (metis writeOps_cases fst_conv snd_conv)

end
