(* ===== verification/Btree_Rep.thy ===== *)
theory Btree_Rep
  imports Btree_Api
begin

text \<open>
  What the node repository represents: an abstract tree (\<open>tree\<close>), its in-order item
  sequence, tree contexts (the path from the root to a node, as a list of \<open>frame\<close>s, innermost
  first), and the relation \<open>rep\<close> between the nodes of a heap and a tree. The specification of
  the B-tree is the in-order sequence.
\<close>

section \<open>Interleaving children and items\<close>

fun weave :: "'a list list \<Rightarrow> 'a list \<Rightarrow> 'a list" where
  "weave [] ys = ys"
| "weave (x # xs) [] = x @ concat xs"
| "weave (x # xs) (y # ys) = x @ y # weave xs ys"

lemma weave_Nil2 [simp]: "weave xs [] = concat xs"
  by (cases xs) simp_all

lemma weave_single [simp]: "weave [x] ys = x @ ys"
  by (cases ys) simp_all

lemma weave_append:
  "length xs = length ys \<Longrightarrow> weave (xs @ z # zs) (ys @ ws) = weave (xs @ [z]) ys @ weave ([] # zs) ws"
  by (induction xs ys rule: list_induct2) (cases ws, auto)

lemma weave_last: "length xs = length ys \<Longrightarrow> weave (xs @ [z]) ys = weave (xs @ [[]]) ys @ z"
  by (induction xs ys rule: list_induct2) auto

lemma weave_split_item:
  "length xs = length ys \<Longrightarrow>
   weave (xs @ x # zs) (ys @ y # ws) = weave (xs @ [x]) ys @ y # weave zs ws"
  by (induction xs ys rule: list_induct2) auto

lemma weave_mid:
  "length xs = length ys \<Longrightarrow> length zs = length ws \<Longrightarrow>
   weave (xs @ z # zs) (ys @ ws) = weave (xs @ [[]]) ys @ z @ weave ([] # zs) ws"
  using weave_append [of xs ys z zs ws] weave_last [of xs ys z] by simp

lemma set_weave: "length ys \<le> length xs \<Longrightarrow> set (weave xs ys) = \<Union> (set (map set xs)) \<union> set ys"
  by (induction xs ys rule: weave.induct) auto

lemma length_weave:
  "length (weave xs ys) = sum_list (map length xs) + length ys"
  by (induction xs ys rule: weave.induct) (auto simp: length_concat)

section \<open>Trees\<close>

text \<open>
  A tree node has an ID, its items and its children: none for a leaf, otherwise one more than
  the items, where a missing child (a nil ID) is \<open>None\<close>.
\<close>

datatype ('k, 'v) tree = T (tid: uuid) (items: "('k, 'v) item list") (kids: "('k, 'v) tree option list")

fun inorder :: "('k, 'v) tree \<Rightarrow> ('k, 'v) item list" where
  "inorder (T i its ks) =
     weave (map (\<lambda>k. case k of None \<Rightarrow> [] | Some t \<Rightarrow> inorder t) ks) its"

abbreviation io :: "('k, 'v) tree option \<Rightarrow> ('k, 'v) item list" where
  "io k \<equiv> (case k of None \<Rightarrow> [] | Some t \<Rightarrow> inorder t)"

fun ids :: "('k, 'v) tree \<Rightarrow> uuid list" where
  "ids (T i its ks) = i # concat (map (\<lambda>k. case k of None \<Rightarrow> [] | Some t \<Rightarrow> ids t) ks)"

abbreviation ids_opt :: "('k, 'v) tree option \<Rightarrow> uuid list" where
  "ids_opt k \<equiv> (case k of None \<Rightarrow> [] | Some t \<Rightarrow> ids t)"

fun height :: "('k, 'v) tree \<Rightarrow> nat" where
  "height (T i its ks) =
     Suc (Max (insert 0 (set (map (\<lambda>k. case k of None \<Rightarrow> 0 | Some t \<Rightarrow> height t) ks))))"

definition kid_id :: "('k, 'v) tree option \<Rightarrow> uuid" where
  "kid_id k = (case k of None \<Rightarrow> NilUUID | Some t \<Rightarrow> tid t)"

lemma kid_id_simps [simp]: "kid_id None = NilUUID" "kid_id (Some t) = tid t"
  by (simp_all add: kid_id_def)

text \<open>
  The shape of the nodes: a node with children has one child position more than items (a
  position may be empty), and every node but the root has items.
\<close>

fun wfn :: "('k, 'v) tree \<Rightarrow> bool" where
  "wfn (T i its ks) \<longleftrightarrow> its \<noteq> [] \<and> (ks \<noteq> [] \<longrightarrow> length ks = Suc (length its)) \<and>
     (\<forall>k\<in>set ks. case k of None \<Rightarrow> True | Some t \<Rightarrow> wfn t)"

definition wf_tree :: "('k, 'v) tree \<Rightarrow> bool" where
  "wf_tree t \<longleftrightarrow> (kids t \<noteq> [] \<longrightarrow> length (kids t) = Suc (length (items t))) \<and>
     (\<forall>k\<in>set (kids t). case k of None \<Rightarrow> True | Some t \<Rightarrow> wfn t)"

lemma wfn_wf_tree: "wfn t \<longleftrightarrow> items t \<noteq> [] \<and> wf_tree t"
  by (cases t) (auto simp: wf_tree_def)

lemma tid_in_ids [simp]: "tid t \<in> set (ids t)"
  by (cases t) simp

lemma nil_tid: "NilUUID \<notin> set (ids t) \<Longrightarrow> tid t \<noteq> NilUUID"
  by (metis tid_in_ids)

lemma height_pos [simp]: "0 < height t"
  by (cases t) simp

lemma height_kid: "Some t \<in> set ks \<Longrightarrow> height t < height (T i its ks)"
proof -
  assume "Some t \<in> set ks"
  then have "height t \<in> insert 0 (set (map (\<lambda>k. case k of None \<Rightarrow> 0 | Some t \<Rightarrow> height t) ks))"
    by (force simp: image_iff)
  then have "height t \<le> Max (insert 0 (set (map (\<lambda>k. case k of None \<Rightarrow> 0 | Some t \<Rightarrow> height t) ks)))"
    by (intro Max_ge) auto
  then show ?thesis by simp
qed

lemma ids_kid: "Some t \<in> set ks \<Longrightarrow> set (ids t) \<subseteq> set (ids (T i its ks))"
  by force

text \<open>The in-order sequence of a node, seen from its slot \<open>j\<close> and from its child \<open>j\<close>.\<close>

lemma inorder_at_item:
  assumes "j < length its" and "ks \<noteq> [] \<longrightarrow> length ks = Suc (length its)"
  shows "inorder (T i its ks) =
    weave (map io (take (Suc j) ks)) (take j its) @ its ! j # weave (map io (drop (Suc j) ks)) (drop (Suc j) its)"
proof (cases "ks = []")
  case True
  then show ?thesis using id_take_nth_drop [OF assms(1)] by simp
next
  case False
  with assms have len: "length ks = Suc (length its)" by simp
  then have ks: "ks = take j ks @ ks ! j # drop (Suc j) ks"
    using assms(1) by (intro id_take_nth_drop) simp
  have its: "its = take j its @ its ! j # drop (Suc j) its"
    using assms(1) by (rule id_take_nth_drop)
  have "take (Suc j) ks = take j ks @ [ks ! j]"
    using assms(1) len by (simp add: take_Suc_conv_app_nth)
  moreover have "length (map io (take j ks)) = length (take j its)"
    using assms(1) len by simp
  from weave_split_item [OF this, of "io (ks ! j)" "map io (drop (Suc j) ks)" "its ! j" "drop (Suc j) its"]
  have "weave (map io (take j ks @ ks ! j # drop (Suc j) ks)) (take j its @ its ! j # drop (Suc j) its) =
      weave (map io (take j ks) @ [io (ks ! j)]) (take j its) @ its ! j #
      weave (map io (drop (Suc j) ks)) (drop (Suc j) its)"
    by simp
  ultimately show ?thesis using ks its by simp
qed

lemma inorder_at_kid:
  assumes "length kl + length kr = length its"
  shows "inorder (T i its (kl @ k # kr)) =
    weave (map io kl @ [[]]) (take (length kl) its) @ io k @
    weave ([] # map io kr) (drop (length kl) its)"
  using assms weave_mid [of "map io kl" "take (length kl) its" "map io kr" "drop (length kl) its" "io k"]
  by simp

section \<open>Contexts\<close>

text \<open>\<open>F i its kl kr\<close>: a node with items \<open>its\<close>, the children left and right of a hole.\<close>

datatype ('k, 'v) frame =
  F (fid: uuid) (fitems: "('k, 'v) item list") (fleft: "('k, 'v) tree option list") (fright: "('k, 'v) tree option list")

fun plug :: "('k, 'v) frame \<Rightarrow> ('k, 'v) tree \<Rightarrow> ('k, 'v) tree" where
  "plug (F i its kl kr) t = T i its (kl @ Some t # kr)"

fun plugs :: "('k, 'v) frame list \<Rightarrow> ('k, 'v) tree \<Rightarrow> ('k, 'v) tree" where
  "plugs [] t = t"
| "plugs (f # fs) t = plugs fs (plug f t)"

definition parent_of :: "('k, 'v) frame list \<Rightarrow> uuid" where
  "parent_of fs = (case fs of [] \<Rightarrow> NilUUID | f # _ \<Rightarrow> fid f)"

lemma parent_of_simps [simp]: "parent_of [] = NilUUID" "parent_of (f # fs) = fid f"
  by (simp_all add: parent_of_def)

fun wff :: "('k, 'v) frame \<Rightarrow> bool" where
  "wff (F i its kl kr) \<longleftrightarrow> length kl + length kr = length its \<and>
     (\<forall>k\<in>set kl \<union> set kr. case k of None \<Rightarrow> True | Some t \<Rightarrow> wfn t)"

fun fids :: "('k, 'v) frame \<Rightarrow> uuid list" where
  "fids (F i its kl kr) = i # concat (map ids_opt kl) @ concat (map ids_opt kr)"

definition cids :: "('k, 'v) frame list \<Rightarrow> uuid list" where
  "cids fs = concat (map fids fs)"

lemma cids_simps [simp]: "cids [] = []" "cids (f # fs) = fids f @ cids fs"
  by (simp_all add: cids_def)

fun lpart :: "('k, 'v) frame \<Rightarrow> ('k, 'v) item list" where
  "lpart (F i its kl kr) = weave (map io kl @ [[]]) (take (length kl) its)"

fun rpart :: "('k, 'v) frame \<Rightarrow> ('k, 'v) item list" where
  "rpart (F i its kl kr) = weave ([] # map io kr) (drop (length kl) its)"

fun lctx :: "('k, 'v) frame list \<Rightarrow> ('k, 'v) item list" where
  "lctx [] = []"
| "lctx (f # fs) = lctx fs @ lpart f"

fun rctx :: "('k, 'v) frame list \<Rightarrow> ('k, 'v) item list" where
  "rctx [] = []"
| "rctx (f # fs) = rpart f @ rctx fs"

lemma tid_plug [simp]: "tid (plug f t) = fid f"
  by (cases f) simp

lemma tid_plugs: "tid (plugs fs t) = (if fs = [] then tid t else fid (last fs))"
  by (induction fs arbitrary: t) simp_all

lemma inorder_plug: "wff f \<Longrightarrow> inorder (plug f t) = lpart f @ inorder t @ rpart f"
  by (cases f) (simp only: plug.simps lpart.simps rpart.simps wff.simps inorder_at_kid option.case)

lemma inorder_plugs:
  "\<forall>f\<in>set fs. wff f \<Longrightarrow> inorder (plugs fs t) = lctx fs @ inorder t @ rctx fs"
  by (induction fs arbitrary: t) (simp_all add: inorder_plug)

text \<open>A context: every frame has the right shape, and all but the outermost have items.\<close>

definition wf_ctx :: "('k, 'v) frame list \<Rightarrow> bool" where
  "wf_ctx fs \<longleftrightarrow> (\<forall>f\<in>set fs. wff f) \<and> (\<forall>f\<in>set (butlast fs). fitems f \<noteq> [])"

lemma wf_tree_plug: "wf_tree (plug f t) \<longleftrightarrow> wff f \<and> wfn t"
  by (cases f) (auto simp: wf_tree_def)

lemma wfn_plug: "wfn (plug f t) \<longleftrightarrow> wff f \<and> fitems f \<noteq> [] \<and> wfn t"
  by (cases f) auto

lemma wf_tree_plugs: "wf_tree (plugs fs t) \<longleftrightarrow> wf_ctx fs \<and> (if fs = [] then wf_tree t else wfn t)"
  by (induction fs arbitrary: t) (auto simp: wf_ctx_def wf_tree_plug wfn_plug)

lemma set_ids_plug: "set (ids (plug f t)) = set (fids f) \<union> set (ids t)"
  by (cases f) auto

lemma set_ids_plugs: "set (ids (plugs fs t)) = set (cids fs) \<union> set (ids t)"
  by (induction fs arbitrary: t) (auto simp: set_ids_plug)

lemma distinct_ids_plug:
  "distinct (ids (plug f t)) \<longleftrightarrow>
   distinct (fids f) \<and> distinct (ids t) \<and> set (fids f) \<inter> set (ids t) = {}"
proof (cases f)
  case (F i its kl kr)
  define A B where "A = concat (map ids_opt kl)" and "B = concat (map ids_opt kr)"
  have "ids (plug f t) = i # A @ ids t @ B" and "fids f = i # A @ B"
    by (simp_all add: F A_def B_def)
  then show ?thesis by auto
qed

lemma distinct_ids_plugs:
  "distinct (ids (plugs fs t)) \<longleftrightarrow>
   distinct (cids fs) \<and> distinct (ids t) \<and> set (cids fs) \<inter> set (ids t) = {}"
  by (induction fs arbitrary: t) (auto simp: distinct_ids_plug set_ids_plug)

lemma height_plug: "height t < height (plug f t)"
  by (cases f) (simp add: less_Suc_eq_le del: height.simps, rule height_kid, simp)

lemma height_plugs: "height t + length fs \<le> height (plugs fs t)"
proof (induction fs arbitrary: t)
  case (Cons f fs)
  from Cons.IH [of "plug f t"] height_plug [of t f] show ?case by simp
qed simp

section \<open>The representation of a tree in the heap\<close>

text \<open>
  \<open>node_repr L n p i its cs\<close>: the node object \<open>n\<close> has ID \<open>i\<close>, parent \<open>p\<close>, the items \<open>its\<close> in its
  first slots, and the child IDs \<open>cs\<close> (none: a leaf) followed by nil IDs. Its cached position
  in the parent is unknown or an index of a child slice.
\<close>

definition node_repr :: "nat \<Rightarrow> ('k, 'v) node \<Rightarrow> uuid \<Rightarrow> uuid \<Rightarrow> ('k, 'v) item list \<Rightarrow> uuid list \<Rightarrow> bool" where
  "node_repr L n p i its cs \<longleftrightarrow>
     nodeID n = i \<and> ParentID n = p \<and> length (Slots n) = L \<and> Count n = length its \<and>
     length its \<le> L \<and> take (length its) (Slots n) = its \<and>
     (-1 \<le> indexOfNode n \<and> indexOfNode n \<le> int L) \<and>
     (if cs = [] then ChildrenIDs n = None
      else length cs = Suc (length its) \<and>
           ChildrenIDs n = Some (cs @ replicate (L - length its) NilUUID))"

fun rep :: "nat \<Rightarrow> (uuid \<rightharpoonup> ('k, 'v) node) \<Rightarrow> uuid \<Rightarrow> ('k, 'v) tree \<Rightarrow> bool" where
  "rep L h p (T i its ks) \<longleftrightarrow>
     (\<exists>n. h i = Some n \<and> node_repr L n p i its (map kid_id ks)) \<and>
     (\<forall>k\<in>set ks. case k of None \<Rightarrow> True | Some t \<Rightarrow> rep L h i t)"

abbreviation rep_opt :: "nat \<Rightarrow> (uuid \<rightharpoonup> ('k, 'v) node) \<Rightarrow> uuid \<Rightarrow> ('k, 'v) tree option \<Rightarrow> bool" where
  "rep_opt L h i k \<equiv> (case k of None \<Rightarrow> True | Some t \<Rightarrow> rep L h i t)"

lemma rep_T: "rep L h p (T i its ks) \<longleftrightarrow>
    (\<exists>n. h i = Some n \<and> node_repr L n p i its (map kid_id ks)) \<and>
    (\<forall>t. Some t \<in> set ks \<longrightarrow> rep L h i t)"
  by (auto split: option.splits)

text \<open>The frames of a context, with the ID that stands in the hole of the innermost.\<close>

fun repf :: "nat \<Rightarrow> (uuid \<rightharpoonup> ('k, 'v) node) \<Rightarrow> uuid \<Rightarrow> ('k, 'v) frame list \<Rightarrow> bool" where
  "repf L h c [] \<longleftrightarrow> True"
| "repf L h c (F i its kl kr # fs) \<longleftrightarrow>
     (\<exists>n. h i = Some n \<and>
        node_repr L n (parent_of fs) i its (map kid_id kl @ c # map kid_id kr)) \<and>
     (\<forall>k\<in>set kl \<union> set kr. rep_opt L h i k) \<and> repf L h i fs"

lemma rep_plugs: "rep L h NilUUID (plugs fs t) \<longleftrightarrow> repf L h (tid t) fs \<and> rep L h (parent_of fs) t"
proof (induction fs arbitrary: t)
  case Nil
  then show ?case by simp
next
  case (Cons f fs)
  obtain i its kl kr where f: "f = F i its kl kr" by (cases f)
  show ?case unfolding plugs.simps Cons.IH by (auto simp: f)
qed

text \<open>Changes elsewhere in the heap do not affect a tree or a context.\<close>

lemma rep_frame: "(\<And>j. j \<in> set (ids t) \<Longrightarrow> h' j = h j) \<Longrightarrow> rep L h' p t = rep L h p t"
proof (induction t arbitrary: p)
  case (T i its ks)
  have "rep L h' i t = rep L h i t" if "Some t \<in> set ks" for t
    using that T.prems by (intro T.IH [of "Some t" t]) force+
  then have "(\<forall>k\<in>set ks. rep_opt L h' i k) \<longleftrightarrow> (\<forall>k\<in>set ks. rep_opt L h i k)"
    by (auto split: option.splits)
  moreover have "h' i = h i" using T.prems by simp
  ultimately show ?case by simp
qed

lemma rep_opt_frame: "(\<And>j. j \<in> set (ids_opt k) \<Longrightarrow> h' j = h j) \<Longrightarrow> rep_opt L h' p k = rep_opt L h p k"
  using rep_frame [of _ h' h L p] by (cases k) simp_all

lemma repf_frame: "(\<And>j. j \<in> set (cids fs) \<Longrightarrow> h' j = h j) \<Longrightarrow> repf L h' c fs = repf L h c fs"
proof (induction fs arbitrary: c)
  case Nil
  then show ?case by simp
next
  case (Cons f fs)
  obtain i its kl kr where f: "f = F i its kl kr" by (cases f)
  have "rep_opt L h' i k = rep_opt L h i k" if "k \<in> set kl \<union> set kr" for k
    using that Cons.prems by (intro rep_opt_frame) (auto simp: f)
  then have "(\<forall>k\<in>set kl \<union> set kr. rep_opt L h' i k) \<longleftrightarrow> (\<forall>k\<in>set kl \<union> set kr. rep_opt L h i k)"
    by blast
  moreover have "h' i = h i" using Cons.prems by (simp add: f)
  moreover have "repf L h' i fs = repf L h i fs" using Cons.prems by (intro Cons.IH) simp
  ultimately show ?case by (simp add: f)
qed

lemma rep_upd [simp]: "i \<notin> set (ids t) \<Longrightarrow> rep L (h(i := x)) p t = rep L h p t"
  by (rule rep_frame) auto

lemma repf_upd [simp]: "i \<notin> set (cids fs) \<Longrightarrow> repf L (h(i := x)) c fs = repf L h c fs"
  by (rule repf_frame) auto

lemma rep_dom: "rep L h p t \<Longrightarrow> set (ids t) \<subseteq> dom h"
proof (induction t arbitrary: p)
  case (T i its ks)
  have "set (ids t) \<subseteq> dom h" if "Some t \<in> set ks" for t
    using that T.prems by (intro T.IH [of "Some t" t i]) force+
  with T.prems show ?case by (auto split: option.splits)
qed

lemma repf_dom: "repf L h c fs \<Longrightarrow> set (cids fs) \<subseteq> dom h"
proof (induction fs arbitrary: c)
  case (Cons f fs)
  obtain i its kl kr where f: "f = F i its kl kr" by (cases f)
  have "set (ids t) \<subseteq> dom h" if "Some t \<in> set kl \<union> set kr" for t
    using that Cons.prems rep_dom [of L h i t] unfolding f by force
  moreover have "i \<in> dom h" "set (cids fs) \<subseteq> dom h" using Cons by (auto simp: f)
  ultimately show ?case by (auto simp: f split: option.splits)
qed simp

lemma rep_root: "rep L h p t \<Longrightarrow> \<exists>n. h (tid t) = Some n \<and>
    node_repr L n p (tid t) (items t) (map kid_id (kids t))"
  by (cases t) simp

text \<open>Re-parenting the root of a subtree.\<close>

lemma rep_reparent:
  assumes "rep L h p t" and "h (tid t) = Some n" and "distinct (ids t)"
  shows "rep L (h(tid t \<mapsto> n\<lparr>ParentID := q\<rparr>)) q t"
proof (cases t)
  case (T i its ks)
  have "rep_opt L (h(i \<mapsto> n\<lparr>ParentID := q\<rparr>)) i k" if "k \<in> set ks" for k
  proof (cases k)
    case (Some u)
    then have "i \<notin> set (ids u)" using that assms(3) T by force
    moreover have "rep L h i u" using that assms(1) T Some by force
    ultimately show ?thesis using Some by simp
  qed simp
  moreover have "node_repr L (n\<lparr>ParentID := q\<rparr>) q i its (map kid_id ks)"
    using assms(1,2) T by (auto simp: node_repr_def)
  ultimately show ?thesis using T by simp
qed

end
