(* ===== verification/Btree_Exec.thy ===== *)
theory Btree_Exec
  imports Btree_Rep
begin

text \<open>
  Symbolic execution of the B-tree's primitives on a heap that represents a tree: reading and
  saving nodes, moving the cursor, the position of a child in its parent, searching a node.
\<close>

section \<open>The heap of a well-formed tree\<close>

text \<open>
  \<open>nav_ok bt rt\<close>: the repository represents the tree \<open>rt\<close> and no read fails. \<open>heap_ok bt rt\<close>: the
  store description also knows the root and the number of items, and there is fuel for a
  walk from the root to a leaf.
\<close>

definition tree_ok :: "('k, 'v) tree \<Rightarrow> bool" where
  "tree_ok t \<longleftrightarrow> wf_tree t \<and> distinct (ids t) \<and> NilUUID \<notin> set (ids t)"

definition nav_ok :: "('k, 'v) btree \<Rightarrow> ('k, 'v) tree \<Rightarrow> bool" where
  "nav_ok bt rt \<longleftrightarrow> tree_ok rt \<and> rep (getSlotLength bt) (repo bt) NilUUID rt \<and>
     repoFail bt = (\<lambda>_. None) \<and> \<not> dropsValues (StoreInfo bt)"

definition heap_ok :: "('k, 'v) btree \<Rightarrow> ('k, 'v) tree \<Rightarrow> bool" where
  "heap_ok bt rt \<longleftrightarrow> nav_ok bt rt \<and> RootNodeID (StoreInfo bt) = tid rt \<and>
     si_Count (StoreInfo bt) = int (length (inorder rt)) \<and> height rt < fuel bt"

lemma nav_ok_simps:
  assumes "nav_ok bt rt"
  shows "tree_ok rt" "rep (getSlotLength bt) (repo bt) NilUUID rt" "repoFail bt = (\<lambda>_. None)"
    "\<not> dropsValues (StoreInfo bt)"
  using assms by (simp_all add: nav_ok_def)

lemma heap_ok_nav: "heap_ok bt rt \<Longrightarrow> nav_ok bt rt"
  by (simp add: heap_ok_def)

lemma tree_ok_ctx:
  assumes "tree_ok (plugs fs t)"
  shows "distinct (cids fs)" "distinct (ids t)" "set (cids fs) \<inter> set (ids t) = {}"
    "NilUUID \<notin> set (cids fs)" "NilUUID \<notin> set (ids t)" "tid t \<noteq> NilUUID" "tid t \<notin> set (cids fs)"
proof -
  show *: "distinct (cids fs)" "distinct (ids t)" "set (cids fs) \<inter> set (ids t) = {}"
    "NilUUID \<notin> set (cids fs)" "NilUUID \<notin> set (ids t)"
    using assms by (auto simp: tree_ok_def distinct_ids_plugs set_ids_plugs)
  have "tid t \<in> set (ids t)" by simp
  with * show "tid t \<noteq> NilUUID" "tid t \<notin> set (cids fs)" by (metis, blast)
qed

lemma tree_ok_wf:
  assumes "tree_ok (plugs fs t)"
  shows "\<forall>f\<in>set fs. wff f" "wf_tree t" "fs \<noteq> [] \<Longrightarrow> wfn t" "wf_ctx fs"
  using assms by (auto simp: tree_ok_def wf_tree_plugs wf_ctx_def wfn_wf_tree split: if_splits)

lemma inorder_ctx: "tree_ok (plugs fs t) \<Longrightarrow> inorder (plugs fs t) = lctx fs @ inorder t @ rctx fs"
  using tree_ok_wf(1) inorder_plugs by blast

lemma wf_tree_kids: "wf_tree t \<Longrightarrow> kids t = [] \<or> length (kids t) = Suc (length (items t))"
  by (auto simp: wf_tree_def)

section \<open>Nodes\<close>

lemma resize_same: "length xs = n \<Longrightarrow> resizeSlice z n xs = xs"
  by (simp add: resizeSlice_def)

lemma node_repr_children: "node_repr L n p i its cs \<Longrightarrow> 
    children n = (if cs = [] then [] else cs @ replicate (L - length its) NilUUID)"
  by (auto simp: node_repr_def children_def split: if_splits)

lemma node_repr_hasChildren: "node_repr L n p i its cs \<Longrightarrow> hasChildren n \<longleftrightarrow> cs \<noteq> []"
  by (simp add: hasChildren_def node_repr_children)

lemma node_repr_simps:
  assumes "node_repr L n p i its cs"
  shows "nodeID n = i" "ParentID n = p" "length (Slots n) = L" "Count n = length its"
    "length its \<le> L" "j < length its \<Longrightarrow> Slots n ! j = its ! j"
    "length (children n) = (if cs = [] then 0 else Suc L)"
    "cs \<noteq> [] \<Longrightarrow> ChildrenIDs n = Some (children n)" "cs = [] \<Longrightarrow> ChildrenIDs n = None"
    "cs \<noteq> [] \<Longrightarrow> length cs = Suc (length its)"
    "j < length cs \<Longrightarrow> children n ! j = cs ! j"
proof -
  show "nodeID n = i" "ParentID n = p" "length (Slots n) = L" "Count n = length its"
    and le: "length its \<le> L"
    and "cs = [] \<Longrightarrow> ChildrenIDs n = None"
    and len: "cs \<noteq> [] \<Longrightarrow> length cs = Suc (length its)"
    using assms by (auto simp: node_repr_def)
  show "Slots n ! j = its ! j" if "j < length its"
    using assms that by (metis node_repr_def nth_take)
  show "length (children n) = (if cs = [] then 0 else Suc L)"
    using node_repr_children [OF assms] len le by simp
  show "cs \<noteq> [] \<Longrightarrow> ChildrenIDs n = Some (children n)"
    using assms by (auto simp: node_repr_def children_def)
  show "j < length cs \<Longrightarrow> children n ! j = cs ! j"
    using node_repr_children [OF assms] by (auto simp: nth_append)
qed

lemma node_repr_isRootNode: "node_repr L n p i its cs \<Longrightarrow> isRootNode n \<longleftrightarrow> p = NilUUID"
  by (simp add: isRootNode_def node_repr_simps)

lemma repoGet_ok: "repoFail bt = (\<lambda>_. None) \<Longrightarrow> repoGet i bt = (Inr (repo bt i), bt)"
  by (simp add: repoGet_def exec_simps)

lemma getNode_rep:
  assumes "repoFail bt = (\<lambda>_. None)" and "repo bt i = Some n"
    and "node_repr (getSlotLength bt) n p i its cs"
  shows "getNode i bt = (Inr (Some n), bt)"
proof -
  have "length (Slots n) = getSlotLength bt"
    and c: "ChildrenIDs n = None \<or> ChildrenIDs n = Some (children n) \<and> length (children n) = Suc (getSlotLength bt)"
    using node_repr_simps [OF assms(3)] by (cases "cs = []", auto)
  from c have "map_option (resizeSlice NilUUID (Suc (getSlotLength bt))) (ChildrenIDs n) = ChildrenIDs n"
    by (auto simp: resize_same)
  moreover have "bt\<lparr>repo := (repo bt)(i \<mapsto> n)\<rparr> = bt"
    using assms(2) by (simp add: fun_upd_idem)
  ultimately show ?thesis
    using assms(1,2) \<open>length (Slots n) = getSlotLength bt\<close>
    by (simp add: getNode_def repoGet_ok exec_simps resize_same)
qed

lemma getNode_tree:
  assumes "repoFail bt = (\<lambda>_. None)" and "rep (getSlotLength bt) (repo bt) p t"
  obtains n where "repo bt (tid t) = Some n" "getNode (tid t) bt = (Inr (Some n), bt)"
    "node_repr (getSlotLength bt) n p (tid t) (items t) (map kid_id (kids t))"
  using rep_root [OF assms(2)] getNode_rep [OF assms(1)] by blast

lemma saveNode_ok: "nodeID n \<noteq> NilUUID \<Longrightarrow> saveNode n bt = (Inr (), bt\<lparr>repo := (repo bt)(nodeID n \<mapsto> n)\<rparr>)"
  by (simp add: saveNode_def repoUpsert_def exec_simps)

lemma putNode_ok: "putNode n bt = (Inr (), bt\<lparr>repo := (repo bt)(nodeID n \<mapsto> n)\<rparr>)"
  by (simp add: putNode_def repoUpsert_def exec_simps)

lemma removeNode_ok: "nodeID n \<noteq> NilUUID \<Longrightarrow> removeNode n bt = (Inr (), bt\<lparr>repo := (repo bt)(nodeID n := None)\<rparr>)"
  by (simp add: removeNode_def repoRemove_def exec_simps)

lemma getSlotLength_upd [simp]:
  "getSlotLength (bt\<lparr>repo := h\<rparr>) = getSlotLength bt"
  "getSlotLength (bt\<lparr>currentItem := p\<rparr>) = getSlotLength bt"
  "getSlotLength (bt\<lparr>curNodeID := i\<rparr>) = getSlotLength bt"
  "getSlotLength (bt\<lparr>curItemIndex := j\<rparr>) = getSlotLength bt"
  "getSlotLength (bt\<lparr>tempSlots := ts\<rparr>) = getSlotLength bt"
  "getSlotLength (bt\<lparr>tempChildren := tc\<rparr>) = getSlotLength bt"
  "getSlotLength (bt\<lparr>tempParent := tp\<rparr>) = getSlotLength bt"
  "getSlotLength (bt\<lparr>tempParentChildren := tpc\<rparr>) = getSlotLength bt"
  "getSlotLength (bt\<lparr>uuidNext := x\<rparr>) = getSlotLength bt"
  "getSlotLength (bt\<lparr>paTarget := pt\<rparr>) = getSlotLength bt"
  "getSlotLength (bt\<lparr>paIndex := px\<rparr>) = getSlotLength bt"
  "getSlotLength (bt\<lparr>trackerLog := tlog\<rparr>) = getSlotLength bt"
  by (simp_all add: getSlotLength_def)

section \<open>The cursor\<close>

text \<open>The state after the cursor moved.\<close>

definition setCur :: "uuid \<Rightarrow> int \<Rightarrow> ('k, 'v) btree \<Rightarrow> ('k, 'v) btree" where
  "setCur i j bt = bt\<lparr>currentItem := NilPtr, curNodeID := i, curItemIndex := j\<rparr>"

lemma setCur_simps [simp]:
  "repo (setCur i j bt) = repo bt" "StoreInfo (setCur i j bt) = StoreInfo bt"
  "repoFail (setCur i j bt) = repoFail bt" "fuel (setCur i j bt) = fuel bt"
  "curNodeID (setCur i j bt) = i" "curItemIndex (setCur i j bt) = j"
  "currentItem (setCur i j bt) = NilPtr" "getSlotLength (setCur i j bt) = getSlotLength bt"
  "comparer (setCur i j bt) = comparer bt"
  by (simp_all add: setCur_def getSlotLength_def)

lemma setCur_setCur [simp]: "setCur i j (setCur k l bt) = setCur i j bt"
  by (simp add: setCur_def)

lemma setCurrentItemID_ok:
  "\<not> dropsValues (StoreInfo bt) \<Longrightarrow> setCurrentItemID i j bt = (Inr (), setCur i j bt)"
  by (simp add: setCurrentItemID_def unfetchCurrentValue_def exec_simps setCur_def)

text \<open>
  A position in the tree: slot \<open>j\<close> of node \<open>i\<close>, with the items before it, the item, and the
  items after it in order.
\<close>

definition cursor_at :: "('k, 'v) tree \<Rightarrow> uuid \<Rightarrow> int \<Rightarrow> ('k, 'v) item list \<Rightarrow> ('k, 'v) item \<Rightarrow>
    ('k, 'v) item list \<Rightarrow> bool" where
  "cursor_at rt i j pre it post \<longleftrightarrow> (\<exists>fs t m. rt = plugs fs t \<and> tid t = i \<and> j = int m \<and>
     m < length (items t) \<and> it = items t ! m \<and>
     pre = lctx fs @ weave (map io (take (Suc m) (kids t))) (take m (items t)) \<and>
     post = weave (map io (drop (Suc m) (kids t))) (drop (Suc m) (items t)) @ rctx fs)"

lemma cursor_at_inorder:
  "tree_ok rt \<Longrightarrow> cursor_at rt i j pre it post \<Longrightarrow> inorder rt = pre @ it # post"
proof -
  assume ok: "tree_ok rt" and "cursor_at rt i j pre it post"
  then obtain fs t m where r: "rt = plugs fs t" and m: "m < length (items t)"
    and [simp]: "it = items t ! m" "pre = lctx fs @ weave (map io (take (Suc m) (kids t))) (take m (items t))"
      "post = weave (map io (drop (Suc m) (kids t))) (drop (Suc m) (items t)) @ rctx fs"
    by (auto simp: cursor_at_def)
  from ok r have "wf_tree t" by (simp add: tree_ok_wf(2))
  with m have "inorder t = weave (map io (take (Suc m) (kids t))) (take m (items t)) @ items t ! m #
      weave (map io (drop (Suc m) (kids t))) (drop (Suc m) (items t))"
    using inorder_at_item [of m "items t" "kids t" "tid t"] wf_tree_kids [of t] by auto
  with ok r show ?thesis by (simp add: inorder_ctx)
qed

section \<open>The position of a child in its parent\<close>

lemma findChildIndex_first:
  assumes "k < n" and "i + k < length cs" and "cs ! (i + k) = c" and "c \<noteq> NilUUID"
    and "\<And>l. l < k \<Longrightarrow> cs ! (i + l) \<noteq> c"
  shows "findChildIndex cs c i n = Inr (i + k)"
  using assms
proof (induction n arbitrary: i k)
  case (Suc n)
  show ?case
  proof (cases k)
    case 0
    with Suc.prems show ?thesis by simp
  next
    case (Suc k')
    then have "cs ! i \<noteq> c" using Suc.prems(5) [of 0] by simp
    moreover have "findChildIndex cs c (Suc i) n = Inr (Suc i + k')"
      using Suc.prems Suc Suc.prems(5) [of "Suc l" for l] by (intro Suc.IH) auto
    ultimately show ?thesis using Suc Suc.prems(2) by simp
  qed
qed simp

lemma getIndexOfChild_rep:
  assumes p: "node_repr L p pp ip its (cl @ c # cr)" and "length (Slots p) = L"
    and c: "nodeID child = c" "c \<noteq> NilUUID" "c \<notin> set cl" "c \<notin> set cr"
    and idx: "-1 \<le> indexOfNode child" "indexOfNode child \<le> int L"
    and h: "repo bt c = Some child"
  shows "getIndexOfChild p child bt =
    (Inr (int (length cl), child\<lparr>indexOfNode := int (length cl)\<rparr>),
     bt\<lparr>repo := (repo bt)(c \<mapsto> child\<lparr>indexOfNode := int (length cl)\<rparr>)\<rparr>)"
proof -
  define nils where "nils = replicate (L - length its) NilUUID"
  have cs: "ChildrenIDs p = Some (cl @ c # cr @ nils)"
    using p by (simp add: node_repr_def nils_def)
  have len: "length (cl @ c # cr @ nils) = Suc L"
    using p by (simp add: node_repr_def nils_def) linarith
  have uniq: "(cl @ c # cr @ nils) ! m = c \<Longrightarrow> m < Suc L \<Longrightarrow> m = length cl" for m
  proof (rule ccontr)
    assume a: "(cl @ c # cr @ nils) ! m = c" "m < Suc L" "m \<noteq> length cl"
    then consider "m < length cl" | "m > length cl" by linarith
    then have "c \<in> set cl \<or> c \<in> set (cr @ nils)"
    proof cases
      case 1
      with a show ?thesis by (auto simp: nth_append)
    next
      case 2
      with a len have "c = (cr @ nils) ! (m - Suc (length cl))" "m - Suc (length cl) < length (cr @ nils)"
        by (auto simp: nth_append nth_Cons')
      then show ?thesis using nth_mem by metis
    qed
    with c show False by (auto simp: nils_def)
  qed
  have find: "findChildIndex (cl @ c # cr @ nils) c 0 (Suc L) = Inr (length cl)"
    using len c by (subst findChildIndex_first [where k = "length cl"]) (auto simp: nth_append dest: nth_mem)
  show ?thesis
  proof (cases "indexOfNode child \<noteq> -1 \<and> (cl @ c # cr @ nils) ! nat (indexOfNode child) = c")
    case True
    then have ge: "0 \<le> indexOfNode child" and "nat (indexOfNode child) < Suc L" using idx by auto
    with True have "nat (indexOfNode child) = length cl" using uniq by blast
    with ge have i: "indexOfNode child = int (length cl)" by simp
    then have "child\<lparr>indexOfNode := int (length cl)\<rparr> = child" by simp
    moreover have "aget_int (cl @ c # cr @ nils) (int (length cl)) bt = (Inr c, bt)"
      by (simp add: exec_simps)
    ultimately show ?thesis using i h c(1)
      by (simp add: getIndexOfChild_def cs exec_simps fun_upd_idem)
  next
    case False
    have "aget_int (cl @ c # cr @ nils) (indexOfNode child) bt =
        (Inr ((cl @ c # cr @ nils) ! nat (indexOfNode child)), bt)" if "indexOfNode child \<noteq> -1"
      using that idx len by (simp add: aget_int_def sget_int_def exec_simps)
    with False show ?thesis
      using find c(1) assms(2) by (auto simp: getIndexOfChild_def cs exec_simps putNode_ok Let_def)
  qed
qed

text \<open>The cached position does not matter for what a node represents.\<close>

lemma node_repr_idx:
  "node_repr L n p i its cs \<Longrightarrow> j \<le> L \<Longrightarrow> node_repr L (n\<lparr>indexOfNode := int j\<rparr>) p i its cs"
  by (simp add: node_repr_def)

lemma rep_idx:
  assumes "rep L h p t" and "h i = Some n" and "j \<le> L"
  shows "rep L (h(i \<mapsto> n\<lparr>indexOfNode := int j\<rparr>)) p t"
  using assms(1)
proof (induction t arbitrary: p)
  case (T k its ks)
  have "rep L (h(i \<mapsto> n\<lparr>indexOfNode := int j\<rparr>)) k t" if "Some t \<in> set ks" for t
    using that T.prems by (intro T.IH [of "Some t" t]) (auto simp: rep_T simp del: rep.simps)
  moreover from T.prems obtain m where "h k = Some m" "node_repr L m p k its (map kid_id ks)" by auto
  ultimately show ?case
    using assms(2,3) unfolding rep_T by (cases "k = i") (simp_all add: node_repr_idx)
qed

section \<open>Searching a node\<close>

lemma slotSearch_rep:
  assumes n: "node_repr L n p i its cs"
    and mono: "\<And>a b. a \<le> b \<Longrightarrow> b < length its \<Longrightarrow> P (Key (its ! a)) \<Longrightarrow> P (Key (its ! b))"
  obtains r where "slotSearch n P bt = (Inr r, bt)" "r \<le> length its"
    "\<forall>j<r. \<not> P (Key (its ! j))" "r < length its \<longrightarrow> P (Key (its ! r))"
proof -
  note s = node_repr_simps [OF n]
  have "\<exists>r. sort_search (Count n) (\<lambda>i. case sget (Slots n) i of Inl e \<Rightarrow> Inl e | Inr s \<Rightarrow> Inr (P (Key s))) = Inr r \<and>
      r \<le> Count n \<and> (\<forall>h<r. \<not> P (Key (its ! h))) \<and> (r < Count n \<longrightarrow> P (Key (its ! r)))"
  proof (rule sort_search_least)
    show "(case sget (Slots n) h of Inl e \<Rightarrow> Inl e | Inr s \<Rightarrow> Inr (P (Key s))) = Inr (P (Key (its ! h)))"
      if "h < Count n" for h
      using that s by (simp add: sget_def)
  qed (use mono s in auto)
  then show ?thesis using that s by (auto simp: slotSearch_def exec_simps)
qed

end
