(* ===== verification/Btree_Search.thy ===== *)
theory Btree_Search
  imports Btree_Exec
begin

text \<open>
  Moving the cursor and finding a key: every walk visits the items in order, and a search ends
  where the in-order sequence says it should.
\<close>

section \<open>A node and its context\<close>

lemma nav_node:
  assumes "nav_ok bt (plugs fs t)" and "repo bt (tid t) = Some n"
  shows "node_repr (getSlotLength bt) n (parent_of fs) (tid t) (items t) (map kid_id (kids t))"
  using assms rep_root [of "getSlotLength bt" "repo bt" "parent_of fs" t]
  by (auto simp: nav_ok_def rep_plugs)

lemma nav_lookup:
  assumes "nav_ok bt (plugs fs t)"
  obtains n where "repo bt (tid t) = Some n" "getNode (tid t) bt = (Inr (Some n), bt)"
    "node_repr (getSlotLength bt) n (parent_of fs) (tid t) (items t) (map kid_id (kids t))"
  using assms getNode_tree [of bt "parent_of fs" t] by (auto simp: nav_ok_def rep_plugs)

lemma kid_id_notin:
  assumes "tree_ok (plugs (F i its kl kr # fs) t)"
  shows "tid t \<notin> set (map kid_id kl)" "tid t \<notin> set (map kid_id kr)" "i \<noteq> NilUUID" "i \<noteq> tid t"
proof -
  have d: "distinct (fids (F i its kl kr))" "distinct (ids t)" "set (fids (F i its kl kr)) \<inter> set (ids t) = {}"
    "NilUUID \<notin> set (fids (F i its kl kr))" "tid t \<noteq> NilUUID"
    using tree_ok_ctx [OF assms] by (auto simp del: fids.simps)
  have "tid t \<notin> set (fids (F i its kl kr))" using d tid_in_ids by blast
  moreover have "tid u \<in> set (ids_opt k)" if "k = Some u" for k u using that by simp
  ultimately show "tid t \<notin> set (map kid_id kl)" "tid t \<notin> set (map kid_id kr)"
    using d(5) by (force simp: kid_id_def split: option.splits)+
  show "i \<noteq> NilUUID" "i \<noteq> tid t" using d \<open>tid t \<notin> set (fids _)\<close> by auto
qed

text \<open>From a node to its parent: the parent object and the position found for the child.\<close>

lemma nav_idx:
  assumes "nav_ok bt rt" and "repo bt i = Some n" and "j \<le> getSlotLength bt"
  shows "nav_ok (bt\<lparr>repo := (repo bt)(i \<mapsto> n\<lparr>indexOfNode := int j\<rparr>)\<rparr>) rt"
  using assms rep_idx [of "getSlotLength bt" "repo bt" NilUUID rt i n j] by (simp add: nav_ok_def)

lemma nav_parent:
  assumes ok: "nav_ok bt (plugs (F i its kl kr # fs) t)" and n: "repo bt (tid t) = Some n"
  obtains p bt' where "getParent n bt = (Inr (Some p), bt)"
    "getIndexOfChild p n bt = (Inr (int (length kl), n\<lparr>indexOfNode := int (length kl)\<rparr>), bt')"
    "bt' = bt\<lparr>repo := (repo bt)(tid t \<mapsto> n\<lparr>indexOfNode := int (length kl)\<rparr>)\<rparr>"
    "repo bt i = Some p" "repo bt' i = Some p" "nav_ok bt' (plugs (F i its kl kr # fs) t)"
    "length kl \<le> length its" "\<not> isRootNode n"
    "node_repr (getSlotLength bt) p (parent_of fs) i its (map kid_id kl @ tid t # map kid_id kr)"
proof -
  note okn = nav_ok_simps [OF ok]
  note k = kid_id_notin [OF okn(1)]
  have ok': "nav_ok bt (plugs fs (plug (F i its kl kr) t))" using ok by simp
  from nav_lookup [OF ok'] obtain p where p: "repo bt i = Some p" "getNode i bt = (Inr (Some p), bt)"
    "node_repr (getSlotLength bt) p (parent_of fs) i its (map kid_id kl @ tid t # map kid_id kr)"
    by auto
  from nav_node [OF ok n]
  have nr: "node_repr (getSlotLength bt) n i (tid t) (items t) (map kid_id (kids t))" by simp
  have len: "length kl + length kr = length its" using node_repr_simps(10) [OF p(3)] by simp
  then have le: "length kl \<le> getSlotLength bt" using node_repr_simps(5) [OF p(3)] by simp
  have "getParent n bt = (Inr (Some p), bt)"
    using p k nr by (simp add: getParent_def node_repr_simps)
  moreover have idx: "getIndexOfChild p n bt = (Inr (int (length kl), n\<lparr>indexOfNode := int (length kl)\<rparr>),
      bt\<lparr>repo := (repo bt)(tid t \<mapsto> n\<lparr>indexOfNode := int (length kl)\<rparr>)\<rparr>)"
    using getIndexOfChild_rep [OF p(3) node_repr_simps(3) [OF p(3)] node_repr_simps(1) [OF nr]] k nr n
      tree_ok_ctx(6) [OF okn(1)] by (simp add: node_repr_def)
  moreover have "nav_ok (bt\<lparr>repo := (repo bt)(tid t \<mapsto> n\<lparr>indexOfNode := int (length kl)\<rparr>)\<rparr>)
      (plugs (F i its kl kr # fs) t)"
    using nav_idx [OF ok n le] .
  ultimately show ?thesis
    using that p k len nr by (simp add: node_repr_isRootNode)
qed

section \<open>Climbing and descending\<close>

text \<open>The items before and after the gap at child \<open>j\<close> of a node in its context.\<close>

definition before_gap :: "('k, 'v) frame list \<Rightarrow> ('k, 'v) tree \<Rightarrow> nat \<Rightarrow> ('k, 'v) item list" where
  "before_gap fs t j = lctx fs @ weave (map io (take j (kids t)) @ [[]]) (take j (items t))"

definition after_gap :: "('k, 'v) frame list \<Rightarrow> ('k, 'v) tree \<Rightarrow> nat \<Rightarrow> ('k, 'v) item list" where
  "after_gap fs t j = weave ([] # map io (drop (Suc j) (kids t))) (drop j (items t)) @ rctx fs"

definition kid_at :: "('k, 'v) tree \<Rightarrow> nat \<Rightarrow> ('k, 'v) tree option" where
  "kid_at t j = (if j < length (kids t) then kids t ! j else None)"

lemma gap_inorder:
  assumes "tree_ok (plugs fs t)" and "j \<le> length (items t)"
  shows "inorder (plugs fs t) = before_gap fs t j @ io (kid_at t j) @ after_gap fs t j"
proof (cases "kids t = []")
  case True
  then show ?thesis using assms
    by (cases t) (simp add: inorder_ctx before_gap_def after_gap_def kid_at_def)
next
  case False
  with assms have len: "length (kids t) = Suc (length (items t))"
    using wf_tree_kids tree_ok_wf(2) by blast
  then have ks: "kids t = take j (kids t) @ kids t ! j # drop (Suc j) (kids t)"
    using assms(2) by (intro id_take_nth_drop) simp
  have "inorder t = weave (map io (take j (kids t)) @ [[]]) (take j (items t)) @ io (kids t ! j) @
      weave ([] # map io (drop (Suc j) (kids t))) (drop j (items t))"
    using inorder_at_kid [of "take j (kids t)" "drop (Suc j) (kids t)" "items t" "tid t" "kids t ! j"] ks len assms(2)
    by (simp del: inorder.simps)
  then show ?thesis using assms len by (simp add: inorder_ctx before_gap_def after_gap_def kid_at_def)
qed

text \<open>Slot \<open>j\<close> lies between the gaps \<open>j\<close> and \<open>Suc j\<close>.\<close>

lemma gap_slot:
  assumes ok: "tree_ok (plugs fs t)" and j: "j < length (items t)"
  shows "after_gap fs t j = items t ! j # io (kid_at t (Suc j)) @ after_gap fs t (Suc j)" (is ?A)
    and "before_gap fs t (Suc j) = before_gap fs t j @ io (kid_at t j) @ [items t ! j]" (is ?B)
    and "lctx fs @ weave (map io (take (Suc j) (kids t))) (take j (items t)) = before_gap fs t j @ io (kid_at t j)"
    and "weave (map io (drop (Suc j) (kids t))) (drop (Suc j) (items t)) @ rctx fs =
      io (kid_at t (Suc j)) @ after_gap fs t (Suc j)"
proof -
  have len: "kids t = [] \<or> length (kids t) = Suc (length (items t))"
    using wf_tree_kids tree_ok_wf(2) [OF ok] by blast
  have d: "weave (map io (drop (Suc j) (kids t))) (drop (Suc j) (items t)) =
      io (kid_at t (Suc j)) @ weave ([] # map io (drop (Suc (Suc j)) (kids t))) (drop (Suc j) (items t))"
  proof (cases "kids t = []")
    case False
    with len j have "Suc j < length (kids t)" by simp
    then show ?thesis by (cases "drop (Suc j) (items t)") (simp_all add: kid_at_def drop_nth_Cons)
  qed (simp add: kid_at_def)
  then show "weave (map io (drop (Suc j) (kids t))) (drop (Suc j) (items t)) @ rctx fs =
      io (kid_at t (Suc j)) @ after_gap fs t (Suc j)" by (simp add: after_gap_def)
  with drop_nth_Cons [OF j] show A: ?A by (simp add: after_gap_def)
  show "lctx fs @ weave (map io (take (Suc j) (kids t))) (take j (items t)) = before_gap fs t j @ io (kid_at t j)"
  proof (cases "kids t = []")
    case False
    with len j show ?thesis
      using weave_last [of "map io (take j (kids t))" "take j (items t)" "io (kids t ! j)"]
      by (simp add: kid_at_def before_gap_def take_Suc_conv_app_nth)
  qed (simp add: kid_at_def before_gap_def)
  show ?B
    using gap_inorder [OF ok, of j] gap_inorder [OF ok, of "Suc j"] j A by simp
qed

lemma cursor_at_gap:
  assumes "tree_ok rt"
  shows "cursor_at rt i j pre it post \<longleftrightarrow> (\<exists>fs t m. rt = plugs fs t \<and> tid t = i \<and> j = int m \<and>
     m < length (items t) \<and> it = items t ! m \<and> pre = before_gap fs t m @ io (kid_at t m) \<and>
     post = io (kid_at t (Suc m)) @ after_gap fs t (Suc m))"
  unfolding cursor_at_def using assms gap_slot(3,4) by metis

text \<open>Descending: the frame that a node leaves around its child \<open>j\<close>.\<close>

definition frame_at :: "('k, 'v) tree \<Rightarrow> nat \<Rightarrow> ('k, 'v) frame" where
  "frame_at t j = F (tid t) (items t) (take j (kids t)) (drop (Suc j) (kids t))"

lemma plugs_frame_at:
  assumes "j < length (kids t)" and "kids t ! j = Some c"
  shows "plugs (frame_at t j # fs) c = plugs fs t"
proof -
  have "take j (kids t) @ Some c # drop (Suc j) (kids t) = kids t"
    using id_take_nth_drop [OF assms(1)] assms(2) by simp
  then show ?thesis by (cases t) (simp add: frame_at_def)
qed

lemma lctx_frame_at: "lctx (frame_at t j # fs) = before_gap fs t j" if "j \<le> length (kids t)"
  using that by (simp add: frame_at_def before_gap_def)

lemma rctx_frame_at: "rctx (frame_at t j # fs) = after_gap fs t j" if "j \<le> length (kids t)"
  using that by (simp add: frame_at_def after_gap_def)

lemma gap_first_kid:
  assumes "tree_ok (plugs fs t)"
  shows "before_gap fs t 0 = lctx fs" "io (kid_at t 0) @ after_gap fs t 0 = inorder t @ rctx fs"
proof -
  show b: "before_gap fs t 0 = lctx fs" by (simp add: before_gap_def)
  show "io (kid_at t 0) @ after_gap fs t 0 = inorder t @ rctx fs"
    using gap_inorder [OF assms, of 0] inorder_ctx [OF assms] b by simp
qed

lemma gap_last_kid:
  assumes "tree_ok (plugs fs t)"
  shows "after_gap fs t (length (items t)) = rctx fs"
    "before_gap fs t (length (items t)) @ io (kid_at t (length (items t))) = lctx fs @ inorder t"
proof -
  have "length (kids t) \<le> Suc (length (items t))"
    using wf_tree_kids [OF tree_ok_wf(2) [OF assms]] by auto
  then show a: "after_gap fs t (length (items t)) = rctx fs" by (simp add: after_gap_def)
  show "before_gap fs t (length (items t)) @ io (kid_at t (length (items t))) = lctx fs @ inorder t"
    using gap_inorder [OF assms, of "length (items t)"] inorder_ctx [OF assms] a by simp
qed

text \<open>
  The result of a move to the right of the items \<open>pre\<close> with the items \<open>rem\<close> ahead: the cursor is
  on the first of \<open>rem\<close>, or reset when there is none. Only cached positions changed.
\<close>

definition moved_right :: "('k, 'v) tree \<Rightarrow> ('k, 'v) btree \<Rightarrow> ('k, 'v) item list \<Rightarrow> ('k, 'v) item list \<Rightarrow>
    (go_error + bool) \<times> ('k, 'v) btree \<Rightarrow> bool" where
  "moved_right rt bt pre rem r \<longleftrightarrow> (\<exists>h i j. r = (Inr (rem \<noteq> []), setCur i j (bt\<lparr>repo := h\<rparr>)) \<and>
     nav_ok (bt\<lparr>repo := h\<rparr>) rt \<and> dom h = dom (repo bt) \<and>
     (case rem of [] \<Rightarrow> i = NilUUID \<and> j = 0 | x # xs \<Rightarrow> cursor_at rt i j pre x xs))"

definition moved_left :: "('k, 'v) tree \<Rightarrow> ('k, 'v) btree \<Rightarrow> ('k, 'v) item list \<Rightarrow> ('k, 'v) item list \<Rightarrow>
    (go_error + bool) \<times> ('k, 'v) btree \<Rightarrow> bool" where
  "moved_left rt bt pre rem r \<longleftrightarrow> (\<exists>h i j. r = (Inr (pre \<noteq> []), setCur i j (bt\<lparr>repo := h\<rparr>)) \<and>
     nav_ok (bt\<lparr>repo := h\<rparr>) rt \<and> dom h = dom (repo bt) \<and>
     (if pre = [] then i = NilUUID \<and> j = 0 else cursor_at rt i j (butlast pre) (last pre) rem))"

lemma moved_right_upd:
  "moved_right rt (bt\<lparr>repo := h\<rparr>) pre rem r \<Longrightarrow> dom h = dom (repo bt) \<Longrightarrow> moved_right rt bt pre rem r"
  by (auto simp: moved_right_def)

lemma moved_left_upd:
  "moved_left rt (bt\<lparr>repo := h\<rparr>) pre rem r \<Longrightarrow> dom h = dom (repo bt) \<Longrightarrow> moved_left rt bt pre rem r"
  by (auto simp: moved_left_def)

lemma moved_right_here:
  assumes ok: "nav_ok bt (plugs fs t)" and j: "j < length (items t)"
  shows "moved_right (plugs fs t) bt (before_gap fs t j @ io (kid_at t j)) (after_gap fs t j)
    (Inr True, setCur (tid t) (int j) bt)"
proof -
  have "cursor_at (plugs fs t) (tid t) (int j) (before_gap fs t j @ io (kid_at t j)) (items t ! j)
      (io (kid_at t (Suc j)) @ after_gap fs t (Suc j))"
    using j unfolding cursor_at_gap [OF nav_ok_simps(1) [OF ok]] by blast
  then show ?thesis
    using ok gap_slot(1) [OF nav_ok_simps(1) [OF ok] j] unfolding moved_right_def
    by (intro exI [of _ "repo bt"] exI [of _ "tid t"] exI [of _ "int j"]) simp
qed

lemma moved_left_here:
  assumes ok: "nav_ok bt (plugs fs t)" and j: "j < length (items t)"
  shows "moved_left (plugs fs t) bt (before_gap fs t (Suc j)) (io (kid_at t (Suc j)) @ after_gap fs t (Suc j))
    (Inr True, setCur (tid t) (int j) bt)"
proof -
  have "cursor_at (plugs fs t) (tid t) (int j) (before_gap fs t j @ io (kid_at t j)) (items t ! j)
      (io (kid_at t (Suc j)) @ after_gap fs t (Suc j))"
    using j unfolding cursor_at_gap [OF nav_ok_simps(1) [OF ok]] by blast
  then show ?thesis
    using ok gap_slot(2) [OF nav_ok_simps(1) [OF ok] j] unfolding moved_left_def
    by (intro exI [of _ "repo bt"] exI [of _ "tid t"] exI [of _ "int j"]) (simp add: butlast_append)
qed

lemma climbRight_spec:
  assumes "nav_ok bt (plugs fs t)" and "repo bt (tid t) = Some n" and "length fs < f" and "j \<le> length (items t)"
  shows "moved_right (plugs fs t) bt (before_gap fs t j @ io (kid_at t j)) (after_gap fs t j)
    (climbRight f (Some n) (int j) bt)"
  using assms
proof (induction fs arbitrary: t n f j bt)
  case Nil
  note ok = nav_ok_simps [OF Nil.prems(1)] and nr = nav_node [OF Nil.prems(1,2)]
  obtain g where f: "f = Suc g" using Nil.prems(3) by (cases f) auto
  show ?case
  proof (cases "j < length (items t)")
    case True
    with moved_right_here [OF Nil.prems(1) True] show ?thesis
      by (simp add: f exec_simps node_repr_simps [OF nr] setCurrentItemID_ok ok)
  next
    case False
    with Nil.prems(4) have j: "j = length (items t)" by simp
    with gap_last_kid(1) [OF ok(1)] have "after_gap [] t j = []" by simp
    with j Nil.prems(1) show ?thesis
      by (auto simp: f exec_simps node_repr_simps [OF nr] node_repr_isRootNode [OF nr] setCurrentItemID_ok ok
          moved_right_def intro!: exI [of _ "repo bt"])
  qed
next
  case (Cons fr fs)
  note ok = nav_ok_simps [OF Cons.prems(1)] and nr = nav_node [OF Cons.prems(1,2)]
  obtain g where f: "f = Suc g" using Cons.prems(3) by (cases f) auto
  show ?case
  proof (cases "j < length (items t)")
    case True
    with moved_right_here [OF Cons.prems(1) True] show ?thesis
      by (simp add: f exec_simps node_repr_simps [OF nr] setCurrentItemID_ok ok)
  next
    case False
    with Cons.prems(4) have j: "j = length (items t)" by simp
    obtain i its kl kr where fr: "fr = F i its kl kr" by (cases fr)
    from nav_parent [OF Cons.prems(1) [unfolded fr] Cons.prems(2)] obtain p bt' where
      p: "getParent n bt = (Inr (Some p), bt)"
        "getIndexOfChild p n bt = (Inr (int (length kl), n\<lparr>indexOfNode := int (length kl)\<rparr>), bt')"
        "bt' = bt\<lparr>repo := (repo bt)(tid t \<mapsto> n\<lparr>indexOfNode := int (length kl)\<rparr>)\<rparr>"
        "repo bt' i = Some p" "nav_ok bt' (plugs (fr # fs) t)" "length kl \<le> length its" "\<not> isRootNode n"
      unfolding fr by blast
    from p(5) have ok': "nav_ok bt' (plugs fs (plug fr t))" by simp
    have "moved_right (plugs fs (plug fr t)) bt' (before_gap fs (plug fr t) (length kl) @ io (kid_at (plug fr t) (length kl)))
        (after_gap fs (plug fr t) (length kl)) (climbRight g (Some p) (int (length kl)) bt')"
      using Cons.prems(3) p(4,6) by (intro Cons.IH [OF ok']) (simp_all add: f fr)
    moreover have "climbRight f (Some n) (int j) bt = climbRight g (Some p) (int (length kl)) bt'"
      using p(7) by (simp add: f j exec_simps node_repr_simps [OF nr] p(1,2) nonNil_def)
    moreover have "after_gap fs (plug fr t) (length kl) = after_gap (fr # fs) t j"
      using gap_last_kid(1) [OF ok(1)] by (simp add: j after_gap_def fr)
    moreover have "before_gap fs (plug fr t) (length kl) @ io (kid_at (plug fr t) (length kl)) =
        before_gap (fr # fs) t j @ io (kid_at t j)"
      using gap_last_kid(2) [OF ok(1)] by (simp add: j before_gap_def fr kid_at_def)
    ultimately show ?thesis
      using p(3) Cons.prems(2) moved_right_upd [where bt = bt and rt = "plugs (fr # fs) t"] by (auto simp: insert_absorb domI)
  qed
qed

lemma climbLeft_spec:
  assumes "nav_ok bt (plugs fs t)" and "repo bt (tid t) = Some n" and "length fs < f" and "j \<le> length (items t)"
  shows "moved_left (plugs fs t) bt (before_gap fs t j) (io (kid_at t j) @ after_gap fs t j)
    (climbLeft f n (int j - 1) bt)"
  using assms
proof (induction fs arbitrary: t n f j bt)
  case Nil
  note ok = nav_ok_simps [OF Nil.prems(1)] and nr = nav_node [OF Nil.prems(1,2)]
  obtain g where f: "f = Suc g" using Nil.prems(3) by (cases f) auto
  show ?case
  proof (cases j)
    case (Suc k)
    with moved_left_here [OF Nil.prems(1), of k] Nil.prems(4) show ?thesis
      by (simp add: f exec_simps node_repr_simps [OF nr] setCurrentItemID_ok ok)
  next
    case 0
    with Nil.prems(1) gap_first_kid(1) [OF ok(1)] show ?thesis
      by (auto simp: f exec_simps node_repr_simps [OF nr] node_repr_isRootNode [OF nr] setCurrentItemID_ok ok
          moved_left_def intro!: exI [of _ "repo bt"])
  qed
next
  case (Cons fr fs)
  note ok = nav_ok_simps [OF Cons.prems(1)] and nr = nav_node [OF Cons.prems(1,2)]
  obtain g where f: "f = Suc g" using Cons.prems(3) by (cases f) auto
  show ?case
  proof (cases j)
    case (Suc k)
    with moved_left_here [OF Cons.prems(1), of k] Cons.prems(4) show ?thesis
      by (simp add: f exec_simps node_repr_simps [OF nr] setCurrentItemID_ok ok)
  next
    case j: 0
    obtain i its kl kr where fr: "fr = F i its kl kr" by (cases fr)
    from nav_parent [OF Cons.prems(1) [unfolded fr] Cons.prems(2)] obtain p bt' where
      p: "getParent n bt = (Inr (Some p), bt)"
        "getIndexOfChild p n bt = (Inr (int (length kl), n\<lparr>indexOfNode := int (length kl)\<rparr>), bt')"
        "bt' = bt\<lparr>repo := (repo bt)(tid t \<mapsto> n\<lparr>indexOfNode := int (length kl)\<rparr>)\<rparr>"
        "repo bt' i = Some p" "nav_ok bt' (plugs (fr # fs) t)" "length kl \<le> length its" "\<not> isRootNode n"
      unfolding fr by blast
    from p(5) have ok': "nav_ok bt' (plugs fs (plug fr t))" by simp
    have "moved_left (plugs fs (plug fr t)) bt' (before_gap fs (plug fr t) (length kl))
        (io (kid_at (plug fr t) (length kl)) @ after_gap fs (plug fr t) (length kl))
        (climbLeft g p (int (length kl) - 1) bt')"
      using Cons.prems(3) p(4,6) by (intro Cons.IH [OF ok']) (simp_all add: f fr)
    moreover have "climbLeft f n (int j - 1) bt = climbLeft g p (int (length kl) - 1) bt'"
      using p(7) by (simp add: f j exec_simps node_repr_simps [OF nr] p(1,2) nonNil_def)
    moreover have "before_gap fs (plug fr t) (length kl) = before_gap (fr # fs) t j"
      by (simp add: j before_gap_def fr)
    moreover have "io (kid_at (plug fr t) (length kl)) @ after_gap fs (plug fr t) (length kl) =
        io (kid_at t j) @ after_gap (fr # fs) t j"
      using gap_first_kid(2) [OF ok(1)] by (simp add: j after_gap_def fr kid_at_def)
    ultimately show ?thesis
      using p(3) Cons.prems(2) moved_left_upd [where bt = bt and rt = "plugs (fr # fs) t"]
      by (auto simp: insert_absorb domI)
  qed
qed

text \<open>Reading the child at position \<open>j\<close> of a node that has children.\<close>

lemma children_nth_rep:
  assumes "node_repr L n p i its (map kid_id ks)" and "ks \<noteq> []" and "j \<le> length its"
  shows "j < length ks" "j < length (children n)" "children n ! j = kid_id (ks ! j)"
proof -
  note s = node_repr_simps [OF assms(1)]
  from assms(2,3) s(10) show j: "j < length ks" by simp
  with s(7) assms(2) s(5) assms(3) show "j < length (children n)" by auto
  from s(11) [of j] j show "children n ! j = kid_id (ks ! j)" by simp
qed

lemma getChild_rep:
  assumes ok: "nav_ok bt (plugs fs t)" and n: "repo bt (tid t) = Some n"
    and ks: "kids t \<noteq> []" and j: "j \<le> length (items t)"
  shows "kids t ! j = None \<Longrightarrow> getChild n j bt = (Inr None, bt)"
    and "kids t ! j = Some c \<Longrightarrow> \<exists>m. getChild n j bt = (Inr (Some m), bt) \<and> repo bt (tid c) = Some m \<and>
          plugs (frame_at t j # fs) c = plugs fs t \<and> tid c \<noteq> NilUUID"
proof -
  note nr = nav_node [OF ok n] and okn = nav_ok_simps [OF ok]
  note c = children_nth_rep [OF nr ks j]
  have get: "getChildID n j bt = (Inr (kid_id (kids t ! j)), bt)"
    using c by (auto simp: getChildID_def exec_simps)
  show "kids t ! j = None \<Longrightarrow> getChild n j bt = (Inr None, bt)"
    using get by (simp add: getChild_def exec_simps)
  assume k: "kids t ! j = Some c"
  have pl: "plugs (frame_at t j # fs) c = plugs fs t" using plugs_frame_at [OF c(1) k] .
  then have "nav_ok bt (plugs (frame_at t j # fs) c)" using ok by simp
  then obtain m where m: "repo bt (tid c) = Some m" "getNode (tid c) bt = (Inr (Some m), bt)"
    using nav_lookup by blast
  have "tid c \<noteq> NilUUID" using tree_ok_ctx(6) [of "frame_at t j # fs" c] okn(1) pl by simp
  then show "\<exists>m. getChild n j bt = (Inr (Some m), bt) \<and> repo bt (tid c) = Some m \<and>
      plugs (frame_at t j # fs) c = plugs fs t \<and> tid c \<noteq> NilUUID"
    using get k m pl by (auto simp: getChild_def exec_simps)
qed

lemma kid_facts:
  assumes "tree_ok (plugs fs t)" and "j < length (kids t)" and "kids t ! j = Some c"
  shows "items c \<noteq> []" "height c < height t" "wfn c"
proof -
  have pl: "plugs (frame_at t j # fs) c = plugs fs t" using plugs_frame_at [OF assms(2,3)] .
  then have "tree_ok (plugs (frame_at t j # fs) c)" using assms(1) by simp
  from tree_ok_wf(3) [OF this] show "wfn c" by simp
  then show "items c \<noteq> []" by (cases c) simp
  have "Some c \<in> set (kids t)" using assms(2,3) nth_mem by metis
  then show "height c < height t" using height_kid [of c "kids t" "tid t" "items t"] by simp
qed

lemma moveDownRight_spec:
  assumes "nav_ok bt (plugs fs t)" and "repo bt (tid t) = Some n" and "height t < f"
    and "height (plugs fs t) < fuel bt" and "j \<le> length (items t)" and "kids t = [] \<longrightarrow> j = 0 \<and> items t \<noteq> []"
  shows "moved_right (plugs fs t) bt (before_gap fs t j) (io (kid_at t j) @ after_gap fs t j)
    (moveDownRight f (Some n) (int j) bt)"
  using assms
proof (induction f arbitrary: fs t n j)
  case 0
  then show ?case by simp
next
  case (Suc g)
  note ok = nav_ok_simps [OF Suc.prems(1)] and nr = nav_node [OF Suc.prems(1,2)]
  show ?case
  proof (cases "kids t = []")
    case True
    with Suc.prems(6) moved_right_here [OF Suc.prems(1), of 0] show ?thesis
      by (simp add: exec_simps node_repr_hasChildren [OF nr] node_repr_simps [OF nr] setCurrentItemID_ok ok kid_at_def)
  next
    case ks: False
    then have hc: "hasChildren n" by (simp add: node_repr_hasChildren [OF nr])
    note c = children_nth_rep [OF nr ks Suc.prems(5)] and gc = getChild_rep [OF Suc.prems(1,2) ks Suc.prems(5)]
    show ?thesis
    proof (cases "kids t ! j")
      case None
      have "length fs < fuel bt" using Suc.prems(4) height_plugs [of t fs] by simp
      from climbRight_spec [OF Suc.prems(1,2) this Suc.prems(5)] None c(1)
      have mr: "moved_right (plugs fs t) bt (before_gap fs t j) (io (kid_at t j) @ after_gap fs t j)
          (climbRight (fuel bt) (Some n) (int j) bt)" by (simp add: kid_at_def)
      then obtain b h i l where cr: "climbRight (fuel bt) (Some n) (int j) bt = (Inr b, setCur i l (bt\<lparr>repo := h\<rparr>))"
        and b: "b \<longleftrightarrow> io (kid_at t j) @ after_gap fs t j \<noteq> []"
        and nv: "nav_ok (bt\<lparr>repo := h\<rparr>) (plugs fs t)" and dh: "dom h = dom (repo bt)"
        by (auto simp: moved_right_def)
      have go: "goRightUpItemOnNodeWithNilChild n (int j) bt = (Inr b, setCur i l (bt\<lparr>repo := h\<rparr>))"
        using cr c None by (simp add: goRightUpItemOnNodeWithNilChild_def exec_simps)
      show ?thesis
      proof (cases b)
        case True
        with mr go hc cr show ?thesis by (simp add: exec_simps)
      next
        case False
        obtain g' where g: "g = Suc g'" using Suc.prems(3) height_pos [of t] by (cases g) auto
        have "getChild n j (setCur i l (bt\<lparr>repo := h\<rparr>)) = (Inr None, setCur i l (bt\<lparr>repo := h\<rparr>))"
          using c None by (simp add: getChild_def getChildID_def exec_simps)
        then have "moveDownRight (Suc g) (Some n) (int j) bt = (Inr False, setCur NilUUID 0 (bt\<lparr>repo := h\<rparr>))"
          using go hc False ok(4) by (simp add: exec_simps g setCurrentItemID_ok)
        with False b nv dh show ?thesis by (auto simp: moved_right_def)
      qed
    next
      case (Some k)
      from gc(2) [OF Some] obtain m where m: "getChild n j bt = (Inr (Some m), bt)" "repo bt (tid k) = Some m"
        "plugs (frame_at t j # fs) k = plugs fs t" "tid k \<noteq> NilUUID" by blast
      note kf = kid_facts [OF ok(1) c(1) Some]
      have "moved_right (plugs (frame_at t j # fs) k) bt (before_gap (frame_at t j # fs) k 0)
          (io (kid_at k 0) @ after_gap (frame_at t j # fs) k 0) (moveDownRight g (Some m) (int 0) bt)"
        using Suc.prems kf m(2,3) by (intro Suc.IH) (simp_all del: plugs.simps)
      moreover have "tree_ok (plugs (frame_at t j # fs) k)" using m(3) ok(1) by simp
      note gap_first_kid [OF this]
      moreover have "moveDownRight (Suc g) (Some n) (int j) bt = moveDownRight g (Some m) 0 bt"
        using hc c m Some by (simp add: goRightUpItemOnNodeWithNilChild_def exec_simps)
      ultimately show ?thesis
        using m(3) Some c(1) by (simp add: lctx_frame_at rctx_frame_at kid_at_def del: plugs.simps lctx.simps rctx.simps)
    qed
  qed
qed

lemma moveDownLeft_spec:
  assumes "nav_ok bt (plugs fs t)" and "repo bt (tid t) = Some n" and "height t < f"
    and "height (plugs fs t) < fuel bt" and "j \<le> length (items t)" and "kids t = [] \<longrightarrow> 0 < j"
  shows "moved_left (plugs fs t) bt (before_gap fs t j @ io (kid_at t j)) (after_gap fs t j)
    (moveDownLeft f n (int j) bt)"
  using assms
proof (induction f arbitrary: fs t n j)
  case 0
  then show ?case by simp
next
  case (Suc g)
  note ok = nav_ok_simps [OF Suc.prems(1)] and nr = nav_node [OF Suc.prems(1,2)]
  show ?case
  proof (cases "kids t = []")
    case True
    with Suc.prems(5,6) moved_left_here [OF Suc.prems(1), of "j - 1"] show ?thesis
      by (simp add: exec_simps node_repr_hasChildren [OF nr] node_repr_simps [OF nr] setCurrentItemID_ok ok
          kid_at_def of_nat_diff)
  next
    case ks: False
    then have hc: "hasChildren n" by (simp add: node_repr_hasChildren [OF nr])
    note c = children_nth_rep [OF nr ks Suc.prems(5)] and gc = getChild_rep [OF Suc.prems(1,2) ks Suc.prems(5)]
    show ?thesis
    proof (cases "kids t ! j")
      case None
      have "length fs < fuel bt" using Suc.prems(4) height_plugs [of t fs] by simp
      from climbLeft_spec [OF Suc.prems(1,2) this Suc.prems(5)] None c(1)
      have ml: "moved_left (plugs fs t) bt (before_gap fs t j @ io (kid_at t j)) (after_gap fs t j)
          (climbLeft (fuel bt) n (int j - 1) bt)" by (simp add: kid_at_def)
      then obtain b h i l where cr: "climbLeft (fuel bt) n (int j - 1) bt = (Inr b, setCur i l (bt\<lparr>repo := h\<rparr>))"
        and b: "b \<longleftrightarrow> before_gap fs t j @ io (kid_at t j) \<noteq> []"
        and nv: "nav_ok (bt\<lparr>repo := h\<rparr>) (plugs fs t)" and dh: "dom h = dom (repo bt)"
        unfolding moved_left_def by blast
      have go: "goLeftUpItemOnNodeWithNilChild n (int j) bt = (Inr b, setCur i l (bt\<lparr>repo := h\<rparr>))"
        using cr c None by (simp add: goLeftUpItemOnNodeWithNilChild_def exec_simps)
      show ?thesis
      proof (cases b)
        case True
        with ml go hc cr show ?thesis by (simp add: exec_simps)
      next
        case False
        have "getChild n j (setCur i l (bt\<lparr>repo := h\<rparr>)) = (Inr None, setCur i l (bt\<lparr>repo := h\<rparr>))"
          using c None by (simp add: getChild_def getChildID_def exec_simps)
        then have "moveDownLeft (Suc g) n (int j) bt = (Inr False, setCur NilUUID 0 (bt\<lparr>repo := h\<rparr>))"
          using go hc False ok(4) by (simp add: exec_simps setCurrentItemID_ok)
        with False b nv dh show ?thesis by (auto simp: moved_left_def)
      qed
    next
      case (Some k)
      from gc(2) [OF Some] obtain m where m: "getChild n j bt = (Inr (Some m), bt)" "repo bt (tid k) = Some m"
        "plugs (frame_at t j # fs) k = plugs fs t" "tid k \<noteq> NilUUID" by blast
      note kf = kid_facts [OF ok(1) c(1) Some]
      have okk: "nav_ok bt (plugs (frame_at t j # fs) k)" using m(3) Suc.prems(1) by simp
      have cnt: "Count m = length (items k)" using nav_node [OF okk m(2)] by (simp add: node_repr_simps)
      have "moved_left (plugs (frame_at t j # fs) k) bt
          (before_gap (frame_at t j # fs) k (length (items k)) @ io (kid_at k (length (items k))))
          (after_gap (frame_at t j # fs) k (length (items k))) (moveDownLeft g m (int (length (items k))) bt)"
        using Suc.prems kf m(2,3) by (intro Suc.IH) (simp_all del: plugs.simps)
      moreover note gap_last_kid [OF nav_ok_simps(1) [OF okk]]
      moreover have "moveDownLeft (Suc g) n (int j) bt = moveDownLeft g m (int (length (items k))) bt"
        using hc c m Some by (simp add: goLeftUpItemOnNodeWithNilChild_def exec_simps cnt)
      ultimately show ?thesis
        using m(3) Some c(1) by (simp add: lctx_frame_at rctx_frame_at kid_at_def del: plugs.simps lctx.simps rctx.simps)
    qed
  qed
qed

section \<open>The next and the previous item\<close>

lemma moveToNext_spec:
  assumes ok: "nav_ok bt (plugs fs t)" and n: "repo bt (tid t) = Some n"
    and f: "height (plugs fs t) < fuel bt" and cur: "curItemIndex bt = int j" and j: "j < length (items t)"
  shows "moved_right (plugs fs t) bt (before_gap fs t (Suc j)) (io (kid_at t (Suc j)) @ after_gap fs t (Suc j))
    (moveToNext n bt)"
proof -
  note nr = nav_node [OF ok n]
  have h: "height t + length fs \<le> height (plugs fs t)" using height_plugs [of t fs] .
  have s: "curItemIndex bt + 1 = int (Suc j)" using cur by simp
  show ?thesis
  proof (cases "kids t = []")
    case True
    with climbRight_spec [OF ok n, of "fuel bt" "Suc j"] f h j show ?thesis
      by (simp add: moveToNext_def exec_simps node_repr_hasChildren [OF nr] s kid_at_def Let_def del: of_nat_Suc)
  next
    case False
    with moveDownRight_spec [OF ok n, of "fuel bt" "Suc j"] f h j show ?thesis
      by (simp add: moveToNext_def exec_simps node_repr_hasChildren [OF nr] s Let_def del: of_nat_Suc)
  qed
qed

lemma moveToPrevious_spec:
  assumes ok: "nav_ok bt (plugs fs t)" and n: "repo bt (tid t) = Some n"
    and f: "height (plugs fs t) < fuel bt" and cur: "curItemIndex bt = int j" and j: "j < length (items t)"
  shows "moved_left (plugs fs t) bt (before_gap fs t j @ io (kid_at t j)) (after_gap fs t j) (moveToPrevious n bt)"
proof -
  note nr = nav_node [OF ok n]
  have h: "height t + length fs \<le> height (plugs fs t)" using height_plugs [of t fs] .
  show ?thesis
  proof (cases "kids t = []")
    case True
    with climbLeft_spec [OF ok n, of "fuel bt" j] f h j show ?thesis
      by (simp add: moveToPrevious_def exec_simps node_repr_hasChildren [OF nr] cur kid_at_def Let_def)
  next
    case False
    with moveDownLeft_spec [OF ok n, of "fuel bt" j] f h j show ?thesis
      by (simp add: moveToPrevious_def exec_simps node_repr_hasChildren [OF nr] cur Let_def)
  qed
qed

end
