(* ===== verification/Btree_Find.thy ===== *)
theory Btree_Find
  imports Btree_Search
begin

text \<open>
  The public cursor operations: \<open>First\<close>, \<open>Last\<close>, \<open>Next\<close>, \<open>Previous\<close> and \<open>Find\<close>, related to the
  in-order sequence of the tree.
\<close>

section \<open>The cursor of a B-tree\<close>

text \<open>
  \<open>cursor_on bt rt pre it post\<close>: the cursor is on \<open>it\<close>, between \<open>pre\<close> and \<open>post\<close>, and the current
  item pointer, when loaded, is the address of that slot.
\<close>

definition cursor_on :: "('k, 'v) btree \<Rightarrow> ('k, 'v) tree \<Rightarrow> ('k, 'v) item list \<Rightarrow> ('k, 'v) item \<Rightarrow>
    ('k, 'v) item list \<Rightarrow> bool" where
  "cursor_on bt rt pre it post \<longleftrightarrow> cursor_at rt (curNodeID bt) (curItemIndex bt) pre it post \<and>
     (currentItem bt = NilPtr \<or> currentItem bt = SlotPtr (curNodeID bt) (curItemIndex bt))"

definition cursor_ok :: "('k, 'v) btree \<Rightarrow> ('k, 'v) tree \<Rightarrow> bool" where
  "cursor_ok bt rt \<longleftrightarrow> \<not> isCurrentItemSelected bt \<or> (\<exists>pre it post. cursor_on bt rt pre it post)"

text \<open>The state after a cursor operation: the cursor set and the current item loaded.\<close>

definition seek :: "uuid \<Rightarrow> int \<Rightarrow> ('k, 'v) btree \<Rightarrow> ('k, 'v) btree" where
  "seek i j bt = bt\<lparr>currentItem := (if i = NilUUID then NilPtr else SlotPtr i j), curNodeID := i, curItemIndex := j\<rparr>"

lemma seek_simps [simp]:
  "repo (seek i j bt) = repo bt" "StoreInfo (seek i j bt) = StoreInfo bt"
  "repoFail (seek i j bt) = repoFail bt" "fuel (seek i j bt) = fuel bt"
  "curNodeID (seek i j bt) = i" "curItemIndex (seek i j bt) = j"
  "currentItem (seek i j bt) = (if i = NilUUID then NilPtr else SlotPtr i j)"
  "getSlotLength (seek i j bt) = getSlotLength bt" "comparer (seek i j bt) = comparer bt"
  "trackerLog (seek i j bt) = trackerLog bt"
  by (simp_all add: seek_def getSlotLength_def)

lemma nav_ok_seek [simp]: "nav_ok (seek i j bt) rt = nav_ok bt rt"
  by (simp add: nav_ok_def)

lemma heap_ok_seek [simp]: "heap_ok (seek i j bt) rt = heap_ok bt rt"
  by (simp add: heap_ok_def)

lemma heap_ok_repo: "heap_ok bt rt \<Longrightarrow> nav_ok (bt\<lparr>repo := h\<rparr>) rt \<Longrightarrow> heap_ok (bt\<lparr>repo := h\<rparr>) rt"
  by (simp add: heap_ok_def)

lemma cursor_at_slot:
  assumes "nav_ok bt rt" and "cursor_at rt i j pre it post"
  obtains fs t m n where "rt = plugs fs t" "tid t = i" "j = int m" "m < length (items t)" "it = items t ! m"
    "pre = before_gap fs t m @ io (kid_at t m)" "post = io (kid_at t (Suc m)) @ after_gap fs t (Suc m)"
    "pre @ [it] = before_gap fs t (Suc m)" "it # post = after_gap fs t m"
    "repo bt i = Some n" "getNode i bt = (Inr (Some n), bt)" "aget_int (Slots n) j s = (Inr it, s)" "i \<noteq> NilUUID"
    "node_repr (getSlotLength bt) n (parent_of fs) i (items t) (map kid_id (kids t))"
proof -
  note ok = nav_ok_simps [OF assms(1)]
  from assms(2) obtain fs t m where c: "rt = plugs fs t" "tid t = i" "j = int m" "m < length (items t)"
    "it = items t ! m" "pre = before_gap fs t m @ io (kid_at t m)"
    "post = io (kid_at t (Suc m)) @ after_gap fs t (Suc m)"
    unfolding cursor_at_gap [OF ok(1)] by blast
  note okc = ok(1) [unfolded c(1)]
  from nav_lookup [OF assms(1) [unfolded c(1)]] c(2) obtain n where
    n: "repo bt i = Some n" "getNode i bt = (Inr (Some n), bt)"
      "node_repr (getSlotLength bt) n (parent_of fs) i (items t) (map kid_id (kids t))" by auto
  have "aget_int (Slots n) j s = (Inr it, s)"
    using c(3,4,5) node_repr_simps [OF n(3)] by (simp add: exec_simps)
  moreover have "i \<noteq> NilUUID" using tree_ok_ctx(6) [OF okc] c(2) by simp
  moreover have "pre @ [it] = before_gap fs t (Suc m)" "it # post = after_gap fs t m"
    using gap_slot(1,2) [OF okc c(4)] c(5-7) by simp_all
  ultimately show ?thesis using c n that by blast
qed

lemma getCurrentItem_load:
  assumes "nav_ok bt rt" and "cursor_on bt rt pre it post"
  shows "getCurrentItem bt = (Inr (SlotPtr (curNodeID bt) (curItemIndex bt)), seek (curNodeID bt) (curItemIndex bt) bt)"
    and "derefItem (SlotPtr (curNodeID bt) (curItemIndex bt)) bt = (Inr it, bt)"
    and "isCurrentItemSelected bt"
proof -
  from assms(2) have c: "cursor_at rt (curNodeID bt) (curItemIndex bt) pre it post"
    and p: "currentItem bt = NilPtr \<or> currentItem bt = SlotPtr (curNodeID bt) (curItemIndex bt)"
    by (auto simp: cursor_on_def)
  from cursor_at_slot [OF assms(1) c, of bt] obtain n m where n: "repo bt (curNodeID bt) = Some n"
    "aget_int (Slots n) (curItemIndex bt) bt = (Inr it, bt)" "curNodeID bt \<noteq> NilUUID" "curItemIndex bt = int m" by metis
  show "getCurrentItem bt = (Inr (SlotPtr (curNodeID bt) (curItemIndex bt)), seek (curNodeID bt) (curItemIndex bt) bt)"
    using p n nav_ok_simps(3) [OF assms(1)]
    by (cases "currentItem bt = NilPtr") (auto simp: getCurrentItem_def exec_simps repoGet_ok seek_def)
  show "derefItem (SlotPtr (curNodeID bt) (curItemIndex bt)) bt = (Inr it, bt)"
    using n by (simp add: derefItem_def exec_simps)
  show "isCurrentItemSelected bt" using n by (simp add: isCurrentItemSelected_def)
qed

lemma getCurrentItem_none: "getCurrentItem (setCur NilUUID j bt) = (Inr NilPtr, seek NilUUID j bt)"
  by (simp add: getCurrentItem_def exec_simps setCur_def seek_def)

lemma getCurrentItem_setCur:
  assumes "nav_ok bt rt" and "cursor_at rt i j pre it post"
  shows "getCurrentItem (setCur i j bt) = (Inr (SlotPtr i j), seek i j bt)"
    and "cursor_on (seek i j bt) rt pre it post"
proof -
  have "nav_ok (setCur i j bt) rt" using assms(1) by (simp add: nav_ok_def)
  moreover have "cursor_on (setCur i j bt) rt pre it post" using assms(2) by (simp add: cursor_on_def)
  ultimately show "getCurrentItem (setCur i j bt) = (Inr (SlotPtr i j), seek i j bt)"
    using getCurrentItem_load(1) [of "setCur i j bt" rt pre it post] by (simp add: seek_def setCur_def)
  show "cursor_on (seek i j bt) rt pre it post"
    using cursor_at_slot [OF assms] assms(2) by (auto simp: cursor_on_def)
qed

lemma andThen_ok: "m s = (Inr x, s') \<Longrightarrow> k s' = (Inr y, s'') \<Longrightarrow> andThen m k s = (Inr x, s'')"
  by (simp add: andThen_def ignoreErr_def)

section \<open>Next and Previous\<close>

lemma load_cursor:
  assumes "m bt = (Inr b, setCur i j bt')" and "nav_ok bt' rt"
    and "i = NilUUID \<or> (\<exists>pre it post. cursor_at rt i j pre it post)"
  shows "andThen m getCurrentItem bt = (Inr b, seek i j bt')"
  using assms andThen_ok [of m bt b _ getCurrentItem] getCurrentItem_none getCurrentItem_setCur(1) by metis

lemma moved_right_load:
  assumes "moved_right rt bt pre rem (m bt)" and "heap_ok bt rt"
  shows "\<exists>h i j. andThen m getCurrentItem bt = (Inr (rem \<noteq> []), seek i j (bt\<lparr>repo := h\<rparr>)) \<and>
    heap_ok (bt\<lparr>repo := h\<rparr>) rt \<and> dom h = dom (repo bt) \<and>
    (case rem of [] \<Rightarrow> i = NilUUID | x # xs \<Rightarrow> cursor_on (seek i j (bt\<lparr>repo := h\<rparr>)) rt pre x xs)"
proof -
  from assms(1) obtain h i j where m: "m bt = (Inr (rem \<noteq> []), setCur i j (bt\<lparr>repo := h\<rparr>))"
    "nav_ok (bt\<lparr>repo := h\<rparr>) rt" "dom h = dom (repo bt)"
    and c: "case rem of [] \<Rightarrow> i = NilUUID \<and> j = 0 | x # xs \<Rightarrow> cursor_at rt i j pre x xs"
    by (auto simp: moved_right_def)
  have "i = NilUUID \<or> (\<exists>pre it post. cursor_at rt i j pre it post)" using c by (cases rem) auto
  from load_cursor [of m bt, OF m(1,2) this] show ?thesis
    using m(2,3) c heap_ok_repo [OF assms(2) m(2)] getCurrentItem_setCur(2) [OF m(2)]
    by (intro exI [of _ h] exI [of _ i] exI [of _ j]) (cases rem; simp)
qed

lemma moved_left_load:
  assumes "moved_left rt bt pre rem (m bt)" and "heap_ok bt rt"
  shows "\<exists>h i j. andThen m getCurrentItem bt = (Inr (pre \<noteq> []), seek i j (bt\<lparr>repo := h\<rparr>)) \<and>
    heap_ok (bt\<lparr>repo := h\<rparr>) rt \<and> dom h = dom (repo bt) \<and>
    (if pre = [] then i = NilUUID else cursor_on (seek i j (bt\<lparr>repo := h\<rparr>)) rt (butlast pre) (last pre) rem)"
proof -
  from assms(1) obtain h i j where m: "m bt = (Inr (pre \<noteq> []), setCur i j (bt\<lparr>repo := h\<rparr>))"
    "nav_ok (bt\<lparr>repo := h\<rparr>) rt" "dom h = dom (repo bt)"
    and c: "if pre = [] then i = NilUUID \<and> j = 0 else cursor_at rt i j (butlast pre) (last pre) rem"
    unfolding moved_left_def by blast
  have "i = NilUUID \<or> (\<exists>pre it post. cursor_at rt i j pre it post)" using c by (auto split: if_splits)
  from load_cursor [of m bt, OF m(1,2) this] show ?thesis
    using m(2,3) c heap_ok_repo [OF assms(2) m(2)] getCurrentItem_setCur(2) [OF m(2)]
    by (intro exI [of _ h] exI [of _ i] exI [of _ j]) simp
qed

lemma moveFromCurrent_on:
  assumes "heap_ok bt rt" and "cursor_on bt rt pre it post"
  obtains fs t m n where "rt = plugs fs t" "repo bt (tid t) = Some n" "curItemIndex bt = int m" "m < length (items t)"
    "pre @ [it] = before_gap fs t (Suc m)" "post = io (kid_at t (Suc m)) @ after_gap fs t (Suc m)"
    "pre = before_gap fs t m @ io (kid_at t m)" "it # post = after_gap fs t m"
    "moveFromCurrent move bt = andThen (move n) getCurrentItem bt"
proof -
  note nav = heap_ok_nav [OF assms(1)]
  from assms(2) have c: "cursor_at rt (curNodeID bt) (curItemIndex bt) pre it post" by (simp add: cursor_on_def)
  from cursor_at_slot [OF nav c] obtain fs t m n where s:
    "rt = plugs fs t" "tid t = curNodeID bt" "curItemIndex bt = int m" "m < length (items t)" "it = items t ! m"
    "pre = before_gap fs t m @ io (kid_at t m)" "post = io (kid_at t (Suc m)) @ after_gap fs t (Suc m)"
    "pre @ [it] = before_gap fs t (Suc m)" "it # post = after_gap fs t m"
    "repo bt (curNodeID bt) = Some n" "getNode (curNodeID bt) bt = (Inr (Some n), bt)"
    "node_repr (getSlotLength bt) n (parent_of fs) (curNodeID bt) (items t) (map kid_id (kids t))" by metis
  have "si_Count (StoreInfo bt) \<noteq> 0"
    using assms(1) cursor_at_inorder [OF nav_ok_simps(1) [OF nav] c] by (simp add: heap_ok_def)
  then have "moveFromCurrent move bt = andThen (move n) getCurrentItem bt"
    using getCurrentItem_load(3) [OF nav assms(2)] s(3,4,11) node_repr_simps(4) [OF s(12)]
    by (simp add: moveFromCurrent_def exec_simps)
  with that s show ?thesis by metis
qed

lemma Next_ok:
  assumes "heap_ok bt rt" and "cursor_on bt rt pre it post"
  shows "\<exists>bt'. Next bt = (Inr (post \<noteq> []), bt') \<and> heap_ok bt' rt \<and> trackerLog bt' = trackerLog bt \<and>
    (case post of [] \<Rightarrow> \<not> isCurrentItemSelected bt' | x # xs \<Rightarrow> cursor_on bt' rt (pre @ [it]) x xs)"
proof -
  from moveFromCurrent_on [OF assms, of moveToNext] obtain fs t m n where s:
    "rt = plugs fs t" "repo bt (tid t) = Some n" "curItemIndex bt = int m" "m < length (items t)"
    "pre @ [it] = before_gap fs t (Suc m)" "post = io (kid_at t (Suc m)) @ after_gap fs t (Suc m)"
    "Next bt = andThen (moveToNext n) getCurrentItem bt" unfolding Next_def by metis
  have "height rt < fuel bt" using assms(1) by (simp add: heap_ok_def)
  with moveToNext_spec [of bt fs t n m] s heap_ok_nav [OF assms(1)]
  have "moved_right rt bt (pre @ [it]) post (moveToNext n bt)" by simp
  from moved_right_load [of rt bt _ _ "moveToNext n", OF this assms(1)] show ?thesis
    using s(7) by (cases post) (auto simp: isCurrentItemSelected_def)
qed

text \<open>
  C22. \<open>Next\<close> moves the cursor from an item to the item that follows it in order and returns
  true; on the last item it returns false and leaves the cursor unset. The tree is unchanged.
\<close>

theorem Next_in_order:
  assumes "heap_ok bt rt" and "cursor_on bt rt pre it post"
  shows "\<exists>bt'. Next bt = (Inr (post \<noteq> []), bt') \<and> heap_ok bt' rt \<and> trackerLog bt' = trackerLog bt \<and>
    (case post of [] \<Rightarrow> \<not> isCurrentItemSelected bt' | x # xs \<Rightarrow> cursor_on bt' rt (pre @ [it]) x xs)"
  using assms by (rule Next_ok)

lemma Previous_ok:
  assumes "heap_ok bt rt" and "cursor_on bt rt pre it post"
  shows "\<exists>bt'. Previous bt = (Inr (pre \<noteq> []), bt') \<and> heap_ok bt' rt \<and> trackerLog bt' = trackerLog bt \<and>
    (if pre = [] then \<not> isCurrentItemSelected bt'
     else cursor_on bt' rt (butlast pre) (last pre) (it # post))"
proof -
  from moveFromCurrent_on [OF assms, of moveToPrevious] obtain fs t m n where s:
    "rt = plugs fs t" "repo bt (tid t) = Some n" "curItemIndex bt = int m" "m < length (items t)"
    "pre = before_gap fs t m @ io (kid_at t m)" "it # post = after_gap fs t m"
    "Previous bt = andThen (moveToPrevious n) getCurrentItem bt" unfolding Previous_def by metis
  have "height rt < fuel bt" using assms(1) by (simp add: heap_ok_def)
  with moveToPrevious_spec [of bt fs t n m] s heap_ok_nav [OF assms(1)]
  have "moved_left rt bt pre (it # post) (moveToPrevious n bt)" by simp
  from moved_left_load [of rt bt _ _ "moveToPrevious n", OF this assms(1)] show ?thesis
    using s(7) by (auto simp: isCurrentItemSelected_def split: if_splits)
qed

text \<open>\<open>Previous\<close>, the mirror image: to the item before, or false and no cursor on the first item.\<close>

theorem Previous_in_order:
  assumes "heap_ok bt rt" and "cursor_on bt rt pre it post"
  shows "\<exists>bt'. Previous bt = (Inr (pre \<noteq> []), bt') \<and> heap_ok bt' rt \<and> trackerLog bt' = trackerLog bt \<and>
    (if pre = [] then \<not> isCurrentItemSelected bt'
     else cursor_on bt' rt (butlast pre) (last pre) (it # post))"
  using assms by (rule Previous_ok)

section \<open>First and Last\<close>

lemma moveToFirstLoop_spec:
  assumes "nav_ok bt (plugs fs t)" and "repo bt (tid t) = Some n" and "height t < f" and "items t \<noteq> [] \<or> kid_at t 0 \<noteq> None"
  shows "\<exists>m xs x. moveToFirstLoop f n bt = (Inr m, bt) \<and>
    cursor_at (plugs fs t) (nodeID m) 0 (lctx fs) x xs"
  using assms
proof (induction f arbitrary: fs t n)
  case 0
  then show ?case by simp
next
  case (Suc g)
  note ok = nav_ok_simps [OF Suc.prems(1)] and nr = nav_node [OF Suc.prems(1,2)]
  have here: "\<exists>x xs. cursor_at (plugs fs t) (nodeID n) 0 (lctx fs) x xs" if "kid_at t 0 = None"
  proof -
    have "before_gap fs t 0 @ io (kid_at t 0) = lctx fs"
      using that gap_first_kid(1) [OF ok(1)] by simp
    then show ?thesis
      using Suc.prems(4) that node_repr_simps(1) [OF nr] unfolding cursor_at_gap [OF ok(1)]
      by (intro exI conjI) (auto intro!: exI [of _ "0::nat"])
  qed
  show ?case
  proof (cases "kids t = []")
    case True
    then have "ChildrenIDs n = None" using node_repr_simps(9) [OF nr] by simp
    with here True show ?thesis by (auto simp: exec_simps kid_at_def)
  next
    case ks: False
    note c = children_nth_rep [OF nr ks, of 0] and gc = getChild_rep [OF Suc.prems(1,2) ks, of 0]
    have cs: "ChildrenIDs n = Some (children n)" using node_repr_simps(8) [OF nr] ks by simp
    show ?thesis
    proof (cases "kids t ! 0")
      case None
      with here c ks cs show ?thesis by (auto simp: exec_simps kid_at_def)
    next
      case (Some k)
      from gc(2) [OF _ Some] obtain m where m: "getChild n 0 bt = (Inr (Some m), bt)" "repo bt (tid k) = Some m"
        "plugs (frame_at t 0 # fs) k = plugs fs t" "tid k \<noteq> NilUUID" by auto
      have "getNode (tid k) bt = (Inr (Some m), bt)"
        using m Some c ks by (simp add: getChild_def getChildID_def exec_simps split: if_splits)
      then have step: "moveToFirstLoop (Suc g) n bt = moveToFirstLoop g m bt"
        using c Some m(4) cs by (simp add: exec_simps)
      note kf = kid_facts [OF ok(1) _ Some]
      have "\<exists>m' xs x. moveToFirstLoop g m bt = (Inr m', bt) \<and>
          cursor_at (plugs (frame_at t 0 # fs) k) (nodeID m') 0 (lctx (frame_at t 0 # fs)) x xs"
        using Suc.prems m kf c ks by (intro Suc.IH) (simp_all del: plugs.simps)
      then show ?thesis
        using step m(3) gap_first_kid(1) [OF ok(1)] by (simp add: lctx_frame_at del: plugs.simps lctx.simps)
    qed
  qed
qed

lemma moveToLastLoop_spec:
  assumes "nav_ok bt (plugs fs t)" and "repo bt (tid t) = Some n" and "height t < f" and "items t \<noteq> [] \<or> kid_at t 0 \<noteq> None"
  shows "\<exists>m xs x. moveToLastLoop f n bt = (Inr (Some m), bt) \<and> nodeID m \<noteq> NilUUID \<and>
    cursor_at (plugs fs t) (nodeID m) (int (Count m) - 1) xs x (rctx fs)"
  using assms
proof (induction f arbitrary: fs t n)
  case 0
  then show ?case by simp
next
  case (Suc g)
  note ok = nav_ok_simps [OF Suc.prems(1)] and nr = nav_node [OF Suc.prems(1,2)]
  have id: "nodeID n \<noteq> NilUUID" using tree_ok_ctx(6) [OF ok(1)] node_repr_simps(1) [OF nr] by simp
  have here: "\<exists>x xs. cursor_at (plugs fs t) (nodeID n) (int (Count n) - 1) xs x (rctx fs)"
    if nk: "kid_at t (length (items t)) = None"
  proof -
    obtain l where l: "length (items t) = Suc l" using Suc.prems(4) nk by (cases "items t") auto
    have "io (kid_at t (Suc l)) @ after_gap fs t (Suc l) = rctx fs"
      using nk gap_last_kid(1) [OF ok(1)] l by simp
    moreover have "int (Count n) - 1 = int l" using l node_repr_simps(4) [OF nr] by simp
    ultimately show ?thesis
      using l node_repr_simps(1) [OF nr] unfolding cursor_at_gap [OF ok(1)]
      by (intro exI conjI) auto
  qed
  show ?case
  proof (cases "kids t = []")
    case True
    then have "ChildrenIDs n = None" using node_repr_simps(9) [OF nr] by simp
    with here True id show ?thesis by (auto simp: exec_simps kid_at_def)
  next
    case ks: False
    note c = children_nth_rep [OF nr ks order_refl] and gc = getChild_rep [OF Suc.prems(1,2) ks order_refl]
    have cs: "ChildrenIDs n = Some (children n)" "Count n = length (items t)"
      using node_repr_simps(4,8) [OF nr] ks by simp_all
    show ?thesis
    proof (cases "kids t ! length (items t)")
      case None
      with here c ks cs id show ?thesis by (auto simp: exec_simps kid_at_def)
    next
      case (Some k)
      from gc(2) [OF Some] obtain m where m: "getChild n (length (items t)) bt = (Inr (Some m), bt)" "repo bt (tid k) = Some m"
        "plugs (frame_at t (length (items t)) # fs) k = plugs fs t" "tid k \<noteq> NilUUID" by auto
      have "getNode (tid k) bt = (Inr (Some m), bt)"
        using m Some c ks by (simp add: getChild_def getChildID_def exec_simps split: if_splits)
      then have step: "moveToLastLoop (Suc g) n bt = moveToLastLoop g m bt"
        using c Some m(4) cs by (simp add: exec_simps)
      note kf = kid_facts [OF ok(1) c(1) Some]
      have "\<exists>m' xs x. moveToLastLoop g m bt = (Inr (Some m'), bt) \<and> nodeID m' \<noteq> NilUUID \<and>
          cursor_at (plugs (frame_at t (length (items t)) # fs) k) (nodeID m') (int (Count m') - 1) xs x
            (rctx (frame_at t (length (items t)) # fs))"
        using Suc.prems m kf by (intro Suc.IH) (simp_all del: plugs.simps)
      then show ?thesis
        using step m(3) gap_last_kid(1) [OF ok(1)] c(1) by (simp add: rctx_frame_at del: plugs.simps rctx.simps)
    qed
  qed
qed

lemma getRootNode_ok:
  assumes "heap_ok bt rt" and "inorder rt \<noteq> []"
  obtains n where "getRootNode bt = (Inr n, bt)" "repo bt (tid rt) = Some n"
proof -
  note nav = heap_ok_nav [OF assms(1)]
  from nav_lookup [of bt "[]" rt] nav obtain n where n: "repo bt (tid rt) = Some n"
    "getNode (tid rt) bt = (Inr (Some n), bt)" by auto
  have "tid rt \<noteq> NilUUID" using tree_ok_ctx(6) [of "[]" rt] nav_ok_simps(1) [OF nav] by simp
  with assms n have "getRootNode bt = (Inr n, bt)"
    by (simp add: getRootNode_def exec_simps heap_ok_def Let_def)
  with n that show ?thesis by blast
qed

lemma root_nonempty: "tree_ok rt \<Longrightarrow> inorder rt \<noteq> [] \<Longrightarrow> items rt \<noteq> [] \<or> kid_at rt 0 \<noteq> None"
proof (cases rt)
  case (T i its ks)
  assume "tree_ok rt" "inorder rt \<noteq> []"
  then show ?thesis
    using T by (cases ks) (auto simp: tree_ok_def wf_tree_def kid_at_def)
qed

lemma First_ok:
  assumes "heap_ok bt rt"
  shows "\<exists>bt'. First bt = (Inr (inorder rt \<noteq> []), bt') \<and> heap_ok bt' rt \<and> trackerLog bt' = trackerLog bt \<and>
    (case inorder rt of [] \<Rightarrow> bt' = bt | x # xs \<Rightarrow> cursor_on bt' rt [] x xs)"
proof (cases "inorder rt = []")
  case True
  with assms have "First bt = (Inr False, bt)" by (simp add: First_def exec_simps heap_ok_def)
  with True assms show ?thesis by simp
next
  case False
  note nav = heap_ok_nav [OF assms]
  from getRootNode_ok [OF assms False] obtain n where n: "getRootNode bt = (Inr n, bt)" "repo bt (tid rt) = Some n" .
  have "height rt < fuel bt" using assms by (simp add: heap_ok_def)
  with moveToFirstLoop_spec [of bt "[]" rt n "fuel bt"] nav n(2) root_nonempty [OF nav_ok_simps(1) [OF nav]] False
  obtain m x xs where m: "moveToFirstLoop (fuel bt) n bt = (Inr m, bt)" "cursor_at rt (nodeID m) 0 [] x xs" by auto
  have "moveToFirst n bt = (Inr True, setCur (nodeID m) 0 bt)"
    using m(1) nav_ok_simps(4) [OF nav] by (simp add: moveToFirst_def exec_simps setCurrentItemID_ok)
  from load_cursor [of "moveToFirst n" bt, OF this nav] m(2)
  have "First bt = (Inr True, seek (nodeID m) 0 bt)"
    using assms False n(1) by (auto simp: First_def exec_simps heap_ok_def)
  moreover have "cursor_on (seek (nodeID m) 0 bt) rt [] x xs" by (rule getCurrentItem_setCur(2) [OF nav m(2)])
  moreover have "inorder rt = x # xs" using cursor_at_inorder [OF nav_ok_simps(1) [OF nav] m(2)] by simp
  ultimately show ?thesis using assms by simp
qed

text \<open>
  \<open>First\<close> puts the cursor on the first item in order and returns true, and returns false on
  an empty tree.
\<close>

theorem First_first:
  assumes "heap_ok bt rt"
  shows "\<exists>bt'. First bt = (Inr (inorder rt \<noteq> []), bt') \<and> heap_ok bt' rt \<and> trackerLog bt' = trackerLog bt \<and>
    (case inorder rt of [] \<Rightarrow> bt' = bt | x # xs \<Rightarrow> cursor_on bt' rt [] x xs)"
  using assms by (rule First_ok)

lemma Last_ok:
  assumes "heap_ok bt rt"
  shows "\<exists>bt'. Last bt = (Inr (inorder rt \<noteq> []), bt') \<and> heap_ok bt' rt \<and> trackerLog bt' = trackerLog bt \<and>
    (if inorder rt = [] then bt' = bt else cursor_on bt' rt (butlast (inorder rt)) (last (inorder rt)) [])"
proof (cases "inorder rt = []")
  case True
  with assms have "Last bt = (Inr False, bt)" by (simp add: Last_def exec_simps heap_ok_def)
  with True assms show ?thesis by simp
next
  case False
  note nav = heap_ok_nav [OF assms]
  from getRootNode_ok [OF assms False] obtain n where n: "getRootNode bt = (Inr n, bt)" "repo bt (tid rt) = Some n" .
  have "height rt < fuel bt" using assms by (simp add: heap_ok_def)
  with moveToLastLoop_spec [of bt "[]" rt n "fuel bt"] nav n(2) root_nonempty [OF nav_ok_simps(1) [OF nav]] False
  obtain m x xs where m: "moveToLastLoop (fuel bt) n bt = (Inr (Some m), bt)" "nodeID m \<noteq> NilUUID"
    "cursor_at rt (nodeID m) (int (Count m) - 1) xs x []" by auto
  have "moveToLast n bt = (Inr True, setCur (nodeID m) (int (Count m) - 1) bt)"
    using m(1,2) nav_ok_simps(4) [OF nav] by (simp add: moveToLast_def exec_simps setCurrentItemID_ok)
  from load_cursor [of "moveToLast n" bt, OF this nav] m(3)
  have "Last bt = (Inr True, seek (nodeID m) (int (Count m) - 1) bt)"
    using assms False n(1) by (auto simp: Last_def exec_simps heap_ok_def)
  moreover have "cursor_on (seek (nodeID m) (int (Count m) - 1) bt) rt xs x []"
    by (rule getCurrentItem_setCur(2) [OF nav m(3)])
  moreover have "inorder rt = xs @ [x]" using cursor_at_inorder [OF nav_ok_simps(1) [OF nav] m(3)] by simp
  ultimately show ?thesis using assms by simp
qed

text \<open>\<open>Last\<close> puts the cursor on the last item in order, and returns false on an empty tree.\<close>

theorem Last_last:
  assumes "heap_ok bt rt"
  shows "\<exists>bt'. Last bt = (Inr (inorder rt \<noteq> []), bt') \<and> heap_ok bt' rt \<and> trackerLog bt' = trackerLog bt \<and>
    (if inorder rt = [] then bt' = bt else cursor_on bt' rt (butlast (inorder rt)) (last (inorder rt)) [])"
  using assms by (rule Last_ok)

end
