(* ===== verification/Btree_Lookup.thy ===== *)
theory Btree_Lookup
  imports Btree_Find
begin

text \<open>
  \<open>Find\<close>: the descent by key in a tree whose in-order sequence is sorted, with or without
  duplicate keys.
\<close>

section \<open>Sorted item sequences\<close>

definition keys_sorted :: "('k \<Rightarrow> 'k \<Rightarrow> int) \<Rightarrow> ('k, 'v) item list \<Rightarrow> bool" where
  "keys_sorted cmp xs \<longleftrightarrow> sorted_wrt (\<lambda>a b. cmp (Key a) (Key b) \<le> 0) xs"

definition all_below :: "('k \<Rightarrow> 'k \<Rightarrow> int) \<Rightarrow> 'k \<Rightarrow> ('k, 'v) item list \<Rightarrow> bool" where
  "all_below cmp k xs \<longleftrightarrow> (\<forall>x\<in>set xs. cmp (Key x) k < 0)"

definition all_above :: "('k \<Rightarrow> 'k \<Rightarrow> int) \<Rightarrow> 'k \<Rightarrow> ('k, 'v) item list \<Rightarrow> bool" where
  "all_above cmp k xs \<longleftrightarrow> (\<forall>x\<in>set xs. cmp (Key x) k > 0)"

definition none_below :: "('k \<Rightarrow> 'k \<Rightarrow> int) \<Rightarrow> 'k \<Rightarrow> ('k, 'v) item list \<Rightarrow> bool" where
  "none_below cmp k xs \<longleftrightarrow> (\<forall>x\<in>set xs. cmp (Key x) k \<ge> 0)"

lemma keys_sorted_append:
  "keys_sorted cmp (xs @ ys) \<longleftrightarrow> keys_sorted cmp xs \<and> keys_sorted cmp ys \<and>
     (\<forall>x\<in>set xs. \<forall>y\<in>set ys. cmp (Key x) (Key y) \<le> 0)"
  by (simp add: keys_sorted_def sorted_wrt_append)

lemma keys_sorted_Cons:
  "keys_sorted cmp (x # ys) \<longleftrightarrow> keys_sorted cmp ys \<and> (\<forall>y\<in>set ys. cmp (Key x) (Key y) \<le> 0)"
  by (auto simp: keys_sorted_def)

lemma keys_sorted_Nil [simp]: "keys_sorted cmp []"
  by (simp add: keys_sorted_def)

lemma set_weave_items: "set ys \<subseteq> set (weave xss ys)"
  by (induction xss ys rule: weave.induct) auto

lemma keys_sorted_weave: "keys_sorted cmp (weave xss ys) \<Longrightarrow> keys_sorted cmp ys"
proof (induction xss ys rule: weave.induct)
  case (3 x xs y ys)
  with set_weave_items [of ys xs] show ?case by (auto simp: keys_sorted_append keys_sorted_Cons)
qed auto

lemma keys_sorted_nth:
  "keys_sorted cmp xs \<Longrightarrow> a < b \<Longrightarrow> b < length xs \<Longrightarrow> cmp (Key (xs ! a)) (Key (xs ! b)) \<le> 0"
  by (simp add: keys_sorted_def sorted_wrt_iff_nth_less)

lemma bound_simps [simp]:
  "all_below cmp k []" "all_below cmp k (x # xs) \<longleftrightarrow> cmp (Key x) k < 0 \<and> all_below cmp k xs"
  "all_below cmp k (xs @ ys) \<longleftrightarrow> all_below cmp k xs \<and> all_below cmp k ys"
  "all_above cmp k []" "all_above cmp k (x # xs) \<longleftrightarrow> cmp (Key x) k > 0 \<and> all_above cmp k xs"
  "all_above cmp k (xs @ ys) \<longleftrightarrow> all_above cmp k xs \<and> all_above cmp k ys"
  "none_below cmp k []" "none_below cmp k (x # xs) \<longleftrightarrow> cmp (Key x) k \<ge> 0 \<and> none_below cmp k xs"
  "none_below cmp k (xs @ ys) \<longleftrightarrow> none_below cmp k xs \<and> none_below cmp k ys"
  by (auto simp: all_below_def all_above_def none_below_def)

context key_order
begin

lemma sorted_below: "keys_sorted cmp (xs @ [x]) \<Longrightarrow> cmp (Key x) k < 0 \<Longrightarrow> all_below cmp k xs"
  using cmp_le_less_trans by (fastforce simp: keys_sorted_append all_below_def)

lemma sorted_none_below: "keys_sorted cmp (x # xs) \<Longrightarrow> cmp (Key x) k \<ge> 0 \<Longrightarrow> none_below cmp k xs"
  unfolding keys_sorted_Cons none_below_def
  using cmp_trans cmp_le_swap by (metis (no_types, lifting))

lemma sorted_above: "keys_sorted cmp (x # xs) \<Longrightarrow> cmp (Key x) k > 0 \<Longrightarrow> all_above cmp k xs"
  unfolding keys_sorted_Cons all_above_def
  using cmp_less_le_trans cmp_swap by (metis (no_types, lifting))

lemma ge_mono: "cmp a b \<le> 0 \<Longrightarrow> cmp a k \<ge> 0 \<Longrightarrow> cmp b k \<ge> 0"
  using cmp_trans cmp_le_swap by blast

lemma gt_mono: "cmp a b \<le> 0 \<Longrightarrow> cmp a k > 0 \<Longrightarrow> cmp b k > 0"
  using cmp_less_le_trans cmp_swap by blast

end

text \<open>The items of a node in a sorted tree, and the gap that a search in the node selects.\<close>

lemma node_items_sorted:
  assumes "tree_ok (plugs fs t)" and "keys_sorted cmp (inorder (plugs fs t))"
  shows "keys_sorted cmp (items t)"
  using assms by (cases t) (auto simp: inorder_ctx keys_sorted_append dest: keys_sorted_weave)

lemma gap_bounds:
  assumes ko: "key_order cmp" and ok: "tree_ok (plugs fs t)" and st: "keys_sorted cmp (inorder (plugs fs t))"
    and lo: "all_below cmp k (lctx fs)" and hi: "none_below cmp k (rctx fs)"
    and r: "r \<le> length (items t)" "\<forall>j<r. cmp (Key (items t ! j)) k < 0"
      "r < length (items t) \<longrightarrow> cmp (Key (items t ! r)) k \<ge> 0"
  shows "all_below cmp k (before_gap fs t r)" "none_below cmp k (after_gap fs t r)"
proof -
  note st' = st [unfolded gap_inorder [OF ok r(1)]]
  show "all_below cmp k (before_gap fs t r)"
  proof (cases r)
    case 0
    with lo gap_first_kid(1) [OF ok] show ?thesis by simp
  next
    case (Suc j)
    with r have j: "j < length (items t)" "cmp (Key (items t ! j)) k < 0" by simp_all
    define xs where "xs = before_gap fs t j @ io (kid_at t j)"
    have e: "before_gap fs t r = xs @ [items t ! j]"
      using gap_slot(2) [OF ok j(1)] Suc by (simp add: xs_def)
    have "keys_sorted cmp (xs @ [items t ! j])"
      using st' unfolding e keys_sorted_append by blast
    from key_order.sorted_below [OF ko this j(2)] j(2) show ?thesis unfolding e by simp
  qed
  show "none_below cmp k (after_gap fs t r)"
  proof (cases "r < length (items t)")
    case False
    with r(1) hi gap_last_kid(1) [OF ok] show ?thesis by simp
  next
    case True
    define xs where "xs = io (kid_at t (Suc r)) @ after_gap fs t (Suc r)"
    have e: "after_gap fs t r = items t ! r # xs"
      using gap_slot(1) [OF ok True] by (simp add: xs_def)
    have "keys_sorted cmp (items t ! r # xs)"
      using st' unfolding e keys_sorted_append by blast
    from key_order.sorted_none_below [OF ko this] r(3) True show ?thesis unfolding e by simp
  qed
qed

section \<open>The descent\<close>

text \<open>
  What the search has found with the items \<open>pre\<close> still to be searched at their right end and
  \<open>post\<close> behind them: nothing, and then \<open>post\<close> is above the key, or the first item of \<open>post\<close>.
\<close>

definition found_at :: "('k, 'v) tree \<Rightarrow> ('k \<Rightarrow> 'k \<Rightarrow> int) \<Rightarrow> 'k \<Rightarrow> ('k, 'v) item list \<Rightarrow> ('k, 'v) item list \<Rightarrow>
    uuid \<Rightarrow> nat \<Rightarrow> bool" where
  "found_at rt cmp k pre post i j \<longleftrightarrow>
     (if i = NilUUID then all_above cmp k post
      else \<exists>x xs. post = x # xs \<and> cmp (Key x) k = 0 \<and> cursor_at rt i (int j) pre x xs)"

text \<open>The end of a search: found with nothing below it, or stopped at an empty gap.\<close>

definition find_end :: "('k, 'v) btree \<Rightarrow> ('k, 'v) tree \<Rightarrow> 'k \<Rightarrow> bool \<Rightarrow> ('k, 'v) node \<Rightarrow> nat \<Rightarrow> uuid \<Rightarrow> nat \<Rightarrow> bool" where
  "find_end bt rt k first n ix i j \<longleftrightarrow>
     (if i = NilUUID
      then \<exists>fs t. rt = plugs fs t \<and> repo bt (tid t) = Some n \<and> ix \<le> length (items t) \<and> items t \<noteq> [] \<and>
             kid_at t ix = None \<and> all_below (comparer bt) k (before_gap fs t ix) \<and>
             all_above (comparer bt) k (after_gap fs t ix)
      else \<exists>pre x xs. cursor_at rt i (int j) pre x xs \<and> comparer bt (Key x) k = 0 \<and>
             (first \<longrightarrow> all_below (comparer bt) k pre))"

lemma found_step:
  assumes ko: "key_order cmp" and ok: "tree_ok (plugs fs t)" and st: "keys_sorted cmp (inorder (plugs fs t))"
    and r: "r \<le> length (items t)" "r < length (items t) \<longrightarrow> cmp (Key (items t ! r)) k \<ge> 0"
    and fo: "found_at (plugs fs t) cmp k (lctx fs @ inorder t) (rctx fs) i j"
    and hit: "hit \<longleftrightarrow> r < length (items t) \<and> cmp (Key (items t ! r)) k = 0"
  shows "found_at (plugs fs t) cmp k (before_gap fs t r @ io (kid_at t r)) (after_gap fs t r)
    (if hit then tid t else i) (if hit then r else j)"
proof (cases "r < length (items t)")
  case False
  with r(1) have "r = length (items t)" by simp
  with False hit fo gap_last_kid [OF ok] show ?thesis by simp
next
  case True
  define xs where "xs = io (kid_at t (Suc r)) @ after_gap fs t (Suc r)"
  have e: "after_gap fs t r = items t ! r # xs"
    using gap_slot(1) [OF ok True] by (simp add: xs_def)
  have sr: "keys_sorted cmp (items t ! r # xs)"
    using st unfolding gap_inorder [OF ok r(1)] e keys_sorted_append by blast
  show ?thesis
  proof (cases hit)
    case h: True
    have "tid t \<noteq> NilUUID" using tree_ok_ctx(6) [OF ok] .
    moreover have "cursor_at (plugs fs t) (tid t) (int r) (before_gap fs t r @ io (kid_at t r)) (items t ! r) xs"
      using True unfolding cursor_at_gap [OF ok] xs_def by blast
    ultimately show ?thesis using h hit e by (simp add: found_at_def)
  next
    case False
    with hit r(2) True have gt: "cmp (Key (items t ! r)) k > 0" by simp
    from key_order.sorted_above [OF ko sr gt] have ab: "all_above cmp k (after_gap fs t r)" using e gt by simp
    moreover have "i = NilUUID"
    proof (rule ccontr)
      assume "i \<noteq> NilUUID"
      with fo obtain x ys where x: "rctx fs = x # ys" "cmp (Key x) k = 0" by (auto simp: found_at_def)
      then have "x \<in> set (after_gap fs t r)" by (simp add: after_gap_def)
      with ab x(2) show False by (auto simp: all_above_def)
    qed
    ultimately show ?thesis using False by (simp add: found_at_def)
  qed
qed

lemma findLoop_spec:
  assumes "key_order (comparer bt)" and "keys_sorted (comparer bt) (inorder (plugs fs t))"
    and "nav_ok bt (plugs fs t)" and "repo bt (tid t) = Some n" and "height t < f" and "items t \<noteq> [] \<or> kid_at t 0 \<noteq> None"
    and "all_below (comparer bt) k (lctx fs)" and "none_below (comparer bt) k (rctx fs)"
    and "found_at (plugs fs t) (comparer bt) k (lctx fs @ inorder t) (rctx fs) i j"
  shows "\<exists>m ix i' j'. findLoop f k first (Some n) ix0 i j bt = (Inr (Some m, ix, i', j'), bt) \<and>
    find_end bt (plugs fs t) k first m ix i' j'"
  using assms
proof (induction f arbitrary: fs t n i j ix0)
  case 0
  then show ?case by simp
next
  case (Suc g)
  let ?c = "comparer bt"
  note ok = nav_ok_simps [OF Suc.prems(3)] and nr = nav_node [OF Suc.prems(3,4)]
  note s = node_repr_simps [OF nr]
  have si: "keys_sorted ?c (items t)" using node_items_sorted [OF ok(1) Suc.prems(2)] .
  have mono: "?c (Key (items t ! b)) k \<ge> 0" if "a \<le> b" "b < length (items t)" "?c (Key (items t ! a)) k \<ge> 0" for a b
    using that keys_sorted_nth [OF si, of a b] key_order.ge_mono [OF Suc.prems(1)] by (cases "a = b") auto
  obtain r where r: "slotSearch n (\<lambda>x. ?c x k \<ge> 0) bt = (Inr r, bt)" "r \<le> length (items t)"
    "\<forall>l<r. ?c (Key (items t ! l)) k < 0" "r < length (items t) \<longrightarrow> ?c (Key (items t ! r)) k \<ge> 0"
    using slotSearch_rep [OF nr, of "\<lambda>x. ?c x k \<ge> 0" bt] mono by (auto simp: not_le)
  define hit where "hit \<longleftrightarrow> r < length (items t) \<and> ?c (Key (items t ! r)) k = 0"
  define i1 j1 where "i1 = (if hit then tid t else i)" and "j1 = (if hit then r else j)"
  note fo = found_step [OF Suc.prems(1) ok(1) Suc.prems(2) r(2,4) Suc.prems(9) hit_def, folded i1_def j1_def]
  note gb = gap_bounds [OF Suc.prems(1) ok(1) Suc.prems(2,7,8) r(2-4)]
  have search: "(if Count n > 0
       then gbind (slotSearch n (\<lambda>x. compare bt x k \<ge> 0)) (\<lambda>index.
              if index < Count n
              then gbind (aget (Slots n) index) (\<lambda>s. ret (index, compare bt (Key s) k = 0))
              else ret (index, False))
       else ret (0, False)) bt = (Inr (r, hit), bt)"
    using r(1,2) s(3-6) by (cases "items t = []") (auto simp: exec_simps compare_def hit_def)
  have head: "findLoop (Suc g) k first (Some n) ix0 i j bt =
      (if hit \<and> \<not> first then (Inr (Some n, r, i1, j1), bt)
       else if hasChildren n
       then gbind (aget (children n) r) (\<lambda>c.
              if c = NilUUID then ret (Some n, r, i1, j1)
              else gbind (getChild n r) (\<lambda>r'. findLoop g k first r' r i1 j1)) bt
       else (Inr (Some n, r, i1, j1), bt))"
    unfolding findLoop.simps option.case gbind_reads id_apply
    by (subst gbind_step, rule search) (simp only: prod.case Let_def i1_def j1_def s(1), simp add: ret_apply)
  have stop: "find_end bt (plugs fs t) k first n r i1 j1" if "kid_at t r = None \<or> hit \<and> \<not> first"
  proof (cases "i1 = NilUUID")
    case True
    with tree_ok_ctx(6) [OF ok(1)] have "\<not> hit" by (auto simp: i1_def)
    with that have "kid_at t r = None" by simp
    moreover from this r(2) Suc.prems(6) have "items t \<noteq> []" by auto
    ultimately show ?thesis
      using True fo gb(1) r(2) Suc.prems(4) by (auto simp: find_end_def found_at_def)
  next
    case False
    with fo obtain x xs where
      "cursor_at (plugs fs t) i1 (int j1) (before_gap fs t r @ io (kid_at t r)) x xs" "?c (Key x) k = 0"
      by (auto simp: found_at_def)
    moreover have "first \<longrightarrow> all_below ?c k (before_gap fs t r @ io (kid_at t r))" using gb(1) that by auto
    ultimately show ?thesis using False unfolding find_end_def by (simp only: if_False) blast
  qed
  show ?case
  proof (cases "hit \<and> \<not> first \<or> kids t = []")
    case True
    then show ?thesis using head stop node_repr_hasChildren [OF nr] by (auto simp: kid_at_def)
  next
    case False
    then have ks: "kids t \<noteq> []" and nh: "\<not> (hit \<and> \<not> first)" by blast+
    note c = children_nth_rep [OF nr ks r(2)] and gc = getChild_rep [OF Suc.prems(3,4) ks r(2)]
    have hc: "hasChildren n" using ks by (simp add: node_repr_hasChildren [OF nr])
    show ?thesis
    proof (cases "kids t ! r")
      case None
      with head nh hc c stop show ?thesis by (simp add: exec_simps kid_at_def)
    next
      case (Some u)
      from gc(2) [OF Some] obtain m where m: "getChild n r bt = (Inr (Some m), bt)" "repo bt (tid u) = Some m"
        "plugs (frame_at t r # fs) u = plugs fs t" "tid u \<noteq> NilUUID" by blast
      note kf = kid_facts [OF ok(1) c(1) Some]
      have lr: "lctx (frame_at t r # fs) = before_gap fs t r" "rctx (frame_at t r # fs) = after_gap fs t r"
        using c(1) by (simp_all add: lctx_frame_at rctx_frame_at del: lctx.simps rctx.simps)
      have "\<exists>m' ix i' j'. findLoop g k first (Some m) r i1 j1 bt = (Inr (Some m', ix, i', j'), bt) \<and>
          find_end bt (plugs (frame_at t r # fs) u) k first m' ix i' j'"
        using Suc.prems m kf fo gb Some c(1)
        by (intro Suc.IH) (simp_all add: lr kid_at_def del: plugs.simps lctx.simps rctx.simps)
      then show ?thesis using head nh hc c m Some by (simp add: exec_simps del: plugs.simps)
    qed
  qed
qed

section \<open>Find\<close>

lemma find_end_park:
  assumes nav: "nav_ok bt rt" and st: "keys_sorted (comparer bt) (inorder rt)" and fe: "find_end bt rt k first m ix i j"
  shows "\<exists>i' j' pre x post. findPark (Some m) ix i j bt = (Inr (\<exists>x\<in>set (inorder rt). comparer bt (Key x) k = 0), setCur i' j' bt) \<and>
    cursor_at rt i' j' pre x post \<and>
    (if \<exists>x\<in>set (inorder rt). comparer bt (Key x) k = 0
     then comparer bt (Key x) k = 0 \<and> (first \<longrightarrow> all_below (comparer bt) k pre)
     else all_below (comparer bt) k pre \<and> all_above (comparer bt) k post)"
proof (cases "i = NilUUID")
  case False
  with fe obtain pre x xs where c: "cursor_at rt i (int j) pre x xs" "comparer bt (Key x) k = 0"
    "first \<longrightarrow> all_below (comparer bt) k pre" by (auto simp: find_end_def)
  have "x \<in> set (inorder rt)" using cursor_at_inorder [OF nav_ok_simps(1) [OF nav] c(1)] by simp
  with c(2) have ex: "\<exists>x\<in>set (inorder rt). comparer bt (Key x) k = 0" by blast
  have "findPark (Some m) ix i j bt = (Inr True, setCur i (int j) bt)"
    using False nav_ok_simps(4) [OF nav] by (simp add: findPark_def exec_simps setCurrentItemID_ok)
  then show ?thesis
    using ex c by (intro exI [of _ i] exI [of _ "int j"] exI [of _ pre] exI [of _ x] exI [of _ xs]) simp
next
  case True
  with fe obtain fs t where c: "rt = plugs fs t" "repo bt (tid t) = Some m" "ix \<le> length (items t)" "items t \<noteq> []"
    "kid_at t ix = None" "all_below (comparer bt) k (before_gap fs t ix)" "all_above (comparer bt) k (after_gap fs t ix)"
    by (auto simp: find_end_def)
  note nav' = nav [unfolded c(1)]
  note ok = nav_ok_simps(1) [OF nav'] and s = node_repr_simps [OF nav_node [OF nav' c(2)]]
  have io: "inorder rt = before_gap fs t ix @ after_gap fs t ix" using gap_inorder [OF ok c(3)] c(1,5) by simp
  then have nex: "\<not> (\<exists>x\<in>set (inorder rt). comparer bt (Key x) k = 0)"
    using c(6,7) by (fastforce simp: all_below_def all_above_def)
  define jx where "jx = (if ix = length (items t) then ix - 1 else ix)"
  have jx: "jx < length (items t)" "(if ix = length (items t) then int ix - 1 else int ix) = int jx"
    using c(3,4) by (auto simp: jx_def of_nat_diff Suc_le_eq)
  have "findPark (Some m) ix i j bt = (Inr False, setCur (tid t) (int jx) bt)"
    using True jx s(1,4) nav_ok_simps(4) [OF nav] unfolding findPark_def Let_def s(4) jx(2)
    by (simp add: exec_simps setCurrentItemID_ok nonNil_def s(4) jx(2))
  moreover have "cursor_at rt (tid t) (int jx) (before_gap fs t jx @ io (kid_at t jx)) (items t ! jx)
      (io (kid_at t (Suc jx)) @ after_gap fs t (Suc jx))"
    using jx(1) unfolding c(1) cursor_at_gap [OF ok] by blast
  moreover have "all_below (comparer bt) k (before_gap fs t jx @ io (kid_at t jx)) \<and>
      all_above (comparer bt) k (io (kid_at t (Suc jx)) @ after_gap fs t (Suc jx))"
  proof (cases "ix = length (items t)")
    case True
    then have sj: "Suc jx = ix" using c(4) by (simp add: jx_def)
    have "before_gap fs t ix = before_gap fs t jx @ io (kid_at t jx) @ [items t ! jx]"
      using gap_slot(2) [OF ok jx(1)] unfolding sj .
    then show ?thesis using c(5-7) unfolding sj by simp
  next
    case False
    then have "jx = ix" by (simp add: jx_def)
    then show ?thesis using c(5-7) gap_slot(1) [OF ok jx(1)] by simp
  qed
  ultimately show ?thesis
    using nex by (intro exI [of _ "tid t"] exI [of _ "int jx"] exI) auto
qed

lemma find_root:
  assumes hp: "heap_ok bt rt" and ko: "key_order (comparer bt)" and st: "keys_sorted (comparer bt) (inorder rt)"
    and ne: "inorder rt \<noteq> []" and n: "repo bt (tid rt) = Some n"
  shows "\<exists>i j pre x post. andThen (node_find n k first) getCurrentItem bt =
      (Inr (\<exists>x\<in>set (inorder rt). comparer bt (Key x) k = 0), seek i j bt) \<and>
    cursor_on (seek i j bt) rt pre x post \<and>
    (if \<exists>x\<in>set (inorder rt). comparer bt (Key x) k = 0
     then comparer bt (Key x) k = 0 \<and> (first \<longrightarrow> all_below (comparer bt) k pre)
     else all_below (comparer bt) k pre \<and> all_above (comparer bt) k post)"
proof -
  note nav = heap_ok_nav [OF hp]
  have "height rt < fuel bt" using hp by (simp add: heap_ok_def)
  then obtain m ix i j where f: "findLoop (fuel bt) k first (Some n) 0 NilUUID 0 bt = (Inr (Some m, ix, i, j), bt)"
    and fe: "find_end bt rt k first m ix i j"
    using findLoop_spec [of bt "[]" rt n "fuel bt" k NilUUID 0 first 0] nav ko st n
      root_nonempty [OF nav_ok_simps(1) [OF nav]] ne by (auto simp: found_at_def)
  from find_end_park [OF nav st fe] obtain i' j' pre x post where
    p: "findPark (Some m) ix i j bt = (Inr (\<exists>x\<in>set (inorder rt). comparer bt (Key x) k = 0), setCur i' j' bt)"
      "cursor_at rt i' j' pre x post"
      "if \<exists>x\<in>set (inorder rt). comparer bt (Key x) k = 0
       then comparer bt (Key x) k = 0 \<and> (first \<longrightarrow> all_below (comparer bt) k pre)
       else all_below (comparer bt) k pre \<and> all_above (comparer bt) k post" by blast
  have "node_find n k first bt = (Inr (\<exists>x\<in>set (inorder rt). comparer bt (Key x) k = 0), setCur i' j' bt)"
    using f p(1) by (simp add: node_find_def exec_simps)
  from load_cursor [of "node_find n k first" bt, OF this nav] p(2)
  have "andThen (node_find n k first) getCurrentItem bt =
      (Inr (\<exists>x\<in>set (inorder rt). comparer bt (Key x) k = 0), seek i' j' bt)" by blast
  with p(3) getCurrentItem_setCur(2) [OF nav p(2)] show ?thesis by blast
qed

lemma Find_ok:
  assumes hp: "heap_ok bt rt" and ko: "key_order (comparer bt)" and st: "keys_sorted (comparer bt) (inorder rt)"
    and ne: "inorder rt \<noteq> []" and cu: "cursor_ok bt rt"
  shows "\<exists>bt' pre x post. Find k first bt = (Inr (\<exists>x\<in>set (inorder rt). comparer bt (Key x) k = 0), bt') \<and>
    heap_ok bt' rt \<and> repo bt' = repo bt \<and> trackerLog bt' = trackerLog bt \<and> cursor_on bt' rt pre x post \<and>
    (if \<exists>x\<in>set (inorder rt). comparer bt (Key x) k = 0
     then comparer bt (Key x) k = 0 \<and> (first \<longrightarrow> all_below (comparer bt) k pre)
     else all_below (comparer bt) k pre \<and> all_above (comparer bt) k post)"
proof -
  note nav = heap_ok_nav [OF hp]
  have cnt: "si_Count (StoreInfo bt) \<noteq> 0" using hp ne by (simp add: heap_ok_def)
  have walk: "\<exists>i j pre x post. gbind getRootNode (\<lambda>n. andThen (node_find n k first) getCurrentItem) b =
      (Inr (\<exists>x\<in>set (inorder rt). comparer bt (Key x) k = 0), seek i j bt) \<and>
      cursor_on (seek i j bt) rt pre x post \<and>
      (if \<exists>x\<in>set (inorder rt). comparer bt (Key x) k = 0
       then comparer bt (Key x) k = 0 \<and> (first \<longrightarrow> all_below (comparer bt) k pre)
       else all_below (comparer bt) k pre \<and> all_above (comparer bt) k post)"
    if b: "b = bt \<or> b = seek (curNodeID bt) (curItemIndex bt) bt" for b
  proof -
    have hb: "heap_ok b rt" "comparer b = comparer bt" using b hp by auto
    from getRootNode_ok [OF hb(1) ne] obtain n where n: "getRootNode b = (Inr n, b)" "repo b (tid rt) = Some n" .
    have sk: "seek i j b = seek i j bt" for i j using b by (auto simp: seek_def)
    show ?thesis
      using find_root [OF hb(1) _ _ ne n(2), of k first] ko st n(1) unfolding hb(2) sk by (simp add: exec_simps)
  qed
  have end_state: ?thesis
    if "Find k first bt = r" and "\<exists>i j pre x post. r = (Inr (\<exists>x\<in>set (inorder rt). comparer bt (Key x) k = 0), seek i j bt) \<and>
      cursor_on (seek i j bt) rt pre x post \<and>
      (if \<exists>x\<in>set (inorder rt). comparer bt (Key x) k = 0
       then comparer bt (Key x) k = 0 \<and> (first \<longrightarrow> all_below (comparer bt) k pre)
       else all_below (comparer bt) k pre \<and> all_above (comparer bt) k post)" for r
  proof -
    from that(2) obtain i j pre x post where r: "r = (Inr (\<exists>x\<in>set (inorder rt). comparer bt (Key x) k = 0), seek i j bt)"
      "cursor_on (seek i j bt) rt pre x post"
      "if \<exists>x\<in>set (inorder rt). comparer bt (Key x) k = 0
       then comparer bt (Key x) k = 0 \<and> (first \<longrightarrow> all_below (comparer bt) k pre)
       else all_below (comparer bt) k pre \<and> all_above (comparer bt) k post" by blast
    show ?thesis
      using r hp that(1) by (intro exI [of _ "seek i j bt"] exI [of _ pre] exI [of _ x] exI [of _ post] conjI) simp_all
  qed
  show ?thesis
  proof (cases "isCurrentItemSelected bt")
    case False
    then have "Find k first bt = gbind getRootNode (\<lambda>n. andThen (node_find n k first) getCurrentItem) bt"
      using cnt by (simp add: Find_def exec_simps)
    from end_state [OF this walk [of bt]] show ?thesis by simp
  next
    case True
    with cu obtain pre x post where c: "cursor_on bt rt pre x post" by (auto simp: cursor_ok_def)
    let ?b = "seek (curNodeID bt) (curItemIndex bt) bt"
    note l = getCurrentItem_load [OF nav c]
    have nv: "nav_ok ?b rt" and cb: "cursor_on ?b rt pre x post"
      using nav c l(3) by (auto simp: cursor_on_def isCurrentItemSelected_def)
    have d: "derefItem (SlotPtr (curNodeID bt) (curItemIndex bt)) ?b = (Inr x, ?b)"
      using getCurrentItem_load(2) [OF nv cb] by simp
    show ?thesis
    proof (cases "\<not> first \<and> comparer bt (Key x) k = 0")
      case True
      then have "Find k first bt = (Inr True, ?b)"
        using cnt l d by (simp add: Find_def exec_simps compare_def)
      moreover have "\<exists>x\<in>set (inorder rt). comparer bt (Key x) k = 0"
        using True cursor_at_inorder [OF nav_ok_simps(1) [OF nav]] c by (auto simp: cursor_on_def)
      ultimately show ?thesis using True cb hp by (intro exI [of _ ?b] exI [of _ pre] exI [of _ x] exI [of _ post]) simp
    next
      case False
      with l d have "(if isCurrentItemSelected bt
           then gbind getCurrentItem (\<lambda>p. if \<not> first
                  then gbind (derefItem p) (\<lambda>ci. ret (compare bt (Key ci) k = 0)) else ret False)
           else ret False) bt = (Inr False, ?b)"
        by (cases first) (simp_all add: exec_simps compare_def)
      then have "Find k first bt = gbind getRootNode (\<lambda>n. andThen (node_find n k first) getCurrentItem) ?b"
        using cnt by (simp add: Find_def gbind_step reads_apply)
      from end_state [OF this walk [of ?b]] show ?thesis by simp
    qed
  qed
qed

text \<open>
  C6. \<open>Find\<close> on a sorted tree with a valid cursor returns true exactly when an item has the key.
  The cursor is then on such an item, on the first of them when \<open>firstItemWithKey\<close> is set; when
  there is none, the cursor is on a neighbour of the place where the key would be. The tree
  and the action log are unchanged.
\<close>

theorem Find_correct:
  assumes hp: "heap_ok bt rt" and ko: "key_order (comparer bt)" and st: "keys_sorted (comparer bt) (inorder rt)"
    and ne: "inorder rt \<noteq> []" and cu: "cursor_ok bt rt"
  shows "\<exists>bt' pre x post. Find k first bt = (Inr (\<exists>x\<in>set (inorder rt). comparer bt (Key x) k = 0), bt') \<and>
    heap_ok bt' rt \<and> repo bt' = repo bt \<and> trackerLog bt' = trackerLog bt \<and> cursor_on bt' rt pre x post \<and>
    (if \<exists>x\<in>set (inorder rt). comparer bt (Key x) k = 0
     then comparer bt (Key x) k = 0 \<and> (first \<longrightarrow> all_below (comparer bt) k pre)
     else all_below (comparer bt) k pre \<and> all_above (comparer bt) k post)"
  using assms by (rule Find_ok)

end
