(* ===== verification/Btree_Promote.thy ===== *)
theory Btree_Promote
  imports Btree_Lookup
begin

text \<open>
  Splitting nodes and promoting separators: the array operations, new nodes, re-parenting of
  children, and the promote loop, which turns a pending split into a well-formed tree with the
  separator in place.
\<close>

section \<open>Array operations\<close>

lemma shift_insert:
  assumes "pos \<le> occ" and "occ < length xs"
  shows "(shiftSlots xs pos occ)[pos := x] = take pos xs @ x # drop pos (take occ xs) @ drop (Suc occ) xs"
proof (cases "pos < occ")
  case False
  with assms have "pos = occ" by simp
  with assms show ?thesis by (simp add: shiftSlots_def upd_conv_take_nth_drop)
next
  case True
  define ys where "ys = take (occ - pos) (drop pos xs)"
  have ly: "length ys = occ - pos" using assms True by (simp add: ys_def)
  have "shiftSlots xs pos occ = take (Suc pos) xs @ ys @ drop (Suc occ) xs"
  proof -
    have "min (pos + (occ - pos)) (length xs) - pos = occ - pos" using assms True by simp
    moreover have "go_copy (drop (Suc pos) xs) ys = ys @ drop (Suc occ) xs"
      using assms True ly by (simp add: go_copy_def)
    ultimately show ?thesis
      using assms True by (simp add: shiftSlots_def moveArrayElements_def Let_def go_copy_at_def ys_def)
  qed
  moreover have "(take (Suc pos) xs @ ys @ drop (Suc occ) xs)[pos := x] = take pos xs @ x # ys @ drop (Suc occ) xs"
  proof -
    have "take (Suc pos) xs = take pos xs @ [xs ! pos]" "length (take pos xs) = pos"
      using assms True by (simp_all add: take_Suc_conv_app_nth)
    then show ?thesis
      using list_update_length [of "take pos xs" "xs ! pos" "ys @ drop (Suc occ) xs" x] by simp
  qed
  moreover have "ys = drop pos (take occ xs)" by (simp add: ys_def drop_take)
  ultimately show ?thesis by simp
qed

lemma aset_shift:
  assumes "pos \<le> occ" and "occ < length xs"
  shows "aset (shiftSlots xs pos occ) pos x s = (Inr (take pos xs @ x # drop pos (take occ xs) @ drop (Suc occ) xs), s)"
proof -
  have "length (shiftSlots xs pos occ) = length xs"
    by (simp add: shiftSlots_def moveArrayElements_def Let_def)
  then show ?thesis using assms by (simp add: exec_simps shift_insert)
qed

lemma copyArrayElements_ok:
  "c \<le> length d \<Longrightarrow> c \<le> length xs \<Longrightarrow> copyArrayElements d xs c s = (Inr (take c xs @ drop c d), s)"
  by (auto simp: copyArrayElements_def exec_simps)

section \<open>New nodes\<close>

text \<open>The next \<open>k\<close> UUIDs that will be drawn are new: distinct, not nil and not in the repository.\<close>

definition fresh :: "('k, 'v) btree \<Rightarrow> nat \<Rightarrow> bool" where
  "fresh bt k \<longleftrightarrow> inj_on (uuidGen bt) {uuidNext bt..<uuidNext bt + k} \<and>
     (\<forall>m\<in>{uuidNext bt..<uuidNext bt + k}. uuidGen bt m \<noteq> NilUUID \<and> uuidGen bt m \<notin> dom (repo bt))"

lemma fresh_use:
  assumes "fresh bt (m + k)" and "uuidGen bt' = uuidGen bt" and "uuidNext bt' = uuidNext bt + m"
    and "dom (repo bt') \<subseteq> dom (repo bt) \<union> uuidGen bt ` {uuidNext bt..<uuidNext bt + m}"
  shows "fresh bt' k"
proof -
  let ?g = "uuidGen bt" and ?n = "uuidNext bt"
  have inj: "inj_on ?g {?n..<?n + (m + k)}" using assms(1) by (simp add: fresh_def)
  have "inj_on ?g {?n + m..<?n + m + k}" using inj by (rule inj_on_subset) auto
  moreover have "?g l \<noteq> NilUUID \<and> ?g l \<notin> dom (repo bt')" if l: "l \<in> {?n + m..<?n + m + k}" for l
  proof -
    have in1: "l \<in> {?n..<?n + (m + k)}" using l by simp
    have "?g l \<notin> ?g ` {?n..<?n + m}"
    proof
      assume "?g l \<in> ?g ` {?n..<?n + m}"
      then obtain q where q: "q \<in> {?n..<?n + m}" "?g q = ?g l" by auto
      then have "q = l" using inj_onD [OF inj, of q l] in1 by simp
      with q l show False by simp
    qed
    moreover have "?g l \<noteq> NilUUID" "?g l \<notin> dom (repo bt)" using assms(1) in1 by (auto simp: fresh_def)
    ultimately show ?thesis using assms(4) by blast
  qed
  ultimately show ?thesis using assms(2,3) by (simp add: fresh_def)
qed

lemma fresh_next:
  assumes "fresh bt (Suc k)"
  shows "uuidGen bt (uuidNext bt) \<noteq> NilUUID" "repo bt (uuidGen bt (uuidNext bt)) = None"
  using assms by (auto simp: fresh_def)

lemma fresh_next2:
  assumes "fresh bt (Suc (Suc k))"
  shows "uuidGen bt (uuidNext bt) \<noteq> uuidGen bt (Suc (uuidNext bt))"
    "uuidGen bt (Suc (uuidNext bt)) \<noteq> NilUUID" "repo bt (uuidGen bt (Suc (uuidNext bt))) = None"
proof -
  have inj: "inj_on (uuidGen bt) {uuidNext bt..<uuidNext bt + Suc (Suc k)}" using assms by (simp add: fresh_def)
  show "uuidGen bt (uuidNext bt) \<noteq> uuidGen bt (Suc (uuidNext bt))"
    using inj_onD [OF inj, of "uuidNext bt" "Suc (uuidNext bt)"] by auto
  show "uuidGen bt (Suc (uuidNext bt)) \<noteq> NilUUID" "repo bt (uuidGen bt (Suc (uuidNext bt))) = None"
    using assms by (auto simp: fresh_def)
qed

lemma fresh_Suc: "fresh bt (Suc k) \<Longrightarrow> fresh (bt\<lparr>uuidNext := Suc (uuidNext bt)\<rparr>) k"
  by (rule fresh_use [of bt 1]) auto

lemma fresh_mono: "fresh bt k \<Longrightarrow> l \<le> k \<Longrightarrow> fresh bt l"
  by (auto simp: fresh_def intro: inj_on_subset)

lemma newUUID_ok: "newUUID bt = (Inr (uuidGen bt (uuidNext bt)), bt\<lparr>uuidNext := Suc (uuidNext bt)\<rparr>)"
  by (simp add: newUUID_def exec_simps)

definition emptyNode :: "('k, 'v) btree \<Rightarrow> uuid \<Rightarrow> uuid \<Rightarrow> ('k, 'v) node" where
  "emptyNode bt u p = (newNode (zeroKey bt) (getSlotLength bt))\<lparr>nodeID := u, ParentID := p\<rparr>"

lemma emptyNode_simps [simp]:
  "nodeID (emptyNode bt u p) = u" "ParentID (emptyNode bt u p) = p" "Count (emptyNode bt u p) = 0"
  "Slots (emptyNode bt u p) = replicate (getSlotLength bt) (zeroItem (zeroKey bt))"
  "ChildrenIDs (emptyNode bt u p) = None" "indexOfNode (emptyNode bt u p) = -1"
  by (simp_all add: emptyNode_def newNode_def)

lemma createNode_ok: "createNode p bt = (Inr (emptyNode bt (uuidGen bt (uuidNext bt)) p), bt\<lparr>uuidNext := Suc (uuidNext bt)\<rparr>)"
  by (simp add: createNode_def newID_def exec_simps newUUID_ok emptyNode_def)

section \<open>Re-parenting\<close>

abbreviation kid_ids :: "('k, 'v) tree option list \<Rightarrow> uuid set" where
  "kid_ids ks \<equiv> {tid t | t. Some t \<in> set ks}"

lemma getChildrenFrom_ok:
  assumes "\<forall>t. Some t \<in> set ks \<longrightarrow> tid t \<noteq> NilUUID \<and> (\<exists>p. rep (getSlotLength bt) (repo bt) p t)"
    and "repoFail bt = (\<lambda>_. None)"
  shows "getChildrenFrom (map kid_id ks @ replicate m NilUUID) bt =
    (Inr (map (\<lambda>k. Option.bind k (\<lambda>t. repo bt (tid t))) ks @ replicate m None), bt)"
  using assms(1)
proof (induction ks)
  case Nil
  show ?case by (induction m) (simp_all add: exec_simps)
next
  case (Cons k ks)
  then have IH: "getChildrenFrom (map kid_id ks @ replicate m NilUUID) bt =
    (Inr (map (\<lambda>k. Option.bind k (\<lambda>t. repo bt (tid t))) ks @ replicate m None), bt)" by simp
  show ?case
  proof (cases k)
    case None
    with IH show ?thesis by (simp add: exec_simps)
  next
    case (Some t)
    with Cons.prems obtain p where "tid t \<noteq> NilUUID" "rep (getSlotLength bt) (repo bt) p t" by auto
    moreover obtain n where "repo bt (tid t) = Some n" "getNode (tid t) bt = (Inr (Some n), bt)"
      using getNode_tree [OF assms(2) \<open>rep _ _ p t\<close>] by blast
    ultimately show ?thesis using IH Some by (simp add: exec_simps)
  qed
qed

lemma setParents_nones: "setParents pid (xs @ replicate m None) = setParents pid xs"
proof (induction pid xs rule: setParents.induct)
  case (1 pid)
  show ?case by (induction m) simp_all
qed simp_all

lemma setParents_ok:
  assumes "\<forall>t. Some t \<in> set ks \<longrightarrow> (\<exists>p. rep L (repo bt) p t)" and "distinct (concat (map ids_opt ks))"
    and "NilUUID \<notin> set (concat (map ids_opt ks))"
  shows "\<exists>h. setParents pid (map (\<lambda>k. Option.bind k (\<lambda>t. repo bt (tid t))) ks) bt = (Inr (), bt\<lparr>repo := h\<rparr>) \<and>
    (\<forall>t. Some t \<in> set ks \<longrightarrow> rep L h pid t) \<and> (\<forall>j. j \<notin> kid_ids ks \<longrightarrow> h j = repo bt j) \<and> dom h = dom (repo bt)"
  using assms
proof (induction ks arbitrary: bt)
  case Nil
  then show ?case by (auto simp: exec_simps intro!: exI [of _ "repo bt"])
next
  case (Cons k ks)
  show ?case
  proof (cases k)
    case None
    with Cons show ?thesis by simp
  next
    case (Some t)
    obtain p where rt: "rep L (repo bt) p t" using Cons.prems(1) Some by auto
    obtain n where n: "repo bt (tid t) = Some n" "nodeID n = tid t"
      using rep_root [OF rt] by (auto simp: node_repr_def)
    let ?b = "bt\<lparr>repo := (repo bt)(tid t \<mapsto> n\<lparr>ParentID := pid\<rparr>)\<rparr>"
    have dt: "distinct (ids t)" "NilUUID \<noteq> tid t" using Cons.prems(2,3) Some nil_tid [of t] by auto
    have out: "set (ids t) \<inter> set (ids u) = {}" if "Some u \<in> set ks" for u
      using that Cons.prems(2) Some by force
    have nt: "tid t \<notin> set (ids u)" "tid u \<noteq> tid t" if "Some u \<in> set ks" for u
      using out [OF that] tid_in_ids [of t] tid_in_ids [of u] by (blast, metis disjoint_iff)
    have dk: "distinct (concat (map ids_opt ks))" "NilUUID \<notin> set (concat (map ids_opt ks))"
      using Cons.prems(2,3) by simp_all
    have ru: "\<forall>u. Some u \<in> set ks \<longrightarrow> (\<exists>p. rep L (repo ?b) p u)"
      using Cons.prems(1) nt by fastforce
    have eq: "map (\<lambda>k. Option.bind k (\<lambda>u. repo ?b (tid u))) ks = map (\<lambda>k. Option.bind k (\<lambda>u. repo bt (tid u))) ks"
    proof (rule map_cong [OF refl])
      fix l assume l: "l \<in> set ks"
      show "Option.bind l (\<lambda>u. repo ?b (tid u)) = Option.bind l (\<lambda>u. repo bt (tid u))"
      proof (cases l)
        case (Some u)
        with l nt(2) show ?thesis by simp
      qed simp
    qed
    obtain h where h: "setParents pid (map (\<lambda>k. Option.bind k (\<lambda>u. repo ?b (tid u))) ks) ?b = (Inr (), ?b\<lparr>repo := h\<rparr>)"
      "\<forall>u. Some u \<in> set ks \<longrightarrow> rep L h pid u" "\<forall>j. j \<notin> kid_ids ks \<longrightarrow> h j = repo ?b j" "dom h = dom (repo ?b)"
      using Cons.IH [OF ru dk] by blast
    have "setParents pid (map (\<lambda>k. Option.bind k (\<lambda>u. repo bt (tid u))) (k # ks)) bt = (Inr (), bt\<lparr>repo := h\<rparr>)"
      using Some n dt(2) h(1) [unfolded eq] by (simp add: exec_simps saveNode_ok)
    moreover have "rep L h pid t"
    proof -
      have "rep L (repo ?b) pid t" using rep_reparent [OF rt n(1) dt(1)] by simp
      moreover have "h j = repo ?b j" if j: "j \<in> set (ids t)" for j
      proof -
        have "j \<noteq> tid u" if "Some u \<in> set ks" for u
          using out [OF that] j tid_in_ids [of u] by (metis disjoint_iff)
        then have "j \<notin> kid_ids ks" by blast
        with h(3) show ?thesis by blast
      qed
      ultimately show ?thesis using rep_frame [of t h "repo ?b" L pid] by blast
    qed
    moreover have "dom h = dom (repo bt)" using h(4) n(1) by auto
    moreover have "\<forall>j. j \<notin> kid_ids (k # ks) \<longrightarrow> h j = repo bt j"
    proof (intro allI impI)
      fix j assume j: "j \<notin> kid_ids (k # ks)"
      then have "j \<notin> kid_ids ks" "j \<noteq> tid t" using Some by auto
      with h(3) show "h j = repo bt j" by simp
    qed
    ultimately show ?thesis using h(2) Some by (intro exI [of _ h]) auto
  qed
qed

lemma updateChildrenParent_ok:
  assumes c: "children n = map kid_id ks @ replicate m NilUUID"
    and ks: "\<forall>t. Some t \<in> set ks \<longrightarrow> (\<exists>p. rep (getSlotLength bt) (repo bt) p t)"
    and d: "distinct (concat (map ids_opt ks))" "NilUUID \<notin> set (concat (map ids_opt ks))"
    and f: "repoFail bt = (\<lambda>_. None)"
  shows "\<exists>h. updateChildrenParent n bt = (Inr (), bt\<lparr>repo := h\<rparr>) \<and>
    (\<forall>t. Some t \<in> set ks \<longrightarrow> rep (getSlotLength bt) h (nodeID n) t) \<and>
    (\<forall>j. j \<notin> kid_ids ks \<longrightarrow> h j = repo bt j) \<and> dom h = dom (repo bt)"
proof -
  have "\<forall>t. Some t \<in> set ks \<longrightarrow> tid t \<noteq> NilUUID"
  proof (intro allI impI)
    fix t assume "Some t \<in> set ks"
    then show "tid t \<noteq> NilUUID" using d(2) by (intro nil_tid) force
  qed
  with ks have g: "getChildren n bt = (Inr (map (\<lambda>k. Option.bind k (\<lambda>t. repo bt (tid t))) ks @ replicate m None), bt)"
    unfolding getChildren_def c using f by (intro getChildrenFrom_ok) auto
  show ?thesis
  proof (cases "hasChildren n")
    case True
    with g have "updateChildrenParent n bt = setParents (nodeID n) (map (\<lambda>k. Option.bind k (\<lambda>t. repo bt (tid t))) ks) bt"
      by (simp add: updateChildrenParent_def exec_simps setParents_nones)
    with setParents_ok [OF ks d, of "nodeID n"] show ?thesis by simp
  next
    case False
    then have "ks = []" using c by (simp add: hasChildren_def)
    with False show ?thesis by (auto simp: updateChildrenParent_def exec_simps intro!: exI [of _ "repo bt"])
  qed
qed

end
