(* ===== verification/Btree_Grow.thy ===== *)
theory Btree_Grow
  imports Btree_Promote
begin

text \<open>
  The promote loop: from a pending split to a well-formed tree with the separator in place.
\<close>

section \<open>States during an insertion\<close>

text \<open>The scratch arrays have the sizes that \<open>btree.New\<close> gives them, for an even slot length.\<close>

definition shape_ok :: "('k, 'v) btree \<Rightarrow> bool" where
  "shape_ok bt \<longleftrightarrow> even (getSlotLength bt) \<and> 2 \<le> getSlotLength bt \<and>
     length (tempSlots bt) = Suc (getSlotLength bt) \<and> length (tempChildren bt) = Suc (Suc (getSlotLength bt)) \<and>
     length (tempParentChildren bt) = 2"

text \<open>What an insertion leaves alone: all but the repository and the scratch fields.\<close>

definition same_store :: "('k, 'v) btree \<Rightarrow> ('k, 'v) btree \<Rightarrow> bool" where
  "same_store bt bt' \<longleftrightarrow> bt' = bt\<lparr>repo := repo bt', uuidNext := uuidNext bt', tempSlots := tempSlots bt',
     tempChildren := tempChildren bt', tempParent := tempParent bt', tempParentChildren := tempParentChildren bt',
     paTarget := paTarget bt', paIndex := paIndex bt'\<rparr>"

lemma same_store_refl [simp]: "same_store bt bt"
  by (simp add: same_store_def)

lemma same_store_trans: "same_store a b \<Longrightarrow> same_store b c \<Longrightarrow> same_store a c"
  by (cases a; cases b; cases c) (simp add: same_store_def)

lemma same_store_simps:
  assumes "same_store bt bt'"
  shows "StoreInfo bt' = StoreInfo bt" "repoFail bt' = repoFail bt" "fuel bt' = fuel bt" "comparer bt' = comparer bt"
    "uuidGen bt' = uuidGen bt" "zeroKey bt' = zeroKey bt" "trackerLog bt' = trackerLog bt" "tracker bt' = tracker bt"
    "curNodeID bt' = curNodeID bt" "curItemIndex bt' = curItemIndex bt" "currentItem bt' = currentItem bt"
    "daSource bt' = daSource bt" "getSlotLength bt' = getSlotLength bt"
proof -
  note e = assms [unfolded same_store_def]
  show "StoreInfo bt' = StoreInfo bt" "repoFail bt' = repoFail bt" "fuel bt' = fuel bt" "comparer bt' = comparer bt"
    "uuidGen bt' = uuidGen bt" "zeroKey bt' = zeroKey bt" "trackerLog bt' = trackerLog bt" "tracker bt' = tracker bt"
    "curNodeID bt' = curNodeID bt" "curItemIndex bt' = curItemIndex bt" "currentItem bt' = currentItem bt"
    "daSource bt' = daSource bt" "getSlotLength bt' = getSlotLength bt"
    by (subst e, simp add: getSlotLength_def)+
qed

text \<open>
  A pending promotion: the node in the hole of the context was split into \<open>t1\<close> and \<open>t2\<close>; the
  separator \<open>m\<close> and the two IDs wait in the scratch fields, with the parent as the target.
\<close>

definition pending :: "('k, 'v) btree \<Rightarrow> ('k, 'v) frame list \<Rightarrow> ('k, 'v) tree \<Rightarrow> ('k, 'v) item \<Rightarrow> ('k, 'v) tree \<Rightarrow> bool" where
  "pending bt fs t1 m t2 \<longleftrightarrow> fs \<noteq> [] \<and> repf (getSlotLength bt) (repo bt) (tid t1) fs \<and>
     rep (getSlotLength bt) (repo bt) (parent_of fs) t1 \<and> rep (getSlotLength bt) (repo bt) (parent_of fs) t2 \<and>
     wf_ctx fs \<and> wfn t1 \<and> wfn t2 \<and> distinct (cids fs @ ids t1 @ ids t2) \<and>
     NilUUID \<notin> set (cids fs @ ids t1 @ ids t2) \<and>
     tempParent bt = m \<and> tempParentChildren bt = [tid t1, tid t2] \<and>
     paTarget bt = Some (parent_of fs) \<and> paIndex bt = int (length (fleft (hd fs)))"

section \<open>Room in the parent\<close>

lemma take_insert_at:
  assumes "take occ xs = its" and "length its = occ" and "pos \<le> occ"
  shows "take (Suc occ) (take pos xs @ m # drop pos (take occ xs) @ ys) = take pos its @ m # drop pos its"
proof -
  have "take pos xs = take pos its" using assms by (metis min.absorb1 take_take)
  then show ?thesis using assms by (simp add: min_def Suc_diff_le)
qed

lemma promoteInsert_ok:
  assumes n: "node_repr L n p i its (map kid_id (kl @ Some t1 # kr))" and lt: "length its < L"
    and t: "tempParent bt = m" "tempParentChildren bt = [tid t1, tid t2]" and i: "i \<noteq> NilUUID"
  shows "\<exists>n'. promoteInsert n (length kl) bt = (Inr (), bt\<lparr>repo := (repo bt)(i \<mapsto> n')\<rparr>) \<and>
    node_repr L n' p i (take (length kl) its @ m # drop (length kl) its) (map kid_id (kl @ Some t1 # Some t2 # kr))"
proof -
  note s = node_repr_simps [OF n]
  have len: "length kl + length kr = length its" using s(10) by simp
  define nils where "nils = replicate (L - length its) NilUUID"
  have cs: "children n = map kid_id kl @ tid t1 # map kid_id kr @ nils"
    using node_repr_children [OF n] by (simp add: nils_def)
  define S where "S = take (length kl) (Slots n) @ m # drop (length kl) (take (length its) (Slots n)) @ drop (Suc (length its)) (Slots n)"
  have sl: "aset (shiftSlots (Slots n) (length kl) (Count n)) (length kl) m bt = (Inr S, bt)"
    using s(3,4) lt len by (subst aset_shift) (simp_all add: S_def)
  define cs1 where "cs1 = map kid_id kl @ tid t1 # map kid_id kr @ nils"
  have c1: "aset (children n) (length kl) (tid t1) bt = (Inr cs1, bt)"
    unfolding cs using list_update_length [of "map kid_id kl" "tid t1"] by (simp add: exec_simps cs1_def)
  have lcs: "length cs1 = Suc L" using len lt by (simp add: cs1_def nils_def)
  define cs2 where "cs2 = map kid_id kl @ tid t1 # tid t2 # map kid_id kr @ replicate (L - Suc (length its)) NilUUID"
  have "take (Suc (length kl)) cs1 @ tid t2 # drop (Suc (length kl)) (take (Suc (length its)) cs1) @ drop (Suc (Suc (length its))) cs1 = cs2"
    using lt by (simp add: cs1_def cs2_def nils_def drop_Cons' Suc_diff_le flip: len)
  then have c2: "aset (shiftSlots cs1 (length kl + 1) (Count n + 1)) (length kl + 1) (tid t2) bt = (Inr cs2, bt)"
    using len lt lcs s(4) by (subst aset_shift) simp_all
  have "promoteInsert n (length kl) bt = (Inr (), bt\<lparr>repo := (repo bt)(i \<mapsto> n\<lparr>Slots := S, Count := Suc (length its), ChildrenIDs := Some cs2\<rparr>)\<rparr>)"
    using len s(1,4) t i sl c1 c2 by (simp add: promoteInsert_def exec_simps Let_def saveNode_ok)
  moreover have "node_repr L (n\<lparr>Slots := S, Count := Suc (length its), ChildrenIDs := Some cs2\<rparr>) p i
      (take (length kl) its @ m # drop (length kl) its) (map kid_id (kl @ Some t1 # Some t2 # kr))"
  proof -
    have "take (Suc (length its)) S = take (length kl) its @ m # drop (length kl) its"
      unfolding S_def using n len by (intro take_insert_at) (auto simp: node_repr_def)
    moreover have "length S = L" using s(3) lt len by (simp add: S_def)
    ultimately show ?thesis using n lt len by (simp add: node_repr_def cs2_def)
  qed
  ultimately show ?thesis by blast
qed

section \<open>A full parent\<close>

text \<open>The items and children of the overfull node, before it is split.\<close>

lemma promoteTemps_ok:
  assumes n: "node_repr L n p i its (map kid_id (kl @ Some t1 # kr))" and full: "length its = L"
    and L: "L = getSlotLength bt" and sh: "shape_ok bt"
    and t: "tempParent bt = m" "tempParentChildren bt = [tid t1, tid t2]"
  shows "promoteTemps n (length kl) bt = (Inr (), bt\<lparr>
    tempSlots := take (length kl) its @ m # drop (length kl) its,
    tempChildren := map kid_id (kl @ Some t1 # Some t2 # kr)\<rparr>)"
proof -
  note s = node_repr_simps [OF n]
  have len: "length kl + length kr = length its" using s(10) by simp
  have S: "Slots n = its" using n full by (auto simp: node_repr_def)
  have cs: "ChildrenIDs n = Some (map kid_id kl @ tid t1 # map kid_id kr)"
    using n full by (simp add: node_repr_def)
  have lt: "length (tempSlots bt) = Suc L" "length (tempChildren bt) = Suc (Suc L)"
    using sh L by (simp_all add: shape_ok_def)
  define ts0 where "ts0 = its @ drop L (tempSlots bt)"
  have c0: "copyArrayElements (tempSlots bt) (Slots n) (getSlotLength bt) bt = (Inr ts0, bt)"
    using lt full by (simp add: copyArrayElements_ok S ts0_def flip: L)
  have c1: "aset (shiftSlots ts0 (length kl) (getSlotLength bt)) (length kl) m bt =
      (Inr (take (length kl) its @ m # drop (length kl) its), bt)"
    using lt full len by (subst aset_shift) (simp_all add: ts0_def flip: L)
  define tc0 where "tc0 = map kid_id kl @ tid t1 # map kid_id kr @ drop (Suc L) (tempChildren bt)"
  have ltc: "length tc0 = Suc (Suc L)" using lt full len by (simp add: tc0_def)
  have d0: "copyArrayElements (tempChildren bt) (map kid_id kl @ tid t1 # map kid_id kr) (Suc (getSlotLength bt)) bt = (Inr tc0, bt)"
    using lt full len by (simp add: copyArrayElements_ok tc0_def flip: L)
  have d1: "aset tc0 (length kl) (tid t1) bt = (Inr tc0, bt)"
    using list_update_length [of "map kid_id kl" "tid t1"] by (simp add: exec_simps tc0_def)
  have "take (Suc (length kl)) tc0 @ tid t2 # drop (Suc (length kl)) (take (Suc L) tc0) @ drop (Suc (Suc L)) tc0 =
      map kid_id (kl @ Some t1 # Some t2 # kr)"
    using lt by (simp add: tc0_def drop_Cons' Suc_diff_le flip: full len)
  then have d2: "aset (shiftSlots tc0 (length kl + 1) (Count n + 1)) (length kl + 1) (tid t2) bt =
      (Inr (map kid_id (kl @ Some t1 # Some t2 # kr)), bt)"
    using len ltc s(4) full by (subst aset_shift) simp_all
  show ?thesis
    using c0 c1 d0 d1 d2 t by (simp add: promoteTemps_def exec_simps cs)
qed

lemma splitSlots_ok:
  assumes "length xs = Suc (2 * h)" and "length (Slots l) = 2 * h" and "length (Slots r) = 2 * h"
  shows "splitSlots xs h l r bt = (Inr (l\<lparr>Slots := take h xs @ drop h (Slots l), Count := h\<rparr>,
    r\<lparr>Slots := drop (Suc h) xs @ drop h (Slots r), Count := h\<rparr>), bt)"
  using assms by (simp add: splitSlots_def exec_simps copyArrayElements_ok)

lemma splitChildren_ok:
  assumes "length cs = Suc (Suc (2 * h))" and "length l = Suc (2 * h)" and "length r = Suc (2 * h)"
  shows "splitChildren cs h l r bt = (Inr (take (Suc h) cs @ drop (Suc h) l, drop (Suc h) cs @ drop (Suc h) r), bt)"
  using assms by (simp add: splitChildren_def exec_simps copyArrayElements_ok)

text \<open>Half of an overfull node, as an object.\<close>

lemma node_repr_half:
  assumes "nodeID n = i" and "ParentID n = p" and "length its = h" and "length ks = Suc h" and "L = 2 * h"
    and "Slots n = its @ replicate h z" and "Count n = h" and "ChildrenIDs n = Some (map kid_id ks @ replicate h NilUUID)"
    and "-1 \<le> indexOfNode n" and "indexOfNode n \<le> int L"
  shows "node_repr L n p i its (map kid_id ks)"
  using assms by (auto simp: node_repr_def)

lemma kid_ids_concat: "Some t \<in> set K \<Longrightarrow> set (ids t) \<subseteq> set (concat (map ids_opt K))"
  by force

lemma off_kid_ids: "j \<notin> set (concat (map ids_opt K)) \<Longrightarrow> j \<notin> kid_ids K"
proof
  assume "j \<notin> set (concat (map ids_opt K))" "j \<in> kid_ids K"
  then obtain t where "j = tid t" "Some t \<in> set K" by blast
  with kid_ids_concat [of t K] tid_in_ids [of t] \<open>j \<notin> _\<close> show False by blast
qed

lemma notin_kid_ids:
  assumes "c \<notin> set (fids (F i its kl kr))" and "c \<noteq> NilUUID"
  shows "c \<notin> set (map kid_id kl)" "c \<notin> set (map kid_id kr)"
proof -
  have "c \<noteq> tid t" if "Some t \<in> set kl \<union> set kr" for t
    using assms(1) that tid_in_ids [of t] by force
  with assms(2) have "kid_id k \<noteq> c" if "k \<in> set kl \<union> set kr" for k
    using that by (cases k) auto
  then show "c \<notin> set (map kid_id kl)" "c \<notin> set (map kid_id kr)" by auto
qed

text \<open>
  The two re-parenting passes of a split: the children \<open>K1\<close> of \<open>a\<close> and \<open>K2\<close> of \<open>b\<close>, in a heap in
  which other nodes may be written in between.
\<close>

lemma reparent_kids:
  assumes c: "children n = map kid_id K @ replicate m NilUUID" and L: "L = getSlotLength bt"
    and K: "\<forall>t. Some t \<in> set K \<longrightarrow> (\<exists>p. rep L (repo bt) p t)"
    and d: "distinct (concat (map ids_opt K))" "NilUUID \<notin> set (concat (map ids_opt K))"
    and f: "repoFail bt = (\<lambda>_. None)"
  obtains h where "updateChildrenParent n bt = (Inr (), bt\<lparr>repo := h\<rparr>)"
    "\<forall>t. Some t \<in> set K \<longrightarrow> rep L h (nodeID n) t" "dom h = dom (repo bt)"
    "\<And>j. j \<notin> set (concat (map ids_opt K)) \<Longrightarrow> h j = repo bt j"
proof -
  obtain h where h: "updateChildrenParent n bt = (Inr (), bt\<lparr>repo := h\<rparr>)"
    "\<forall>t. Some t \<in> set K \<longrightarrow> rep L h (nodeID n) t" "\<forall>j. j \<notin> kid_ids K \<longrightarrow> h j = repo bt j" "dom h = dom (repo bt)"
    using updateChildrenParent_ok [OF c _ d f] K unfolding L by blast
  have "h j = repo bt j" if "j \<notin> set (concat (map ids_opt K))" for j
    using h(3) off_kid_ids [OF that] by blast
  from that [OF h(1,2,4) this] show ?thesis .
qed

section \<open>Splitting an inner node\<close>

lemma promoteSplit_ok:
  fixes bt :: "('k, 'v) btree"
  assumes n: "nodeID n = i" "ParentID n = parent_of fs" "length (Slots n) = L" "length (children n) = Suc L"
      "-1 \<le> indexOfNode n" "indexOfNode n \<le> int L"
    and L: "L = getSlotLength bt" "L = 2 * h" "1 \<le> h" and rf: "repoFail bt = (\<lambda>_. None)"
    and X: "tempSlots bt = X" "length X = Suc L" and K: "tempChildren bt = map kid_id K" "length K = Suc (Suc L)"
    and fs: "fs \<noteq> []" "repf L (repo bt) i fs" "wf_ctx fs" and i: "i \<in> dom (repo bt)"
    and kids: "\<forall>t. Some t \<in> set K \<longrightarrow> (\<exists>p. rep L (repo bt) p t)" "\<forall>t. Some t \<in> set K \<longrightarrow> wfn t"
    and d: "distinct (cids fs @ i # concat (map ids_opt K))" "NilUUID \<notin> set (cids fs @ i # concat (map ids_opt K))"
    and fr: "fresh bt (Suc k)" and u: "u = uuidGen bt (uuidNext bt)"
  shows "\<exists>bt'. promoteSplit n bt = (Inr (), bt') \<and> same_store bt bt' \<and> uuidNext bt' = Suc (uuidNext bt) \<and>
    dom (repo bt') = insert u (dom (repo bt)) \<and> tempSlots bt' = X \<and> tempChildren bt' = tempChildren bt \<and>
    pending bt' fs (T i (take h X) (take (Suc h) K)) (X ! h) (T u (drop (Suc h) X) (drop (Suc h) K))"
proof -
  define K1 K2 where "K1 = take (Suc h) K" and "K2 = drop (Suc h) K"
  have KK: "K = K1 @ K2" and lK: "length K1 = Suc h" "length K2 = Suc h"
    using K(2) L(2) by (simp_all add: K1_def K2_def)
  define I1 I2 where "I1 = set (concat (map ids_opt K1))" and "I2 = set (concat (map ids_opt K2))"
  have dd: "distinct (concat (map ids_opt K1))" "distinct (concat (map ids_opt K2))" "I1 \<inter> I2 = {}"
    "i \<notin> I1" "i \<notin> I2" "i \<notin> set (cids fs)" "set (cids fs) \<inter> I1 = {}" "set (cids fs) \<inter> I2 = {}" "distinct (cids fs)"
    using d(1) unfolding I1_def I2_def KK by (simp_all add: Int_Un_distrib)
  have nil: "NilUUID \<notin> I1" "NilUUID \<notin> I2" "i \<noteq> NilUUID" "NilUUID \<notin> set (cids fs)"
    using d(2) unfolding I1_def I2_def KK by auto
  have k1: "\<forall>t. Some t \<in> set K1 \<longrightarrow> (\<exists>p. rep L (repo bt) p t)" and k2: "\<forall>t. Some t \<in> set K2 \<longrightarrow> (\<exists>p. rep L (repo bt) p t)"
    using kids(1) unfolding KK by auto
  have I1: "set (ids t) \<subseteq> I1" if "Some t \<in> set K1" for t using kid_ids_concat [OF that] by (simp add: I1_def)
  have I2: "set (ids t) \<subseteq> I2" if "Some t \<in> set K2" for t using kid_ids_concat [OF that] by (simp add: I2_def)
  have Id: "I1 \<subseteq> dom (repo bt)" "I2 \<subseteq> dom (repo bt)"
    using k1 k2 rep_dom unfolding I1_def I2_def by (fastforce split: option.splits)+
  have un: "u \<noteq> NilUUID" "u \<notin> dom (repo bt)" using fresh_next [OF fr] u by auto
  then have uo: "u \<notin> I1" "u \<notin> I2" "u \<noteq> i" "u \<notin> set (cids fs)" using Id i repf_dom [OF fs(2)] by auto
  define z :: "('k, 'v) item" where "z = zeroItem (zeroKey bt)"
  define n1 where "n1 = n\<lparr>Slots := take h X @ replicate h z, Count := h, ChildrenIDs := Some (map kid_id K1 @ replicate h NilUUID)\<rparr>"
  define r1 where "r1 = (emptyNode bt u (parent_of fs))\<lparr>Slots := drop (Suc h) X @ replicate h z, Count := h,
    ChildrenIDs := Some (map kid_id K2 @ replicate h NilUUID)\<rparr>"
  define b0 where "b0 = bt\<lparr>uuidNext := Suc (uuidNext bt)\<rparr>"
  have cr: "createNode (ParentID n) bt = (Inr (emptyNode bt u (parent_of fs)), b0)"
    by (simp add: createNode_ok u n(2) b0_def)
  have sp: "splitSlots X h (n\<lparr>Slots := go_clear z (Slots n)\<rparr>) (emptyNode bt u (parent_of fs)) b0 =
      (Inr (n\<lparr>Slots := take h X @ replicate h z, Count := h\<rparr>, (emptyNode bt u (parent_of fs))\<lparr>Slots := drop (Suc h) X @ replicate h z, Count := h\<rparr>), b0)"
    using X(2) L n(3) by (simp add: splitSlots_ok z_def)
  have sc: "splitChildren (map kid_id K) h (go_clear NilUUID (children n)) (replicate (Suc L) NilUUID) b0 =
      (Inr (map kid_id K1 @ replicate h NilUUID, map kid_id K2 @ replicate h NilUUID), b0)"
    using K(2) L(2) n(4) by (simp add: splitChildren_ok K1_def K2_def take_map drop_map)
  define bA where "bA = b0\<lparr>repo := (repo bt)(i \<mapsto> n1)\<rparr>"
  have A: "repo bA = (repo bt)(i \<mapsto> n1)" "getSlotLength bA = L" "repoFail bA = (\<lambda>_. None)"
    using L rf by (simp_all add: bA_def b0_def getSlotLength_def)
  have kA: "\<forall>t. Some t \<in> set K2 \<longrightarrow> (\<exists>p. rep L (repo bA) p t)"
    using k2 I2 dd(5) unfolding A by (metis rep_upd subsetD)
  obtain hB where B: "updateChildrenParent r1 bA = (Inr (), bA\<lparr>repo := hB\<rparr>)"
    "\<forall>t. Some t \<in> set K2 \<longrightarrow> rep L hB u t" "dom hB = dom (repo bA)" "\<And>j. j \<notin> I2 \<Longrightarrow> hB j = repo bA j"
    using reparent_kids [of r1 K2 h L bA] kA dd nil A unfolding I2_def
    by (auto simp: r1_def children_def simp del: map_append concat_append)
  define bC where "bC = bA\<lparr>repo := hB(u \<mapsto> r1)\<rparr>"
  have C: "repo bC = hB(u \<mapsto> r1)" "getSlotLength bC = L" "repoFail bC = (\<lambda>_. None)"
    using A by (simp_all add: bC_def)
  have frame1: "repo bC j = repo bt j" if "j \<notin> I2" "j \<noteq> u" "j \<noteq> i" for j
    using that B(4) by (simp add: C A)
  have kC: "\<forall>t. Some t \<in> set K1 \<longrightarrow> (\<exists>p. rep L (repo bC) p t)"
  proof (intro allI impI)
    fix t assume t: "Some t \<in> set K1"
    then obtain p where p: "rep L (repo bt) p t" using k1 by blast
    have "rep L (repo bC) p t = rep L (repo bt) p t"
      using I1 [OF t] frame1 dd(3,4) uo(1) by (intro rep_frame) blast
    with p show "\<exists>p. rep L (repo bC) p t" by blast
  qed
  obtain hD where D: "updateChildrenParent n1 bC = (Inr (), bC\<lparr>repo := hD\<rparr>)"
    "\<forall>t. Some t \<in> set K1 \<longrightarrow> rep L hD i t" "dom hD = dom (repo bC)" "\<And>j. j \<notin> I1 \<Longrightarrow> hD j = repo bC j"
    using reparent_kids [of n1 K1 h L bC] kC dd nil C n(1) unfolding I1_def
    by (auto simp: n1_def children_def simp del: map_append concat_append)
  define hE where "hE = hD(i \<mapsto> n1)"
  have E: "hE i = Some n1" "hE u = Some r1" using D(4) uo by (simp_all add: hE_def C)
  have Ef: "hE j = repo bt j" if "j \<in> set (cids fs)" for j
  proof -
    from that dd(6-8) uo(4) have "j \<notin> I1" "j \<notin> I2" "j \<noteq> i" "j \<noteq> u" by blast+
    then show ?thesis using D(4) frame1 by (simp add: hE_def)
  qed
  have rE: "repf L hE i fs" using fs(2) repf_frame [of fs hE "repo bt" L i] Ef by blast
  have EK1: "\<forall>t. Some t \<in> set K1 \<longrightarrow> rep L hE i t"
    using D(2) I1 dd(4) unfolding hE_def by (metis rep_upd subsetD)
  have EK2: "\<forall>t. Some t \<in> set K2 \<longrightarrow> rep L hE u t"
  proof (intro allI impI)
    fix t assume t: "Some t \<in> set K2"
    have "rep L hE u t = rep L hB u t"
    proof (rule rep_frame)
      fix j assume "j \<in> set (ids t)"
      then have "j \<notin> I1" "j \<noteq> i" "j \<noteq> u" using I2 [OF t] dd(3,5) uo(2) by blast+
      then show "hE j = hB j" using D(4) by (simp add: hE_def C)
    qed
    with B(2) t show "rep L hE u t" by blast
  qed
  have domE: "dom hE = insert u (dom (repo bt))"
    using D(3) B(3) i by (auto simp: hE_def C A)
  define bF where "bF = (bC\<lparr>repo := hE\<rparr>)\<lparr>tempParent := X ! h, tempParentChildren := [i, u]\<rparr>"
  obtain i2 its2 kl2 kr2 fs2 where f2: "fs = F i2 its2 kl2 kr2 # fs2"
    using fs(1) by (cases fs) (auto, metis frame.exhaust)
  obtain p where p: "hE i2 = Some p" "node_repr L p (parent_of fs2) i2 its2 (map kid_id kl2 @ i # map kid_id kr2)"
    using rE by (auto simp: f2)
  have i2: "i2 \<noteq> NilUUID" using nil(4) by (simp add: f2)
  have nk: "i \<notin> set (map kid_id kl2)" "i \<notin> set (map kid_id kr2)"
    using notin_kid_ids [of i i2 its2 kl2 kr2] dd(6) nil(3) by (simp_all add: f2)
  have F: "repo bF = hE" "getSlotLength bF = L" "repoFail bF = (\<lambda>_. None)" using C by (simp_all add: bF_def getSlotLength_def)
  have gp: "getParent n1 bF = (Inr (Some p), bF)"
    using getNode_rep [of bF i2 p "parent_of fs2" its2 "map kid_id kl2 @ i # map kid_id kr2"] p F i2
    by (simp add: getParent_def n1_def n(2) f2)
  define n2 where "n2 = n1\<lparr>indexOfNode := int (length kl2)\<rparr>"
  have gi: "getIndexOfChild p n1 bF = (Inr (int (length kl2), n2), bF\<lparr>repo := hE(i \<mapsto> n2)\<rparr>)"
    using getIndexOfChild_rep [OF p(2) node_repr_simps(3) [OF p(2)], of n1 bF] nk nil(3) n E(1) F(1)
    by (simp add: n1_def n2_def)
  define b' where "b' = (bF\<lparr>repo := hE(i \<mapsto> n2)\<rparr>)\<lparr>paTarget := Some i2, paIndex := int (length kl2)\<rparr>"
  have idp: "nodeID p = i2" using node_repr_simps(1) [OF p(2)] .
  have run: "promoteSplit n bt = (Inr (), b')"
  proof -
    have s1: "putNode n1 b0 = (Inr (), bA)" using n(1) by (simp add: putNode_ok n1_def bA_def b0_def)
    have s2: "saveNode r1 (bA\<lparr>repo := hB\<rparr>) = (Inr (), bC)" using un by (simp add: saveNode_ok r1_def bC_def)
    have s3: "saveNode n1 (bC\<lparr>repo := hD\<rparr>) = (Inr (), bC\<lparr>repo := hE\<rparr>)"
      using n(1) nil(3) by (simp add: saveNode_ok n1_def hE_def)
    have s4: "aget X h (bC\<lparr>repo := hE\<rparr>) = (Inr (X ! h), bC\<lparr>repo := hE\<rparr>)" using X(2) L(2) by (simp add: exec_simps)
    show ?thesis
      unfolding promoteSplit_def gbind_reads id_apply Let_def L(1) [symmetric] L(2) [THEN arg_cong, of "\<lambda>x. x div 2", simplified]
      using cr sp sc s1 B(1) s2 D(1) s3 s4 gp gi idp n(1)
      by (simp add: exec_simps X(1) K(1) z_def n1_def r1_def nonNil_def b'_def bF_def n2_def)
  qed
  have N2: "node_repr L n2 (parent_of fs) i (take h X) (map kid_id K1)"
  proof -
    have "length kl2 \<le> L" using node_repr_simps(5,10) [OF p(2)] by simp
    then show ?thesis
      using n X(2) L(2) lK by (intro node_repr_half [where z = z and h = h]) (simp_all add: n2_def n1_def)
  qed
  have R1: "node_repr L r1 (parent_of fs) u (drop (Suc h) X) (map kid_id K2)"
    using X(2) L(2) lK by (intro node_repr_half [where z = z and h = h]) (simp_all add: r1_def)
  have rp1: "rep L (hE(i \<mapsto> n2)) (parent_of fs) (T i (take h X) K1)"
    using N2 EK1 I1 dd(4) unfolding rep_T by (metis fun_upd_same rep_upd subsetD)
  have rp2: "rep L (hE(i \<mapsto> n2)) (parent_of fs) (T u (drop (Suc h) X) K2)"
    using R1 EK2 I2 dd(5) E(2) uo(3) unfolding rep_T by (metis fun_upd_other rep_upd subsetD)
  have "pending b' fs (T i (take h X) K1) (X ! h) (T u (drop (Suc h) X) K2)"
    unfolding pending_def
  proof (intro conjI)
    show "repf (getSlotLength b') (repo b') (tid (T i (take h X) K1)) fs"
      using rE dd(6) F(2) by (simp add: b'_def getSlotLength_def)
    show "rep (getSlotLength b') (repo b') (parent_of fs) (T i (take h X) K1)"
      "rep (getSlotLength b') (repo b') (parent_of fs) (T u (drop (Suc h) X) K2)"
      using rp1 rp2 F(2) by (simp_all add: b'_def getSlotLength_def del: rep.simps)
    have "\<forall>t. Some t \<in> set K1 \<union> set K2 \<longrightarrow> wfn t" using kids(2) unfolding KK by auto
    then show "wfn (T i (take h X) K1)" "wfn (T u (drop (Suc h) X) K2)"
      using X(2) L lK by (auto split: option.splits)
    show "distinct (cids fs @ ids (T i (take h X) K1) @ ids (T u (drop (Suc h) X) K2))"
      using dd uo unfolding I1_def I2_def by (simp add: Int_Un_distrib)
    show "NilUUID \<notin> set (cids fs @ ids (T i (take h X) K1) @ ids (T u (drop (Suc h) X) K2))"
      using nil un(1) unfolding I1_def I2_def by simp
  qed (use fs(1,3) in \<open>simp_all add: b'_def bF_def f2\<close>)
  moreover have "same_store bt b'" by (simp add: same_store_def b'_def bF_def bC_def bA_def b0_def)
  moreover have "uuidNext b' = Suc (uuidNext bt)" "tempSlots b' = X" "tempChildren b' = tempChildren bt"
    by (simp_all add: b'_def bF_def bC_def bA_def b0_def X(1))
  moreover have "dom (repo b') = insert u (dom (repo bt))" using domE i by (auto simp: b'_def)
  ultimately show ?thesis using run unfolding K1_def K2_def by blast
qed

section \<open>Splitting the root\<close>

lemma ignoreErr_ok: "m s = (Inr x, s') \<Longrightarrow> ignoreErr m s = (Inr (), s')"
  by (simp add: ignoreErr_def)

lemma promoteRoot_ok:
  fixes bt :: "('k, 'v) btree"
  assumes n: "nodeID n = i" "ParentID n = NilUUID" "length (Slots n) = L" "ChildrenIDs n = Some cn" "length cn = Suc L"
      "-1 \<le> indexOfNode n" "indexOfNode n \<le> int L"
    and L: "L = getSlotLength bt" "L = 2 * h" "1 \<le> h" and rf: "repoFail bt = (\<lambda>_. None)"
    and X: "tempSlots bt = X" "length X = Suc L" and K: "tempChildren bt = map kid_id K" "length K = Suc (Suc L)"
    and i: "i \<in> dom (repo bt)"
    and kids: "\<forall>t. Some t \<in> set K \<longrightarrow> (\<exists>p. rep L (repo bt) p t)"
    and d: "distinct (i # concat (map ids_opt K))" "NilUUID \<notin> set (i # concat (map ids_opt K))"
    and fr: "fresh bt (Suc (Suc k))" and u: "u = uuidGen bt (uuidNext bt)" "w = uuidGen bt (Suc (uuidNext bt))"
  shows "\<exists>bt'. promoteRoot n bt = (Inr (), bt') \<and> same_store bt bt' \<and> uuidNext bt' = Suc (Suc (uuidNext bt)) \<and>
    dom (repo bt') = {u, w} \<union> dom (repo bt) \<and> tempSlots bt' = X \<and> tempChildren bt' = tempChildren bt \<and>
    tempParentChildren bt' = tempParentChildren bt \<and> paTarget bt' = paTarget bt \<and> u \<noteq> w \<and>
    {u, w} \<inter> set (NilUUID # i # concat (map ids_opt K)) = {} \<and>
    rep L (repo bt') NilUUID (T i [X ! h] [Some (T u (take h X) (take (Suc h) K)), Some (T w (drop (Suc h) X) (drop (Suc h) K))])"
proof -
  define K1 K2 where "K1 = take (Suc h) K" and "K2 = drop (Suc h) K"
  have KK: "K = K1 @ K2" and lK: "length K1 = Suc h" "length K2 = Suc h"
    using K(2) L(2) by (simp_all add: K1_def K2_def)
  define I1 I2 where "I1 = set (concat (map ids_opt K1))" and "I2 = set (concat (map ids_opt K2))"
  have dd: "distinct (concat (map ids_opt K1))" "distinct (concat (map ids_opt K2))" "I1 \<inter> I2 = {}" "i \<notin> I1" "i \<notin> I2"
    using d(1) unfolding I1_def I2_def KK by simp_all
  have nil: "NilUUID \<notin> I1" "NilUUID \<notin> I2" "i \<noteq> NilUUID"
    using d(2) unfolding I1_def I2_def KK by auto
  have k1: "\<forall>t. Some t \<in> set K1 \<longrightarrow> (\<exists>p. rep L (repo bt) p t)" and k2: "\<forall>t. Some t \<in> set K2 \<longrightarrow> (\<exists>p. rep L (repo bt) p t)"
    using kids(1) unfolding KK by auto
  have I1: "set (ids t) \<subseteq> I1" if "Some t \<in> set K1" for t using kid_ids_concat [OF that] by (simp add: I1_def)
  have I2: "set (ids t) \<subseteq> I2" if "Some t \<in> set K2" for t using kid_ids_concat [OF that] by (simp add: I2_def)
  have Id: "I1 \<subseteq> dom (repo bt)" "I2 \<subseteq> dom (repo bt)"
    using k1 k2 rep_dom unfolding I1_def I2_def by (fastforce split: option.splits)+
  have un: "u \<noteq> NilUUID" "u \<notin> dom (repo bt)" "w \<noteq> NilUUID" "w \<notin> dom (repo bt)" "u \<noteq> w"
    using fresh_next [OF fr] fresh_next2 [OF fr] u by auto
  then have uo: "u \<notin> I1" "u \<notin> I2" "u \<noteq> i" "w \<notin> I1" "w \<notin> I2" "w \<noteq> i" using Id i by auto
  define z :: "('k, 'v) item" where "z = zeroItem (zeroKey bt)"
  define l1 where "l1 = (emptyNode bt u i)\<lparr>Slots := take h X @ replicate h z, Count := h,
    ChildrenIDs := Some (map kid_id K1 @ replicate h NilUUID)\<rparr>"
  define r1 where "r1 = (emptyNode bt w i)\<lparr>Slots := drop (Suc h) X @ replicate h z, Count := h,
    ChildrenIDs := Some (map kid_id K2 @ replicate h NilUUID)\<rparr>"
  define c1 where "c1 = n\<lparr>Slots := replicate L z, ChildrenIDs := Some (replicate (Suc L) NilUUID)\<rparr>"
  define n1 where "n1 = n\<lparr>Slots := (replicate L z)[0 := X ! h], Count := 1,
    ChildrenIDs := Some ((replicate (Suc L) NilUUID)[0 := u, 1 := w])\<rparr>"
  define b0 where "b0 = bt\<lparr>uuidNext := Suc (Suc (uuidNext bt))\<rparr>"
  define bA where "bA = b0\<lparr>repo := (repo bt)(i \<mapsto> c1)\<rparr>"
  have A: "repo bA = (repo bt)(i \<mapsto> c1)" "getSlotLength bA = L" "repoFail bA = (\<lambda>_. None)"
    using L rf by (simp_all add: bA_def b0_def getSlotLength_def)
  have kA: "\<forall>t. Some t \<in> set K1 \<longrightarrow> (\<exists>p. rep L (repo bA) p t)"
    using k1 I1 dd(4) unfolding A by (metis rep_upd subsetD)
  obtain hB where B: "updateChildrenParent l1 bA = (Inr (), bA\<lparr>repo := hB\<rparr>)"
    "\<forall>t. Some t \<in> set K1 \<longrightarrow> rep L hB u t" "dom hB = dom (repo bA)" "\<And>j. j \<notin> I1 \<Longrightarrow> hB j = repo bA j"
    using reparent_kids [of l1 K1 h L bA] kA dd nil A unfolding I1_def
    by (auto simp: l1_def children_def simp del: map_append concat_append)
  define bB where "bB = bA\<lparr>repo := hB\<rparr>"
  have Bs: "repo bB = hB" "getSlotLength bB = L" "repoFail bB = (\<lambda>_. None)" using A by (simp_all add: bB_def)
  have kB: "\<forall>t. Some t \<in> set K2 \<longrightarrow> (\<exists>p. rep L (repo bB) p t)"
  proof (intro allI impI)
    fix t assume t: "Some t \<in> set K2"
    then obtain p where p: "rep L (repo bt) p t" using k2 by blast
    have "rep L hB p t = rep L (repo bt) p t"
    proof (rule rep_frame)
      fix j assume "j \<in> set (ids t)"
      then have "j \<notin> I1" "j \<noteq> i" using I2 [OF t] dd(3,5) by blast+
      then show "hB j = repo bt j" using B(4) by (simp add: A)
    qed
    with p show "\<exists>p. rep L (repo bB) p t" unfolding Bs by blast
  qed
  obtain hD where D: "updateChildrenParent r1 bB = (Inr (), bB\<lparr>repo := hD\<rparr>)"
    "\<forall>t. Some t \<in> set K2 \<longrightarrow> rep L hD w t" "dom hD = dom (repo bB)" "\<And>j. j \<notin> I2 \<Longrightarrow> hD j = repo bB j"
    using reparent_kids [of r1 K2 h L bB] kB dd nil Bs unfolding I2_def
    by (auto simp: r1_def children_def simp del: map_append concat_append)
  define hE where "hE = hD(i \<mapsto> n1, u \<mapsto> l1, w \<mapsto> r1)"
  have E: "hE i = Some n1" "hE u = Some l1" "hE w = Some r1" using uo un(5) by (simp_all add: hE_def)
  have EK1: "\<forall>t. Some t \<in> set K1 \<longrightarrow> rep L hE u t"
  proof (intro allI impI)
    fix t assume t: "Some t \<in> set K1"
    have "rep L hE u t = rep L hB u t"
    proof (rule rep_frame)
      fix j assume "j \<in> set (ids t)"
      then have "j \<notin> I2" "j \<noteq> i" "j \<noteq> u" "j \<noteq> w" using I1 [OF t] dd(3,4) uo by blast+
      then show "hE j = hB j" using D(4) by (simp add: hE_def Bs)
    qed
    with B(2) t show "rep L hE u t" by blast
  qed
  have EK2: "\<forall>t. Some t \<in> set K2 \<longrightarrow> rep L hE w t"
  proof (intro allI impI)
    fix t assume t: "Some t \<in> set K2"
    have "i \<notin> set (ids t)" "u \<notin> set (ids t)" "w \<notin> set (ids t)" using I2 [OF t] dd(5) uo by blast+
    then show "rep L hE w t" using D(2) t by (simp add: hE_def)
  qed
  define b' where "b' = bB\<lparr>repo := hE\<rparr>"
  have run: "promoteRoot n bt = (Inr (), b')"
  proof -
    have s0: "createNode i bt = (Inr (emptyNode bt u i), bt\<lparr>uuidNext := Suc (uuidNext bt)\<rparr>)"
      "createNode i (bt\<lparr>uuidNext := Suc (uuidNext bt)\<rparr>) = (Inr (emptyNode bt w i), b0)"
      by (simp_all add: createNode_ok u b0_def emptyNode_def getSlotLength_def)
    have sp: "splitSlots X h (emptyNode bt u i) (emptyNode bt w i) b0 =
        (Inr ((emptyNode bt u i)\<lparr>Slots := take h X @ replicate h z, Count := h\<rparr>, (emptyNode bt w i)\<lparr>Slots := drop (Suc h) X @ replicate h z, Count := h\<rparr>), b0)"
      using X(2) L by (simp add: splitSlots_ok z_def)
    have sc: "splitChildren (map kid_id K) h (replicate (Suc L) NilUUID) (replicate (Suc L) NilUUID) b0 =
        (Inr (map kid_id K1 @ replicate h NilUUID, map kid_id K2 @ replicate h NilUUID), b0)"
      using K(2) L(2) by (simp add: splitChildren_ok K1_def K2_def take_map drop_map)
    have s1: "putNode c1 b0 = (Inr (), bA)" using n(1) by (simp add: putNode_ok c1_def bA_def b0_def)
    have s2: "ignoreErr (updateChildrenParent l1) bA = (Inr (), bB)" "ignoreErr (updateChildrenParent r1) bB = (Inr (), bB\<lparr>repo := hD\<rparr>)"
      using ignoreErr_ok [of "updateChildrenParent l1", OF B(1)] ignoreErr_ok [of "updateChildrenParent r1", OF D(1)] by (simp_all add: bB_def)
    have s3: "aget X h (bB\<lparr>repo := hD\<rparr>) = (Inr (X ! h), bB\<lparr>repo := hD\<rparr>)"
      "aset (replicate L z) 0 (X ! h) (bB\<lparr>repo := hD\<rparr>) = (Inr ((replicate L z)[0 := X ! h]), bB\<lparr>repo := hD\<rparr>)"
      "aset (replicate (Suc L) NilUUID) 0 u (bB\<lparr>repo := hD\<rparr>) = (Inr ((replicate (Suc L) NilUUID)[0 := u]), bB\<lparr>repo := hD\<rparr>)"
      "aset ((replicate (Suc L) NilUUID)[0 := u]) 1 w (bB\<lparr>repo := hD\<rparr>) = (Inr ((replicate (Suc L) NilUUID)[0 := u, 1 := w]), bB\<lparr>repo := hD\<rparr>)"
      using X(2) L(2,3) by (simp_all add: exec_simps del: list_update.simps replicate.simps)
    have s4: "saveNode n1 (bB\<lparr>repo := hD\<rparr>) = (Inr (), bB\<lparr>repo := hD(i \<mapsto> n1)\<rparr>)"
      "saveNode l1 (bB\<lparr>repo := hD(i \<mapsto> n1)\<rparr>) = (Inr (), bB\<lparr>repo := hD(i \<mapsto> n1, u \<mapsto> l1)\<rparr>)"
      "saveNode r1 (bB\<lparr>repo := hD(i \<mapsto> n1, u \<mapsto> l1)\<rparr>) = (Inr (), b')"
      using n(1) nil(3) un by (simp_all add: saveNode_ok n1_def l1_def r1_def b'_def hE_def)
    show ?thesis
      unfolding promoteRoot_def gbind_reads id_apply Let_def L(1) [symmetric] L(2) [THEN arg_cong, of "\<lambda>x. x div 2", simplified]
      using s0 sp sc s1 s2 s3 s4
      by (simp add: exec_simps X(1) K(1) n(1,3,4,5) z_def n1_def c1_def l1_def r1_def children_def
          del: list_update.simps replicate.simps)
  qed
  have N1: "node_repr L n1 NilUUID i [X ! h] [u, w]"
  proof -
    obtain l where l: "L = Suc (Suc l)" using L(2,3) by (cases L; cases "L - 1") auto
    then have "(replicate (Suc L) NilUUID)[0 := u, 1 := w] = [u, w] @ replicate (L - 1) NilUUID" by simp
    moreover have "take (Suc 0) ((replicate L z)[0 := X ! h]) = [X ! h]" using l by simp
    moreover have "1 \<le> L" using l by simp
    ultimately show ?thesis using n by (simp add: node_repr_def n1_def)
  qed
  have L1: "node_repr L l1 i u (take h X) (map kid_id K1)" and R1: "node_repr L r1 i w (drop (Suc h) X) (map kid_id K2)"
    using X(2) L(2) lK by (intro node_repr_half [where z = z and h = h]; simp add: l1_def r1_def)+
  have "rep L hE i (T u (take h X) K1)" "rep L hE i (T w (drop (Suc h) X) K2)"
    using L1 R1 E EK1 EK2 unfolding rep_T by blast+
  then have "rep L hE NilUUID (T i [X ! h] [Some (T u (take h X) K1), Some (T w (drop (Suc h) X) K2)])"
    using N1 E(1) unfolding rep_T [of _ _ _ i] by auto
  moreover have "same_store bt b'" by (simp add: same_store_def b'_def bB_def bA_def b0_def)
  moreover have "dom (repo b') = {u, w} \<union> dom (repo bt)"
    using D(3) B(3) i by (auto simp: b'_def hE_def Bs A)
  moreover have "{u, w} \<inter> set (NilUUID # i # concat (map ids_opt K)) = {}"
    using uo un unfolding KK I1_def I2_def by auto
  ultimately show ?thesis using run un(5) unfolding K1_def K2_def
    by (intro exI [of _ b']) (simp add: b'_def bB_def bA_def b0_def X(1))
qed

end
