(* ===== verification/Btree_PromoteLoop.thy ===== *)
theory Btree_PromoteLoop
  imports Btree_Grow
begin

text \<open>
  \<open>Btree.promote\<close>: each round inserts the waiting separator in the target node or splits it and
  leaves a pending promotion one level up, until a node has room or the root was split.
\<close>

section \<open>The overfull node\<close>

lemma weave_front: "weave (x # xs) ys = x @ weave ([] # xs) ys"
  by (cases ys) simp_all

lemma inorder_insert_kids:
  assumes "length kl + length kr = length its"
  shows "inorder (T i (take (length kl) its @ m # drop (length kl) its) (kl @ Some t1 # Some t2 # kr)) =
    lpart (F i its kl kr) @ inorder t1 @ m # inorder t2 @ rpart (F i its kl kr)"
proof -
  have "length (map io kl) = length (take (length kl) its)" using assms by simp
  from weave_split_item [OF this, of "inorder t1" "inorder t2 # map io kr" m "drop (length kl) its"] weave_last [OF this, of "inorder t1"]
  show ?thesis by (simp add: weave_front [of "inorder t2"])
qed

lemma height_le: "(\<And>t. Some t \<in> set ks \<Longrightarrow> height t < H) \<Longrightarrow> 0 < H \<Longrightarrow> height (T i its ks) \<le> H"
  by (auto simp: Suc_le_eq split: option.splits)

lemma height_plug_mono:
  assumes "height t \<le> height u"
  shows "height (plug f t) \<le> height (plug f u)"
proof (cases f)
  case (F i its kl kr)
  have "height v < height (plug f u)" if "Some v \<in> set (kl @ Some t # kr)" for v
  proof (cases "v = t")
    case True
    then show ?thesis using assms height_plug [of u f] by simp
  next
    case False
    with that have "Some v \<in> set (kl @ Some u # kr)" by auto
    from height_kid [OF this] show ?thesis by (simp add: F del: height.simps)
  qed
  moreover have "0 < height (plug f u)" by simp
  ultimately show ?thesis using height_le [of "kl @ Some t # kr"] unfolding F plug.simps by blast
qed

lemma height_plug_Suc:
  assumes "height t \<le> Suc (height u)"
  shows "height (plug f t) \<le> Suc (height (plug f u))"
proof (cases f)
  case (F i its kl kr)
  have "height v < Suc (height (plug f u))" if "Some v \<in> set (kl @ Some t # kr)" for v
  proof (cases "v = t")
    case True
    then show ?thesis using assms height_plug [of u f] by simp
  next
    case False
    with that have "Some v \<in> set (kl @ Some u # kr)" by auto
    from height_kid [OF this, of i its] show ?thesis by (simp add: F del: height.simps)
  qed
  then show ?thesis using height_le [of "kl @ Some t # kr"] unfolding F plug.simps by blast
qed

lemma height_plugs_Suc: "height t \<le> Suc (height u) \<Longrightarrow> height (plugs fs t) \<le> Suc (height (plugs fs u))"
  by (induction fs arbitrary: t u) (simp_all add: height_plug_Suc)

lemma height_plugs_mono: "height t \<le> height u \<Longrightarrow> height (plugs fs t) \<le> height (plugs fs u)"
  by (induction fs arbitrary: t u) (simp_all add: height_plug_mono)

text \<open>
  What a pending promotion says about the target frame: the node object, and the trees that
  become its children when the separator is inserted.
\<close>

lemma pending_target:
  assumes p: "pending bt (F i its kl kr # fs) t1 m t2"
  obtains n K where "K = kl @ Some t1 # Some t2 # kr" "repo bt i = Some n"
    "node_repr (getSlotLength bt) n (parent_of fs) i its (map kid_id (kl @ Some t1 # kr))"
    "length kl + length kr = length its" "repf (getSlotLength bt) (repo bt) i fs" "wf_ctx fs"
    "\<forall>t. Some t \<in> set K \<longrightarrow> rep (getSlotLength bt) (repo bt) i t" "\<forall>t. Some t \<in> set K \<longrightarrow> wfn t"
    "distinct (cids fs @ i # concat (map ids_opt K))" "NilUUID \<notin> set (cids fs @ i # concat (map ids_opt K))"
    "set (cids (F i its kl kr # fs) @ ids t1 @ ids t2) = set (cids fs @ i # concat (map ids_opt K))"
proof -
  define A B where "A = concat (map ids_opt kl)" and "B = concat (map ids_opt kr)"
  define K where "K = kl @ Some t1 # Some t2 # kr"
  have K: "concat (map ids_opt K) = A @ ids t1 @ ids t2 @ B" by (simp add: K_def A_def B_def)
  have f: "cids (F i its kl kr # fs) = i # A @ B @ cids fs" by (simp add: A_def B_def)
  obtain n where n: "repo bt i = Some n"
    "node_repr (getSlotLength bt) n (parent_of fs) i its (map kid_id (kl @ Some t1 # kr))"
    using p by (auto simp: pending_def)
  have d: "distinct (i # A @ B @ cids fs @ ids t1 @ ids t2)" "NilUUID \<notin> set (i # A @ B @ cids fs @ ids t1 @ ids t2)"
    using p unfolding pending_def f by simp_all
  have len: "length kl + length kr = length its" using node_repr_simps(10) [OF n(2)] by simp
  have kl: "\<forall>t. Some t \<in> set kl \<union> set kr \<longrightarrow> rep (getSlotLength bt) (repo bt) i t \<and> wfn t"
  proof (intro allI impI)
    fix t assume t: "Some t \<in> set kl \<union> set kr"
    have a: "\<forall>k\<in>set kl \<union> set kr. rep_opt (getSlotLength bt) (repo bt) i k"
      "\<forall>k\<in>set kl \<union> set kr. case k of None \<Rightarrow> True | Some t \<Rightarrow> wfn t"
      using p by (simp_all add: pending_def wf_ctx_def)
    show "rep (getSlotLength bt) (repo bt) i t \<and> wfn t" using bspec [OF a(1) t] bspec [OF a(2) t] by simp
  qed
  have tt: "rep (getSlotLength bt) (repo bt) i t1" "rep (getSlotLength bt) (repo bt) i t2" "wfn t1" "wfn t2"
    "repf (getSlotLength bt) (repo bt) i fs" using p by (auto simp: pending_def)
  have wf: "wf_ctx fs" using p by (cases fs) (auto simp: pending_def wf_ctx_def)
  show ?thesis
  proof (rule that [OF K_def n len tt(5) wf])
    show "\<forall>t. Some t \<in> set K \<longrightarrow> rep (getSlotLength bt) (repo bt) i t" "\<forall>t. Some t \<in> set K \<longrightarrow> wfn t"
      using kl tt unfolding K_def by auto
    show "distinct (cids fs @ i # concat (map ids_opt K))" "NilUUID \<notin> set (cids fs @ i # concat (map ids_opt K))"
      "set (cids (F i its kl kr # fs) @ ids t1 @ ids t2) = set (cids fs @ i # concat (map ids_opt K))"
      using d unfolding K f by auto
  qed
qed

text \<open>The tree with the separator inserted in a node that had room, or in which an overfull node was never split.\<close>

lemma insert_tree_ok:
  assumes K: "K = kl @ Some t1 # Some t2 # kr" "length kl + length kr = length its" and wf: "wf_ctx fs"
    and kids: "\<forall>t. Some t \<in> set K \<longrightarrow> wfn t"
    and d: "distinct (cids fs @ i # concat (map ids_opt K))" "NilUUID \<notin> set (cids fs @ i # concat (map ids_opt K))"
  shows "tree_ok (plugs fs (T i (take (length kl) its @ m # drop (length kl) its) K))"
proof -
  define its' where "its' = take (length kl) its @ m # drop (length kl) its"
  have "wfn (T i its' K)" using K kids by (auto simp: its'_def split: option.splits)
  then have "wf_tree (plugs fs (T i its' K))" using wf by (simp add: wf_tree_plugs wfn_wf_tree)
  moreover have "distinct (ids (plugs fs (T i its' K)))" "NilUUID \<notin> set (ids (plugs fs (T i its' K)))"
    using d by (auto simp: distinct_ids_plugs set_ids_plugs)
  ultimately show ?thesis by (simp add: tree_ok_def its'_def)
qed

section \<open>One round\<close>

lemma promote_room:
  assumes p: "pending bt (F i its kl kr # fs) t1 m t2" and lt: "length its < getSlotLength bt"
  shows "\<exists>bt' rt n. repo bt i = Some n \<and>
    node_promote n (int (length kl)) (bt\<lparr>paTarget := None, paIndex := 0\<rparr>) = (Inr (), bt') \<and>
    same_store bt bt' \<and> uuidNext bt' = uuidNext bt \<and> dom (repo bt') = dom (repo bt) \<and> paTarget bt' = None \<and>
    tempSlots bt' = tempSlots bt \<and> tempChildren bt' = tempChildren bt \<and> tempParentChildren bt' = tempParentChildren bt \<and>
    rt = plugs fs (T i (take (length kl) its @ m # drop (length kl) its) (kl @ Some t1 # Some t2 # kr)) \<and>
    tree_ok rt \<and> rep (getSlotLength bt) (repo bt') NilUUID rt \<and>
    set (ids rt) = set (cids (F i its kl kr # fs) @ ids t1 @ ids t2)"
proof -
  from pending_target [OF p] obtain n K where K: "K = kl @ Some t1 # Some t2 # kr" and n: "repo bt i = Some n"
    "node_repr (getSlotLength bt) n (parent_of fs) i its (map kid_id (kl @ Some t1 # kr))"
    and len: "length kl + length kr = length its" and rf: "repf (getSlotLength bt) (repo bt) i fs" and wf: "wf_ctx fs"
    and kids: "\<forall>t. Some t \<in> set K \<longrightarrow> rep (getSlotLength bt) (repo bt) i t" "\<forall>t. Some t \<in> set K \<longrightarrow> wfn t"
    and d: "distinct (cids fs @ i # concat (map ids_opt K))" "NilUUID \<notin> set (cids fs @ i # concat (map ids_opt K))"
    and ids: "set (cids (F i its kl kr # fs) @ ids t1 @ ids t2) = set (cids fs @ i # concat (map ids_opt K))" .
  let ?b = "bt\<lparr>paTarget := None, paIndex := 0\<rparr>" and ?L = "getSlotLength bt"
  let ?its = "take (length kl) its @ m # drop (length kl) its"
  have t: "tempParent ?b = m" "tempParentChildren ?b = [tid t1, tid t2]" "i \<noteq> NilUUID"
    using p d(2) by (auto simp: pending_def)
  from promoteInsert_ok [OF n(2) lt t] obtain n' where n': "promoteInsert n (length kl) ?b = (Inr (), ?b\<lparr>repo := (repo bt)(i \<mapsto> n')\<rparr>)"
    "node_repr ?L n' (parent_of fs) i ?its (map kid_id K)" unfolding K by auto
  have run: "node_promote n (int (length kl)) ?b = (Inr (), ?b\<lparr>repo := (repo bt)(i \<mapsto> n')\<rparr>)"
    using n'(1) lt node_repr_simps(4) [OF n(2)] by (simp add: node_promote_def gbind_reads getSlotLength_def)
  have off: "i \<notin> set (ids s)" if "Some s \<in> set K" for s
    using d(1) kid_ids_concat [OF that] by auto
  have "rep ?L ((repo bt)(i \<mapsto> n')) (parent_of fs) (T i ?its K)"
    using n'(2) kids(1) off unfolding rep_T by auto
  moreover have "repf ?L ((repo bt)(i \<mapsto> n')) i fs" using rf d(1) by simp
  ultimately have "rep ?L ((repo bt)(i \<mapsto> n')) NilUUID (plugs fs (T i ?its K))" by (simp only: rep_plugs tree.sel)
  moreover note insert_tree_ok [OF K len wf kids(2) d, of m]
  moreover have "set (ids (plugs fs (T i ?its K))) = set (cids (F i its kl kr # fs) @ ids t1 @ ids t2)"
    unfolding ids by (simp add: set_ids_plugs)
  moreover have "dom ((repo bt)(i \<mapsto> n')) = dom (repo bt)" using n(1) by auto
  ultimately show ?thesis
    using run n(1) unfolding K [symmetric]
    by (intro exI [of _ "?b\<lparr>repo := (repo bt)(i \<mapsto> n')\<rparr>"] exI [of _ "plugs fs (T i ?its K)"] exI [of _ n])
      (simp add: same_store_def)
qed

lemma shape_half: "shape_ok bt \<Longrightarrow> \<exists>h. getSlotLength bt = 2 * h \<and> 1 \<le> h"
  by (auto simp: shape_ok_def elim!: evenE)

lemma inorder_split:
  assumes "h < length X" and "length K = Suc (length X)"
  shows "inorder (T a (take h X) (take (Suc h) K)) @ X ! h # inorder (T b (drop (Suc h) X) (drop (Suc h) K)) = inorder (T c X K)"
  using inorder_at_item [of h X K c] assms by simp

lemma promote_full:
  assumes p: "pending bt (F i its kl kr # fs) t1 m t2" and full: "length its = getSlotLength bt"
    and sh: "shape_ok bt" and rf: "repoFail bt = (\<lambda>_. None)" and h: "getSlotLength bt = 2 * h" "1 \<le> h"
    and X: "X = take (length kl) its @ m # drop (length kl) its" and K: "K = kl @ Some t1 # Some t2 # kr"
  obtains n b where "repo bt i = Some n" "length X = Suc (getSlotLength bt)" "length K = Suc (Suc (getSlotLength bt))"
    "node_promote n (int (length kl)) (bt\<lparr>paTarget := None, paIndex := 0\<rparr>) =
       (if fs = [] then promoteRoot n b else promoteSplit n b)"
    "b = bt\<lparr>paTarget := None, paIndex := 0, tempSlots := X, tempChildren := map kid_id K\<rparr>"
    "node_repr (getSlotLength bt) n (parent_of fs) i its (map kid_id (kl @ Some t1 # kr))"
    "repf (getSlotLength bt) (repo bt) i fs" "wf_ctx fs"
    "\<forall>t. Some t \<in> set K \<longrightarrow> rep (getSlotLength bt) (repo bt) i t" "\<forall>t. Some t \<in> set K \<longrightarrow> wfn t"
    "distinct (cids fs @ i # concat (map ids_opt K))" "NilUUID \<notin> set (cids fs @ i # concat (map ids_opt K))"
    "set (cids (F i its kl kr # fs) @ ids t1 @ ids t2) = set (cids fs @ i # concat (map ids_opt K))"
proof -
  from pending_target [OF p] obtain n where n: "repo bt i = Some n"
    "node_repr (getSlotLength bt) n (parent_of fs) i its (map kid_id (kl @ Some t1 # kr))"
    and len: "length kl + length kr = length its" and rff: "repf (getSlotLength bt) (repo bt) i fs" and wf: "wf_ctx fs"
    and kids: "\<forall>t. Some t \<in> set K \<longrightarrow> rep (getSlotLength bt) (repo bt) i t" "\<forall>t. Some t \<in> set K \<longrightarrow> wfn t"
    and d: "distinct (cids fs @ i # concat (map ids_opt K))" "NilUUID \<notin> set (cids fs @ i # concat (map ids_opt K))"
    and ids: "set (cids (F i its kl kr # fs) @ ids t1 @ ids t2) = set (cids fs @ i # concat (map ids_opt K))"
    unfolding K by metis
  let ?b = "bt\<lparr>paTarget := None, paIndex := 0\<rparr>"
  have "shape_ok ?b" using sh by (simp add: shape_ok_def getSlotLength_def)
  then have "promoteTemps n (length kl) ?b = (Inr (), ?b\<lparr>tempSlots := X, tempChildren := map kid_id K\<rparr>)"
    using promoteTemps_ok [OF n(2) full, of ?b m t2] p unfolding X K by (simp add: pending_def getSlotLength_def)
  moreover have "isRootNode n \<longleftrightarrow> fs = []"
    using d(2) by (cases fs; cases "hd fs") (auto simp: node_repr_isRootNode [OF n(2)])
  ultimately have run: "node_promote n (int (length kl)) ?b =
      (if fs = [] then promoteRoot n (?b\<lparr>tempSlots := X, tempChildren := map kid_id K\<rparr>)
       else promoteSplit n (?b\<lparr>tempSlots := X, tempChildren := map kid_id K\<rparr>))"
    using full node_repr_simps(4) [OF n(2)] by (simp add: node_promote_def gbind_reads gseq_step getSlotLength_def)
  have "length X = Suc (getSlotLength bt)" "length K = Suc (Suc (getSlotLength bt))"
    using len full by (simp_all add: X K)
  with that run n rff wf kids d ids show ?thesis by blast
qed

lemma promote_split_round:
  assumes p: "pending bt (F i its kl kr # fs) t1 m t2" and full: "length its = getSlotLength bt" and fs: "fs \<noteq> []"
    and sh: "shape_ok bt" and rf: "repoFail bt = (\<lambda>_. None)" and fr: "fresh bt (Suc k)"
    and ht: "height t1 \<le> height t0" "height t2 \<le> height t0"
  shows "\<exists>bt' n a s b. repo bt i = Some n \<and>
    node_promote n (int (length kl)) (bt\<lparr>paTarget := None, paIndex := 0\<rparr>) = (Inr (), bt') \<and>
    same_store bt bt' \<and> shape_ok bt' \<and> fresh bt' k \<and> pending bt' fs a s b \<and>
    dom (repo bt') = insert (tid b) (dom (repo bt)) \<and> inorder a @ s # inorder b =
      lpart (F i its kl kr) @ inorder t1 @ m # inorder t2 @ rpart (F i its kl kr) \<and>
    set (ids a) \<union> set (ids b) = insert (tid b) (set (fids (F i its kl kr)) \<union> set (ids t1) \<union> set (ids t2)) \<and>
    height a \<le> height (plug (F i its kl kr) t0) \<and> height b \<le> height (plug (F i its kl kr) t0)"
proof -
  let ?L = "getSlotLength bt"
  obtain h where h: "?L = 2 * h" "1 \<le> h" using shape_half [OF sh] by blast
  define X K where "X = take (length kl) its @ m # drop (length kl) its" and "K = kl @ Some t1 # Some t2 # kr"
  from promote_full [OF p full sh rf h X_def K_def] obtain n b where
    n: "repo bt i = Some n" and len: "length X = Suc ?L" "length K = Suc (Suc ?L)"
    and run: "node_promote n (int (length kl)) (bt\<lparr>paTarget := None, paIndex := 0\<rparr>) = (if fs = [] then promoteRoot n b else promoteSplit n b)"
    and b: "b = bt\<lparr>paTarget := None, paIndex := 0, tempSlots := X, tempChildren := map kid_id K\<rparr>"
    and nr: "node_repr ?L n (parent_of fs) i its (map kid_id (kl @ Some t1 # kr))" and rff: "repf ?L (repo bt) i fs" "wf_ctx fs"
    and kids: "\<forall>t. Some t \<in> set K \<longrightarrow> rep ?L (repo bt) i t" "\<forall>t. Some t \<in> set K \<longrightarrow> wfn t"
    and d: "distinct (cids fs @ i # concat (map ids_opt K))" "NilUUID \<notin> set (cids fs @ i # concat (map ids_opt K))" .
  note s = node_repr_simps [OF nr]
  have bs: "getSlotLength b = ?L" "repo b = repo bt" "repoFail b = (\<lambda>_. None)" "tempSlots b = X" "tempChildren b = map kid_id K"
    "uuidGen b = uuidGen bt" "uuidNext b = uuidNext bt" using rf by (simp_all add: b getSlotLength_def)
  have frb: "fresh b (Suc k)" using fr by (simp add: fresh_def bs)
  define u where "u = uuidGen bt (uuidNext bt)"
  define A where "A = T i (take h X) (take (Suc h) K)"
  define B where "B = T u (drop (Suc h) X) (drop (Suc h) K)"
  obtain bt' where r: "promoteSplit n b = (Inr (), bt')" "same_store b bt'" "uuidNext bt' = Suc (uuidNext b)"
    "dom (repo bt') = insert u (dom (repo b))" "tempSlots bt' = X" "tempChildren bt' = tempChildren b" "pending bt' fs A (X ! h) B"
    using promoteSplit_ok [of n i fs ?L b h X K k u] s(1-3,7) nr bs h len fs rff n kids d frb
    unfolding A_def B_def by (auto simp: node_repr_def u_def)
  have ss: "same_store bt bt'" using same_store_trans [OF _ r(2), of bt] by (simp add: b same_store_def)
  have sl: "getSlotLength bt' = ?L" using same_store_simps(13) [OF ss] .
  have "shape_ok bt'" using sh len r(5-7) bs by (simp add: shape_ok_def sl pending_def)
  moreover have "fresh bt' k"
    using fresh_use [of bt 1 k bt'] fr r(3,4) bs same_store_simps(5) [OF ss] by (simp add: u_def)
  moreover have "inorder A @ X ! h # inorder B = inorder (T i X K)"
    unfolding A_def B_def using len h by (intro inorder_split) simp_all
  then have "inorder A @ X ! h # inorder B = lpart (F i its kl kr) @ inorder t1 @ m # inorder t2 @ rpart (F i its kl kr)"
    unfolding X_def K_def using inorder_insert_kids s(10) by simp
  moreover have "height t < height (plug (F i its kl kr) t0)" if "Some t \<in> set K" for t
  proof (cases "t = t1 \<or> t = t2")
    case True
    then show ?thesis using ht height_plug [of t0 "F i its kl kr"] by auto
  next
    case False
    then have "Some t \<in> set (kl @ Some t0 # kr)" using that by (auto simp: K_def)
    from height_kid [OF this, of i its] show ?thesis by simp
  qed
  then have "height A \<le> height (plug (F i its kl kr) t0)" "height B \<le> height (plug (F i its kl kr) t0)"
    unfolding A_def B_def by (intro height_le; auto dest: in_set_takeD in_set_dropD)+
  moreover have "set (ids A) \<union> set (ids B) = insert (tid B) (set (fids (F i its kl kr)) \<union> set (ids t1) \<union> set (ids t2))"
  proof -
    define P Q where "P = concat (map ids_opt (take (Suc h) K))" and "Q = concat (map ids_opt (drop (Suc h) K))"
    have "concat (map ids_opt K) = P @ Q"
      unfolding P_def Q_def by (simp only: append_take_drop_id flip: concat_append map_append)
    moreover have "ids A = i # P" "ids B = u # Q" by (simp_all add: A_def B_def P_def Q_def)
    moreover have "set (concat (map ids_opt K)) \<union> {i} = set (fids (F i its kl kr)) \<union> set (ids t1) \<union> set (ids t2)"
      by (auto simp: K_def)
    ultimately show ?thesis unfolding B_def by auto
  qed
  ultimately show ?thesis
    using run fs r(1,4,7) ss n bs by (intro exI [of _ bt'] exI [of _ n] exI [of _ A] exI [of _ "X ! h"] exI [of _ B]) (simp add: B_def)
qed

lemma promote_root_round:
  assumes p: "pending bt [F i its kl kr] t1 m t2" and full: "length its = getSlotLength bt"
    and sh: "shape_ok bt" and rf: "repoFail bt = (\<lambda>_. None)" and fr: "fresh bt (Suc (Suc k))"
    and ht: "height t1 \<le> height t0" "height t2 \<le> height t0"
  shows "\<exists>bt' n rt N. repo bt i = Some n \<and>
    node_promote n (int (length kl)) (bt\<lparr>paTarget := None, paIndex := 0\<rparr>) = (Inr (), bt') \<and>
    same_store bt bt' \<and> shape_ok bt' \<and> fresh bt' k \<and> paTarget bt' = None \<and> tree_ok rt \<and> tid rt = i \<and>
    rep (getSlotLength bt) (repo bt') NilUUID rt \<and> dom (repo bt') = dom (repo bt) \<union> N \<and>
    set (ids rt) = set (fids (F i its kl kr)) \<union> set (ids t1) \<union> set (ids t2) \<union> N \<and> inorder rt =
      lpart (F i its kl kr) @ inorder t1 @ m # inorder t2 @ rpart (F i its kl kr) \<and>
    height rt \<le> Suc (height (plug (F i its kl kr) t0))"
proof -
  let ?L = "getSlotLength bt"
  obtain h where h: "?L = 2 * h" "1 \<le> h" using shape_half [OF sh] by blast
  define X K where "X = take (length kl) its @ m # drop (length kl) its" and "K = kl @ Some t1 # Some t2 # kr"
  from promote_full [OF p full sh rf h X_def K_def, unfolded if_P [OF refl] parent_of_simps cids_simps append_Nil] obtain n b where
    n: "repo bt i = Some n" and len: "length X = Suc ?L" "length K = Suc (Suc ?L)"
    and run: "node_promote n (int (length kl)) (bt\<lparr>paTarget := None, paIndex := 0\<rparr>) = promoteRoot n b"
    and b: "b = bt\<lparr>paTarget := None, paIndex := 0, tempSlots := X, tempChildren := map kid_id K\<rparr>"
    and nr: "node_repr ?L n NilUUID i its (map kid_id (kl @ Some t1 # kr))"
    and kids: "\<forall>t. Some t \<in> set K \<longrightarrow> rep ?L (repo bt) i t" "\<forall>t. Some t \<in> set K \<longrightarrow> wfn t"
    and d: "distinct (i # concat (map ids_opt K))" "NilUUID \<notin> set (i # concat (map ids_opt K))" .
  note s = node_repr_simps [OF nr]
  have bs: "getSlotLength b = ?L" "repo b = repo bt" "repoFail b = (\<lambda>_. None)" "tempSlots b = X" "tempChildren b = map kid_id K"
    "uuidGen b = uuidGen bt" "uuidNext b = uuidNext bt" "paTarget b = None" "tempParentChildren b = tempParentChildren bt"
    using rf by (simp_all add: b getSlotLength_def)
  have frb: "fresh b (Suc (Suc k))" using fr by (simp add: fresh_def bs)
  define u w where "u = uuidGen bt (uuidNext bt)" and "w = uuidGen bt (Suc (uuidNext bt))"
  define A B where "A = T u (take h X) (take (Suc h) K)" and "B = T w (drop (Suc h) X) (drop (Suc h) K)"
  have cn: "ChildrenIDs n = Some (children n)" "length (children n) = Suc ?L" using s(7,8) by simp_all
  have ex: "\<forall>t. Some t \<in> set K \<longrightarrow> (\<exists>p. rep ?L (repo b) p t)" using kids(1) bs(2) by auto
  have idx: "-1 \<le> indexOfNode n" "indexOfNode n \<le> int ?L" using nr by (simp_all add: node_repr_def)
  have ib: "i \<in> dom (repo b)" using n bs(2) by auto
  obtain bt' where r: "promoteRoot n b = (Inr (), bt')" "same_store b bt'" "uuidNext bt' = Suc (Suc (uuidNext b))"
    "dom (repo bt') = {u, w} \<union> dom (repo b)" "tempSlots bt' = X" "tempChildren bt' = tempChildren b"
    "tempParentChildren bt' = tempParentChildren b" "paTarget bt' = paTarget b" "u \<noteq> w"
    "{u, w} \<inter> set (NilUUID # i # concat (map ids_opt K)) = {}" "rep ?L (repo bt') NilUUID (T i [X ! h] [Some A, Some B])"
    using promoteRoot_ok [OF s(1-3) cn idx bs(1) [symmetric] h bs(3,4) len(1) bs(5) len(2) ib ex d frb] bs(6,7)
    unfolding A_def B_def u_def w_def by metis
  have ss: "same_store bt bt'" using same_store_trans [OF _ r(2), of bt] by (simp add: b same_store_def)
  have sl: "getSlotLength bt' = ?L" using same_store_simps(13) [OF ss] .
  have shp: "shape_ok bt'" using sh len r(5-7) bs by (simp add: shape_ok_def sl)
  have frs: "fresh bt' k"
    using fresh_use [of bt 2 k bt'] fr r(3,4) bs same_store_simps(5) [OF ss]
    by (simp add: u_def w_def numeral_2_eq_2 atLeastLessThanSuc insert_commute)
  define P Q where "P = concat (map ids_opt (take (Suc h) K))" and "Q = concat (map ids_opt (drop (Suc h) K))"
  have PQ: "concat (map ids_opt K) = P @ Q"
    unfolding P_def Q_def by (simp only: append_take_drop_id flip: concat_append map_append)
  have idr: "ids (T i [X ! h] [Some A, Some B]) = i # (u # P) @ w # Q" by (simp add: A_def B_def P_def Q_def)
  have "\<forall>t. Some t \<in> set (take (Suc h) K) \<union> set (drop (Suc h) K) \<longrightarrow> wfn t"
    using kids(2) by (metis Un_iff in_set_takeD in_set_dropD)
  then have "wfn A" "wfn B" using len h unfolding A_def B_def by (auto split: option.splits)
  then have "tree_ok (T i [X ! h] [Some A, Some B])"
    using d r(9,10) unfolding tree_ok_def idr PQ by (auto simp: wf_tree_def)
  moreover have "inorder (T i [X ! h] [Some A, Some B]) = lpart (F i its kl kr) @ inorder t1 @ m # inorder t2 @ rpart (F i its kl kr)"
  proof -
    have "inorder (T i [X ! h] [Some A, Some B]) = inorder A @ X ! h # inorder B" by simp
    also have "\<dots> = inorder (T i X K)"
      unfolding A_def B_def using len h by (intro inorder_split) simp_all
    finally show ?thesis unfolding X_def K_def using inorder_insert_kids s(10) by simp
  qed
  moreover have "height t < height (plug (F i its kl kr) t0)" if "Some t \<in> set K" for t
  proof (cases "t = t1 \<or> t = t2")
    case True
    then show ?thesis using ht height_plug [of t0 "F i its kl kr"] by auto
  next
    case False
    then have "Some t \<in> set (kl @ Some t0 # kr)" using that by (auto simp: K_def)
    from height_kid [OF this, of i its] show ?thesis by simp
  qed
  then have "height A \<le> height (plug (F i its kl kr) t0)" "height B \<le> height (plug (F i its kl kr) t0)"
    unfolding A_def B_def by (intro height_le; auto dest: in_set_takeD in_set_dropD)+
  then have "height (T i [X ! h] [Some A, Some B]) \<le> Suc (height (plug (F i its kl kr) t0))"
    by (intro height_le) auto
  moreover have "set (ids (T i [X ! h] [Some A, Some B])) = set (fids (F i its kl kr)) \<union> set (ids t1) \<union> set (ids t2) \<union> {u, w}"
  proof -
    have "set (concat (map ids_opt K)) \<union> {i} = set (fids (F i its kl kr)) \<union> set (ids t1) \<union> set (ids t2)"
      by (auto simp: K_def)
    then show ?thesis unfolding idr PQ by auto
  qed
  moreover have "dom (repo bt') = dom (repo bt) \<union> {u, w}" using r(4) bs(2) by auto
  moreover have "paTarget bt' = None" using r(8) bs(8) by simp
  moreover have "tid (T i [X ! h] [Some A, Some B]) = i" by simp
  ultimately show ?thesis using run r(1,11) ss shp frs n by metis
qed

section \<open>The loop\<close>

text \<open>What an insertion achieves: the state is well-formed again and holds the sequence \<open>xs\<close>.\<close>

definition grown :: "('k, 'v) btree \<Rightarrow> ('k, 'v) btree \<Rightarrow> ('k, 'v) tree \<Rightarrow> ('k, 'v) item list \<Rightarrow> uuid set \<Rightarrow> nat \<Rightarrow> bool" where
  "grown bt bt' rt xs I k \<longleftrightarrow> same_store bt bt' \<and> shape_ok bt' \<and> fresh bt' k \<and> paTarget bt' = None \<and> tree_ok rt \<and>
     rep (getSlotLength bt) (repo bt') NilUUID rt \<and> inorder rt = xs \<and>
     (\<exists>N. dom (repo bt') = dom (repo bt) \<union> N \<and> set (ids rt) = I \<union> N)"

lemma promoteLoop_ok:
  assumes "pending bt fs t1 m t2" and "shape_ok bt" and "repoFail bt = (\<lambda>_. None)" and "length fs < f"
    and "fresh bt (Suc (length fs) + k)" and "height t1 \<le> height t0" and "height t2 \<le> height t0"
  shows "\<exists>bt' rt. promoteLoop f bt = (Inr (), bt') \<and>
    grown bt bt' rt (lctx fs @ inorder t1 @ m # inorder t2 @ rctx fs) (set (cids fs @ ids t1 @ ids t2)) k \<and>
    tid rt = fid (last fs) \<and> height rt \<le> Suc (height (plugs fs t0))"
  using assms
proof (induction fs arbitrary: bt t1 m t2 t0 f)
  case Nil
  then show ?case by (simp add: pending_def)
next
  case (Cons fr fs)
  obtain i its kl kr where fr: "fr = F i its kl kr" by (cases fr)
  obtain g where f: "f = Suc g" "0 < g" using Cons.prems(4) by (cases f) auto
  note p = Cons.prems(1) [unfolded fr]
  have step: "promoteLoop f bt = promoteLoop g bt'"
    if "repo bt i = Some n" "node_promote n (int (length kl)) (bt\<lparr>paTarget := None, paIndex := 0\<rparr>) = (Inr (), bt')" for n bt'
    using that p ignoreErr_ok [of "node_promote n (int (length kl))", OF that(2)] by (simp add: f exec_simps pending_def nonNil_def)
  have fin: "promoteLoop g bt' = (Inr (), bt')" if "paTarget bt' = None" for bt' :: "('a, 'b) btree"
    using that f(2) by (cases g) (simp_all add: exec_simps)
  have le: "length its \<le> getSlotLength bt" using pending_target [OF p] node_repr_simps(5) by metis
  consider "length its < getSlotLength bt" | "length its = getSlotLength bt" "fs = []" | "length its = getSlotLength bt" "fs \<noteq> []"
    using le by linarith
  then show ?case
  proof cases
    case 1
    from promote_room [OF p 1] obtain bt' rt n where r: "repo bt i = Some n"
      "node_promote n (int (length kl)) (bt\<lparr>paTarget := None, paIndex := 0\<rparr>) = (Inr (), bt')"
      "same_store bt bt'" "uuidNext bt' = uuidNext bt" "dom (repo bt') = dom (repo bt)" "paTarget bt' = None"
      "tempSlots bt' = tempSlots bt" "tempChildren bt' = tempChildren bt" "tempParentChildren bt' = tempParentChildren bt"
      "rt = plugs fs (T i (take (length kl) its @ m # drop (length kl) its) (kl @ Some t1 # Some t2 # kr))"
      "tree_ok rt" "rep (getSlotLength bt) (repo bt') NilUUID rt" "set (ids rt) = set (cids (F i its kl kr # fs) @ ids t1 @ ids t2)"
      by blast
    have "shape_ok bt'" using Cons.prems(2) r(7-9) same_store_simps(13) [OF r(3)] by (simp add: shape_ok_def)
    moreover have "fresh bt' k"
      using fresh_mono [OF Cons.prems(5), of k] r(4,5) same_store_simps(5) [OF r(3)] by (simp add: fresh_def)
    moreover have "inorder rt = lctx (fr # fs) @ inorder t1 @ m # inorder t2 @ rctx (fr # fs)"
    proof -
      have len: "length kl + length kr = length its" using pending_target [OF p] by metis
      show ?thesis
        using inorder_ctx [OF r(11) [unfolded r(10)]] unfolding r(10) inorder_insert_kids [OF len] by (simp add: fr)
    qed
    moreover have "tid rt = fid (last (fr # fs))" by (simp add: r(10) fr tid_plugs)
    moreover have "height rt \<le> Suc (height (plugs (fr # fs) t0))"
    proof -
      have "height t < height (plug fr t0)" if "Some t \<in> set (kl @ Some t1 # Some t2 # kr)" for t
      proof (cases "t = t1 \<or> t = t2")
        case True
        then show ?thesis using Cons.prems(6,7) height_plug [of t0 fr] by auto
      next
        case False
        then have "Some t \<in> set (kl @ Some t0 # kr)" using that by auto
        from height_kid [OF this, of i its] show ?thesis by (simp add: fr)
      qed
      then have "height (T i (take (length kl) its @ m # drop (length kl) its) (kl @ Some t1 # Some t2 # kr)) \<le> height (plug fr t0)"
        by (intro height_le) auto
      from height_plugs_mono [OF this, of fs] show ?thesis by (simp add: r(10))
    qed
    ultimately show ?thesis
      using step [OF r(1,2)] fin [OF r(6)] r(3,5,6,11-13) unfolding grown_def fr
      by (intro exI [of _ bt'] exI [of _ rt]) auto
  next
    case 2
    have "fresh bt (Suc (Suc k))" using Cons.prems(5) 2 by simp
    from promote_root_round [OF p [unfolded 2(2)] 2(1) Cons.prems(2,3) this Cons.prems(6,7)] obtain bt' n rt N where
      r: "repo bt i = Some n" "node_promote n (int (length kl)) (bt\<lparr>paTarget := None, paIndex := 0\<rparr>) = (Inr (), bt')"
      "same_store bt bt'" "shape_ok bt'" "fresh bt' k" "paTarget bt' = None" "tree_ok rt" "tid rt = i"
      "rep (getSlotLength bt) (repo bt') NilUUID rt" "dom (repo bt') = dom (repo bt) \<union> N"
      "set (ids rt) = set (fids (F i its kl kr)) \<union> set (ids t1) \<union> set (ids t2) \<union> N"
      "inorder rt = lpart (F i its kl kr) @ inorder t1 @ m # inorder t2 @ rpart (F i its kl kr)"
      "height rt \<le> Suc (height (plug (F i its kl kr) t0))" by blast
    show ?thesis
      using step [OF r(1,2)] fin [OF r(6)] r unfolding grown_def fr 2(2)
      by (intro exI [of _ bt'] exI [of _ rt]) (auto simp del: fids.simps lpart.simps rpart.simps plug.simps)
  next
    case 3
    have "fresh bt (Suc (Suc (length fs) + k))" using Cons.prems(5) by simp
    from promote_split_round [OF p 3 Cons.prems(2,3) this Cons.prems(6,7)] obtain bt1 n a s b where
      r: "repo bt i = Some n" "node_promote n (int (length kl)) (bt\<lparr>paTarget := None, paIndex := 0\<rparr>) = (Inr (), bt1)"
      "same_store bt bt1" "shape_ok bt1" "fresh bt1 (Suc (length fs) + k)" "pending bt1 fs a s b"
      "dom (repo bt1) = insert (tid b) (dom (repo bt))"
      "inorder a @ s # inorder b = lpart (F i its kl kr) @ inorder t1 @ m # inorder t2 @ rpart (F i its kl kr)"
      "set (ids a) \<union> set (ids b) = insert (tid b) (set (fids (F i its kl kr)) \<union> set (ids t1) \<union> set (ids t2))"
      "height a \<le> height (plug fr t0)" "height b \<le> height (plug fr t0)" unfolding fr by blast
    have "repoFail bt1 = (\<lambda>_. None)" using Cons.prems(3) same_store_simps(2) [OF r(3)] by simp
    moreover have "length fs < g" using Cons.prems(4) f by simp
    ultimately obtain bt' rt where q: "promoteLoop g bt1 = (Inr (), bt')"
      "grown bt1 bt' rt (lctx fs @ inorder a @ s # inorder b @ rctx fs) (set (cids fs @ ids a @ ids b)) k"
      "tid rt = fid (last fs)" "height rt \<le> Suc (height (plugs fs (plug fr t0)))"
      using Cons.IH [OF r(6,4) _ _ r(5,10,11)] by blast
    from q(2) obtain N where N: "dom (repo bt') = dom (repo bt1) \<union> N" "set (ids rt) = set (cids fs @ ids a @ ids b) \<union> N"
      by (auto simp: grown_def)
    have "inorder a @ s # inorder b @ rctx fs = (inorder a @ s # inorder b) @ rctx fs" by simp
    then have "inorder a @ s # inorder b @ rctx fs = lpart fr @ inorder t1 @ m # inorder t2 @ rctx (fr # fs)"
      unfolding r(8) by (simp add: fr)
    with q(2) have "grown bt bt' rt (lctx (fr # fs) @ inorder t1 @ m # inorder t2 @ rctx (fr # fs))
        (set (cids (fr # fs) @ ids t1 @ ids t2)) k"
    proof -
      have "set (ids rt) = set (cids (fr # fs) @ ids t1 @ ids t2) \<union> insert (tid b) N"
        using N(2) r(9) unfolding fr by (auto simp del: fids.simps)
      moreover have "dom (repo bt') = dom (repo bt) \<union> insert (tid b) N" using N(1) r(7) by auto
      ultimately show ?thesis
        using q(2) \<open>inorder a @ s # inorder b @ rctx fs = lpart fr @ _\<close> same_store_trans [OF r(3)] same_store_simps(13) [OF r(3)]
        unfolding grown_def by auto
    qed
    then show ?thesis using step [OF r(1,2)] q 3(2) by (intro exI [of _ bt'] exI [of _ rt]) simp
  qed
qed

end
