(* ===== verification/Btree_Leaf.thy ===== *)
theory Btree_Leaf
  imports Btree_PromoteLoop
begin

text \<open>
  Insertion at the bottom of the tree: a leaf with room, a full root leaf, a full inner leaf
  (which leaves a pending promotion), and an empty child position.
\<close>

section \<open>Inserting in the slots\<close>

lemma insert_copy:
  assumes "r < length xs"
  shows "(go_copy_at xs (Suc r) (drop r xs))[r := it] = take r xs @ it # take (length xs - Suc r) (drop r xs)"
proof -
  have "take (Suc r) xs = take r xs @ [xs ! r]" "length (take r xs) = r"
    using assms by (simp_all add: take_Suc_conv_app_nth)
  then show ?thesis
    using list_update_length [of "take r xs" "xs ! r"] assms by (simp add: go_copy_at_def go_copy_def)
qed

lemma insert_copy_aset:
  "r < length xs \<Longrightarrow> aset (go_copy_at xs (r + 1) (drop r xs)) r it s =
    (Inr (take r xs @ it # take (length xs - Suc r) (drop r xs)), s)"
  by (simp add: exec_simps insert_copy)

lemma insertSlotItem_ok:
  assumes n: "node_repr L n p i its cs" and r: "r \<le> length its" and lt: "length its < L"
  shows "\<exists>n'. insertSlotItem n it r s = (Inr n', s) \<and> nodeID n' = i \<and>
    (cs = [] \<longrightarrow> node_repr L n' p i (take r its @ it # drop r its) [])"
proof -
  note sm = node_repr_simps [OF n]
  define S where "S = take r (Slots n) @ it # take (L - Suc r) (drop r (Slots n))"
  have "insertSlotItem n it r s = (Inr (n\<lparr>Slots := S, Count := Suc (Count n)\<rparr>), s)"
    using sm(3) r lt by (simp add: insertSlotItem_def exec_simps insert_copy S_def)
  moreover have "take (Suc (length its)) S = take r its @ it # drop r its"
  proof -
    have its: "take (length its) (Slots n) = its" using n by (simp add: node_repr_def)
    then have "take r (Slots n) = take r its" using r by (metis min.absorb1 take_take)
    moreover have "take (length its - r) (drop r (Slots n)) = drop r its"
      using drop_take [of r "length its" "Slots n"] its by simp
    ultimately show ?thesis using r lt sm(3) by (simp add: S_def min_def Suc_diff_le)
  qed
  moreover have "length S = L" using sm(3) r lt by (simp add: S_def)
  ultimately show ?thesis using n r lt by (auto simp: node_repr_def)
qed

text \<open>The slots of a full leaf with the new item, in the temporary array.\<close>

lemma leaf_temp:
  assumes n: "node_repr L n p i its cs" and full: "length its = L" and r: "r \<le> L" and l: "length ts = Suc L"
  shows "slice_from (go_copy ts (Slots n)) (r + 1) s = (Inr (drop (Suc r) (go_copy ts (Slots n))), s)"
    and "slice_from (go_copy ts (Slots n)) r s = (Inr (drop r (go_copy ts (Slots n))), s)"
    and "aset (go_copy_at (go_copy ts (Slots n)) (r + 1) (drop r (go_copy ts (Slots n)))) r it s =
      (Inr (take r its @ it # drop r its), s)"
proof -
  have S: "Slots n = its" using n full by (auto simp: node_repr_def)
  define g where "g = go_copy ts (Slots n)"
  have g: "g = its @ drop L ts" "length g = Suc L" using l full by (simp_all add: g_def S go_copy_def)
  show "slice_from (go_copy ts (Slots n)) (r + 1) s = (Inr (drop (Suc r) (go_copy ts (Slots n))), s)"
    "slice_from (go_copy ts (Slots n)) r s = (Inr (drop r (go_copy ts (Slots n))), s)"
    using r g(2) by (simp_all add: exec_simps flip: g_def)
  have "take (length g - Suc r) (drop r g) = drop r its" "take r g = take r its"
    using r full unfolding g(2) by (simp_all add: g(1))
  then show "aset (go_copy_at (go_copy ts (Slots n)) (r + 1) (drop r (go_copy ts (Slots n)))) r it s =
      (Inr (take r its @ it # drop r its), s)"
    using insert_copy_aset [of r g it s] r g(2) unfolding g_def by simp
qed

section \<open>A leaf with room\<close>

text \<open>
  The outcome of an insertion below a context: done (the state represents the tree with the item
  in place), or pending one level up.
\<close>

definition added :: "('k, 'v) btree \<Rightarrow> ('k, 'v) btree \<Rightarrow> ('k, 'v) frame list \<Rightarrow> ('k, 'v) tree \<Rightarrow> ('k, 'v) item list \<Rightarrow> nat \<Rightarrow> bool" where
  "added bt bt' fs t xs k \<longleftrightarrow>
     (\<exists>rt. grown bt bt' rt xs (set (ids (plugs fs t))) k \<and> tid rt = tid (plugs fs t) \<and> height rt \<le> Suc (height (plugs fs t))) \<or>
     (\<exists>t1 m t2. pending bt' fs t1 m t2 \<and> same_store bt bt' \<and> shape_ok bt' \<and> fresh bt' (Suc (length fs) + k) \<and>
        lctx fs @ inorder t1 @ m # inorder t2 @ rctx fs = xs \<and> height t1 \<le> height t \<and> height t2 \<le> height t \<and>
        dom (repo bt') = insert (tid t2) (dom (repo bt)) \<and> set (ids t1) \<union> set (ids t2) = insert (tid t2) (set (ids t)))"

lemma height_leaf [simp]: "height (T i its []) = 1"
  by simp

lemma rep_plugs_replace:
  assumes "rep L h NilUUID (plugs fs t)" and "tree_ok (plugs fs t)" and "tid t = i"
    and "node_repr L n (parent_of fs) i its (map kid_id ks)" and "\<forall>s. Some s \<in> set ks \<longrightarrow> rep L (h(i \<mapsto> n)) i s"
  shows "rep L (h(i \<mapsto> n)) NilUUID (plugs fs (T i its ks))"
proof -
  have "repf L h i fs" using assms(1,3) by (auto simp: rep_plugs)
  then have "repf L (h(i \<mapsto> n)) i fs" using tree_ok_ctx(7) [OF assms(2)] assms(3) by simp
  moreover have "rep L (h(i \<mapsto> n)) (parent_of fs) (T i its ks)" using assms(4,5) unfolding rep_T by auto
  ultimately show ?thesis by (simp only: rep_plugs tree.sel)
qed

lemma tree_ok_replace:
  assumes "tree_ok (plugs fs t)" and "if fs = [] then wf_tree t' else wfn t'" and "set (ids t') \<subseteq> set (ids t) \<union> N" and "distinct (ids t')"
    and "N \<inter> set (ids (plugs fs t)) = {}" and "NilUUID \<notin> N"
  shows "tree_ok (plugs fs t')"
proof -
  have "wf_tree (plugs fs t')" using assms(1,2) tree_ok_wf(4) [OF assms(1)] by (simp add: wf_tree_plugs wfn_wf_tree)
  moreover have "set (cids fs) \<inter> set (ids t') = {}" "NilUUID \<notin> set (ids t')"
    using assms(3,5,6) tree_ok_ctx(3,5) [OF assms(1)] unfolding set_ids_plugs by blast+
  ultimately show ?thesis
    using assms(4) tree_ok_ctx(1,4) [OF assms(1)] by (simp add: tree_ok_def distinct_ids_plugs set_ids_plugs)
qed

lemma leaf_room:
  assumes ok: "nav_ok bt (plugs fs t)" and n: "repo bt (tid t) = Some n" and leaf: "kids t = []"
    and r: "r \<le> length (items t)" and lt: "length (items t) < getSlotLength bt"
    and sh: "shape_ok bt" and fr: "fresh bt k" and pa: "paTarget bt = None"
  shows "\<exists>bt'. addOnLeaf n it r bt = (Inr (), bt') \<and> added bt bt' fs t (before_gap fs t r @ it # after_gap fs t r) k"
proof -
  let ?its = "take r (items t) @ it # drop r (items t)" and ?L = "getSlotLength bt"
  note okn = nav_ok_simps [OF ok] and nr = nav_node [OF ok n]
  obtain n' where n': "insertSlotItem n it r bt = (Inr n', bt)" "nodeID n' = tid t"
    "node_repr ?L n' (parent_of fs) (tid t) ?its []"
    using insertSlotItem_ok [OF nr r lt, of it bt] leaf by auto
  have id: "tid t \<noteq> NilUUID" using tree_ok_ctx(6) [OF okn(1)] .
  define bt' where "bt' = bt\<lparr>repo := (repo bt)(tid t \<mapsto> n')\<rparr>"
  have run: "addOnLeaf n it r bt = (Inr (), bt')"
    using lt n' id node_repr_simps(4) [OF nr] by (simp add: addOnLeaf_def gbind_reads gbind_step saveNode_ok bt'_def)
  have t: "t = T (tid t) (items t) []" using leaf by (cases t) simp
  then have ids: "ids t = [tid t]" by (metis ids.simps concat.simps(1) list.map(1))
  have "tree_ok (plugs fs (T (tid t) ?its []))"
    using ids by (intro tree_ok_replace [OF okn(1), where N = "{}"]) (auto simp: wf_tree_def)
  moreover have "rep ?L (repo bt') NilUUID (plugs fs (T (tid t) ?its []))"
    using rep_plugs_replace [OF okn(2,1) refl, of n' ?its "[]"] n'(3) by (simp add: bt'_def)
  moreover have "inorder (plugs fs (T (tid t) ?its [])) = before_gap fs t r @ it # after_gap fs t r"
    using inorder_ctx [OF calculation(1)] leaf by (simp add: before_gap_def after_gap_def)
  moreover have "dom (repo bt') = dom (repo bt)" using n by (auto simp: bt'_def)
  moreover have "shape_ok bt'" "fresh bt' k"
    using sh fr calculation(4) by (auto simp: bt'_def shape_ok_def fresh_def)
  ultimately have "grown bt bt' (plugs fs (T (tid t) ?its [])) (before_gap fs t r @ it # after_gap fs t r) (set (ids (plugs fs t))) k"
    using pa ids unfolding grown_def
    by (intro conjI exI [of _ "{}"]) (simp_all add: same_store_def bt'_def set_ids_plugs)
  moreover have "height (plugs fs (T (tid t) ?its [])) \<le> height (plugs fs t)"
    using t by (intro height_plugs_mono) (metis height_leaf order_refl)
  ultimately show ?thesis
    using run unfolding added_def by (auto simp: tid_plugs intro!: exI [of _ bt'])
qed

section \<open>An empty child position\<close>

lemma newLeaf_repr:
  assumes "1 \<le> getSlotLength bt"
  shows "node_repr (getSlotLength bt) ((emptyNode bt u p)\<lparr>Slots := (replicate (getSlotLength bt) z)[0 := it], Count := 1\<rparr>) p u [it] []"
proof -
  obtain l where "getSlotLength bt = Suc l" using assms by (cases "getSlotLength bt") auto
  then show ?thesis by (simp add: node_repr_def)
qed

lemma nil_child:
  assumes ok: "nav_ok bt (plugs fs t)" and n: "repo bt (tid t) = Some n" and ks: "kids t \<noteq> []"
    and r: "r \<le> length (items t)" and nil: "kids t ! r = None"
    and sh: "shape_ok bt" and fr: "fresh bt (Suc k)" and pa: "paTarget bt = None"
  shows "\<exists>bt'. addItemOnNodeWithNilChild n it r bt = (Inr True, bt') \<and>
    added bt bt' fs t (before_gap fs t r @ it # after_gap fs t r) k"
proof -
  let ?L = "getSlotLength bt"
  note okn = nav_ok_simps [OF ok] and nr = nav_node [OF ok n]
  note s = node_repr_simps [OF nr] and c = children_nth_rep [OF nr ks r]
  define u where "u = uuidGen bt (uuidNext bt)"
  have L1: "1 \<le> ?L" using sh by (simp add: shape_ok_def)
  have id: "tid t \<noteq> NilUUID" using tree_ok_ctx(6) [OF okn(1)] .
  have un: "u \<noteq> NilUUID" "u \<notin> dom (repo bt)" using fresh_next [OF fr] by (auto simp: u_def)
  have ids_dom: "set (ids (plugs fs t)) \<subseteq> dom (repo bt)" using rep_dom [OF okn(2)] .
  have ut: "u \<noteq> tid t" using un(2) n by auto
  define z :: "('a, 'b) item" where "z = zeroItem (zeroKey bt)"
  define ch where "ch = (emptyNode bt u (tid t))\<lparr>Slots := (replicate ?L z)[0 := it], Count := 1\<rparr>"
  define n' where "n' = n\<lparr>ChildrenIDs := Some ((children n)[r := u])\<rparr>"
  define ks' where "ks' = (kids t)[r := Some (T u [it] [])]"
  define bt' where "bt' = bt\<lparr>uuidNext := Suc (uuidNext bt), repo := (repo bt)(u \<mapsto> ch, tid t \<mapsto> n')\<rparr>"
  have run: "addItemOnNodeWithNilChild n it r bt = (Inr True, bt')"
    using c nil un id s(1) L1 ut [symmetric] ut
    by (simp add: addItemOnNodeWithNilChild_def exec_simps createNode_ok saveNode_ok bt'_def n'_def ch_def z_def u_def
        fun_upd_twist)
  have "node_repr ?L n' (parent_of fs) (tid t) (items t) (map kid_id ks')"
    using nr ks c(1) un by (auto simp: node_repr_def n'_def ks'_def children_def map_update list_update_append)
  moreover have "\<forall>v. Some v \<in> set ks' \<longrightarrow> rep ?L ((repo bt)(u \<mapsto> ch, tid t \<mapsto> n')) (tid t) v"
  proof (intro allI impI)
    fix v assume "Some v \<in> set ks'"
    then consider "v = T u [it] []" | "Some v \<in> set (kids t)" using set_update_subset_insert unfolding ks'_def by fastforce
    then show "rep ?L ((repo bt)(u \<mapsto> ch, tid t \<mapsto> n')) (tid t) v"
    proof cases
      case 1
      then show ?thesis using newLeaf_repr [OF L1, where u = u and p = "tid t" and z = z and it = it] ut by (simp add: ch_def)
    next
      case 2
      have "rep ?L (repo bt) (parent_of fs) t" using okn(2) by (simp add: rep_plugs)
      then have "rep ?L (repo bt) (tid t) v" using 2 by (cases t) (auto simp: rep_T simp del: rep.simps)
      moreover have "tid t \<notin> set (ids v)" using tree_ok_ctx(2) [OF okn(1)] 2 by (cases t) force
      moreover have "set (ids v) \<subseteq> set (ids (plugs fs t))"
        using ids_kid [OF 2, of "tid t" "items t"] unfolding set_ids_plugs by (cases t) auto
      moreover from this un(2) ids_dom have "u \<notin> set (ids v)" by blast
      ultimately show ?thesis by simp
    qed
  qed
  moreover have "rep ?L ((repo bt)(u \<mapsto> ch)) NilUUID (plugs fs t)"
  proof -
    have "u \<notin> set (ids (plugs fs t))" using un(2) ids_dom by blast
    then show ?thesis using okn(2) by simp
  qed
  ultimately have rp: "rep ?L (repo bt') NilUUID (plugs fs (T (tid t) (items t) ks'))"
    using rep_plugs_replace [OF _ okn(1) refl] by (simp add: bt'_def)
  define P Q where "P = concat (map ids_opt (take r (kids t)))" and "Q = concat (map ids_opt (drop (Suc r) (kids t)))"
  have idt: "ids t = tid t # P @ Q"
  proof -
    have "concat (map ids_opt (kids t)) = P @ Q"
      by (subst id_take_nth_drop [OF c(1)]) (simp only: nil map_append concat_append list.map concat.simps option.case P_def Q_def append_Nil)
    then show ?thesis by (cases t) simp
  qed
  have idt': "ids (T (tid t) (items t) ks') = tid t # P @ u # Q"
    using c(1) unfolding ks'_def P_def Q_def by (simp add: upd_conv_take_nth_drop)
  have tok: "tree_ok (plugs fs (T (tid t) (items t) ks'))"
  proof (rule tree_ok_replace [OF okn(1), where N = "{u}"])
    have "wf_tree (T (tid t) (items t) ks')"
      using tree_ok_wf(2) [OF okn(1)] set_update_subset_insert [of "kids t" r "Some (T u [it] [])"]
      by (auto simp: wf_tree_def ks'_def)
    moreover have "fs \<noteq> [] \<Longrightarrow> items t \<noteq> []" using tree_ok_wf(3) [OF okn(1)] by (simp add: wfn_wf_tree)
    ultimately show "if fs = [] then wf_tree (T (tid t) (items t) ks') else wfn (T (tid t) (items t) ks')"
      by (auto simp: wfn_wf_tree)
    show "distinct (ids (T (tid t) (items t) ks'))"
      using tree_ok_ctx(2) [OF okn(1)] un(2) ids_dom unfolding idt idt' set_ids_plugs by auto
  qed (use un ids_dom in \<open>auto simp: idt idt' simp del: ids.simps\<close>)
  have io: "inorder (plugs fs (T (tid t) (items t) ks')) = before_gap fs t r @ it # after_gap fs t r"
    using gap_inorder [OF tok, of r] r c(1) by (simp add: before_gap_def after_gap_def kid_at_def ks'_def)
  have ht: "height (plugs fs (T (tid t) (items t) ks')) \<le> Suc (height (plugs fs t))"
  proof (rule height_plugs_Suc, rule height_le)
    fix v assume "Some v \<in> set ks'"
    then consider "v = T u [it] []" | "Some v \<in> set (kids t)" using set_update_subset_insert unfolding ks'_def by fastforce
    then show "height v < Suc (height t)"
      using height_kid [of v "kids t" "tid t" "items t"] height_pos [of t] by cases (simp_all del: height.simps)
  qed simp
  have dm: "dom (repo bt') = dom (repo bt) \<union> {u}" using n by (auto simp: bt'_def)
  have "set (ids (plugs fs (T (tid t) (items t) ks'))) = set (ids (plugs fs t)) \<union> {u}"
    unfolding set_ids_plugs idt idt' by auto
  moreover have "fresh bt' k"
  proof (rule fresh_use [of bt 1 k])
    show "dom (repo bt') \<subseteq> dom (repo bt) \<union> uuidGen bt ` {uuidNext bt..<uuidNext bt + 1}"
      unfolding dm by (simp add: u_def)
  qed (use fr in \<open>simp_all add: bt'_def\<close>)
  moreover have "shape_ok bt'" using sh by (simp add: bt'_def shape_ok_def getSlotLength_def)
  ultimately have "grown bt bt' (plugs fs (T (tid t) (items t) ks')) (before_gap fs t r @ it # after_gap fs t r) (set (ids (plugs fs t))) k"
    using pa rp tok io dm unfolding grown_def by (auto simp: same_store_def bt'_def)
  then show ?thesis using run ht unfolding added_def by (auto simp: tid_plugs intro!: exI [of _ bt'])
qed

section \<open>A full leaf\<close>

lemma addOnLeaf_full:
  assumes n: "node_repr (getSlotLength bt) n p i its cs" and full: "length its = getSlotLength bt" and r: "r \<le> length its"
    and sh: "shape_ok bt" and h: "repo bt i = Some n" and llb: "\<not> LeafLoadBalancing (StoreInfo bt)"
  shows "addOnLeaf n it r bt =
    (if p = NilUUID then breakNode True n (take r its @ it # drop r its) (bt\<lparr>tempSlots := take r its @ it # drop r its\<rparr>)
     else splitAndPromote n (take r its @ it # drop r its) (bt\<lparr>tempSlots := take r its @ it # drop r its\<rparr>))"
proof -
  have l: "length (tempSlots bt) = Suc (getSlotLength bt)" using sh by (simp add: shape_ok_def)
  note lt = leaf_temp [OF n full r [unfolded full] l] and s = node_repr_simps [OF n]
  have v: "isThereVacantSlotInLeft n b = (Inr (False, False), b)" "isThereVacantSlotInRight n b = (Inr (False, False), b)"
    if "StoreInfo b = StoreInfo bt" for b
    using that llb by (simp_all add: isThereVacantSlotInLeft_def isThereVacantSlotInRight_def gbind_reads ret_apply)
  show ?thesis
    using full s(1,4) h v [of "bt\<lparr>tempSlots := take r its @ it # drop r its\<rparr>"]
    by (simp add: addOnLeaf_def gbind_reads Let_def exec_simps lt [simplified]
        setTempSlots_def refresh_def node_repr_isRootNode [OF n])
qed

lemma leaf_half_repr:
  assumes "nodeID n = i" and "ParentID n = p" and "length its = h" and "L = 2 * h"
    and "Slots n = its @ replicate h z" and "Count n = h" and "ChildrenIDs n = None"
    and "-1 \<le> indexOfNode n" and "indexOfNode n \<le> int L"
  shows "node_repr L n p i its []"
  using assms by (auto simp: node_repr_def)

lemma leaf_root_full:
  fixes bt :: "('k, 'v) btree"
  assumes ok: "nav_ok bt t" and n: "repo bt (tid t) = Some n" and leaf: "kids t = []"
    and r: "r \<le> length (items t)" and full: "length (items t) = getSlotLength bt"
    and sh: "shape_ok bt" and fr: "fresh bt (Suc (Suc k))" and pa: "paTarget bt = None" and llb: "\<not> LeafLoadBalancing (StoreInfo bt)"
  shows "\<exists>bt'. addOnLeaf n it r bt = (Inr (), bt') \<and> added bt bt' [] t (before_gap [] t r @ it # after_gap [] t r) k"
proof -
  let ?L = "getSlotLength bt"
  have ok': "nav_ok bt (plugs [] t)" using ok by simp
  note okn = nav_ok_simps [OF ok] and nr = nav_node [OF ok' n, unfolded parent_of_simps]
  note s = node_repr_simps [OF nr]
  obtain h where h: "?L = 2 * h" "1 \<le> h" using shape_half [OF sh] by blast
  define X where "X = take r (items t) @ it # drop r (items t)"
  have lX: "length X = Suc ?L" using r full by (simp add: X_def)
  define u w where "u = uuidGen bt (uuidNext bt)" and "w = uuidGen bt (Suc (uuidNext bt))"
  have un: "u \<noteq> NilUUID" "u \<notin> dom (repo bt)" "w \<noteq> NilUUID" "w \<notin> dom (repo bt)" "u \<noteq> w"
    using fresh_next [OF fr] fresh_next2 [OF fr] by (auto simp: u_def w_def)
  have ti: "tid t \<noteq> NilUUID" "tid t \<noteq> u" "tid t \<noteq> w" using tree_ok_ctx(6) [of "[]" t] okn(1) un n by auto
  define z :: "('k, 'v) item" where "z = zeroItem (zeroKey bt)"
  define r1 where "r1 = (emptyNode bt u (tid t))\<lparr>Slots := drop (Suc h) X @ replicate h z, Count := h\<rparr>"
  define l1 where "l1 = (emptyNode bt w (tid t))\<lparr>Slots := take h X @ replicate h z, Count := h\<rparr>"
  define n1 where "n1 = n\<lparr>Slots := (replicate ?L z)[0 := X ! h], Count := 1,
    ChildrenIDs := Some ((replicate (Suc ?L) NilUUID)[0 := w, 1 := u])\<rparr>"
  define h' where "h' = (repo bt)(w \<mapsto> l1, u \<mapsto> r1, tid t \<mapsto> n1)"
  define bt' where "bt' = bt\<lparr>tempSlots := replicate (Suc ?L) z, uuidNext := Suc (Suc (uuidNext bt)), repo := h'\<rparr>"
  have run: "addOnLeaf n it r bt = (Inr (), bt')"
  proof -
    let ?b = "bt\<lparr>tempSlots := X\<rparr>"
    define b2 where "b2 = ?b\<lparr>uuidNext := Suc (Suc (uuidNext bt))\<rparr>"
    have c: "createNode (tid t) ?b = (Inr (emptyNode bt u (tid t)), ?b\<lparr>uuidNext := Suc (uuidNext bt)\<rparr>)"
      "createNode (tid t) (?b\<lparr>uuidNext := Suc (uuidNext bt)\<rparr>) = (Inr (emptyNode bt w (tid t)), b2)"
      by (simp_all add: createNode_ok u_def w_def b2_def emptyNode_def getSlotLength_def)
    have sp: "splitSlots X h (emptyNode bt w (tid t)) (emptyNode bt u (tid t)) b2 = (Inr (l1, r1), b2)"
      using lX h by (simp add: splitSlots_ok l1_def r1_def z_def)
    have a: "aget X h b2 = (Inr (X ! h), b2)" "aset (replicate ?L z) 0 (X ! h) b2 = (Inr ((replicate ?L z)[0 := X ! h]), b2)"
      using lX h by (simp_all add: exec_simps)
    have "breakNode True n X ?b = (Inr (), bt')"
      using c sp a s(1,3) ti un(1,3)
      by (simp add: breakNode_def gbind_reads Let_def exec_simps h(1) saveNode_ok clearTempSlots_def lX bt'_def h'_def n1_def
          l1_def r1_def b2_def z_def
          del: list_update.simps replicate.simps)
    then show ?thesis using addOnLeaf_full [OF nr full r sh n llb] by (simp add: X_def)
  qed
  define rt where "rt = T (tid t) [X ! h] [Some (T w (take h X) []), Some (T u (drop (Suc h) X) [])]"
  have idx: "-1 \<le> indexOfNode n" "indexOfNode n \<le> int ?L" using nr by (simp_all add: node_repr_def)
  have N1: "node_repr ?L n1 NilUUID (tid t) [X ! h] [w, u]"
  proof -
    obtain l where l: "?L = Suc (Suc l)" using h by (cases "?L"; cases "?L - 1") auto
    then have "(replicate (Suc ?L) NilUUID)[0 := w, 1 := u] = [w, u] @ replicate (?L - 1) NilUUID" by simp
    moreover have "take (Suc 0) ((replicate ?L z)[0 := X ! h]) = [X ! h]" using l by simp
    moreover have "1 \<le> ?L" using l by simp
    ultimately show ?thesis using s(1-3) idx by (simp add: node_repr_def n1_def)
  qed
  have L1: "node_repr ?L l1 (tid t) w (take h X) []" and R1: "node_repr ?L r1 (tid t) u (drop (Suc h) X) []"
    using lX h by (intro leaf_half_repr [where z = z and h = h]; simp add: l1_def r1_def)+
  have rp: "rep ?L h' NilUUID rt" using N1 L1 R1 ti un(5) by (simp add: rt_def h'_def)
  have tok: "tree_ok rt"
    using ti un h lX by (auto simp: tree_ok_def rt_def wf_tree_def)
  have t: "t = T (tid t) (items t) []" using leaf by (cases t) simp
  have ids: "ids t = [tid t]" by (subst t) simp
  have io: "inorder rt = before_gap [] t r @ it # after_gap [] t r"
  proof -
    have "inorder rt = take h X @ X ! h # drop (Suc h) X" by (simp add: rt_def)
    also have "\<dots> = X" using id_take_nth_drop [of h X] lX h by simp
    finally show ?thesis using leaf by (simp add: X_def before_gap_def after_gap_def)
  qed
  have dm: "dom (repo bt') = dom (repo bt) \<union> {u, w}" using n by (auto simp: bt'_def h'_def)
  have "fresh bt' k"
  proof (rule fresh_use [of bt 2 k])
    show "dom (repo bt') \<subseteq> dom (repo bt) \<union> uuidGen bt ` {uuidNext bt..<uuidNext bt + 2}"
      unfolding dm by (auto simp: u_def w_def)
  qed (use fr in \<open>simp_all add: bt'_def\<close>)
  moreover have "shape_ok bt'" using sh by (simp add: bt'_def shape_ok_def)
  moreover have "set (ids rt) = set (ids t) \<union> {u, w}" by (auto simp: rt_def ids)
  ultimately have "grown bt bt' rt (before_gap [] t r @ it # after_gap [] t r) (set (ids t)) k"
    using pa rp tok io dm unfolding grown_def by (auto simp: same_store_def bt'_def)
  moreover have "height rt \<le> Suc (height t)" unfolding rt_def using height_pos [of t] by (intro height_le) auto
  ultimately show ?thesis using run unfolding added_def by (auto simp: rt_def intro!: exI [of _ bt'])
qed

lemma leaf_split:
  fixes bt :: "('k, 'v) btree"
  assumes ok: "nav_ok bt (plugs fs t)" and n: "repo bt (tid t) = Some n" and leaf: "kids t = []" and fs: "fs \<noteq> []"
    and r: "r \<le> length (items t)" and full: "length (items t) = getSlotLength bt"
    and sh: "shape_ok bt" and fr: "fresh bt (Suc (Suc (length fs)) + k)" and llb: "\<not> LeafLoadBalancing (StoreInfo bt)"
  shows "\<exists>bt'. addOnLeaf n it r bt = (Inr (), bt') \<and> added bt bt' fs t (before_gap fs t r @ it # after_gap fs t r) k"
proof -
  let ?L = "getSlotLength bt"
  note okn = nav_ok_simps [OF ok] and nr = nav_node [OF ok n]
  note s = node_repr_simps [OF nr] and ctx = tree_ok_ctx [OF okn(1)]
  obtain h where h: "?L = 2 * h" "1 \<le> h" using shape_half [OF sh] by blast
  define X where "X = take r (items t) @ it # drop r (items t)"
  have lX: "length X = Suc ?L" using r full by (simp add: X_def)
  define u where "u = uuidGen bt (uuidNext bt)"
  have un: "u \<noteq> NilUUID" "u \<notin> dom (repo bt)" using fresh_next [of bt "Suc (length fs) + k"] fr by (auto simp: u_def)
  have idd: "set (ids (plugs fs t)) \<subseteq> dom (repo bt)" using rep_dom [OF okn(2)] .
  have t: "t = T (tid t) (items t) []" using leaf by (cases t) simp
  have ids: "ids t = [tid t]" by (subst t) simp
  have uo: "u \<noteq> tid t" "u \<notin> set (cids fs)" using un(2) idd ids unfolding set_ids_plugs by auto
  obtain i its kl kr fs' where f: "fs = F i its kl kr # fs'" using fs by (cases fs) (auto, metis frame.exhaust)
  obtain p where p: "repo bt i = Some p" "node_repr ?L p (parent_of fs') i its (map kid_id kl @ tid t # map kid_id kr)"
    using okn(2) unfolding rep_plugs f by auto
  have i: "i \<noteq> NilUUID" "i \<noteq> tid t" using ctx(4,7) by (auto simp: f)
  have nk: "tid t \<notin> set (map kid_id kl)" "tid t \<notin> set (map kid_id kr)"
    using kid_id_notin [OF okn(1) [unfolded f]] by simp_all
  define z :: "('k, 'v) item" where "z = zeroItem (zeroKey bt)"
  define r1 where "r1 = (emptyNode bt u i)\<lparr>Slots := drop (Suc h) X @ replicate h z, Count := h\<rparr>"
  define n1 where "n1 = n\<lparr>Slots := take h X @ replicate h z, Count := h\<rparr>"
  define n2 where "n2 = n1\<lparr>indexOfNode := int (length kl)\<rparr>"
  define h' where "h' = (repo bt)(tid t \<mapsto> n1, u \<mapsto> r1)"
  define b3 where "b3 = bt\<lparr>tempSlots := X, uuidNext := Suc (uuidNext bt), repo := (repo bt)(tid t \<mapsto> n1),
    tempParent := X ! h, tempParentChildren := [tid t, u]\<rparr>"
  define b4 where "b4 = b3\<lparr>repo := h'\<rparr>"
  define bt' where "bt' = b4\<lparr>repo := h'(tid t \<mapsto> n2), paTarget := Some i, paIndex := int (length kl)\<rparr>"
  have gi: "getIndexOfChild p n1 b4 = (Inr (int (length kl), n2), b4\<lparr>repo := h'(tid t \<mapsto> n2)\<rparr>)"
    using getIndexOfChild_rep [OF p(2) node_repr_simps(3) [OF p(2)], of n1 b4] nk ctx(6) s(1) nr uo(1)
    by (simp add: n1_def n2_def b4_def h'_def node_repr_def)
  have gn: "getNode i b3 = (Inr (Some p), b3)"
    using p okn(3) i by (intro getNode_rep) (auto simp: b3_def)
  have run: "addOnLeaf n it r bt = (Inr (), bt')"
  proof -
    let ?b = "bt\<lparr>tempSlots := X\<rparr>"
    define b2 where "b2 = ?b\<lparr>uuidNext := Suc (uuidNext bt)\<rparr>"
    have c: "createNode (ParentID n) ?b = (Inr (emptyNode bt u i), b2)"
      by (simp add: createNode_ok u_def b2_def emptyNode_def s(2) f)
    have sp: "splitSlots X h (n\<lparr>Slots := go_clear z (Slots n)\<rparr>) (emptyNode bt u i) b2 = (Inr (n1, r1), b2)"
      using lX h s(3) by (simp add: splitSlots_ok n1_def r1_def z_def)
    have a: "aget X h b2 = (Inr (X ! h), b2)" using lX h by (simp add: exec_simps)
    have id: "nodeID n1 = tid t" "nodeID r1 = u" "ParentID n1 = i" "nodeID p = i"
      using s(1,2) p(2) by (simp_all add: n1_def r1_def f node_repr_def)
    have m: "b2\<lparr>repo := (repo bt)(tid t \<mapsto> n1), tempParent := X ! h, tempParentChildren := [tid t, u]\<rparr> = b3" "repo b2 = repo bt"
      by (simp_all add: b2_def b3_def)
    have sv: "saveNode n1 b3 = (Inr (), b3)" "saveNode r1 b3 = (Inr (), b4)"
      using id ctx(6) un(1) by (simp_all add: saveNode_ok b3_def b4_def h'_def)
    have "splitAndPromote n X ?b = (Inr (), bt')"
      using c sp a gn sv gi
      by (simp add: splitAndPromote_def gbind_reads Let_def exec_simps h(1) putNode_ok id m bt'_def z_def)
    then show ?thesis using addOnLeaf_full [OF nr full r sh n llb] i(1) by (simp add: X_def f)
  qed
  define A B where "A = T (tid t) (take h X) []" and "B = T u (drop (Suc h) X) []"
  have lk: "length kl \<le> ?L" using node_repr_simps(5,10) [OF p(2)] by simp
  have N2: "node_repr ?L n2 i (tid t) (take h X) []"
    using lX h lk s leaf by (intro leaf_half_repr [where z = z and h = h]) (simp_all add: n1_def n2_def f)
  have R1: "node_repr ?L r1 i u (drop (Suc h) X) []"
    using lX h by (intro leaf_half_repr [where z = z and h = h]) (simp_all add: r1_def)
  have "pending bt' fs A (X ! h) B"
    unfolding pending_def
  proof (intro conjI)
    have "repf ?L (repo bt) (tid t) fs" using okn(2) by (simp add: rep_plugs)
    then show "repf (getSlotLength bt') (repo bt') (tid A) fs"
      using ctx(7) uo(2) by (simp add: bt'_def b4_def b3_def h'_def A_def)
    show "rep (getSlotLength bt') (repo bt') (parent_of fs) A" "rep (getSlotLength bt') (repo bt') (parent_of fs) B"
      using N2 R1 uo(1) by (simp_all add: bt'_def b4_def b3_def h'_def A_def B_def f)
    show "wfn A" "wfn B" using lX h by (auto simp: A_def B_def)
    show "distinct (cids fs @ ids A @ ids B)" "NilUUID \<notin> set (cids fs @ ids A @ ids B)"
      using ctx(1,4,6,7) uo un by (auto simp: A_def B_def)
  qed (use fs tree_ok_wf(4) [OF okn(1)] in \<open>simp_all add: bt'_def b4_def b3_def A_def B_def f\<close>)
  moreover have dm: "dom (repo bt') = dom (repo bt) \<union> {u}" using n by (auto simp: bt'_def h'_def)
  have "fresh bt' (Suc (length fs) + k)"
  proof (rule fresh_use [of bt 1])
    show "dom (repo bt') \<subseteq> dom (repo bt) \<union> uuidGen bt ` {uuidNext bt..<uuidNext bt + 1}" unfolding dm by (simp add: u_def)
  qed (use fr in \<open>simp_all add: bt'_def b4_def b3_def\<close>)
  moreover have "lctx fs @ inorder A @ X ! h # inorder B @ rctx fs = before_gap fs t r @ it # after_gap fs t r"
  proof -
    have "take h X @ X ! h # drop (Suc h) X = X" using id_take_nth_drop [of h X] lX h by simp
    then show ?thesis using leaf by (simp add: A_def B_def before_gap_def after_gap_def X_def [symmetric])
  qed
  moreover have "height A \<le> height t" "height B \<le> height t" using height_pos [of t] by (auto simp: A_def B_def Suc_le_eq simp del: height_pos)
  ultimately show ?thesis
    using run sh lX dm unfolding added_def
    by (intro exI [of _ bt'] conjI disjI2 exI [of _ A] exI [of _ "X ! h"] exI [of _ B])
      (auto simp: same_store_def bt'_def b4_def b3_def shape_ok_def A_def B_def ids)
qed

end
