(* ===== verification/Btree_Add.thy ===== *)
theory Btree_Add
  imports Btree_Leaf
begin

text \<open>
  \<open>Add\<close> and \<open>AddIfNotExist\<close>: the descent to the place of insertion, the insertion with its
  splits, and the invariant of a B-tree between operations.
\<close>

section \<open>The descent\<close>

lemma getIndexToInsertTo_ok:
  assumes nr: "node_repr L n p i its cs" and ko: "key_order (comparer bt)" and st: "keys_sorted (comparer bt) its"
  obtains r where "r \<le> length its" "\<forall>j<r. comparer bt (Key (its ! j)) (Key it) < 0"
    "r < length its \<longrightarrow> comparer bt (Key (its ! r)) (Key it) \<ge> 0"
    "getIndexToInsertTo n it bt = (Inr (r, isUnique bt \<and> r < length its \<and> comparer bt (Key (its ! r)) (Key it) = 0), bt)"
proof (cases "its = []")
  case True
  then show ?thesis
    using that [of 0] node_repr_simps(4) [OF nr] by (simp add: getIndexToInsertTo_def gbind_reads ret_apply)
next
  case False
  let ?c = "comparer bt"
  note s = node_repr_simps [OF nr]
  have mono: "?c (Key (its ! b)) (Key it) \<ge> 0" if "a \<le> b" "b < length its" "?c (Key (its ! a)) (Key it) \<ge> 0" for a b
    using that keys_sorted_nth [OF st, of a b] key_order.ge_mono [OF ko] by (cases "a = b") auto
  obtain r where r: "slotSearch n (\<lambda>x. ?c x (Key it) \<ge> 0) bt = (Inr r, bt)" "r \<le> length its"
    "\<forall>l<r. ?c (Key (its ! l)) (Key it) < 0" "r < length its \<longrightarrow> ?c (Key (its ! r)) (Key it) \<ge> 0"
    using slotSearch_rep [OF nr, of "\<lambda>x. ?c x (Key it) \<ge> 0" bt] mono by (auto simp: not_le)
  define j where "j = (if r \<ge> length its then r - 1 else r)"
  have j: "j < length its" using False r(2) by (cases its) (auto simp: j_def)
  have "?c (Key (its ! j)) (Key it) < 0" if "\<not> r < length its"
  proof -
    from that False have "j < r" by (cases its) (auto simp: j_def)
    with r(3) show ?thesis by blast
  qed
  then have "?c (Key (its ! j)) (Key it) = 0 \<longleftrightarrow> r < length its \<and> ?c (Key (its ! r)) (Key it) = 0"
    by (cases "r < length its") (auto simp: j_def)
  then have "getIndexToInsertTo n it bt = (Inr (r, isUnique bt \<and> r < length its \<and> ?c (Key (its ! r)) (Key it) = 0), bt)"
    using False r(1) s(3-6) j
    by (auto simp: getIndexToInsertTo_def gbind_reads compare_def [abs_def] exec_simps Let_def simp flip: j_def)
  with r that show ?thesis by blast
qed

text \<open>Where the descent ends: at an empty gap with smaller keys before and no smaller keys after.\<close>

definition insert_gap :: "('k, 'v) btree \<Rightarrow> 'k \<Rightarrow> ('k, 'v) frame list \<Rightarrow> ('k, 'v) tree \<Rightarrow> ('k, 'v) node \<Rightarrow> nat \<Rightarrow> bool" where
  "insert_gap bt k fs t n r \<longleftrightarrow> repo bt (tid t) = Some n \<and> r \<le> length (items t) \<and> kid_at t r = None \<and>
     all_below (comparer bt) k (before_gap fs t r) \<and> none_below (comparer bt) k (after_gap fs t r) \<and>
     (isUnique bt \<longrightarrow> all_above (comparer bt) k (after_gap fs t r))"

lemma addLoop_ok:
  assumes "key_order (comparer bt)" and "keys_sorted (comparer bt) (inorder (plugs fs t))"
    and "nav_ok bt (plugs fs t)" and "repo bt (tid t) = Some n" and "height t < f"
    and "all_below (comparer bt) (Key it) (lctx fs)" and "none_below (comparer bt) (Key it) (rctx fs)"
    and "isUnique bt \<longrightarrow> all_above (comparer bt) (Key it) (rctx fs)"
  shows "(isUnique bt \<and> (\<exists>i j pre x post. addLoop f n it bt = (Inr False, setCur i j bt) \<and>
      cursor_at (plugs fs t) i j pre x post \<and> comparer bt (Key x) (Key it) = 0)) \<or>
    (\<exists>fs' t' n' r. plugs fs' t' = plugs fs t \<and> insert_gap bt (Key it) fs' t' n' r \<and>
      addLoop f n it bt = (if kids t' = [] then gseq (addOnLeaf n' it r) (ret True) bt
                           else addItemOnNodeWithNilChild n' it r bt))"
  using assms
proof (induction f arbitrary: fs t n)
  case 0
  then show ?case by simp
next
  case (Suc g)
  let ?c = "comparer bt"
  note ok = nav_ok_simps [OF Suc.prems(3)] and nr = nav_node [OF Suc.prems(3,4)]
  note s = node_repr_simps [OF nr]
  have si: "keys_sorted ?c (items t)" using node_items_sorted [OF ok(1) Suc.prems(2)] .
  obtain r where r: "r \<le> length (items t)" "\<forall>j<r. ?c (Key (items t ! j)) (Key it) < 0"
    "r < length (items t) \<longrightarrow> ?c (Key (items t ! r)) (Key it) \<ge> 0"
    and gi: "getIndexToInsertTo n it bt = (Inr (r, isUnique bt \<and> r < length (items t) \<and> ?c (Key (items t ! r)) (Key it) = 0), bt)"
    using getIndexToInsertTo_ok [OF nr Suc.prems(1) si] by blast
  define ex where "ex \<longleftrightarrow> isUnique bt \<and> r < length (items t) \<and> ?c (Key (items t ! r)) (Key it) = 0"
  note gi = gi [folded ex_def] and gb = gap_bounds [OF Suc.prems(1) ok(1) Suc.prems(2,6,7) r]
  show ?case
  proof (cases ex)
    case True
    then have "addLoop (Suc g) n it bt = (Inr False, setCur (tid t) (int r) bt)"
      using gi ok(4) s(1) by (simp add: exec_simps setCurrentItemID_ok)
    moreover have "cursor_at (plugs fs t) (tid t) (int r) (before_gap fs t r @ io (kid_at t r)) (items t ! r)
        (io (kid_at t (Suc r)) @ after_gap fs t (Suc r))"
      using True unfolding ex_def cursor_at_gap [OF ok(1)] by blast
    ultimately show ?thesis using True unfolding ex_def by blast
  next
    case nex: False
    have ab: "isUnique bt \<longrightarrow> all_above ?c (Key it) (after_gap fs t r)"
    proof
      assume u: "isUnique bt"
      show "all_above ?c (Key it) (after_gap fs t r)"
      proof (cases "r < length (items t)")
        case False
        with r(1) gap_last_kid(1) [OF ok(1)] Suc.prems(8) u show ?thesis by simp
      next
        case True
        define xs where "xs = io (kid_at t (Suc r)) @ after_gap fs t (Suc r)"
        have e: "after_gap fs t r = items t ! r # xs" using gap_slot(1) [OF ok(1) True] by (simp add: xs_def)
        have gt: "?c (Key (items t ! r)) (Key it) > 0" using nex u True r(3) by (auto simp: ex_def)
        have "keys_sorted ?c (items t ! r # xs)"
          using Suc.prems(2) unfolding gap_inorder [OF ok(1) r(1)] e keys_sorted_append by blast
        from key_order.sorted_above [OF Suc.prems(1) this gt] gt show ?thesis unfolding e by simp
      qed
    qed
    show ?thesis
    proof (cases "kids t = []")
      case True
      have "addLoop (Suc g) n it bt = gseq (addOnLeaf n it r) (ret True) bt"
      proof (cases "isUnique bt \<and> 0 < length (items t)")
        case False
        then show ?thesis
          using gi nex True s(4) by (auto simp: gbind_step gbind_reads node_repr_hasChildren [OF nr])
      next
        case un: True
        define j where "j = (if 0 < r \<and> r \<ge> length (items t) then r - 1 else r)"
        have j: "j < length (items t)" using un r(1) by (auto simp: j_def)
        have "?c (Key (items t ! j)) (Key it) \<noteq> 0"
        proof (cases "r < length (items t)")
          case True
          with un nex show ?thesis by (auto simp: j_def ex_def)
        next
          case False
          with un have "0 < r" by linarith
          with False have "j < r" by (simp add: j_def)
          with r(2) show ?thesis by force
        qed
        then show ?thesis
          using gi nex True s(3-6) un j
          by (simp add: gbind_step gbind_reads node_repr_hasChildren [OF nr] Let_def aget_ok compare_def flip: j_def)
      qed
      then show ?thesis
        using True r gb ab Suc.prems(4) by (intro disjI2 exI [of _ fs] exI [of _ t] exI [of _ n] exI [of _ r])
          (simp add: insert_gap_def kid_at_def)
    next
      case ks: False
      note c = children_nth_rep [OF nr ks r(1)] and gc = getChild_rep [OF Suc.prems(3,4) ks r(1)]
      have hc: "hasChildren n" using ks by (simp add: node_repr_hasChildren [OF nr])
      show ?thesis
      proof (cases "kids t ! r")
        case None
        have "\<exists>b. addItemOnNodeWithNilChild n it r bt = (Inr True, b) \<or> (\<exists>e. addItemOnNodeWithNilChild n it r bt = (Inl e, b))"
          using c None by (simp add: addItemOnNodeWithNilChild_def exec_simps createNode_ok aset_def sset_def lift_res_def
            saveNode_def repoUpsert_def newUUID_ok)
        then have "addLoop (Suc g) n it bt = addItemOnNodeWithNilChild n it r bt"
          using gi nex hc by (auto simp: exec_simps)
        then show ?thesis
          using ks r gb ab Suc.prems(4) None by (intro disjI2 exI [of _ fs] exI [of _ t] exI [of _ n] exI [of _ r])
            (simp add: insert_gap_def kid_at_def)
      next
        case (Some v)
        from gc(2) [OF Some] obtain m where m: "getChild n r bt = (Inr (Some m), bt)" "repo bt (tid v) = Some m"
          "plugs (frame_at t r # fs) v = plugs fs t" "tid v \<noteq> NilUUID" by blast
        have "addItemOnNodeWithNilChild n it r bt = (Inr False, bt)"
          using c Some m(4) by (simp add: addItemOnNodeWithNilChild_def exec_simps)
        then have step: "addLoop (Suc g) n it bt = addLoop g m it bt"
          using gi nex hc m(1) by (simp add: exec_simps)
        have lr: "lctx (frame_at t r # fs) = before_gap fs t r" "rctx (frame_at t r # fs) = after_gap fs t r"
          using c(1) by (simp_all add: lctx_frame_at rctx_frame_at del: lctx.simps rctx.simps)
        have "height v < g" using kid_facts(2) [OF ok(1) c(1) Some] Suc.prems(5) by simp
        from Suc.IH [of "frame_at t r # fs" v m, unfolded lr m(3), OF Suc.prems(1-3) m(2) this gb ab]
        show ?thesis unfolding step .
      qed
    qed
  qed
qed

section \<open>The invariant between operations\<close>

text \<open>
  No action is pending, leaf load balancing is off, the comparer is a total order, and the scratch
  arrays have their sizes.
\<close>

definition store_ready :: "('k, 'v) btree \<Rightarrow> bool" where
  "store_ready bt \<longleftrightarrow> shape_ok bt \<and> daSource bt = None \<and> paTarget bt = None \<and>
     \<not> LeafLoadBalancing (StoreInfo bt) \<and> key_order (comparer bt)"

text \<open>
  The invariant: the heap represents \<open>rt\<close> and holds no other node, the items are sorted by key and
  have IDs, and the store is ready.
\<close>

definition btree_inv :: "('k, 'v) btree \<Rightarrow> ('k, 'v) tree \<Rightarrow> bool" where
  "btree_inv bt rt \<longleftrightarrow> heap_ok bt rt \<and> store_ready bt \<and> keys_sorted (comparer bt) (inorder rt) \<and>
     (\<forall>x\<in>set (inorder rt). itemID x \<noteq> NilUUID) \<and> dom (repo bt) = set (ids rt)"

text \<open>The specification of an insertion: before the first item whose key is not smaller.\<close>

definition ins_item :: "('k \<Rightarrow> 'k \<Rightarrow> int) \<Rightarrow> ('k, 'v) item \<Rightarrow> ('k, 'v) item list \<Rightarrow> ('k, 'v) item list" where
  "ins_item cmp it xs = takeWhile (\<lambda>x. cmp (Key x) (Key it) < 0) xs @ it # dropWhile (\<lambda>x. cmp (Key x) (Key it) < 0) xs"

lemma ins_item_gap:
  assumes "all_below cmp (Key it) xs" and "none_below cmp (Key it) ys"
  shows "ins_item cmp it (xs @ ys) = xs @ it # ys"
proof -
  have "takeWhile (\<lambda>x. cmp (Key x) (Key it) < 0) ys = [] \<and> dropWhile (\<lambda>x. cmp (Key x) (Key it) < 0) ys = ys"
    using assms(2) by (cases ys) auto
  then show ?thesis using assms(1) by (simp add: ins_item_def all_below_def)
qed

lemma set_ins_item: "set (ins_item cmp it xs) = insert it (set xs)"
  using takeWhile_dropWhile_id [of "\<lambda>x. cmp (Key x) (Key it) < 0" xs]
  unfolding ins_item_def by (metis Un_insert_right list.simps(15) set_append)

lemma length_ins_item: "length (ins_item cmp it xs) = Suc (length xs)"
  using takeWhile_dropWhile_id [of "\<lambda>x. cmp (Key x) (Key it) < 0" xs]
  unfolding ins_item_def by (metis add_Suc_right length_Cons length_append)

context key_order
begin

lemma ins_item_sorted:
  assumes "keys_sorted cmp xs" and "xs = as @ bs" and "all_below cmp (Key it) as" and "none_below cmp (Key it) bs"
  shows "keys_sorted cmp (ins_item cmp it xs)"
  using assms cmp_le_swap
  by (fastforce simp: ins_item_gap keys_sorted_append keys_sorted_Cons all_below_def none_below_def)

end

section \<open>Finishing an insertion\<close>

lemma log_simps [simp]:
  "same_store (bt\<lparr>trackerLog := l\<rparr>) (bt'\<lparr>trackerLog := l\<rparr>) \<longleftrightarrow> same_store bt (bt'\<lparr>trackerLog := trackerLog bt\<rparr>)"
  "shape_ok (bt\<lparr>trackerLog := l\<rparr>) \<longleftrightarrow> shape_ok bt" "fresh (bt\<lparr>trackerLog := l\<rparr>) k \<longleftrightarrow> fresh bt k"
  "pending (bt\<lparr>trackerLog := l\<rparr>) fs t1 m t2 \<longleftrightarrow> pending bt fs t1 m t2"
  by (cases bt; cases bt'; simp add: same_store_def) (simp_all add: shape_ok_def fresh_def pending_def)

lemma same_store_log: "same_store bt bt' \<Longrightarrow> bt'\<lparr>trackerLog := trackerLog bt\<rparr> = bt'"
  using same_store_simps(7) [of bt bt'] by simp

lemma added_log: "added bt bt' fs t xs k \<Longrightarrow> added (bt\<lparr>trackerLog := l\<rparr>) (bt'\<lparr>trackerLog := l\<rparr>) fs t xs k"
  unfolding added_def grown_def by (elim disjE exE conjE) (rule disjI1 disjI2; simp add: same_store_log; blast)+

lemma added_promote:
  assumes a: "added bt b fs t xs k" and rf: "repoFail bt = (\<lambda>_. None)" and f: "length fs < fuel bt"
  shows "\<exists>bt' rt. promote b = (Inr (), bt') \<and> grown bt bt' rt xs (set (ids (plugs fs t))) k \<and>
    tid rt = tid (plugs fs t) \<and> height rt \<le> Suc (height (plugs fs t))"
  using a unfolding added_def
proof (elim disjE exE conjE)
  fix rt assume g: "grown bt b rt xs (set (ids (plugs fs t))) k" "tid rt = tid (plugs fs t)" "height rt \<le> Suc (height (plugs fs t))"
  have "fuel b = fuel bt" "paTarget b = None" using g(1) same_store_simps(3) by (auto simp: grown_def)
  then have "promote b = (Inr (), b)" using f by (cases "fuel bt") (simp_all add: promote_def exec_simps)
  with g show ?thesis by blast
next
  fix t1 m t2
  assume p: "pending b fs t1 m t2" "same_store bt b" "shape_ok b" "fresh b (Suc (length fs) + k)"
    "lctx fs @ inorder t1 @ m # inorder t2 @ rctx fs = xs" "height t1 \<le> height t" "height t2 \<le> height t"
    and d: "dom (repo b) = insert (tid t2) (dom (repo bt))" "set (ids t1) \<union> set (ids t2) = insert (tid t2) (set (ids t))"
  note ss = same_store_simps [OF p(2)]
  have "repoFail b = (\<lambda>_. None)" "length fs < fuel b" using rf f ss by simp_all
  from promoteLoop_ok [OF p(1,3) this p(4,6,7)] obtain bt' rt where q: "promoteLoop (fuel b) b = (Inr (), bt')"
    "grown b bt' rt xs (set (cids fs @ ids t1 @ ids t2)) k" "tid rt = fid (last fs)" "height rt \<le> Suc (height (plugs fs t))"
    unfolding p(5) by blast
  from q(2) obtain N where N: "dom (repo bt') = dom (repo b) \<union> N" "set (ids rt) = set (cids fs @ ids t1 @ ids t2) \<union> N"
    by (auto simp: grown_def)
  have "dom (repo bt') = dom (repo bt) \<union> insert (tid t2) N" using N(1) d(1) by auto
  moreover have "set (ids rt) = set (ids (plugs fs t)) \<union> insert (tid t2) N"
    using N(2) d(2) unfolding set_ids_plugs by auto
  ultimately have "grown bt bt' rt xs (set (ids (plugs fs t))) k"
    using q(2) same_store_trans [OF p(2)] ss(13) unfolding grown_def by auto
  moreover have "tid rt = tid (plugs fs t)" using q(3) p(1) by (simp add: tid_plugs pending_def)
  ultimately show ?thesis using q(1,4) by (auto simp: promote_def gbind_reads)
qed

lemma inferSchema_ok:
  "\<exists>s. inferSchemaOfFirst infer it bt = (Inr (), bt\<lparr>StoreInfo := s\<rparr>) \<and> RootNodeID s = RootNodeID (StoreInfo bt) \<and>
    si_Count s = si_Count (StoreInfo bt) \<and> SlotLength s = SlotLength (StoreInfo bt) \<and>
    dropsValues s = dropsValues (StoreInfo bt) \<and> LeafLoadBalancing s = LeafLoadBalancing (StoreInfo bt) \<and>
    IsUnique s = IsUnique (StoreInfo bt)"
proof (cases "si_Count (StoreInfo bt) = 0")
  case True
  obtain a b c where i: "infer (Key it) (Value it) = (a, b, c)" by (cases "infer (Key it) (Value it)")
  show ?thesis
    using True by (intro exI [of _ "(StoreInfo bt)\<lparr>Schema := a, KeyFields := b, ValueFields := c, NeedsMetaDataSave := True\<rparr>"])
      (simp add: inferSchemaOfFirst_def modify_apply i dropsValues_def)
next
  case False
  then show ?thesis by (intro exI [of _ "StoreInfo bt"]) (simp add: inferSchemaOfFirst_def modify_apply)
qed

text \<open>What an insertion of \<open>it\<close> does to a tree with the in-order sequence \<open>xs\<close>.\<close>

lemma finish_add:
  assumes a: "added bt b fs t (ins_item (comparer bt) it (inorder rt)) k" and rt: "rt = plugs fs t"
    and inv: "btree_inv bt rt" and hf: "Suc (height rt) < fuel bt" and id: "itemID it \<noteq> NilUUID"
    and srt: "keys_sorted (comparer bt) (ins_item (comparer bt) it (inorder rt))"
  shows "\<exists>bt' rt'. gseq distribute (gseq promote (gseq (inferSchemaOfFirst infer it')
      (gseq (changeCount 1) (ret True)))) b = (Inr True, bt') \<and>
    btree_inv bt' rt' \<and> inorder rt' = ins_item (comparer bt) it (inorder rt) \<and> height rt' \<le> Suc (height rt) \<and>
    fresh bt' k \<and> comparer bt' = comparer bt \<and> isUnique bt' = isUnique bt \<and> trackerLog bt' = trackerLog bt \<and>
    fuel bt' = fuel bt \<and> tracker bt' = tracker bt"
proof -
  have hp: "heap_ok bt rt" and rd: "store_ready bt" using inv by (simp_all add: btree_inv_def)
  note nav = nav_ok_simps [OF heap_ok_nav [OF hp]]
  have "same_store bt b" using a by (auto simp: added_def grown_def)
  from same_store_simps(3,12) [OF this] have da: "daSource b = None" "fuel b = fuel bt" using rd by (simp_all add: store_ready_def)
  then have dist: "distribute b = (Inr (), b)"
    using hf by (cases "fuel bt") (simp_all add: distribute_def exec_simps)
  have "length fs < fuel bt" using hf height_plugs [of t fs] rt by simp
  from added_promote [OF a nav(3) this] obtain b2 rt' where p: "promote b = (Inr (), b2)"
    and g: "grown bt b2 rt' (ins_item (comparer bt) it (inorder rt)) (set (ids rt)) k"
    and r: "tid rt' = tid rt" "height rt' \<le> Suc (height rt)" unfolding rt [symmetric] by blast
  from g have ss: "same_store bt b2" and g': "shape_ok b2" "fresh b2 k" "paTarget b2 = None" "tree_ok rt'"
    "rep (getSlotLength bt) (repo b2) NilUUID rt'" "inorder rt' = ins_item (comparer bt) it (inorder rt)"
    and N: "\<exists>N. dom (repo b2) = dom (repo bt) \<union> N \<and> set (ids rt') = set (ids rt) \<union> N" by (auto simp: grown_def)
  note s = same_store_simps [OF ss]
  obtain si where i: "inferSchemaOfFirst infer it' b2 = (Inr (), b2\<lparr>StoreInfo := si\<rparr>)"
    "RootNodeID si = RootNodeID (StoreInfo b2)" "si_Count si = si_Count (StoreInfo b2)" "SlotLength si = SlotLength (StoreInfo b2)"
    "dropsValues si = dropsValues (StoreInfo b2)" "LeafLoadBalancing si = LeafLoadBalancing (StoreInfo b2)"
    "IsUnique si = IsUnique (StoreInfo b2)" using inferSchema_ok by blast
  define bt' where "bt' = b2\<lparr>StoreInfo := si\<lparr>si_Count := si_Count si + 1\<rparr>\<rparr>"
  have run: "gseq distribute (gseq promote (gseq (inferSchemaOfFirst infer it') (gseq (changeCount 1) (ret True)))) b = (Inr True, bt')"
    using dist p i(1) by (simp add: exec_simps changeCount_def bt'_def)
  have sl: "getSlotLength bt' = getSlotLength bt" using i(4) s(1) by (simp add: getSlotLength_def bt'_def)
  have "heap_ok bt' rt'"
    using hp hf r g' i s sl by (simp add: heap_ok_def nav_ok_def bt'_def length_ins_item dropsValues_def)
  moreover have "store_ready bt'"
    using rd g' s i(6) sl by (simp add: store_ready_def bt'_def shape_ok_def)
  moreover have "dom (repo bt') = set (ids rt')" using N inv by (auto simp: btree_inv_def bt'_def)
  moreover have "\<forall>x\<in>set (inorder rt'). itemID x \<noteq> NilUUID"
    using inv id unfolding g'(6) by (auto simp: set_ins_item btree_inv_def)
  moreover have "keys_sorted (comparer bt') (inorder rt')" using srt s g'(6) by (simp add: bt'_def)
  ultimately have "btree_inv bt' rt'" by (simp add: btree_inv_def)
  moreover have "fresh bt' k" using g'(2) by (simp add: fresh_def bt'_def)
  moreover have "comparer bt' = comparer bt" "isUnique bt' = isUnique bt" "trackerLog bt' = trackerLog bt" "fuel bt' = fuel bt"
    "tracker bt' = tracker bt"
    using s i(7) by (simp_all add: bt'_def isUnique_def)
  ultimately show ?thesis using run r(2) g'(6) by blast
qed

section \<open>Adding an item\<close>

lemma getRootNode_inv:
  assumes "heap_ok bt rt"
  obtains n where "getRootNode bt = (Inr n, bt)" "repo bt (tid rt) = Some n"
proof -
  note nav = heap_ok_nav [OF assms]
  from nav_lookup [of bt "[]" rt] nav obtain n where n: "repo bt (tid rt) = Some n"
    "getNode (tid rt) bt = (Inr (Some n), bt)" by auto
  have "tid rt \<noteq> NilUUID" using tree_ok_ctx(6) [of "[]" rt] nav_ok_simps(1) [OF nav] by simp
  with assms n have "getRootNode bt = (Inr n, bt)"
    by (cases "si_Count (StoreInfo bt) = 0") (simp_all add: getRootNode_def exec_simps heap_ok_def Let_def)
  with n that show ?thesis by blast
qed

lemma insert_gap_added:
  assumes inv: "btree_inv bt rt" and rt: "rt = plugs fs t" and g: "insert_gap bt (Key it) fs t n r"
    and fr: "fresh bt (Suc (height rt) + k)"
  obtains b where "(if kids t = [] then gseq (addOnLeaf n it r) (ret True) bt else addItemOnNodeWithNilChild n it r bt) = (Inr True, b)"
    "added bt b fs t (ins_item (comparer bt) it (inorder rt)) k"
    "keys_sorted (comparer bt) (ins_item (comparer bt) it (inorder rt))"
    "\<not> (isUnique bt \<and> (\<exists>x\<in>set (inorder rt). comparer bt (Key x) (Key it) = 0))"
proof -
  have hp: "heap_ok bt rt" and rd: "store_ready bt" and st: "keys_sorted (comparer bt) (inorder rt)"
    using inv by (simp_all add: btree_inv_def)
  have nav: "nav_ok bt (plugs fs t)" using heap_ok_nav [OF hp] rt by simp
  note ok = nav_ok_simps [OF nav]
  from g have n: "repo bt (tid t) = Some n" and r: "r \<le> length (items t)" and kn: "kid_at t r = None"
    and lo: "all_below (comparer bt) (Key it) (before_gap fs t r)" and hi: "none_below (comparer bt) (Key it) (after_gap fs t r)"
    and un: "isUnique bt \<longrightarrow> all_above (comparer bt) (Key it) (after_gap fs t r)" by (simp_all add: insert_gap_def)
  have rd': "shape_ok bt" "paTarget bt = None" "\<not> LeafLoadBalancing (StoreInfo bt)" "key_order (comparer bt)"
    using rd by (simp_all add: store_ready_def)
  have io: "inorder rt = before_gap fs t r @ after_gap fs t r" using gap_inorder [OF ok(1) r] kn rt by simp
  have ins: "ins_item (comparer bt) it (inorder rt) = before_gap fs t r @ it # after_gap fs t r"
    unfolding io using lo hi by (rule ins_item_gap)
  have len: "Suc (length fs) \<le> height rt" using height_plugs [of t fs] height_pos [of t] unfolding rt by linarith
  have "\<exists>b. (if kids t = [] then gseq (addOnLeaf n it r) (ret True) bt else addItemOnNodeWithNilChild n it r bt) = (Inr True, b) \<and>
      added bt b fs t (before_gap fs t r @ it # after_gap fs t r) k"
  proof (cases "kids t = []")
    case False
    have "node_repr (getSlotLength bt) n (parent_of fs) (tid t) (items t) (map kid_id (kids t))" using nav_node [OF nav n] .
    from children_nth_rep(1) [OF this False r] kn have "kids t ! r = None" by (simp add: kid_at_def)
    with nil_child [OF nav n False r _ rd'(1) _ rd'(2), of k it] fresh_mono [OF fr] False len show ?thesis by simp
  next
    case True
    have "\<exists>b. addOnLeaf n it r bt = (Inr (), b) \<and> added bt b fs t (before_gap fs t r @ it # after_gap fs t r) k"
    proof (cases "length (items t) < getSlotLength bt")
      case lt: True
      show ?thesis using leaf_room [OF nav n True r lt rd'(1) _ rd'(2), of k it] fresh_mono [OF fr] by simp
    next
      case False
      then have full: "length (items t) = getSlotLength bt"
        using nav_node [OF nav n] node_repr_simps(5) by (metis le_neq_implies_less)
      show ?thesis
      proof (cases fs)
        case Nil
        with leaf_root_full [of bt t n r k it] nav n True r full rd' fresh_mono [OF fr, of "Suc (Suc k)"] len show ?thesis by simp
      next
        case (Cons f gs)
        then have "fs \<noteq> []" by simp
        from leaf_split [OF nav n True this r full rd'(1) _ rd'(3), of k it] fresh_mono [OF fr] len show ?thesis by simp
      qed
    qed
    then show ?thesis using True by (auto simp: gseq_step ret_apply)
  qed
  moreover have "keys_sorted (comparer bt) (ins_item (comparer bt) it (inorder rt))"
    using key_order.ins_item_sorted [OF rd'(4) st io lo hi] .
  moreover have "\<not> (isUnique bt \<and> (\<exists>x\<in>set (inorder rt). comparer bt (Key x) (Key it) = 0))"
    using un lo unfolding io by (force simp: all_below_def all_above_def)
  ultimately show ?thesis using that unfolding ins by blast
qed

lemma node_add_ok:
  assumes inv: "btree_inv bt rt" and n: "repo bt (tid rt) = Some n" and fr: "fresh bt (Suc (height rt) + k)"
  shows "if isUnique bt \<and> (\<exists>x\<in>set (inorder rt). comparer bt (Key x) (Key it) = 0)
    then \<exists>i j pre x post. node_add n it bt = (Inr False, setCur i j bt) \<and> cursor_at rt i j pre x post \<and>
           comparer bt (Key x) (Key it) = 0
    else \<exists>b fs t. node_add n it bt = (Inr True, b) \<and> rt = plugs fs t \<and>
           added bt b fs t (ins_item (comparer bt) it (inorder rt)) k \<and>
           keys_sorted (comparer bt) (ins_item (comparer bt) it (inorder rt))"
proof -
  have hp: "heap_ok bt rt" and rd: "store_ready bt" and st: "keys_sorted (comparer bt) (inorder rt)"
    using inv by (simp_all add: btree_inv_def)
  note nav = heap_ok_nav [OF hp]
  have ko: "key_order (comparer bt)" and hf: "height rt < fuel bt" using rd hp by (simp_all add: store_ready_def heap_ok_def)
  have na: "node_add n it bt = addLoop (fuel bt) n it bt" by (simp add: node_add_def gbind_reads)
  have al: "(isUnique bt \<and> (\<exists>i j pre x post. addLoop (fuel bt) n it bt = (Inr False, setCur i j bt) \<and>
      cursor_at rt i j pre x post \<and> comparer bt (Key x) (Key it) = 0)) \<or>
    (\<exists>fs' t' n' r. plugs fs' t' = rt \<and> insert_gap bt (Key it) fs' t' n' r \<and>
      addLoop (fuel bt) n it bt = (if kids t' = [] then gseq (addOnLeaf n' it r) (ret True) bt
                           else addItemOnNodeWithNilChild n' it r bt))"
    by (rule addLoop_ok [of bt "[]" rt n "fuel bt" it, unfolded plugs.simps(1)]) (use ko st nav n hf in simp_all)
  then consider (dup) "isUnique bt" "\<exists>i j pre x post. node_add n it bt = (Inr False, setCur i j bt) \<and>
      cursor_at rt i j pre x post \<and> comparer bt (Key x) (Key it) = 0"
    | (ins) fs t n' r where "rt = plugs fs t" "insert_gap bt (Key it) fs t n' r"
      "node_add n it bt = (if kids t = [] then gseq (addOnLeaf n' it r) (ret True) bt else addItemOnNodeWithNilChild n' it r bt)"
    unfolding na by blast
  then show ?thesis
  proof cases
    case dup
    then obtain i j pre x post where c: "cursor_at rt i j pre x post" "comparer bt (Key x) (Key it) = 0" by blast
    then have "\<exists>x\<in>set (inorder rt). comparer bt (Key x) (Key it) = 0"
      using cursor_at_inorder [OF nav_ok_simps(1) [OF nav]] by auto
    with dup show ?thesis by simp
  next
    case ins
    from insert_gap_added [OF inv ins(1,2) fr] obtain b where
      b: "node_add n it bt = (Inr True, b)" "added bt b fs t (ins_item (comparer bt) it (inorder rt)) k"
        "keys_sorted (comparer bt) (ins_item (comparer bt) it (inorder rt))"
      and no: "\<not> (isUnique bt \<and> (\<exists>x\<in>set (inorder rt). comparer bt (Key x) (Key it) = 0))" unfolding ins(3) by blast
    show ?thesis unfolding if_not_P [OF no] using b ins(1) by blast
  qed
qed

text \<open>The item that \<open>Add\<close> creates: the next UUID as its ID.\<close>

definition newItemOf :: "('k, 'v) btree \<Rightarrow> 'k \<Rightarrow> 'v \<Rightarrow> ('k, 'v) item" where
  "newItemOf bt key v = \<lparr>itemID = uuidGen bt (uuidNext bt), Key = key, Value = Some v,
     itemVersion = 0, ValueNeedsFetch = False, valueWasFetched = False\<rparr>"

lemma newItem_ok: "newItem key v bt = (Inr (newItemOf bt key v), bt\<lparr>uuidNext := Suc (uuidNext bt)\<rparr>)"
  by (simp add: newItem_def newUUID_ok exec_simps newItemOf_def)

lemma btree_inv_next: "btree_inv bt rt \<Longrightarrow> btree_inv (bt\<lparr>uuidNext := m\<rparr>) rt"
  by (simp add: btree_inv_def heap_ok_def nav_ok_def store_ready_def shape_ok_def)

lemma btree_inv_log: "btree_inv bt rt \<Longrightarrow> btree_inv (bt\<lparr>trackerLog := l\<rparr>) rt"
  by (simp add: btree_inv_def heap_ok_def nav_ok_def store_ready_def)

lemma Add_ok:
  assumes inv: "btree_inv bt rt" and hf: "Suc (height rt) < fuel bt" and fr: "fresh bt (height rt + 2 + k)"
    and trk: "tracker bt (trackerLog bt) AddAction (newItemOf bt key v) = Inr it'"
    and new: "\<not> (isUnique bt \<and> (\<exists>x\<in>set (inorder rt). comparer bt (Key x) key = 0))"
  shows "\<exists>bt' rt'. Add infer key v bt = (Inr True, bt') \<and> btree_inv bt' rt' \<and>
    inorder rt' = ins_item (comparer bt) (newItemOf bt key v) (inorder rt) \<and> height rt' \<le> Suc (height rt) \<and>
    trackerLog bt' = trackerLog bt @ [(AddAction, newItemOf bt key v)] \<and> fresh bt' k \<and>
    comparer bt' = comparer bt \<and> isUnique bt' = isUnique bt \<and> fuel bt' = fuel bt \<and> tracker bt' = tracker bt"
proof -
  let ?it = "newItemOf bt key v" and ?b0 = "bt\<lparr>uuidNext := Suc (uuidNext bt)\<rparr>"
  let ?l = "trackerLog bt @ [(AddAction, ?it)]"
  have k: "Key ?it = key" by (simp add: newItemOf_def)
  have inv0: "btree_inv ?b0 rt" using btree_inv_next [OF inv] .
  have fr0: "fresh ?b0 (Suc (height rt) + k)" using fresh_Suc [of bt "Suc (height rt) + k"] fr by simp
  from getRootNode_inv [of ?b0 rt] inv0 obtain n where n: "getRootNode ?b0 = (Inr n, ?b0)" "repo ?b0 (tid rt) = Some n"
    by (auto simp: btree_inv_def)
  have new0: "\<not> (isUnique ?b0 \<and> (\<exists>x\<in>set (inorder rt). comparer ?b0 (Key x) (Key ?it) = 0))" using new k by (simp add: isUnique_def)
  from node_add_ok [OF inv0 n(2) fr0, of ?it, unfolded if_not_P [OF new0]] obtain b fs t where
    a: "node_add n ?it ?b0 = (Inr True, b)" "rt = plugs fs t" "added ?b0 b fs t (ins_item (comparer bt) ?it (inorder rt)) k"
      "keys_sorted (comparer bt) (ins_item (comparer bt) ?it (inorder rt))" by auto
  have "same_store ?b0 b" using a(3) by (auto simp: added_def grown_def)
  note ss = same_store_simps(7,8) [OF this]
  have trk': "track AddAction ?it b = (Inr it', b\<lparr>trackerLog := ?l\<rparr>)" using trk ss by (simp add: track_def exec_simps)
  have id: "itemID ?it \<noteq> NilUUID" using fresh_next(1) [of bt "height rt + 1 + k"] fr by (simp add: newItemOf_def)
  obtain bt' rt' where f: "gseq distribute (gseq promote (gseq (inferSchemaOfFirst infer it')
      (gseq (changeCount 1) (ret True)))) (b\<lparr>trackerLog := ?l\<rparr>) = (Inr True, bt')"
    "btree_inv bt' rt'" "inorder rt' = ins_item (comparer bt) ?it (inorder rt)" "height rt' \<le> Suc (height rt)"
    "fresh bt' k" "comparer bt' = comparer bt" "isUnique bt' = isUnique bt" "trackerLog bt' = ?l" "fuel bt' = fuel bt" "tracker bt' = tracker bt"
    using finish_add [of "?b0\<lparr>trackerLog := ?l\<rparr>" "b\<lparr>trackerLog := ?l\<rparr>" fs t ?it rt k infer it']
      added_log [OF a(3), of ?l] a(2,4) btree_inv_log [OF inv0] hf id by (auto simp: isUnique_def)
  have "Add infer key v bt = (Inr True, bt')"
    using n(1) a(1) trk' f(1) by (simp add: Add_def newItem_ok gbind_step)
  with f show ?thesis by blast
qed

text \<open>
  C1. \<open>Add\<close> of a key that is new, or to a store that allows duplicates, returns true, inserts
  one item with that key and value before the first item with a key that is not smaller, logs the
  add action, and keeps the invariant: the tree stays well-formed and sorted, the item count is
  right, no node is lost or orphaned, whatever splits the insertion needs.
\<close>

theorem Add_inserts:
  assumes inv: "btree_inv bt rt" and hf: "Suc (height rt) < fuel bt" and fr: "fresh bt (height rt + 2 + k)"
    and trk: "tracker bt (trackerLog bt) AddAction (newItemOf bt key v) = Inr it'"
    and new: "\<not> (isUnique bt \<and> (\<exists>x\<in>set (inorder rt). comparer bt (Key x) key = 0))"
  shows "\<exists>bt' rt'. Add infer key v bt = (Inr True, bt') \<and> btree_inv bt' rt' \<and>
    inorder rt' = ins_item (comparer bt) (newItemOf bt key v) (inorder rt) \<and> height rt' \<le> Suc (height rt) \<and>
    trackerLog bt' = trackerLog bt @ [(AddAction, newItemOf bt key v)] \<and> fresh bt' k \<and>
    comparer bt' = comparer bt \<and> isUnique bt' = isUnique bt \<and> fuel bt' = fuel bt \<and> tracker bt' = tracker bt"
  using assms by (rule Add_ok)

end
