(* ===== verification/Btree_Sample.thy ===== *)
theory Btree_Sample
  imports Btree_Add
begin

text \<open>
  A concrete store with slot length 2 (a root with one item and two leaves), on which the
  hypotheses of the B-tree's theorems are evaluated and the theorems are applied.
\<close>

section \<open>The sample store\<close>

definition sample_item :: "uuid \<Rightarrow> int \<Rightarrow> (int, int) item" where
  "sample_item i k = \<lparr>itemID = i, Key = k, Value = Some (10 * k), itemVersion = 0,
     ValueNeedsFetch = False, valueWasFetched = False\<rparr>"

definition sample_node :: "uuid \<Rightarrow> uuid \<Rightarrow> (int, int) item \<Rightarrow> uuid list option \<Rightarrow> (int, int) node" where
  "sample_node i p it cs = \<lparr>nodeID = i, ParentID = p, Slots = [it, zeroItem 0], Count = 1,
     nodeVersion = 0, ChildrenIDs = cs, indexOfNode = -1\<rparr>"

definition sample_info :: "bool \<Rightarrow> store_info" where
  "sample_info u = \<lparr>si_Name = ''sample'', SlotLength = 2, IsUnique = u, si_Description = '''',
     RegistryTable = ''sample_r'', BlobTable = ''sample_b'', RootNodeID = 1, si_Count = 3,
     CountDelta = 0, Timestamp = 0, IsValueDataInNodeSegment = True,
     IsValueDataActivelyPersisted = False, IsValueDataGloballyCached = False,
     LeafLoadBalancing = False,
     CacheConfig = \<lparr>RegistryCacheDuration = 0, IsRegistryCacheTTL = False, NodeCacheDuration = 0,
       IsNodeCacheTTL = False, ValueDataCacheDuration = 0, IsValueDataCacheTTL = False,
       StoreInfoCacheDuration = 0, IsStoreInfoCacheTTL = False\<rparr>,
     MapKeyIndexSpecification = '''', CELexpression = '''', IsPrimitiveKey = True,
     Relations = [], Schema = Map.empty, KeyFields = [], ValueFields = [], CustomData = None,
     NeedsMetaDataSave = False, si_Version = ''1''\<rparr>"

text \<open>Node 1 is the root with key 2, nodes 2 and 3 are the leaves with the keys 1 and 3.\<close>

definition sample_bt :: "bool \<Rightarrow> uuid \<Rightarrow> int \<Rightarrow> (int, int) btree" where
  "sample_bt u cur idx = \<lparr>StoreInfo = sample_info u,
     repo = [1 \<mapsto> sample_node 1 0 (sample_item 12 2) (Some [2, 3, 0]),
             2 \<mapsto> sample_node 2 1 (sample_item 11 1) None,
             3 \<mapsto> sample_node 3 1 (sample_item 13 3) None],
     repoFail = (\<lambda>_. None), fetched = [], tracker = (\<lambda>log a it. Inr it), trackerLog = [],
     tempSlots = replicate 3 (zeroItem 0), tempParent = zeroItem 0,
     tempChildren = [0, 0, 0, 0], tempParentChildren = [0, 0],
     curNodeID = cur, curItemIndex = idx, currentItem = NilPtr, daSource = None,
     daItem = zeroItem 0, daToLeft = False, paTarget = None, paIndex = 0,
     comparer = cmp_int, zeroKey = 0, zeroValue = 0, uuidGen = (\<lambda>n. word_of_nat (n + 20)),
     uuidNext = 0, fuel = 9\<rparr>"

definition sample_tree :: "(int, int) tree" where
  "sample_tree = T 1 [sample_item 12 2]
     [Some (T 2 [sample_item 11 1] []), Some (T 3 [sample_item 13 3] [])]"

lemma sample_inorder:
  "inorder sample_tree = [sample_item 11 1, sample_item 12 2, sample_item 13 3]"
  by (simp add: sample_tree_def)

lemma sample_height: "height sample_tree = 2"
  by (simp add: sample_tree_def)

lemma sample_slot_length: "getSlotLength (sample_bt u cur idx) = 2"
  by (simp add: getSlotLength_def sample_bt_def sample_info_def MaxSlotLength_def)

lemma sample_nav: "nav_ok (sample_bt u cur idx) sample_tree"
  unfolding nav_ok_def sample_slot_length
  by (simp add: tree_ok_def sample_tree_def wf_tree_def sample_bt_def sample_node_def node_repr_def
      dropsValues_def sample_info_def)

lemma sample_heap: "heap_ok (sample_bt u cur idx) sample_tree"
  unfolding heap_ok_def sample_inorder sample_height
  using sample_nav by (simp add: sample_tree_def sample_bt_def sample_info_def)

lemma sample_inv: "btree_inv (sample_bt u cur idx) sample_tree"
  unfolding btree_inv_def sample_inorder
  using sample_heap sample_slot_length int_order.key_order_axioms
  by (auto simp: store_ready_def shape_ok_def keys_sorted_def sample_bt_def sample_info_def
      sample_item_def sample_tree_def cmp_int_def)

lemma sample_fresh: "fresh (sample_bt u cur idx) 6"
proof -
  have six: "{0..<6::nat} = {0, 1, 2, 3, 4, 5}" by auto
  show ?thesis unfolding fresh_def by (simp add: sample_bt_def six)
qed

lemma sample_cursor: "cursor_on (sample_bt u 1 0) sample_tree [sample_item 11 1] (sample_item 12 2) [sample_item 13 3]"
  unfolding cursor_on_def cursor_at_def
  by (rule conjI, rule exI [of _ "[]"], rule exI [of _ sample_tree], rule exI [of _ 0])
    (simp_all add: sample_tree_def sample_bt_def)

section \<open>The theorems at work\<close>

theorem Next_in_order_witness:
  "\<exists>bt'. Next (sample_bt False 1 0) = (Inr True, bt') \<and>
     cursor_on bt' sample_tree [sample_item 11 1, sample_item 12 2] (sample_item 13 3) []"
  using Next_in_order [OF sample_heap sample_cursor, of False] by auto

theorem Previous_in_order_witness:
  "\<exists>bt'. Previous (sample_bt False 1 0) = (Inr True, bt') \<and>
     cursor_on bt' sample_tree [] (sample_item 11 1) [sample_item 12 2, sample_item 13 3]"
  using Previous_in_order [OF sample_heap sample_cursor, of False] by auto

theorem First_first_witness:
  "\<exists>bt'. First (sample_bt False 0 0) = (Inr True, bt') \<and>
     cursor_on bt' sample_tree [] (sample_item 11 1) [sample_item 12 2, sample_item 13 3]"
  using First_first [OF sample_heap, of False 0 0] by (auto simp: sample_inorder)

theorem Last_last_witness:
  "\<exists>bt'. Last (sample_bt False 0 0) = (Inr True, bt') \<and>
     cursor_on bt' sample_tree [sample_item 11 1, sample_item 12 2] (sample_item 13 3) []"
  using Last_last [OF sample_heap, of False 0 0] by (auto simp: sample_inorder)

lemma sample_key_order: "key_order (comparer (sample_bt u cur idx))"
  using int_order.key_order_axioms by (simp add: sample_bt_def)

lemma sample_sorted: "keys_sorted (comparer (sample_bt u cur idx)) (inorder sample_tree)"
  using sample_inv by (simp add: btree_inv_def)

lemma sample_cursor_ok: "cursor_ok (sample_bt u 0 idx) sample_tree"
  by (simp add: cursor_ok_def isCurrentItemSelected_def sample_bt_def)

theorem Find_correct_witness:
  "\<exists>bt' pre x post. Find 3 True (sample_bt False 0 0) = (Inr True, bt') \<and>
     cursor_on bt' sample_tree pre x post \<and> cmp_int (Key x) 3 = 0"
proof -
  let ?bt = "sample_bt False 0 0"
  have ne: "inorder sample_tree \<noteq> []" by (simp add: sample_inorder)
  have cmp: "comparer ?bt = cmp_int" by (simp add: sample_bt_def)
  have ex: "(\<exists>x\<in>set (inorder sample_tree). cmp_int (Key x) 3 = 0) = True"
    by (simp add: sample_inorder sample_item_def cmp_int_def)
  from Find_correct [OF sample_heap sample_key_order sample_sorted ne sample_cursor_ok, of 3 True False 0]
  show ?thesis unfolding cmp ex by (simp only: if_True) blast
qed

theorem Add_inserts_witness:
  "\<exists>bt' rt'. Add (\<lambda>_ _. (Map.empty, [], [])) 4 40 (sample_bt True 0 0) = (Inr True, bt') \<and> btree_inv bt' rt' \<and>
     map Key (inorder rt') = [1, 2, 3, 4]"
proof -
  have h: "Suc (height sample_tree) < fuel (sample_bt True 0 0)"
    by (simp add: sample_height sample_bt_def)
  have f: "fresh (sample_bt True 0 0) (height sample_tree + 2 + 2)"
    using sample_fresh by (simp add: sample_height)
  have t: "tracker (sample_bt True 0 0) (trackerLog (sample_bt True 0 0)) AddAction
      (newItemOf (sample_bt True 0 0) 4 40) = Inr (newItemOf (sample_bt True 0 0) 4 40)"
    by (simp add: sample_bt_def)
  have n: "\<not> (isUnique (sample_bt True 0 0) \<and>
      (\<exists>x\<in>set (inorder sample_tree). comparer (sample_bt True 0 0) (Key x) 4 = 0))"
    by (simp add: sample_inorder sample_item_def sample_bt_def cmp_int_def)
  have "map Key (ins_item (comparer (sample_bt True 0 0)) (newItemOf (sample_bt True 0 0) 4 40) (inorder sample_tree))
      = [1, 2, 3, 4]"
    by (simp add: ins_item_def sample_inorder newItemOf_def sample_item_def sample_bt_def cmp_int_def)
  then show ?thesis using Add_inserts [OF sample_inv h f t n] by metis
qed

end
