(* ===== verification/Btree_Session.thy ===== *)
theory Btree_Session
  imports Btree_Sample "HOL-Library.Multiset"
begin

text \<open>
  Uses of the B-tree beyond a single insertion: a key that is already there, \<open>AddIfNotExist\<close> on stores of
  either kind, and a whole sequence of insertions followed by a scan.
\<close>

section \<open>Keys that are already there\<close>

lemma btree_inv_setCur: "btree_inv bt rt \<Longrightarrow> btree_inv (setCur i j bt) rt"
  by (simp add: btree_inv_def heap_ok_def nav_ok_def store_ready_def shape_ok_def setCur_def getSlotLength_def)

lemma Add_refuses:
  assumes inv: "btree_inv bt rt" and fr: "fresh bt (height rt + 2)"
    and dup: "isUnique bt" "x \<in> set (inorder rt)" "comparer bt (Key x) key = 0"
  shows "\<exists>bt' pre y post. Add infer key v bt = (Inr False, bt') \<and> btree_inv bt' rt \<and>
    cursor_on bt' rt pre y post \<and> comparer bt (Key y) key = 0 \<and> trackerLog bt' = trackerLog bt \<and>
    repo bt' = repo bt \<and> StoreInfo bt' = StoreInfo bt \<and> comparer bt' = comparer bt"
proof -
  let ?it = "newItemOf bt key v" and ?b0 = "bt\<lparr>uuidNext := Suc (uuidNext bt)\<rparr>"
  have k: "Key ?it = key" by (simp add: newItemOf_def)
  have inv0: "btree_inv ?b0 rt" using btree_inv_next [OF inv] .
  have fr0: "fresh ?b0 (Suc (height rt) + 0)" using fresh_Suc [of bt "Suc (height rt)"] fr by simp
  from getRootNode_inv [of ?b0 rt] inv0 obtain n where n: "getRootNode ?b0 = (Inr n, ?b0)" "repo ?b0 (tid rt) = Some n"
    by (auto simp: btree_inv_def)
  have d0: "isUnique ?b0 \<and> (\<exists>x\<in>set (inorder rt). comparer ?b0 (Key x) (Key ?it) = 0)"
    using dup k by (auto simp: isUnique_def)
  from node_add_ok [OF inv0 n(2) fr0, of ?it, unfolded if_P [OF d0]] obtain i j pre y post where
    a: "node_add n ?it ?b0 = (Inr False, setCur i j ?b0)" "cursor_at rt i j pre y post" "comparer bt (Key y) key = 0"
    using k by auto
  have "Add infer key v bt = (Inr False, setCur i j ?b0)"
    using n(1) a(1) by (simp add: Add_def newItem_ok gbind_step exec_simps)
  moreover have "cursor_on (setCur i j ?b0) rt pre y post" using a(2) by (simp add: cursor_on_def setCur_def)
  ultimately show ?thesis using a(3) btree_inv_setCur [OF inv0, of i j]
    by (intro exI [of _ "setCur i j ?b0"] exI [of _ pre] exI [of _ y] exI [of _ post]) (simp add: setCur_def)
qed

text \<open>
  C33. On a store with unique keys, \<open>Add\<close> of a key that is there returns false, leaves every node and the
  count as they are, logs nothing, and puts the cursor on the item that has the key.
\<close>

theorem Add_refuses_duplicate:
  assumes "btree_inv bt rt" and "fresh bt (height rt + 2)"
    and "isUnique bt" "x \<in> set (inorder rt)" "comparer bt (Key x) key = 0"
  shows "\<exists>bt' pre y post. Add infer key v bt = (Inr False, bt') \<and> btree_inv bt' rt \<and>
    cursor_on bt' rt pre y post \<and> comparer bt (Key y) key = 0 \<and> trackerLog bt' = trackerLog bt \<and>
    repo bt' = repo bt \<and> StoreInfo bt' = StoreInfo bt"
  using Add_refuses [OF assms] by blast

theorem Add_refuses_duplicate_witness:
  "\<exists>bt' pre y post. Add (\<lambda>_ _. (Map.empty, [], [])) 3 33 (sample_bt True 0 0) = (Inr False, bt') \<and>
     cursor_on bt' sample_tree pre y post \<and> Key y = 3 \<and> repo bt' = repo (sample_bt True 0 0)"
proof -
  have "fresh (sample_bt True 0 0) (height sample_tree + 2)"
    using fresh_mono [OF sample_fresh] by (simp add: sample_height)
  moreover have "isUnique (sample_bt True 0 0)" by (simp add: isUnique_def sample_bt_def sample_info_def)
  moreover have "sample_item 13 3 \<in> set (inorder sample_tree)" by (simp add: sample_inorder)
  moreover have "comparer (sample_bt True 0 0) (Key (sample_item 13 3)) 3 = 0"
    by (simp add: sample_bt_def sample_item_def cmp_int_def)
  moreover have "comparer (sample_bt True 0 0) a b = 0 \<Longrightarrow> a = b" for a b
    by (simp add: sample_bt_def cmp_int_def split: if_splits)
  ultimately show ?thesis using Add_refuses_duplicate [OF sample_inv] by metis
qed

section \<open>AddIfNotExist\<close>

definition withUnique :: "bool \<Rightarrow> ('k, 'v) btree \<Rightarrow> ('k, 'v) btree" where
  "withUnique u bt = bt\<lparr>StoreInfo := (StoreInfo bt)\<lparr>IsUnique := u\<rparr>\<rparr>"

lemma withUnique_simps [simp]:
  "isUnique (withUnique u bt) = u" "repo (withUnique u bt) = repo bt" "comparer (withUnique u bt) = comparer bt"
  "fuel (withUnique u bt) = fuel bt" "tracker (withUnique u bt) = tracker bt" "trackerLog (withUnique u bt) = trackerLog bt"
  "newItemOf (withUnique u bt) = newItemOf bt" "fresh (withUnique u bt) = fresh bt"
  by (auto simp: withUnique_def isUnique_def newItemOf_def fresh_def fun_eq_iff)

lemma btree_inv_withUnique [simp]: "btree_inv (withUnique u bt) rt = btree_inv bt rt"
  by (simp add: withUnique_def btree_inv_def heap_ok_def nav_ok_def store_ready_def shape_ok_def getSlotLength_def
      dropsValues_def)

lemma cursor_on_withUnique [simp]: "cursor_on (withUnique u bt) = cursor_on bt"
  by (simp add: withUnique_def cursor_on_def fun_eq_iff)

lemma AddIfNotExist_run:
  "Add infer key v (withUnique True bt) = (Inr r, bt') \<Longrightarrow>
   AddIfNotExist infer key v bt = (Inr r, withUnique (isUnique bt) bt')"
  by (simp add: AddIfNotExist_def setUnique_def withUnique_def exec_simps andThen_def ignoreErr_def)

text \<open>
  C25. \<open>AddIfNotExist\<close> decides by the key alone, on a store of either kind: it inserts the item and returns
  true exactly when no item has the key; otherwise the tree is as before and the cursor is on an item with
  the key. The store's uniqueness flag, which it sets meanwhile, is restored.
\<close>

theorem AddIfNotExist_decides:
  assumes inv: "btree_inv bt rt" and hf: "Suc (height rt) < fuel bt" and fr: "fresh bt (height rt + 2)"
    and trk: "tracker bt (trackerLog bt) AddAction (newItemOf bt key v) = Inr it'"
  shows "\<exists>bt' rt'. AddIfNotExist infer key v bt = (Inr (\<not> (\<exists>x\<in>set (inorder rt). comparer bt (Key x) key = 0)), bt') \<and>
    btree_inv bt' rt' \<and> isUnique bt' = isUnique bt \<and>
    (if \<exists>x\<in>set (inorder rt). comparer bt (Key x) key = 0
     then rt' = rt \<and> repo bt' = repo bt \<and> (\<exists>pre y post. cursor_on bt' rt pre y post \<and> comparer bt (Key y) key = 0)
     else inorder rt' = ins_item (comparer bt) (newItemOf bt key v) (inorder rt))"
proof (cases "\<exists>x\<in>set (inorder rt). comparer bt (Key x) key = 0")
  case True
  then obtain x where x: "x \<in> set (inorder rt)" "comparer bt (Key x) key = 0" by blast
  from Add_refuses [of "withUnique True bt" rt x key infer v] inv fr x obtain bt' pre y post where
    "Add infer key v (withUnique True bt) = (Inr False, bt')" "btree_inv bt' rt" "cursor_on bt' rt pre y post"
    "comparer bt (Key y) key = 0" "repo bt' = repo bt" by auto
  then show ?thesis using True AddIfNotExist_run [of infer key v bt False bt']
    by (intro exI [of _ "withUnique (isUnique bt) bt'"] exI [of _ rt]) auto
next
  case False
  from Add_ok [of "withUnique True bt" rt 0 key v it' infer] inv hf fr trk False obtain bt' rt' where
    "Add infer key v (withUnique True bt) = (Inr True, bt')" "btree_inv bt' rt'"
    "inorder rt' = ins_item (comparer bt) (newItemOf bt key v) (inorder rt)" by auto
  then show ?thesis using False AddIfNotExist_run [of infer key v bt True bt']
    by (intro exI [of _ "withUnique (isUnique bt) bt'"] exI [of _ rt']) auto
qed

theorem AddIfNotExist_decides_witness:
  "\<exists>bt' rt'. AddIfNotExist (\<lambda>_ _. (Map.empty, [], [])) 3 33 (sample_bt False 0 0) = (Inr False, bt') \<and>
     btree_inv bt' rt' \<and> \<not> isUnique bt' \<and> rt' = sample_tree"
proof -
  let ?bt = "sample_bt False 0 0"
  have h: "Suc (height sample_tree) < fuel ?bt" by (simp add: sample_height sample_bt_def)
  have f: "fresh ?bt (height sample_tree + 2)" using fresh_mono [OF sample_fresh] by (simp add: sample_height)
  have t: "tracker ?bt (trackerLog ?bt) AddAction (newItemOf ?bt 3 33) = Inr (newItemOf ?bt 3 33)"
    by (simp add: sample_bt_def)
  have ex: "(\<exists>x\<in>set (inorder sample_tree). comparer ?bt (Key x) 3 = 0) = True"
    by (simp add: sample_inorder sample_item_def sample_bt_def cmp_int_def)
  have u: "\<not> isUnique ?bt" by (simp add: isUnique_def sample_bt_def sample_info_def)
  from AddIfNotExist_decides [OF sample_inv h f t, unfolded ex] u show ?thesis by auto
qed

section \<open>Sequences of insertions\<close>

text \<open>
  The fresh IDs that \<open>n\<close> insertions into a tree of height \<open>h\<close> can use: one for the item and at most one
  per level and one more for the new root.
\<close>

fun idBudget :: "nat \<Rightarrow> nat \<Rightarrow> nat" where
  "idBudget h 0 = 0"
| "idBudget h (Suc n) = h + 2 + idBudget (Suc h) n"

lemma idBudget_mono: "h \<le> h' \<Longrightarrow> idBudget h n \<le> idBudget h' n"
  by (induction n arbitrary: h h') (auto simp: add_mono)

definition addEach :: "('k \<Rightarrow> 'v option \<Rightarrow> (string \<rightharpoonup> string) \<times> string list \<times> string list) \<Rightarrow> ('k \<times> 'v) list \<Rightarrow> ('k, 'v, unit) bm" where
  "addEach infer kvs = gfor kvs (\<lambda>(k, v). gseq (Add infer k v) (ret ()))"

definition pairsOf :: "('k, 'v) item list \<Rightarrow> ('k \<times> 'v option) list" where
  "pairsOf xs = map (\<lambda>x. (Key x, Value x)) xs"

lemma mset_ins_item: "mset (pairsOf (ins_item cmp it xs)) = add_mset (Key it, Value it) (mset (pairsOf xs))"
  by (induction xs) (auto simp: ins_item_def pairsOf_def)

lemma addEach_run:
  assumes "btree_inv bt rt" and "height rt + length kvs < fuel bt" and "fresh bt (idBudget (height rt) (length kvs))"
    and "\<And>l a it. tracker bt l a it = Inr it" and "\<not> isUnique bt"
  shows "\<exists>bt' rt'. addEach infer kvs bt = (Inr (), bt') \<and> btree_inv bt' rt' \<and> comparer bt' = comparer bt \<and>
    mset (pairsOf (inorder rt')) = mset (pairsOf (inorder rt)) + mset (map (\<lambda>(k, v). (k, Some v)) kvs)"
  using assms
proof (induction kvs arbitrary: bt rt)
  case Nil
  then show ?case by (auto simp: addEach_def exec_simps)
next
  case (Cons kv kvs)
  obtain k v where kv: "kv = (k, v)" by (cases kv)
  have h: "Suc (height rt) < fuel bt" using Cons.prems(2) by simp
  have f: "fresh bt (height rt + 2 + idBudget (Suc (height rt)) (length kvs))" using Cons.prems(3) by simp
  have t: "tracker bt (trackerLog bt) AddAction (newItemOf bt k v) = Inr (newItemOf bt k v)" using Cons.prems(4) .
  from Add_ok [OF Cons.prems(1) h f t, of infer] Cons.prems(5) obtain b r where
    b: "Add infer k v bt = (Inr True, b)" "btree_inv b r" "inorder r = ins_item (comparer bt) (newItemOf bt k v) (inorder rt)"
      "height r \<le> Suc (height rt)" "fresh b (idBudget (Suc (height rt)) (length kvs))"
      "comparer b = comparer bt" "\<not> isUnique b" "fuel b = fuel bt" "tracker b = tracker bt" by blast
  have "height r + length kvs < fuel b" using b(4,8) Cons.prems(2) by simp
  moreover have "fresh b (idBudget (height r) (length kvs))" using fresh_mono [OF b(5)] idBudget_mono [OF b(4)] by blast
  ultimately obtain b' r' where "addEach infer kvs b = (Inr (), b')" "btree_inv b' r'" "comparer b' = comparer b"
    "mset (pairsOf (inorder r')) = mset (pairsOf (inorder r)) + mset (map (\<lambda>(k, v). (k, Some v)) kvs)"
    using Cons.IH [OF b(2)] Cons.prems(4) b(7,9) by auto
  then show ?case using b(1,3,6)
    by (intro exI [of _ b'] exI [of _ r']) (simp add: addEach_def kv exec_simps mset_ins_item newItemOf_def)
qed

end
