(* ===== verification/Tx_Btree.thy ===== *)
theory Tx_Btree
  imports With_Transaction Btree_Session
begin

text \<open>
  The wrapper, the transaction and the B-tree together: what a client of \<open>btree.BtreeInterface\<close> obtains
  through a transaction, and the witnesses of the wrapper's theorems on a concrete store.
\<close>

section \<open>A session of insertions\<close>

definition sessionAdds :: "'w tx_bodies \<Rightarrow> ('k, 'v) infer \<Rightarrow> ('k \<times> 'v) list \<Rightarrow> ('k, 'v, 'w tx, unit) wm" where
  "sessionAdds B infer kvs = gfor kvs (\<lambda>(k, v). gseq (trans_Add (tx_methods B) infer k v) (ret ()))"

lemma sessionAdds_addEach:
  assumes "HasBegun (trans s)" "GetMode (trans s) = ForWriting" "addEach infer kvs (wrapped s) = (Inr (), b)"
  shows "sessionAdds B infer kvs s = (Inr (), s\<lparr>wrapped := b\<rparr>)"
  using assms
proof (induction kvs arbitrary: s)
  case Nil
  then show ?case by (simp add: addEach_def sessionAdds_def exec_simps)
next
  case (Cons kv kvs)
  obtain k v where kv: "kv = (k, v)" by (cases kv)
  obtain q b1 where q: "Add infer k v (wrapped s) = (q, b1)" by (cases "Add infer k v (wrapped s)")
  with Cons.prems(3) kv obtain r where r: "q = Inr r" "addEach infer kvs b1 = (Inr (), b)"
    by (cases q) (auto simp: addEach_def exec_simps)
  have "trans_Add (tx_methods B) infer k v s = (Inr r, s\<lparr>wrapped := b1\<rparr>)"
    using writeOp_ok [of "tx_methods B" s "Add infer k v" r b1] Cons.prems(1,2) q r(1)
    by (simp add: trans_Add_def tx_methods_def)
  with Cons.IH [of "s\<lparr>wrapped := b1\<rparr>"] Cons.prems(1,2) r(2) show ?case
    by (simp add: sessionAdds_def kv exec_simps)
qed


section \<open>Witnesses\<close>

definition sample_session :: "transaction_mode \<Rightarrow> int \<Rightarrow> (int, int, unit tx) btree_with_transaction" where
  "sample_session mode phase = \<lparr>wrapped = sample_bt False 0 0,
     trans = \<lparr>tx_mode = mode, phaseDone = phase, committed = False, maxTime = 1, world = ()\<rparr>\<rparr>"

definition no_infer :: "(int, int) infer" where
  "no_infer = (\<lambda>_ _. (Map.empty, [], []))"

lemma sample_fresh9: "fresh (sample_bt u cur idx) 9"
proof -
  have nine: "{0..<9::nat} = {0, 1, 2, 3, 4, 5, 6, 7, 8}" by auto
  show ?thesis unfolding fresh_def by (simp add: sample_bt_def nine)
qed


theorem wrapper_fail_stop_witness:
  "\<exists>e s'. trans_First (tx_methods idle_bodies) (sample_session ForWriting 2) = (Inl (Err e), s') \<and> \<not> HasBegun (trans s')"
proof -
  let ?op = "trans_First (tx_methods idle_bodies)" and ?s = "sample_session ForWriting 2"
  have m: "?op \<in> set (writeOps (tx_methods idle_bodies) no_infer 0 0) \<union> set (moveOps (tx_methods idle_bodies) 0 True 0)"
    by (simp add: moveOps_def)
  have "\<exists>e s'. ?op ?s = (Inl (Err e), s')"
    by (simp add: trans_First_def readOp_def rollbackThen_def tx_methods_def sample_session_def HasBegun_def
        Rollback_def idle_bodies_def exec_simps split: prod.splits sum.splits go_error.splits)
  then show ?thesis using wrapper_fail_stop [OF m] by metis
qed

theorem wrapper_write_guard_witness:
  "wrapped (snd (trans_Add (tx_methods idle_bodies) no_infer 4 40 (sample_session ForReading 0))) = sample_bt False 0 0"
proof -
  let ?op = "trans_Add (tx_methods idle_bodies) no_infer 4 40" and ?s = "sample_session ForReading 0"
  have "?op \<in> set (writeOps (tx_methods idle_bodies) no_infer 4 40)" by (simp add: writeOps_def)
  moreover have "\<not> (HasBegun (trans ?s) \<and> GetMode (trans ?s) = ForWriting)" by (simp add: sample_session_def GetMode_def)
  ultimately have "wrapped (snd (?op ?s)) = wrapped ?s"
    using wrapper_write_guard [where op = ?op and s = ?s and r = "fst (?op ?s)" and s' = "snd (?op ?s)"] by auto
  then show ?thesis by (simp add: sample_session_def)
qed


end
