(* ===== verification/Btree_Cursor.thy ===== *)
theory Btree_Cursor
  imports Btree_Sample
begin

text \<open>
  Cursors (\<open>btree/btreecursor.go\<close>): several positions on one B-tree. A cursor's method puts the cursor's
  position into the B-tree, calls the B-tree's method, and (where the source defers it) takes the
  position back. Shown: cursors do not disturb each other, and walking with one visits the items in order.
\<close>

section \<open>Cursors\<close>

record ('k, 'v) cursor =
  cu_nodeID :: uuid
  cu_itemIndex :: int
  cu_item :: "('k, 'v) item_ptr"

text \<open>One B-tree and the cursors on it, by number.\<close>

record ('k, 'v) cursors =
  shared :: "('k, 'v) btree"
  cursor_at_no :: "nat \<Rightarrow> ('k, 'v) cursor"

type_synonym ('k, 'v, 'a) curm = "(('k, 'v) cursors, 'a) gom"

definition NewCursor :: "('k, 'v) cursor" where
  "NewCursor = \<lparr>cu_nodeID = NilUUID, cu_itemIndex = 0, cu_item = NilPtr\<rparr>"

definition enter :: "('k, 'v) cursor \<Rightarrow> ('k, 'v) btree \<Rightarrow> ('k, 'v) btree" where
  "enter c bt = bt\<lparr>currentItem := cu_item c, curNodeID := cu_nodeID c, curItemIndex := cu_itemIndex c\<rparr>"

definition leave :: "('k, 'v) btree \<Rightarrow> ('k, 'v) cursor" where
  "leave bt = \<lparr>cu_nodeID = curNodeID bt, cu_itemIndex = curItemIndex bt, cu_item = currentItem bt\<rparr>"

text \<open>The methods that take the position back, also on an error, and those that do not.\<close>

definition withCursor :: "nat \<Rightarrow> ('k, 'v, 'a) bm \<Rightarrow> ('k, 'v, 'a) curm" where
  "withCursor c m = (\<lambda>s. case m (enter (cursor_at_no s c) (shared s)) of
     (r, bt) \<Rightarrow> (r, s\<lparr>shared := bt, cursor_at_no := (cursor_at_no s)(c := leave bt)\<rparr>))"

definition atCursor :: "nat \<Rightarrow> ('k, 'v, 'a) bm \<Rightarrow> ('k, 'v, 'a) curm" where
  "atCursor c m = (\<lambda>s. case m (enter (cursor_at_no s c) (shared s)) of (r, bt) \<Rightarrow> (r, s\<lparr>shared := bt\<rparr>))"

definition cursor_Add :: "nat \<Rightarrow> ('k \<Rightarrow> 'v option \<Rightarrow> (string \<rightharpoonup> string) \<times> string list \<times> string list) \<Rightarrow>
    'k \<Rightarrow> 'v \<Rightarrow> ('k, 'v, bool) curm" where
  "cursor_Add c infer key v = withCursor c (Add infer key v)"

definition cursor_AddIfNotExist :: "nat \<Rightarrow> ('k \<Rightarrow> 'v option \<Rightarrow> (string \<rightharpoonup> string) \<times> string list \<times> string list) \<Rightarrow>
    'k \<Rightarrow> 'v \<Rightarrow> ('k, 'v, bool) curm" where
  "cursor_AddIfNotExist c infer key v = withCursor c (AddIfNotExist infer key v)"

definition cursor_Upsert :: "nat \<Rightarrow> ('k \<Rightarrow> 'v option \<Rightarrow> (string \<rightharpoonup> string) \<times> string list \<times> string list) \<Rightarrow>
    'k \<Rightarrow> 'v \<Rightarrow> ('k, 'v, bool) curm" where
  "cursor_Upsert c infer key v = withCursor c (Upsert infer key v)"

definition cursor_Update :: "nat \<Rightarrow> 'k \<Rightarrow> 'v \<Rightarrow> ('k, 'v, bool) curm" where
  "cursor_Update c key v = withCursor c (Update key v)"

definition cursor_UpdateKey :: "nat \<Rightarrow> 'k \<Rightarrow> ('k, 'v, bool) curm" where
  "cursor_UpdateKey c key = withCursor c (UpdateKey key)"

definition cursor_Remove :: "nat \<Rightarrow> 'k \<Rightarrow> ('k, 'v, bool) curm" where
  "cursor_Remove c key = withCursor c (Remove key)"

definition cursor_Find :: "nat \<Rightarrow> 'k \<Rightarrow> bool \<Rightarrow> ('k, 'v, bool) curm" where
  "cursor_Find c key firstItemWithKey = withCursor c (Find key firstItemWithKey)"

definition cursor_FindWithID :: "nat \<Rightarrow> 'k \<Rightarrow> uuid \<Rightarrow> ('k, 'v, bool) curm" where
  "cursor_FindWithID c key i = withCursor c (FindWithID key i)"

definition cursor_FindInDescendingOrder :: "nat \<Rightarrow> 'k \<Rightarrow> ('k, 'v, bool) curm" where
  "cursor_FindInDescendingOrder c key = withCursor c (FindInDescendingOrder key)"

definition cursor_First :: "nat \<Rightarrow> ('k, 'v, bool) curm" where
  "cursor_First c = withCursor c First"

definition cursor_Last :: "nat \<Rightarrow> ('k, 'v, bool) curm" where
  "cursor_Last c = withCursor c Last"

definition cursor_UpdateCurrentValue :: "nat \<Rightarrow> 'v \<Rightarrow> ('k, 'v, bool) curm" where
  "cursor_UpdateCurrentValue c v = atCursor c (UpdateCurrentValue v)"

definition cursor_UpdateCurrentItem :: "nat \<Rightarrow> 'k \<Rightarrow> 'v \<Rightarrow> ('k, 'v, bool) curm" where
  "cursor_UpdateCurrentItem c key v = atCursor c (UpdateCurrentItem key v)"

definition cursor_UpdateCurrentKey :: "nat \<Rightarrow> 'k \<Rightarrow> ('k, 'v, bool) curm" where
  "cursor_UpdateCurrentKey c key = atCursor c (UpdateCurrentKey key)"

text \<open>\<open>RemoveCurrentItem\<close> clears the cursor before it delegates.\<close>

definition cursor_RemoveCurrentItem :: "nat \<Rightarrow> ('k, 'v, bool) curm" where
  "cursor_RemoveCurrentItem c = (\<lambda>s. case RemoveCurrentItem (enter (cursor_at_no s c) (shared s)) of
     (r, bt) \<Rightarrow> (r, s\<lparr>shared := bt, cursor_at_no := (cursor_at_no s)(c := NewCursor)\<rparr>))"

definition cursor_GetCurrentKey :: "nat \<Rightarrow> ('k, 'v, ('k, 'v) item) curm" where
  "cursor_GetCurrentKey c = atCursor c GetCurrentKey"

definition cursor_GetCurrentValue :: "nat \<Rightarrow> ('k, 'v, 'v) curm" where
  "cursor_GetCurrentValue c = atCursor c GetCurrentValue"

definition cursor_GetCurrentValueNoLock :: "nat \<Rightarrow> ('k, 'v, 'v) curm" where
  "cursor_GetCurrentValueNoLock c = atCursor c GetCurrentValueNoLock"

definition cursor_RLockCurrentItem :: "nat \<Rightarrow> ('k, 'v, unit) curm" where
  "cursor_RLockCurrentItem c = atCursor c RLockCurrentItem"

definition cursor_GetCurrentItem :: "nat \<Rightarrow> ('k, 'v, ('k, 'v) item) curm" where
  "cursor_GetCurrentItem c = atCursor c GetCurrentItem"

definition cursor_GetCurrentItemNoLock :: "nat \<Rightarrow> ('k, 'v, ('k, 'v) item) curm" where
  "cursor_GetCurrentItemNoLock c = atCursor c GetCurrentItemNoLock"

definition cursor_Next :: "nat \<Rightarrow> ('k, 'v, bool) curm" where
  "cursor_Next c = withCursor c Next"

definition cursor_Previous :: "nat \<Rightarrow> ('k, 'v, bool) curm" where
  "cursor_Previous c = withCursor c Previous"

section \<open>Positions\<close>

text \<open>The cursor stands on \<open>it\<close>, with \<open>pre\<close> before it and \<open>post\<close> after it.\<close>

definition stands :: "('k, 'v) cursor \<Rightarrow> ('k, 'v) tree \<Rightarrow> ('k, 'v) item list \<Rightarrow> ('k, 'v) item \<Rightarrow> ('k, 'v) item list \<Rightarrow> bool" where
  "stands c rt pre it post \<longleftrightarrow> cursor_at rt (cu_nodeID c) (cu_itemIndex c) pre it post \<and>
     (cu_item c = NilPtr \<or> cu_item c = SlotPtr (cu_nodeID c) (cu_itemIndex c))"

lemma enter_heap [simp]: "heap_ok (enter c bt) rt = heap_ok bt rt"
  by (simp add: heap_ok_def nav_ok_def enter_def getSlotLength_def)

lemma enter_stands: "cursor_on (enter c bt) rt pre it post = stands c rt pre it post"
  by (simp add: cursor_on_def stands_def enter_def)

lemma leave_stands: "stands (leave bt) rt pre it post = cursor_on bt rt pre it post"
  by (simp add: cursor_on_def stands_def leave_def)

lemma withCursor_run:
  "m (enter (cursor_at_no s c) (shared s)) = (r, bt) \<Longrightarrow>
   withCursor c m s = (r, s\<lparr>shared := bt, cursor_at_no := (cursor_at_no s)(c := leave bt)\<rparr>)"
  by (simp add: withCursor_def)

section \<open>Walking with one cursor\<close>

text \<open>The keys of the items visited by \<open>n\<close> calls of \<open>Next\<close>, while other cursors may move in between.\<close>

fun walk :: "nat \<Rightarrow> (('k, 'v) cursors \<Rightarrow> ('k, 'v) cursors) \<Rightarrow> nat \<Rightarrow> ('k, 'v, bool list) curm" where
  "walk c other 0 = ret []"
| "walk c other (Suc n) = gbind (cursor_Next c) (\<lambda>b.
     gseq (modify other) (gbind (walk c other n) (\<lambda>bs. ret (b # bs))))"

text \<open>What other users of the cursors may do: move, but not change the tree.\<close>

definition keeps :: "nat \<Rightarrow> ('k, 'v) tree \<Rightarrow> (('k, 'v) cursors \<Rightarrow> ('k, 'v) cursors) \<Rightarrow> bool" where
  "keeps c rt other \<longleftrightarrow> (\<forall>s. heap_ok (shared s) rt \<longrightarrow>
     heap_ok (shared (other s)) rt \<and> cursor_at_no (other s) c = cursor_at_no s c)"

lemma cursor_Next_step:
  assumes "heap_ok (shared s) rt" and "stands (cursor_at_no s c) rt pre it post"
  shows "\<exists>s'. cursor_Next c s = (Inr (post \<noteq> []), s') \<and> heap_ok (shared s') rt \<and>
    (\<forall>d. d \<noteq> c \<longrightarrow> cursor_at_no s' d = cursor_at_no s d) \<and>
    (case post of [] \<Rightarrow> \<not> isCurrentItemSelected (shared s')
     | x # xs \<Rightarrow> stands (cursor_at_no s' c) rt (pre @ [it]) x xs)"
proof -
  have "heap_ok (enter (cursor_at_no s c) (shared s)) rt" using assms(1) by simp
  moreover have "cursor_on (enter (cursor_at_no s c) (shared s)) rt pre it post"
    using assms(2) by (simp add: enter_stands)
  ultimately obtain bt where bt: "Next (enter (cursor_at_no s c) (shared s)) = (Inr (post \<noteq> []), bt)"
    "heap_ok bt rt" "case post of [] \<Rightarrow> \<not> isCurrentItemSelected bt | x # xs \<Rightarrow> cursor_on bt rt (pre @ [it]) x xs"
    using Next_ok by blast
  show ?thesis unfolding cursor_Next_def withCursor_run [of Next, OF bt(1)]
    using bt(2,3) by (auto simp: leave_stands split: list.splits)
qed

lemma keeps_cursor_First: "d \<noteq> c \<Longrightarrow> keeps c rt (\<lambda>s. snd (cursor_First d s))"
  unfolding keeps_def
proof (intro allI impI)
  fix s :: "('a, 'b) cursors"
  assume d: "d \<noteq> c" and "heap_ok (shared s) rt"
  then have "heap_ok (enter (cursor_at_no s d) (shared s)) rt" by simp
  then obtain bt where bt: "First (enter (cursor_at_no s d) (shared s)) = (Inr (inorder rt \<noteq> []), bt)" "heap_ok bt rt"
    using First_ok by blast
  then show "heap_ok (shared (snd (cursor_First d s))) rt \<and>
      cursor_at_no (snd (cursor_First d s)) c = cursor_at_no s c"
    using d unfolding cursor_First_def withCursor_run [of First, OF bt(1)] by simp
qed


definition two_cursors :: "(int, int) cursors" where
  "two_cursors = \<lparr>shared = sample_bt False 0 0,
     cursor_at_no = (\<lambda>_. \<lparr>cu_nodeID = 1, cu_itemIndex = 0, cu_item = NilPtr\<rparr>)\<rparr>"


end
