(* ===== verification/Cache_Dll.thy ===== *)
theory Cache_Dll
  imports Sop_Prelude
begin

text \<open>
  The doubly linked list of the caches (\<open>cache/doublylinkedlist.go\<close>) with its pointers: nodes live
  in a heap from addresses to nodes, \<open>prev\<close> and \<open>next\<close> are nil or an address. The operations are
  shown to implement insertion at the front, removal of the last and removal of any element of a list.
\<close>

section \<open>Nodes and lists\<close>

type_synonym addr = nat

record 'a dnode =
  data :: 'a
  prev :: "addr option"
  "next" :: "addr option"

text \<open>\<open>nextAddr\<close> is the address of the next node to be allocated.\<close>

record 'a dll =
  head :: "addr option"
  tail :: "addr option"
  dsize :: int
  dheap :: "addr \<rightharpoonup> 'a dnode"
  nextAddr :: addr

type_synonym ('a, 'b) dm = "('a dll, 'b) gom"

definition newDoublyLinkedList :: "'a dll" where
  "newDoublyLinkedList = \<lparr>head = None, tail = None, dsize = 0, dheap = Map.empty, nextAddr = 0\<rparr>"

definition count :: "'a dll \<Rightarrow> int" where
  "count dll = dsize dll"

definition isEmpty :: "'a dll \<Rightarrow> bool" where
  "isEmpty dll = (head dll = None)"

text \<open>Reading and changing a node through a pointer that may be nil.\<close>

definition deref :: "addr option \<Rightarrow> ('a, 'a dnode) dm" where
  "deref p = (\<lambda>dll. case p of None \<Rightarrow> (Inl Panic, dll)
     | Some a \<Rightarrow> (case dheap dll a of None \<Rightarrow> (Inl Panic, dll) | Some n \<Rightarrow> (Inr n, dll)))"

definition setNode :: "addr option \<Rightarrow> ('a dnode \<Rightarrow> 'a dnode) \<Rightarrow> ('a, unit) dm" where
  "setNode p f = gbind (deref p) (\<lambda>n. modify (\<lambda>dll. dll\<lparr>dheap := (dheap dll)(the p \<mapsto> f n)\<rparr>))"

definition addToHead :: "'a \<Rightarrow> ('a, addr) dm" where
  "addToHead d = gbind (reads id) (\<lambda>dll.
     let newNode = nextAddr dll in
     gseq (modify (\<lambda>s. s\<lparr>dheap := (dheap s)(newNode \<mapsto> \<lparr>data = d, prev = None, next = head dll\<rparr>),
                         nextAddr := Suc (nextAddr s)\<rparr>))
     (gseq (if head dll \<noteq> None then setNode (head dll) (\<lambda>n. n\<lparr>prev := Some newNode\<rparr>)
            else modify (\<lambda>s. s\<lparr>tail := Some newNode\<rparr>))
     (gseq (modify (\<lambda>s. s\<lparr>head := Some newNode, dsize := dsize s + 1\<rparr>)) (ret newNode))))"

text \<open>\<open>None\<close> stands for the pair of a zero value and \<open>false\<close>.\<close>

definition deleteFromTail :: "('a, 'a option) dm" where
  "deleteFromTail = gbind (reads id) (\<lambda>dll.
     if isEmpty dll then ret None
     else gbind (deref (tail dll)) (\<lambda>t.
       gseq (if head dll = tail dll then modify (\<lambda>s. s\<lparr>head := None, tail := None\<rparr>)
             else gseq (modify (\<lambda>s. s\<lparr>tail := prev t\<rparr>)) (setNode (prev t) (\<lambda>n. n\<lparr>next := None\<rparr>)))
       (gseq (modify (\<lambda>s. s\<lparr>dsize := dsize s - 1\<rparr>)) (ret (Some (data t))))))"

definition delete :: "addr option \<Rightarrow> ('a, bool) dm" where
  "delete p = (if p = None then ret False
     else gbind (deref p) (\<lambda>n.
       gseq (modify (\<lambda>s. if head s = p then s\<lparr>head := next n\<rparr> else s))
       (gseq (modify (\<lambda>s. if tail s = p then s\<lparr>tail := prev n\<rparr> else s))
       (gseq (if prev n \<noteq> None then setNode (prev n) (\<lambda>m. m\<lparr>next := next n\<rparr>) else ret ())
       (gseq (if next n \<noteq> None then setNode (next n) (\<lambda>m. m\<lparr>prev := prev n\<rparr>) else ret ())
       (gseq (setNode p (\<lambda>m. m\<lparr>next := None, prev := None\<rparr>))
       (gseq (modify (\<lambda>s. s\<lparr>dsize := dsize s - 1\<rparr>)) (ret True))))))))"

section \<open>What a list represents\<close>

text \<open>\<open>chain h p as q\<close>: the addresses \<open>as\<close> are linked both ways, between \<open>p\<close> and \<open>q\<close>.\<close>

fun hd_or :: "'b list \<Rightarrow> 'b option \<Rightarrow> 'b option" where
  "hd_or [] q = q"
| "hd_or (x # xs) q = Some x"

definition last_or :: "'b option \<Rightarrow> 'b list \<Rightarrow> 'b option" where
  "last_or p xs = (if xs = [] then p else Some (last xs))"

fun chain :: "(addr \<rightharpoonup> 'a dnode) \<Rightarrow> addr option \<Rightarrow> (addr \<times> 'a) list \<Rightarrow> addr option \<Rightarrow> bool" where
  "chain h p [] q \<longleftrightarrow> True"
| "chain h p ((a, d) # as) q \<longleftrightarrow>
     h a = Some \<lparr>data = d, prev = p, next = hd_or (map fst as) q\<rparr> \<and> chain h (Some a) as q"

definition dll_rep :: "'a dll \<Rightarrow> (addr \<times> 'a) list \<Rightarrow> bool" where
  "dll_rep dll as \<longleftrightarrow> chain (dheap dll) None as None \<and> distinct (map fst as) \<and>
     head dll = hd_or (map fst as) None \<and> tail dll = last_or None (map fst as) \<and>
     dsize dll = int (length as) \<and> (\<forall>a n. dheap dll a = Some n \<longrightarrow> a < nextAddr dll)"

lemma last_or_simps [simp]: "last_or p [] = p" "last_or p (x # xs) = last_or (Some x) xs"
  "last_or p (xs @ [x]) = Some x"
  by (auto simp: last_or_def)

lemma last_map_in [simp]: "xs \<noteq> [] \<Longrightarrow> last (map f xs) \<in> f ` set xs"
  by (metis last_in_set last_map imageI)

lemma hd_or_append [simp]: "hd_or (xs @ ys) q = hd_or xs (hd_or ys q)"
  by (cases xs) simp_all

lemma last_or_append [simp]: "last_or p (xs @ ys) = last_or (last_or p xs) ys"
  by (auto simp: last_or_def)

lemma hd_or_None [simp]: "hd_or xs None = None \<longleftrightarrow> xs = []"
  by (cases xs) simp_all

lemma chain_append:
  "chain h p (as @ bs) q \<longleftrightarrow> chain h p as (hd_or (map fst bs) q) \<and> chain h (last_or p (map fst as)) bs q"
  by (induction h p as q rule: chain.induct) auto

lemma chain_frame: "a \<notin> fst ` set as \<Longrightarrow> chain (h(a := v)) p as q \<longleftrightarrow> chain h p as q"
  by (induction h p as q rule: chain.induct) auto

lemma chain_dom: "chain h p as q \<Longrightarrow> fst ` set as \<subseteq> dom h"
  by (induction h p as q rule: chain.induct) auto

lemma dll_rep_new: "dll_rep newDoublyLinkedList []"
  by (simp add: dll_rep_def newDoublyLinkedList_def)

lemma dll_rep_fresh: "dll_rep dll as \<Longrightarrow> nextAddr dll \<notin> fst ` set as"
  unfolding dll_rep_def using chain_dom by (metis less_irrefl subset_iff domD)

section \<open>The operations on the list\<close>

lemma addToHead_rep:
  assumes "dll_rep dll as"
  shows "\<exists>dll'. addToHead d dll = (Inr (nextAddr dll), dll') \<and> dll_rep dll' ((nextAddr dll, d) # as)"
proof (cases as)
  case Nil
  then show ?thesis using assms
    by (auto simp: addToHead_def exec_simps Let_def dll_rep_def intro: less_SucI)
next
  case (Cons x bs)
  obtain b e where x: "x = (b, e)" by (cases x)
  have n: "nextAddr dll \<notin> fst ` set as" using assms by (rule dll_rep_fresh)
  then have b: "nextAddr dll \<noteq> b" "nextAddr dll \<notin> fst ` set bs" using Cons x by auto
  have "b \<notin> fst ` set bs" using assms Cons x by (auto simp: dll_rep_def)
  then show ?thesis using assms b Cons x
    by (auto simp: addToHead_def exec_simps Let_def setNode_def deref_def dll_rep_def chain_frame
        intro: less_SucI)
qed

lemma deleteFromTail_empty: "dll_rep dll [] \<Longrightarrow> deleteFromTail dll = (Inr None, dll)"
  by (simp add: deleteFromTail_def exec_simps isEmpty_def dll_rep_def)

lemma deleteFromTail_rep:
  assumes "dll_rep dll (as @ [(a, d)])"
  shows "\<exists>dll'. deleteFromTail dll = (Inr (Some d), dll') \<and> dll_rep dll' as"
proof (cases as rule: rev_cases)
  case Nil
  then show ?thesis using assms
    by (auto simp: deleteFromTail_def exec_simps isEmpty_def dll_rep_def deref_def)
next
  case (snoc bs x)
  obtain b e where x: "x = (b, e)" by (cases x)
  have ne: "head dll \<noteq> tail dll" and h: "head dll \<noteq> None" using assms snoc x
    by (cases bs; auto simp: dll_rep_def)+
  have "b \<noteq> a" "b \<notin> fst ` set bs" using assms snoc x by (auto simp: dll_rep_def)
  then show ?thesis using assms snoc x ne h
    by (auto simp: deleteFromTail_def exec_simps isEmpty_def dll_rep_def deref_def setNode_def
        chain_append chain_frame)
qed

lemma delete_rep:
  assumes "dll_rep dll (as @ (a, d) # bs)"
  shows "\<exists>dll'. delete (Some a) dll = (Inr True, dll') \<and> dll_rep dll' (as @ bs)"
proof (cases as rule: rev_cases)
  case Nil
  show ?thesis
  proof (cases bs)
    case Nil
    with \<open>as = []\<close> show ?thesis using assms
      by (auto simp: delete_def exec_simps dll_rep_def deref_def setNode_def)
  next
    case (Cons y cs)
    with \<open>as = []\<close> show ?thesis using assms
      by (cases y) (auto simp: delete_def exec_simps dll_rep_def deref_def setNode_def chain_frame last_or_def)
  qed
next
  case (snoc cs x)
  show ?thesis
  proof (cases bs)
    case Nil
    with snoc show ?thesis using assms
      by (cases x; cases cs) (auto simp: delete_def exec_simps dll_rep_def deref_def setNode_def chain_append chain_frame)
  next
    case (Cons y ds)
    with snoc show ?thesis using assms
      by (cases x; cases y; cases cs) (auto simp: delete_def exec_simps dll_rep_def deref_def setNode_def
          chain_append chain_frame last_or_def split: if_splits)
  qed
qed

end
