(* ===== verification/Cache_Mru.thy ===== *)
theory Cache_Mru
  imports Cache_Dll
begin

text \<open>
  The generic cache with MRU eviction (\<open>cache/cache.go\<close>, \<open>cache/mru.go\<close>): a map from keys to
  entries, each pointing at its node in the doubly linked list that keeps the order of use. It is
  shown to implement a bounded list of key and value pairs, most recently used first.
\<close>

section \<open>The cache\<close>

record 'v cache_entry =
  ce_data :: 'v
  dllNode :: "addr option"

record ('k, 'v) cache =
  lookup :: "'k \<rightharpoonup> 'v cache_entry"
  c_dll :: "'k dll"
  minCapacity :: int
  maxCapacity :: int

type_synonym ('k, 'v, 'a) cm = "(('k, 'v) cache, 'a) gom"

abbreviation onDll :: "('k, 'a) dm \<Rightarrow> ('k, 'v, 'a) cm" where
  "onDll \<equiv> zoom c_dll (\<lambda>d c. c\<lparr>c_dll := d\<rparr>)"

definition NewCache :: "int \<Rightarrow> int \<Rightarrow> ('k, 'v) cache" where
  "NewCache mn mx = \<lparr>lookup = Map.empty, c_dll = newDoublyLinkedList, minCapacity = mn, maxCapacity = mx\<rparr>"

definition cache_Clear :: "('k, 'v, unit) cm" where
  "cache_Clear = modify (\<lambda>c. NewCache (minCapacity c) (maxCapacity c))"

definition mru_add :: "'k \<Rightarrow> ('k, 'v, addr) cm" where
  "mru_add i = onDll (addToHead i)"

definition mru_remove :: "addr option \<Rightarrow> ('k, 'v, unit) cm" where
  "mru_remove n = gseq (onDll (delete n)) (ret ())"

definition mru_isFull :: "('k, 'v) cache \<Rightarrow> bool" where
  "mru_isFull c = (count (c_dll c) \<ge> maxCapacity c)"

definition cache_IsFull :: "('k, 'v) cache \<Rightarrow> bool" where
  "cache_IsFull c = mru_isFull c"

fun evictLoop :: "nat \<Rightarrow> ('k, 'v, unit) cm" where
  "evictLoop 0 = fail OutOfFuel"
| "evictLoop (Suc f) = gbind (reads mru_isFull) (\<lambda>full.
     if \<not> full then ret ()
     else gbind (onDll deleteFromTail) (\<lambda>r. case r of
            None \<Rightarrow> ret ()
          | Some i \<Rightarrow> gseq (modify (\<lambda>c. if lookup c i \<noteq> None then c\<lparr>lookup := (lookup c)(i := None)\<rparr> else c))
                        (evictLoop f)))"

text \<open>Each round of \<open>evict\<close> takes a node off the list, so its length bounds the rounds.\<close>

definition cache_Evict :: "('k, 'v, unit) cm" where
  "cache_Evict = gbind (reads (\<lambda>c. Suc (nat (count (c_dll c))))) evictLoop"

text \<open>The move of an entry to the front: unchain its node, chain a new one.\<close>

definition touchEntry :: "'k \<Rightarrow> 'v cache_entry \<Rightarrow> ('k, 'v, unit) cm" where
  "touchEntry k v = gseq (mru_remove (dllNode v))
     (gbind (mru_add k) (\<lambda>n. modify (\<lambda>c. c\<lparr>lookup := (lookup c)(k \<mapsto> v\<lparr>dllNode := Some n\<rparr>)\<rparr>)))"

definition setOne :: "'k \<times> 'v \<Rightarrow> ('k, 'v, unit) cm" where
  "setOne kv = gbind (reads lookup) (\<lambda>m. case m (fst kv) of
     Some v \<Rightarrow> touchEntry (fst kv) (v\<lparr>ce_data := snd kv\<rparr>)
   | None \<Rightarrow> gbind (mru_add (fst kv)) (\<lambda>n.
       modify (\<lambda>c. c\<lparr>lookup := (lookup c)(fst kv \<mapsto> \<lparr>ce_data = snd kv, dllNode = Some n\<rparr>)\<rparr>)))"

definition cache_Set :: "('k \<times> 'v) list \<Rightarrow> ('k, 'v, unit) cm" where
  "cache_Set items = gseq (gfor items setOne) cache_Evict"

text \<open>A missing key yields the zero value \<open>z\<close> of the value type.\<close>

fun cache_Get :: "'v \<Rightarrow> 'k list \<Rightarrow> ('k, 'v, 'v list) cm" where
  "cache_Get z [] = ret []"
| "cache_Get z (k # ks) = gbind (reads lookup) (\<lambda>m. case m k of
     Some v \<Rightarrow> gseq (touchEntry k v) (gbind (cache_Get z ks) (\<lambda>r. ret (ce_data v # r)))
   | None \<Rightarrow> gbind (cache_Get z ks) (\<lambda>r. ret (z # r)))"

definition deleteOne :: "'k \<Rightarrow> ('k, 'v, unit) cm" where
  "deleteOne k = gbind (reads lookup) (\<lambda>m. case m k of
     Some v \<Rightarrow> gseq (mru_remove (dllNode v)) (modify (\<lambda>c. c\<lparr>lookup := (lookup c)(k := None)\<rparr>))
   | None \<Rightarrow> ret ())"

definition cache_Delete :: "'k list \<Rightarrow> ('k, 'v, unit) cm" where
  "cache_Delete ks = gfor ks deleteOne"

definition cache_Count :: "('k, 'v) cache \<Rightarrow> nat" where
  "cache_Count c = card (dom (lookup c))"

section \<open>The specification\<close>

text \<open>Pairs, most recently used first.\<close>

definition lru_drop :: "'k \<Rightarrow> ('k \<times> 'v) list \<Rightarrow> ('k \<times> 'v) list" where
  "lru_drop k xs = filter (\<lambda>p. fst p \<noteq> k) xs"

definition lru_put :: "'k \<times> 'v \<Rightarrow> ('k \<times> 'v) list \<Rightarrow> ('k \<times> 'v) list" where
  "lru_put p xs = p # lru_drop (fst p) xs"

definition lru_touch :: "'k \<Rightarrow> ('k \<times> 'v) list \<Rightarrow> ('k \<times> 'v) list" where
  "lru_touch k xs = (case map_of xs k of None \<Rightarrow> xs | Some v \<Rightarrow> lru_put (k, v) xs)"

section \<open>What a cache represents\<close>

type_synonym ('k, 'v) slot = "addr \<times> 'k \<times> 'v"

definition cache_rep :: "('k, 'v) cache \<Rightarrow> ('k, 'v) slot list \<Rightarrow> bool" where
  "cache_rep c ts \<longleftrightarrow> dll_rep (c_dll c) (map (\<lambda>(a, k, v). (a, k)) ts) \<and> distinct (map (fst \<circ> snd) ts) \<and>
     lookup c = map_of (map (\<lambda>(a, k, v). (k, \<lparr>ce_data = v, dllNode = Some a\<rparr>)) ts)"

definition cache_abs :: "('k, 'v) cache \<Rightarrow> ('k \<times> 'v) list \<Rightarrow> bool" where
  "cache_abs c xs \<longleftrightarrow> (\<exists>ts. cache_rep c ts \<and> xs = map snd ts)"

lemma lru_drop_none: "k \<notin> fst ` set xs \<Longrightarrow> lru_drop k xs = xs"
  unfolding lru_drop_def by (force simp: filter_id_conv)

lemma lru_drop_append [simp]: "lru_drop k (xs @ ys) = lru_drop k xs @ lru_drop k ys"
  "lru_drop k ((k, v) # xs) = lru_drop k xs"
  by (simp_all add: lru_drop_def)

lemma lru_drop_split:
  "distinct (map fst (xs @ (k, v) # ys)) \<Longrightarrow> lru_drop k (xs @ (k, v) # ys) = xs @ ys"
  by (simp add: lru_drop_none)

lemma map_of_move: "(map_of (xs @ (k, e) # ys))(k \<mapsto> e') = map_of ((k, e') # xs @ ys)"
  by (rule ext) (auto simp: map_add_def split: option.splits)

lemma map_of_cut:
  "k \<notin> fst ` set (xs @ ys) \<Longrightarrow> (map_of (xs @ (k, e) # ys))(k := None) = map_of (xs @ ys)"
proof (rule ext)
  fix x
  assume k: "k \<notin> fst ` set (xs @ ys)"
  then have "map_of (xs @ ys) k = None" by (simp only: map_of_eq_None_iff) simp
  then show "((map_of (xs @ (k, e) # ys))(k := None)) x = map_of (xs @ ys) x"
    by (simp add: map_add_def split: option.splits)
qed

lemma cache_rep_some:
  assumes "cache_rep c ts" and "lookup c k = Some e"
  obtains us a v vs where "ts = us @ (a, k, v) # vs" and "e = \<lparr>ce_data = v, dllNode = Some a\<rparr>"
proof -
  from assms obtain a v where "(a, k, v) \<in> set ts" and e: "e = \<lparr>ce_data = v, dllNode = Some a\<rparr>"
    by (auto simp: cache_rep_def dest!: map_of_SomeD)
  then show ?thesis using that by (metis in_set_conv_decomp)
qed

lemma cache_rep_none: "cache_rep c ts \<Longrightarrow> lookup c k = None \<longleftrightarrow> k \<notin> (fst \<circ> snd) ` set ts"
  by (force simp: cache_rep_def map_of_eq_None_iff)

text \<open>The list and the index of the entries of a cache.\<close>

abbreviation links :: "('k, 'v) slot list \<Rightarrow> (addr \<times> 'k) list" where
  "links ts \<equiv> map (\<lambda>(a, k, v). (a, k)) ts"

abbreviation entries :: "('k, 'v) slot list \<Rightarrow> ('k \<times> 'v cache_entry) list" where
  "entries ts \<equiv> map (\<lambda>(a, k, v). (k, \<lparr>ce_data = v, dllNode = Some a\<rparr>)) ts"

lemma entries_keys: "fst ` set (entries ts) = (fst \<circ> snd) ` set ts"
  by force

lemma mru_add_rep:
  assumes "dll_rep (c_dll c) (links ts)"
  shows "\<exists>d b. mru_add k c = (Inr b, c\<lparr>c_dll := d\<rparr>) \<and> dll_rep d (links ((b, k, v) # ts))"
  using addToHead_rep [OF assms, of k] by (auto simp: mru_add_def exec_simps)

lemma mru_remove_rep:
  assumes "cache_rep c (us @ (a, k, v) # vs)"
  shows "\<exists>d. mru_remove (Some a) c = (Inr (), c\<lparr>c_dll := d\<rparr>) \<and> dll_rep d (links (us @ vs))"
proof -
  have "dll_rep (c_dll c) (links us @ (a, k) # links vs)" using assms by (simp add: cache_rep_def)
  from delete_rep [OF this] show ?thesis by (auto simp: mru_remove_def exec_simps)
qed

lemma touchEntry_rep:
  assumes "cache_rep c (us @ (a, k, v) # vs)" and "e = \<lparr>ce_data = w, dllNode = Some a\<rparr>"
  shows "\<exists>c' b. touchEntry k e c = (Inr (), c') \<and> cache_rep c' ((b, k, w) # us @ vs) \<and>
    maxCapacity c' = maxCapacity c"
proof -
  from mru_remove_rep [OF assms(1)] obtain d where
    d: "mru_remove (Some a) c = (Inr (), c\<lparr>c_dll := d\<rparr>)" "dll_rep d (links (us @ vs))" by blast
  have "dll_rep (c_dll (c\<lparr>c_dll := d\<rparr>)) (links (us @ vs))" using d(2) by simp
  from mru_add_rep [OF this, of k w] obtain d' b where
    d': "mru_add k (c\<lparr>c_dll := d\<rparr>) = (Inr b, c\<lparr>c_dll := d'\<rparr>)" "dll_rep d' (links ((b, k, w) # us @ vs))"
    by auto
  have "(lookup c)(k \<mapsto> \<lparr>ce_data = w, dllNode = Some b\<rparr>) = map_of (entries ((b, k, w) # us @ vs))"
    using assms(1) map_of_move [of "entries us" k _ "entries vs"] by (simp add: cache_rep_def)
  then show ?thesis using assms d' d(1)
    by (intro exI [of _ "c\<lparr>c_dll := d', lookup := (lookup c)(k \<mapsto> \<lparr>ce_data = w, dllNode = Some b\<rparr>)\<rparr>"] exI [of _ b])
      (auto simp: touchEntry_def exec_simps cache_rep_def)
qed

lemma setOne_abs:
  assumes "cache_abs c xs"
  shows "\<exists>c'. setOne p c = (Inr (), c') \<and> cache_abs c' (lru_put p xs) \<and> maxCapacity c' = maxCapacity c"
proof -
  obtain ts where ts: "cache_rep c ts" "xs = map snd ts" using assms by (auto simp: cache_abs_def)
  obtain k w where p: "p = (k, w)" by (cases p)
  show ?thesis
  proof (cases "lookup c k")
    case None
    then have k: "k \<notin> (fst \<circ> snd) ` set ts" using cache_rep_none [OF ts(1), of k] by simp
    from ts(1) have "dll_rep (c_dll c) (links ts)" by (simp add: cache_rep_def)
    from mru_add_rep [OF this, of k w] obtain d b where
      d: "mru_add k c = (Inr b, c\<lparr>c_dll := d\<rparr>)" "dll_rep d (links ((b, k, w) # ts))" by blast
    let ?c = "c\<lparr>c_dll := d, lookup := (lookup c)(k \<mapsto> \<lparr>ce_data = w, dllNode = Some b\<rparr>)\<rparr>"
    have "setOne p c = (Inr (), ?c)" using d(1) None p by (simp add: setOne_def exec_simps)
    moreover have "cache_rep ?c ((b, k, w) # ts)" using ts(1) d(2) k by (simp add: cache_rep_def)
    moreover have "k \<notin> fst ` set xs" using k ts(2) by (simp add: image_comp)
    then have "lru_put p xs = map snd ((b, k, w) # ts)"
      using ts(2) p by (simp add: lru_put_def lru_drop_none)
    moreover have "maxCapacity ?c = maxCapacity c" by simp
    ultimately show ?thesis unfolding cache_abs_def by blast
  next
    case (Some e)
    obtain us a v vs where s: "ts = us @ (a, k, v) # vs" "e = \<lparr>ce_data = v, dllNode = Some a\<rparr>"
      by (rule cache_rep_some [OF ts(1) Some])
    from touchEntry_rep [of c us a k v vs "e\<lparr>ce_data := w\<rparr>" w] obtain c' b where
      c: "touchEntry k (e\<lparr>ce_data := w\<rparr>) c = (Inr (), c')" "cache_rep c' ((b, k, w) # us @ vs)"
        "maxCapacity c' = maxCapacity c" using ts(1) s by auto
    have "distinct (map fst (map snd ts))" using ts(1) by (simp add: cache_rep_def)
    then have "lru_put p xs = map snd ((b, k, w) # us @ vs)"
      using lru_drop_split [of "map snd us" k v "map snd vs"] ts(2) s(1) p by (simp add: lru_put_def)
    moreover have "setOne p c = (Inr (), c')" using Some c(1) p by (simp add: setOne_def exec_simps)
    ultimately show ?thesis using c(2,3) unfolding cache_abs_def by blast
  qed
qed

lemma gfor_setOne_abs:
  "cache_abs c xs \<Longrightarrow> \<exists>c'. gfor ps setOne c = (Inr (), c') \<and> cache_abs c' (fold lru_put ps xs) \<and>
     maxCapacity c' = maxCapacity c"
proof (induction ps arbitrary: c xs)
  case Nil
  then show ?case by (simp add: exec_simps)
next
  case (Cons p ps)
  from setOne_abs [OF Cons.prems, of p] obtain c' where
    "setOne p c = (Inr (), c')" "cache_abs c' (lru_put p xs)" "maxCapacity c' = maxCapacity c" by blast
  with Cons.IH [of c' "lru_put p xs"] show ?case by (simp add: exec_simps)
qed

lemma cache_abs_count: "cache_abs c xs \<Longrightarrow> count (c_dll c) = int (length xs)"
  by (auto simp: cache_abs_def cache_rep_def dll_rep_def count_def)

lemma evict_step:
  assumes "cache_abs c (xs @ [(k, v)])"
  shows "\<exists>d. deleteFromTail (c_dll c) = (Inr (Some k), d) \<and>
    cache_abs (c\<lparr>c_dll := d, lookup := (lookup c)(k := None)\<rparr>) xs \<and> lookup c k \<noteq> None"
proof -
  obtain ts where ts: "cache_rep c ts" "xs @ [(k, v)] = map snd ts" using assms by (auto simp: cache_abs_def)
  then obtain us a where us: "ts = us @ [(a, k, v)]" "xs = map snd us"
    by (cases ts rule: rev_cases) auto
  have "dll_rep (c_dll c) (links us @ [(a, k)])" using ts(1) us(1) by (simp add: cache_rep_def)
  from deleteFromTail_rep [OF this] obtain d where
    d: "deleteFromTail (c_dll c) = (Inr (Some k), d)" "dll_rep d (links us)" by blast
  have "k \<notin> (fst \<circ> snd) ` set us" using ts(1) us(1) by (auto simp: cache_rep_def)
  then have "(lookup c)(k := None) = map_of (entries us)"
    using map_of_cut [of k "entries us" "[]"] ts(1) us(1) by (simp add: cache_rep_def entries_keys [simplified])
  then have "cache_rep (c\<lparr>c_dll := d, lookup := (lookup c)(k := None)\<rparr>) us"
    using ts(1) us(1) d(2) by (simp add: cache_rep_def)
  moreover have "lookup c k \<noteq> None" using ts(1) us(1) by (simp add: cache_rep_none)
  ultimately show ?thesis using d(1) us(2) by (auto simp: cache_abs_def)
qed

lemma evictLoop_abs:
  "cache_abs c xs \<Longrightarrow> length xs < f \<Longrightarrow> \<exists>c'. evictLoop f c = (Inr (), c') \<and>
     cache_abs c' (take (nat (maxCapacity c - 1)) xs) \<and> maxCapacity c' = maxCapacity c"
proof (induction f arbitrary: c xs)
  case (Suc f)
  have full: "mru_isFull c \<longleftrightarrow> int (length xs) \<ge> maxCapacity c"
    using cache_abs_count [OF Suc.prems(1)] by (simp add: mru_isFull_def)
  show ?case
  proof (cases "mru_isFull c")
    case False
    then show ?thesis using Suc.prems full by (simp add: exec_simps)
  next
    case True
    show ?thesis
    proof (cases xs rule: rev_cases)
      case Nil
      then have "deleteFromTail (c_dll c) = (Inr None, c_dll c)"
        using Suc.prems(1) deleteFromTail_empty by (auto simp: cache_abs_def cache_rep_def)
      then show ?thesis using True Nil Suc.prems(1) by (simp add: exec_simps)
    next
      case (snoc ys p)
      obtain k v where p: "p = (k, v)" by (cases p)
      from evict_step [of c ys k v] Suc.prems(1) snoc p obtain d where
        d: "deleteFromTail (c_dll c) = (Inr (Some k), d)"
          "cache_abs (c\<lparr>c_dll := d, lookup := (lookup c)(k := None)\<rparr>) ys" "lookup c k \<noteq> None" by auto
      have t: "take (nat (maxCapacity c - 1)) xs = take (nat (maxCapacity c - 1)) ys"
        using True full snoc by simp
      have "length ys < f" using Suc.prems(2) snoc by simp
      from Suc.IH [OF d(2) this] d(1,3) show ?thesis
        unfolding t by (simp add: exec_simps True)
    qed
  qed
qed simp

lemma cache_Evict_abs:
  assumes "cache_abs c xs"
  shows "\<exists>c'. cache_Evict c = (Inr (), c') \<and> cache_abs c' (take (nat (maxCapacity c - 1)) xs) \<and>
    maxCapacity c' = maxCapacity c"
  using evictLoop_abs [OF assms, of "Suc (length xs)"] cache_abs_count [OF assms]
  by (simp add: cache_Evict_def exec_simps)

lemma cache_Set_abs:
  assumes "cache_abs c xs"
  shows "\<exists>c'. cache_Set ps c = (Inr (), c') \<and> cache_abs c' (take (nat (maxCapacity c - 1)) (fold lru_put ps xs)) \<and>
    maxCapacity c' = maxCapacity c"
proof -
  from gfor_setOne_abs [OF assms, of ps] obtain c1 where
    1: "gfor ps setOne c = (Inr (), c1)" "cache_abs c1 (fold lru_put ps xs)" "maxCapacity c1 = maxCapacity c" by blast
  from cache_Evict_abs [OF 1(2)] 1 show ?thesis by (simp add: cache_Set_def exec_simps)
qed

lemma cache_abs_lookup:
  assumes "cache_abs c xs"
  shows "map_of xs k = map_option ce_data (lookup c k)"
proof -
  obtain ts where ts: "cache_rep c ts" "xs = map snd ts" using assms by (auto simp: cache_abs_def)
  have "map_of (map snd us) k = map_option ce_data (map_of (entries us) k)" for us :: "('a, 'b) slot list"
    by (induction us) auto
  then show ?thesis using ts by (simp add: cache_rep_def)
qed

lemma getOne_abs:
  assumes "cache_abs c xs" and "lookup c k = Some e"
  shows "\<exists>c'. touchEntry k e c = (Inr (), c') \<and> cache_abs c' (lru_touch k xs) \<and> maxCapacity c' = maxCapacity c"
proof -
  obtain ts where ts: "cache_rep c ts" "xs = map snd ts" using assms by (auto simp: cache_abs_def)
  obtain us a v vs where s: "ts = us @ (a, k, v) # vs" "e = \<lparr>ce_data = v, dllNode = Some a\<rparr>"
    by (rule cache_rep_some [OF ts(1) assms(2)])
  from touchEntry_rep [of c us a k v vs e v] obtain c' b where
    c: "touchEntry k e c = (Inr (), c')" "cache_rep c' ((b, k, v) # us @ vs)"
      "maxCapacity c' = maxCapacity c" using ts(1) s by auto
  have "distinct (map fst (map snd ts))" using ts(1) by (simp add: cache_rep_def)
  moreover have "map_of xs k = Some v" using cache_abs_lookup [OF assms(1), of k] assms(2) s(2) by simp
  ultimately have "lru_touch k xs = map snd ((b, k, v) # us @ vs)"
    using lru_drop_split [of "map snd us" k v "map snd vs"] ts(2) s(1) by (simp add: lru_touch_def lru_put_def)
  then show ?thesis using c unfolding cache_abs_def by blast
qed

lemma map_of_lru_drop: "map_of (lru_drop k xs) = (map_of xs)(k := None)"
  by (induction xs) (auto simp: lru_drop_def)

lemma map_of_lru_touch [simp]: "map_of (lru_touch k xs) = map_of xs"
  by (auto simp: lru_touch_def lru_put_def map_of_lru_drop split: option.split)

definition lru_values :: "'v \<Rightarrow> 'k list \<Rightarrow> ('k \<times> 'v) list \<Rightarrow> 'v list" where
  "lru_values z ks xs = map (\<lambda>k. case map_of xs k of None \<Rightarrow> z | Some v \<Rightarrow> v) ks"

lemma cache_Get_abs:
  "cache_abs c xs \<Longrightarrow> \<exists>c'. cache_Get z ks c = (Inr (lru_values z ks xs), c') \<and>
     cache_abs c' (fold lru_touch ks xs) \<and> maxCapacity c' = maxCapacity c"
proof (induction ks arbitrary: c xs)
  case Nil
  then show ?case by (simp add: exec_simps lru_values_def)
next
  case (Cons k ks)
  show ?case
  proof (cases "lookup c k")
    case None
    then have m: "map_of xs k = None" using cache_abs_lookup [OF Cons.prems] by simp
    then have "lru_touch k xs = xs" by (simp add: lru_touch_def)
    with Cons.IH [OF Cons.prems] None m show ?thesis by (auto simp: exec_simps lru_values_def)
  next
    case (Some e)
    from getOne_abs [OF Cons.prems Some] obtain c' where
      c: "touchEntry k e c = (Inr (), c')" "cache_abs c' (lru_touch k xs)" "maxCapacity c' = maxCapacity c" by blast
    have m: "map_of xs k = Some (ce_data e)" using cache_abs_lookup [OF Cons.prems] Some by simp
    from Cons.IH [OF c(2)] Some c m show ?thesis by (auto simp: exec_simps lru_values_def)
  qed
qed

lemma deleteOne_abs:
  assumes "cache_abs c xs"
  shows "\<exists>c'. deleteOne k c = (Inr (), c') \<and> cache_abs c' (lru_drop k xs) \<and> maxCapacity c' = maxCapacity c"
proof -
  obtain ts where ts: "cache_rep c ts" "xs = map snd ts" using assms by (auto simp: cache_abs_def)
  show ?thesis
  proof (cases "lookup c k")
    case None
    then have "k \<notin> fst ` set xs" using cache_rep_none [OF ts(1), of k] ts(2) by (simp add: image_comp)
    then show ?thesis using None assms by (simp add: deleteOne_def exec_simps lru_drop_none)
  next
    case (Some e)
    obtain us a v vs where s: "ts = us @ (a, k, v) # vs" "e = \<lparr>ce_data = v, dllNode = Some a\<rparr>"
      by (rule cache_rep_some [OF ts(1) Some])
    from mru_remove_rep [of c us a k v vs] obtain d where
      d: "mru_remove (Some a) c = (Inr (), c\<lparr>c_dll := d\<rparr>)" "dll_rep d (links (us @ vs))" using ts(1) s(1) by auto
    have dist: "distinct (map fst (map snd ts))" using ts(1) by (simp add: cache_rep_def)
    have "k \<notin> fst ` set (entries us @ entries vs)"
      using dist s(1) entries_keys [of us] entries_keys [of vs] by (simp add: image_Un image_comp)
    then have "(lookup c)(k := None) = map_of (entries (us @ vs))"
      using map_of_cut [of k "entries us" "entries vs"] ts(1) s(1) by (simp add: cache_rep_def)
    then have "cache_rep (c\<lparr>c_dll := d, lookup := (lookup c)(k := None)\<rparr>) (us @ vs)"
      using ts(1) s(1) d(2) by (simp add: cache_rep_def)
    moreover have "lru_drop k xs = map snd (us @ vs)"
      using dist lru_drop_split [of "map snd us" k v "map snd vs"] ts(2) s(1) by simp
    moreover have "deleteOne k c = (Inr (), c\<lparr>c_dll := d, lookup := (lookup c)(k := None)\<rparr>)"
      using Some s(2) d(1) by (simp add: deleteOne_def exec_simps)
    moreover have "maxCapacity (c\<lparr>c_dll := d, lookup := (lookup c)(k := None)\<rparr>) = maxCapacity c" by simp
    ultimately show ?thesis unfolding cache_abs_def by blast
  qed
qed

lemma cache_Delete_abs:
  "cache_abs c xs \<Longrightarrow> \<exists>c'. cache_Delete ks c = (Inr (), c') \<and> cache_abs c' (fold lru_drop ks xs) \<and>
     maxCapacity c' = maxCapacity c"
proof (induction ks arbitrary: c xs)
  case Nil
  then show ?case by (simp add: cache_Delete_def exec_simps)
next
  case (Cons k ks)
  from deleteOne_abs [OF Cons.prems, of k] obtain c' where
    "deleteOne k c = (Inr (), c')" "cache_abs c' (lru_drop k xs)" "maxCapacity c' = maxCapacity c" by blast
  with Cons.IH [of c' "lru_drop k xs"] show ?case by (simp add: exec_simps cache_Delete_def)
qed

lemma cache_abs_new: "cache_abs (NewCache mn mx) []"
  by (simp add: cache_abs_def cache_rep_def NewCache_def dll_rep_new)

lemma cache_abs_Count: "cache_abs c xs \<Longrightarrow> cache_Count c = length xs"
proof -
  assume "cache_abs c xs"
  then obtain ts where ts: "cache_rep c ts" "xs = map snd ts" by (auto simp: cache_abs_def)
  have "dom (lookup c) = set (map (fst \<circ> snd) ts)"
    using ts(1) entries_keys [of ts] by (simp add: cache_rep_def dom_map_of_conv_image_fst image_comp)
  then show ?thesis using ts distinct_card [of "map (fst \<circ> snd) ts"] by (simp add: cache_Count_def cache_rep_def)
qed

section \<open>The cache interface\<close>

text \<open>
  The \<open>Cache\<close> interface of \<open>cache.go\<close> as its clients use it: \<open>Set\<close>, \<open>Get\<close> and \<open>Delete\<close> act on a
  list of pairs in the order of use, of which \<open>Set\<close> keeps a bounded prefix.
\<close>

locale mru_cache =
  fixes cset :: "('k \<times> 'v) list \<Rightarrow> ('c, unit) gom" and cget :: "'v \<Rightarrow> 'k list \<Rightarrow> ('c, 'v list) gom"
    and cdelete :: "'k list \<Rightarrow> ('c, unit) gom" and abs :: "'c \<Rightarrow> ('k \<times> 'v) list \<Rightarrow> bool" and cap :: "'c \<Rightarrow> int"
  assumes set_law: "abs c xs \<Longrightarrow> \<exists>c'. cset ps c = (Inr (), c') \<and>
      abs c' (take (nat (cap c - 1)) (fold lru_put ps xs)) \<and> cap c' = cap c"
    and get_law: "abs c xs \<Longrightarrow> \<exists>c'. cget z ks c = (Inr (lru_values z ks xs), c') \<and>
      abs c' (fold lru_touch ks xs) \<and> cap c' = cap c"
    and delete_law: "abs c xs \<Longrightarrow> \<exists>c'. cdelete ks c = (Inr (), c') \<and>
      abs c' (fold lru_drop ks xs) \<and> cap c' = cap c"
begin

lemma get_after_set:
  assumes "abs c xs" and "2 \<le> cap c"
  shows "fst (gseq (cset [(k, v)]) (cget z [k]) c) = Inr [v]"
proof -
  from set_law [OF assms(1), of "[(k, v)]"] obtain c1 where
    1: "cset [(k, v)] c = (Inr (), c1)" "abs c1 (take (nat (cap c - 1)) (lru_put (k, v) xs))" by auto
  have "nat (cap c - 1) = Suc (nat (cap c - 2))" using assms(2) by simp
  then have "abs c1 ((k, v) # take (nat (cap c - 2)) (lru_drop k xs))"
    using 1(2) by (simp only: lru_put_def take_Suc_Cons fst_conv)
  from get_law [OF this, of z "[k]"] 1(1) show ?thesis by (auto simp: exec_simps lru_values_def)
qed

lemma get_after_delete:
  assumes "abs c xs"
  shows "fst (gseq (cdelete [k]) (cget z [k]) c) = Inr [z]"
proof -
  from delete_law [OF assms, of "[k]"] obtain c1 where
    1: "cdelete [k] c = (Inr (), c1)" "abs c1 (lru_drop k xs)" by auto
  from get_law [OF 1(2), of z "[k]"] 1(1) show ?thesis by (auto simp: exec_simps lru_values_def map_of_lru_drop)
qed

end

interpretation gc: mru_cache cache_Set cache_Get cache_Delete cache_abs maxCapacity
  by unfold_locales (rule cache_Set_abs cache_Get_abs cache_Delete_abs, assumption)+

section \<open>Properties\<close>



text \<open>
  A cache of capacity at least 2 returns what was just put in, whatever had to be evicted, and a
  deleted key is gone. (With \<open>maxCapacity = 1\<close> the new entry itself is evicted.)
\<close>

theorem cache_read_your_write:
  assumes "cache_abs c xs" and "2 \<le> maxCapacity c"
  shows "fst (gseq (cache_Set [(k, v)]) (cache_Get z [k]) c) = Inr [v] \<and>
    fst (gseq (cache_Delete [k]) (cache_Get z [k]) c) = Inr [z]"
  using gc.get_after_set [OF assms] gc.get_after_delete [OF assms(1)] by blast

theorem cache_read_your_write_witness:
  "fst (gseq (cache_Set [(5::nat, 7::int)]) (cache_Get 0 [5]) (NewCache 1 2)) = Inr [7]"
  using cache_read_your_write [OF cache_abs_new, of 1 2 "5::nat" "7::int" 0] by (simp add: NewCache_def)

end
