(* ===== verification/Cache_L2.thy ===== *)
theory Cache_L2
  imports Sop_Prelude "HOL-Library.AList" "HOL-Library.Char_ord" "HOL-Library.List_Lexorder"
begin

unbundle bit_operations_syntax

text \<open>
  The in-memory L2 cache (\<open>cache/l2inmemorycache.go\<close>, \<open>cache/l2inmemorycache.sharded_map.go\<close>): a sharded
  map with a capacity per shard and eviction, string and struct entries with an expiry, and the locks
  with which transactions exclude each other. Every operation on a shard holds the shard's mutex, so it
  is one atomic step; a lock request is a sequence of such steps.
\<close>

section \<open>The sharded map\<close>

text \<open>\<open>hash/fnv\<close>'s \<open>New32a\<close> over the bytes of the key.\<close>

definition fnv32a :: "string \<Rightarrow> 32 word" where
  "fnv32a s = fold (\<lambda>c h. (h XOR of_char c) * 16777619) s 2166136261"

definition shardCount :: nat where
  "shardCount = 256"

text \<open>
  A shard's map is a list of pairs with distinct keys. \<open>order\<close> is the order in which the run-time walks
  a map: it may be any, and eviction looks at the first five. Expirations are in nanoseconds, \<open>None\<close> is
  Go's zero time.
\<close>

record 'x sharded_map =
  shards :: "nat \<Rightarrow> (string \<times> 'x) list"
  maxItemsPerShard :: nat
  order :: "(string \<times> 'x) list \<Rightarrow> (string \<times> 'x) list"

definition DefaultInMemoryCacheShardCapacity :: int where
  "DefaultInMemoryCacheShardCapacity = 1000"

definition newShardedMap :: "((string \<times> 'x) list \<Rightarrow> (string \<times> 'x) list) \<Rightarrow> int \<Rightarrow> 'x sharded_map" where
  "newShardedMap ord n = \<lparr>shards = (\<lambda>_. []),
     maxItemsPerShard = nat (if n \<le> 0 then DefaultInMemoryCacheShardCapacity else n), order = ord\<rparr>"

definition getShard :: "string \<Rightarrow> nat" where
  "getShard key = unat (fnv32a key) mod shardCount"

definition load :: "'x sharded_map \<Rightarrow> string \<Rightarrow> 'x option" where
  "load m key = map_of (shards m (getShard key)) key"

definition putShard :: "nat \<Rightarrow> (string \<times> 'x) list \<Rightarrow> 'x sharded_map \<Rightarrow> 'x sharded_map" where
  "putShard i xs m = m\<lparr>shards := (shards m)(i := xs)\<rparr>"

text \<open>The entry of the sample with the earliest expiration, the first one among equals.\<close>

fun pickVictim :: "('x \<Rightarrow> int) \<Rightarrow> (string \<times> int) option \<Rightarrow> (string \<times> 'x) list \<Rightarrow> (string \<times> int) option" where
  "pickVictim e acc [] = acc"
| "pickVictim e acc ((k, v) # xs) = pickVictim e
     (case acc of None \<Rightarrow> Some (k, e v) | Some (k0, m) \<Rightarrow> if e v < m then Some (k, e v) else Some (k0, m)) xs"

definition hundredYears :: int where
  "hundredYears = 365 * 24 * 100 * 60 * 60 * 1000000000"

text \<open>
  The eviction: an entry without expiration counts as expiring in a hundred years; without a victim
  (or with the empty string as its key) the first entry goes.
\<close>

definition evictFrom :: "('x \<Rightarrow> int option) \<Rightarrow> int \<Rightarrow> ((string \<times> 'x) list \<Rightarrow> (string \<times> 'x) list) \<Rightarrow>
    (string \<times> 'x) list \<Rightarrow> (string \<times> 'x) list" where
  "evictFrom expOf now ord xs =
     (let sample = take 5 (ord xs);
          eff = (\<lambda>v. case expOf v of None \<Rightarrow> now + hundredYears | Some t \<Rightarrow> t);
          victimKey = (case pickVictim eff None sample of None \<Rightarrow> '''' | Some (k, _) \<Rightarrow> k)
      in if victimKey \<noteq> '''' then AList.delete victimKey xs
         else (case ord xs of [] \<Rightarrow> xs | (k, _) # _ \<Rightarrow> AList.delete k xs))"

definition makeRoom :: "('x \<Rightarrow> int option) \<Rightarrow> int \<Rightarrow> 'x sharded_map \<Rightarrow> (string \<times> 'x) list \<Rightarrow> (string \<times> 'x) list" where
  "makeRoom expOf now m xs = (if length xs \<ge> maxItemsPerShard m then evictFrom expOf now (order m) xs else xs)"

definition sm_store :: "('x \<Rightarrow> int option) \<Rightarrow> int \<Rightarrow> string \<Rightarrow> 'x \<Rightarrow> 'x sharded_map \<Rightarrow> 'x sharded_map" where
  "sm_store expOf now key v m =
     (let i = getShard key in putShard i (AList.update key v (makeRoom expOf now m (shards m i))) m)"

definition sm_delete :: "string \<Rightarrow> 'x sharded_map \<Rightarrow> 'x sharded_map" where
  "sm_delete key m = (let i = getShard key in putShard i (AList.delete key (shards m i)) m)"

definition loadOrStore :: "('x \<Rightarrow> int option) \<Rightarrow> int \<Rightarrow> string \<Rightarrow> 'x \<Rightarrow> 'x sharded_map \<Rightarrow> ('x \<times> bool) \<times> 'x sharded_map" where
  "loadOrStore expOf now key v m = (case load m key of
     Some actual \<Rightarrow> ((actual, True), m)
   | None \<Rightarrow> ((v, False), sm_store expOf now key v m))"

definition compareAndSwap :: "string \<Rightarrow> 'x \<Rightarrow> 'x \<Rightarrow> 'x sharded_map \<Rightarrow> bool \<times> 'x sharded_map" where
  "compareAndSwap key old new m =
     (if load m key = Some old
      then let i = getShard key in (True, putShard i (AList.update key new (shards m i)) m)
      else (False, m))"

definition compareAndDelete :: "string \<Rightarrow> 'x \<Rightarrow> 'x sharded_map \<Rightarrow> bool \<times> 'x sharded_map" where
  "compareAndDelete key old m = (if load m key = Some old then (True, sm_delete key m) else (False, m))"

text \<open>The keys and values that \<open>Range\<close> walks over.\<close>

definition sm_Range :: "'x sharded_map \<Rightarrow> (string \<times> 'x) list" where
  "sm_Range m = concat (map (\<lambda>i. order m (shards m i)) [0..<shardCount])"

section \<open>The cache\<close>

record l2_item =
  i_data :: string
  i_expiration :: "int option"

record lock_item =
  li_lockID :: uuid
  li_expiration :: int

record lock_key =
  lk_Key :: string
  lk_LockID :: uuid
  lk_IsLockOwner :: bool

text \<open>\<open>clock\<close> is the sequence of the times that \<open>time.Now\<close> returns, \<open>ticks\<close> the number of calls so far.\<close>

record l2_cache =
  l2_data :: "l2_item sharded_map"
  l2_locks :: "lock_item sharded_map"
  standalone :: bool
  clock :: "nat \<Rightarrow> int"
  ticks :: nat

type_synonym 'a l2m = "(l2_cache, 'a) gom"

definition now :: "int l2m" where
  "now = (\<lambda>c. (Inr (clock c (ticks c)), c\<lparr>ticks := Suc (ticks c)\<rparr>))"

definition lockExp :: "lock_item \<Rightarrow> int option" where
  "lockExp it = Some (li_expiration it)"

definition l2_Set :: "string \<Rightarrow> string \<Rightarrow> int \<Rightarrow> unit l2m" where
  "l2_Set key v expiration =
     gbind (if expiration > 0 then gbind now (\<lambda>t. ret (Some (t + expiration))) else ret None) (\<lambda>ex.
     gbind now (\<lambda>t. modify (\<lambda>c. c\<lparr>l2_data := sm_store i_expiration t key \<lparr>i_data = v, i_expiration = ex\<rparr> (l2_data c)\<rparr>)))"

text \<open>An entry that has expired is deleted when it is read.\<close>

definition readItem :: "string \<Rightarrow> l2_item option l2m" where
  "readItem key = gbind (reads (\<lambda>c. load (l2_data c) key)) (\<lambda>r. case r of
     None \<Rightarrow> ret None
   | Some it \<Rightarrow> (case i_expiration it of
       None \<Rightarrow> ret (Some it)
     | Some ex \<Rightarrow> gbind now (\<lambda>t. if t > ex
         then gseq (modify (\<lambda>c. c\<lparr>l2_data := sm_delete key (l2_data c)\<rparr>)) (ret None)
         else ret (Some it))))"

definition slideItem :: "string \<Rightarrow> int \<Rightarrow> l2_item \<Rightarrow> unit l2m" where
  "slideItem key expiration it = (if expiration > 0
     then gbind now (\<lambda>t. gbind now (\<lambda>t'. modify (\<lambda>c.
       c\<lparr>l2_data := sm_store i_expiration t' key (it\<lparr>i_expiration := Some (t + expiration)\<rparr>) (l2_data c)\<rparr>)))
     else ret ())"

text \<open>\<open>None\<close> stands for \<open>false\<close> with an empty value.\<close>

definition l2_Get :: "string \<Rightarrow> string option l2m" where
  "l2_Get key = gbind (readItem key) (\<lambda>r. ret (map_option i_data r))"

definition l2_GetEx :: "string \<Rightarrow> int \<Rightarrow> string option l2m" where
  "l2_GetEx key expiration = gbind (readItem key) (\<lambda>r. case r of None \<Rightarrow> ret None
     | Some it \<Rightarrow> gseq (slideItem key expiration it) (ret (Some (i_data it))))"

text \<open>\<open>json.Marshal\<close> and \<open>json.Unmarshal\<close> are arguments.\<close>

definition l2_SetStruct :: "('v \<Rightarrow> string + string) \<Rightarrow> string \<Rightarrow> 'v \<Rightarrow> int \<Rightarrow> unit l2m" where
  "l2_SetStruct marshal key v expiration = (case marshal v of
     Inl e \<Rightarrow> fail (Err e) | Inr d \<Rightarrow> l2_Set key d expiration)"

fun l2_SetStructs :: "('v \<Rightarrow> string + string) \<Rightarrow> (string \<times> 'v) list \<Rightarrow> int \<Rightarrow> unit l2m" where
  "l2_SetStructs marshal kvs expiration = gfor kvs (\<lambda>(k, v). l2_SetStruct marshal k v expiration)"

definition decodeItem :: "(string \<Rightarrow> string + 'v) \<Rightarrow> l2_item \<Rightarrow> 'v option l2m" where
  "decodeItem unmarshal it = (case unmarshal (i_data it) of Inl e \<Rightarrow> fail (Err e) | Inr v \<Rightarrow> ret (Some v))"

definition l2_GetStruct :: "(string \<Rightarrow> string + 'v) \<Rightarrow> string \<Rightarrow> 'v option l2m" where
  "l2_GetStruct unmarshal key = gbind (readItem key) (\<lambda>r. case r of None \<Rightarrow> ret None
     | Some it \<Rightarrow> decodeItem unmarshal it)"

definition l2_GetStructEx :: "(string \<Rightarrow> string + 'v) \<Rightarrow> string \<Rightarrow> int \<Rightarrow> 'v option l2m" where
  "l2_GetStructEx unmarshal key expiration = gbind (readItem key) (\<lambda>r. case r of None \<Rightarrow> ret None
     | Some it \<Rightarrow> gseq (slideItem key expiration it) (decodeItem unmarshal it))"

fun l2_GetStructs :: "(string \<Rightarrow> string + 'v) \<Rightarrow> string list \<Rightarrow> int \<Rightarrow> 'v option list l2m" where
  "l2_GetStructs unmarshal [] expiration = ret []"
| "l2_GetStructs unmarshal (k # ks) expiration =
     gbind (if expiration > 0 then l2_GetStructEx unmarshal k expiration else l2_GetStruct unmarshal k) (\<lambda>r.
       gbind (l2_GetStructs unmarshal ks expiration) (\<lambda>rs. ret (r # rs)))"

definition l2_Delete :: "string list \<Rightarrow> bool l2m" where
  "l2_Delete ks = gseq (gfor ks (\<lambda>k. modify (\<lambda>c. c\<lparr>l2_data := sm_delete k (l2_data c)\<rparr>))) (ret True)"

definition l2_Clear :: "unit l2m" where
  "l2_Clear = gbind (reads (\<lambda>c. sm_Range (l2_data c))) (\<lambda>kvs.
     gfor kvs (\<lambda>(k, _). modify (\<lambda>c. c\<lparr>l2_data := sm_delete k (l2_data c)\<rparr>)))"

section \<open>Locks\<close>

definition FormatLockKey :: "string \<Rightarrow> string" where
  "FormatLockKey k = ''lock:'' @ k"

text \<open>The lock IDs are the UUIDs drawn for the keys.\<close>

definition CreateLockKeys :: "(string \<times> uuid) list \<Rightarrow> lock_key list" where
  "CreateLockKeys ks = map (\<lambda>(k, u). \<lparr>lk_Key = FormatLockKey k, lk_LockID = u, lk_IsLockOwner = False\<rparr>) ks"

definition CreateLockKeysForIDs :: "(string \<times> uuid) list \<Rightarrow> lock_key list" where
  "CreateLockKeysForIDs ks = CreateLockKeys ks"

definition onLocks :: "(lock_item sharded_map \<Rightarrow> 'a \<times> lock_item sharded_map) \<Rightarrow> 'a l2m" where
  "onLocks f = (\<lambda>c. case f (l2_locks c) of (r, m) \<Rightarrow> (Inr r, c\<lparr>l2_locks := m\<rparr>))"

definition dropLock :: "lock_key \<Rightarrow> unit l2m" where
  "dropLock lk = gbind (reads (\<lambda>c. load (l2_locks c) (lk_Key lk))) (\<lambda>r. case r of
     Some it \<Rightarrow> if li_lockID it = lk_LockID lk
       then gseq (onLocks (compareAndDelete (lk_Key lk) it)) (ret ()) else ret ()
   | None \<Rightarrow> ret ())"

definition minutes15 :: int where
  "minutes15 = 15 * 60 * 1000000000"

text \<open>
  The loop of \<open>Lock\<close>: \<open>visited\<close> are the keys passed so far, each with the mark of being newly
  acquired (the slice \<open>acquired\<close>). A key that was held before stays held when the request fails. The
  result is success, otherwise the current owner, and the keys with their \<open>IsLockOwner\<close> as it is left.
\<close>

definition newly :: "(lock_key \<times> bool) list \<Rightarrow> lock_key list" where
  "newly visited = map fst (filter snd visited)"

definition giveUp :: "(lock_key \<times> bool) list \<Rightarrow> lock_key list \<Rightarrow> lock_item \<Rightarrow> (bool \<times> uuid \<times> lock_key list) l2m" where
  "giveUp visited rest existing = gseq (gfor (newly visited) dropLock) (ret (False, li_lockID existing,
     map (\<lambda>(l, new). l\<lparr>lk_IsLockOwner := \<not> new\<rparr>) visited @ rest))"

fun lockLoop :: "int \<Rightarrow> (lock_key \<times> bool) list \<Rightarrow> lock_key list \<Rightarrow> (bool \<times> uuid \<times> lock_key list) l2m" where
  "lockLoop d visited [] = ret (True, NilUUID, map (\<lambda>(l, _). l\<lparr>lk_IsLockOwner := True\<rparr>) visited)"
| "lockLoop d visited (lk # rest) =
     gbind now (\<lambda>t0. let newItem = \<lparr>li_lockID = lk_LockID lk, li_expiration = t0 + d\<rparr> in
     gbind now (\<lambda>ts. gbind (onLocks (loadOrStore lockExp ts (lk_Key lk) newItem)) (\<lambda>r.
       if \<not> snd r then lockLoop d (visited @ [(lk, True)]) rest
       else let existing = fst r in
         gbind now (\<lambda>t1. if t1 > li_expiration existing
            then gbind (onLocks (compareAndSwap (lk_Key lk) existing newItem)) (\<lambda>ok.
                   if ok then lockLoop d (visited @ [(lk, True)]) rest
                   else giveUp visited (lk # rest) existing)
            else if li_lockID existing = lk_LockID lk
            then lockLoop d (visited @ [(lk, False)]) rest
            else giveUp visited (lk # rest) existing))))"

text \<open>\<open>slices.SortFunc\<close> sorts by the key; the order of equal keys, which it leaves open, is the given one.\<close>

definition l2_Lock :: "int \<Rightarrow> lock_key list \<Rightarrow> (bool \<times> uuid \<times> lock_key list) l2m" where
  "l2_Lock duration lockKeys =
     lockLoop (if duration \<le> 0 then minutes15 else duration) [] (sort_key lk_Key lockKeys)"

fun l2_IsLocked :: "lock_key list \<Rightarrow> bool l2m" where
  "l2_IsLocked [] = ret True"
| "l2_IsLocked (lk # rest) = gbind (reads (\<lambda>c. load (l2_locks c) (lk_Key lk))) (\<lambda>r. case r of
     None \<Rightarrow> ret False
   | Some it \<Rightarrow> if li_lockID it \<noteq> lk_LockID lk then ret False
       else gbind now (\<lambda>t. if t > li_expiration it then ret False else l2_IsLocked rest))"

definition l2_DualLock :: "int \<Rightarrow> lock_key list \<Rightarrow> (bool \<times> uuid \<times> lock_key list) l2m" where
  "l2_DualLock duration lockKeys = gbind (l2_Lock duration lockKeys) (\<lambda>(ok, owner, keys).
     if \<not> ok then ret (ok, owner, keys)
     else gbind (l2_IsLocked keys) (\<lambda>isLocked. ret (isLocked, NilUUID, keys)))"

fun l2_IsLockedByOthers :: "string list \<Rightarrow> bool l2m" where
  "l2_IsLockedByOthers [] = ret False"
| "l2_IsLockedByOthers (k # ks) = gbind (reads (\<lambda>c. load (l2_locks c) k)) (\<lambda>r. case r of
     None \<Rightarrow> l2_IsLockedByOthers ks
   | Some it \<Rightarrow> gbind now (\<lambda>t. if t > li_expiration it then l2_IsLockedByOthers ks else ret True))"

text \<open>
  \<open>IsLockedTTL\<close> renews the locks that it finds to be all valid; an expired one it deletes. The renewal
  retries when another writer got in between, which cannot happen within one step: fuel \<open>2\<close> is enough.
\<close>

fun ownAll :: "lock_key list \<Rightarrow> bool l2m" where
  "ownAll [] = ret True"
| "ownAll (lk # rest) = gbind (reads (\<lambda>c. load (l2_locks c) (lk_Key lk))) (\<lambda>r. case r of
     None \<Rightarrow> ret False
   | Some it \<Rightarrow> if li_lockID it \<noteq> lk_LockID lk then ret False
       else gbind now (\<lambda>t. if t > li_expiration it
         then gseq (onLocks (compareAndDelete (lk_Key lk) it)) (ret False) else ownAll rest))"

fun renew :: "nat \<Rightarrow> int \<Rightarrow> lock_key \<Rightarrow> bool l2m" where
  "renew 0 newExp lk = fail OutOfFuel"
| "renew (Suc n) newExp lk = gbind (reads (\<lambda>c. load (l2_locks c) (lk_Key lk))) (\<lambda>r. case r of
     None \<Rightarrow> ret False
   | Some it \<Rightarrow> if li_lockID it \<noteq> lk_LockID lk then ret False
       else gbind (onLocks (compareAndSwap (lk_Key lk) it \<lparr>li_lockID = li_lockID it, li_expiration = newExp\<rparr>)) (\<lambda>ok.
         if ok then ret True else renew n newExp lk))"

fun renewAll :: "int \<Rightarrow> lock_key list \<Rightarrow> bool l2m" where
  "renewAll newExp [] = ret True"
| "renewAll newExp (lk # rest) = gbind (renew 2 newExp lk) (\<lambda>ok.
     if ok then renewAll newExp rest else ret False)"

definition l2_IsLockedTTL :: "int \<Rightarrow> lock_key list \<Rightarrow> bool l2m" where
  "l2_IsLockedTTL duration lockKeys = gbind (ownAll lockKeys) (\<lambda>ok.
     if \<not> ok then ret False else gbind now (\<lambda>t. renewAll (t + duration) lockKeys))"

definition l2_IsLockedByOthersTTL :: "string list \<Rightarrow> int \<Rightarrow> bool l2m" where
  "l2_IsLockedByOthersTTL names duration = ret True"

definition l2_Unlock :: "lock_key list \<Rightarrow> unit l2m" where
  "l2_Unlock lockKeys = gfor lockKeys dropLock"

end
