(* ===== verification/Cache_Locks.thy ===== *)
theory Cache_Locks
  imports Cache_L2
begin

text \<open>
  What the locks of the in-memory L2 cache guarantee. Each access to the lock table is one atomic step
  under the mutex of a shard; \<open>lock_step\<close> is the step a set of lockers can take, and a request of
  \<open>Lock\<close> or \<open>Unlock\<close> is a sequence of them. A lock that has not expired survives every step of others as
  long as no shard is full; at capacity the eviction takes it, which is shown by a run.
\<close>

section \<open>The lock table under single operations\<close>

lemma length_AList_update:
  "length (AList.update k v xs) = (if k \<in> fst ` set xs then length xs else Suc (length xs))"
  by (induction xs) auto

lemma load_sm_delete [simp]: "load (sm_delete k m) = (load m)(k := None)"
  by (rule ext) (auto simp: sm_delete_def Let_def load_def putShard_def AList.delete_conv)

lemma load_update: "load (putShard (getShard k) (AList.update k v (shards m (getShard k))) m) = (load m)(k \<mapsto> v)"
  by (rule ext) (auto simp: load_def putShard_def update_conv)

lemma load_compareAndSwap: "load m k = Some old \<Longrightarrow> load (snd (compareAndSwap k old new m)) = (load m)(k \<mapsto> new)"
  by (simp add: compareAndSwap_def load_update Let_def)

definition hasRoom :: "'x sharded_map \<Rightarrow> nat \<Rightarrow> bool" where
  "hasRoom m n = (\<forall>i. length (shards m i) + n \<le> maxItemsPerShard m)"

lemma load_sm_store: "length (shards m (getShard k)) < maxItemsPerShard m \<Longrightarrow>
    load (sm_store e t k v m) = (load m)(k \<mapsto> v)"
  by (simp add: sm_store_def makeRoom_def load_update Let_def)

lemma hasRoom_length: "hasRoom m (Suc n) \<Longrightarrow> length (shards m i) < maxItemsPerShard m"
  by (auto simp: hasRoom_def dest: spec [where x = i])

lemma hasRoom_sm_store: "hasRoom m (Suc n) \<Longrightarrow> hasRoom (sm_store e t k v m) n"
  using hasRoom_length [of m n "getShard k"]
  by (auto simp: hasRoom_def sm_store_def makeRoom_def Let_def putShard_def length_AList_update intro: Suc_leD)

lemma hasRoom_mono: "hasRoom m (Suc n) \<Longrightarrow> hasRoom m n"
  unfolding hasRoom_def by (metis Suc_leD add_Suc_right)

lemma load_in_shard: "load m k = Some v \<Longrightarrow> k \<in> fst ` set (shards m (getShard k))"
  by (metis load_def map_of_eq_None_iff option.distinct(1))

lemma hasRoom_swap: "hasRoom m n \<Longrightarrow> hasRoom (snd (compareAndSwap k old new m)) n"
  by (auto simp: hasRoom_def compareAndSwap_def Let_def putShard_def length_AList_update dest: spec load_in_shard)


section \<open>Steps of the lockers\<close>

text \<open>
  The steps that the holders of the lock IDs \<open>U\<close> can take at times in \<open>T\<close>: store a lock where there is
  none, replace one seen to have expired, delete one of their own. The comparisons of \<open>compareAndSwap\<close>
  and \<open>compareAndDelete\<close> make the last two harmless when the table changed in between.
\<close>

inductive lock_step :: "uuid set \<Rightarrow> int set \<Rightarrow> lock_item sharded_map \<Rightarrow> lock_item sharded_map \<Rightarrow> bool"
  for U T where
  step_store: "u \<in> U \<Longrightarrow> load m k = None \<Longrightarrow> length (shards m (getShard k)) < maxItemsPerShard m \<Longrightarrow>
    lock_step U T m (snd (loadOrStore lockExp t k \<lparr>li_lockID = u, li_expiration = e\<rparr> m))"
| step_swap: "u \<in> U \<Longrightarrow> t \<in> T \<Longrightarrow> t > li_expiration old \<Longrightarrow>
    lock_step U T m (snd (compareAndSwap k old \<lparr>li_lockID = u, li_expiration = e\<rparr> m))"
| step_drop: "li_lockID it \<in> U \<Longrightarrow> lock_step U T m (snd (compareAndDelete k it m))"

abbreviation lock_steps :: "uuid set \<Rightarrow> int set \<Rightarrow> lock_item sharded_map \<Rightarrow> lock_item sharded_map \<Rightarrow> bool" where
  "lock_steps U T \<equiv> (lock_step U T)\<^sup>*\<^sup>*"

text \<open>What a holder relies on: its lock is there and not expired.\<close>

definition holds :: "lock_item sharded_map \<Rightarrow> string \<Rightarrow> lock_item \<Rightarrow> uuid set \<Rightarrow> int set \<Rightarrow> bool" where
  "holds m k it U T = (load m k = Some it \<and> li_lockID it \<notin> U \<and> (\<forall>t\<in>T. t \<le> li_expiration it))"

lemma lock_step_holds: "lock_step U T m m' \<Longrightarrow> holds m k it U T \<Longrightarrow> holds m' k it U T"
proof (induction rule: lock_step.induct)
  case (step_store u m k' t e)
  then show ?case by (auto simp: holds_def loadOrStore_def load_sm_store)
next
  case (step_swap u t old m k' e)
  then show ?case by (fastforce simp: holds_def compareAndSwap_def load_update Let_def)
next
  case (step_drop it' m k')
  then show ?case by (auto simp: holds_def compareAndDelete_def)
qed

lemma lock_steps_holds: "lock_steps U T m m' \<Longrightarrow> holds m k it U T \<Longrightarrow> holds m' k it U T"
  by (induction rule: rtranclp_induct) (auto intro: lock_step_holds)

lemma lock_step_mono: "lock_step U T m m' \<Longrightarrow> U \<subseteq> U' \<Longrightarrow> T \<subseteq> T' \<Longrightarrow> lock_step U' T' m m'"
  by (auto elim!: lock_step.cases intro: lock_step.intros)

lemma lock_steps_mono: "lock_steps U T m m' \<Longrightarrow> U \<subseteq> U' \<Longrightarrow> T \<subseteq> T' \<Longrightarrow> lock_steps U' T' m m'"
  by (induction rule: rtranclp_induct) (auto intro: lock_step_mono rtranclp.rtrancl_into_rtrancl)

section \<open>Requests are sequences of steps\<close>

definition lockIDs :: "lock_key list \<Rightarrow> uuid set" where
  "lockIDs lks = lk_LockID ` set lks"

text \<open>The times that the next \<open>n\<close> looks at the clock can show.\<close>

definition nextTimes :: "l2_cache \<Rightarrow> nat \<Rightarrow> int set" where
  "nextTimes c n = clock c ` {ticks c..<ticks c + n}"

lemma dropLock_run: "\<exists>m'. dropLock lk c = (Inr (), c\<lparr>l2_locks := m'\<rparr>) \<and> lock_steps {lk_LockID lk} {} (l2_locks c) m' \<and>
    load m' = (load (l2_locks c))(lk_Key lk := (case load (l2_locks c) (lk_Key lk) of None \<Rightarrow> None
      | Some it \<Rightarrow> if li_lockID it = lk_LockID lk then None else Some it))"
proof (cases "load (l2_locks c) (lk_Key lk)")
  case None
  then show ?thesis
    by (intro exI [of _ "l2_locks c"]) (auto simp: dropLock_def exec_simps)
next
  case (Some it)
  show ?thesis
  proof (cases "li_lockID it = lk_LockID lk")
    case True
    then have "lock_step {lk_LockID lk} {} (l2_locks c) (sm_delete (lk_Key lk) (l2_locks c))"
      using step_drop [of it "{lk_LockID lk}" "{}" "l2_locks c" "lk_Key lk"] Some by (simp add: compareAndDelete_def)
    then show ?thesis
      using Some True by (intro exI [of _ "sm_delete (lk_Key lk) (l2_locks c)"])
        (auto simp: dropLock_def exec_simps onLocks_def compareAndDelete_def)
  next
    case False
    with Some show ?thesis
      by (intro exI [of _ "l2_locks c"]) (auto simp: dropLock_def exec_simps)
  qed
qed

text \<open>Releasing a list of keys that the lockers own.\<close>

definition owned :: "lock_item sharded_map \<Rightarrow> lock_key \<Rightarrow> bool" where
  "owned m lk = (\<exists>it. load m (lk_Key lk) = Some it \<and> li_lockID it = lk_LockID lk)"

lemma release_run: "distinct (map lk_Key lks) \<Longrightarrow> \<exists>m'. gfor lks dropLock c = (Inr (), c\<lparr>l2_locks := m'\<rparr>) \<and>
    lock_steps (lockIDs lks) {} (l2_locks c) m' \<and>
    (\<forall>k. k \<notin> lk_Key ` set lks \<longrightarrow> load m' k = load (l2_locks c) k) \<and>
    (\<forall>lk\<in>set lks. owned (l2_locks c) lk \<longrightarrow> load m' (lk_Key lk) = None)"
proof (induction lks arbitrary: c)
  case Nil
  show ?case by (intro exI [of _ "l2_locks c"]) (simp add: exec_simps)
next
  case (Cons lk lks)
  obtain m1 where d: "dropLock lk c = (Inr (), c\<lparr>l2_locks := m1\<rparr>)"
    and s: "lock_steps {lk_LockID lk} {} (l2_locks c) m1"
    and l: "load m1 = (load (l2_locks c))(lk_Key lk := (case load (l2_locks c) (lk_Key lk) of None \<Rightarrow> None
      | Some it \<Rightarrow> if li_lockID it = lk_LockID lk then None else Some it))"
    using dropLock_run [of lk c] by blast
  obtain m2 where g: "gfor lks dropLock (c\<lparr>l2_locks := m1\<rparr>) = (Inr (), c\<lparr>l2_locks := m2\<rparr>)"
    and s2: "lock_steps (lockIDs lks) {} m1 m2"
    and k2: "\<forall>k. k \<notin> lk_Key ` set lks \<longrightarrow> load m2 k = load m1 k"
    and o2: "\<forall>lk\<in>set lks. owned m1 lk \<longrightarrow> load m2 (lk_Key lk) = None"
    using Cons.IH [of "c\<lparr>l2_locks := m1\<rparr>"] Cons.prems by auto
  have "lock_steps (lockIDs (lk # lks)) {} (l2_locks c) m2"
    using lock_steps_mono [OF s, of "lockIDs (lk # lks)" "{}"] lock_steps_mono [OF s2, of "lockIDs (lk # lks)" "{}"]
    by (auto simp: lockIDs_def intro: rtranclp_trans)
  moreover have "load m2 (lk_Key l') = None" if "l' \<in> set (lk # lks)" "owned (l2_locks c) l'" for l'
    using that k2 o2 Cons.prems by (cases "l' = lk") (auto simp: l owned_def image_iff dest: sym)
  ultimately show ?case
    using k2 by (intro exI [of _ m2]) (auto simp: exec_simps d g l)
qed

section \<open>The loop of Lock\<close>

text \<open>
  What the loop keeps, from the table \<open>B\<close> that it started on: the keys newly acquired were free or had
  expired and now carry the request's IDs, the others are as they were.
\<close>

definition loop_inv :: "(string \<rightharpoonup> lock_item) \<Rightarrow> int set \<Rightarrow> (lock_key \<times> bool) list \<Rightarrow> lock_item sharded_map \<Rightarrow> bool" where
  "loop_inv B T vis m = (
     (\<forall>k. k \<notin> lk_Key ` set (newly vis) \<longrightarrow> load m k = B k) \<and>
     (\<forall>(lk, new) \<in> set vis. owned m lk \<and>
        (new \<longrightarrow> (\<forall>it. B (lk_Key lk) = Some it \<longrightarrow> (\<exists>t\<in>T. t > li_expiration it)))))"

lemma newly_Nil [simp]: "newly [] = []"
  by (simp add: newly_def)

lemma newly_snoc [simp]: "newly (vis @ [(lk, b)]) = newly vis @ (if b then [lk] else [])"
  by (simp add: newly_def)

lemma newly_sub: "set (newly vis) \<subseteq> set (map fst vis)"
  by (auto simp: newly_def)

lemma newly_mem: "lk \<in> set (newly vis) \<longleftrightarrow> (lk, True) \<in> set vis"
  by (auto simp: newly_def image_iff)

lemma newly_keys: "k \<notin> lk_Key ` fst ` set vis \<Longrightarrow> k \<notin> lk_Key ` set (newly vis)"
  using newly_sub [of vis] by (auto simp: image_iff subset_iff)

lemma newly_distinct: "distinct (map lk_Key (map fst vis)) \<Longrightarrow> distinct (map lk_Key (newly vis))"
  by (induction vis rule: rev_induct) (auto simp: newly_def)

text \<open>The outcome: all keys are owned, or nothing is left of the request.\<close>

definition lock_outcome :: "(string \<rightharpoonup> lock_item) \<Rightarrow> int set \<Rightarrow> lock_key list \<Rightarrow> bool \<Rightarrow> lock_item sharded_map \<Rightarrow> bool" where
  "lock_outcome B T lks ok m = (
     (\<forall>k. k \<notin> lk_Key ` set lks \<longrightarrow> load m k = B k) \<and>
     (if ok then \<forall>lk\<in>set lks. owned m lk
      else \<forall>k. load m k = B k \<or>
        load m k = None \<and> (\<exists>it. B k = Some it \<and> (\<exists>t\<in>T. t > li_expiration it))))"

lemma giveUp_run:
  assumes inv: "loop_inv B T vis (l2_locks c)" and d: "distinct (map lk_Key (map fst vis @ rest))"
  shows "\<exists>m'. giveUp vis rest it c = (Inr (False, li_lockID it,
      map (\<lambda>(l, new). l\<lparr>lk_IsLockOwner := \<not> new\<rparr>) vis @ rest), c\<lparr>l2_locks := m'\<rparr>) \<and>
    lock_steps (lockIDs (map fst vis)) {} (l2_locks c) m' \<and> lock_outcome B T (map fst vis @ rest) False m'"
proof -
  obtain m' where g: "gfor (newly vis) dropLock c = (Inr (), c\<lparr>l2_locks := m'\<rparr>)"
    and s: "lock_steps (lockIDs (newly vis)) {} (l2_locks c) m'"
    and k: "\<forall>k. k \<notin> lk_Key ` set (newly vis) \<longrightarrow> load m' k = load (l2_locks c) k"
    and o: "\<forall>lk\<in>set (newly vis). owned (l2_locks c) lk \<longrightarrow> load m' (lk_Key lk) = None"
    using release_run [of "newly vis" c] newly_distinct [of vis] d by auto
  have s': "lock_steps (lockIDs (map fst vis)) {} (l2_locks c) m'"
    using lock_steps_mono [OF s, of "lockIDs (map fst vis)" "{}"] image_mono [OF newly_sub [of vis], of lk_LockID]
    by (simp add: lockIDs_def)
  have gone: "load m' (lk_Key lk) = None" if "(lk, True) \<in> set vis" for lk
    using that o inv by (auto simp: loop_inv_def newly_mem)
  have same: "load m' k' = B k'" if "k' \<notin> lk_Key ` set (newly vis)" for k'
    using that k inv by (auto simp: loop_inv_def)
  have new: "load m' k' = B k' \<or> load m' k' = None \<and> (\<exists>it. B k' = Some it \<and> (\<exists>t\<in>T. t > li_expiration it))" for k'
  proof (cases "k' \<in> lk_Key ` set (newly vis)")
    case True
    then obtain lk where "(lk, True) \<in> set vis" "k' = lk_Key lk" by (auto simp: newly_mem)
    then show ?thesis using gone [of lk] inv by (cases "B k'") (auto simp: loop_inv_def)
  qed (simp add: same)
  have "k' \<notin> lk_Key ` set (map fst vis @ rest) \<Longrightarrow> load m' k' = B k'" for k'
    using same [of k'] newly_keys [of k' vis] by (simp add: image_Un)
  with new have "lock_outcome B T (map fst vis @ rest) False m'" by (simp add: lock_outcome_def)
  then show ?thesis
    using g s' by (intro exI [of _ m']) (simp add: giveUp_def exec_simps)
qed

definition loop_result :: "(string \<rightharpoonup> lock_item) \<Rightarrow> int set \<Rightarrow> lock_key list \<Rightarrow> l2_cache \<Rightarrow>
    (go_error + bool \<times> uuid \<times> lock_key list) \<times> l2_cache \<Rightarrow> bool" where
  "loop_result B T lks c r = (\<exists>ok owner ks m' n. r = (Inr (ok, owner, ks), c\<lparr>l2_locks := m', ticks := n\<rparr>) \<and>
     lock_steps (lockIDs lks) T (l2_locks c) m' \<and> lock_outcome B T lks ok m')"

lemma loop_result_step:
  assumes "loop_result B T lks (c\<lparr>l2_locks := m, ticks := n\<rparr>) r" "lock_steps (lockIDs lks) T (l2_locks c) m"
  shows "loop_result B T lks c r"
  using assms unfolding loop_result_def by (fastforce intro: rtranclp_trans)

lemma loop_inv_acquired:
  assumes inv: "loop_inv B T vis m" and d: "lk_Key lk \<notin> lk_Key ` set (map fst vis)"
    and old: "\<And>it. load m (lk_Key lk) = Some it \<Longrightarrow> \<exists>t\<in>T. t > li_expiration it"
    and new: "load m' = (load m)(lk_Key lk \<mapsto> it')" "li_lockID it' = lk_LockID lk"
  shows "loop_inv B T (vis @ [(lk, True)]) m'"
proof -
  have "lk_Key lk \<notin> lk_Key ` set (newly vis)" using d newly_sub [of vis] by auto
  then have B: "load m (lk_Key lk) = B (lk_Key lk)" using inv by (simp add: loop_inv_def)
  have "owned m' l" if "(l, b) \<in> set vis" for l b
  proof -
    have "lk_Key l \<noteq> lk_Key lk" using that d by (force simp: image_iff)
    moreover have "owned m l" using that inv by (auto simp: loop_inv_def)
    ultimately show ?thesis by (simp add: owned_def new)
  qed
  moreover have "owned m' lk" by (simp add: owned_def new)
  ultimately show ?thesis
    using inv old by (auto simp: loop_inv_def new(1) B)
qed

lemma loop_inv_reentered:
  "loop_inv B T vis m \<Longrightarrow> owned m lk \<Longrightarrow> loop_inv B T (vis @ [(lk, False)]) m"
  by (auto simp: loop_inv_def)

lemma ticks_then_locks: "c\<lparr>ticks := n, l2_locks := m\<rparr> = c\<lparr>l2_locks := m, ticks := n\<rparr>" for c :: l2_cache
  by simp

lemma lockLoop_run:
  assumes "hasRoom (l2_locks c) (length lks)" "distinct (map lk_Key (map fst vis @ lks))"
    and "nextTimes c (3 * length lks) \<subseteq> T" "loop_inv B T vis (l2_locks c)"
  shows "loop_result B T (map fst vis @ lks) c (lockLoop d vis lks c)"
  using assms
proof (induction lks arbitrary: c vis)
  case Nil
  then have "lock_outcome B T (map fst vis) True (l2_locks c)"
    by (auto simp: loop_inv_def lock_outcome_def newly_keys)
  moreover have "lockLoop d vis [] c = (Inr (True, NilUUID, map (\<lambda>(l, _). l\<lparr>lk_IsLockOwner := True\<rparr>) vis),
      c\<lparr>l2_locks := l2_locks c, ticks := ticks c\<rparr>)"
    by (simp add: exec_simps)
  ultimately show ?case
    unfolding loop_result_def append_Nil2 by blast
next
  case (Cons lk lks)
  let ?all = "map fst vis @ lk # lks"
  let ?m = "l2_locks c" and ?k = "lk_Key lk" and ?new = "\<lparr>li_lockID = lk_LockID lk, li_expiration = clock c (ticks c) + d\<rparr>"
  have fresh: "?k \<notin> lk_Key ` set (map fst vis)" using Cons.prems(2) by auto
  have mem: "lk_LockID lk \<in> lockIDs ?all" by (simp add: lockIDs_def)
  have T: "clock c (ticks c + 2) \<in> T" using Cons.prems(3) by (auto simp: nextTimes_def image_subset_iff)
  have times: "nextTimes (c\<lparr>l2_locks := m', ticks := ticks c + j\<rparr>) (3 * length lks) \<subseteq> T" if "j \<le> 3" for m' j
    using Cons.prems(3) that by (auto simp: nextTimes_def image_subset_iff)
  have go: "loop_result B T ?all c (lockLoop d (vis @ [(lk, b)]) lks (c\<lparr>l2_locks := m', ticks := ticks c + j\<rparr>))"
    if "j \<le> 3" "hasRoom m' (length lks)" "loop_inv B T (vis @ [(lk, b)]) m'" "lock_steps (lockIDs ?all) T ?m m'" for b m' j
  proof -
    have "loop_result B T (map fst (vis @ [(lk, b)]) @ lks) (c\<lparr>l2_locks := m', ticks := ticks c + j\<rparr>)
        (lockLoop d (vis @ [(lk, b)]) lks (c\<lparr>l2_locks := m', ticks := ticks c + j\<rparr>))"
      using that times Cons.prems(2) by (intro Cons.IH) simp_all
    then show ?thesis
      using that(4) loop_result_step [where m = m' and n = "ticks c + j" and lks = ?all] by simp
  qed
  show ?case
  proof (cases "load ?m ?k")
    case None
    let ?m' = "sm_store lockExp (clock c (Suc (ticks c))) ?k ?new ?m"
    have room: "length (shards ?m (getShard ?k)) < maxItemsPerShard ?m"
      using Cons.prems(1) by (auto intro: hasRoom_length)
    have "lock_step (lockIDs ?all) T ?m ?m'"
      using step_store [OF mem None room] None by (simp add: loadOrStore_def)
    moreover have "loop_inv B T (vis @ [(lk, True)]) ?m'"
      using Cons.prems(4) fresh None room by (intro loop_inv_acquired [of B T vis ?m]) (auto simp: load_sm_store)
    moreover have "hasRoom ?m' (length lks)"
      using Cons.prems(1) by (auto intro: hasRoom_sm_store)
    ultimately have "loop_result B T ?all c (lockLoop d (vis @ [(lk, True)]) lks (c\<lparr>l2_locks := ?m', ticks := ticks c + 2\<rparr>))"
      by (intro go) auto
    then show ?thesis
      using None by (simp add: exec_simps now_def onLocks_def loadOrStore_def Let_def ticks_then_locks)
  next
    case (Some it)
    have eq: "lockLoop d vis (lk # lks) c =
        (let c3 = c\<lparr>ticks := ticks c + 3\<rparr> in
         if clock c (ticks c + 2) > li_expiration it
         then lockLoop d (vis @ [(lk, True)]) lks (c3\<lparr>l2_locks := snd (compareAndSwap ?k it ?new ?m)\<rparr>)
         else if li_lockID it = lk_LockID lk then lockLoop d (vis @ [(lk, False)]) lks c3
         else giveUp vis (lk # lks) it c3)"
      using Some by (simp add: exec_simps now_def onLocks_def loadOrStore_def Let_def compareAndSwap_def eval_nat_numeral)
    consider (expired) "clock c (ticks c + 2) > li_expiration it"
      | (mine) "\<not> clock c (ticks c + 2) > li_expiration it" "li_lockID it = lk_LockID lk"
      | (other) "\<not> clock c (ticks c + 2) > li_expiration it" "li_lockID it \<noteq> lk_LockID lk" by blast
    then show ?thesis
    proof cases
      case expired
      let ?m' = "snd (compareAndSwap ?k it ?new ?m)"
      have "lock_step (lockIDs ?all) T ?m ?m'" by (rule step_swap [OF mem T expired])
      moreover have "loop_inv B T (vis @ [(lk, True)]) ?m'"
        using Cons.prems(4) fresh Some expired T
        by (intro loop_inv_acquired [of B T vis ?m]) (auto simp: load_compareAndSwap)
      moreover have "hasRoom ?m' (length lks)"
        using Cons.prems(1) by (auto intro: hasRoom_swap hasRoom_mono)
      ultimately show ?thesis
        using go [of 3 ?m' True] expired unfolding eq Let_def by (simp add: ticks_then_locks r_into_rtranclp)
    next
      case mine
      then have "loop_inv B T (vis @ [(lk, False)]) ?m"
        using Cons.prems(4) Some by (intro loop_inv_reentered) (simp_all add: owned_def)
      then show ?thesis
        using go [of 3 ?m False] hasRoom_mono [of ?m "length lks"] Cons.prems(1) mine
        unfolding eq Let_def by simp
    next
      case other
      obtain m' where g: "giveUp vis (lk # lks) it (c\<lparr>ticks := ticks c + 3\<rparr>) = (Inr (False, li_lockID it,
          map (\<lambda>(l, new). l\<lparr>lk_IsLockOwner := \<not> new\<rparr>) vis @ lk # lks), c\<lparr>ticks := ticks c + 3, l2_locks := m'\<rparr>)"
        and s: "lock_steps (lockIDs (map fst vis)) {} ?m m'" and r: "lock_outcome B T ?all False m'"
        using giveUp_run [of B T vis "c\<lparr>ticks := ticks c + 3\<rparr>" "lk # lks" it] Cons.prems(2,4) by auto
      have "lock_steps (lockIDs ?all) T ?m m'"
        using lock_steps_mono [OF s, of "lockIDs ?all" T] by (auto simp: lockIDs_def)
      then show ?thesis
        using r other unfolding eq Let_def by (auto simp: loop_result_def g ticks_then_locks)
    qed
  qed
qed

lemma loop_inv_start: "loop_inv (load m) T [] m"
  by (simp add: loop_inv_def)

lemma l2_Lock_run:
  assumes "hasRoom (l2_locks c) (length lks)" "distinct (map lk_Key lks)"
  shows "loop_result (load (l2_locks c)) (nextTimes c (3 * length lks)) lks c (l2_Lock d lks c)"
proof -
  have "distinct (map lk_Key (sort_key lk_Key lks))"
    using assms(2) by (metis distinct_map distinct_sort set_sort)
  moreover have "lockIDs (sort_key lk_Key lks) = lockIDs lks" by (simp add: lockIDs_def)
  moreover have "lock_outcome B T (sort_key lk_Key lks) ok m = lock_outcome B T lks ok m" for B T ok m
    by (simp add: lock_outcome_def)
  ultimately show ?thesis
    using lockLoop_run [of c "sort_key lk_Key lks" "[]" _ _ "if d \<le> 0 then minutes15 else d"] assms(1)
      loop_inv_start [of "l2_locks c"]
    by (simp add: l2_Lock_def loop_result_def)
qed

section \<open>What the locks guarantee\<close>

text \<open>
  C17. A lock that is held and does not expire meanwhile excludes others: a request for a set of keys
  that contains the held one fails, and any request leaves the held lock in place, as long as no shard
  of the lock table is filled by it.
\<close>

theorem l2_Lock_exclusive:
  assumes "hasRoom (l2_locks c) (length lks)" "distinct (map lk_Key lks)"
    and "holds (l2_locks c) k it (lockIDs lks) (nextTimes c (3 * length lks))"
  shows "\<exists>ok owner ks c'. l2_Lock d lks c = (Inr (ok, owner, ks), c') \<and>
    load (l2_locks c') k = Some it \<and> (k \<in> lk_Key ` set lks \<longrightarrow> \<not> ok)"
proof -
  let ?T = "nextTimes c (3 * length lks)"
  obtain ok owner ks m' n where r: "l2_Lock d lks c = (Inr (ok, owner, ks), c\<lparr>l2_locks := m', ticks := n\<rparr>)"
    and s: "lock_steps (lockIDs lks) ?T (l2_locks c) m'" and out: "lock_outcome (load (l2_locks c)) ?T lks ok m'"
    using l2_Lock_run [OF assms(1,2), of d] by (auto simp: loop_result_def)
  have held: "holds m' k it (lockIDs lks) ?T" using lock_steps_holds [OF s assms(3)] .
  then have "\<not> ok" if "k \<in> lk_Key ` set lks"
    using that out by (fastforce simp: holds_def lock_outcome_def owned_def lockIDs_def)
  with held r show ?thesis by (auto simp: holds_def)
qed


text \<open>Eviction: the victim is an entry of the shard.\<close>

lemma pickVictim_mem: "pickVictim e acc xs = Some (k, m) \<Longrightarrow> acc = Some (k, m) \<or> k \<in> fst ` set xs"
  by (induction e acc xs rule: pickVictim.induct) (fastforce split: option.splits if_splits prod.splits)+

lemma evictFrom_evicts:
  assumes "set (ord xs) = set xs" "xs \<noteq> []"
  shows "\<exists>k\<in>fst ` set xs. evictFrom expOf t ord xs = AList.delete k xs"
proof -
  obtain k v where first: "\<exists>r. ord xs = (k, v) # r" using assms by (cases "ord xs") auto
  then have mem: "k \<in> fst ` set xs" using assms(1) by (metis fst_conv image_eqI list.set_intros(1))
  let ?eff = "\<lambda>v. case expOf v of None \<Rightarrow> t + hundredYears | Some t \<Rightarrow> t"
  show ?thesis
  proof (cases "pickVictim ?eff None (take 5 (ord xs))")
    case None
    with first mem show ?thesis by (intro bexI [of _ k]) (auto simp: evictFrom_def)
  next
    case (Some p)
    obtain v m where p: "p = (v, m)" by (cases p)
    have "v \<in> fst ` set xs"
      using pickVictim_mem [of ?eff None "take 5 (ord xs)" v m] Some p assms(1) set_take_subset [of 5 "ord xs"] by auto
    then show ?thesis
      using Some p first mem by (intro bexI [of _ "if v = [] then k else v"]) (auto simp: evictFrom_def Let_def)
  qed
qed

text \<open>Every entry is in the shard of its key, and the operations keep it so.\<close>

definition placed :: "'x sharded_map \<Rightarrow> bool" where
  "placed m = (\<forall>i. \<forall>k\<in>fst ` set (shards m i). getShard k = i)"

lemma placed_newShardedMap: "placed (newShardedMap ord n)"
  by (simp add: placed_def newShardedMap_def)

text \<open>
  C35. At capacity the exclusion is lost: storing the lock of a free key in a full shard always deletes the
  lock of another key, whether or not that one has expired, and the new request succeeds.
\<close>

theorem loadOrStore_full_drops_a_lock:
  assumes "load m k = None" "length (shards m (getShard k)) \<ge> maxItemsPerShard m" "0 < maxItemsPerShard m"
    and "\<And>xs. set (order m xs) = set xs" "placed m"
  shows "\<exists>k' it. load m k' = Some it \<and> fst (loadOrStore lockExp t k new m) = (new, False) \<and>
    load (snd (loadOrStore lockExp t k new m)) k' = None"
proof -
  let ?xs = "shards m (getShard k)"
  have "?xs \<noteq> []" using assms(2,3) by auto
  then obtain k' where k': "k' \<in> fst ` set ?xs" and e: "evictFrom lockExp t (order m) ?xs = AList.delete k' ?xs"
    using evictFrom_evicts [of "order m" ?xs lockExp t] assms(4) by auto
  have s: "getShard k' = getShard k" using assms(5) k' by (auto simp: placed_def)
  obtain it where it: "map_of ?xs k' = Some it" using k' by (metis map_of_eq_None_iff not_Some_eq)
  moreover have ne: "k' \<noteq> k" using assms(1) k' by (metis load_def map_of_eq_None_iff)
  have "load (snd (loadOrStore lockExp t k new m)) k' = None"
    using assms(1,2) e ne s by (simp add: loadOrStore_def sm_store_def makeRoom_def Let_def putShard_def load_def
        update_conv AList.delete_conv)
  then show ?thesis
    using assms(1) it s by (intro exI [of _ k'] exI [of _ it]) (simp add: load_def loadOrStore_def)
qed

section \<open>Witnesses\<close>

definition sample_lock :: lock_item where
  "sample_lock = \<lparr>li_lockID = 1, li_expiration = 100\<rparr>"

definition sample_table :: "string \<Rightarrow> nat \<Rightarrow> lock_item sharded_map" where
  "sample_table k n = \<lparr>shards = (\<lambda>i. if i = getShard k then [(k, sample_lock)] else []), maxItemsPerShard = n, order = id\<rparr>"

definition sample_l2 :: l2_cache where
  "sample_l2 = \<lparr>l2_data = newShardedMap id 10, l2_locks = sample_table ''lock:a'' 10, standalone = False, clock = int, ticks = 0\<rparr>"

definition sample_request :: "lock_key list" where
  "sample_request = [\<lparr>lk_Key = ''lock:a'', lk_LockID = 2, lk_IsLockOwner = False\<rparr>,
     \<lparr>lk_Key = ''lock:b'', lk_LockID = 2, lk_IsLockOwner = False\<rparr>]"

lemmas sample_defs = sample_lock_def sample_table_def sample_l2_def sample_request_def

lemma sample_room: "hasRoom (l2_locks sample_l2) (length sample_request)"
  by (simp add: hasRoom_def sample_defs)

lemma sample_request_distinct: "distinct (map lk_Key sample_request)"
  by (simp add: sample_defs)

lemma sample_holds: "holds (l2_locks sample_l2) ''lock:a'' sample_lock (lockIDs sample_request)
    (nextTimes sample_l2 (3 * length sample_request))"
  by (auto simp: holds_def load_def lockIDs_def nextTimes_def sample_defs)

theorem l2_Lock_exclusive_witness:
  "\<exists>ok owner ks c'. l2_Lock 60 sample_request sample_l2 = (Inr (ok, owner, ks), c') \<and>
    load (l2_locks c') ''lock:a'' = Some sample_lock \<and> \<not> ok"
  using l2_Lock_exclusive [OF sample_room sample_request_distinct sample_holds, of 60]
  by (auto simp: sample_request_def)


lemma same_shard: "getShard ''lock:ee'' = getShard ''lock:z''"
  by (simp add: getShard_def fnv32a_def shardCount_def)

theorem loadOrStore_full_drops_a_lock_witness:
  "\<exists>k' it. load (sample_table ''lock:z'' 1) k' = Some it \<and>
    load (snd (loadOrStore lockExp 5 ''lock:ee'' \<lparr>li_lockID = 2, li_expiration = 60\<rparr> (sample_table ''lock:z'' 1))) k' = None"
proof -
  have "load (sample_table ''lock:z'' 1) ''lock:ee'' = None" by (simp add: load_def sample_table_def)
  moreover have "placed (sample_table ''lock:z'' 1)" by (simp add: placed_def sample_table_def)
  ultimately show ?thesis
    using loadOrStore_full_drops_a_lock [of "sample_table ''lock:z'' 1" "''lock:ee''" 5 "\<lparr>li_lockID = 2, li_expiration = 60\<rparr>"]
    by (auto simp: same_shard sample_table_def)
qed

text \<open>The lock operations leave the data alone.\<close>

lemma dropLock_data: "l2_data (snd (dropLock lk c)) = l2_data c"
  by (simp add: dropLock_def exec_simps onLocks_def split: option.splits prod.splits)

lemma release_data: "l2_data (snd (gfor lks dropLock c)) = l2_data c"
proof (induction lks arbitrary: c)
  case (Cons lk lks)
  then show ?case
    using dropLock_data [of lk c] by (auto simp: exec_simps split: prod.splits sum.splits)
qed (simp add: exec_simps)

lemma giveUp_data: "l2_data (snd (giveUp vis rest it c)) = l2_data c"
  using release_data [of "newly vis" c] by (auto simp: giveUp_def exec_simps split: prod.splits sum.splits)

lemma lockLoop_data: "l2_data (snd (lockLoop d vis lks c)) = l2_data c"
proof (induction lks arbitrary: vis c)
  case (Cons lk lks)
  then show ?case
    by (simp add: exec_simps now_def onLocks_def giveUp_data Let_def split: prod.splits)
qed (simp add: exec_simps)

text \<open>
  The locks are invisible to the reads of the cache: \<open>Lock\<close> writes the lock table and \<open>GetEx\<close> reads
  the data table, so \<open>GetEx\<close> on a key that was just locked finds nothing.
\<close>

theorem GetEx_misses_locks:
  assumes "load (l2_data c) k = None"
  shows "fst (l2_GetEx k e (snd (l2_Lock d lks c))) = Inr None"
  using assms lockLoop_data [of _ "[]" "sort_key lk_Key lks" c]
  by (simp add: l2_GetEx_def readItem_def l2_Lock_def exec_simps)

theorem GetEx_misses_locks_witness:
  "fst (l2_GetEx ''lock:b'' 60 (snd (l2_Lock 60 sample_request sample_l2))) = Inr None"
  using GetEx_misses_locks [of sample_l2 "''lock:b''"] by (simp add: sample_defs newShardedMap_def load_def)

end
