(* ===== verification/Node_Repo.thy ===== *)
theory Node_Repo
  imports Handle Cache_Mru
begin

text \<open>
  The node repository of a transaction (\<open>common/noderepository.frontend.go\<close>,
  \<open>common/noderepository.backend.go\<close>): the nodes a transaction read, added, changed or removed, and the
  steps by which a commit writes them next to the current ones, a rollback takes them away again, and
  finalisation makes them current.

  The registry, the blob store and the shared caches are interfaces; their methods are the fields of
  \<open>services\<close> and work on a world \<open>'w\<close>. A node is any value with an ID and a version
  (\<open>btree.MetaDataType\<close>); its encoding (\<open>encoding.BlobMarshaler\<close>) is a field too.
\<close>

section \<open>Interfaces\<close>

type_synonym bytes = "8 word list"

record 'a blobs_payload =
  bp_BlobTable :: string
  bp_Blobs :: "'a list"

record ('n, 'w) services =
  s_ID :: "'n \<Rightarrow> uuid"
  s_Version :: "'n \<Rightarrow> 32 word"
  s_SetVersion :: "32 word \<Rightarrow> 'n \<Rightarrow> 'n"
  s_marshal :: "'n \<Rightarrow> string + bytes"
  s_unmarshal :: "bytes option \<Rightarrow> 'n"
  s_regGet :: "uuid registry_payload list \<Rightarrow> ('w, handle registry_payload list) gom"
  s_regAdd :: "handle registry_payload list \<Rightarrow> ('w, unit) gom"
  s_regUpdate :: "handle registry_payload list \<Rightarrow> ('w, unit) gom"
  s_regUpdateNoLocks :: "bool \<Rightarrow> handle registry_payload list \<Rightarrow> ('w, unit) gom"
  s_regRemove :: "uuid registry_payload list \<Rightarrow> ('w, unit) gom"
  s_blobGetOne :: "string \<Rightarrow> uuid \<Rightarrow> ('w, bytes option) gom"
  s_blobAdd :: "(uuid \<times> bytes) blobs_payload list \<Rightarrow> ('w, unit) gom"
  s_blobRemove :: "uuid blobs_payload list \<Rightarrow> ('w, unit) gom"
  s_l2SetNode :: "uuid \<Rightarrow> 'n \<Rightarrow> int \<Rightarrow> ('w, unit) gom"
  s_l2DelNode :: "uuid \<Rightarrow> ('w, bool) gom"
  s_l1Handle :: "uuid \<Rightarrow> ('w, handle) gom"
  s_l1GetNodeFromMRU :: "handle \<Rightarrow> ('w, 'n option) gom"
  s_l1GetNode :: "handle \<Rightarrow> bool \<Rightarrow> int \<Rightarrow> ('w, 'n option) gom"
  s_l1SetNode :: "uuid \<Rightarrow> 'n \<Rightarrow> int \<Rightarrow> ('w, unit) gom"
  s_newUUID :: "('w, uuid) gom"
  s_now :: "('w, int) gom"

type_synonym 'n store_nodes = "(store_info \<times> 'n list) list"

definition wrapErr :: "string \<Rightarrow> ('s, 'a) gom \<Rightarrow> ('s, 'a) gom" where
  "wrapErr msg m = gbind (attempt m) (\<lambda>r. case r of Inl e \<Rightarrow> fail (Err (msg @ e)) | Inr x \<Rightarrow> ret x)"

text \<open>An error that is only logged.\<close>

definition tolerate :: "('s, 'a) gom \<Rightarrow> ('s, unit) gom" where
  "tolerate m = gbind (attempt m) (\<lambda>_. ret ())"

text \<open>A deferred call runs after the rest, whatever its outcome; its own error is dropped.\<close>

definition deferred :: "('s, 'a) gom \<Rightarrow> ('s, 'b) gom \<Rightarrow> ('s, 'a) gom" where
  "deferred m u = gbind (attempt m) (\<lambda>r. gseq (tolerate u) (case r of Inl e \<Rightarrow> fail (Err e) | Inr x \<Rightarrow> ret x))"

section \<open>The transaction's nodes\<close>

datatype action_type = defaultAction | getAction | addAction | updateAction | removeAction

record 'n cached_node =
  cn_node :: 'n
  cn_action :: action_type

record 'n node_repo =
  readNodesCache :: "(uuid, 'n option) cache"
  localCache :: "uuid \<rightharpoonup> 'n cached_node"
  nr_storeInfo :: store_info
  nr_count :: int

type_synonym ('n, 'a) nrm = "('n node_repo, 'a) gom"

definition newNodeRepository :: "store_info \<Rightarrow> 'n node_repo" where
  "newNodeRepository si = \<lparr>readNodesCache = NewCache 8 12, localCache = Map.empty, nr_storeInfo = si,
     nr_count = si_Count si\<rparr>"

abbreviation onRead :: "((uuid, 'n option) cache, 'a) gom \<Rightarrow> ('n, 'a) nrm" where
  "onRead \<equiv> zoom readNodesCache (\<lambda>c r. r\<lparr>readNodesCache := c\<rparr>)"

definition readCached :: "uuid \<Rightarrow> ('n, 'n option) nrm" where
  "readCached i = gbind (onRead (cache_Get None [i])) (\<lambda>v. aget v 0)"

definition setLocal :: "uuid \<Rightarrow> 'n cached_node \<Rightarrow> ('n, unit) nrm" where
  "setLocal i c = modify (\<lambda>r. r\<lparr>localCache := (localCache r)(i \<mapsto> c)\<rparr>)"

text \<open>A node that was only read moves from the read cache to the tracked ones.\<close>

definition promoteRead :: "action_type \<Rightarrow> uuid \<Rightarrow> ('n, unit) nrm" where
  "promoteRead a i = gbind (readCached i) (\<lambda>v. case v of
     None \<Rightarrow> ret ()
   | Some n \<Rightarrow> gseq (setLocal i \<lparr>cn_node = n, cn_action = a\<rparr>) (onRead (cache_Delete [i])))"

definition nr_add :: "uuid \<Rightarrow> 'n \<Rightarrow> ('n, unit) nrm" where
  "nr_add i n = setLocal i \<lparr>cn_node = n, cn_action = addAction\<rparr>"

definition nr_update :: "uuid \<Rightarrow> 'n \<Rightarrow> ('n, unit) nrm" where
  "nr_update i n = gseq (promoteRead defaultAction i) (gbind (reads localCache) (\<lambda>m. case m i of
     Some v \<Rightarrow> setLocal i \<lparr>cn_node = n, cn_action = (if cn_action v \<noteq> addAction then updateAction else addAction)\<rparr>
   | None \<Rightarrow> setLocal i \<lparr>cn_node = n, cn_action = addAction\<rparr>))"

definition nr_remove :: "uuid \<Rightarrow> ('n, unit) nrm" where
  "nr_remove i = gseq (promoteRead defaultAction i) (gbind (reads localCache) (\<lambda>m. case m i of
     Some v \<Rightarrow> if cn_action v = addAction then modify (\<lambda>r. r\<lparr>localCache := (localCache r)(i := None)\<rparr>)
               else setLocal i (v\<lparr>cn_action := removeAction\<rparr>)
   | None \<Rightarrow> ret ()))"

definition nr_Fetched :: "uuid \<Rightarrow> ('n, unit) nrm" where
  "nr_Fetched i = promoteRead getAction i"

text \<open>Reading a node works on the repository and the world.\<close>

record ('n, 'w) session =
  ss_repo :: "'n node_repo"
  ss_world :: 'w

abbreviation onRepo :: "('n, 'a) nrm \<Rightarrow> (('n, 'w) session, 'a) gom" where
  "onRepo \<equiv> zoom ss_repo (\<lambda>r s. s\<lparr>ss_repo := r\<rparr>)"

abbreviation onStorage :: "('w, 'a) gom \<Rightarrow> (('n, 'w) session, 'a) gom" where
  "onStorage \<equiv> zoom ss_world (\<lambda>w s. s\<lparr>ss_world := w\<rparr>)"

definition keepRead :: "uuid \<Rightarrow> 'n \<Rightarrow> (('n, 'w) session, 'n option) gom" where
  "keepRead i n = gseq (onRepo (onRead (cache_Set [(i, Some n)]))) (ret (Some n))"

text \<open>The read through to the registry, the L1 cache and the blob store.\<close>

definition fetchNode :: "('n, 'w) services \<Rightarrow> uuid \<Rightarrow> (('n, 'w) session, 'n option) gom" where
  "fetchNode S i = gbind (reads (\<lambda>s. nr_storeInfo (ss_repo s))) (\<lambda>si.
     gbind (onStorage (s_regGet S [\<lparr>rp_RegistryTable = RegistryTable si, rp_BlobTable = [],
        rp_CacheDuration = RegistryCacheDuration (CacheConfig si), rp_IsCacheTTL = IsRegistryCacheTTL (CacheConfig si),
        rp_IDs = [i]\<rparr>])) (\<lambda>h.
     if h = [] \<or> rp_IDs (hd h) = [] then ret None
     else let hd' = hd (rp_IDs (hd h)) in
       gbind (onStorage (s_l1GetNode S hd' (IsNodeCacheTTL (CacheConfig si)) (NodeCacheDuration (CacheConfig si)))) (\<lambda>n.
         case n of
           Some n \<Rightarrow> keepRead i (s_SetVersion S (h_Version hd') n)
         | None \<Rightarrow> gbind (onStorage (s_blobGetOne S (BlobTable si) (GetActiveID hd'))) (\<lambda>ba.
             let n = s_SetVersion S (h_Version hd') (s_unmarshal S ba) in
             gseq (onStorage (s_l1SetNode S (GetActiveID hd') n (NodeCacheDuration (CacheConfig si))))
               (keepRead i n)))))"

definition nr_get :: "('n, 'w) services \<Rightarrow> int \<Rightarrow> uuid \<Rightarrow> (('n, 'w) session, 'n option) gom" where
  "nr_get S phaseDone i = gbind (reads (\<lambda>s. localCache (ss_repo s) i)) (\<lambda>l. case l of
     Some v \<Rightarrow> ret (if cn_action v = removeAction then None else Some (cn_node v))
   | None \<Rightarrow> gbind (onRepo (readCached i)) (\<lambda>v. case v of
       Some n \<Rightarrow> ret (Some n)
     | None \<Rightarrow> gbind
         (if phaseDone = 0
          then gbind (onStorage (s_l1Handle S i)) (\<lambda>h.
                 if h_IsEmpty h then ret None else onStorage (s_l1GetNodeFromMRU S h))
          else ret None) (\<lambda>n. case n of
            Some n \<Rightarrow> keepRead i n
          | None \<Rightarrow> fetchNode S i)))"

section \<open>Payloads\<close>

definition convertToBlobRequestPayload :: "('n, 'w) services \<Rightarrow> 'n store_nodes \<Rightarrow> uuid blobs_payload list" where
  "convertToBlobRequestPayload S nodes = map (\<lambda>(si, ns).
     \<lparr>bp_BlobTable = BlobTable si, bp_Blobs = map (s_ID S) ns\<rparr>) nodes"

definition convertToRegistryRequestPayload :: "('n, 'w) services \<Rightarrow> 'n store_nodes \<Rightarrow> uuid registry_payload list" where
  "convertToRegistryRequestPayload S nodes = map (\<lambda>(si, ns).
     \<lparr>rp_RegistryTable = RegistryTable si, rp_BlobTable = BlobTable si,
      rp_CacheDuration = RegistryCacheDuration (CacheConfig si), rp_IsCacheTTL = IsRegistryCacheTTL (CacheConfig si),
      rp_IDs = map (s_ID S) ns\<rparr>) nodes"

definition extractUUIDs :: "('n, 'w) services \<Rightarrow> 'n store_nodes \<Rightarrow> uuid list" where
  "extractUUIDs S nodes = concat (map (\<lambda>(si, ns). map (s_ID S) ns) nodes)"

definition inactiveIDs :: "handle list \<Rightarrow> uuid list" where
  "inactiveIDs hs = filter (\<lambda>u. u \<noteq> NilUUID) (map GetInActiveID hs)"

definition extractInactiveBlobsIDs :: "handle registry_payload list \<Rightarrow> uuid blobs_payload list" where
  "extractInactiveBlobsIDs hs = map (\<lambda>p. \<lparr>bp_BlobTable = rp_BlobTable p, bp_Blobs = inactiveIDs (rp_IDs p)\<rparr>) hs"

end
