(* ===== verification/Node_Commit.thy ===== *)
theory Node_Commit
  imports Node_Repo
begin

text \<open>
  The commit and rollback steps of \<open>common/noderepository.backend.go\<close> on the registry and the blob store.
  The text of a payload in an error message is left out of the model.
\<close>

section \<open>New root nodes\<close>

text \<open>
  The handles and blobs of new roots: \<open>None\<close> when the registry already has a root. The three lists run in
  parallel with the handles, as the index loops do.
\<close>

fun stageRoots :: "('n, 'w) services \<Rightarrow> uuid list \<Rightarrow> 'n list \<Rightarrow> handle list \<Rightarrow> go_error + (handle \<times> bytes) list option" where
  "stageRoots S vids ns [] = Inr (Some [])"
| "stageRoots S vids ns (h # hs) = (if LogicalID h \<noteq> NilUUID then Inr None else (case (vids, ns) of
     (v # vs, n # ns) \<Rightarrow> (case s_marshal S n of
         Inl e \<Rightarrow> Inl (Err e)
       | Inr ba \<Rightarrow> (case stageRoots S vs ns hs of
           Inr (Some r) \<Rightarrow> Inr (Some ((NewHandle v, ba) # r)) | r \<Rightarrow> r))
   | _ \<Rightarrow> Inl Panic))"

fun stageRootPayloads :: "('n, 'w) services \<Rightarrow> uuid registry_payload list \<Rightarrow> 'n store_nodes \<Rightarrow> handle registry_payload list \<Rightarrow>
    go_error + (handle registry_payload \<times> (uuid \<times> bytes) blobs_payload) list option" where
  "stageRootPayloads S vids nodes [] = Inr (Some [])"
| "stageRootPayloads S vids nodes (p # ps) = (case (vids, nodes) of
     (v # vs, (si, ns) # nodes) \<Rightarrow>
       (let hs = (if rp_IDs p = [] then map (\<lambda>_. zeroHandle) (rp_IDs v) else rp_IDs p) in
        case stageRoots S (rp_IDs v) ns hs of
          Inl e \<Rightarrow> Inl e
        | Inr None \<Rightarrow> Inr None
        | Inr (Some r) \<Rightarrow> (case stageRootPayloads S vs nodes ps of
            Inr (Some q) \<Rightarrow> Inr (Some ((p\<lparr>rp_IDs := map fst r\<rparr>,
                \<lparr>bp_BlobTable = BlobTable si, bp_Blobs = map (\<lambda>(h, ba). (GetActiveID h, ba)) r\<rparr>) # q))
          | q \<Rightarrow> q))
   | _ \<Rightarrow> Inl Panic)"

text \<open>The nodes in the shared cache, under the IDs that \<open>idOf\<close> gives for their handles.\<close>

fun cacheEach :: "('n, 'w) services \<Rightarrow> (handle \<Rightarrow> uuid) \<Rightarrow> int \<Rightarrow> 'n list \<Rightarrow> handle list \<Rightarrow> ('w, unit) gom" where
  "cacheEach S idOf d [] hs = ret ()"
| "cacheEach S idOf d (n # ns) [] = fail Panic"
| "cacheEach S idOf d (n # ns) (h # hs) = gseq (tolerate (s_l2SetNode S (idOf h) n d)) (cacheEach S idOf d ns hs)"

fun cacheNodes :: "('n, 'w) services \<Rightarrow> (handle \<Rightarrow> uuid) \<Rightarrow> 'n store_nodes \<Rightarrow> handle registry_payload list \<Rightarrow> ('w, unit) gom" where
  "cacheNodes S idOf [] ps = ret ()"
| "cacheNodes S idOf ((si, ns) # nodes) ps = gseq
     (cacheEach S idOf (NodeCacheDuration (CacheConfig si)) ns (case ps of [] \<Rightarrow> [] | p # _ \<Rightarrow> rp_IDs p))
     (cacheNodes S idOf nodes (tl ps))"

definition commitNewRootNodes :: "('n, 'w) services \<Rightarrow> 'n store_nodes \<Rightarrow> ('w, bool \<times> handle registry_payload list) gom" where
  "commitNewRootNodes S nodes = (if nodes = [] then ret (True, [])
     else let vids = convertToRegistryRequestPayload S nodes in
     gbind (s_regGet S vids) (\<lambda>handles.
     gbind (lift_res (stageRootPayloads S vids nodes handles)) (\<lambda>st. case st of
       None \<Rightarrow> ret (False, [])
     | Some q \<Rightarrow> gseq (s_blobAdd S (map snd q))
         (gseq (cacheNodes S GetActiveID nodes (map fst q))
         (gseq (s_regAdd S (map fst q)) (ret (True, map fst q)))))))"

section \<open>Updated nodes\<close>

definition allocate :: "('n, 'w) services \<Rightarrow> handle \<Rightarrow> ('w, uuid \<times> handle) gom" where
  "allocate S h = (if IsAandBinUse h then ret (NilUUID, h)
     else gbind (s_newUUID S) (\<lambda>u. gbind (s_now S) (\<lambda>t. ret (AllocateID u t h))))"

definition expired :: "('n, 'w) services \<Rightarrow> handle \<Rightarrow> ('w, bool) gom" where
  "expired S h = gbind (s_now S) (\<lambda>t. ret (IsExpiredInactive t h))"

text \<open>
  A second physical ID for a node: \<open>None\<close> when the node is marked deleted, has another version than the
  one read, or is being changed by a transaction that is not old enough to be given up.
\<close>

definition stageHandle :: "('n, 'w) services \<Rightarrow> 'n \<Rightarrow> handle \<Rightarrow> ('w, (uuid \<times> handle) option) gom" where
  "stageHandle S n h =
     gbind (if IsDeleted h then gbind (expired S h) (\<lambda>e. ret (\<not> e)) else ret False) (\<lambda>busy.
     if busy \<or> h_Version h \<noteq> s_Version S n then ret None
     else gbind (if IsDeleted h then gbind (expired S h) (\<lambda>e. ret (if e then h\<lparr>IsDeleted := False\<rparr> else h)) else ret h) (\<lambda>h.
     gbind (allocate S h) (\<lambda>(u, h).
     gbind (if u = NilUUID
            then gbind (expired S h) (\<lambda>e. if e then allocate S (ClearInactiveID h) else ret (u, h))
            else ret (u, h)) (\<lambda>(u, h).
     ret (if u = NilUUID then None else Some (u, h))))))"

fun stageHandles :: "('n, 'w) services \<Rightarrow> 'n list \<Rightarrow> handle list \<Rightarrow> ('w, (handle \<times> uuid \<times> bytes) list option) gom" where
  "stageHandles S ns [] = ret (Some [])"
| "stageHandles S ns (h # hs) = (case ns of [] \<Rightarrow> fail Panic
   | n # ns \<Rightarrow> gbind (stageHandle S n h) (\<lambda>r. case r of
       None \<Rightarrow> ret None
     | Some (u, h') \<Rightarrow> (case s_marshal S n of
         Inl e \<Rightarrow> fail (Err e)
       | Inr ba \<Rightarrow> gbind (stageHandles S ns hs) (\<lambda>r. ret (map_option (Cons (h', u, ba)) r)))))"

fun stageUpdates :: "('n, 'w) services \<Rightarrow> 'n store_nodes \<Rightarrow> handle registry_payload list \<Rightarrow>
    ('w, (handle registry_payload \<times> (uuid \<times> bytes) blobs_payload) list option) gom" where
  "stageUpdates S nodes [] = ret (Some [])"
| "stageUpdates S nodes (p # ps) = (case nodes of [] \<Rightarrow> fail Panic
   | (si, ns) # nodes \<Rightarrow> gbind (stageHandles S ns (rp_IDs p)) (\<lambda>r. case r of
       None \<Rightarrow> ret None
     | Some r \<Rightarrow> gbind (stageUpdates S nodes ps) (\<lambda>q. ret (map_option
         (Cons (p\<lparr>rp_IDs := map fst r\<rparr>, \<lparr>bp_BlobTable = BlobTable si, bp_Blobs = map snd r\<rparr>)) q))))"

text \<open>The first payload with another number of handles than IDs ends the commit.\<close>

fun allFound :: "uuid registry_payload list \<Rightarrow> handle registry_payload list \<Rightarrow> go_error + bool" where
  "allFound vids [] = Inr True"
| "allFound vids (p # ps) = (case vids of [] \<Rightarrow> Inl Panic
   | v # vs \<Rightarrow> if length (rp_IDs p) \<noteq> length (rp_IDs v) then Inr False else allFound vs ps)"

definition commitUpdatedNodes :: "('n, 'w) services \<Rightarrow> 'n store_nodes \<Rightarrow> ('w, bool \<times> handle registry_payload list) gom" where
  "commitUpdatedNodes S nodes = (if nodes = [] then ret (True, [])
     else let vids = convertToRegistryRequestPayload S nodes in
     gbind (s_regGet S vids) (\<lambda>handles.
     gbind (lift_res (allFound vids handles)) (\<lambda>found.
     if \<not> found then ret (False, [])
     else gbind (stageUpdates S nodes handles) (\<lambda>st. case st of
       None \<Rightarrow> ret (False, [])
     | Some q \<Rightarrow> gseq (wrapErr ''commitUpdatedNodes failed registry.Update: '' (s_regUpdateNoLocks S False (map fst q)))
         (gseq (wrapErr ''commitUpdatedNodes failed blobStore.Add: '' (s_blobAdd S (map snd q)))
         (gseq (cacheNodes S GetInActiveID nodes (map fst q)) (ret (True, map fst q))))))))"

section \<open>Removed nodes\<close>

fun markRemoved :: "('n, 'w) services \<Rightarrow> int \<Rightarrow> 'n list \<Rightarrow> handle list \<Rightarrow> go_error + handle list option" where
  "markRemoved S t ns [] = Inr (Some [])"
| "markRemoved S t ns (h # hs) = (if IsDeleted h then Inr None else (case ns of
     [] \<Rightarrow> Inl Panic
   | n # ns \<Rightarrow> if h_Version h \<noteq> s_Version S n then Inr None
       else (case markRemoved S t ns hs of
         Inr (Some r) \<Rightarrow> Inr (Some (h\<lparr>IsDeleted := True, WorkInProgressTimestamp := word_of_int t\<rparr> # r)) | r \<Rightarrow> r)))"

fun markRemovedAll :: "('n, 'w) services \<Rightarrow> int \<Rightarrow> 'n store_nodes \<Rightarrow> handle registry_payload list \<Rightarrow>
    go_error + handle registry_payload list option" where
  "markRemovedAll S t nodes [] = Inr (Some [])"
| "markRemovedAll S t nodes (p # ps) = (case markRemoved S t (case nodes of [] \<Rightarrow> [] | (si, ns) # _ \<Rightarrow> ns) (rp_IDs p) of
     Inl e \<Rightarrow> Inl e
   | Inr None \<Rightarrow> Inr None
   | Inr (Some r) \<Rightarrow> (case markRemovedAll S t (tl nodes) ps of
       Inr (Some q) \<Rightarrow> Inr (Some (p\<lparr>rp_IDs := r\<rparr> # q)) | q \<Rightarrow> q))"

definition commitRemovedNodes :: "('n, 'w) services \<Rightarrow> 'n store_nodes \<Rightarrow> ('w, bool \<times> handle registry_payload list) gom" where
  "commitRemovedNodes S nodes = (if nodes = [] then ret (True, [])
     else gbind (s_regGet S (convertToRegistryRequestPayload S nodes)) (\<lambda>handles.
     gbind (s_now S) (\<lambda>t.
     gbind (lift_res (markRemovedAll S t nodes handles)) (\<lambda>st. case st of
       None \<Rightarrow> ret (False, [])
     | Some q \<Rightarrow> gseq (s_regUpdateNoLocks S False q) (ret (True, q))))))"

section \<open>Added nodes\<close>

definition addedHandle :: "uuid \<Rightarrow> handle" where
  "addedHandle i = (NewHandle i)\<lparr>h_Version := h_Version (NewHandle i) + 1\<rparr>"

fun stageAdds :: "('n, 'w) services \<Rightarrow> store_info \<Rightarrow> 'n list \<Rightarrow> ('w, (handle \<times> uuid \<times> bytes) list) gom" where
  "stageAdds S si [] = ret []"
| "stageAdds S si (n # ns) = (case s_marshal S n of
     Inl e \<Rightarrow> fail (Err e)
   | Inr ba \<Rightarrow> gseq (tolerate (s_l2SetNode S (s_ID S n) n (NodeCacheDuration (CacheConfig si))))
       (gbind (stageAdds S si ns) (\<lambda>r. ret ((addedHandle (s_ID S n), s_ID S n, ba) # r))))"

fun stageAddsAll :: "('n, 'w) services \<Rightarrow> 'n store_nodes \<Rightarrow>
    ('w, (handle registry_payload \<times> (uuid \<times> bytes) blobs_payload) list) gom" where
  "stageAddsAll S [] = ret []"
| "stageAddsAll S ((si, ns) # nodes) = gbind (stageAdds S si ns) (\<lambda>r. gbind (stageAddsAll S nodes) (\<lambda>q.
     ret ((\<lparr>rp_RegistryTable = RegistryTable si, rp_BlobTable = [], rp_CacheDuration = RegistryCacheDuration (CacheConfig si),
            rp_IsCacheTTL = False, rp_IDs = map fst r\<rparr>,
           \<lparr>bp_BlobTable = BlobTable si, bp_Blobs = map snd r\<rparr>) # q)))"

definition commitAddedNodes :: "('n, 'w) services \<Rightarrow> 'n store_nodes \<Rightarrow> ('w, handle registry_payload list) gom" where
  "commitAddedNodes S nodes = (if nodes = [] then ret []
     else gbind (stageAddsAll S nodes) (\<lambda>q.
     gseq (s_regAdd S (map fst q)) (gseq (s_blobAdd S (map snd q)) (ret (map fst q)))))"

section \<open>The check of what was read\<close>

fun sameVersion :: "('n, 'w) services \<Rightarrow> 'n list \<Rightarrow> handle list \<Rightarrow> go_error + bool" where
  "sameVersion S ns [] = Inr True"
| "sameVersion S ns (h # hs) = (case ns of [] \<Rightarrow> Inl Panic
   | n # ns \<Rightarrow> if h_Version h \<noteq> s_Version S n then Inr False else sameVersion S ns hs)"

fun sameVersions :: "('n, 'w) services \<Rightarrow> uuid registry_payload list \<Rightarrow> 'n store_nodes \<Rightarrow> handle registry_payload list \<Rightarrow> go_error + bool" where
  "sameVersions S vids nodes [] = Inr True"
| "sameVersions S vids nodes (p # ps) = (case vids of [] \<Rightarrow> Inl Panic
   | v # vs \<Rightarrow> if length (rp_IDs p) \<noteq> length (rp_IDs v) then Inr False
       else (case sameVersion S (case nodes of [] \<Rightarrow> [] | (si, ns) # _ \<Rightarrow> ns) (rp_IDs p) of
         Inr True \<Rightarrow> sameVersions S vs (tl nodes) ps | r \<Rightarrow> r))"

definition areFetchedItemsIntact :: "('n, 'w) services \<Rightarrow> 'n store_nodes \<Rightarrow> ('w, bool) gom" where
  "areFetchedItemsIntact S nodes = (if nodes = [] then ret True
     else let vids = convertToRegistryRequestPayload S nodes in
     gbind (s_regGet S vids) (\<lambda>handles. lift_res (sameVersions S vids nodes handles)))"

section \<open>Finalisation\<close>

definition mapHandles :: "(handle \<Rightarrow> handle) \<Rightarrow> handle registry_payload list \<Rightarrow> handle registry_payload list" where
  "mapHandles f ps = map (\<lambda>p. p\<lparr>rp_IDs := map f (rp_IDs p)\<rparr>) ps"

definition activate :: "handle \<Rightarrow> handle" where
  "activate h = (FlipActiveID h)\<lparr>h_Version := h_Version h + 1, WorkInProgressTimestamp := 1\<rparr>"

definition activateInactiveNodes :: "handle registry_payload list \<Rightarrow> handle registry_payload list" where
  "activateInactiveNodes handles = mapHandles activate handles"

definition touch :: "handle \<Rightarrow> handle" where
  "touch h = h\<lparr>h_Version := h_Version h + 1, WorkInProgressTimestamp := 0\<rparr>"

definition touchNodes :: "handle registry_payload list \<Rightarrow> handle registry_payload list" where
  "touchNodes handles = mapHandles touch handles"

section \<open>Rollback\<close>

text \<open>
  A rollback goes on after an error and returns an error in the end. Three ways in which the code
  keeps the error: the new one replaces the old, is put in front of it, or is taken only when it is the
  first.
\<close>

datatype err_policy = Replace | Chain | KeepFirst

definition noteErr :: "err_policy \<Rightarrow> string \<Rightarrow> string option \<Rightarrow> ('w, 'a) gom \<Rightarrow> ('w, string option) gom" where
  "noteErr pol msg lastErr m = gbind (attempt m) (\<lambda>r. ret (case r of
     Inr _ \<Rightarrow> lastErr
   | Inl e \<Rightarrow> (case (pol, lastErr) of
       (KeepFirst, Some l) \<Rightarrow> Some l
     | (Chain, Some l) \<Rightarrow> Some (msg @ e @ ''; '' @ l)
     | _ \<Rightarrow> Some (msg @ e))))"

definition finishWith :: "string option \<Rightarrow> ('w, unit) gom" where
  "finishWith lastErr = (case lastErr of None \<Rightarrow> ret () | Some e \<Rightarrow> fail (Err e))"

fun uncacheNodes :: "('n, 'w) services \<Rightarrow> string \<Rightarrow> uuid list \<Rightarrow> string option \<Rightarrow> ('w, string option) gom" where
  "uncacheNodes S msg [] lastErr = ret lastErr"
| "uncacheNodes S msg (u # us) lastErr =
     gbind (noteErr KeepFirst msg lastErr (s_l2DelNode S u)) (uncacheNodes S msg us)"

definition payloadIDs :: "'a registry_payload list \<Rightarrow> 'a list" where
  "payloadIDs ps = concat (map rp_IDs ps)"

definition blobIDs :: "'a blobs_payload list \<Rightarrow> 'a list" where
  "blobIDs bs = concat (map bp_Blobs bs)"

text \<open>\<open>pastRoots\<close>: the log says that the commit went beyond the registration of new roots.\<close>

definition rollbackNewRootNodes :: "('n, 'w) services \<Rightarrow> bool \<Rightarrow> uuid registry_payload list \<Rightarrow> uuid blobs_payload list \<Rightarrow> ('w, unit) gom" where
  "rollbackNewRootNodes S pastRoots vids bibs = (if vids = [] then ret ()
     else gbind (noteErr Replace ''unable to undo new root nodes: '' None (s_blobRemove S bibs)) (\<lambda>e.
     gbind (uncacheNodes S ''unable to undo new root nodes in redis: '' (payloadIDs vids) e) (\<lambda>e.
     if \<not> pastRoots then finishWith e
     else gbind (attempt (s_regGet S vids)) (\<lambda>r. case r of
       Inl err \<Rightarrow> finishWith (Some (''unable to check new root nodes existence: '' @ err))
     | Inr handles \<Rightarrow>
         let rm = map (\<lambda>p. \<lparr>rp_RegistryTable = rp_RegistryTable p, rp_BlobTable = [], rp_CacheDuration = 0,
               rp_IsCacheTTL = False, rp_IDs = map LogicalID (rp_IDs p)\<rparr>) (filter (\<lambda>p. rp_IDs p \<noteq> []) handles)
         in if rm = [] then finishWith e
            else gbind (noteErr Replace ''unable to undo new root nodes registration: '' e (s_regRemove S rm)) finishWith))))"

definition rollbackAddedNodes :: "('n, 'w) services \<Rightarrow> uuid registry_payload list \<Rightarrow> uuid blobs_payload list \<Rightarrow> ('w, unit) gom" where
  "rollbackAddedNodes S vids bibs = (if vids = [] then ret ()
     else gbind (noteErr Replace ''unable to undo added nodes: '' None (s_blobRemove S bibs)) (\<lambda>e.
     gbind (noteErr Chain ''unable to undo added nodes registration: '' e (s_regRemove S vids)) (\<lambda>e.
     gbind (uncacheNodes S ''unable to undo added nodes in redis: '' (payloadIDs vids) e) finishWith)))"

definition unstage :: "handle \<Rightarrow> handle" where
  "unstage h = (if GetInActiveID h = NilUUID then h\<lparr>WorkInProgressTimestamp := 0\<rparr> else ClearInactiveID h)"

text \<open>One payload per request; the loop runs over the registry's answer and leaves the rest empty.\<close>

fun stagedBlobs :: "uuid registry_payload list \<Rightarrow> handle registry_payload list \<Rightarrow> go_error + uuid blobs_payload list" where
  "stagedBlobs [] [] = Inr []"
| "stagedBlobs [] (p # ps) = Inl Panic"
| "stagedBlobs (v # vs) [] = map_sum id (Cons \<lparr>bp_BlobTable = [], bp_Blobs = []\<rparr>) (stagedBlobs vs [])"
| "stagedBlobs (v # vs) (p # ps) = map_sum id
     (Cons \<lparr>bp_BlobTable = rp_BlobTable v, bp_Blobs = inactiveIDs (rp_IDs p)\<rparr>) (stagedBlobs vs ps)"

definition rollbackUpdatedNodes :: "('n, 'w) services \<Rightarrow> bool \<Rightarrow> uuid registry_payload list \<Rightarrow> ('w, unit) gom" where
  "rollbackUpdatedNodes S nodesAreLocked vids = (if vids = [] then ret ()
     else gbind (s_regGet S vids) (\<lambda>handles.
       gbind (lift_res (stagedBlobs vids handles)) (\<lambda>bibs.
       let handles' = mapHandles unstage handles in
       gbind (noteErr Replace ''unable to undo updated nodes: '' None (s_blobRemove S bibs)) (\<lambda>e.
       gbind (noteErr Chain ''unable to undo updated nodes registration: '' e
          (if nodesAreLocked then s_regUpdateNoLocks S False handles' else s_regUpdate S handles')) (\<lambda>e.
       gbind (uncacheNodes S ''unable to undo updated nodes in redis: '' (blobIDs bibs) e) finishWith)))))"

definition removeNodes :: "('n, 'w) services \<Rightarrow> uuid blobs_payload list \<Rightarrow> ('w, unit) gom" where
  "removeNodes S bibs = (if bibs = [] then ret ()
     else gbind (noteErr Replace ''unable to undo updated nodes: '' None (s_blobRemove S bibs)) (\<lambda>e.
     gbind (uncacheNodes S ''unable to undo updated nodes in redis: '' (blobIDs bibs) e) finishWith))"

definition unmark :: "handle \<Rightarrow> handle" where
  "unmark h = h\<lparr>IsDeleted := False, WorkInProgressTimestamp := 0\<rparr>"

definition marked :: "handle \<Rightarrow> bool" where
  "marked h = (IsDeleted h \<or> sint (WorkInProgressTimestamp h) > 0)"

definition rollbackRemovedNodes :: "('n, 'w) services \<Rightarrow> bool \<Rightarrow> uuid registry_payload list \<Rightarrow> ('w, unit) gom" where
  "rollbackRemovedNodes S nodesAreLocked vids = (if vids = [] then ret ()
     else gbind (wrapErr ''unable to fetch removed nodes from registry: '' (s_regGet S vids)) (\<lambda>handles.
       let back = map (\<lambda>p. \<lparr>rp_RegistryTable = rp_RegistryTable p, rp_BlobTable = [], rp_CacheDuration = 0,
             rp_IsCacheTTL = False, rp_IDs = map unmark (filter marked (rp_IDs p))\<rparr>) handles in
       wrapErr ''unable to undo removed nodes in registry: ''
         (if nodesAreLocked then s_regUpdateNoLocks S False back else s_regUpdate S back)))"

end
