(* ===== verification/Node_Storage.thy ===== *)
theory Node_Storage
  imports Node_Commit
begin

text \<open>
  What the commit steps of the node repository rely on in the registry, the blob store and the shared
  cache, as a locale, and what they guarantee on top of it: a commit in preparation is invisible to
  readers, concurrent changes of a node are refused, finalisation makes exactly the new nodes visible,
  and a rollback leaves nothing behind. The locale is interpreted on the in-memory registry and blob store
  of \<open>common/mocks\<close>.
\<close>

section \<open>Updates of the registry and the blob store\<close>

definition updHandles :: "handle list \<Rightarrow> (uuid \<rightharpoonup> handle) \<Rightarrow> (uuid \<rightharpoonup> handle)" where
  "updHandles hs m = fold (\<lambda>h m. m(LogicalID h \<mapsto> h)) hs m"

definition updBlobs :: "(uuid \<times> bytes) list \<Rightarrow> (uuid \<rightharpoonup> bytes) \<Rightarrow> (uuid \<rightharpoonup> bytes)" where
  "updBlobs bs m = fold (\<lambda>(u, b) m. m(u \<mapsto> b)) bs m"

definition lookups :: "(uuid \<rightharpoonup> handle) \<Rightarrow> uuid list \<Rightarrow> handle list" where
  "lookups m ids = List.map_filter m ids"

definition physicalIDs :: "handle \<Rightarrow> uuid set" where
  "physicalIDs h = {PhysicalIDA h, PhysicalIDB h} - {NilUUID}"

text \<open>What a reader gets for a logical ID: the version and the blob of the active physical ID.\<close>

definition visible :: "(uuid \<rightharpoonup> handle) \<Rightarrow> (uuid \<rightharpoonup> bytes) \<Rightarrow> uuid \<Rightarrow> (32 word \<times> bytes option) option" where
  "visible r b i = map_option (\<lambda>h. (h_Version h, b (GetActiveID h))) (r i)"

lemma updHandles_other: "i \<notin> LogicalID ` set hs \<Longrightarrow> updHandles hs m i = m i"
  by (induction hs arbitrary: m) (auto simp: updHandles_def)

lemma updHandles_mem:
  "distinct (map LogicalID hs) \<Longrightarrow> h \<in> set hs \<Longrightarrow> updHandles hs m (LogicalID h) = Some h"
proof (induction hs arbitrary: m)
  case (Cons a hs)
  then show ?case
    using updHandles_other [of "LogicalID h" hs "m(LogicalID a \<mapsto> a)"] by (auto simp: updHandles_def)
qed simp

lemma updBlobs_other: "u \<notin> fst ` set bs \<Longrightarrow> updBlobs bs m u = m u"
  by (induction bs arbitrary: m) (auto simp: updBlobs_def)

lemma updBlobs_mem: "distinct (map fst bs) \<Longrightarrow> (u, b) \<in> set bs \<Longrightarrow> updBlobs bs m u = Some b"
proof (induction bs arbitrary: m)
  case (Cons a bs)
  then show ?case
    using updBlobs_other [of u bs "m(fst a \<mapsto> snd a)"]
    by (cases a) (auto simp: updBlobs_def image_iff split: prod.splits)
qed simp

lemma lookups_full:
  "length (lookups m ids) = length ids \<Longrightarrow> map (\<lambda>i. m i) ids = map Some (lookups m ids)"
proof (induction ids)
  case (Cons i ids)
  have "length (lookups m ids) \<le> length ids" by (simp add: lookups_def map_filter_def)
  with Cons show ?case by (cases "m i") (auto simp: lookups_def map_filter_simps)
qed (simp add: lookups_def map_filter_simps)

lemma physicalIDs_active: "physicalIDs h = {GetActiveID h, GetInActiveID h} - {NilUUID}"
  by (auto simp: physicalIDs_def GetActiveID_def GetInActiveID_def)

lemma allFound_lengths:
  "length ps = length vids \<Longrightarrow> \<exists>b. allFound vids ps = Inr b \<and> (b \<longleftrightarrow> map (length \<circ> rp_IDs) ps = map (length \<circ> rp_IDs) vids)"
proof (induction ps arbitrary: vids)
  case (Cons p ps)
  then obtain v vs where "vids = v # vs" "length ps = length vs" by (cases vids) auto
  with Cons.IH [of vs] show ?case by auto
qed (auto intro: exI [of _ True])

lemma lookups_payloads:
  "map rp_IDs ps = map (\<lambda>v. lookups m (rp_IDs v)) vids \<Longrightarrow> map (length \<circ> rp_IDs) ps = map (length \<circ> rp_IDs) vids \<Longrightarrow>
   map m (payloadIDs vids) = map Some (payloadIDs ps)"
proof (induction vids arbitrary: ps)
  case (Cons v vs)
  then obtain p ps' where "ps = p # ps'" by (cases ps) auto
  moreover from this have "map m (payloadIDs vs) = map Some (payloadIDs ps')"
    using Cons.prems by (intro Cons.IH) (simp_all add: comp_def)
  ultimately show ?case using Cons.prems lookups_full [of m "rp_IDs v"] by (simp add: payloadIDs_def)
qed (simp add: payloadIDs_def)

section \<open>The contract\<close>

text \<open>
  What is stored: the handles, the blobs, and the UUIDs in use (those that a new one differs from).
\<close>

record stored =
  regs :: "uuid \<rightharpoonup> handle"
  blobs :: "uuid \<rightharpoonup> bytes"
  used :: "uuid set"

definition stored_ok :: "stored \<Rightarrow> bool" where
  "stored_ok s = ((\<forall>i h. regs s i = Some h \<longrightarrow> LogicalID h = i \<and> i \<noteq> NilUUID \<and> physicalIDs h \<subseteq> used s) \<and>
     dom (blobs s) \<subseteq> used s)"

definition quiet :: "stored \<Rightarrow> stored \<Rightarrow> bool" where
  "quiet s s' = (regs s' = regs s \<and> blobs s' = blobs s \<and> used s \<subseteq> used s')"

lemma quiet_refl [simp]: "quiet s s"
  by (simp add: quiet_def)

lemma quiet_trans: "quiet s s' \<Longrightarrow> quiet s' s'' \<Longrightarrow> quiet s s''"
  unfolding quiet_def by auto

locale storage =
  fixes S :: "('n, 'w) services" and abs :: "'w \<Rightarrow> stored" and valid :: "'w \<Rightarrow> bool"
  assumes valid_ok: "valid w \<Longrightarrow> stored_ok (abs w)"
    and regGet: "valid w \<Longrightarrow> \<exists>ps w'. s_regGet S vids w = (Inr ps, w') \<and> valid w' \<and> quiet (abs w) (abs w') \<and>
      map rp_IDs ps = map (\<lambda>v. lookups (regs (abs w)) (rp_IDs v)) vids"
    and regUpdateNoLocks: "valid w \<Longrightarrow>
      (\<And>h. h \<in> set (payloadIDs ps) \<Longrightarrow> LogicalID h \<noteq> NilUUID \<and> physicalIDs h \<subseteq> used (abs w)) \<Longrightarrow>
      \<exists>w'. s_regUpdateNoLocks S b ps w = (Inr (), w') \<and> valid w' \<and>
        regs (abs w') = updHandles (payloadIDs ps) (regs (abs w)) \<and>
        blobs (abs w') = blobs (abs w) \<and> used (abs w) \<subseteq> used (abs w')"
    and blobAdd: "valid w \<Longrightarrow> fst ` set (blobIDs bs) \<subseteq> used (abs w) \<Longrightarrow>
      \<exists>w'. s_blobAdd S bs w = (Inr (), w') \<and> valid w' \<and> regs (abs w') = regs (abs w) \<and>
        blobs (abs w') = updBlobs (blobIDs bs) (blobs (abs w)) \<and> used (abs w) \<subseteq> used (abs w')"
    and blobRemove: "valid w \<Longrightarrow> \<exists>w'. s_blobRemove S us w = (Inr (), w') \<and> valid w' \<and> regs (abs w') = regs (abs w) \<and>
        blobs (abs w') = blobs (abs w) |` (- set (blobIDs us)) \<and> used (abs w) \<subseteq> used (abs w')"
    and l2SetNode: "valid w \<Longrightarrow> \<exists>r w'. attempt (s_l2SetNode S u n d) w = (Inr r, w') \<and> valid w' \<and> quiet (abs w) (abs w')"
    and l2DelNode: "valid w \<Longrightarrow> \<exists>r w'. s_l2DelNode S u w = (Inr r, w') \<and> valid w' \<and> quiet (abs w) (abs w')"
    and newUUID: "valid w \<Longrightarrow> \<exists>r w'. s_newUUID S w = (r, w') \<and> valid w' \<and> quiet (abs w) (abs w') \<and>
      (case r of Inl e \<Rightarrow> e = Panic | Inr u \<Rightarrow> u \<noteq> NilUUID \<and> u \<notin> used (abs w) \<and> u \<in> used (abs w'))"
    and now: "valid w \<Longrightarrow> \<exists>t w'. s_now S w = (Inr t, w') \<and> valid w' \<and> quiet (abs w) (abs w')"
begin

text \<open>A computation that leaves what is stored alone.\<close>

definition calm :: "('w, 'a) gom \<Rightarrow> 'w \<Rightarrow> ('a \<Rightarrow> 'w \<Rightarrow> bool) \<Rightarrow> bool" where
  "calm m w Q = (\<exists>r w'. m w = (Inr r, w') \<and> valid w' \<and> quiet (abs w) (abs w') \<and> Q r w')"

lemma calm_ret: "valid w \<Longrightarrow> Q x w \<Longrightarrow> calm (ret x) w Q"
  by (simp add: calm_def ret_def)

lemma calm_bind:
  assumes "calm m w R" and "\<And>r w'. valid w' \<Longrightarrow> quiet (abs w) (abs w') \<Longrightarrow> R r w' \<Longrightarrow> calm (f r) w' Q"
  shows "calm (gbind m f) w Q"
  using assms unfolding calm_def by (fastforce simp: gbind_def dest: quiet_trans)

lemma calm_mono: "calm m w R \<Longrightarrow> (\<And>r w'. valid w' \<Longrightarrow> quiet (abs w) (abs w') \<Longrightarrow> R r w' \<Longrightarrow> Q r w') \<Longrightarrow> calm m w Q"
  unfolding calm_def by blast

text \<open>The clock can show a time at which the handle's unfinished change is given up.\<close>

definition canExpire :: "handle \<Rightarrow> bool" where
  "canExpire h = (\<exists>w t w'. s_now S w = (Inr t, w') \<and> IsExpiredInactive t h)"

lemma calm_expired: "valid w \<Longrightarrow> calm (expired S h) w (\<lambda>e _. e \<longrightarrow> canExpire h)"
  using now [of w] by (fastforce simp: calm_def expired_def exec_simps canExpire_def)

lemma calm_now: "valid w \<Longrightarrow> calm (s_now S) w (\<lambda>_ _. True)"
  using now [of w] by (auto simp: calm_def)

text \<open>A computation that leaves what is stored alone and may fail.\<close>

definition mild :: "('w, 'a) gom \<Rightarrow> 'w \<Rightarrow> ('a \<Rightarrow> 'w \<Rightarrow> bool) \<Rightarrow> bool" where
  "mild m w Q = (\<exists>r w'. m w = (r, w') \<and> valid w' \<and> quiet (abs w) (abs w') \<and>
     (case r of Inl _ \<Rightarrow> True | Inr x \<Rightarrow> Q x w'))"

lemma mild_calm: "calm m w Q \<Longrightarrow> mild m w Q"
  by (auto simp: calm_def mild_def)

lemma mild_fail: "valid w \<Longrightarrow> mild (fail e) w Q"
  by (simp add: mild_def fail_def)

lemma mild_ret: "valid w \<Longrightarrow> Q x w \<Longrightarrow> mild (ret x) w Q"
  by (simp add: mild_def ret_def)

lemma mild_bind:
  assumes "mild m w R" and "\<And>r w'. valid w' \<Longrightarrow> quiet (abs w) (abs w') \<Longrightarrow> R r w' \<Longrightarrow> mild (f r) w' Q"
  shows "mild (gbind m f) w Q"
proof -
  from assms(1) obtain r w1 where m: "m w = (r, w1)" "valid w1" "quiet (abs w) (abs w1)"
    "case r of Inl _ \<Rightarrow> True | Inr x \<Rightarrow> R x w1" by (auto simp: mild_def)
  show ?thesis
  proof (cases r)
    case (Inl e)
    with m show ?thesis by (auto simp: mild_def gbind_def)
  next
    case (Inr x)
    with m assms(2) [of w1 x] show ?thesis by (auto simp: mild_def gbind_def dest: quiet_trans)
  qed
qed

lemma mild_mono: "mild m w R \<Longrightarrow> (\<And>r w'. valid w' \<Longrightarrow> quiet (abs w) (abs w') \<Longrightarrow> R r w' \<Longrightarrow> Q r w') \<Longrightarrow> mild m w Q"
  unfolding mild_def by (fastforce split: sum.splits)

lemmas mild_expired = mild_calm [OF calm_expired]

lemmas mild_now = mild_calm [OF calm_now]

lemma mild_uuid: "valid w \<Longrightarrow> mild (s_newUUID S) w (\<lambda>u w'. u \<noteq> NilUUID \<and> u \<notin> used (abs w) \<and> u \<in> used (abs w'))"
  using newUUID [of w] by (fastforce simp: mild_def split: sum.splits)

end

text \<open>A handle with a second version being written: readers still see the first.\<close>

definition staged :: "handle \<Rightarrow> handle \<Rightarrow> uuid \<Rightarrow> bool" where
  "staged h h' u = (LogicalID h' = LogicalID h \<and> IsActiveIDB h' = IsActiveIDB h \<and> GetActiveID h' = GetActiveID h \<and>
     h_Version h' = h_Version h \<and> GetInActiveID h' = u \<and> u \<noteq> NilUUID)"

lemma staged_id: "staged h h' u \<Longrightarrow> u \<noteq> NilUUID"
  by (simp add: staged_def)

lemma AllocateID_staged:
  "\<not> IsAandBinUse h \<Longrightarrow> u \<noteq> NilUUID \<Longrightarrow> \<exists>h'. AllocateID u t h = (u, h') \<and> staged h h' u"
  by (cases h) (auto simp: AllocateID_def staged_def GetActiveID_def GetInActiveID_def Let_def)

lemma ClearInactiveID_keeps [simp]:
  "LogicalID (ClearInactiveID h) = LogicalID h" "IsActiveIDB (ClearInactiveID h) = IsActiveIDB h"
  "GetActiveID (ClearInactiveID h) = GetActiveID h" "h_Version (ClearInactiveID h) = h_Version h"
  "IsDeleted (ClearInactiveID h) = IsDeleted h" "\<not> IsAandBinUse (ClearInactiveID h)"
  by (cases h; auto simp: ClearInactiveID_def GetActiveID_def IsAandBinUse_def)+

context storage
begin

lemma mild_allocate:
  assumes "valid w"
  shows "mild (allocate S h) w (\<lambda>(u, h') w'. if IsAandBinUse h then u = NilUUID \<and> h' = h
    else staged h h' u \<and> u \<notin> used (abs w) \<and> u \<in> used (abs w'))"
proof (cases "IsAandBinUse h")
  case True
  with assms show ?thesis by (simp add: allocate_def mild_ret)
next
  case False
  have "mild (gbind (s_newUUID S) (\<lambda>u. gbind (s_now S) (\<lambda>t. ret (AllocateID u t h)))) w
      (\<lambda>(u, h') w'. staged h h' u \<and> u \<notin> used (abs w) \<and> u \<in> used (abs w'))"
  proof (rule mild_bind [OF mild_uuid [OF assms]], rule mild_bind [OF mild_now])
    fix u w1 t w2
    assume u: "u \<noteq> NilUUID \<and> u \<notin> used (abs w) \<and> u \<in> used (abs w1)" and w: "valid w2" "quiet (abs w1) (abs w2)"
    obtain h' where "AllocateID u t h = (u, h')" "staged h h' u" using AllocateID_staged [OF False] u by blast
    then show "mild (ret (AllocateID u t h)) w2 (\<lambda>(u, h') w'. staged h h' u \<and> u \<notin> used (abs w) \<and> u \<in> used (abs w'))"
      using u w by (intro mild_ret) (auto simp: quiet_def)
  qed
  with False show ?thesis by (simp add: allocate_def)
qed

definition stage_ok :: "'w \<Rightarrow> 'n \<Rightarrow> handle \<Rightarrow> (uuid \<times> handle) option \<Rightarrow> 'w \<Rightarrow> bool" where
  "stage_ok w n h r w' = (case r of None \<Rightarrow> True
     | Some (u, h') \<Rightarrow> staged h h' u \<and> u \<notin> used (abs w) \<and> u \<in> used (abs w') \<and> h_Version h = s_Version S n \<and>
         (IsAandBinUse h \<longrightarrow> canExpire h))"

lemma mild_stage_end:
  assumes "valid w" "staged h0 h1 u \<or> (LogicalID h1 = LogicalID h0 \<and> IsActiveIDB h1 = IsActiveIDB h0 \<and>
    GetActiveID h1 = GetActiveID h0 \<and> h_Version h1 = h_Version h0)"
    and "u \<noteq> NilUUID \<Longrightarrow> staged h0 h1 u \<and> u \<in> used (abs w)" and "h_Version h0 = s_Version S n"
  shows "mild (gbind (if u = NilUUID then gbind (expired S h1) (\<lambda>e. if e then allocate S (ClearInactiveID h1) else ret (u, h1))
      else ret (u, h1)) (\<lambda>(u, h). ret (if u = NilUUID then None else Some (u, h)))) w
    (\<lambda>r w'. case r of None \<Rightarrow> True | Some (v, h') \<Rightarrow> staged h0 h' v \<and> (v = u \<or> v \<notin> used (abs w)) \<and> v \<in> used (abs w') \<and>
      (u = NilUUID \<longrightarrow> canExpire h1))"
proof (cases "u = NilUUID")
  case False
  then show ?thesis using assms by (auto intro!: mild_ret)
next
  case True
  have l: "staged (ClearInactiveID h1) h' v \<Longrightarrow> staged h0 h' v" for h' v
    using assms(2) True by (auto simp: staged_def)
  have "mild (gbind (expired S h1) (\<lambda>e. if e then allocate S (ClearInactiveID h1) else ret (NilUUID, h1))) w
      (\<lambda>(v, h') w'. v = NilUUID \<or> staged h0 h' v \<and> v \<notin> used (abs w) \<and> v \<in> used (abs w') \<and> canExpire h1)"
  proof (rule mild_bind [OF mild_expired [OF assms(1)]])
    fix e w1 assume w1: "valid w1" "quiet (abs w) (abs w1)" and e: "e \<longrightarrow> canExpire h1"
    show "mild (if e then allocate S (ClearInactiveID h1) else ret (NilUUID, h1)) w1
      (\<lambda>(v, h') w'. v = NilUUID \<or> staged h0 h' v \<and> v \<notin> used (abs w) \<and> v \<in> used (abs w') \<and> canExpire h1)"
    proof (cases e)
      case True
      have "mild (allocate S (ClearInactiveID h1)) w1
          (\<lambda>(v, h') w'. v = NilUUID \<or> staged h0 h' v \<and> v \<notin> used (abs w) \<and> v \<in> used (abs w') \<and> canExpire h1)"
        by (rule mild_mono [OF mild_allocate [OF w1(1)]]) (use l w1(2) e True in \<open>auto simp: quiet_def\<close>)
      with True show ?thesis by simp
    qed (use w1(1) in \<open>simp add: mild_ret\<close>)
  qed
  then show ?thesis
    unfolding True by (auto elim!: mild_bind intro!: mild_ret split: prod.splits)
qed

lemma mild_stageHandle:
  assumes w: "valid w"
  shows "mild (stageHandle S n h) w (stage_ok w n h)"
  unfolding stageHandle_def
proof (rule mild_bind [where R = "\<lambda>_ _. True"])
  show "mild (if IsDeleted h then gbind (expired S h) (\<lambda>e. ret (\<not> e)) else ret False) w (\<lambda>_ _. True)"
    using w by (auto intro!: mild_ret mild_bind [OF mild_expired])
next
  fix busy w1 assume w1: "valid w1" "quiet (abs w) (abs w1)"
  have "mild (gbind (if IsDeleted h then gbind (expired S h) (\<lambda>e. ret (if e then h\<lparr>IsDeleted := False\<rparr> else h)) else ret h) (\<lambda>h.
     gbind (allocate S h) (\<lambda>(u, h).
     gbind (if u = NilUUID
            then gbind (expired S h) (\<lambda>e. if e then allocate S (ClearInactiveID h) else ret (u, h))
            else ret (u, h)) (\<lambda>(u, h).
     ret (if u = NilUUID then None else Some (u, h)))))) w1 (stage_ok w n h)" if v: "h_Version h = s_Version S n"
  proof (rule mild_bind [where R = "\<lambda>h1 _. h1 = h \<or> h1 = h\<lparr>IsDeleted := False\<rparr>"])
    show "mild (if IsDeleted h then gbind (expired S h) (\<lambda>e. ret (if e then h\<lparr>IsDeleted := False\<rparr> else h)) else ret h)
        w1 (\<lambda>h1 _. h1 = h \<or> h1 = h\<lparr>IsDeleted := False\<rparr>)"
      using w1(1) by (auto intro!: mild_ret mild_bind [OF mild_expired])
  next
    fix h1 w2 assume w2: "valid w2" "quiet (abs w1) (abs w2)" and h1: "h1 = h \<or> h1 = h\<lparr>IsDeleted := False\<rparr>"
    then have g: "staged h1 h' u \<Longrightarrow> staged h h' u" for h' u by (auto simp: staged_def GetActiveID_def)
    show "mild (gbind (allocate S h1) (\<lambda>(u, h).
       gbind (if u = NilUUID
              then gbind (expired S h) (\<lambda>e. if e then allocate S (ClearInactiveID h) else ret (u, h))
              else ret (u, h)) (\<lambda>(u, h).
       ret (if u = NilUUID then None else Some (u, h))))) w2 (stage_ok w n h)"
    proof (rule mild_bind [OF mild_allocate [OF w2(1)]], clarify)
      fix u h2 w3 assume w3: "valid w3" "quiet (abs w2) (abs w3)"
        and a: "if IsAandBinUse h1 then u = NilUUID \<and> h2 = h1 else staged h1 h2 u \<and> u \<notin> used (abs w2) \<and> u \<in> used (abs w3)"
      have use: "IsAandBinUse h1 = IsAandBinUse h" "canExpire h1 = canExpire h"
        using h1 by (elim disjE; simp add: IsAandBinUse_def canExpire_def IsExpiredInactive_def)+
      have u: "u \<noteq> NilUUID \<Longrightarrow> u \<notin> used (abs w)" using a w1(2) w2(2) by (auto simp: quiet_def split: if_splits)
      have "mild (gbind (if u = NilUUID then gbind (expired S h2) (\<lambda>e. if e then allocate S (ClearInactiveID h2) else ret (u, h2))
          else ret (u, h2)) (\<lambda>(u, h). ret (if u = NilUUID then None else Some (u, h)))) w3
        (\<lambda>r w'. case r of None \<Rightarrow> True | Some (v, h') \<Rightarrow> staged h1 h' v \<and> (v = u \<or> v \<notin> used (abs w3)) \<and> v \<in> used (abs w') \<and>
          (u = NilUUID \<longrightarrow> canExpire h2))"
        using a h1 v by (intro mild_stage_end [OF w3(1)]) (auto simp: staged_def split: if_splits)
      then show "mild (gbind (if u = NilUUID then gbind (expired S h2) (\<lambda>e. if e then allocate S (ClearInactiveID h2) else ret (u, h2))
          else ret (u, h2)) (\<lambda>(u, h). ret (if u = NilUUID then None else Some (u, h)))) w3 (stage_ok w n h)"
        by (rule mild_mono) (use u g v use a w1(2) w2(2) w3(2) staged_id in
          \<open>auto simp: stage_ok_def quiet_def split: option.splits if_splits\<close>)
    qed
  qed
  with w1(1) show "mild (if busy \<or> h_Version h \<noteq> s_Version S n then ret None
      else gbind (if IsDeleted h then gbind (expired S h) (\<lambda>e. ret (if e then h\<lparr>IsDeleted := False\<rparr> else h)) else ret h) (\<lambda>h.
     gbind (allocate S h) (\<lambda>(u, h).
     gbind (if u = NilUUID
            then gbind (expired S h) (\<lambda>e. if e then allocate S (ClearInactiveID h) else ret (u, h))
            else ret (u, h)) (\<lambda>(u, h).
     ret (if u = NilUUID then None else Some (u, h)))))) w1 (stage_ok w n h)"
    by (auto intro!: mild_ret simp: stage_ok_def)
qed

definition row_ok :: "'n \<times> handle \<Rightarrow> handle \<times> uuid \<times> bytes \<Rightarrow> bool" where
  "row_ok p row = (case (p, row) of ((n, h), (h', u, ba)) \<Rightarrow>
     staged h h' u \<and> h_Version h = s_Version S n \<and> s_marshal S n = Inr ba \<and> (IsAandBinUse h \<longrightarrow> canExpire h))"

definition rows_ok :: "'w \<Rightarrow> 'n list \<Rightarrow> handle list \<Rightarrow> (handle \<times> uuid \<times> bytes) list \<Rightarrow> 'w \<Rightarrow> bool" where
  "rows_ok w ns hs rows w' = (list_all2 row_ok (zip ns hs) rows \<and> distinct (map (fst \<circ> snd) rows) \<and>
     (fst \<circ> snd) ` set rows \<subseteq> used (abs w') - used (abs w))"

lemma mild_stageHandles:
  "valid w \<Longrightarrow> length hs = length ns \<Longrightarrow>
   mild (stageHandles S ns hs) w (\<lambda>r w'. case r of None \<Rightarrow> True | Some rows \<Rightarrow> rows_ok w ns hs rows w')"
proof (induction hs arbitrary: ns w)
  case Nil
  then show ?case by (auto intro!: mild_ret simp: rows_ok_def)
next
  case (Cons h hs)
  then obtain n ns' where ns: "ns = n # ns'" by (cases ns) auto
  show ?case unfolding ns stageHandles.simps list.case
  proof (rule mild_bind [OF mild_stageHandle [OF Cons.prems(1)]])
    fix r w1 assume w1: "valid w1" "quiet (abs w) (abs w1)" and r: "stage_ok w n h r w1"
    show "mild (case r of None \<Rightarrow> ret None | Some (u, h') \<Rightarrow> (case s_marshal S n of Inl e \<Rightarrow> fail (Err e)
         | Inr ba \<Rightarrow> gbind (stageHandles S ns' hs) (\<lambda>r. ret (map_option (Cons (h', u, ba)) r)))) w1
       (\<lambda>r w'. case r of None \<Rightarrow> True | Some rows \<Rightarrow> rows_ok w (n # ns') (h # hs) rows w')"
    proof (cases r)
      case None
      with w1(1) show ?thesis by (simp add: mild_ret)
    next
      case (Some uh)
      obtain u h' where uh: "uh = (u, h')" by (cases uh)
      show ?thesis
      proof (cases "s_marshal S n")
        case (Inl e)
        with Some uh w1(1) show ?thesis by (simp add: mild_fail)
      next
        case (Inr ba)
        have "mild (gbind (stageHandles S ns' hs) (\<lambda>r. ret (map_option (Cons (h', u, ba)) r))) w1
           (\<lambda>r w'. case r of None \<Rightarrow> True | Some rows \<Rightarrow> rows_ok w (n # ns') (h # hs) rows w')"
        proof (rule mild_bind [OF Cons.IH [OF w1(1), of ns']])
          show "length hs = length ns'" using Cons.prems(2) ns by simp
        next
          fix q w2 assume w2: "valid w2" "quiet (abs w1) (abs w2)"
            and q: "case q of None \<Rightarrow> True | Some rows \<Rightarrow> rows_ok w1 ns' hs rows w2"
          show "mild (ret (map_option (Cons (h', u, ba)) q)) w2
              (\<lambda>r w'. case r of None \<Rightarrow> True | Some rows \<Rightarrow> rows_ok w (n # ns') (h # hs) rows w')"
            using q r Some uh Inr w1(2) w2
            by (intro mild_ret) (auto simp: stage_ok_def rows_ok_def row_ok_def quiet_def split: option.splits)
        qed
        with Some uh Inr show ?thesis by simp
      qed
    qed
  qed
qed

lemma rows_ok_append:
  assumes "rows_ok w ns hs rows w1" "rows_ok w1 ns' hs' rows' w2" "length hs = length ns"
    and "used (abs w) \<subseteq> used (abs w1)" "used (abs w1) \<subseteq> used (abs w2)"
  shows "rows_ok w (ns @ ns') (hs @ hs') (rows @ rows') w2"
proof -
  have "(fst \<circ> snd) ` set rows \<inter> (fst \<circ> snd) ` set rows' = {}"
    using assms(1,2) unfolding rows_ok_def by blast
  then show ?thesis
    using assms unfolding rows_ok_def
    by (simp add: zip_append list_all2_appendI image_Un) blast
qed

abbreviation flat :: "'n store_nodes \<Rightarrow> 'n list" where
  "flat nodes \<equiv> concat (map snd nodes)"

lemma mild_stageUpdates:
  "valid w \<Longrightarrow> map (length \<circ> rp_IDs) ps = map (length \<circ> snd) nodes \<Longrightarrow>
   mild (stageUpdates S nodes ps) w (\<lambda>r w'. case r of None \<Rightarrow> True
     | Some q \<Rightarrow> \<exists>rows. rows_ok w (flat nodes) (payloadIDs ps) rows w' \<and>
         map (length \<circ> rp_IDs) (map fst q) = map (length \<circ> snd) nodes \<and>
         payloadIDs (map fst q) = map fst rows \<and> blobIDs (map snd q) = map snd rows)"
proof (induction ps arbitrary: nodes w)
  case Nil
  then show ?case by (auto intro!: mild_ret simp: rows_ok_def payloadIDs_def blobIDs_def)
next
  case (Cons p ps)
  then obtain si ns nodes' where nodes: "nodes = (si, ns) # nodes'" by (cases nodes) auto
  have len: "length (rp_IDs p) = length ns" using Cons.prems(2) nodes by simp
  show ?case unfolding nodes stageUpdates.simps list.case prod.case
  proof (rule mild_bind [OF mild_stageHandles [OF Cons.prems(1) len]])
    fix r w1 assume w1: "valid w1" "quiet (abs w) (abs w1)"
      and r: "case r of None \<Rightarrow> True | Some rows \<Rightarrow> rows_ok w ns (rp_IDs p) rows w1"
    let ?Q = "\<lambda>r w'. case r of None \<Rightarrow> True
     | Some q \<Rightarrow> \<exists>rows. rows_ok w (flat ((si, ns) # nodes')) (payloadIDs (p # ps)) rows w' \<and>
         map (length \<circ> rp_IDs) (map fst q) = map (length \<circ> snd) ((si, ns) # nodes') \<and>
         payloadIDs (map fst q) = map fst rows \<and> blobIDs (map snd q) = map snd rows"
    show "mild (case r of None \<Rightarrow> ret None | Some r \<Rightarrow> gbind (stageUpdates S nodes' ps) (\<lambda>q. ret (map_option
         (Cons (p\<lparr>rp_IDs := map fst r\<rparr>, \<lparr>bp_BlobTable = BlobTable si, bp_Blobs = map snd r\<rparr>)) q))) w1 ?Q"
    proof (cases r)
      case None
      with w1(1) show ?thesis by (simp add: mild_ret)
    next
      case (Some rows)
      have "mild (gbind (stageUpdates S nodes' ps) (\<lambda>q. ret (map_option
         (Cons (p\<lparr>rp_IDs := map fst rows\<rparr>, \<lparr>bp_BlobTable = BlobTable si, bp_Blobs = map snd rows\<rparr>)) q))) w1 ?Q"
      proof (rule mild_bind [OF Cons.IH [OF w1(1), of nodes']])
        show "map (length \<circ> rp_IDs) ps = map (length \<circ> snd) nodes'" using Cons.prems(2) nodes by (simp add: comp_def)
      next
        fix q w2 assume w2: "valid w2" "quiet (abs w1) (abs w2)"
          and q: "case q of None \<Rightarrow> True | Some q \<Rightarrow> \<exists>rows. rows_ok w1 (flat nodes') (payloadIDs ps) rows w2 \<and>
            map (length \<circ> rp_IDs) (map fst q) = map (length \<circ> snd) nodes' \<and>
            payloadIDs (map fst q) = map fst rows \<and> blobIDs (map snd q) = map snd rows"
        show "mild (ret (map_option (Cons (p\<lparr>rp_IDs := map fst rows\<rparr>,
            \<lparr>bp_BlobTable = BlobTable si, bp_Blobs = map snd rows\<rparr>)) q)) w2 ?Q"
        proof (cases q)
          case None
          with w2(1) show ?thesis by (simp add: mild_ret)
        next
          case q': (Some qs)
          with q obtain rows' where rows': "rows_ok w1 (flat nodes') (payloadIDs ps) rows' w2"
            "payloadIDs (map fst qs) = map fst rows'" "blobIDs (map snd qs) = map snd rows'"
            "map (length \<circ> rp_IDs) (map fst qs) = map (length \<circ> snd) nodes'" by auto
          have "length rows = length ns" using r Some len by (auto simp: rows_ok_def dest: list_all2_lengthD)
          moreover have "rows_ok w (ns @ flat nodes') (rp_IDs p @ payloadIDs ps) (rows @ rows') w2"
            using r Some rows'(1) len w1(2) w2(2) by (intro rows_ok_append) (auto simp: quiet_def)
          ultimately show ?thesis using q' rows'(2,3,4) w2(1)
            by (intro mild_ret) (auto simp: payloadIDs_def blobIDs_def comp_def intro!: exI [of _ "rows @ rows'"])
        qed
      qed
      with Some show ?thesis by simp
    qed
  qed
qed

lemma calm_tolerate_set: "valid w \<Longrightarrow> calm (tolerate (s_l2SetNode S u n d)) w (\<lambda>_ _. True)"
  using l2SetNode [of w u n d] by (auto simp: calm_def tolerate_def exec_simps)

lemma calm_seq: "calm m w (\<lambda>_ _. True) \<Longrightarrow> (\<And>w'. valid w' \<Longrightarrow> calm f w' Q) \<Longrightarrow> calm (gseq m f) w Q"
  unfolding gseq_def by (rule calm_bind)

lemma calm_cacheEach: "valid w \<Longrightarrow> length hs = length ns \<Longrightarrow> calm (cacheEach S f d ns hs) w (\<lambda>_ _. True)"
proof (induction ns arbitrary: hs w)
  case (Cons n ns)
  then show ?case by (cases hs) (auto intro!: calm_seq calm_tolerate_set)
qed (simp add: calm_ret)

lemma calm_cacheNodes:
  "valid w \<Longrightarrow> map (length \<circ> rp_IDs) ps = map (length \<circ> snd) nodes \<Longrightarrow> calm (cacheNodes S f nodes ps) w (\<lambda>_ _. True)"
proof (induction nodes arbitrary: ps w)
  case (Cons a nodes)
  then show ?case by (cases a; cases ps) (auto intro!: calm_seq calm_cacheEach)
qed (simp add: calm_ret)

lemma rows_handles:
  assumes "list_all2 row_ok (zip ns hs) rows" "length hs = length ns"
  shows "map LogicalID (map fst rows) = map LogicalID hs"
proof (rule nth_equalityI)
  show "length (map LogicalID (map fst rows)) = length (map LogicalID hs)"
    using assms by (auto dest: list_all2_lengthD)
next
  fix i assume "i < length (map LogicalID (map fst rows))"
  then have "i < length rows" by simp
  with assms have "row_ok (ns ! i, hs ! i) (rows ! i)" "i < length hs"
    by (auto simp: list_all2_conv_all_nth)
  then show "map LogicalID (map fst rows) ! i = map LogicalID hs ! i"
    using \<open>i < length rows\<close> by (auto simp: row_ok_def staged_def split: prod.splits)
qed

text \<open>The effect of a successful preparation, and that every other outcome has none.\<close>

definition prepared :: "'w \<Rightarrow> 'n store_nodes \<Rightarrow> handle list \<Rightarrow> (handle \<times> uuid \<times> bytes) list \<Rightarrow> 'w \<Rightarrow> bool" where
  "prepared w nodes hs rows w' = (map (regs (abs w) \<circ> s_ID S) (flat nodes) = map Some hs \<and>
     rows_ok w (flat nodes) hs rows w' \<and> regs (abs w') = updHandles (map fst rows) (regs (abs w)) \<and>
     blobs (abs w') = updBlobs (map snd rows) (blobs (abs w)) \<and> used (abs w) \<subseteq> used (abs w'))"

lemma prepared_ids:
  assumes "valid w" "prepared w nodes hs rows w'"
  shows "length hs = length (flat nodes)" "map LogicalID hs = map (s_ID S) (flat nodes)"
    "map LogicalID (map fst rows) = map (s_ID S) (flat nodes)"
proof -
  have m: "map (regs (abs w) \<circ> s_ID S) (flat nodes) = map Some hs" using assms(2) by (simp add: prepared_def)
  then show l: "length hs = length (flat nodes)" by (metis length_map)
  show e: "map LogicalID hs = map (s_ID S) (flat nodes)"
  proof (rule nth_equalityI)
    fix i assume i: "i < length (map LogicalID hs)"
    then have "regs (abs w) (s_ID S (flat nodes ! i)) = Some (hs ! i)"
      using arg_cong [OF m, of "\<lambda>xs. xs ! i"] l by simp
    then show "map LogicalID hs ! i = map (s_ID S) (flat nodes) ! i"
      using valid_ok [OF assms(1)] i l by (auto simp: stored_ok_def)
  qed (simp add: l)
  show "map LogicalID (map fst rows) = map (s_ID S) (flat nodes)"
    using rows_handles [of "flat nodes" hs rows] assms(2) l e by (simp add: prepared_def rows_ok_def)
qed

lemma row_used:
  assumes "valid w" "rows_ok w ns hs rows w'" "length hs = length ns" "set hs \<subseteq> ran (regs (abs w))"
    and "(h', u, ba) \<in> set rows" "used (abs w) \<subseteq> used (abs w')"
  shows "LogicalID h' \<noteq> NilUUID \<and> physicalIDs h' \<subseteq> used (abs w') \<and> u \<in> used (abs w')"
proof -
  from assms(2,5) obtain n h where z: "(n, h) \<in> set (zip ns hs)" "row_ok (n, h) (h', u, ba)"
    by (auto simp: rows_ok_def list_all2_conv_all_nth in_set_conv_nth) (metis nth_zip length_zip prod.collapse min_less_iff_conj)
  then obtain i where "regs (abs w) i = Some h" using assms(4) by (auto dest!: set_zip_rightD simp: ran_def)
  then have "LogicalID h \<noteq> NilUUID" "physicalIDs h \<subseteq> used (abs w)"
    using valid_ok [OF assms(1)] by (auto simp: stored_ok_def)
  moreover have "u \<in> used (abs w')" using assms(2,5) by (force simp: rows_ok_def)
  ultimately show ?thesis using z(2) assms(6) by (auto simp: row_ok_def staged_def physicalIDs_active)
qed

lemma rows_ok_mono:
  "rows_ok w1 ns hs rows w2 \<Longrightarrow> used (abs w) \<subseteq> used (abs w1) \<Longrightarrow> used (abs w2) \<subseteq> used (abs w3) \<Longrightarrow> rows_ok w ns hs rows w3"
  unfolding rows_ok_def by blast

lemma commitUpdatedNodes_write:
  assumes w: "valid w" "valid w1" "quiet (abs w) (abs w1)" "valid w2" "quiet (abs w1) (abs w2)"
    and rows: "rows_ok w1 (flat nodes) hs rows w2" "payloadIDs (map fst q) = map fst rows" "blobIDs (map snd q) = map snd rows"
      "map (length \<circ> rp_IDs) (map fst q) = map (length \<circ> snd) nodes"
    and hs: "set hs \<subseteq> ran (regs (abs w))" "length hs = length (flat nodes)" "map (regs (abs w) \<circ> s_ID S) (flat nodes) = map Some hs"
  shows "\<exists>w5. gseq (wrapErr msg (s_regUpdateNoLocks S False (map fst q)))
      (gseq (wrapErr msg' (s_blobAdd S (map snd q)))
      (gseq (cacheNodes S GetInActiveID nodes (map fst q)) (ret (True, map fst q)))) w2 = (Inr (True, map fst q), w5) \<and>
    valid w5 \<and> prepared w nodes hs rows w5"
proof -
  have q2: "quiet (abs w) (abs w2)" using w(3,5) by (rule quiet_trans)
  have ok: "LogicalID h' \<noteq> NilUUID \<and> physicalIDs h' \<subseteq> used (abs w2) \<and> u \<in> used (abs w2)" if "(h', u, ba) \<in> set rows" for h' u ba
    using row_used [OF w(2) rows(1) hs(2) _ that] hs(1) w(3,5) by (auto simp: quiet_def)
  have "LogicalID h \<noteq> NilUUID \<and> physicalIDs h \<subseteq> used (abs w2)" if "h \<in> set (payloadIDs (map fst q))" for h
    using ok that unfolding rows(2) by (metis (no_types, lifting) imageE list.set_map prod.collapse)
  from regUpdateNoLocks [OF w(4), where b = False and ps = "map fst q", OF this] obtain w3 where
    w3: "s_regUpdateNoLocks S False (map fst q) w2 = (Inr (), w3)" "valid w3"
      "regs (abs w3) = updHandles (map fst rows) (regs (abs w2))" "blobs (abs w3) = blobs (abs w2)" "used (abs w2) \<subseteq> used (abs w3)"
    unfolding rows(2) by blast
  have "fst ` set (blobIDs (map snd q)) \<subseteq> used (abs w3)"
    using ok w3(5) unfolding rows(3) by fastforce
  from blobAdd [OF w3(2) this] obtain w4 where w4: "s_blobAdd S (map snd q) w3 = (Inr (), w4)" "valid w4"
    "regs (abs w4) = regs (abs w3)" "blobs (abs w4) = updBlobs (map snd rows) (blobs (abs w3))" "used (abs w3) \<subseteq> used (abs w4)"
    unfolding rows(3) by blast
  from calm_cacheNodes [OF w4(2) rows(4), of GetInActiveID] obtain w5 where w5: "cacheNodes S GetInActiveID nodes (map fst q) w4 = (Inr (), w5)" "valid w5"
    "quiet (abs w4) (abs w5)" unfolding calm_def by auto
  have "rows_ok w (flat nodes) hs rows w5"
    by (rule rows_ok_mono [OF rows(1)]) (use w(3) w3(5) w4(5) w5(3) in \<open>auto simp: quiet_def\<close>)
  then have "prepared w nodes hs rows w5"
    using q2 w3 w4 w5 hs(3) by (auto simp: prepared_def quiet_def)
  then show ?thesis
    using w3(1) w4(1) w5(1,2) by (auto simp: exec_simps wrapErr_def)
qed

lemma commitUpdatedNodes_run:
  assumes w: "valid w"
  shows "\<exists>r w'. commitUpdatedNodes S nodes w = (r, w') \<and> valid w' \<and>
    (case r of Inl _ \<Rightarrow> quiet (abs w) (abs w')
     | Inr (False, _) \<Rightarrow> quiet (abs w) (abs w')
     | Inr (True, ps') \<Rightarrow> \<exists>hs rows. prepared w nodes hs rows w' \<and> payloadIDs ps' = map fst rows)"
proof (cases "nodes = []")
  case True
  with w show ?thesis
    by (auto simp: commitUpdatedNodes_def ret_def prepared_def rows_ok_def updHandles_def updBlobs_def payloadIDs_def
        intro!: exI [of _ "[]"])
next
  case False
  let ?vids = "convertToRegistryRequestPayload S nodes"
  obtain ps w1 where g: "s_regGet S ?vids w = (Inr ps, w1)" "valid w1" "quiet (abs w) (abs w1)"
    and ps: "map rp_IDs ps = map (\<lambda>v. lookups (regs (abs w)) (rp_IDs v)) ?vids"
    using regGet [OF w] by blast
  have "length ps = length ?vids" using ps by (metis length_map)
  from allFound_lengths [OF this] obtain b where b: "allFound ?vids ps = Inr b"
    "b \<longleftrightarrow> map (length \<circ> rp_IDs) ps = map (length \<circ> rp_IDs) ?vids" by blast
  show ?thesis
  proof (cases b)
    case False
    with \<open>nodes \<noteq> []\<close> g b(1) show ?thesis by (auto simp: commitUpdatedNodes_def exec_simps Let_def)
  next
    case True
    then have lens: "map (length \<circ> rp_IDs) ps = map (length \<circ> rp_IDs) ?vids" using b(2) by simp
    have vids: "payloadIDs ?vids = map (s_ID S) (flat nodes)"
      by (simp add: payloadIDs_def convertToRegistryRequestPayload_def comp_def case_prod_beta map_concat)
    have hs: "map (regs (abs w) \<circ> s_ID S) (flat nodes) = map Some (payloadIDs ps)"
      using lookups_payloads [OF ps lens] vids by (metis map_map)
    have ran: "set (payloadIDs ps) \<subseteq> ran (regs (abs w))"
    proof
      fix h assume "h \<in> set (payloadIDs ps)"
      then have "Some h \<in> set (map (regs (abs w) \<circ> s_ID S) (flat nodes))" unfolding hs by simp
      then show "h \<in> ran (regs (abs w))" by (metis comp_apply imageE list.set_map ranI)
    qed
    have len: "length (payloadIDs ps) = length (flat nodes)" using hs by (metis length_map)
    have "map (length \<circ> rp_IDs) ps = map (length \<circ> snd) nodes"
      using lens by (simp add: convertToRegistryRequestPayload_def comp_def case_prod_beta)
    from mild_stageUpdates [OF g(2) this] obtain r w2 where R: "stageUpdates S nodes ps w1 = (r, w2) \<and> valid w2 \<and>
      quiet (abs w1) (abs w2) \<and> (case r of Inl _ \<Rightarrow> True | Inr x \<Rightarrow> (case x of None \<Rightarrow> True
       | Some q \<Rightarrow> \<exists>rows. rows_ok w1 (flat nodes) (payloadIDs ps) rows w2 \<and>
           map (length \<circ> rp_IDs) (map fst q) = map (length \<circ> snd) nodes \<and> payloadIDs (map fst q) = map fst rows \<and> blobIDs (map snd q) = map snd rows))"
      unfolding mild_def by (elim exE) (erule that)
    note st = R [THEN conjunct1] R [THEN conjunct2, THEN conjunct1] R [THEN conjunct2, THEN conjunct2, THEN conjunct1]
    note r = R [THEN conjunct2, THEN conjunct2, THEN conjunct2]
    note run = \<open>nodes \<noteq> []\<close> g(1) b(1) True st(1)
    have q2: "quiet (abs w) (abs w2)" using g(3) st(3) by (rule quiet_trans)
    consider (err) e where "r = Inl e" | (none) "r = Inr None" | (some) q where "r = Inr (Some q)"
      by (cases r) auto
    then show ?thesis
    proof cases
      case err
      with run r st(2) q2 show ?thesis by (auto simp: commitUpdatedNodes_def exec_simps Let_def)
    next
      case none
      with run st(2) q2 show ?thesis by (auto simp: commitUpdatedNodes_def exec_simps Let_def)
    next
      case some
      then obtain rows where rows: "rows_ok w1 (flat nodes) (payloadIDs ps) rows w2"
        "payloadIDs (map fst q) = map fst rows" "blobIDs (map snd q) = map snd rows"
        "map (length \<circ> rp_IDs) (map fst q) = map (length \<circ> snd) nodes" using r by auto
      obtain w5 where "commitUpdatedNodes S nodes w = (Inr (True, map fst q), w5)" "valid w5"
        "prepared w nodes (payloadIDs ps) rows w5"
        using commitUpdatedNodes_write [OF w g(2,3) st(2,3) rows ran len hs] run some
        by (auto simp: commitUpdatedNodes_def exec_simps Let_def)
      with rows(2) show ?thesis by auto
    qed
  qed
qed

end

end
