(* ===== verification/Node_Isolation.thy ===== *)
theory Node_Isolation
  imports Node_Storage
begin

text \<open>
  Isolation of the commit of changed nodes: what a prepared commit does to the registry and the blob
  store, that readers do not see it, that finalising it shows exactly the new nodes, and that rolling it
  back restores the blobs and frees the handles.
\<close>

context storage
begin

lemma prepared_nth:
  assumes "valid w" "prepared w nodes hs rows w'" "i < length (flat nodes)"
  shows "regs (abs w) (s_ID S (flat nodes ! i)) = Some (hs ! i)" "row_ok (flat nodes ! i, hs ! i) (rows ! i)"
    "i < length rows" "LogicalID (fst (rows ! i)) = s_ID S (flat nodes ! i)" "physicalIDs (hs ! i) \<subseteq> used (abs w)"
proof -
  note l = prepared_ids [OF assms(1,2)]
  have m: "map (regs (abs w) \<circ> s_ID S) (flat nodes) = map Some hs" using assms(2) by (simp add: prepared_def)
  show r: "regs (abs w) (s_ID S (flat nodes ! i)) = Some (hs ! i)"
    using arg_cong [OF m, of "\<lambda>xs. xs ! i"] l(1) assms(3) by simp
  have a: "list_all2 row_ok (zip (flat nodes) hs) rows" using assms(2) by (simp add: prepared_def rows_ok_def)
  then show len: "i < length rows" using assms(3) l(1) by (auto dest: list_all2_lengthD)
  show "row_ok (flat nodes ! i, hs ! i) (rows ! i)" using a len l(1) assms(3) by (auto simp: list_all2_conv_all_nth)
  show "LogicalID (fst (rows ! i)) = s_ID S (flat nodes ! i)"
    using arg_cong [OF l(3), of "\<lambda>xs. xs ! i"] len assms(3) by simp
  show "physicalIDs (hs ! i) \<subseteq> used (abs w)" using valid_ok [OF assms(1)] r by (auto simp: stored_ok_def)
qed

lemma prepared_regs:
  assumes "valid w" "prepared w nodes hs rows w'" "distinct (map (s_ID S) (flat nodes))"
  shows "i < length (flat nodes) \<Longrightarrow> regs (abs w') (s_ID S (flat nodes ! i)) = Some (fst (rows ! i))"
    and "j \<notin> s_ID S ` set (flat nodes) \<Longrightarrow> regs (abs w') j = regs (abs w) j"
proof -
  have e: "regs (abs w') = updHandles (map fst rows) (regs (abs w))" using assms(2) by (simp add: prepared_def)
  note l = prepared_ids(3) [OF assms(1,2)]
  show "regs (abs w') (s_ID S (flat nodes ! i)) = Some (fst (rows ! i))" if "i < length (flat nodes)"
    using updHandles_mem [of "map fst rows" "fst (rows ! i)" "regs (abs w)"] l assms(3)
      prepared_nth(3,4) [OF assms(1,2) that] unfolding e by simp
  show "regs (abs w') j = regs (abs w) j" if "j \<notin> s_ID S ` set (flat nodes)"
    using that arg_cong [OF l, of set] unfolding e by (intro updHandles_other) (simp add: image_image)
qed

lemma prepared_blobs:
  assumes "valid w" "prepared w nodes hs rows w'"
  shows "(h, u, ba) \<in> set rows \<Longrightarrow> blobs (abs w') u = Some ba"
    and "u \<in> used (abs w) \<or> u = NilUUID \<Longrightarrow> blobs (abs w') u = blobs (abs w) u"
proof -
  have e: "blobs (abs w') = updBlobs (map snd rows) (blobs (abs w))" and r: "rows_ok w (flat nodes) hs rows w'"
    using assms(2) by (simp_all add: prepared_def)
  have d: "distinct (map fst (map snd rows))" using r by (simp add: rows_ok_def comp_def)
  show "blobs (abs w') u = Some ba" if "(h, u, ba) \<in> set rows"
    using updBlobs_mem [OF d, of u ba] that unfolding e by force
  have "u \<notin> fst ` set (map snd rows)" if "u \<in> used (abs w)"
    using r that by (auto simp: rows_ok_def image_iff)
  moreover have "NilUUID \<notin> fst ` set (map snd rows)"
  proof
    assume "NilUUID \<in> fst ` set (map snd rows)"
    then obtain i where i: "i < length rows" "fst (snd (rows ! i)) = NilUUID" by (auto simp: in_set_conv_nth)
    have "length rows = length (flat nodes)"
      using r prepared_ids(1) [OF assms] by (auto simp: rows_ok_def dest: list_all2_lengthD)
    with prepared_nth(2) [OF assms, of i] i show False by (auto simp: row_ok_def staged_def split: prod.splits)
  qed
  ultimately show "blobs (abs w') u = blobs (abs w) u" if "u \<in> used (abs w) \<or> u = NilUUID"
    using that unfolding e by (metis updBlobs_other)
qed

lemma active_used: "valid w \<Longrightarrow> regs (abs w) i = Some h \<Longrightarrow> GetActiveID h \<in> used (abs w) \<or> GetActiveID h = NilUUID"
  using valid_ok by (fastforce simp: stored_ok_def physicalIDs_active)

text \<open>A prepared commit is invisible.\<close>

lemma prepared_invisible:
  assumes "valid w" "prepared w nodes hs rows w'" "distinct (map (s_ID S) (flat nodes))"
  shows "visible (regs (abs w')) (blobs (abs w')) = visible (regs (abs w)) (blobs (abs w))"
proof
  fix j
  show "visible (regs (abs w')) (blobs (abs w')) j = visible (regs (abs w)) (blobs (abs w)) j"
  proof (cases "j \<in> s_ID S ` set (flat nodes)")
    case True
    then obtain i where i: "i < length (flat nodes)" "j = s_ID S (flat nodes ! i)" by (metis imageE in_set_conv_nth)
    have "blobs (abs w') (GetActiveID (hs ! i)) = blobs (abs w) (GetActiveID (hs ! i))"
      using prepared_blobs(2) [OF assms(1,2)] active_used [OF assms(1) prepared_nth(1) [OF assms(1,2) i(1)]] .
    then show ?thesis
      using prepared_nth(1,2) [OF assms(1,2) i(1)] prepared_regs(1) [OF assms i(1)] i(2)
      by (auto simp: visible_def row_ok_def staged_def split: prod.splits)
  next
    case False
    with prepared_regs(2) [OF assms False] prepared_blobs(2) [OF assms(1,2)] active_used [OF assms(1)]
    show ?thesis by (cases "regs (abs w) j") (auto simp: visible_def)
  qed
qed

text \<open>Finalisation shows the new nodes under the next version and nothing else.\<close>

lemma activate_staged: "staged h h' u \<Longrightarrow> LogicalID (activate h') = LogicalID h \<and> GetActiveID (activate h') = u \<and>
    h_Version (activate h') = h_Version h + 1 \<and> physicalIDs (activate h') = physicalIDs h'"
  by (auto simp: staged_def activate_def FlipActiveID_def GetActiveID_def GetInActiveID_def physicalIDs_def)

lemma payloadIDs_mapHandles: "payloadIDs (mapHandles f ps) = map f (payloadIDs ps)"
  by (simp add: payloadIDs_def mapHandles_def map_concat comp_def)

lemma finalised:
  assumes "valid w" "valid w'" "prepared w nodes hs rows w'" "distinct (map (s_ID S) (flat nodes))"
    and "payloadIDs ps' = map fst rows"
  shows "\<exists>w''. s_regUpdateNoLocks S True (activateInactiveNodes ps') w' = (Inr (), w'') \<and> valid w'' \<and>
    (\<forall>n\<in>set (flat nodes). \<exists>ba. s_marshal S n = Inr ba \<and>
       visible (regs (abs w'')) (blobs (abs w'')) (s_ID S n) = Some (s_Version S n + 1, Some ba)) \<and>
    (\<forall>j. j \<notin> s_ID S ` set (flat nodes) \<longrightarrow>
       visible (regs (abs w'')) (blobs (abs w'')) j = visible (regs (abs w)) (blobs (abs w)) j)"
proof -
  note ids = prepared_ids [OF assms(1,3)] and nth = prepared_nth [OF assms(1,3)]
  have len: "length rows = length (flat nodes)" using ids(3) by (metis length_map)
  have pay: "payloadIDs (activateInactiveNodes ps') = map activate (map fst rows)"
    by (simp add: activateInactiveNodes_def payloadIDs_mapHandles assms(5))
  have act: "LogicalID (activate (fst r)) = LogicalID (fst r)" for r :: "handle \<times> uuid \<times> bytes"
    by (simp add: activate_def FlipActiveID_def)
  have lids: "map LogicalID (map activate (map fst rows)) = map (s_ID S) (flat nodes)"
    unfolding ids(3) [symmetric] by (simp add: act)
  have ok: "LogicalID h \<noteq> NilUUID \<and> physicalIDs h \<subseteq> used (abs w')" if "h \<in> set (payloadIDs (activateInactiveNodes ps'))" for h
  proof -
    from that pay obtain i where i: "i < length rows" "h = activate (fst (rows ! i))" by (auto simp: in_set_conv_nth)
    then have "regs (abs w') (s_ID S (flat nodes ! i)) = Some (fst (rows ! i))"
      using prepared_regs(1) [OF assms(1,3,4)] len by simp
    then have "LogicalID (fst (rows ! i)) \<noteq> NilUUID" "physicalIDs (fst (rows ! i)) \<subseteq> used (abs w')"
      using valid_ok [OF assms(2)] by (auto simp: stored_ok_def)
    then show ?thesis using i by (simp add: activate_def FlipActiveID_def physicalIDs_def)
  qed
  from regUpdateNoLocks [OF assms(2), where b = True and ps = "activateInactiveNodes ps'", OF ok] obtain w'' where
    w'': "s_regUpdateNoLocks S True (activateInactiveNodes ps') w' = (Inr (), w'')" "valid w''"
      "regs (abs w'') = updHandles (map activate (map fst rows)) (regs (abs w'))" "blobs (abs w'') = blobs (abs w')"
    unfolding pay by blast
  have "\<exists>ba. s_marshal S n = Inr ba \<and>
       visible (regs (abs w'')) (blobs (abs w'')) (s_ID S n) = Some (s_Version S n + 1, Some ba)" if "n \<in> set (flat nodes)" for n
  proof -
    from that obtain i where i: "i < length (flat nodes)" "n = flat nodes ! i" by (metis in_set_conv_nth)
    obtain h' u ba where r: "rows ! i = (h', u, ba)" by (cases "rows ! i")
    have row: "staged (hs ! i) h' u" "h_Version (hs ! i) = s_Version S n" "s_marshal S n = Inr ba"
      using nth(2) [OF i(1)] r i(2) by (simp_all add: row_ok_def)
    have "regs (abs w'') (s_ID S n) = Some (activate h')"
      using updHandles_mem [of "map activate (map fst rows)" "activate h'" "regs (abs w')"] lids assms(4) nth(3,4) [OF i(1)] r i(2)
      unfolding w''(3) by (force simp: act [of "(h', u, ba)", simplified] in_set_conv_nth)
    moreover have "blobs (abs w'') u = Some ba"
      using prepared_blobs(1) [OF assms(1,3), of h' u ba] nth(3) [OF i(1)] r unfolding w''(4) by (metis nth_mem)
    ultimately show ?thesis using activate_staged [OF row(1)] row(2,3) by (simp add: visible_def)
  qed
  moreover have "visible (regs (abs w'')) (blobs (abs w'')) j = visible (regs (abs w)) (blobs (abs w)) j"
    if "j \<notin> s_ID S ` set (flat nodes)" for j
  proof -
    have "regs (abs w'') j = regs (abs w') j"
      using that arg_cong [OF lids, of set] unfolding w''(3) by (intro updHandles_other) (simp add: image_image)
    then have "visible (regs (abs w'')) (blobs (abs w'')) j = visible (regs (abs w')) (blobs (abs w')) j"
      by (simp add: visible_def w''(4))
    then show ?thesis using prepared_invisible [OF assms(1,3,4)] by simp
  qed
  ultimately show ?thesis using w''(1,2) by blast
qed

text \<open>Rolling a prepared commit back.\<close>

lemma lookups_concat: "map rp_IDs ps = map (\<lambda>v. lookups m (rp_IDs v)) vids \<Longrightarrow> payloadIDs ps = lookups m (payloadIDs vids)"
proof (induction vids arbitrary: ps)
  case (Cons v vs)
  then obtain p ps' where p: "ps = p # ps'" "rp_IDs p = lookups m (rp_IDs v)" "map rp_IDs ps' = map (\<lambda>v. lookups m (rp_IDs v)) vs"
    by (cases ps) auto
  from Cons.IH [OF p(3)] p show ?case by (simp add: payloadIDs_def lookups_def map_filter_def)
qed (simp add: payloadIDs_def lookups_def map_filter_def)

lemma lookups_all: "map m ids = map Some hs \<Longrightarrow> lookups m ids = hs"
proof (induction ids arbitrary: hs)
  case (Cons i ids)
  then show ?case by (cases hs) (auto simp: lookups_def map_filter_simps)
qed (simp add: lookups_def map_filter_simps)

lemma blobIDs_stagedBlobs:
  "length ps = length vids \<Longrightarrow> \<exists>bibs. stagedBlobs vids ps = Inr bibs \<and> blobIDs bibs = inactiveIDs (payloadIDs ps)"
proof (induction ps arbitrary: vids)
  case (Cons p ps)
  then obtain v vs where "vids = v # vs" "length ps = length vs" by (cases vids) auto
  with Cons.IH [of vs] show ?case by (auto simp: blobIDs_def payloadIDs_def inactiveIDs_def)
qed (simp add: blobIDs_def payloadIDs_def inactiveIDs_def)

lemma calm_uncache: "valid w \<Longrightarrow> calm (uncacheNodes S msg us e) w (\<lambda>r _. r = e)"
proof (induction us arbitrary: w)
  case (Cons u us)
  obtain r w1 where "s_l2DelNode S u w = (Inr r, w1)" "valid w1" "quiet (abs w) (abs w1)"
    using l2DelNode [OF Cons.prems] by blast
  then have "calm (noteErr KeepFirst msg e (s_l2DelNode S u)) w (\<lambda>r _. r = e)"
    by (simp add: calm_def noteErr_def exec_simps)
  then show ?case unfolding uncacheNodes.simps by (rule calm_bind) (simp add: Cons.IH)
qed (simp add: calm_ret)

lemma unstage_staged: "staged h h' u \<Longrightarrow> LogicalID (unstage h') = LogicalID h \<and> GetActiveID (unstage h') = GetActiveID h \<and>
    h_Version (unstage h') = h_Version h \<and> GetInActiveID (unstage h') = NilUUID \<and> WorkInProgressTimestamp (unstage h') = 0"
  by (auto simp: unstage_def staged_def ClearInactiveID_def GetInActiveID_def GetActiveID_def)

lemma physicalIDs_unstage: "physicalIDs (unstage h) \<subseteq> physicalIDs h"
  by (auto simp: unstage_def ClearInactiveID_def physicalIDs_def)

lemma LogicalID_unstage [simp]: "LogicalID (unstage h) = LogicalID h"
  by (simp add: unstage_def)

lemma rolled_back:
  assumes "valid w" "valid w'" "prepared w nodes hs rows w'" "distinct (map (s_ID S) (flat nodes))"
  shows "\<exists>w''. rollbackUpdatedNodes S True (convertToRegistryRequestPayload S nodes) w' = (Inr (), w'') \<and> valid w'' \<and>
    blobs (abs w'') = blobs (abs w) \<and>
    visible (regs (abs w'')) (blobs (abs w'')) = visible (regs (abs w)) (blobs (abs w)) \<and>
    (\<forall>n\<in>set (flat nodes). \<exists>h. regs (abs w'') (s_ID S n) = Some h \<and> GetInActiveID h = NilUUID \<and> WorkInProgressTimestamp h = 0)"
proof (cases "nodes = []")
  case True
  then show ?thesis using assms by (auto simp: rollbackUpdatedNodes_def convertToRegistryRequestPayload_def exec_simps prepared_def
      rows_ok_def updHandles_def updBlobs_def)
next
  case False
  let ?vids = "convertToRegistryRequestPayload S nodes"
  note ids = prepared_ids [OF assms(1,3)] and nth = prepared_nth [OF assms(1,3)]
  have len: "length rows = length (flat nodes)" using ids(3) by (metis length_map)
  obtain ps w1 where g: "s_regGet S ?vids w' = (Inr ps, w1)" "valid w1" "quiet (abs w') (abs w1)"
    and ps: "map rp_IDs ps = map (\<lambda>v. lookups (regs (abs w')) (rp_IDs v)) ?vids"
    using regGet [OF assms(2)] by blast
  have vids: "payloadIDs ?vids = map (s_ID S) (flat nodes)"
    by (simp add: payloadIDs_def convertToRegistryRequestPayload_def comp_def case_prod_beta map_concat)
  have "map (regs (abs w')) (payloadIDs ?vids) = map Some (map fst rows)"
    unfolding vids by (rule nth_equalityI) (simp_all add: len prepared_regs(1) [OF assms(1,3,4)])
  then have pay: "payloadIDs ps = map fst rows" using lookups_concat [OF ps] lookups_all by metis
  have row: "staged (hs ! i) (fst (rows ! i)) (fst (snd (rows ! i)))" if "i < length rows" for i
    using nth(2) [of i] that len by (auto simp: row_ok_def split: prod.splits)
  have nz: "fst (snd r) \<noteq> NilUUID" if "r \<in> set rows" for r
    using that row staged_id by (metis in_set_conv_nth)
  have A: "map GetInActiveID (map fst rows) = map (fst \<circ> snd) rows"
    by (rule nth_equalityI) (use row in \<open>auto simp: staged_def\<close>)
  have B: "filter (\<lambda>u. u \<noteq> NilUUID) (map (fst \<circ> snd) rows) = map (fst \<circ> snd) rows"
    using nz by (intro filter_True) auto
  have lps: "length ps = length ?vids" using ps by (metis length_map)
  from blobIDs_stagedBlobs [OF lps] obtain bibs where sb: "stagedBlobs ?vids ps = Inr bibs"
    and "blobIDs bibs = inactiveIDs (payloadIDs ps)" by blast
  then have us: "blobIDs bibs = map (fst \<circ> snd) rows" by (simp only: pay inactiveIDs_def A B)
  obtain w2 where w2: "s_blobRemove S bibs w1 = (Inr (), w2)" "valid w2" "regs (abs w2) = regs (abs w1)"
    "blobs (abs w2) = blobs (abs w1) |` (- set (map (fst \<circ> snd) rows))" "used (abs w1) \<subseteq> used (abs w2)"
    using blobRemove [OF g(2), of bibs] us by metis
  have pay': "payloadIDs (mapHandles unstage ps) = map unstage (map fst rows)" by (simp add: payloadIDs_mapHandles pay)
  have ok: "LogicalID h \<noteq> NilUUID \<and> physicalIDs h \<subseteq> used (abs w2)" if "h \<in> set (payloadIDs (mapHandles unstage ps))" for h
  proof -
    from that pay' obtain i where i: "i < length rows" "h = unstage (fst (rows ! i))" by (auto simp: in_set_conv_nth)
    then have "regs (abs w') (s_ID S (flat nodes ! i)) = Some (fst (rows ! i))"
      using prepared_regs(1) [OF assms(1,3,4)] len by simp
    then have "LogicalID (fst (rows ! i)) \<noteq> NilUUID" "physicalIDs (fst (rows ! i)) \<subseteq> used (abs w')"
      using valid_ok [OF assms(2)] by (auto simp: stored_ok_def)
    then show ?thesis using i g(3) w2(5) physicalIDs_unstage [of "fst (rows ! i)"] by (auto simp: quiet_def)
  qed
  obtain w3 where w3: "s_regUpdateNoLocks S False (mapHandles unstage ps) w2 = (Inr (), w3)" "valid w3"
    "regs (abs w3) = updHandles (map unstage (map fst rows)) (regs (abs w2))" "blobs (abs w3) = blobs (abs w2)"
    using regUpdateNoLocks [OF w2(2), where b = False and ps = "mapHandles unstage ps", OF ok] unfolding pay' by blast
  obtain w4 where w4: "uncacheNodes S ''unable to undo updated nodes in redis: '' (blobIDs bibs) None w3 = (Inr None, w4)"
    "valid w4" "quiet (abs w3) (abs w4)" using calm_uncache [OF w3(2)] unfolding calm_def by blast
  have run: "rollbackUpdatedNodes S True ?vids w' = (Inr (), w4)"
    using False g(1) sb w2(1) w3(1) w4(1)
    by (simp add: rollbackUpdatedNodes_def convertToRegistryRequestPayload_def [of S nodes] Let_def exec_simps noteErr_def finishWith_def)
  have regs4: "regs (abs w4) = updHandles (map unstage (map fst rows)) (regs (abs w'))"
    using w4(3) w3(3) w2(3) g(3) by (simp add: quiet_def)
  have b4: "blobs (abs w4) = blobs (abs w)"
  proof
    fix u
    have "blobs (abs w4) u = (if u \<in> (fst \<circ> snd) ` set rows then None else blobs (abs w') u)"
      using w4(3) w3(4) w2(4) g(3) by (simp add: quiet_def restrict_map_def)
    moreover have "blobs (abs w) u = None" if "u \<in> (fst \<circ> snd) ` set rows"
    proof -
      have "u \<notin> used (abs w)" using that assms(3) unfolding prepared_def rows_ok_def by blast
      then show ?thesis using valid_ok [OF assms(1)] by (auto simp: stored_ok_def)
    qed
    moreover have "u \<notin> (fst \<circ> snd) ` set rows \<Longrightarrow> blobs (abs w') u = blobs (abs w) u"
      using assms(3) updBlobs_other [of u "map snd rows" "blobs (abs w)"] by (auto simp: prepared_def image_image)
    ultimately show "blobs (abs w4) u = blobs (abs w) u" by simp
  qed
  have lids: "map LogicalID (map unstage (map fst rows)) = map (s_ID S) (flat nodes)"
    unfolding ids(3) [symmetric] by simp
  have in4: "regs (abs w4) (s_ID S (flat nodes ! i)) = Some (unstage (fst (rows ! i)))" if "i < length rows" for i
    using updHandles_mem [of "map unstage (map fst rows)" "unstage (fst (rows ! i))" "regs (abs w')"] lids assms(4) that nth(4) [of i] len
    unfolding regs4 by simp
  have out4: "regs (abs w4) j = regs (abs w) j" if "j \<notin> s_ID S ` set (flat nodes)" for j
    using updHandles_other [of j "map unstage (map fst rows)" "regs (abs w')"] that arg_cong [OF lids, of set]
      prepared_regs(2) [OF assms(1,3,4) that] unfolding regs4 by (simp add: image_image)
  have "visible (regs (abs w4)) (blobs (abs w4)) j = visible (regs (abs w)) (blobs (abs w)) j" for j
  proof (cases "j \<in> s_ID S ` set (flat nodes)")
    case True
    then obtain i where "i < length (flat nodes)" "j = s_ID S (flat nodes ! i)" by (metis imageE in_set_conv_nth)
    then show ?thesis using in4 [of i] nth(1) [of i] unstage_staged [OF row [of i]] len by (simp add: visible_def b4)
  qed (simp add: out4 visible_def b4)
  moreover have "\<exists>h. regs (abs w4) (s_ID S n) = Some h \<and> GetInActiveID h = NilUUID \<and> WorkInProgressTimestamp h = 0"
    if "n \<in> set (flat nodes)" for n
  proof -
    from that obtain i where "i < length (flat nodes)" "n = flat nodes ! i" by (metis in_set_conv_nth)
    then show ?thesis using in4 [of i] unstage_staged [OF row [of i]] len by simp
  qed
  ultimately show ?thesis using run w4(2) b4 by blast
qed

section \<open>The commit of changed nodes\<close>

lemma commit_success:
  assumes "valid w" "commitUpdatedNodes S nodes w = (Inr (True, ps'), w')"
  obtains hs rows where "valid w'" "prepared w nodes hs rows w'" "payloadIDs ps' = map fst rows"
  using commitUpdatedNodes_run [OF assms(1), of nodes] assms(2) by auto

lemma commit_invisible:
  assumes "valid w" "distinct (map (s_ID S) (flat nodes))" "commitUpdatedNodes S nodes w = (r, w')"
  shows "valid w' \<and> visible (regs (abs w')) (blobs (abs w')) = visible (regs (abs w)) (blobs (abs w))"
proof -
  from commitUpdatedNodes_run [OF assms(1), of nodes] assms(3) have v: "valid w'"
    and r: "case r of Inl _ \<Rightarrow> quiet (abs w) (abs w') | Inr (False, _) \<Rightarrow> quiet (abs w) (abs w')
     | Inr (True, ps') \<Rightarrow> \<exists>hs rows. prepared w nodes hs rows w' \<and> payloadIDs ps' = map fst rows" by auto
  then consider "quiet (abs w) (abs w')" | hs rows where "prepared w nodes hs rows w'"
    by (auto split: sum.splits bool.splits)
  then show ?thesis using v prepared_invisible [OF assms(1) _ assms(2)] by cases (auto simp: quiet_def)
qed

lemma commit_conflict:
  assumes "valid w" "commitUpdatedNodes S nodes w = (r, w')" "n \<in> set (flat nodes)"
    and "\<And>h. regs (abs w) (s_ID S n) = Some h \<Longrightarrow> h_Version h = s_Version S n \<Longrightarrow>
      IsAandBinUse h \<and> (\<forall>v t v'. s_now S v = (Inr t, v') \<longrightarrow> \<not> IsExpiredInactive t h)"
  shows "quiet (abs w) (abs w') \<and> r \<noteq> Inr (True, x)"
proof -
  have "r \<noteq> Inr (True, y)" for y
  proof
    assume "r = Inr (True, y)"
    with assms(1,2) obtain hs rows where p: "prepared w nodes hs rows w'" by (auto elim: commit_success)
    from assms(3) obtain i where i: "i < length (flat nodes)" "n = flat nodes ! i" by (metis in_set_conv_nth)
    have "regs (abs w) (s_ID S n) = Some (hs ! i)" "h_Version (hs ! i) = s_Version S n"
      "IsAandBinUse (hs ! i) \<Longrightarrow> canExpire (hs ! i)"
      using prepared_nth(1,2) [OF assms(1) p i(1)] i(2) by (auto simp: row_ok_def split: prod.splits)
    with assms(4) [of "hs ! i"] show False by (auto simp: canExpire_def)
  qed
  then show ?thesis
    using commitUpdatedNodes_run [OF assms(1), of nodes] assms(2) by (auto split: sum.splits bool.splits)
qed

end

text \<open>
  C7. A commit in preparation is invisible: whatever its outcome (success, conflict or error), every
  reader gets for every logical ID the version and the bytes it got before.
\<close>

theorem commitUpdatedNodes_invisible:
  assumes "storage S st valid" "valid w" "distinct (map (s_ID S) (concat (map snd nodes)))"
    and "commitUpdatedNodes S nodes w = (r, w')"
  shows "visible (regs (st w')) (blobs (st w')) = visible (regs (st w)) (blobs (st w))"
  using storage.commit_invisible [OF assms] by blast

text \<open>
  C9. Finalising a prepared commit publishes it: after the handles with their flipped IDs are written, a
  reader gets for each changed node its new bytes under the next version, and for every other ID what
  was there before the commit.
\<close>

theorem commit_then_activate:
  assumes "storage S st valid" "valid w" "distinct (map (s_ID S) (concat (map snd nodes)))"
    and "commitUpdatedNodes S nodes w = (Inr (True, ps), w')"
  shows "\<exists>w''. s_regUpdateNoLocks S True (activateInactiveNodes ps) w' = (Inr (), w'') \<and>
    (\<forall>n\<in>set (concat (map snd nodes)). \<exists>ba. s_marshal S n = Inr ba \<and>
       visible (regs (st w'')) (blobs (st w'')) (s_ID S n) = Some (s_Version S n + 1, Some ba)) \<and>
    (\<forall>j. j \<notin> s_ID S ` set (concat (map snd nodes)) \<longrightarrow>
       visible (regs (st w'')) (blobs (st w'')) j = visible (regs (st w)) (blobs (st w)) j)"
proof -
  from storage.commit_success [OF assms(1,2,4)] obtain hs rows where
    "valid w'" "storage.prepared S st w nodes hs rows w'" "payloadIDs ps = map fst rows" .
  from storage.finalised [OF assms(1,2) this(1,2) assms(3) this(3)] show ?thesis by blast
qed

text \<open>
  C10. Rolling a prepared commit back restores what it started from: the blobs are the same, readers see
  the same, and the handles of its nodes are free for the next writer.
\<close>

theorem commit_then_rollback:
  assumes "storage S st valid" "valid w" "distinct (map (s_ID S) (concat (map snd nodes)))"
    and "commitUpdatedNodes S nodes w = (Inr (True, ps), w')"
  shows "\<exists>w''. rollbackUpdatedNodes S True (convertToRegistryRequestPayload S nodes) w' = (Inr (), w'') \<and>
    blobs (st w'') = blobs (st w) \<and>
    visible (regs (st w'')) (blobs (st w'')) = visible (regs (st w)) (blobs (st w)) \<and>
    (\<forall>n\<in>set (concat (map snd nodes)). \<exists>h. regs (st w'') (s_ID S n) = Some h \<and>
       GetInActiveID h = NilUUID \<and> WorkInProgressTimestamp h = 0)"
proof -
  from storage.commit_success [OF assms(1,2,4)] obtain hs rows where
    "valid w'" "storage.prepared S st w nodes hs rows w'" .
  from storage.rolled_back [OF assms(1,2) this assms(3)] show ?thesis by blast
qed


end
