(* ===== verification/Node_Mocks.thy ===== *)
theory Node_Mocks
  imports Node_Isolation
begin

text \<open>
  The in-memory registry and blob store (\<open>common/mocks/mock_registry.go\<close>, \<open>common/mocks/mock_blob_store.go\<close>)
  fulfil the contract of \<open>storage\<close>. The rest of their world: the shared cache of nodes is a plain map, new
  UUIDs come from a list (and panic at its end), the clock is a list of times.
\<close>

section \<open>The in-memory registry and blob store\<close>

record 'n mock_world =
  Lookup :: "uuid \<rightharpoonup> handle"
  InducedErrorOnUpdateAllOrNothing :: bool
  blob_lookup :: "uuid \<rightharpoonup> bytes"
  mw_nodes :: "uuid \<rightharpoonup> 'n"
  mw_fresh :: "uuid list"
  mw_clock :: int

text \<open>A world may have further parts.\<close>

type_synonym ('n, 'z, 'a) mm = "(('n, 'z) mock_world_scheme, 'a) gom"

definition mock_Add :: "handle registry_payload list \<Rightarrow> ('n, 'z, unit) mm" where
  "mock_Add ps = gfor (payloadIDs ps) (\<lambda>h. gbind (reads Lookup) (\<lambda>m.
     if m (LogicalID h) \<noteq> None then fail (Err ''handle with ID already exists'')
     else modify (\<lambda>w. w\<lparr>Lookup := (Lookup w)(LogicalID h \<mapsto> h)\<rparr>)))"

definition putHandles :: "handle registry_payload list \<Rightarrow> ('n, 'z, unit) mm" where
  "putHandles ps = gfor (payloadIDs ps) (\<lambda>h. modify (\<lambda>w. w\<lparr>Lookup := (Lookup w)(LogicalID h \<mapsto> h)\<rparr>))"

definition mock_Update :: "handle registry_payload list \<Rightarrow> ('n, 'z, unit) mm" where
  "mock_Update ps = gbind (reads InducedErrorOnUpdateAllOrNothing) (\<lambda>induced.
     if induced then fail (Err ''induced error on Update w/ allOrNothing true'') else putHandles ps)"

definition mock_UpdateNoLocks :: "bool \<Rightarrow> handle registry_payload list \<Rightarrow> ('n, 'z, unit) mm" where
  "mock_UpdateNoLocks allOrNothing ps = gbind (reads InducedErrorOnUpdateAllOrNothing) (\<lambda>induced.
     if induced \<and> allOrNothing then fail (Err ''induced error on UpdateNoLocks w/ allOrNothing true'') else putHandles ps)"

text \<open>A missing handle is Go's zero value, and skipped because its logical ID is nil.\<close>

definition getHandles :: "(uuid \<rightharpoonup> handle) \<Rightarrow> uuid list \<Rightarrow> handle list" where
  "getHandles m lids = filter (\<lambda>h. LogicalID h \<noteq> NilUUID)
     (map (\<lambda>lid. case m lid of None \<Rightarrow> zeroHandle | Some h \<Rightarrow> h) lids)"

definition mock_Get :: "uuid registry_payload list \<Rightarrow> ('n, 'z, handle registry_payload list) mm" where
  "mock_Get vids = gbind (reads Lookup) (\<lambda>m. ret (map (\<lambda>v. \<lparr>rp_RegistryTable = rp_RegistryTable v, rp_BlobTable = [],
     rp_CacheDuration = 0, rp_IsCacheTTL = False, rp_IDs = getHandles m (rp_IDs v)\<rparr>) vids))"

definition mock_Remove :: "uuid registry_payload list \<Rightarrow> ('n, 'z, unit) mm" where
  "mock_Remove vids = gfor (payloadIDs vids) (\<lambda>lid. modify (\<lambda>w. w\<lparr>Lookup := (Lookup w)(lid := None)\<rparr>))"

definition mock_GetOne :: "string \<Rightarrow> uuid \<Rightarrow> ('n, 'z, bytes option) mm" where
  "mock_GetOne table i = reads (\<lambda>w. blob_lookup w i)"

definition mock_blobAdd :: "(uuid \<times> bytes) blobs_payload list \<Rightarrow> ('n, 'z, unit) mm" where
  "mock_blobAdd bs = gfor (blobIDs bs) (\<lambda>(u, ba). modify (\<lambda>w. w\<lparr>blob_lookup := (blob_lookup w)(u \<mapsto> ba)\<rparr>))"

definition mock_blobRemove :: "uuid blobs_payload list \<Rightarrow> ('n, 'z, unit) mm" where
  "mock_blobRemove us = gfor (blobIDs us) (\<lambda>u. modify (\<lambda>w. w\<lparr>blob_lookup := (blob_lookup w)(u := None)\<rparr>))"

section \<open>The services on top of them\<close>

definition drawUUID :: "('n, 'z, uuid) mm" where
  "drawUUID = (\<lambda>w. case mw_fresh w of [] \<Rightarrow> (Inl Panic, w) | u # us \<Rightarrow> (Inr u, w\<lparr>mw_fresh := us\<rparr>))"

record 'n node_meta =
  nm_ID :: "'n \<Rightarrow> uuid"
  nm_Version :: "'n \<Rightarrow> 32 word"
  nm_SetVersion :: "32 word \<Rightarrow> 'n \<Rightarrow> 'n"
  nm_marshal :: "'n \<Rightarrow> string + bytes"
  nm_unmarshal :: "bytes option \<Rightarrow> 'n"

definition mock_services :: "'n node_meta \<Rightarrow> ('n, ('n, 'z) mock_world_scheme) services" where
  "mock_services M = \<lparr>s_ID = nm_ID M, s_Version = nm_Version M, s_SetVersion = nm_SetVersion M,
     s_marshal = nm_marshal M, s_unmarshal = nm_unmarshal M,
     s_regGet = mock_Get, s_regAdd = mock_Add, s_regUpdate = mock_Update, s_regUpdateNoLocks = mock_UpdateNoLocks,
     s_regRemove = mock_Remove, s_blobGetOne = mock_GetOne, s_blobAdd = mock_blobAdd, s_blobRemove = mock_blobRemove,
     s_l2SetNode = (\<lambda>u n d. modify (\<lambda>w. w\<lparr>mw_nodes := (mw_nodes w)(u \<mapsto> n)\<rparr>)),
     s_l2DelNode = (\<lambda>u. gseq (modify (\<lambda>w. w\<lparr>mw_nodes := (mw_nodes w)(u := None)\<rparr>)) (ret True)),
     s_l1Handle = (\<lambda>_. ret zeroHandle), s_l1GetNodeFromMRU = (\<lambda>_. ret None),
     s_l1GetNode = (\<lambda>h _ _. reads (\<lambda>w. mw_nodes w (GetActiveID h))),
     s_l1SetNode = (\<lambda>u n d. modify (\<lambda>w. w\<lparr>mw_nodes := (mw_nodes w)(u \<mapsto> n)\<rparr>)),
     s_newUUID = drawUUID, s_now = reads mw_clock\<rparr>"

definition mock_abs :: "('n, 'z) mock_world_scheme \<Rightarrow> stored" where
  "mock_abs w = \<lparr>regs = Lookup w, blobs = blob_lookup w, used = - set (mw_fresh w)\<rparr>"

definition mock_valid :: "('n, 'z) mock_world_scheme \<Rightarrow> bool" where
  "mock_valid w = (stored_ok (mock_abs w) \<and> \<not> InducedErrorOnUpdateAllOrNothing w \<and> distinct (mw_fresh w) \<and>
     NilUUID \<notin> set (mw_fresh w))"

lemma gfor_modify: "gfor xs (\<lambda>x. modify (f x)) w = (Inr (), fold f xs w)"
  by (induction xs arbitrary: w) (simp_all add: exec_simps)

lemma putHandles_run: "putHandles ps w = (Inr (), w\<lparr>Lookup := updHandles (payloadIDs ps) (Lookup w)\<rparr>)"
proof -
  have "fold (\<lambda>h w. w\<lparr>Lookup := (Lookup w)(LogicalID h \<mapsto> h)\<rparr>) hs v = v\<lparr>Lookup := updHandles hs (Lookup v)\<rparr>"
    for hs and v :: "('a, 'b) mock_world_scheme"
    by (induction hs arbitrary: v) (simp_all add: updHandles_def)
  then show ?thesis by (simp add: putHandles_def gfor_modify)
qed

lemma mock_blobAdd_run: "mock_blobAdd bs w = (Inr (), w\<lparr>blob_lookup := updBlobs (blobIDs bs) (blob_lookup w)\<rparr>)"
proof -
  have "fold (\<lambda>x w. w\<lparr>blob_lookup := (blob_lookup w)(fst x \<mapsto> snd x)\<rparr>) xs v = v\<lparr>blob_lookup := updBlobs xs (blob_lookup v)\<rparr>"
    for xs and v :: "('a, 'b) mock_world_scheme"
    by (induction xs arbitrary: v) (simp_all add: updBlobs_def case_prod_beta)
  moreover have "(\<lambda>(u, ba). modify (\<lambda>w. w\<lparr>blob_lookup := (blob_lookup w)(u \<mapsto> ba)\<rparr>)) =
      (\<lambda>x. modify (\<lambda>w :: ('a, 'b) mock_world_scheme. w\<lparr>blob_lookup := (blob_lookup w)(fst x \<mapsto> snd x)\<rparr>))"
    by (simp add: fun_eq_iff case_prod_beta)
  ultimately show ?thesis by (simp add: mock_blobAdd_def gfor_modify)
qed

lemma mock_blobRemove_run:
  "mock_blobRemove us w = (Inr (), w\<lparr>blob_lookup := blob_lookup w |` (- set (blobIDs us))\<rparr>)"
proof -
  have "fold (\<lambda>u w. w\<lparr>blob_lookup := (blob_lookup w)(u := None)\<rparr>) xs v = v\<lparr>blob_lookup := blob_lookup v |` (- set xs)\<rparr>"
    for xs and v :: "('a, 'b) mock_world_scheme"
  proof (induction xs arbitrary: v)
    case (Cons x xs)
    have "((blob_lookup v)(x := None)) |` (- set xs) = blob_lookup v |` (- set (x # xs))"
      by (rule ext) (auto simp: restrict_map_def)
    with Cons [of "v\<lparr>blob_lookup := (blob_lookup v)(x := None)\<rparr>"] show ?case
      by (simp del: fun_upd_apply restrict_map_upds add: fun_upd_def [symmetric])
  next
    case Nil
    have "m |` UNIV = m" for m :: "uuid \<rightharpoonup> bytes" by (simp add: restrict_map_def)
    then show ?case by simp
  qed
  then show ?thesis by (simp add: mock_blobRemove_def gfor_modify)
qed

lemma getHandles_lookups:
  assumes "\<And>i h. m i = Some h \<Longrightarrow> LogicalID h \<noteq> NilUUID"
  shows "getHandles m ids = lookups m ids"
proof (induction ids)
  case (Cons i ids)
  then show ?case using assms [of i]
    by (cases "m i") (simp_all add: getHandles_def lookups_def map_filter_simps zeroHandle_def)
qed (simp add: getHandles_def lookups_def map_filter_simps)

lemma stored_ok_upd:
  assumes "stored_ok s" and "\<And>h. h \<in> set hs \<Longrightarrow> LogicalID h \<noteq> NilUUID \<and> physicalIDs h \<subseteq> used s"
  shows "stored_ok (s\<lparr>regs := updHandles hs (regs s)\<rparr>)"
  using assms
proof (induction hs arbitrary: s)
  case (Cons h hs)
  have "stored_ok (s\<lparr>regs := (regs s)(LogicalID h \<mapsto> h)\<rparr>)" using Cons.prems by (auto simp: stored_ok_def)
  from Cons.IH [OF this] have "stored_ok (s\<lparr>regs := (regs s)(LogicalID h \<mapsto> h),
      regs := updHandles hs (regs (s\<lparr>regs := (regs s)(LogicalID h \<mapsto> h)\<rparr>))\<rparr>)"
    using Cons.prems(2) by (simp del: fun_upd_apply)
  then show ?case by (simp add: updHandles_def)
qed (simp add: updHandles_def)

interpretation ms: storage "mock_services M" mock_abs mock_valid
proof
  fix w :: "('a, 'b) mock_world_scheme" assume v: "mock_valid w"
  then have ok: "stored_ok (mock_abs w)" by (simp add: mock_valid_def)
  then show "stored_ok (mock_abs w)" .
  have keyed: "Lookup w i = Some h \<Longrightarrow> LogicalID h \<noteq> NilUUID" for i h using ok by (auto simp: stored_ok_def mock_abs_def)
  show "\<exists>ps w'. s_regGet (mock_services M) vids w = (Inr ps, w') \<and> mock_valid w' \<and> quiet (mock_abs w) (mock_abs w') \<and>
      map rp_IDs ps = map (\<lambda>v. lookups (regs (mock_abs w)) (rp_IDs v)) vids" for vids
    using v getHandles_lookups [of "Lookup w", OF keyed]
    by (simp add: mock_services_def mock_Get_def exec_simps mock_abs_def comp_def)
  show "\<exists>r w'. attempt (s_l2SetNode (mock_services M) u n d) w = (Inr r, w') \<and> mock_valid w' \<and> quiet (mock_abs w) (mock_abs w')" for u n d
    using v by (simp add: mock_services_def exec_simps mock_valid_def mock_abs_def)
  show "\<exists>r w'. s_l2DelNode (mock_services M) u w = (Inr r, w') \<and> mock_valid w' \<and> quiet (mock_abs w) (mock_abs w')" for u
    using v by (auto simp: mock_services_def exec_simps mock_valid_def mock_abs_def)
  show "\<exists>t w'. s_now (mock_services M) w = (Inr t, w') \<and> mock_valid w' \<and> quiet (mock_abs w) (mock_abs w')"
    using v by (simp add: mock_services_def exec_simps)
  show "\<exists>w'. s_regUpdateNoLocks (mock_services M) b ps w = (Inr (), w') \<and> mock_valid w' \<and>
        regs (mock_abs w') = updHandles (payloadIDs ps) (regs (mock_abs w)) \<and>
        blobs (mock_abs w') = blobs (mock_abs w) \<and> used (mock_abs w) \<subseteq> used (mock_abs w')"
    if "\<And>h. h \<in> set (payloadIDs ps) \<Longrightarrow> LogicalID h \<noteq> NilUUID \<and> physicalIDs h \<subseteq> used (mock_abs w)" for b ps
    using v stored_ok_upd [OF ok, of "payloadIDs ps"] that
    by (simp add: mock_services_def mock_UpdateNoLocks_def exec_simps putHandles_run mock_valid_def mock_abs_def)
  show "\<exists>w'. s_blobAdd (mock_services M) bs w = (Inr (), w') \<and> mock_valid w' \<and> regs (mock_abs w') = regs (mock_abs w) \<and>
        blobs (mock_abs w') = updBlobs (blobIDs bs) (blobs (mock_abs w)) \<and> used (mock_abs w) \<subseteq> used (mock_abs w')"
    if "fst ` set (blobIDs bs) \<subseteq> used (mock_abs w)" for bs
  proof -
    have "dom (updBlobs (blobIDs bs) (blob_lookup w)) \<subseteq> fst ` set (blobIDs bs) \<union> dom (blob_lookup w)"
      using updBlobs_other [of _ "blobIDs bs" "blob_lookup w"] by (auto simp: dom_def)
    also have "\<dots> \<subseteq> used (mock_abs w)"
      using ok that by (intro Un_least) (simp_all add: stored_ok_def mock_abs_def)
    finally have "dom (updBlobs (blobIDs bs) (blob_lookup w)) \<subseteq> used (mock_abs w)" .
    then show ?thesis
      using v by (simp add: mock_services_def mock_blobAdd_run mock_valid_def mock_abs_def stored_ok_def)
  qed
  show "\<exists>w'. s_blobRemove (mock_services M) us w = (Inr (), w') \<and> mock_valid w' \<and> regs (mock_abs w') = regs (mock_abs w) \<and>
        blobs (mock_abs w') = blobs (mock_abs w) |` (- set (blobIDs us)) \<and> used (mock_abs w) \<subseteq> used (mock_abs w')" for us
    using v by (auto simp: mock_services_def mock_blobRemove_run mock_valid_def mock_abs_def stored_ok_def)
  show "\<exists>r w'. s_newUUID (mock_services M) w = (r, w') \<and> mock_valid w' \<and> quiet (mock_abs w) (mock_abs w') \<and>
      (case r of Inl e \<Rightarrow> e = Panic | Inr u \<Rightarrow> u \<noteq> NilUUID \<and> u \<notin> used (mock_abs w) \<and> u \<in> used (mock_abs w'))"
    using v by (cases "mw_fresh w") (auto simp: mock_services_def drawUUID_def mock_valid_def mock_abs_def stored_ok_def quiet_def)
qed

end
