(* ===== verification/Node_Sample.thy ===== *)
theory Node_Sample
  imports Node_Mocks Btree_Sample
begin

text \<open>
  A store with two nodes in the in-memory registry and blob store, and on it the commit of a changed node,
  its finalisation and its rollback.
\<close>

type_synonym plain_node = "uuid \<times> 32 word \<times> bytes"

definition plain_meta :: "plain_node node_meta" where
  "plain_meta = \<lparr>nm_ID = fst, nm_Version = fst \<circ> snd, nm_SetVersion = (\<lambda>v (i, _, b). (i, v, b)),
     nm_marshal = (\<lambda>(_, _, b). Inr b), nm_unmarshal = (\<lambda>b. (0, 0, case b of None \<Rightarrow> [] | Some b \<Rightarrow> b))\<rparr>"

definition plain_world :: "plain_node mock_world" where
  "plain_world = \<lparr>Lookup = [1 \<mapsto> NewHandle 1, 2 \<mapsto> (NewHandle 2)\<lparr>h_Version := 4\<rparr>],
     InducedErrorOnUpdateAllOrNothing = False, blob_lookup = [1 \<mapsto> [10], 2 \<mapsto> [20]], mw_nodes = Map.empty,
     mw_fresh = [7, 8], mw_clock = 5\<rparr>"

abbreviation plain_services :: "(plain_node, plain_node mock_world) services" where
  "plain_services \<equiv> mock_services plain_meta"

definition plain_change :: "32 word \<Rightarrow> plain_node store_nodes" where
  "plain_change v = [(sample_info False, [(2, v, [21])])]"

definition plain_committed :: "plain_node mock_world" where
  "plain_committed = snd (commitUpdatedNodes plain_services (plain_change 4) plain_world)"

definition plain_handles :: "handle registry_payload list" where
  "plain_handles = (case fst (commitUpdatedNodes plain_services (plain_change 4) plain_world) of
     Inr (_, ps) \<Rightarrow> ps | Inl _ \<Rightarrow> [])"

lemmas plain_defs = plain_meta_def plain_world_def plain_change_def mock_services_def

lemma plain_valid: "mock_valid plain_world"
  by (auto simp: mock_valid_def mock_abs_def stored_ok_def plain_world_def NewHandle_def zeroHandle_def physicalIDs_def split: if_splits)

lemma plain_run: "commitUpdatedNodes plain_services (plain_change 4) plain_world = (Inr (True, plain_handles), plain_committed)"
proof -
  have "(case fst (commitUpdatedNodes plain_services (plain_change 4) plain_world) of Inr (True, _) \<Rightarrow> True | _ \<Rightarrow> False)"
    by code_simp
  then show ?thesis by (auto simp: plain_handles_def plain_committed_def prod_eq_iff split: sum.splits prod.splits bool.splits)
qed

lemma plain_distinct: "distinct (map (s_ID plain_services) (concat (map snd (plain_change v))))"
  by (simp add: plain_change_def)

text \<open>While the commit is prepared, node 2 still has its old version and bytes.\<close>

theorem commitUpdatedNodes_invisible_witness:
  "visible (regs (mock_abs plain_committed)) (blobs (mock_abs plain_committed)) 2 = Some (4, Some [20])"
proof -
  have "visible (regs (mock_abs plain_world)) (blobs (mock_abs plain_world)) 2 = Some (4, Some [20])"
    by (simp add: visible_def mock_abs_def plain_world_def NewHandle_def zeroHandle_def GetActiveID_def)
  then show ?thesis
    using commitUpdatedNodes_invisible [OF ms.storage_axioms plain_valid plain_distinct plain_run] by simp
qed

theorem commit_then_activate_witness:
  "\<exists>w. s_regUpdateNoLocks plain_services True (activateInactiveNodes plain_handles) plain_committed = (Inr (), w) \<and>
     visible (regs (mock_abs w)) (blobs (mock_abs w)) 2 = Some (5, Some [21]) \<and>
     visible (regs (mock_abs w)) (blobs (mock_abs w)) 1 = Some (0, Some [10])"
proof -
  have "visible (regs (mock_abs plain_world)) (blobs (mock_abs plain_world)) 1 = Some (0, Some [10])"
    by (simp add: visible_def mock_abs_def plain_world_def NewHandle_def zeroHandle_def GetActiveID_def)
  then show ?thesis
    using commit_then_activate [OF ms.storage_axioms plain_valid plain_distinct plain_run]
    by (fastforce simp: plain_change_def mock_services_def plain_meta_def)
qed

theorem commit_then_rollback_witness:
  "\<exists>w. rollbackUpdatedNodes plain_services True (convertToRegistryRequestPayload plain_services (plain_change 4)) plain_committed
       = (Inr (), w) \<and>
     blob_lookup w 7 = None \<and> visible (regs (mock_abs w)) (blobs (mock_abs w)) 2 = Some (4, Some [20])"
proof -
  have "visible (regs (mock_abs plain_world)) (blobs (mock_abs plain_world)) 2 = Some (4, Some [20])"
    "blobs (mock_abs plain_world) 7 = None"
    by (simp_all add: visible_def mock_abs_def plain_world_def NewHandle_def zeroHandle_def GetActiveID_def)
  moreover have "blob_lookup w = blobs (mock_abs w)" for w :: "plain_node mock_world" by (simp add: mock_abs_def)
  ultimately show ?thesis
    using commit_then_rollback [OF ms.storage_axioms plain_valid plain_distinct plain_run] by auto
qed


end
