(* ===== verification/Reg_Block.thy ===== *)
theory Reg_Block
  imports Handle
begin

unbundle bit_operations_syntax

text \<open>
  Blocks with a checksum (\<open>fs/marshaldata.go\<close>): the last four bytes are the CRC-32 of the rest, and a
  block of zeros counts as valid without one. \<open>hash/crc32\<close>'s \<open>ChecksumIEEE\<close> is written out bit by bit.
\<close>

section \<open>The checksum\<close>

definition crcBit :: "32 word \<Rightarrow> 32 word" where
  "crcBit c = (if bit c 0 then drop_bit 1 c XOR 0xEDB88320 else drop_bit 1 c)"

definition crcByte :: "8 word \<Rightarrow> 32 word \<Rightarrow> 32 word" where
  "crcByte b c = (crcBit ^^ 8) (c XOR ucast b)"

definition ChecksumIEEE :: "8 word list \<Rightarrow> 32 word" where
  "ChecksumIEEE bs = NOT (fold crcByte bs (NOT 0))"

text \<open>The check value of the standard, for the digits 1 to 9.\<close>

lemma funpow_8: "(f ^^ 8) x = f (f (f (f (f (f (f (f x)))))))"
  by (simp add: eval_nat_numeral)

lemma ChecksumIEEE_check: "ChecksumIEEE [0x31, 0x32, 0x33, 0x34, 0x35, 0x36, 0x37, 0x38, 0x39] = 0xCBF43926"
proof -
  have ones: "NOT 0 = (0xFFFFFFFF :: 32 word)" by (simp add: minus_equation_iff [of 1] flip: mask_eq_exp_minus_1)
  show ?thesis unfolding ChecksumIEEE_def ones
    by (simp add: crcByte_def funpow_8 crcBit_def)
qed

section \<open>Blocks\<close>

definition isZeroData :: "8 word list \<Rightarrow> bool" where
  "isZeroData bs = list_all (\<lambda>b. b = 0) bs"

text \<open>A payload that does not fit into the block gets a new block of its own size.\<close>

definition marshalData :: "8 word list \<Rightarrow> 8 word list \<Rightarrow> 8 word list" where
  "marshalData payload block =
     (let fits = int (length payload) \<le> int (length block) - 4;
          block = (if fits then block else replicate (length payload + 4) 0);
          dataLen = length block - 4;
          block = go_copy block payload;
          block = take (length payload) block @ replicate (dataLen - length payload) 0 @ drop dataLen block
      in if isZeroData (take dataLen block) then take dataLen block @ le_bytes 4 (0 :: 32 word)
         else take dataLen block @ le_bytes 4 (ChecksumIEEE (take dataLen block)))"

definition unmarshalData :: "8 word list \<Rightarrow> string + 8 word list" where
  "unmarshalData block =
     (if length block < 4 then Inl ''block too small''
      else let dataLen = length block - 4 in
        if isZeroData block then Inr (take dataLen block)
        else if ChecksumIEEE (take dataLen block) \<noteq> le_word (drop dataLen block) then Inl ''checksum mismatch''
        else Inr (take dataLen block))"

lemma isZeroData_iff: "isZeroData bs \<longleftrightarrow> bs = replicate (length bs) 0"
  by (induction bs) (auto simp: isZeroData_def)

lemma marshalData_eq:
  "marshalData payload block =
     (let d = payload @ replicate (length block - 4 - length payload) 0
      in d @ le_bytes 4 (if isZeroData d then 0 else ChecksumIEEE d))"
proof (cases "length payload + 4 \<le> length block")
  case True
  then have "take (length block - 4) (payload @ replicate (length block - 4 - length payload) 0 @ drop (length block - 4) ys)
      = payload @ replicate (length block - 4 - length payload) 0" for ys :: "8 word list"
    by simp
  with True show ?thesis
    by (simp add: marshalData_def Let_def go_copy_def le_diff_conv2 of_nat_diff)
next
  case False
  then show ?thesis by (simp add: marshalData_def Let_def go_copy_def)
qed

lemma unmarshal_marshal:
  "unmarshalData (marshalData payload block) = Inr (payload @ replicate (length block - 4 - length payload) 0)"
proof -
  define d where "d = payload @ replicate (length block - 4 - length payload) 0"
  have z: "isZeroData (d @ le_bytes 4 (0 :: 32 word))" if "isZeroData d"
    using that by (simp add: isZeroData_def le_bytes_def upt_rec)
  have w: "le_word (le_bytes 4 c) = c" for c :: "32 word" by (simp add: le_word_le_bytes)
  have "isZeroData d" if "isZeroData (d @ ys)" for ys using that by (simp add: isZeroData_def)
  with z show ?thesis unfolding marshalData_eq Let_def d_def [symmetric]
    by (auto simp: unmarshalData_def Let_def w)
qed

lemma length_marshalData: "length payload + 4 \<le> length block \<Longrightarrow> length (marshalData payload block) = length block"
  by (simp add: marshalData_eq Let_def)

text \<open>
  C13. What is written into a block is read back and passes the check: the payload, padded with zeros to
  the size of the block.
\<close>

theorem marshalData_roundtrip:
  "unmarshalData (marshalData payload block) = Inr (payload @ replicate (length block - 4 - length payload) 0)"
  by (rule unmarshal_marshal)

end
