(* ===== verification/Reg_Files.thy ===== *)
theory Reg_Files
  imports Reg_Block Node_Repo Cache_L2
begin

text \<open>
  The files of the registry (\<open>fs/hashmap.fileregion.go\<close>, \<open>fs/hashmap.cow.go\<close>, \<open>fs/filedirectio.go\<close>): a block
  is changed under a lock, after a copy of it (the COW file) is put aside, and a block that fails its
  checksum is restored from that copy. The operating system (\<open>DirectIO\<close>, \<open>FileIO\<close>), the locks
  (\<open>sop.L2Cache\<close>) and the clock are the fields of \<open>fsys\<close>.
\<close>

section \<open>Interfaces and state\<close>

datatype open_flag = O_CREATE_RDWR | O_RDWR | O_RDONLY

record 'w fsys =
  BlockSize :: nat
  d_Open :: "string \<Rightarrow> open_flag \<Rightarrow> ('w, unit) gom"
  d_ReadAt :: "string \<Rightarrow> int \<Rightarrow> ('w, bytes) gom"
  d_WriteAt :: "string \<Rightarrow> bytes \<Rightarrow> int \<Rightarrow> ('w, nat) gom"
  d_Close :: "string \<Rightarrow> ('w, unit) gom"
  d_Truncate :: "string \<Rightarrow> int \<Rightarrow> ('w, unit) gom"
  o_Exists :: "string \<Rightarrow> ('w, bool) gom"
  o_Size :: "string \<Rightarrow> ('w, int) gom"
  o_IsNotExist :: "string \<Rightarrow> bool"
  o_MkdirAll :: "string \<Rightarrow> ('w, unit) gom"
  o_WriteFile :: "string \<Rightarrow> bytes \<Rightarrow> ('w, unit) gom"
  o_ReadFile :: "string \<Rightarrow> ('w, bytes) gom"
  o_Remove :: "string \<Rightarrow> ('w, unit) gom"
  k_DualLock :: "int \<Rightarrow> lock_key list \<Rightarrow> ('w, bool \<times> uuid \<times> lock_key list) gom"
  k_Unlock :: "lock_key list \<Rightarrow> ('w, unit) gom"
  k_NewUUID :: "('w, uuid) gom"
  k_ctxErr :: "('w, string option) gom"
  k_Now :: "('w, int) gom"
  k_Sleep :: "('w, unit) gom"

text \<open>
  An open file: its path while it is open, and the name kept beside it. The base folder is the active one
  of the replication tracker. \<open>hm_polls\<close> bounds the polls of a lock and is not part of the program.
\<close>

record file_dio =
  df_file :: "string option"
  df_filename :: string

record 'w hashmap =
  hashModValue :: int
  hm_base :: string
  hm_tid :: uuid
  hm_readWrite :: bool
  fileHandles :: "string \<rightharpoonup> file_dio"
  hm_world :: 'w
  hm_polls :: nat

record file_region =
  fr_dio :: file_dio
  fr_blockOffset :: int
  fr_handleInBlockOffset :: int
  fr_handle :: handle

type_synonym ('w, 'a) hmm = "('w hashmap, 'a) gom"

abbreviation onDisk :: "('w, 'a) gom \<Rightarrow> ('w, 'a) hmm" where
  "onDisk \<equiv> zoom hm_world (\<lambda>w s. s\<lparr>hm_world := w\<rparr>)"

definition handlesPerBlock :: nat where
  "handlesPerBlock = 66"

definition newHashmap :: "bool \<Rightarrow> int \<Rightarrow> string \<Rightarrow> uuid \<Rightarrow> 'w \<Rightarrow> nat \<Rightarrow> 'w hashmap" where
  "newHashmap rw n base tid w polls = \<lparr>hashModValue = (if n \<le> 0 then 250 else n), hm_base = base, hm_tid = tid,
     hm_readWrite = rw, fileHandles = Map.empty, hm_world = w, hm_polls = polls\<rparr>"

section \<open>Texts and paths\<close>

fun nat_str :: "nat \<Rightarrow> string" where
  "nat_str n = (if n < 10 then [char_of (n + 48)] else nat_str (n div 10) @ [char_of (n mod 10 + 48)])"

declare nat_str.simps [simp del]

definition int_str :: "int \<Rightarrow> string" where
  "int_str i = (if i < 0 then ''-'' @ nat_str (nat (- i)) else nat_str (nat i))"

fun contains :: "string \<Rightarrow> string \<Rightarrow> bool" where
  "contains p [] = (p = [])"
| "contains p (c # s) = (take (length p) (c # s) = p \<or> contains p s)"

definition hasSuffix :: "string \<Rightarrow> string \<Rightarrow> bool" where
  "hasSuffix s p = (length p \<le> length s \<and> drop (length s - length p) s = p)"

definition pathBase :: "string \<Rightarrow> string" where
  "pathBase p = (if p = [] then ''.'' else
     let q = rev (dropWhile (\<lambda>c. c = CHR ''/'') (rev p)) in
     if q = [] then ''/'' else rev (takeWhile (\<lambda>c. c \<noteq> CHR ''/'') (rev q)))"

text \<open>\<open>filepath.Dir\<close> of a path in normal form.\<close>

definition pathDir :: "string \<Rightarrow> string" where
  "pathDir p = (let q = dropWhile (\<lambda>c. c \<noteq> CHR ''/'') (rev p) in
     if q = [] then ''.'' else if tl q = [] then ''/'' else rev (tl q))"

definition formatActiveFolderEntity :: "string \<Rightarrow> string \<Rightarrow> string" where
  "formatActiveFolderEntity base e = (if hasSuffix base ''/'' then base @ e else base @ ''/'' @ e)"

definition dropReg :: "string \<Rightarrow> string" where
  "dropReg s = (if hasSuffix s ''.reg'' then take (length s - 4) s else s)"

definition makeBlockCowPath :: "string \<Rightarrow> string \<Rightarrow> int \<Rightarrow> string" where
  "makeBlockCowPath base filename offset =
     (if filename \<noteq> [] \<and> hd filename = CHR ''/'' then dropReg filename @ ''_'' @ int_str offset @ ''.cow''
      else formatActiveFolderEntity base (dropReg filename) @ ''_'' @ int_str offset @ ''.cow'')"

definition hm_formatLockKey :: "string \<Rightarrow> string \<Rightarrow> int \<Rightarrow> string" where
  "hm_formatLockKey base filename offset =
     FormatLockKey (''infs'' @ formatActiveFolderEntity base filename @ int_str offset)"

section \<open>Open files\<close>

definition dio_open :: "'w fsys \<Rightarrow> file_dio \<Rightarrow> string \<Rightarrow> open_flag \<Rightarrow> ('w, file_dio) hmm" where
  "dio_open F d fn flag = (if df_file d \<noteq> None
     then fail (Err ''there is an opened file for this directIO object, 'not allowed to open file again'')
     else gseq (onDisk (d_Open F fn flag)) (ret \<lparr>df_file = Some fn, df_filename = fn\<rparr>))"

definition dio_readAt :: "'w fsys \<Rightarrow> file_dio \<Rightarrow> int \<Rightarrow> ('w, bytes) hmm" where
  "dio_readAt F d off = (case df_file d of
     None \<Rightarrow> fail (Err ''can't read, there is no opened file'')
   | Some fn \<Rightarrow> onDisk (d_ReadAt F fn off))"

definition dio_writeAt :: "'w fsys \<Rightarrow> file_dio \<Rightarrow> bytes \<Rightarrow> int \<Rightarrow> ('w, nat) hmm" where
  "dio_writeAt F d block off = (case df_file d of
     None \<Rightarrow> fail (Err ''can't write, there is no opened file'')
   | Some fn \<Rightarrow> onDisk (d_WriteAt F fn block off))"

definition dio_close :: "'w fsys \<Rightarrow> file_dio \<Rightarrow> ('w, unit) hmm" where
  "dio_close F d = (case df_file d of None \<Rightarrow> ret () | Some fn \<Rightarrow> onDisk (d_Close F fn))"

text \<open>\<open>dio.file.Name()\<close>; a nil file panics.\<close>

definition dio_Name :: "file_dio \<Rightarrow> ('w, string) hmm" where
  "dio_Name d = (case df_file d of None \<Rightarrow> fail Panic | Some fn \<Rightarrow> ret fn)"

definition isEOF :: "string \<Rightarrow> bool" where
  "isEOF e = (e = ''EOF'')"

section \<open>Copies of blocks\<close>

definition sectorFailure :: "string \<Rightarrow> go_error" where
  "sectorFailure e = Err (''RestoreRegistryFileSectorFailure: '' @ e)"

definition createCow :: "'w fsys \<Rightarrow> string \<Rightarrow> int \<Rightarrow> bytes \<Rightarrow> ('w, unit) hmm" where
  "createCow F filename off dat = gbind (reads hm_base) (\<lambda>base.
     let cowPath = makeBlockCowPath base filename off; cowDir = pathDir cowPath in
     gbind (onDisk (o_Exists F cowDir)) (\<lambda>ex.
     gseq (if ex then ret () else gbind (attempt (onDisk (o_MkdirAll F cowDir))) (\<lambda>r.
             case r of Inl e \<Rightarrow> fail (sectorFailure e) | Inr _ \<Rightarrow> ret ()))
     (gbind (attempt (onDisk (o_WriteFile F cowPath dat))) (\<lambda>r.
        case r of Inl e \<Rightarrow> fail (sectorFailure e) | Inr _ \<Rightarrow> ret ()))))"

definition deleteCow :: "'w fsys \<Rightarrow> string \<Rightarrow> int \<Rightarrow> ('w, unit) hmm" where
  "deleteCow F filename off = gbind (reads hm_base) (\<lambda>base.
     gbind (attempt (onDisk (o_Remove F (makeBlockCowPath base filename off)))) (\<lambda>r. case r of
       Inr _ \<Rightarrow> ret ()
     | Inl e \<Rightarrow> if o_IsNotExist F e \<or> contains ''no such file or directory'' e then ret () else fail (sectorFailure e)))"

text \<open>The copy's contents, and whether the block is to be restored from it.\<close>

definition checkCow :: "'w fsys \<Rightarrow> string \<Rightarrow> int \<Rightarrow> ('w, bytes \<times> bool) hmm" where
  "checkCow F filename off = gbind (reads hm_base) (\<lambda>base.
     let cowPath = makeBlockCowPath base filename off in
     gbind (onDisk (o_Exists F cowPath)) (\<lambda>ex. if \<not> ex then ret ([], False)
       else gbind (attempt (onDisk (o_ReadFile F cowPath))) (\<lambda>r. case r of
         Inl e \<Rightarrow> fail (sectorFailure e)
       | Inr dat \<Rightarrow> if dat = [] then ret ([], True)
           else if length dat \<noteq> BlockSize F then ret ([], False)
           else (case unmarshalData dat of Inr _ \<Rightarrow> ret (dat, True) | Inl _ \<Rightarrow> ret ([], False)))))"

definition partially :: "string \<Rightarrow> string \<Rightarrow> nat \<Rightarrow> int \<Rightarrow> string" where
  "partially pre what n off = pre @ ''only partially (n='' @ nat_str n @ '') '' @ what @ int_str off"

definition restoreFromCow :: "'w fsys \<Rightarrow> file_dio \<Rightarrow> int \<Rightarrow> bytes \<Rightarrow> bytes \<Rightarrow> ('w, bytes) hmm" where
  "restoreFromCow F d off buf cowData = (if cowData = [] then ret buf
     else let buf = go_copy buf cowData in
       gbind (attempt (dio_writeAt F d buf off)) (\<lambda>r.
         if r = Inr (BlockSize F) then ret buf
         else gbind (reads hm_readWrite) (\<lambda>rw. if \<not> rw then ret buf
           else (case r of
             Inl e \<Rightarrow> fail (sectorFailure e)
           | Inr n \<Rightarrow> fail (sectorFailure (partially ''stale cow cleanup: '' ''wrote at block offset '' n off))))))"

section \<open>Reading and writing a block\<close>

text \<open>The block as it is in the buffer afterwards.\<close>

definition readAndRestoreBlock :: "'w fsys \<Rightarrow> file_dio \<Rightarrow> int \<Rightarrow> ('w, bytes) hmm" where
  "readAndRestoreBlock F d off = gbind (dio_readAt F d off) (\<lambda>buf.
     if length buf \<noteq> BlockSize F then fail (Err (partially [] ''read the block at offset '' (length buf) off))
     else (case unmarshalData buf of
       Inr _ \<Rightarrow> gbind (dio_Name d) (\<lambda>fn. gseq (tolerate (deleteCow F fn off)) (ret buf))
     | Inl _ \<Rightarrow> gbind (dio_Name d) (\<lambda>fn. gbind (checkCow F fn off) (\<lambda>(cowData, shouldRestore).
         if shouldRestore then restoreFromCow F d off buf cowData else ret buf))))"

text \<open>\<open>copy(buf[pos:pos+62], dat)\<close>, then the checksum.\<close>

definition mergeHandle :: "bytes \<Rightarrow> nat \<Rightarrow> bytes \<Rightarrow> bytes" where
  "mergeHandle buf pos dat = (let b = take pos buf @ go_copy (take HandleSizeInBytes (drop pos buf)) dat @ drop (pos + HandleSizeInBytes) buf
     in marshalData (take (length b - 4) b) b)"

definition writeBlockRegionPayload :: "'w fsys \<Rightarrow> file_dio \<Rightarrow> int \<Rightarrow> nat \<Rightarrow> bytes \<Rightarrow> bytes \<Rightarrow> ('w, unit) hmm" where
  "writeBlockRegionPayload F d off pos dat buf = gbind (dio_Name d) (\<lambda>fn.
     gseq (createCow F fn off buf)
     (if length buf < pos + HandleSizeInBytes then fail Panic
      else gbind (dio_writeAt F d (mergeHandle buf pos dat) off) (\<lambda>n.
        if n \<noteq> BlockSize F then fail (Err (partially [] ''wrote at block offset '' n off))
        else deleteCow F fn off)))"

section \<open>Locks\<close>

datatype timed = NotYet | Cancelled string | Elapsed

definition TimedOut :: "'w fsys \<Rightarrow> int \<Rightarrow> int \<Rightarrow> ('w, timed) hmm" where
  "TimedOut F startTime maxTime = gbind (onDisk (k_ctxErr F)) (\<lambda>e. case e of
     Some c \<Rightarrow> ret (Cancelled c)
   | None \<Rightarrow> gbind (onDisk (k_Now F)) (\<lambda>t. ret (if t - startTime \<ge> maxTime then Elapsed else NotYet)))"

definition lockSectorRetryTimeoutDuration :: int where
  "lockSectorRetryTimeoutDuration = 3 * 60 * 1000000000"

definition LockFileRegionDuration :: int where
  "LockFileRegionDuration = 5 * 60 * 1000000000"

definition lockFailure :: "string \<Rightarrow> go_error" where
  "lockFailure name = Err (''LockAcquisitionFailure: '' @ name)"

text \<open>After an attempt without success: an end by cancellation or by time, otherwise a pause.\<close>

definition pauseOrGiveUp :: "'w fsys \<Rightarrow> string \<Rightarrow> int \<Rightarrow> ('w, unit) hmm" where
  "pauseOrGiveUp F name startTime = gbind (TimedOut F startTime lockSectorRetryTimeoutDuration) (\<lambda>t. case t of
     Cancelled c \<Rightarrow> fail (Err (name @ '' timed out: '' @ c))
   | Elapsed \<Rightarrow> fail (lockFailure name)
   | NotYet \<Rightarrow> onDisk (k_Sleep F))"

definition ownTid :: "'w fsys \<Rightarrow> ('w, uuid) hmm" where
  "ownTid F = gbind (reads hm_tid) (\<lambda>t. if t = NilUUID then onDisk (k_NewUUID F) else ret t)"

definition lockFileBlockRegion :: "'w fsys \<Rightarrow> file_dio \<Rightarrow> int \<Rightarrow> ('w, bool \<times> uuid \<times> lock_key) hmm" where
  "lockFileBlockRegion F d off = gbind (ownTid F) (\<lambda>tid. gbind (reads hm_base) (\<lambda>base.
     gbind (onDisk (k_DualLock F LockFileRegionDuration
        (CreateLockKeysForIDs [(hm_formatLockKey base (df_filename d) off, tid)]))) (\<lambda>(ok, owner, lk).
     gbind (aget lk 0) (\<lambda>l. ret (ok, owner, l)))))"

fun lockRegionLoop :: "'w fsys \<Rightarrow> nat \<Rightarrow> int \<Rightarrow> file_dio \<Rightarrow> int \<Rightarrow> ('w, lock_key) hmm" where
  "lockRegionLoop F 0 startTime d off = fail OutOfFuel"
| "lockRegionLoop F (Suc n) startTime d off = gbind (lockFileBlockRegion F d off) (\<lambda>(ok, owner, lk).
     if ok then ret lk
     else gseq (pauseOrGiveUp F ''lockFileBlockRegionWithRetry'' startTime) (lockRegionLoop F n startTime d off))"

definition lockFileBlockRegionWithRetry :: "'w fsys \<Rightarrow> file_dio \<Rightarrow> int \<Rightarrow> ('w, lock_key) hmm" where
  "lockFileBlockRegionWithRetry F d off = gbind (onDisk (k_Now F)) (\<lambda>startTime. gbind (reads hm_polls) (\<lambda>n.
     lockRegionLoop F n startTime d off))"

definition updateFileBlockRegion :: "'w fsys \<Rightarrow> file_dio \<Rightarrow> int \<Rightarrow> nat \<Rightarrow> bytes \<Rightarrow> ('w, unit) hmm" where
  "updateFileBlockRegion F d off pos dat = gbind (lockFileBlockRegionWithRetry F d off) (\<lambda>lk.
     deferred (gbind (readAndRestoreBlock F d off) (writeBlockRegionPayload F d off pos dat))
       (onDisk (k_Unlock F [lk])))"

fun updateFileRegion :: "'w fsys \<Rightarrow> file_region list \<Rightarrow> ('w, unit) hmm" where
  "updateFileRegion F [] = ret ()"
| "updateFileRegion F (r # rs) = gseq
     (updateFileBlockRegion F (fr_dio r) (fr_blockOffset r) (nat (fr_handleInBlockOffset r)) (Marshal (fr_handle r) []))
     (updateFileRegion F rs)"

fun markDeleteFileRegion :: "'w fsys \<Rightarrow> file_region list \<Rightarrow> ('w, unit) hmm" where
  "markDeleteFileRegion F [] = ret ()"
| "markDeleteFileRegion F (r # rs) = gseq
     (updateFileBlockRegion F (fr_dio r) (fr_blockOffset r) (nat (fr_handleInBlockOffset r)) (replicate HandleSizeInBytes 0))
     (markDeleteFileRegion F rs)"

end
