(* ===== verification/Reg_Hashmap.thy ===== *)
theory Reg_Hashmap
  imports Reg_Files
begin

text \<open>
  The registry's hash map on disk (\<open>fs/hashmap.go\<close>, \<open>fs/hashmap.fileregion.go\<close>, \<open>fs/registrymap.go\<close>): a
  handle is stored in the block that the high half of its ID selects, in the slot that the low half
  selects or in any other of the block, in the first segment file with room.
\<close>

section \<open>Finding the place of a handle\<close>

definition getBlockOffsetAndHandleInBlockOffset :: "'w fsys \<Rightarrow> int \<Rightarrow> uuid \<Rightarrow> int \<times> int" where
  "getBlockOffsetAndHandleInBlockOffset F m i = (case Split i of (high, low) \<Rightarrow>
     (sint ((high mod word_of_int m) * word_of_nat (BlockSize F)),
      sint ((low mod word_of_nat handlesPerBlock) * word_of_nat HandleSizeInBytes)))"

definition getSegmentFileSize :: "'w fsys \<Rightarrow> int \<Rightarrow> int" where
  "getSegmentFileSize F m = m * int (BlockSize F)"

definition segmentFilename :: "string \<Rightarrow> nat \<Rightarrow> string" where
  "segmentFilename filename i = pathBase filename @ ''-'' @ nat_str i @ ''.reg''"

definition segmentPath :: "string \<Rightarrow> string \<Rightarrow> nat \<Rightarrow> string" where
  "segmentPath base filename i = formatActiveFolderEntity base (filename @ ''/'' @ segmentFilename filename i)"

definition idNotFoundErr :: string where
  "idNotFoundErr = ''unable to find the item with id''"

definition setHandle :: "string \<Rightarrow> file_dio \<Rightarrow> ('w, unit) hmm" where
  "setHandle fn d = modify (\<lambda>s. s\<lparr>fileHandles := (fileHandles s)(fn \<mapsto> d)\<rparr>)"

definition newDio :: file_dio where
  "newDio = \<lparr>df_file = None, df_filename = []\<rparr>"

text \<open>
  A new segment file: under a lock, opened and brought to its full size. The open file is kept also when
  the last step fails (the caller looks at \<open>dio.file\<close>), so its state is returned beside the outcome.
\<close>

definition setupNewFile :: "'w fsys \<Rightarrow> bool \<Rightarrow> string \<Rightarrow> uuid \<Rightarrow> ('w, file_dio \<times> (string + file_region)) hmm" where
  "setupNewFile F forWriting fn i = gbind (reads hm_base) (\<lambda>base. gbind (onDisk (k_NewUUID F)) (\<lambda>u.
     gbind (attempt (onDisk (k_DualLock F (20 * 60 * 1000000000)
        (CreateLockKeys [(''infs_reg'' @ formatActiveFolderEntity base fn, u)])))) (\<lambda>r. case r of
       Inl e \<Rightarrow> ret (newDio, Inl e)
     | Inr (ok, _, lk) \<Rightarrow> if \<not> ok then ret (newDio, Inl (''can't acquire a lock to preallocate file '' @ fn))
       else gbind (attempt (dio_open F newDio fn (if forWriting then O_CREATE_RDWR else O_RDONLY))) (\<lambda>r. case r of
         Inl e \<Rightarrow> gseq (tolerate (onDisk (k_Unlock F lk))) (ret (newDio, Inl e))
       | Inr d \<Rightarrow> gbind (reads hashModValue) (\<lambda>m.
           gbind (attempt (onDisk (d_Truncate F fn (getSegmentFileSize F m)))) (\<lambda>r.
           gseq (tolerate (onDisk (k_Unlock F lk))) (ret (d, case r of
             Inl e \<Rightarrow> Inl e
           | Inr _ \<Rightarrow> (case getBlockOffsetAndHandleInBlockOffset F m i of (bo, ho) \<Rightarrow>
               Inr \<lparr>fr_dio = d, fr_blockOffset = bo, fr_handleInBlockOffset = ho, fr_handle = zeroHandle\<rparr>)))))))))"

text \<open>The open segment file, or at once the place in a new one.\<close>

definition fileSize :: "'w fsys \<Rightarrow> string \<Rightarrow> bool \<Rightarrow> ('w, int) hmm" where
  "fileSize F fn ex = (if ex then gbind (attempt (onDisk (o_Size F fn))) (\<lambda>r. ret (case r of Inl _ \<Rightarrow> 0 | Inr k \<Rightarrow> k)) else ret 0)"

definition createSegment :: "'w fsys \<Rightarrow> bool \<Rightarrow> string \<Rightarrow> string \<Rightarrow> uuid \<Rightarrow> ('w, file_region + file_dio) hmm" where
  "createSegment F forWriting fn name i = (if \<not> forWriting then fail (Err idNotFoundErr)
     else gbind (setupNewFile F forWriting fn i) (\<lambda>(d, r).
       gseq (if df_file d \<noteq> None then setHandle fn (d\<lparr>df_filename := name\<rparr>) else ret ())
       (case r of Inl e \<Rightarrow> fail (Err e) | Inr frd \<Rightarrow> ret (Inl (frd\<lparr>fr_dio := d\<lparr>df_filename := name\<rparr>\<rparr>)))))"

definition openExisting :: "'w fsys \<Rightarrow> string \<Rightarrow> string \<Rightarrow> ('w, file_region + file_dio) hmm" where
  "openExisting F fn name = gbind (reads hm_readWrite) (\<lambda>rw.
     gbind (dio_open F newDio fn (if rw then O_RDWR else O_RDONLY)) (\<lambda>d.
     gseq (setHandle fn (d\<lparr>df_filename := name\<rparr>)) (ret (Inr (d\<lparr>df_filename := name\<rparr>)))))"

definition openSegment :: "'w fsys \<Rightarrow> bool \<Rightarrow> string \<Rightarrow> uuid \<Rightarrow> nat \<Rightarrow> ('w, file_region + file_dio) hmm" where
  "openSegment F forWriting filename i n = gbind (reads hm_base) (\<lambda>base. gbind (reads fileHandles) (\<lambda>open.
     let fn = segmentPath base filename n in
     case open fn of Some d \<Rightarrow> ret (Inr d)
     | None \<Rightarrow> gbind (onDisk (o_Exists F fn)) (\<lambda>ex. gbind (fileSize F fn ex) (\<lambda>fs. gbind (reads hashModValue) (\<lambda>m.
         if \<not> ex \<or> fs < getSegmentFileSize F m then createSegment F forWriting fn (segmentFilename filename n) i
         else openExisting F fn (segmentFilename filename n))))))"

text \<open>
  One slot of a block, and what the search does with it: goes on, or ends with the place and the handle.
\<close>

definition slotAt :: "bytes \<Rightarrow> nat \<Rightarrow> go_error + bytes" where
  "slotAt buf k = (if k + HandleSizeInBytes \<le> length buf then Inr (take HandleSizeInBytes (drop k buf)) else Inl Panic)"

definition tryOneSlot :: "bool \<Rightarrow> uuid \<Rightarrow> bytes \<Rightarrow> nat \<Rightarrow> go_error + (nat \<times> handle) option" where
  "tryOneSlot forWriting i buf k = (case slotAt buf k of
     Inl e \<Rightarrow> Inl e
   | Inr hbuf \<Rightarrow> if isZeroData hbuf then Inr (if forWriting then Some (k, zeroHandle) else None)
       else (case UnmarshalLogicalID hbuf of
         Inl e \<Rightarrow> Inl e
       | Inr lid \<Rightarrow> if lid = i then map_sum id (\<lambda>h. Some (k, h)) (Unmarshal hbuf zeroHandle) else Inr None))"

fun scanSlots :: "bool \<Rightarrow> uuid \<Rightarrow> bytes \<Rightarrow> nat \<Rightarrow> nat list \<Rightarrow> go_error + (nat \<times> handle) option" where
  "scanSlots forWriting i buf ideal [] = Inr None"
| "scanSlots forWriting i buf ideal (k # ks) = (if k = ideal then scanSlots forWriting i buf ideal ks
     else (case tryOneSlot forWriting i buf k of
       Inr None \<Rightarrow> scanSlots forWriting i buf ideal ks
     | r \<Rightarrow> r))"

text \<open>The slot that the ID selects comes first, then the others in order.\<close>

definition slotOffsets :: "nat list" where
  "slotOffsets = map (\<lambda>k. k * HandleSizeInBytes) [0..<handlesPerBlock]"

definition searchBlock :: "bool \<Rightarrow> uuid \<Rightarrow> bytes \<Rightarrow> nat \<Rightarrow> go_error + (nat \<times> handle) option" where
  "searchBlock forWriting i buf ideal = (case tryOneSlot forWriting i buf ideal of
     Inr None \<Rightarrow> scanSlots forWriting i buf ideal slotOffsets
   | r \<Rightarrow> r)"

text \<open>The search in the handle's block of one segment file; \<open>None\<close> sends it to the next file.\<close>

definition searchSegment :: "'w fsys \<Rightarrow> bool \<Rightarrow> uuid \<Rightarrow> file_dio \<Rightarrow> ('w, file_region option) hmm" where
  "searchSegment F forWriting i d = gbind (reads hashModValue) (\<lambda>m.
     case getBlockOffsetAndHandleInBlockOffset F m i of (bo, ho) \<Rightarrow>
     let place = (\<lambda>k h. \<lparr>fr_dio = d, fr_blockOffset = bo, fr_handleInBlockOffset = k, fr_handle = h\<rparr>) in
     gbind (attempt (readAndRestoreBlock F d bo)) (\<lambda>b. case b of
       Inl e \<Rightarrow> if isEOF e then ret (if forWriting then Some (place ho zeroHandle) else None) else fail (Err e)
     | Inr buf \<Rightarrow> gbind (lift_res (searchBlock forWriting i buf (nat ho))) (\<lambda>f.
         ret (map_option (\<lambda>(k, h). place (int k) h) f))))"

text \<open>The walk over the segment files, from number \<open>n\<close> on; it ends at the thousandth.\<close>

function findFrom :: "'w fsys \<Rightarrow> bool \<Rightarrow> string \<Rightarrow> uuid \<Rightarrow> nat \<Rightarrow> ('w, file_region) hmm" where
  "findFrom F forWriting filename i n = (if n > 1000
     then fail (Err ''reached the maximum count of segment files (1000), can't create another one'')
     else gbind (openSegment F forWriting filename i n) (\<lambda>r. case r of
       Inl frd \<Rightarrow> ret frd
     | Inr d \<Rightarrow> gbind (searchSegment F forWriting i d) (\<lambda>f. case f of
         Some frd \<Rightarrow> ret frd
       | None \<Rightarrow> findFrom F forWriting filename i (Suc n))))"
  by pat_completeness auto
termination
  by (relation "measure (\<lambda>(F, w, f, i, n). 1001 - n)") auto

declare findFrom.simps [simp del]

definition findOneFileRegion :: "'w fsys \<Rightarrow> bool \<Rightarrow> string \<Rightarrow> uuid \<Rightarrow> ('w, file_region) hmm" where
  "findOneFileRegion F forWriting filename i = findFrom F forWriting filename i 1"

fun hm_fetch :: "'w fsys \<Rightarrow> string \<Rightarrow> uuid list \<Rightarrow> ('w, handle list) hmm" where
  "hm_fetch F filename [] = ret []"
| "hm_fetch F filename (i # is) = gbind (attempt (findOneFileRegion F False filename i)) (\<lambda>r. case r of
     Inl e \<Rightarrow> if contains idNotFoundErr e then hm_fetch F filename is else fail (Err e)
   | Inr frd \<Rightarrow> if h_IsEmpty (fr_handle frd) then hm_fetch F filename is
       else gbind (hm_fetch F filename is) (\<lambda>hs. ret (fr_handle frd # hs)))"

fun findFileRegion :: "'w fsys \<Rightarrow> string \<Rightarrow> uuid list \<Rightarrow> ('w, file_region list) hmm" where
  "findFileRegion F filename [] = ret []"
| "findFileRegion F filename (i # is) = gbind (findOneFileRegion F True filename i) (\<lambda>r.
     gbind (findFileRegion F filename is) (\<lambda>rs. ret (r # rs)))"

text \<open>The files are closed in the order \<open>paths\<close> in which the run-time walks the map; the last error is returned.\<close>

fun closeAll :: "'w fsys \<Rightarrow> file_dio list \<Rightarrow> string option \<Rightarrow> ('w, string option) hmm" where
  "closeAll F [] lastError = ret lastError"
| "closeAll F (d # ds) lastError = gbind (attempt (dio_close F d)) (\<lambda>r.
     closeAll F ds (case r of Inl e \<Rightarrow> Some e | Inr _ \<Rightarrow> lastError))"

definition hm_close :: "'w fsys \<Rightarrow> string list \<Rightarrow> ('w, unit) hmm" where
  "hm_close F paths = gbind (reads fileHandles) (\<lambda>open.
     gbind (closeAll F (List.map_filter open paths) None) (\<lambda>e.
     gseq (modify (\<lambda>s. s\<lparr>fileHandles := Map.empty\<rparr>)) (case e of None \<Rightarrow> ret () | Some e \<Rightarrow> fail (Err e))))"

section \<open>Adding a handle\<close>

fun pollLock :: "'w fsys \<Rightarrow> nat \<Rightarrow> int \<Rightarrow> lock_key list \<Rightarrow> ('w, lock_key list) hmm" where
  "pollLock F 0 startTime lk = fail OutOfFuel"
| "pollLock F (Suc n) startTime lk = gbind (onDisk (k_DualLock F LockFileRegionDuration lk)) (\<lambda>(ok, owner, lk).
     if ok then ret lk
     else gseq (pauseOrGiveUp F ''findAndAdd lock acquisition'' startTime) (pollLock F n startTime lk))"

text \<open>
  A free place, locked when it is another than the selected one. A place that is taken by the handle's own
  ID is polled until the time is over.
\<close>

fun pollPlace :: "'w fsys \<Rightarrow> nat \<Rightarrow> int \<Rightarrow> string \<Rightarrow> uuid \<Rightarrow> uuid \<Rightarrow> ('w, file_region \<times> lock_key list) hmm" where
  "pollPlace F 0 startTime filename i tid = fail OutOfFuel"
| "pollPlace F (Suc n) startTime filename i tid = gbind (findOneFileRegion F True filename i) (\<lambda>frd.
     gbind (reads hm_base) (\<lambda>base. gbind (reads hashModValue) (\<lambda>m.
     let again = gseq (pauseOrGiveUp F ''findAndAdd lock acquisition'' startTime) (pollPlace F n startTime filename i tid) in
     if h_IsEmpty (fr_handle frd)
     then if (fr_blockOffset frd, fr_handleInBlockOffset frd) = getBlockOffsetAndHandleInBlockOffset F m i then ret (frd, [])
       else gbind (onDisk (k_DualLock F LockFileRegionDuration (CreateLockKeysForIDs
              [(hm_formatLockKey base filename (fr_blockOffset frd + fr_handleInBlockOffset frd), tid)]))) (\<lambda>(ok, owner, lk).
            if ok then ret (frd, lk) else again)
     else again)))"

definition findAndAdd :: "'w fsys \<Rightarrow> string \<Rightarrow> handle \<Rightarrow> ('w, unit) hmm" where
  "findAndAdd F filename h = (if filename = [] then fail (Err ''can't findAndAdd on empty filename'')
     else gbind (reads hashModValue) (\<lambda>m. gbind (reads hm_base) (\<lambda>base. gbind (reads hm_polls) (\<lambda>n.
     case getBlockOffsetAndHandleInBlockOffset F m (LogicalID h) of (bo, ho) \<Rightarrow>
     gbind (ownTid F) (\<lambda>tid. gbind (onDisk (k_Now F)) (\<lambda>startTime.
     gbind (pollLock F n startTime (CreateLockKeysForIDs [(hm_formatLockKey base filename (bo + ho), tid)])) (\<lambda>lk.
     deferred
       (gbind (onDisk (k_Now F)) (\<lambda>startTime.
        gbind (pollPlace F n startTime filename (LogicalID h) tid) (\<lambda>(frd, plk).
        deferred (updateFileBlockRegion F (fr_dio frd) (fr_blockOffset frd) (nat (fr_handleInBlockOffset frd)) (Marshal h []))
          (if plk = [] then ret () else onDisk (k_Unlock F plk)))))
       (onDisk (k_Unlock F lk)))))))))"

section \<open>The registry map\<close>

definition rm_add :: "'w fsys \<Rightarrow> handle registry_payload list \<Rightarrow> ('w, unit) hmm" where
  "rm_add F storesHandles = gfor storesHandles (\<lambda>p. gfor (rp_IDs p) (\<lambda>h.
     wrapErr ''registryMap.add failed, details: '' (findAndAdd F (rp_RegistryTable p) h)))"

fun replaceHandles :: "file_region list \<Rightarrow> handle list \<Rightarrow> go_error + file_region list" where
  "replaceHandles [] hs = Inr []"
| "replaceHandles (r # rs) hs = (case hs of [] \<Rightarrow> Inl Panic
   | h # hs \<Rightarrow> if \<not> h_IsEmpty (fr_handle r) \<and> LogicalID (fr_handle r) \<noteq> LogicalID h
       then Inl (Err ''registryMap.set failed, an item is different'')
       else map_sum id (Cons (r\<lparr>fr_handle := h\<rparr>)) (replaceHandles rs hs))"

definition rm_set :: "'w fsys \<Rightarrow> handle registry_payload list \<Rightarrow> ('w, unit) hmm" where
  "rm_set F storesHandles = gfor storesHandles (\<lambda>p.
     gbind (findFileRegion F (rp_RegistryTable p) (map LogicalID (rp_IDs p))) (\<lambda>frds.
     gbind (lift_res (replaceHandles frds (rp_IDs p))) (updateFileRegion F)))"

fun rm_fetch :: "'w fsys \<Rightarrow> uuid registry_payload list \<Rightarrow> ('w, handle registry_payload list) hmm" where
  "rm_fetch F [] = ret []"
| "rm_fetch F (k # ks) = gbind (wrapErr ''registryMap.fetch failed, details: '' (hm_fetch F (rp_RegistryTable k) (rp_IDs k))) (\<lambda>hs.
     gbind (rm_fetch F ks) (\<lambda>r. ret (\<lparr>rp_RegistryTable = rp_RegistryTable k, rp_BlobTable = [], rp_CacheDuration = 0,
       rp_IsCacheTTL = False, rp_IDs = hs\<rparr> # r)))"

fun checkPresent :: "file_region list \<Rightarrow> uuid list \<Rightarrow> go_error + unit" where
  "checkPresent [] is = Inr ()"
| "checkPresent (r # rs) is = (if h_IsEmpty (fr_handle r)
     then Inl (Err ''registryMap.remove failed, an item was not found, can't delete a missing item'')
     else (case is of [] \<Rightarrow> Inl Panic
       | i # is \<Rightarrow> if LogicalID (fr_handle r) \<noteq> i then Inl (Err ''registryMap.remove failed, an item is different'')
           else checkPresent rs is))"

definition rm_remove :: "'w fsys \<Rightarrow> uuid registry_payload list \<Rightarrow> ('w, unit) hmm" where
  "rm_remove F keys = gfor keys (\<lambda>k.
     gbind (findFileRegion F (rp_RegistryTable k) (rp_IDs k)) (\<lambda>frds.
     gseq (lift_res (checkPresent frds (rp_IDs k))) (markDeleteFileRegion F frds)))"

end
