(* ===== verification/Reg_Device.thy ===== *)
theory Reg_Device
  imports Reg_Hashmap
begin

text \<open>
  What the registry relies on in the operating system, the locks and the clock when nothing fails and
  nobody else holds a lock, as a locale, and what reading and changing a block do on top of it.
\<close>

section \<open>Total correctness of a computation\<close>

definition yields :: "('s, 'a) gom \<Rightarrow> 's \<Rightarrow> ('a \<Rightarrow> 's \<Rightarrow> bool) \<Rightarrow> bool" where
  "yields m s Q = (\<exists>r s'. m s = (Inr r, s') \<and> Q r s')"

named_theorems yields_simps "how the computations compose"

lemma yields_ret [yields_simps]: "yields (ret x) s Q \<longleftrightarrow> Q x s"
  by (simp add: yields_def ret_def)

lemma yields_bind [yields_simps]: "yields (gbind m f) s Q \<longleftrightarrow> yields m s (\<lambda>r s'. yields (f r) s' Q)"
  by (auto simp: yields_def gbind_def split: prod.splits sum.splits)

lemma yields_seq [yields_simps]: "yields (gseq m f) s Q \<longleftrightarrow> yields m s (\<lambda>r s'. yields f s' Q)"
  by (simp add: gseq_def yields_bind)

lemma yields_reads [yields_simps]: "yields (reads f) s Q \<longleftrightarrow> Q (f s) s"
  by (simp add: yields_def reads_def)

lemma yields_modify [yields_simps]: "yields (modify f) s Q \<longleftrightarrow> Q () (f s)"
  by (simp add: yields_def modify_def)

lemma yields_lift [yields_simps]: "yields (lift_res (Inr x)) s Q \<longleftrightarrow> Q x s"
  by (simp add: yields_def lift_res_def)

lemma yields_zoom [yields_simps]: "yields (zoom g p m) s Q \<longleftrightarrow> yields m (g s) (\<lambda>r t. Q r (p t s))"
  by (auto simp: yields_def zoom_def split: prod.splits)

lemma yields_aget [yields_simps]: "i < length xs \<Longrightarrow> yields (aget xs i) s Q \<longleftrightarrow> Q (xs ! i) s"
  by (simp add: yields_def aget_ok)

lemma yields_mono: "yields m s P \<Longrightarrow> (\<And>r s'. P r s' \<Longrightarrow> Q r s') \<Longrightarrow> yields m s Q"
  unfolding yields_def by blast

lemma yields_attempt: "yields m s P \<Longrightarrow> (\<And>r s'. P r s' \<Longrightarrow> Q (Inr r) s') \<Longrightarrow> yields (attempt m) s Q"
  unfolding yields_def attempt_def by fastforce

lemma yields_tolerate: "yields m s P \<Longrightarrow> (\<And>r s'. P r s' \<Longrightarrow> Q () s') \<Longrightarrow> yields (tolerate m) s Q"
  unfolding tolerate_def yields_simps by (erule yields_attempt) simp

lemma yields_wrapErr: "yields m s Q \<Longrightarrow> yields (wrapErr msg m) s Q"
  unfolding wrapErr_def yields_simps by (erule yields_attempt) (simp add: yields_simps)

lemma yields_deferred:
  "yields m s P \<Longrightarrow> (\<And>r s'. P r s' \<Longrightarrow> yields u s' (\<lambda>_ s''. Q r s'')) \<Longrightarrow> yields (deferred m u) s Q"
  unfolding deferred_def yields_simps
  by (erule yields_attempt) (auto simp: yields_simps intro: yields_tolerate)

section \<open>The contract\<close>

type_synonym blocks = "int \<Rightarrow> bytes"

definition validBlock :: "'w fsys \<Rightarrow> bytes \<Rightarrow> bool" where
  "validBlock F b = (length b = BlockSize F \<and> (\<exists>p. unmarshalData b = Inr p))"

text \<open>
  \<open>seg\<close> are the segment files of the full size \<open>cap\<close>; \<open>ok\<close> is what the implementation keeps. A block is
  addressed by its offset.
\<close>

locale registry_files =
  fixes F :: "'w fsys" and seg :: "'w \<Rightarrow> string \<Rightarrow> blocks option" and cap :: int and ok :: "'w \<Rightarrow> bool"
  assumes block_size: "handlesPerBlock * HandleSizeInBytes + 4 \<le> BlockSize F"
    and cap_pos: "0 < cap" "cap < 2 ^ 63" "int (BlockSize F) dvd cap"
    and exists: "ok w \<Longrightarrow> yields (o_Exists F fn) w (\<lambda>e w'. ok w' \<and> seg w' = seg w \<and> (seg w fn \<noteq> None \<longrightarrow> e) \<and>
      (e \<and> seg w fn = None \<longrightarrow> yields (attempt (o_Size F fn)) w' (\<lambda>r w''. ok w'' \<and> seg w'' = seg w \<and> (\<forall>k. r = Inr k \<longrightarrow> k < cap))))"
    and size: "ok w \<Longrightarrow> seg w fn \<noteq> None \<Longrightarrow> yields (o_Size F fn) w (\<lambda>k w'. ok w' \<and> seg w' = seg w \<and> cap \<le> k)"
    and opens: "ok w \<Longrightarrow> seg w fn \<noteq> None \<or> flag = O_CREATE_RDWR \<Longrightarrow> yields (d_Open F fn flag) w (\<lambda>_ w'. ok w' \<and> seg w' = seg w)"
    and truncate: "ok w \<Longrightarrow> seg w fn = None \<Longrightarrow>
      yields (d_Truncate F fn cap) w (\<lambda>_ w'. ok w' \<and> seg w' = (seg w)(fn \<mapsto> (\<lambda>_. replicate (BlockSize F) 0)))"
    and readAt: "ok w \<Longrightarrow> seg w fn = Some b \<Longrightarrow> 0 \<le> off \<Longrightarrow> off < cap \<Longrightarrow> int (BlockSize F) dvd off \<Longrightarrow>
      yields (d_ReadAt F fn off) w (\<lambda>r w'. ok w' \<and> seg w' = seg w \<and> r = b off)"
    and writeAt: "ok w \<Longrightarrow> seg w fn = Some b \<Longrightarrow> 0 \<le> off \<Longrightarrow> off < cap \<Longrightarrow> int (BlockSize F) dvd off \<Longrightarrow> length x = BlockSize F \<Longrightarrow>
      yields (d_WriteAt F fn x off) w (\<lambda>n w'. ok w' \<and> seg w' = (seg w)(fn \<mapsto> b(off := x)) \<and> n = BlockSize F)"
    and mkdir: "ok w \<Longrightarrow> yields (o_MkdirAll F p) w (\<lambda>_ w'. ok w' \<and> seg w' = seg w)"
    and writeFile: "ok w \<Longrightarrow> hasSuffix p ''.cow'' \<Longrightarrow> yields (o_WriteFile F p x) w (\<lambda>_ w'. ok w' \<and> seg w' = seg w)"
    and remove: "ok w \<Longrightarrow> hasSuffix p ''.cow'' \<Longrightarrow>
      yields (attempt (o_Remove F p)) w (\<lambda>r w'. ok w' \<and> seg w' = seg w \<and> (\<forall>e. r = Inl e \<longrightarrow> o_IsNotExist F e))"
    and dualLock: "ok w \<Longrightarrow> yields (k_DualLock F d ks) w (\<lambda>(got, _, ks') w'. ok w' \<and> seg w' = seg w \<and> got \<and> length ks' = length ks)"
    and unlock: "ok w \<Longrightarrow> yields (k_Unlock F ks) w (\<lambda>_ w'. ok w' \<and> seg w' = seg w)"
    and newUUID: "ok w \<Longrightarrow> yields (k_NewUUID F) w (\<lambda>_ w'. ok w' \<and> seg w' = seg w)"
    and now: "ok w \<Longrightarrow> yields (k_Now F) w (\<lambda>_ w'. ok w' \<and> seg w' = seg w)"
begin

text \<open>The state of the hash map that the rest of this theory lives in, and that a step leaves it alone.\<close>

definition good :: "'w hashmap \<Rightarrow> bool" where
  "good s = (ok (hm_world s) \<and> getSegmentFileSize F (hashModValue s) = cap \<and> 0 < hm_polls s \<and>
     (\<forall>fn d. fileHandles s fn = Some d \<longrightarrow> df_file d = Some fn \<and> seg (hm_world s) fn \<noteq> None) \<and>
     (\<forall>fn b off. seg (hm_world s) fn = Some b \<longrightarrow> validBlock F (b off)))"

definition same :: "'w hashmap \<Rightarrow> 'w hashmap \<Rightarrow> bool" where
  "same s s' = (good s' \<and> seg (hm_world s') = seg (hm_world s) \<and> hashModValue s' = hashModValue s \<and>
     hm_base s' = hm_base s \<and> hm_polls s' = hm_polls s)"

lemma same_refl: "good s \<Longrightarrow> same s s"
  by (simp add: same_def)

lemma same_trans: "same s s' \<Longrightarrow> same s' s'' \<Longrightarrow> same s s''"
  by (simp add: same_def)

lemma same_good: "same s s' \<Longrightarrow> good s'"
  by (simp add: same_def)

lemma good_ok: "good s \<Longrightarrow> ok (hm_world s)"
  by (simp add: good_def)

text \<open>An operation of the device that leaves the segment files alone leaves the hash map's state alone.\<close>

lemma same_world: "good s \<Longrightarrow> ok w \<Longrightarrow> seg w = seg (hm_world s) \<Longrightarrow> same s (s\<lparr>hm_world := w\<rparr>)"
  by (auto simp: same_def good_def)

definition keeps :: "('w, 'a) hmm \<Rightarrow> 'w hashmap \<Rightarrow> ('a \<Rightarrow> bool) \<Rightarrow> bool" where
  "keeps m s P = yields m s (\<lambda>r s'. same s s' \<and> P r)"

lemma keeps_ret: "good s \<Longrightarrow> P x \<Longrightarrow> keeps (ret x) s P"
  by (simp add: keeps_def yields_simps same_refl)

lemma keeps_mono: "keeps m s P \<Longrightarrow> (\<And>r. P r \<Longrightarrow> Q r) \<Longrightarrow> keeps m s Q"
  unfolding keeps_def by (erule yields_mono) blast

lemma keeps_bind:
  assumes "keeps m s P" "\<And>r s'. same s s' \<Longrightarrow> P r \<Longrightarrow> keeps (f r) s' Q"
  shows "keeps (gbind m f) s Q"
  using assms(1) unfolding keeps_def yields_bind
proof (rule yields_mono)
  fix r s' assume r: "same s s' \<and> P r"
  then have "yields (f r) s' (\<lambda>r t. same s' t \<and> Q r)" using assms(2) by (simp add: keeps_def)
  then show "yields (f r) s' (\<lambda>r t. same s t \<and> Q r)" by (rule yields_mono) (use r in \<open>blast intro: same_trans\<close>)
qed

lemma keeps_seq: "keeps m s P \<Longrightarrow> (\<And>s'. same s s' \<Longrightarrow> keeps f s' Q) \<Longrightarrow> keeps (gseq m f) s Q"
  unfolding gseq_def by (rule keeps_bind)

lemma keeps_reads_bind: "keeps (f (g s)) s Q \<Longrightarrow> keeps (gbind (reads g) f) s Q"
  by (simp add: keeps_def yields_simps)

lemma keeps_disk:
  assumes "good s" "yields m (hm_world s) (\<lambda>r w'. ok w' \<and> seg w' = seg (hm_world s) \<and> P r)"
  shows "keeps (onDisk m) s P"
  using assms(2) unfolding keeps_def yields_zoom by (rule yields_mono) (auto intro: same_world [OF assms(1)])

lemma keeps_attempt: "keeps m s P \<Longrightarrow> keeps (attempt m) s (\<lambda>r. \<exists>x. r = Inr x \<and> P x)"
  unfolding keeps_def by (erule yields_attempt) blast

lemma keeps_tolerate: "keeps m s P \<Longrightarrow> keeps (tolerate m) s (\<lambda>_. True)"
  unfolding keeps_def by (erule yields_tolerate) blast

lemma attempt_disk: "attempt (onDisk m) = onDisk (attempt m)"
  by (rule ext) (auto simp: attempt_def zoom_def split: prod.splits sum.splits go_error.splits)

text \<open>The operations that leave the segment files alone.\<close>

lemma keeps_Exists: "good s \<Longrightarrow> keeps (onDisk (o_Exists F p)) s (\<lambda>e. seg (hm_world s) p \<noteq> None \<longrightarrow> e)"
  using exists [of "hm_world s" p] by (intro keeps_disk) (auto simp: good_ok elim: yields_mono)

lemma keeps_NewUUID: "good s \<Longrightarrow> keeps (onDisk (k_NewUUID F)) s (\<lambda>_. True)"
  using newUUID [of "hm_world s"] by (intro keeps_disk) (auto simp: good_ok elim: yields_mono)

lemma keeps_Now: "good s \<Longrightarrow> keeps (onDisk (k_Now F)) s (\<lambda>_. True)"
  using now [of "hm_world s"] by (intro keeps_disk) (auto simp: good_ok elim: yields_mono)

lemma keeps_Unlock: "good s \<Longrightarrow> keeps (onDisk (k_Unlock F ks)) s (\<lambda>_. True)"
  using unlock [of "hm_world s" ks] by (intro keeps_disk) (auto simp: good_ok elim: yields_mono)

lemma keeps_DualLock: "good s \<Longrightarrow> keeps (onDisk (k_DualLock F d ks)) s (\<lambda>(got, _, ks'). got \<and> length ks' = length ks)"
  using dualLock [of "hm_world s" d ks] by (intro keeps_disk) (auto simp: good_ok elim!: yields_mono)

lemma cow_suffix: "hasSuffix (makeBlockCowPath base fn off) ''.cow''"
  by (simp add: makeBlockCowPath_def hasSuffix_def)

lemma keeps_deleteCow:
  assumes "good s"
  shows "keeps (deleteCow F fn off) s (\<lambda>_. True)"
  unfolding deleteCow_def attempt_disk
proof (rule keeps_reads_bind, rule keeps_bind)
  show "keeps (onDisk (attempt (o_Remove F (makeBlockCowPath (hm_base s) fn off)))) s (\<lambda>r. \<forall>e. r = Inl e \<longrightarrow> o_IsNotExist F e)"
    by (rule keeps_disk [OF assms remove [OF good_ok [OF assms] cow_suffix]])
qed (auto simp: keeps_def yields_simps same_refl same_good split: sum.splits)

lemma keeps_createCow:
  assumes "good s"
  shows "keeps (createCow F fn off x) s (\<lambda>_. True)"
proof -
  let ?cow = "makeBlockCowPath (hm_base s) fn off"
  have w: "keeps (attempt (onDisk (o_WriteFile F ?cow x))) t (\<lambda>r. \<exists>x. r = Inr x \<and> True)" if "good t" for t
    using writeFile [OF good_ok [OF that] cow_suffix] by (intro keeps_attempt keeps_disk [OF that]) simp
  have m: "keeps (attempt (onDisk (o_MkdirAll F p))) t (\<lambda>r. \<exists>x. r = Inr x \<and> True)" if "good t" for p t
    using mkdir [OF good_ok [OF that]] by (intro keeps_attempt keeps_disk [OF that]) simp
  show ?thesis unfolding createCow_def Let_def
    by (rule keeps_reads_bind, rule keeps_bind [OF keeps_Exists [OF assms]], rule keeps_seq [where P = "\<lambda>_. True"])
      (auto intro!: keeps_bind [OF w] keeps_bind [OF m] keeps_ret simp: same_good)
qed

lemma keeps_ownTid: "good s \<Longrightarrow> keeps (ownTid F) s (\<lambda>_. True)"
  unfolding ownTid_def by (rule keeps_reads_bind) (simp add: keeps_ret keeps_NewUUID)

lemma keeps_lockFileBlockRegion: "good s \<Longrightarrow> keeps (lockFileBlockRegion F d off) s (\<lambda>(got, _). got)"
  unfolding lockFileBlockRegion_def
  by (rule keeps_bind [OF keeps_ownTid], assumption, rule keeps_reads_bind, rule keeps_bind [OF keeps_DualLock])
    (auto simp: same_good CreateLockKeysForIDs_def CreateLockKeys_def keeps_def yields_simps same_refl)

lemma keeps_lockWithRetry: "good s \<Longrightarrow> keeps (lockFileBlockRegionWithRetry F d off) s (\<lambda>_. True)"
proof -
  have "keeps (lockRegionLoop F n t0 d off) t (\<lambda>_. True)" if "good t" "0 < n" for t n t0
    using that by (cases n) (auto intro!: keeps_bind [OF keeps_lockFileBlockRegion] keeps_ret simp: same_good)
  then show "good s \<Longrightarrow> ?thesis" unfolding lockFileBlockRegionWithRetry_def
    by (intro keeps_bind [OF keeps_Now] keeps_reads_bind) (auto simp: same_def good_def)
qed

section \<open>Reading and changing a block\<close>

definition inFile :: "int \<Rightarrow> bool" where
  "inFile off = (0 \<le> off \<and> off < cap \<and> int (BlockSize F) dvd off)"

lemma keeps_readBlock:
  assumes "good s" "df_file d = Some fn" "seg (hm_world s) fn = Some b" "inFile off"
  shows "keeps (readAndRestoreBlock F d off) s (\<lambda>r. r = b off)"
proof -
  have v: "validBlock F (b off)" using assms(1,3) by (simp add: good_def)
  have "keeps (dio_readAt F d off) s (\<lambda>r. r = b off)"
    unfolding dio_readAt_def assms(2) option.case
    using readAt [OF good_ok [OF assms(1)] assms(3)] assms(4) by (intro keeps_disk [OF assms(1)]) (simp add: inFile_def)
  then show ?thesis unfolding readAndRestoreBlock_def
    by (rule keeps_bind) (use v in \<open>auto simp: validBlock_def dio_Name_def assms(2) same_good
      intro!: keeps_seq [OF keeps_tolerate [OF keeps_deleteCow]] keeps_ret\<close>)
qed

text \<open>Only the one block is another afterwards.\<close>

definition wrote :: "'w hashmap \<Rightarrow> string \<Rightarrow> blocks \<Rightarrow> 'w hashmap \<Rightarrow> bool" where
  "wrote s fn b' s' = (good s' \<and> seg (hm_world s') = (seg (hm_world s))(fn \<mapsto> b') \<and> hashModValue s' = hashModValue s \<and>
     hm_base s' = hm_base s \<and> hm_polls s' = hm_polls s)"

lemma wrote_same: "same s t \<Longrightarrow> wrote t fn b' u \<Longrightarrow> same u s' \<Longrightarrow> wrote s fn b' s'"
  by (simp add: wrote_def same_def)

lemma mergeHandle_valid:
  assumes "length buf = BlockSize F" "pos + HandleSizeInBytes \<le> length buf"
  shows "validBlock F (mergeHandle buf pos dat)"
proof -
  define c where "c = take pos buf @ go_copy (take HandleSizeInBytes (drop pos buf)) dat @ drop (pos + HandleSizeInBytes) buf"
  have "length c = BlockSize F" using assms by (simp add: c_def)
  moreover have "4 \<le> BlockSize F" using block_size by simp
  ultimately have "length (marshalData (take (length c - 4) c) c) = BlockSize F" by (subst length_marshalData) simp_all
  then show ?thesis
    by (simp add: validBlock_def mergeHandle_def unmarshal_marshal flip: c_def)
qed

lemma writeBlock_run:
  assumes "good s" "df_file d = Some fn" "seg (hm_world s) fn = Some b" "inFile off" "pos + HandleSizeInBytes \<le> BlockSize F"
  shows "yields (writeBlockRegionPayload F d off pos dat (b off)) s (\<lambda>_ s'. wrote s fn (b(off := mergeHandle (b off) pos dat)) s')"
proof -
  have len: "length (b off) = BlockSize F" using assms(1,3) by (simp add: good_def validBlock_def)
  have vs: "validBlock F (b k)" for k using assms(1,3) by (simp add: good_def)
  let ?b = "b(off := mergeHandle (b off) pos dat)"
  have v: "validBlock F (mergeHandle (b off) pos dat)" using mergeHandle_valid len assms(5) by simp
  have del: "yields (deleteCow F fn off) u (\<lambda>_ s'. wrote s fn ?b s')" if "wrote s fn ?b u" for u
    using keeps_deleteCow [of u fn off] that unfolding keeps_def
    by (auto simp: wrote_def elim!: yields_mono) (auto simp: same_def)
  have wr: "yields (dio_writeAt F d (mergeHandle (b off) pos dat) off) t (\<lambda>n u. n = BlockSize F \<and> wrote s fn ?b u)"
    if t: "same s t" for t
  proof -
    have "good t" "seg (hm_world t) fn = Some b" using t assms(3) by (simp_all add: same_def)
    then have "yields (d_WriteAt F fn (mergeHandle (b off) pos dat) off) (hm_world t)
      (\<lambda>n w'. ok w' \<and> seg w' = (seg (hm_world t))(fn \<mapsto> ?b) \<and> n = BlockSize F)"
      using assms(4) v by (intro writeAt) (auto simp: good_ok inFile_def validBlock_def)
    then show ?thesis unfolding dio_writeAt_def assms(2) option.case yields_zoom
      by (rule yields_mono) (use t v vs in \<open>auto simp: wrote_def same_def good_def\<close>)
  qed
  show ?thesis
    unfolding writeBlockRegionPayload_def dio_Name_def assms(2) option.case gbind_ret yields_seq
  proof (rule yields_mono [OF keeps_createCow [OF assms(1), unfolded keeps_def]])
    fix r t assume "same s t \<and> True"
    then show "yields (if length (b off) < pos + HandleSizeInBytes then fail Panic
        else gbind (dio_writeAt F d (mergeHandle (b off) pos dat) off) (\<lambda>n. if n \<noteq> BlockSize F
          then fail (Err (partially [] ''wrote at block offset '' n off)) else deleteCow F fn off)) t (\<lambda>_ s'. wrote s fn ?b s')"
      using assms(5) len by (auto simp: yields_bind intro!: yields_mono [OF wr] del)
  qed
qed

lemma update_run:
  assumes "good s" "df_file d = Some fn" "seg (hm_world s) fn = Some b" "inFile off" "pos + HandleSizeInBytes \<le> BlockSize F"
  shows "yields (updateFileBlockRegion F d off pos dat) s (\<lambda>_ s'. wrote s fn (b(off := mergeHandle (b off) pos dat)) s')"
  unfolding updateFileBlockRegion_def yields_bind
proof (rule yields_mono [OF keeps_lockWithRetry [OF assms(1), unfolded keeps_def]])
  let ?W = "wrote s fn (b(off := mergeHandle (b off) pos dat))"
  fix lk t assume "same s t \<and> True"
  then have t: "same s t" "good t" "seg (hm_world t) fn = Some b" using assms(3) by (simp_all add: same_def)
  show "yields (deferred (gbind (readAndRestoreBlock F d off) (writeBlockRegionPayload F d off pos dat)) (onDisk (k_Unlock F [lk]))) t (\<lambda>_. ?W)"
  proof (rule yields_deferred)
    show "yields (gbind (readAndRestoreBlock F d off) (writeBlockRegionPayload F d off pos dat)) t (\<lambda>_. ?W)"
      unfolding yields_bind
    proof (rule yields_mono [OF keeps_readBlock [OF t(2) assms(2) t(3) assms(4), unfolded keeps_def]])
      fix r u assume "same t u \<and> r = b off"
      then have "r = b off" "same s u" using t(1) by (auto intro: same_trans)
      moreover from this have "yields (writeBlockRegionPayload F d off pos dat (b off)) u (\<lambda>_ s'. wrote u fn (b(off := mergeHandle (b off) pos dat)) s')"
        using assms by (intro writeBlock_run) (auto simp: same_def)
      ultimately show "yields (writeBlockRegionPayload F d off pos dat r) u (\<lambda>_. ?W)"
        by (auto elim!: yields_mono simp: same_def wrote_def)
    qed
  next
    fix r u assume u: "?W u"
    then have "good u" by (simp add: wrote_def)
    from keeps_Unlock [OF this, of "[lk]", unfolded keeps_def] show "yields (onDisk (k_Unlock F [lk])) u (\<lambda>_. ?W)"
      by (rule yields_mono) (use u in \<open>auto simp: wrote_def same_def\<close>)
  qed
qed

end

end
