(* ===== verification/Reg_Table.thy ===== *)
theory Reg_Table
  imports Reg_Device
begin

text \<open>
  What the segment files of a registry table hold: slots with handles, and the map from logical IDs to
  handles that a search through them computes.
\<close>

section \<open>Slots\<close>

fun firstSome :: "('a \<Rightarrow> 'b option) \<Rightarrow> 'a list \<Rightarrow> 'b option" where
  "firstSome f [] = None"
| "firstSome f (x # xs) = (case f x of None \<Rightarrow> firstSome f xs | Some y \<Rightarrow> Some y)"

lemma firstSome_cong [fundef_cong]: "xs = ys \<Longrightarrow> (\<And>x. x \<in> set ys \<Longrightarrow> f x = g x) \<Longrightarrow> firstSome f xs = firstSome g ys"
  by (induction ys arbitrary: xs) (auto split: option.splits)

lemma firstSome_None: "firstSome f xs = None \<longleftrightarrow> (\<forall>x\<in>set xs. f x = None)"
  by (induction xs) (auto split: option.splits)

lemma firstSome_only: "p \<in> set xs \<Longrightarrow> (\<And>x. x \<in> set xs \<Longrightarrow> x \<noteq> p \<Longrightarrow> f x = None) \<Longrightarrow> firstSome f xs = f p"
proof (induction xs)
  case (Cons a xs)
  show ?case
  proof (cases "p \<in> set xs")
    case True
    then have "firstSome f xs = f p" using Cons by auto
    then show ?thesis using Cons.prems(2) [of a] by (cases "a = p") (auto split: option.splits)
  next
    case False
    then have "firstSome f xs = None" using Cons.prems by (auto simp: firstSome_None)
    then show ?thesis using Cons.prems False by (auto split: option.splits)
  qed
qed simp

lemma firstSome_append: "firstSome f (xs @ ys) = (case firstSome f xs of None \<Rightarrow> firstSome f ys | r \<Rightarrow> r)"
  by (induction xs) (auto split: option.splits)

lemma firstSome_SomeD: "firstSome f xs = Some y \<Longrightarrow> \<exists>x\<in>set xs. f x = Some y"
  by (induction xs) (auto split: option.splits)

definition slotBytes :: "bytes \<Rightarrow> nat \<Rightarrow> bytes" where
  "slotBytes buf k = take HandleSizeInBytes (drop (k * HandleSizeInBytes) buf)"

definition slotHandle :: "bytes \<Rightarrow> nat \<Rightarrow> handle option" where
  "slotHandle buf k = (if isZeroData (slotBytes buf k) then None
     else (case Unmarshal (slotBytes buf k) zeroHandle of Inr h \<Rightarrow> Some h | Inl _ \<Rightarrow> None))"

definition hit :: "bool \<Rightarrow> uuid \<Rightarrow> bytes \<Rightarrow> nat \<Rightarrow> (nat \<times> handle) option" where
  "hit forWriting i buf k = (case slotHandle buf k of
     None \<Rightarrow> if forWriting then Some (k * HandleSizeInBytes, zeroHandle) else None
   | Some h \<Rightarrow> if LogicalID h = i then Some (k * HandleSizeInBytes, h) else None)"

definition probe :: "nat \<Rightarrow> nat list" where
  "probe k = k # filter (\<lambda>j. j \<noteq> k) [0..<handlesPerBlock]"

lemma Unmarshal_full: "length b = HandleSizeInBytes \<Longrightarrow> \<exists>h. Unmarshal b t = Inr h \<and> UnmarshalLogicalID b = Inr (LogicalID h)"
  by (auto simp: Unmarshal_def UnmarshalLogicalID_def decode_def exec_simps readUUID_cases readByte_cases readUint_cases HandleSizeInBytes_def)

definition roomy :: "bytes \<Rightarrow> bool" where
  "roomy buf = (handlesPerBlock * HandleSizeInBytes + 4 \<le> length buf)"

lemma slot_room: "roomy buf \<Longrightarrow> k < handlesPerBlock \<Longrightarrow> k * HandleSizeInBytes + HandleSizeInBytes + 4 \<le> length buf"
  by (auto simp: roomy_def handlesPerBlock_def HandleSizeInBytes_def)

lemma tryOneSlot_hit:
  assumes "roomy buf" "k < handlesPerBlock"
  shows "tryOneSlot fw i buf (k * HandleSizeInBytes) = Inr (hit fw i buf k)"
proof -
  have l: "length (slotBytes buf k) = HandleSizeInBytes" using slot_room [OF assms] by (simp add: slotBytes_def)
  from Unmarshal_full [OF l] obtain h where "Unmarshal (slotBytes buf k) zeroHandle = Inr h"
    "UnmarshalLogicalID (slotBytes buf k) = Inr (LogicalID h)" by blast
  moreover have "slotAt buf (k * HandleSizeInBytes) = Inr (slotBytes buf k)"
    using slot_room [OF assms] by (simp add: slotAt_def slotBytes_def)
  ultimately show ?thesis by (simp add: tryOneSlot_def hit_def slotHandle_def)
qed

lemma searchBlock_hits:
  assumes "roomy buf" "k < handlesPerBlock"
  shows "searchBlock fw i buf (k * HandleSizeInBytes) = Inr (firstSome (hit fw i buf) (probe k))"
proof -
  have "scanSlots fw i buf (k * HandleSizeInBytes) (map (\<lambda>j. j * HandleSizeInBytes) ks) =
      Inr (firstSome (hit fw i buf) (filter (\<lambda>j. j \<noteq> k) ks))" if "\<And>j. j \<in> set ks \<Longrightarrow> j < handlesPerBlock" for ks
    using that
  proof (induction ks)
    case (Cons j ks)
    have "j * HandleSizeInBytes = k * HandleSizeInBytes \<longleftrightarrow> j = k" by (simp add: HandleSizeInBytes_def)
    with Cons tryOneSlot_hit [OF assms(1), of j] show ?case by (auto split: option.splits)
  qed simp
  from this [of "[0..<handlesPerBlock]"] show ?thesis
    using tryOneSlot_hit [OF assms] by (auto simp: searchBlock_def probe_def slotOffsets_def split: option.splits)
qed

text \<open>Writing a handle changes its slot and no other.\<close>

lemma slotBytes_merge:
  assumes "roomy buf" "p < handlesPerBlock" "k < handlesPerBlock" "length dat = HandleSizeInBytes"
  shows "slotBytes (mergeHandle buf (p * HandleSizeInBytes) dat) k = (if k = p then dat else slotBytes buf k)"
proof -
  let ?n = HandleSizeInBytes
  define c where "c = take (p * ?n) buf @ go_copy (take ?n (drop (p * ?n) buf)) dat @ drop (p * ?n + ?n) buf"
  note rp = slot_room [OF assms(1,2)] and rk = slot_room [OF assms(1,3)]
  have c: "c = take (p * ?n) buf @ dat @ drop (p * ?n + ?n) buf" using rp assms(4) by (simp add: c_def go_copy_def)
  have lc: "length c = length buf" using rp assms(4) by (simp add: c)
  have "take ?n (drop (k * ?n) (marshalData (take (length c - 4) c) c)) = take ?n (drop (k * ?n) c)"
    using rk lc by (simp add: marshalData_eq Let_def take_drop min_def)
  moreover have "take ?n (drop (k * ?n) c) = (if k = p then dat else slotBytes buf k)"
  proof (rule nth_equalityI)
    fix x assume "x < length (take ?n (drop (k * ?n) c))"
    then have x: "x < ?n" by simp
    have kp: "k < p \<Longrightarrow> k * ?n + ?n \<le> p * ?n" "p < k \<Longrightarrow> p * ?n + ?n \<le> k * ?n"
      by (auto simp: HandleSizeInBytes_def)
    show "take ?n (drop (k * ?n) c) ! x = (if k = p then dat else slotBytes buf k) ! x"
      using x rp rk lc assms(4) kp
      by (cases k p rule: linorder_cases) (auto simp: c slotBytes_def nth_append)
  qed (use rk lc assms(4) in \<open>auto simp: slotBytes_def\<close>)
  ultimately show ?thesis by (simp add: slotBytes_def mergeHandle_def flip: c_def)
qed

lemma zero_UUID: "isZeroData b \<Longrightarrow> length b = HandleSizeInBytes \<Longrightarrow> UnmarshalLogicalID b = Inr NilUUID"
proof -
  assume "isZeroData b" "length b = HandleSizeInBytes"
  then have "b = replicate HandleSizeInBytes 0" using isZeroData_iff by metis
  moreover have "le_word (replicate n 0) = (0 :: uuid)" for n by (induction n) (simp_all add: le_word_def)
  ultimately show ?thesis by (simp add: UnmarshalLogicalID_def readUUID_cases HandleSizeInBytes_def)
qed

lemma Marshal_facts: "length (Marshal h []) = HandleSizeInBytes" "Unmarshal (Marshal h []) zeroHandle = Inr h"
  "UnmarshalLogicalID (Marshal h []) = Inr (LogicalID h)"
  using decode_encode [of zeroHandle h "[]"] readUUID_app [of "LogicalID h"]
  by (simp_all add: Marshal_def length_encode Unmarshal_def zeroHandle_def UnmarshalLogicalID_def) (simp add: encode_def)

lemma isZeroData_replicate [simp]: "isZeroData (replicate n 0)"
  by (simp add: isZeroData_def list_all_iff)

lemma slotHandle_merge:
  assumes "roomy buf" "p < handlesPerBlock" "k < handlesPerBlock" "LogicalID h \<noteq> NilUUID"
  shows "slotHandle (mergeHandle buf (p * HandleSizeInBytes) (Marshal h [])) k = (if k = p then Some h else slotHandle buf k)"
proof -
  have "\<not> isZeroData (Marshal h [])" using zero_UUID [of "Marshal h []"] Marshal_facts [of h] assms(4) by auto
  then show ?thesis
    using slotBytes_merge [OF assms(1-3) Marshal_facts(1)] by (cases "k = p") (auto simp: slotHandle_def Marshal_facts)
qed

lemma slotHandle_erase:
  assumes "roomy buf" "p < handlesPerBlock" "k < handlesPerBlock"
  shows "slotHandle (mergeHandle buf (p * HandleSizeInBytes) (replicate HandleSizeInBytes 0)) k = (if k = p then None else slotHandle buf k)"
  using slotBytes_merge [OF assms, of "replicate HandleSizeInBytes 0"] by (cases "k = p") (auto simp: slotHandle_def)

lemma slotHandle_zeros: "slotHandle (replicate n 0) k = None"
  by (simp add: slotHandle_def slotBytes_def)

section \<open>Names of segment files\<close>

lemma nat_str_last: "nat_str n = (if n < 10 then [] else nat_str (n div 10)) @ [char_of (n mod 10 + 48)]"
  by (subst nat_str.simps) simp

lemma nat_str_nonempty: "nat_str n \<noteq> []"
  by (subst nat_str.simps) simp

lemma digit_inj: "a < 10 \<Longrightarrow> b < 10 \<Longrightarrow> (char_of (a + 48) :: char) = char_of (b + 48) \<Longrightarrow> a = (b :: nat)"
proof -
  assume "a < 10" "b < 10" and eq: "(char_of (a + 48) :: char) = char_of (b + 48)"
  moreover have "(of_char (char_of (a + 48) :: char) :: nat) = of_char (char_of (b + 48) :: char)" by (simp only: eq)
  ultimately show "a = b" by simp
qed

lemma nat_str_inj: "nat_str m = nat_str n \<Longrightarrow> m = n"
proof (induction m arbitrary: n rule: nat_str.induct)
  case (1 m)
  have l: "m mod 10 = n mod 10"
    using "1.prems" by (intro digit_inj) (simp_all add: nat_str_last [of m] nat_str_last [of n])
  have r: "(if m < 10 then [] else nat_str (m div 10)) = (if n < 10 then [] else nat_str (n div 10))"
    using "1.prems" by (simp add: nat_str_last [of m] nat_str_last [of n])
  show ?case
  proof (cases "m < 10")
    case True
    then show ?thesis using l r nat_str_nonempty [of "n div 10"] by (auto split: if_splits)
  next
    case False
    then have "\<not> n < 10" "m div 10 = n div 10"
      using r nat_str_nonempty [of "m div 10"] "1.IH" by (auto split: if_splits)
    with l show ?thesis by (metis div_mult_mod_eq)
  qed
qed

lemma segmentPath_inj: "segmentPath base filename j = segmentPath base filename k \<Longrightarrow> j = k"
  by (auto simp: segmentPath_def segmentFilename_def formatActiveFolderEntity_def intro: nat_str_inj split: if_splits)

end
