(* ===== verification/Reg_Refine.thy ===== *)
theory Reg_Refine
  imports Reg_Table
begin

text \<open>
  The hash map on disk is a map: fetching returns what a search through the slots finds, and adding a
  handle adds exactly it, whether it goes to its own slot, to another one, or to a new segment file.
\<close>

lemma yields_attempt_bind:
  "yields m s P \<Longrightarrow> (\<And>r s'. P r s' \<Longrightarrow> yields (attempt (f r)) s' Q) \<Longrightarrow> yields (attempt (gbind m f)) s Q"
  unfolding yields_def attempt_def gbind_def by fastforce

lemma yields_attempt_fail: "Q (Inl e) s \<Longrightarrow> yields (attempt (fail (Err e))) s Q"
  by (simp add: yields_def attempt_def fail_def)

lemma yields_attempt_ret: "Q (Inr x) s \<Longrightarrow> yields (attempt (ret x)) s Q"
  by (simp add: yields_def attempt_def ret_def)

lemma yields_attempt_reads: "yields (attempt (f (g s))) s Q \<Longrightarrow> yields (attempt (gbind (reads g) f)) s Q"
  by (rule yields_attempt_bind [where P = "\<lambda>r t. r = g s \<and> t = s"]) (auto simp: yields_simps)

lemma sint_small: "uint (w :: 64 word) < 2 ^ 63 \<Longrightarrow> sint w = uint w"
proof -
  assume "uint w < 2 ^ 63"
  moreover have "- (2 ^ 63) \<le> uint w" by (rule order_trans [OF _ uint_ge_0]) simp
  ultimately show ?thesis by (subst sint_uint, subst signed_take_bit_int_eq_self) simp_all
qed

context registry_files
begin

section \<open>Where a handle belongs\<close>

definition blockOf :: "'w hashmap \<Rightarrow> uuid \<Rightarrow> int" where
  "blockOf s i = fst (getBlockOffsetAndHandleInBlockOffset F (hashModValue s) i)"

definition idealSlot :: "uuid \<Rightarrow> nat" where
  "idealSlot i = unat (snd (Split i) mod word_of_nat handlesPerBlock)"

lemma idealSlot_less: "idealSlot i < handlesPerBlock"
proof -
  have "unat (snd (Split i) mod word_of_nat handlesPerBlock) < unat (word_of_nat handlesPerBlock :: 64 word)"
    by (rule word_less_nat_alt [THEN iffD1], rule word_mod_less_divisor) (simp add: handlesPerBlock_def)
  then show ?thesis by (simp add: idealSlot_def handlesPerBlock_def)
qed

lemma place: "getBlockOffsetAndHandleInBlockOffset F (hashModValue s) i = (blockOf s i, int (idealSlot i * HandleSizeInBytes))"
proof -
  let ?lo = "snd (Split i) mod word_of_nat handlesPerBlock"
  have "sint (?lo * word_of_nat HandleSizeInBytes) = int (idealSlot i * HandleSizeInBytes)"
  proof -
    have "idealSlot i * HandleSizeInBytes < 2 ^ 63"
      using idealSlot_less [of i] by (simp add: handlesPerBlock_def HandleSizeInBytes_def)
    then have u: "unat (?lo * word_of_nat HandleSizeInBytes) = idealSlot i * HandleSizeInBytes"
      by (simp add: unat_word_ariths idealSlot_def HandleSizeInBytes_def)
    then have "unat (?lo * word_of_nat HandleSizeInBytes) < 2 ^ 63"
      using idealSlot_less [of i] by (simp add: handlesPerBlock_def HandleSizeInBytes_def)
    then show ?thesis using u by (subst sint_small) (simp_all add: uint_nat flip: of_nat_mult)
  qed
  then show ?thesis by (cases "Split i") (simp add: getBlockOffsetAndHandleInBlockOffset_def blockOf_def)
qed

lemma blockOf_inFile: "good s \<Longrightarrow> inFile (blockOf s i)"
proof -
  assume "good s"
  then have cap: "cap = hashModValue s * int (BlockSize F)" by (simp add: good_def getSegmentFileSize_def)
  let ?m = "hashModValue s" and ?B = "int (BlockSize F)"
  have B: "0 < ?B" using block_size by simp
  have m: "0 < ?m" using cap cap_pos(1) B by (simp add: zero_less_mult_iff)
  have "?m \<le> cap" using cap B m by simp
  then have mlt: "?m < 2 ^ 63" using cap_pos(2) by simp
  have Blt: "?B \<le> cap" using cap m B by simp
  let ?h = "uint (fst (Split i) mod word_of_int ?m)"
  have um: "uint (word_of_int ?m :: 64 word) = ?m" using m mlt by (simp add: uint_word_of_int)
  have h: "0 \<le> ?h" "?h < ?m" using m um by (simp_all add: uint_mod)
  have le: "?h * ?B < cap" using h B cap by simp
  have u: "uint ((fst (Split i) mod word_of_int ?m) * word_of_nat (BlockSize F)) = ?h * ?B"
  proof -
    have "uint (word_of_nat (BlockSize F) :: 64 word) = ?B" using Blt cap_pos(2) by (simp add: unsigned_of_nat take_bit_nat_eq_self_iff)
    then show ?thesis using h B le cap_pos(2) by (simp add: uint_word_ariths)
  qed
  have "blockOf s i = ?h * ?B"
    using u le cap_pos(2) by (cases "Split i") (simp add: blockOf_def getBlockOffsetAndHandleInBlockOffset_def sint_small)
  then show ?thesis using h B le by (simp add: inFile_def)
qed

lemma roomy_valid: "validBlock F b \<Longrightarrow> roomy b"
  using block_size by (simp add: validBlock_def roomy_def)

section \<open>The map\<close>

abbreviation path :: "'w hashmap \<Rightarrow> string \<Rightarrow> nat \<Rightarrow> string" where
  "path s filename k \<equiv> segmentPath (hm_base s) filename k"

definition blockAt :: "'w hashmap \<Rightarrow> string \<Rightarrow> uuid \<Rightarrow> nat \<Rightarrow> bytes option" where
  "blockAt s filename i k = map_option (\<lambda>b. b (blockOf s i)) (seg (hm_world s) (path s filename k))"

definition inSegment :: "'w hashmap \<Rightarrow> string \<Rightarrow> uuid \<Rightarrow> nat \<Rightarrow> handle option" where
  "inSegment s filename i k = (case blockAt s filename i k of None \<Rightarrow> None
     | Some buf \<Rightarrow> map_option snd (firstSome (hit False i buf) (probe (idealSlot i))))"

definition tableMap :: "'w hashmap \<Rightarrow> string \<Rightarrow> uuid \<rightharpoonup> handle" where
  "tableMap s filename i = firstSome (inSegment s filename i) [1..<1001]"

text \<open>The segment files are numbered from 1 to \<open>n\<close>.\<close>

definition table :: "'w hashmap \<Rightarrow> string \<Rightarrow> nat \<Rightarrow> bool" where
  "table s filename n = (good s \<and> (\<forall>k\<ge>1. seg (hm_world s) (path s filename k) \<noteq> None \<longleftrightarrow> k \<le> n))"

lemma table_seg: "table s filename n \<Longrightarrow> 1 \<le> k \<Longrightarrow> seg (hm_world s) (path s filename k) = None \<longleftrightarrow> n < k"
proof -
  assume "table s filename n" "1 \<le> k"
  then have "seg (hm_world s) (path s filename k) \<noteq> None \<longleftrightarrow> k \<le> n" unfolding table_def by blast
  then show ?thesis by auto
qed

lemma same_map: "same s s' \<Longrightarrow> tableMap s' = tableMap s"
  by (simp add: fun_eq_iff tableMap_def inSegment_def blockAt_def blockOf_def same_def cong: firstSome_cong)

lemma same_table: "same s s' \<Longrightarrow> table s filename n \<Longrightarrow> table s' filename n"
  by (simp add: table_def same_def)

section \<open>Fetching\<close>

lemma keeps_setHandle:
  assumes "good s" "df_file d = Some fn" "seg (hm_world s) fn \<noteq> None"
  shows "keeps (setHandle fn d) s (\<lambda>_. True)"
  using assms by (auto simp: keeps_def setHandle_def yields_simps same_def good_def)

lemma keeps_openExisting:
  assumes "good s" "seg (hm_world s) fn \<noteq> None"
  shows "keeps (openExisting F fn name) s (\<lambda>r. \<exists>d. r = Inr d \<and> df_file d = Some fn)"
proof -
  have "keeps (onDisk (d_Open F fn flag)) s (\<lambda>_. True)" for flag
    using opens [OF good_ok [OF assms(1)], of fn flag] assms(2) by (intro keeps_disk [OF assms(1)]) simp
  then have op: "keeps (dio_open F newDio fn flag) s (\<lambda>d. df_file d = Some fn)" for flag
    unfolding dio_open_def by (auto simp: newDio_def intro!: keeps_seq keeps_ret dest: same_good)
  show ?thesis unfolding openExisting_def
    by (intro keeps_reads_bind keeps_bind [OF op] keeps_seq [OF keeps_setHandle] keeps_ret) (use assms(2) in \<open>auto simp: same_def\<close>)
qed

lemma open_existing:
  assumes "good s" "seg (hm_world s) (path s filename k) \<noteq> None"
  shows "keeps (openSegment F fw filename i k) s (\<lambda>r. \<exists>d. r = Inr d \<and> df_file d = Some (path s filename k))"
proof (cases "fileHandles s (path s filename k)")
  case (Some d)
  then have "df_file d = Some (path s filename k)" using assms(1) by (auto simp: good_def)
  with Some show ?thesis unfolding openSegment_def
    by (intro keeps_reads_bind) (auto simp: Let_def intro!: keeps_ret assms(1))
next
  case None
  let ?fn = "path s filename k"
  have sz: "keeps (fileSize F ?fn True) t (\<lambda>x. cap \<le> x)" if "same s t" for t
  proof -
    have "keeps (attempt (onDisk (o_Size F ?fn))) t (\<lambda>r. \<exists>x. r = Inr x \<and> cap \<le> x)"
      using size [OF good_ok [OF same_good [OF that]], of ?fn] assms(2) that
      by (intro keeps_attempt keeps_disk [OF same_good [OF that]]) (simp add: same_def)
    then show ?thesis unfolding fileSize_def by (auto elim!: keeps_bind intro!: keeps_ret simp: same_good)
  qed
  show ?thesis unfolding openSegment_def
  proof (intro keeps_reads_bind, unfold Let_def None option.case, rule keeps_bind [OF keeps_Exists [OF assms(1)]])
    fix ex t assume t: "same s t" and "seg (hm_world s) ?fn \<noteq> None \<longrightarrow> ex"
    then have ex: "ex" using assms(2) by simp
    show "keeps (gbind (fileSize F ?fn ex) (\<lambda>fs. gbind (reads hashModValue) (\<lambda>m.
         if \<not> ex \<or> fs < getSegmentFileSize F m then createSegment F fw ?fn (segmentFilename filename k) i
         else openExisting F ?fn (segmentFilename filename k)))) t (\<lambda>r. \<exists>d. r = Inr d \<and> df_file d = Some ?fn)"
      using sz [OF t] ex unfolding eqTrueI [OF ex]
    proof (elim keeps_bind, intro keeps_reads_bind)
      fix fs u assume "same t u" "cap \<le> fs"
      moreover from this have "getSegmentFileSize F (hashModValue u) = cap" "good u" "seg (hm_world u) ?fn \<noteq> None"
        using t assms(2) by (auto simp: same_def good_def)
      ultimately show "keeps (if \<not> True \<or> fs < getSegmentFileSize F (hashModValue u) then createSegment F fw ?fn (segmentFilename filename k) i
         else openExisting F ?fn (segmentFilename filename k)) u (\<lambda>r. \<exists>d. r = Inr d \<and> df_file d = Some ?fn)"
        by (simp add: keeps_openExisting)
    qed
  qed
qed

lemma missing_size:
  assumes "good s" "seg (hm_world s) fn = None"
  shows "yields (onDisk (o_Exists F fn)) s (\<lambda>ex t. same s t \<and> yields (fileSize F fn ex) t (\<lambda>fs u. same s u \<and> (ex \<longrightarrow> fs < cap)))"
  unfolding yields_zoom
proof (rule yields_mono [OF exists [OF good_ok [OF assms(1)], of fn]])
  fix ex w let ?t = "s\<lparr>hm_world := w\<rparr>"
  assume a: "ok w \<and> seg w = seg (hm_world s) \<and> (seg (hm_world s) fn \<noteq> None \<longrightarrow> ex) \<and>
    (ex \<and> seg (hm_world s) fn = None \<longrightarrow> yields (attempt (o_Size F fn)) w
      (\<lambda>r w''. ok w'' \<and> seg w'' = seg (hm_world s) \<and> (\<forall>k. r = Inr k \<longrightarrow> k < cap)))"
  then have t: "same s ?t" using same_world [OF assms(1)] by blast
  have "yields (fileSize F fn ex) ?t (\<lambda>fs u. same s u \<and> (ex \<longrightarrow> fs < cap))"
  proof (cases ex)
    case True
    with a assms(2) have "yields (attempt (o_Size F fn)) w (\<lambda>r w''. ok w'' \<and> seg w'' = seg (hm_world s) \<and> (\<forall>k. r = Inr k \<longrightarrow> k < cap))"
      by blast
    then show ?thesis using True unfolding fileSize_def attempt_disk
      by (auto simp: yields_simps cap_pos(1) intro!: same_world [OF assms(1)] split: sum.splits elim!: yields_mono)
  qed (simp add: fileSize_def yields_simps t)
  with t show "same s ?t \<and> yields (fileSize F fn ex) ?t (\<lambda>fs u. same s u \<and> (ex \<longrightarrow> fs < cap))" by blast
qed

lemma missing_handle: "good s \<Longrightarrow> seg (hm_world s) fn = None \<Longrightarrow> fileHandles s fn = None"
  by (cases "fileHandles s fn") (fastforce simp: good_def)+

lemma good_size: "good s \<Longrightarrow> getSegmentFileSize F (hashModValue s) = cap"
  by (simp add: good_def)

lemma open_missing_read:
  assumes "good s" "seg (hm_world s) (path s filename k) = None"
  shows "yields (attempt (openSegment F False filename i k)) s (\<lambda>r s'. same s s' \<and> r = Inl idNotFoundErr)"
  unfolding openSegment_def
proof (intro yields_attempt_reads, unfold Let_def missing_handle [OF assms] option.case,
    rule yields_attempt_bind [OF missing_size [OF assms]], elim conjE, erule yields_attempt_bind, elim conjE, rule yields_attempt_reads)
  fix ex fs u assume u: "same s u" "ex \<longrightarrow> fs < cap"
  then have "\<not> ex \<or> fs < getSegmentFileSize F (hashModValue u)" using good_size [OF same_good] by auto
  then show "yields (attempt (if \<not> ex \<or> fs < getSegmentFileSize F (hashModValue u)
      then createSegment F False (path s filename k) (segmentFilename filename k) i
      else openExisting F (path s filename k) (segmentFilename filename k))) u (\<lambda>r s'. same s s' \<and> r = Inl idNotFoundErr)"
    using u by (simp add: createSegment_def yields_attempt_fail)
qed

lemma keeps_searchSegment:
  assumes "good s" "df_file d = Some fn" "seg (hm_world s) fn = Some b"
  shows "keeps (searchSegment F fw i d) s (\<lambda>r. r = map_option (\<lambda>(p, h). \<lparr>fr_dio = d, fr_blockOffset = blockOf s i,
    fr_handleInBlockOffset = int p, fr_handle = h\<rparr>) (firstSome (hit fw i (b (blockOf s i))) (probe (idealSlot i))))"
proof -
  have "roomy (b (blockOf s i))" using assms(1,3) roomy_valid by (simp add: good_def)
  note sb = searchBlock_hits [OF this idealSlot_less, of fw i i]
  show ?thesis unfolding searchSegment_def
    by (intro keeps_reads_bind, simp only: place prod.case Let_def,
      rule keeps_bind [OF keeps_attempt [OF keeps_readBlock [OF assms blockOf_inFile [OF assms(1)]]]])
      (auto simp: sb keeps_def yields_simps same_refl same_good simp flip: of_nat_mult)
qed

text \<open>The walk over the segment files for reading.\<close>

lemma find_read:
  assumes "table s filename n" "n < 1000" "1 \<le> k" "k \<le> Suc n"
  shows "yields (attempt (findFrom F False filename i k)) s (\<lambda>r s'. same s s' \<and>
    (case firstSome (inSegment s filename i) [k..<Suc n] of None \<Rightarrow> r = Inl idNotFoundErr
     | Some h \<Rightarrow> \<exists>frd. r = Inr frd \<and> fr_handle frd = h))"
  using assms
proof (induction "Suc n - k" arbitrary: s k)
  case 0
  then have k: "k = Suc n" by simp
  have "\<forall>k\<ge>1. seg (hm_world s) (path s filename k) \<noteq> None \<longleftrightarrow> k \<le> n" and "good s" using "0.prems" by (simp_all add: table_def)
  from this(1) [rule_format, OF "0.prems"(3)] k this(2) have "seg (hm_world s) (path s filename k) = None" "good s" by simp_all
  note o = open_missing_read [OF this(2,1), of i]
  show ?case unfolding findFrom.simps [of F False filename i k]
    using o \<open>n < 1000\<close> k by (auto simp: yields_def attempt_def gbind_def split: prod.splits sum.splits go_error.splits)
next
  case (Suc x)
  let ?fn = "path s filename k"
  have g: "good s" using Suc.prems(1) by (simp add: table_def)
  obtain b where b: "seg (hm_world s) ?fn = Some b" using Suc.prems Suc.hyps(2) by (fastforce simp: table_def)
  have v: "validBlock F (b off)" for off using g b by (simp add: good_def)
  have at: "blockAt s filename i k = Some (b (blockOf s i))" by (simp add: blockAt_def b)
  have up: "[k..<Suc n] = k # [Suc k..<Suc n]" using Suc.hyps(2) by (intro upt_conv_Cons) linarith
  have run: "yields (attempt (case f of Some frd \<Rightarrow> ret frd | None \<Rightarrow> findFrom F False filename i (Suc k))) u (\<lambda>r s'. same s s' \<and>
    (case firstSome (inSegment s filename i) [k..<Suc n] of None \<Rightarrow> r = Inl idNotFoundErr | Some h \<Rightarrow> \<exists>frd. r = Inr frd \<and> fr_handle frd = h))"
    if u: "same s u" and f: "map_option fr_handle f = inSegment s filename i k" for f u
  proof (cases f)
    case (Some frd)
    with f u up show ?thesis by (cases "inSegment s filename i k") (auto intro: yields_attempt_ret)
  next
    case None
    with f have "inSegment s filename i k = None" by simp
    then have fs: "firstSome (inSegment s filename i) [k..<Suc n] = firstSome (inSegment s filename i) [Suc k..<Suc n]" using up by simp
    have "inSegment u filename i = inSegment s filename i"
      using u by (simp add: fun_eq_iff inSegment_def blockAt_def blockOf_def same_def)
    then have "yields (attempt (findFrom F False filename i (Suc k))) u (\<lambda>r s'. same u s' \<and>
      (case firstSome (inSegment s filename i) [Suc k..<Suc n] of None \<Rightarrow> r = Inl idNotFoundErr | Some h \<Rightarrow> \<exists>frd. r = Inr frd \<and> fr_handle frd = h))"
      using Suc.hyps(1) [of "Suc k" u] Suc.hyps(2) Suc.prems same_table [OF u] by simp
    then show ?thesis unfolding None fs option.case by (rule yields_mono) (use u in \<open>blast intro: same_trans\<close>)
  qed
  have inS: "inSegment s filename i k = map_option snd (firstSome (hit False i (b (blockOf s i))) (probe (idealSlot i)))"
    by (simp add: inSegment_def at)
  have "\<not> 1000 < k" using Suc.prems by simp
  then show ?case unfolding findFrom.simps [of F False filename i k]
  proof (simp only: if_False, intro yields_attempt_bind [OF open_existing [OF g, unfolded keeps_def]], goal_cases)
    case 1
    then show ?case using b by simp
  next
    case (2 r t)
    then obtain d where t: "same s t" "r = Inr d" "df_file d = Some ?fn" by blast
    then have "good t" "seg (hm_world t) ?fn = Some b" "blockOf t i = blockOf s i" using b by (auto simp: same_def blockOf_def)
    note ss = keeps_searchSegment [OF this(1) t(3) this(2), of False i, unfolded keeps_def this(3)]
    show ?case unfolding t(2) sum.case
      by (rule yields_attempt_bind [OF ss]) (rule run, use t(1) in \<open>auto simp: inS option.map_comp comp_def case_prod_beta intro: same_trans\<close>)
  qed
qed

lemma tableMap_span:
  assumes "table s filename n" "n < 1000"
  shows "tableMap s filename i = firstSome (inSegment s filename i) [1..<Suc n]"
proof -
  have "inSegment s filename i k = None" if "Suc n \<le> k" for k
  proof -
    have "seg (hm_world s) (path s filename k) = None" using table_seg [OF assms(1), of k] that by simp
    then show ?thesis by (simp add: inSegment_def blockAt_def)
  qed
  then have "firstSome (inSegment s filename i) [Suc n..<1001] = None" by (auto simp: firstSome_None)
  moreover have "[1..<1001] = [1..<Suc n] @ [Suc n..<1001]" using assms(2) upt_add_eq_append [of 1 "Suc n" "1001 - Suc n"] by simp
  ultimately show ?thesis unfolding tableMap_def by (simp only: firstSome_append) (simp split: option.splits)
qed

lemma hit_id: "hit False i buf k = Some (p, h) \<Longrightarrow> LogicalID h = i"
  by (auto simp: hit_def split: option.splits if_splits)

lemma tableMap_id: "tableMap s filename i = Some h \<Longrightarrow> LogicalID h = i"
  by (auto simp: tableMap_def inSegment_def dest!: firstSome_SomeD split: option.splits dest: hit_id)

lemma fetch_run:
  assumes "table s filename n" "n < 1000" "NilUUID \<notin> set is"
  shows "keeps (hm_fetch F filename is) s (\<lambda>r. r = List.map_filter (tableMap s filename) is)"
  using assms
proof (induction "is" arbitrary: s)
  case (Cons i "is")
  note f = find_read [OF Cons.prems(1,2), of 1 i, folded tableMap_span [OF Cons.prems(1,2)]]
  have c: "contains idNotFoundErr idNotFoundErr" by (simp add: idNotFoundErr_def)
  show ?case unfolding hm_fetch.simps findOneFileRegion_def keeps_def yields_bind
  proof (rule yields_mono [OF f]; (elim conjE)?)
    fix r t assume t: "same s t" and r: "case tableMap s filename i of None \<Rightarrow> r = Inl idNotFoundErr | Some h \<Rightarrow> \<exists>frd. r = Inr frd \<and> fr_handle frd = h"
    have IH: "keeps (hm_fetch F filename is) t (\<lambda>r. r = List.map_filter (tableMap s filename) is)"
      using Cons.IH [OF same_table [OF t Cons.prems(1)]] Cons.prems same_map [OF t] by simp
    have "keeps (case r of Inl e \<Rightarrow> if contains idNotFoundErr e then hm_fetch F filename is else fail (Err e)
       | Inr frd \<Rightarrow> if h_IsEmpty (fr_handle frd) then hm_fetch F filename is
         else gbind (hm_fetch F filename is) (\<lambda>hs. ret (fr_handle frd # hs))) t
       (\<lambda>r. r = List.map_filter (tableMap s filename) (i # is))"
    proof (cases "tableMap s filename i")
      case None
      with r c IH show ?thesis by (simp add: map_filter_simps)
    next
      case (Some h)
      then have "\<not> h_IsEmpty h" using tableMap_id Cons.prems(3) by (fastforce simp: h_IsEmpty_def)
      with r Some show ?thesis by (auto simp: map_filter_simps same_good intro!: keeps_bind [OF IH] keeps_ret)
    qed
    then show "yields (case r of Inl e \<Rightarrow> if contains idNotFoundErr e then hm_fetch F filename is else fail (Err e)
       | Inr frd \<Rightarrow> if h_IsEmpty (fr_handle frd) then hm_fetch F filename is
         else gbind (hm_fetch F filename is) (\<lambda>hs. ret (fr_handle frd # hs))) t
       (\<lambda>r s'. same s s' \<and> r = List.map_filter (tableMap s filename) (i # is))"
      unfolding keeps_def by (rule yields_mono) (use t in \<open>blast intro: same_trans\<close>)
  qed (use Cons.prems in simp_all)
qed (simp add: keeps_def yields_simps same_refl map_filter_simps table_def)

section \<open>Adding\<close>

definition zeroBlocks :: blocks where
  "zeroBlocks = (\<lambda>_. replicate (BlockSize F) 0)"

lemma zero_valid: "validBlock F (replicate (BlockSize F) 0)"
  using block_size by (simp add: validBlock_def unmarshalData_def)

lemma setup_run:
  assumes "good s" "seg (hm_world s) fn = None"
  shows "yields (setupNewFile F True fn i) s (\<lambda>(d, r) s'. wrote s fn zeroBlocks s' \<and> df_file d = Some fn \<and>
    r = Inr \<lparr>fr_dio = d, fr_blockOffset = blockOf s i, fr_handleInBlockOffset = int (idealSlot i * HandleSizeInBytes), fr_handle = zeroHandle\<rparr>)"
proof -
  have op: "keeps (attempt (dio_open F newDio fn O_CREATE_RDWR)) t (\<lambda>r. \<exists>d. r = Inr d \<and> df_file d = Some fn)" if "good t" for t
  proof (rule keeps_attempt)
    have "keeps (onDisk (d_Open F fn O_CREATE_RDWR)) t (\<lambda>_. True)"
      using opens [OF good_ok [OF that], of fn] by (intro keeps_disk [OF that]) simp
    then show "keeps (dio_open F newDio fn O_CREATE_RDWR) t (\<lambda>d. df_file d = Some fn)"
      unfolding dio_open_def by (auto simp: newDio_def intro!: keeps_seq keeps_ret dest: same_good)
  qed
  have tr: "yields (attempt (onDisk (d_Truncate F fn (getSegmentFileSize F (hashModValue t))))) t (\<lambda>r u. r = Inr () \<and> wrote s fn zeroBlocks u)"
    if t: "same s t" for t
    unfolding good_size [OF same_good [OF t]]
  proof (rule yields_attempt)
    have "seg (hm_world t) fn = None" using t assms(2) by (simp add: same_def)
    from truncate [OF good_ok [OF same_good [OF t]] this]
    show "yields (onDisk (d_Truncate F fn cap)) t (\<lambda>_ u. wrote s fn zeroBlocks u)" unfolding yields_zoom
      by (rule yields_mono) (use t zero_valid in \<open>auto simp: wrote_def same_def good_def zeroBlocks_def\<close>)
  qed simp
  have ul: "yields (tolerate (onDisk (k_Unlock F lk))) u (\<lambda>_. wrote s fn zeroBlocks)" if "wrote s fn zeroBlocks u" for u lk
  proof -
    have "good u" using that by (simp add: wrote_def)
    from keeps_tolerate [OF keeps_Unlock [OF this, of lk], unfolded keeps_def] show ?thesis
      by (rule yields_mono) (use that in \<open>auto simp: wrote_def same_def\<close>)
  qed
  have rest: "yields (gbind (attempt (onDisk (d_Truncate F fn (getSegmentFileSize F (hashModValue t))))) (\<lambda>r.
         gseq (tolerate (onDisk (k_Unlock F lk))) (ret (d, case r of Inl e \<Rightarrow> Inl e
           | Inr _ \<Rightarrow> (case getBlockOffsetAndHandleInBlockOffset F (hashModValue t) i of (bo, ho) \<Rightarrow>
               Inr \<lparr>fr_dio = d, fr_blockOffset = bo, fr_handleInBlockOffset = ho, fr_handle = zeroHandle\<rparr>))))) t
      (\<lambda>(d, r) s'. wrote s fn zeroBlocks s' \<and> df_file d = Some fn \<and>
        r = Inr \<lparr>fr_dio = d, fr_blockOffset = blockOf s i, fr_handleInBlockOffset = int (idealSlot i * HandleSizeInBytes), fr_handle = zeroHandle\<rparr>)"
    if t: "same s t" "df_file d = Some fn" for t d lk
  proof -
    have h: "hashModValue t = hashModValue s" using t(1) by (simp add: same_def)
    show ?thesis unfolding yields_bind yields_seq
      by (rule yields_mono [OF tr [OF t(1)]], elim conjE, rule yields_mono [OF ul]) (auto simp: yields_simps h place t(2))
  qed
  show ?thesis unfolding setupNewFile_def yields_bind yields_reads
  proof (rule yields_mono [OF keeps_NewUUID [OF assms(1), unfolded keeps_def]],
      rule yields_mono [OF keeps_attempt [OF keeps_DualLock, unfolded keeps_def]], goal_cases)
    case (1 u t)
    then show ?case by (simp add: same_good)
  next
    case (2 u t r t')
    then obtain x lk where r: "r = Inr (True, x, lk)" and st: "same s t'" by (auto intro: same_trans)
    show ?case unfolding r sum.case prod.case
    proof (simp only: not_True_eq_False if_False if_True yields_bind,
        rule yields_mono [OF op [OF same_good [OF st], unfolded keeps_def]])
      fix q :: "string + file_dio" and v assume "same t' v \<and> (\<exists>d. q = Inr d \<and> df_file d = Some fn)"
      then obtain d where d: "q = Inr d" "df_file d = Some fn" and sv: "same s v" using st by (auto intro: same_trans)
      from rest [OF sv d(2), of lk] show "yields (case q of Inl e \<Rightarrow> gseq (tolerate (onDisk (k_Unlock F lk))) (ret (newDio, Inl e))
         | Inr d \<Rightarrow> gbind (reads hashModValue) (\<lambda>m. gbind (attempt (onDisk (d_Truncate F fn (getSegmentFileSize F m)))) (\<lambda>r.
             gseq (tolerate (onDisk (k_Unlock F lk))) (ret (d, case r of Inl e \<Rightarrow> Inl e
               | Inr _ \<Rightarrow> (case getBlockOffsetAndHandleInBlockOffset F m i of (bo, ho) \<Rightarrow>
                   Inr \<lparr>fr_dio = d, fr_blockOffset = bo, fr_handleInBlockOffset = ho, fr_handle = zeroHandle\<rparr>)))))) v
        (\<lambda>(d, r) s'. wrote s fn zeroBlocks s' \<and> df_file d = Some fn \<and>
          r = Inr \<lparr>fr_dio = d, fr_blockOffset = blockOf s i, fr_handleInBlockOffset = int (idealSlot i * HandleSizeInBytes), fr_handle = zeroHandle\<rparr>)"
        unfolding d(1) sum.case yields_bind yields_reads .
    qed
  qed
qed

lemma open_missing_write:
  assumes "good s" "seg (hm_world s) (path s filename k) = None"
  shows "yields (openSegment F True filename i k) s (\<lambda>r s'. wrote s (path s filename k) zeroBlocks s' \<and>
    (\<exists>d. df_file d = Some (path s filename k) \<and> r = Inl \<lparr>fr_dio = d, fr_blockOffset = blockOf s i,
       fr_handleInBlockOffset = int (idealSlot i * HandleSizeInBytes), fr_handle = zeroHandle\<rparr>))"
proof -
  let ?fn = "path s filename k"
  let ?Q = "\<lambda>r s'. wrote s ?fn zeroBlocks s' \<and>
    (\<exists>d. df_file d = Some ?fn \<and> r = Inl \<lparr>fr_dio = d, fr_blockOffset = blockOf s i,
       fr_handleInBlockOffset = int (idealSlot i * HandleSizeInBytes), fr_handle = zeroHandle\<rparr>)"
  have cr: "yields (createSegment F True ?fn name i) u ?Q" if u: "same s u" for u name
  proof -
    have g: "good u" "seg (hm_world u) ?fn = None" and b: "blockOf u i = blockOf s i" using u assms(2) by (simp_all add: same_def blockOf_def)
    show ?thesis unfolding createSegment_def not_True_eq_False if_False yields_bind
    proof (rule yields_mono [OF setup_run [OF g]], goal_cases)
      case (1 x v)
      obtain d r where x: "x = (d, r)" by (cases x)
      with 1 have w: "wrote u ?fn zeroBlocks v" "df_file d = Some ?fn"
        and r: "r = Inr \<lparr>fr_dio = d, fr_blockOffset = blockOf s i, fr_handleInBlockOffset = int (idealSlot i * HandleSizeInBytes), fr_handle = zeroHandle\<rparr>"
        by (simp_all add: b)
      have "wrote s ?fn zeroBlocks (v\<lparr>fileHandles := (fileHandles v)(?fn \<mapsto> d\<lparr>df_filename := name\<rparr>)\<rparr>)"
        using keeps_setHandle [of v "d\<lparr>df_filename := name\<rparr>" ?fn] w u
        by (simp add: keeps_def setHandle_def yields_simps wrote_def same_def)
      then show ?case using w(2) by (simp add: x r yields_simps setHandle_def)
    qed
  qed
  show ?thesis unfolding openSegment_def yields_bind yields_reads Let_def missing_handle [OF assms] option.case
  proof (rule yields_mono [OF missing_size [OF assms]], elim conjE, erule yields_mono, elim conjE)
    fix ex fs u assume u: "same s u" "ex \<longrightarrow> fs < cap"
    then have "\<not> ex \<or> fs < getSegmentFileSize F (hashModValue u)" using good_size [OF same_good] by auto
    with cr [OF u(1)] show "yields (if \<not> ex \<or> fs < getSegmentFileSize F (hashModValue u)
        then createSegment F True ?fn (segmentFilename filename k) i else openExisting F ?fn (segmentFilename filename k)) u ?Q" by simp
  qed
qed

text \<open>A free slot in the handle's block, in a segment file that was there or is new.\<close>

definition placed :: "'w hashmap \<Rightarrow> string \<Rightarrow> nat \<Rightarrow> uuid \<Rightarrow> file_region \<Rightarrow> 'w hashmap \<Rightarrow> bool" where
  "placed s filename n i frd s' = (\<exists>j b p. 1 \<le> j \<and> df_file (fr_dio frd) = Some (path s filename j) \<and>
     seg (hm_world s') (path s filename j) = Some b \<and> p < handlesPerBlock \<and> slotHandle (b (blockOf s i)) p = None \<and>
     fr_blockOffset frd = blockOf s i \<and> fr_handleInBlockOffset frd = int (p * HandleSizeInBytes) \<and> fr_handle frd = zeroHandle \<and>
     (same s s' \<and> j \<le> n \<or> wrote s (path s filename j) zeroBlocks s' \<and> j = Suc n))"

lemma probe_less: "k < handlesPerBlock \<Longrightarrow> j \<in> set (probe k) \<Longrightarrow> j < handlesPerBlock"
  by (auto simp: probe_def)

lemma free_slot:
  assumes "firstSome (hit False i buf) (probe k) = None" "k < handlesPerBlock" "firstSome (hit True i buf) (probe k) = Some (q, h)"
  shows "\<exists>p<handlesPerBlock. q = p * HandleSizeInBytes \<and> h = zeroHandle \<and> slotHandle buf p = None"
proof -
  from firstSome_SomeD [OF assms(3)] obtain p where p: "p \<in> set (probe k)" "hit True i buf p = Some (q, h)" by blast
  then have "hit False i buf p = None" using assms(1) by (simp add: firstSome_None)
  with p(2) have "q = p * HandleSizeInBytes \<and> h = zeroHandle \<and> slotHandle buf p = None"
    by (auto simp: hit_def split: option.splits if_splits)
  then show ?thesis using probe_less [OF assms(2) p(1)] by blast
qed

lemma find_write:
  assumes "table s filename n" "n < 1000" "1 \<le> k" "k \<le> Suc n" "\<And>j. 1 \<le> j \<Longrightarrow> j \<le> n \<Longrightarrow> inSegment s filename i j = None"
  shows "yields (findFrom F True filename i k) s (placed s filename n i)"
  using assms
proof (induction "Suc n - k" arbitrary: s k)
  case 0
  then have k: "k = Suc n" by simp
  then have g: "good s" "seg (hm_world s) (path s filename k) = None"
    using "0.prems" table_seg [OF "0.prems"(1), of k] by (simp_all add: table_def)
  have "\<not> 1000 < k" using k "0.prems"(2) by simp
  then show ?case unfolding findFrom.simps [of F True filename i k] yields_bind
  proof (simp only: if_False yields_bind, intro yields_mono [OF open_missing_write [OF g, of i]], goal_cases)
    case (1 r t)
    then obtain d where "df_file d = Some (path s filename k)" and r: "r = Inl \<lparr>fr_dio = d, fr_blockOffset = blockOf s i,
       fr_handleInBlockOffset = int (idealSlot i * HandleSizeInBytes), fr_handle = zeroHandle\<rparr>" by blast
    with 1 k show ?case unfolding r sum.case yields_ret placed_def
      by (intro exI [of _ k] exI [of _ zeroBlocks] exI [of _ "idealSlot i"])
        (simp add: idealSlot_less wrote_def zeroBlocks_def slotHandle_zeros)
  qed
next
  case (Suc x)
  let ?fn = "path s filename k"
  have kn: "k \<le> n" using Suc.hyps(2) by linarith
  have g: "good s" using Suc.prems(1) by (simp add: table_def)
  obtain b where b: "seg (hm_world s) ?fn = Some b" using table_seg [OF Suc.prems(1,3)] kn by fastforce
  have nohit: "firstSome (hit False i (b (blockOf s i))) (probe (idealSlot i)) = None"
    using Suc.prems(5) [OF Suc.prems(3) kn] by (simp add: inSegment_def blockAt_def b)
  have "\<not> 1000 < k" using Suc.prems(2) kn by simp
  then show ?case unfolding findFrom.simps [of F True filename i k]
  proof (simp only: if_False yields_bind, intro yields_mono [OF open_existing [OF g, unfolded keeps_def]], goal_cases)
    case 1
    then show ?case using b by simp
  next
    case (2 r t)
    then obtain d where t: "same s t" "r = Inr d" "df_file d = Some ?fn" by blast
    then have t': "good t" "seg (hm_world t) ?fn = Some b" "blockOf t i = blockOf s i" using b by (auto simp: same_def blockOf_def)
    show ?case unfolding t(2) sum.case yields_bind
    proof (rule yields_mono [OF keeps_searchSegment [OF t'(1) t(3) t'(2), of True i, unfolded keeps_def t'(3)]], elim conjE)
      fix f u assume u: "same t u" and f: "f = map_option (\<lambda>(p, h). \<lparr>fr_dio = d, fr_blockOffset = blockOf s i,
        fr_handleInBlockOffset = int p, fr_handle = h\<rparr>) (firstSome (hit True i (b (blockOf s i))) (probe (idealSlot i)))"
      have su: "same s u" using t(1) u by (rule same_trans)
      show "yields (case f of Some frd \<Rightarrow> ret frd | None \<Rightarrow> findFrom F True filename i (Suc k)) u (placed s filename n i)"
      proof (cases "firstSome (hit True i (b (blockOf s i))) (probe (idealSlot i))")
        case None
        have "inSegment u filename i = inSegment s filename i"
          using su by (simp add: fun_eq_iff inSegment_def blockAt_def blockOf_def same_def)
        then have "yields (findFrom F True filename i (Suc k)) u (placed u filename n i)"
          using Suc.hyps(1) [of "Suc k" u] Suc.hyps(2) Suc.prems same_table [OF su] by simp
        moreover have "placed u filename n i frd v \<Longrightarrow> placed s filename n i frd v" for frd v
          using su unfolding placed_def same_def wrote_def blockOf_def by auto
        ultimately show ?thesis unfolding f None by (auto elim!: yields_mono)
      next
        case (Some ph)
        obtain q h where ph: "ph = (q, h)" by (cases ph)
        from free_slot [OF nohit idealSlot_less] Some ph obtain p where "p < handlesPerBlock" "q = p * HandleSizeInBytes" "h = zeroHandle"
          "slotHandle (b (blockOf s i)) p = None" by blast
        with su kn b t(3) Suc.prems(3) have "placed s filename n i \<lparr>fr_dio = d, fr_blockOffset = blockOf s i,
            fr_handleInBlockOffset = int q, fr_handle = h\<rparr> u" unfolding placed_def
          by (intro exI [of _ k], intro exI [of _ b], intro exI [of _ p]) (simp add: same_def)
        then show ?thesis by (simp add: f Some ph yields_ret)
      qed
    qed
  qed
qed

text \<open>How the map changes with the files.\<close>

lemma new_segment_map:
  assumes "table s filename n" "wrote s (path s filename (Suc n)) zeroBlocks t"
  shows "table t filename (Suc n)" "tableMap t filename = tableMap s filename"
proof -
  have w: "good t" "seg (hm_world t) = (seg (hm_world s))(path s filename (Suc n) \<mapsto> zeroBlocks)" "hm_base t = hm_base s"
    "hashModValue t = hashModValue s" using assms(2) by (simp_all add: wrote_def)
  show "table t filename (Suc n)" unfolding table_def
  proof (intro conjI allI impI w(1))
    fix k :: nat assume k: "1 \<le> k"
    then have "seg (hm_world s) (path s filename k) = None \<longleftrightarrow> n < k" by (rule table_seg [OF assms(1)])
    then show "seg (hm_world t) (path t filename k) \<noteq> None \<longleftrightarrow> k \<le> Suc n"
      using segmentPath_inj [of "hm_base s" filename k "Suc n"] by (cases "k = Suc n") (auto simp: w(2,3))
  qed
  have "inSegment t filename i k = inSegment s filename i k" for i k
  proof (cases "k = Suc n")
    case True
    have "hit False i (replicate m 0) p = None" for m p by (simp add: hit_def slotHandle_zeros)
    then have "inSegment t filename i k = None" by (simp add: inSegment_def blockAt_def w True zeroBlocks_def firstSome_None)
    moreover have "inSegment s filename i k = None" using table_seg [OF assms(1), of k] True by (simp add: inSegment_def blockAt_def)
    ultimately show ?thesis by simp
  next
    case False
    then have "path s filename k \<noteq> path s filename (Suc n)" using segmentPath_inj by metis
    then show ?thesis by (simp add: inSegment_def blockAt_def blockOf_def w)
  qed
  then show "tableMap t filename = tableMap s filename" by (simp add: tableMap_def fun_eq_iff cong: firstSome_cong)
qed

lemma write_slot_map:
  assumes t: "table t filename n" "1 \<le> j" "j \<le> n" "n < 1000" "seg (hm_world t) (path t filename j) = Some b"
    and p: "p < handlesPerBlock" "slotHandle (b (blockOf t (LogicalID h))) p = None"
    and h: "LogicalID h \<noteq> NilUUID" "tableMap t filename (LogicalID h) = None"
    and w: "wrote t (path t filename j) (b(blockOf t (LogicalID h) :=
      mergeHandle (b (blockOf t (LogicalID h))) (p * HandleSizeInBytes) (Marshal h []))) u"
  shows "table u filename n" "tableMap u filename = (tableMap t filename)(LogicalID h \<mapsto> h)"
proof -
  let ?i = "LogicalID h" and ?off = "blockOf t (LogicalID h)"
  let ?m = "mergeHandle (b ?off) (p * HandleSizeInBytes) (Marshal h [])"
  have w': "good u" "seg (hm_world u) = (seg (hm_world t))(path t filename j \<mapsto> b(?off := ?m))" "hm_base u = hm_base t"
    "hashModValue u = hashModValue t" using w by (simp_all add: wrote_def)
  show "table u filename n" unfolding table_def
    using t(5) t(1) by (auto simp: w' table_def)
  have "roomy (b ?off)" using t(1,5) roomy_valid by (simp add: table_def good_def)
  note slots = slotHandle_merge [OF this p(1) _ h(1)]
  have hits: "hit False i ?m k = (if i = ?i \<and> k = p then Some (p * HandleSizeInBytes, h) else hit False i (b ?off) k)"
    if "k < handlesPerBlock" for i k using slots [OF that] p(2) by (auto simp: hit_def)
  have bu: "blockOf u i = blockOf t i" for i by (simp add: blockOf_def w')
  have at: "blockAt u filename i k = (if k = j \<and> blockOf t i = ?off then Some ?m else blockAt t filename i k)" for i k
    using segmentPath_inj [of "hm_base t" filename k j] t(5) by (auto simp: blockAt_def w' bu)
  have other: "inSegment u filename i k = inSegment t filename i k" if "i \<noteq> ?i \<or> k \<noteq> j" for i k
  proof (cases "k = j \<and> blockOf t i = ?off")
    case True
    with that have "firstSome (hit False i ?m) (probe (idealSlot i)) = firstSome (hit False i (b ?off)) (probe (idealSlot i))"
      using hits probe_less [OF idealSlot_less] by (intro firstSome_cong) auto
    then show ?thesis using True t(5) by (simp add: inSegment_def at) (simp add: blockAt_def)
  next
    case False
    then have "blockAt u filename i k = blockAt t filename i k" by (auto simp: at)
    then show ?thesis by (simp add: inSegment_def)
  qed
  have none: "inSegment t filename ?i k = None" if "k \<in> set [1..<1001]" for k
    using h(2) that unfolding tableMap_def firstSome_None by blast
  have js: "j \<in> set [1..<1001]" using t by simp
  have "firstSome (hit False ?i ?m) (probe (idealSlot ?i)) = hit False ?i ?m p"
  proof (rule firstSome_only)
    show "p \<in> set (probe (idealSlot ?i))" using p(1) by (simp add: probe_def)
  next
    fix k assume k: "k \<in> set (probe (idealSlot ?i))" "k \<noteq> p"
    have "firstSome (hit False ?i (b ?off)) (probe (idealSlot ?i)) = None"
      using none [OF js] t(5) by (simp add: inSegment_def blockAt_def)
    then show "hit False ?i ?m k = None" using k hits probe_less [OF idealSlot_less k(1)] by (simp add: firstSome_None)
  qed
  then have new: "inSegment u filename ?i j = Some h" using hits [OF p(1)] by (simp add: inSegment_def at)
  have "tableMap u filename ?i = Some h" unfolding tableMap_def
    using firstSome_only [OF js, of "inSegment u filename ?i"] other none new by metis
  moreover have "tableMap u filename i = tableMap t filename i" if "i \<noteq> ?i" for i
    unfolding tableMap_def using other that by (intro firstSome_cong) auto
  ultimately show "tableMap u filename = (tableMap t filename)(?i \<mapsto> h)" by auto
qed

lemma placed_write:
  assumes s: "table s filename n" "n < 999" "tableMap s filename (LogicalID h) = None" "LogicalID h \<noteq> NilUUID"
    and pl: "placed s filename n (LogicalID h) frd v" and vu: "same v u"
  shows "yields (updateFileBlockRegion F (fr_dio frd) (fr_blockOffset frd) (nat (fr_handleInBlockOffset frd)) (Marshal h [])) u
    (\<lambda>_ s'. (\<exists>n'\<le>Suc n. table s' filename n') \<and> tableMap s' filename = (tableMap s filename)(LogicalID h \<mapsto> h))"
proof -
  from pl obtain j b p where j: "1 \<le> j" "df_file (fr_dio frd) = Some (path s filename j)" "seg (hm_world v) (path s filename j) = Some b"
    and p: "p < handlesPerBlock" "slotHandle (b (blockOf s (LogicalID h))) p = None" "fr_blockOffset frd = blockOf s (LogicalID h)"
      "fr_handleInBlockOffset frd = int (p * HandleSizeInBytes)"
    and st: "same s v \<and> j \<le> n \<or> wrote s (path s filename j) zeroBlocks v \<and> j = Suc n"
    unfolding placed_def by blast
  from st obtain n' where n': "j \<le> n'" "n' \<le> Suc n" "table v filename n'" "tableMap v filename = tableMap s filename"
    using new_segment_map [OF s(1)] same_table [OF _ s(1)] same_map by (metis le_SucI order_refl)
  have sv: "hm_base v = hm_base s" "hashModValue v = hashModValue s" using st by (auto simp: same_def wrote_def)
  have u: "table u filename n'" "tableMap u filename = tableMap s filename" "hm_base u = hm_base s" "hashModValue u = hashModValue s"
    "seg (hm_world u) = seg (hm_world v)"
    using same_table [OF vu n'(3)] same_map [OF vu] n'(4) vu sv by (simp_all add: same_def)
  have bo: "blockOf u i = blockOf s i" for i using u(4) by (simp add: blockOf_def)
  have "roomy (b (blockOf u (LogicalID h)))" using u(1,5) j(3) roomy_valid by (auto simp: table_def good_def)
  from slot_room [OF this p(1)] have room: "p * HandleSizeInBytes + HandleSizeInBytes \<le> BlockSize F"
    using u(1,5) j(3) by (auto simp: table_def good_def validBlock_def)
  have gu: "good u" using u(1) by (simp add: table_def)
  note run = update_run [OF gu j(2) _ blockOf_inFile [OF gu, of "LogicalID h"] room, of b "Marshal h []"]
  show ?thesis unfolding p(3,4) nat_int bo [symmetric]
  proof (rule yields_mono [OF run], goal_cases)
    case 1
    then show ?case using j(3) u(5) by simp
  next
    case (2 _ w)
    have "table w filename n' \<and> tableMap w filename = (tableMap u filename)(LogicalID h \<mapsto> h)"
      using write_slot_map [OF u(1) j(1) n'(1) _ _ p(1) _ s(4), of b w] s(2,3) n'(2) j(3) u p(2) 2 by (simp add: bo)
    then show ?case using u(2) n'(2) by auto
  qed
qed

lemma keeps_pollLock: "good s \<Longrightarrow> 0 < n \<Longrightarrow> keeps (pollLock F n t0 lk) s (\<lambda>_. True)"
  by (cases n) (auto intro!: keeps_bind [OF keeps_DualLock] keeps_ret simp: same_good)

lemma placed_same: "placed s filename n i frd v \<Longrightarrow> same v u \<Longrightarrow> placed s filename n i frd u"
  unfolding placed_def same_def wrote_def by auto

lemma same_placed: "same s t \<Longrightarrow> placed t filename n i frd v \<Longrightarrow> placed s filename n i frd v"
  unfolding placed_def same_def wrote_def blockOf_def by auto

lemma pollPlace_run:
  assumes "table s filename n" "n < 1000" "0 < m" "tableMap s filename i = None"
  shows "yields (pollPlace F m t0 filename i tid) s (\<lambda>(frd, _) v. placed s filename n i frd v)"
proof -
  from assms(3) obtain m' where m: "m = Suc m'" by (cases m) auto
  have "inSegment s filename i j = None" if "1 \<le> j" "j \<le> n" for j
  proof -
    have "j \<in> set [1..<1001]" using that assms(2) by simp
    then show ?thesis using assms(4) unfolding tableMap_def firstSome_None by blast
  qed
  then have f: "yields (findFrom F True filename i 1) s (placed s filename n i)" by (intro find_write assms(1,2)) simp_all
  show ?thesis unfolding m pollPlace.simps findOneFileRegion_def yields_bind
  proof (rule yields_mono [OF f], goal_cases)
    case (1 frd v)
    then have e: "h_IsEmpty (fr_handle frd)" and g: "good v"
      by (auto simp: placed_def h_IsEmpty_def zeroHandle_def same_def wrote_def)
    show ?case
      using e 1 by (auto simp: yields_bind yields_reads yields_ret Let_def
        intro!: yields_mono [OF keeps_DualLock [OF g, unfolded keeps_def]] intro: placed_same)
  qed
qed

lemma add_run:
  assumes s: "table s filename n" "n < 999" "filename \<noteq> []" "LogicalID h \<noteq> NilUUID" "tableMap s filename (LogicalID h) = None"
  shows "yields (findAndAdd F filename h) s (\<lambda>_ s'. (\<exists>n'\<le>Suc n. table s' filename n') \<and>
    tableMap s' filename = (tableMap s filename)(LogicalID h \<mapsto> h))"
proof -
  let ?Q = "\<lambda>s'. (\<exists>n'\<le>Suc n. table s' filename n') \<and> tableMap s' filename = (tableMap s filename)(LogicalID h \<mapsto> h)"
  have g: "good s" using s(1) by (simp add: table_def)
  have unlock: "yields (if plk = [] then ret () else onDisk (k_Unlock F plk)) v (\<lambda>_. ?Q)" "yields (onDisk (k_Unlock F plk)) v (\<lambda>_. ?Q)"
    if "?Q v" for v plk
  proof -
    have "good v" using that by (auto simp: table_def)
    from keeps_Unlock [OF this, of plk, unfolded keeps_def] show u: "yields (onDisk (k_Unlock F plk)) v (\<lambda>_. ?Q)"
      by (rule yields_mono) (use that same_map same_table in \<open>metis (no_types, lifting)\<close>)
    then show "yields (if plk = [] then ret () else onDisk (k_Unlock F plk)) v (\<lambda>_. ?Q)" using that by (simp add: yields_ret)
  qed
  have body: "yields (gbind (onDisk (k_Now F)) (\<lambda>t0. gbind (pollPlace F m t0 filename (LogicalID h) tid) (\<lambda>(frd, plk).
        deferred (updateFileBlockRegion F (fr_dio frd) (fr_blockOffset frd) (nat (fr_handleInBlockOffset frd)) (Marshal h []))
          (if plk = [] then ret () else onDisk (k_Unlock F plk))))) t (\<lambda>_. ?Q)"
    if t: "same s t" and m: "0 < m" for t tid m
    unfolding yields_bind
  proof (rule yields_mono [OF keeps_Now [OF same_good [OF t], unfolded keeps_def]], elim conjE)
    fix t0 u assume "same t u"
    with t have u: "same s u" by (rule same_trans)
    show "yields (pollPlace F m t0 filename (LogicalID h) tid) u (\<lambda>r s'. yields (case r of (frd, plk) \<Rightarrow>
        deferred (updateFileBlockRegion F (fr_dio frd) (fr_blockOffset frd) (nat (fr_handleInBlockOffset frd)) (Marshal h []))
          (if plk = [] then ret () else onDisk (k_Unlock F plk))) s' (\<lambda>_. ?Q))"
    proof (rule yields_mono [OF pollPlace_run [OF same_table [OF u s(1)] _ m]], goal_cases)
      case (3 r v)
      obtain frd plk where r: "r = (frd, plk)" by (cases r)
      have pl: "placed s filename n (LogicalID h) frd v" using 3 same_placed [OF u] by (simp add: r)
      then have "same v v" by (auto simp: placed_def intro!: same_refl simp: same_def wrote_def)
      show ?case unfolding r prod.case
        by (rule yields_deferred [OF placed_write [OF s(1,2,5,4) pl \<open>same v v\<close>]]) (rule unlock)
    qed (use s same_map [OF u] in simp_all)
  qed
  have polls: "0 < hm_polls s" using g by (simp add: good_def)
  show ?thesis unfolding findAndAdd_def using s(3)
  proof (simp only: if_False yields_bind yields_reads place prod.case, intro yields_mono [OF keeps_ownTid [OF g, unfolded keeps_def]], goal_cases)
    case (1 tid t)
    then have t: "same s t" by blast
    show ?case
    proof (rule yields_mono [OF keeps_Now [OF same_good [OF t], unfolded keeps_def]], elim conjE,
        rule yields_mono [OF keeps_pollLock [unfolded keeps_def]], goal_cases)
      case (3 _ u _ v)
      then have "same s v" using t by (blast intro: same_trans)
      from body [OF this polls] show ?case by (rule yields_deferred) (rule unlock(2))
    qed (use polls same_good in auto)
  qed
qed

end

end
