(* ===== verification/Reg_Dev.thy ===== *)
theory Reg_Dev
  imports Reg_Refine
begin

text \<open>
  A device with segment files and plain files that may lose power: the write that is under way then leaves
  anything behind, and nothing happens after it. While it has power it fulfils the contract of
  \<open>registry_files\<close>; when the power fails during the change of a block, the next reader still finds either
  the old or the new block.
\<close>

section \<open>The device\<close>

text \<open>
  \<open>dv_power\<close> is the number of changes until the power is lost, the last of them unfinished; an unfinished
  write leaves \<open>dv_torn\<close> in a block and \<open>dv_tornFile\<close> in a file. While \<open>dv_busy\<close>, somebody else has every lock. \<open>dv_l2\<close> is the shared cache of handles. Creating a directory and removing a file happen or do not happen.
\<close>

record dev =
  dv_segs :: "string \<Rightarrow> blocks option"
  dv_files :: "string \<Rightarrow> bytes option"
  dv_dirs :: "string \<Rightarrow> bool"
  dv_power :: "nat option"
  dv_torn :: bytes
  dv_tornFile :: bytes
  dv_clock :: int
  dv_busy :: bool
  dv_l2 :: "uuid \<Rightarrow> handle option"

definition powered :: "(dev \<Rightarrow> dev) \<Rightarrow> (dev \<Rightarrow> dev) \<Rightarrow> 'a \<Rightarrow> (dev, 'a) gom" where
  "powered torn done x = (\<lambda>w. case dv_power w of
     None \<Rightarrow> (Inr x, done w)
   | Some 0 \<Rightarrow> (Inl (Err ''no power''), w)
   | Some (Suc 0) \<Rightarrow> (Inl (Err ''no power''), (torn w)\<lparr>dv_power := Some 0\<rparr>)
   | Some (Suc n) \<Rightarrow> (Inr x, (done w)\<lparr>dv_power := Some n\<rparr>))"

definition putBlock :: "string \<Rightarrow> int \<Rightarrow> bytes \<Rightarrow> dev \<Rightarrow> dev" where
  "putBlock fn off x w = w\<lparr>dv_segs := (dv_segs w)(fn := map_option (\<lambda>b. b(off := x)) (dv_segs w fn))\<rparr>"

definition putFile :: "string \<Rightarrow> bytes option \<Rightarrow> dev \<Rightarrow> dev" where
  "putFile p x w = w\<lparr>dv_files := (dv_files w)(p := x)\<rparr>"

definition dev_io :: "int \<Rightarrow> dev fsys" where
  "dev_io cap = \<lparr>BlockSize = 4096,
     d_Open = (\<lambda>fn flag w. if dv_segs w fn \<noteq> None \<or> flag = O_CREATE_RDWR then (Inr (), w) else (Inl (Err ''no such file or directory''), w)),
     d_ReadAt = (\<lambda>fn off w. case dv_segs w fn of None \<Rightarrow> (Inl (Err ''EOF''), w)
       | Some b \<Rightarrow> if 0 \<le> off \<and> off < cap then (Inr (b off), w) else (Inl (Err ''EOF''), w)),
     d_WriteAt = (\<lambda>fn x off w. powered (putBlock fn off (dv_torn w)) (putBlock fn off x) (length x) w),
     d_Close = (\<lambda>fn. ret ()),
     d_Truncate = (\<lambda>fn size. powered id (\<lambda>w. w\<lparr>dv_segs := (dv_segs w)(fn \<mapsto> (\<lambda>_. replicate 4096 0))\<rparr>) ()),
     o_Exists = (\<lambda>p. reads (\<lambda>w. dv_segs w p \<noteq> None \<or> dv_files w p \<noteq> None \<or> dv_dirs w p)),
     o_Size = (\<lambda>p. reads (\<lambda>w. if dv_segs w p \<noteq> None then cap else 0)),
     o_IsNotExist = (\<lambda>e. e = ''no such file or directory''),
     o_MkdirAll = (\<lambda>p. powered id (\<lambda>w. w\<lparr>dv_dirs := (dv_dirs w)(p := True)\<rparr>) ()),
     o_WriteFile = (\<lambda>p x w. powered (putFile p (Some (dv_tornFile w))) (putFile p (Some x)) () w),
     o_ReadFile = (\<lambda>p w. case dv_files w p of None \<Rightarrow> (Inl (Err ''no such file or directory''), w) | Some x \<Rightarrow> (Inr x, w)),
     o_Remove = (\<lambda>p w. if dv_files w p = None then (Inl (Err ''no such file or directory''), w) else powered id (putFile p None) () w),
     k_DualLock = (\<lambda>d ks. reads (\<lambda>w. (\<not> dv_busy w, NilUUID, ks))), k_Unlock = (\<lambda>ks. ret ()),
     k_NewUUID = ret 1, k_ctxErr = ret None, k_Now = reads dv_clock,
     k_Sleep = modify (\<lambda>w. w\<lparr>dv_clock := dv_clock w + 1\<rparr>)\<rparr>"

lemma powered_on: "dv_power w = None \<Longrightarrow> yields (powered torn done x) w (\<lambda>r w'. r = x \<and> w' = done w)"
  by (simp add: yields_def powered_def)

locale device =
  fixes cap :: int
  assumes cap: "0 < cap" "cap < 2 ^ 63" "4096 dvd cap"

sublocale device \<subseteq> registry_files "dev_io cap" dv_segs cap "\<lambda>w. dv_power w = None \<and> \<not> dv_busy w"
proof
  show "handlesPerBlock * HandleSizeInBytes + 4 \<le> BlockSize (dev_io cap)"
    by (simp add: dev_io_def handlesPerBlock_def HandleSizeInBytes_def)
  show "0 < cap" "cap < 2 ^ 63" "int (BlockSize (dev_io cap)) dvd cap" using cap by (simp_all add: dev_io_def)
  fix w :: dev assume w: "dv_power w = None \<and> \<not> dv_busy w"
  show "yields (o_Exists (dev_io cap) fn) w (\<lambda>e w'. (dv_power w' = None \<and> \<not> dv_busy w') \<and> dv_segs w' = dv_segs w \<and> (dv_segs w fn \<noteq> None \<longrightarrow> e) \<and>
      (e \<and> dv_segs w fn = None \<longrightarrow> yields (attempt (o_Size (dev_io cap) fn)) w'
        (\<lambda>r w''. (dv_power w'' = None \<and> \<not> dv_busy w'') \<and> dv_segs w'' = dv_segs w \<and> (\<forall>k. r = Inr k \<longrightarrow> k < cap))))" for fn
    using w cap by (auto simp: dev_io_def yields_def reads_def attempt_def)
  show "yields (d_Open (dev_io cap) fn flag) w (\<lambda>_ w'. (dv_power w' = None \<and> \<not> dv_busy w') \<and> dv_segs w' = dv_segs w)"
    if "dv_segs w fn \<noteq> None \<or> flag = O_CREATE_RDWR" for fn flag
    using w that by (simp add: dev_io_def yields_def)
  show "yields (o_Size (dev_io cap) fn) w (\<lambda>k w'. (dv_power w' = None \<and> \<not> dv_busy w') \<and> dv_segs w' = dv_segs w \<and> cap \<le> k)" if "dv_segs w fn \<noteq> None" for fn
    using w that by (simp add: dev_io_def yields_def reads_def)
  show "yields (d_Truncate (dev_io cap) fn cap) w (\<lambda>_ w'. (dv_power w' = None \<and> \<not> dv_busy w') \<and>
      dv_segs w' = (dv_segs w)(fn \<mapsto> (\<lambda>_. replicate (BlockSize (dev_io cap)) 0)))" for fn
    using w by (simp add: dev_io_def yields_def powered_def)
  show "yields (d_ReadAt (dev_io cap) fn off) w (\<lambda>r w'. (dv_power w' = None \<and> \<not> dv_busy w') \<and> dv_segs w' = dv_segs w \<and> r = b off)"
    if "dv_segs w fn = Some b" "0 \<le> off" "off < cap" for fn b off
    using w that by (simp add: dev_io_def yields_def)
  show "yields (d_WriteAt (dev_io cap) fn x off) w (\<lambda>n w'. (dv_power w' = None \<and> \<not> dv_busy w') \<and> dv_segs w' = (dv_segs w)(fn \<mapsto> b(off := x)) \<and> n = BlockSize (dev_io cap))"
    if "dv_segs w fn = Some b" "length x = BlockSize (dev_io cap)" for fn b off x
    using w that by (simp add: dev_io_def yields_def powered_def putBlock_def)
  show "yields (o_MkdirAll (dev_io cap) p) w (\<lambda>_ w'. (dv_power w' = None \<and> \<not> dv_busy w') \<and> dv_segs w' = dv_segs w)" for p
    using w by (simp add: dev_io_def yields_def powered_def)
  show "yields (o_WriteFile (dev_io cap) p x) w (\<lambda>_ w'. (dv_power w' = None \<and> \<not> dv_busy w') \<and> dv_segs w' = dv_segs w)" for p x
    using w by (simp add: dev_io_def yields_def powered_def putFile_def)
  show "yields (attempt (o_Remove (dev_io cap) p)) w (\<lambda>r w'. (dv_power w' = None \<and> \<not> dv_busy w') \<and> dv_segs w' = dv_segs w \<and> (\<forall>e. r = Inl e \<longrightarrow> o_IsNotExist (dev_io cap) e))" for p
    using w by (simp add: dev_io_def yields_def powered_def putFile_def attempt_def)
  show "yields (k_DualLock (dev_io cap) d ks) w (\<lambda>(got, _, ks') w'. (dv_power w' = None \<and> \<not> dv_busy w') \<and> dv_segs w' = dv_segs w \<and> got \<and> length ks' = length ks)" for d ks
    using w by (simp add: dev_io_def yields_simps)
  show "yields (k_Unlock (dev_io cap) ks) w (\<lambda>_ w'. (dv_power w' = None \<and> \<not> dv_busy w') \<and> dv_segs w' = dv_segs w)" for ks
    using w by (simp add: dev_io_def yields_simps)
  show "yields (k_NewUUID (dev_io cap)) w (\<lambda>_ w'. (dv_power w' = None \<and> \<not> dv_busy w') \<and> dv_segs w' = dv_segs w)"
    using w by (simp add: dev_io_def yields_simps)
  show "yields (k_Now (dev_io cap)) w (\<lambda>_ w'. (dv_power w' = None \<and> \<not> dv_busy w') \<and> dv_segs w' = dv_segs w)"
    using w by (simp add: dev_io_def yields_simps)
qed

interpretation dev4k: device 1024000
  by unfold_locales simp_all

section \<open>Loss of power\<close>

definition reboot :: "dev hashmap \<Rightarrow> dev hashmap" where
  "reboot s = s\<lparr>hm_world := (hm_world s)\<lparr>dv_power := None\<rparr>\<rparr>"

text \<open>What a change of the block at \<open>off\<close> does to the rest of the device: nothing.\<close>

abbreviation cowOf :: "dev hashmap \<Rightarrow> string \<Rightarrow> int \<Rightarrow> string" where
  "cowOf s fn off \<equiv> makeBlockCowPath (hm_base s) fn off"

definition blocksLike :: "dev hashmap \<Rightarrow> dev hashmap \<Rightarrow> bool" where
  "blocksLike s t = (dv_segs (hm_world t) = dv_segs (hm_world s) \<and> dv_torn (hm_world t) = dv_torn (hm_world s) \<and>
     hm_base t = hm_base s \<and> hm_polls t = hm_polls s \<and> hm_readWrite t = hm_readWrite s)"

lemma blocksLike_refl: "blocksLike s s"
  by (simp add: blocksLike_def)

lemma blocksLike_trans: "blocksLike s t \<Longrightarrow> blocksLike t u \<Longrightarrow> blocksLike s u"
  by (simp add: blocksLike_def)

lemma dev_deleteCow: "\<exists>r t. deleteCow (dev_io cap) fn off s = (r, t) \<and> blocksLike s t \<and> (r = Inr () \<or> (\<exists>e. r = Inl (Err e)))"
  by (simp add: deleteCow_def exec_simps dev_io_def powered_def putFile_def blocksLike_def sectorFailure_def
      split: option.splits nat.splits)

lemma dev_createCow: "\<exists>r t. createCow (dev_io cap) fn off x s = (r, t) \<and> blocksLike s t \<and>
    (r = Inr () \<and> dv_files (hm_world t) (cowOf s fn off) = Some x \<or> (\<exists>e. r = Inl (Err e)))"
  by (simp add: createCow_def exec_simps dev_io_def powered_def putFile_def blocksLike_def sectorFailure_def Let_def
      split: option.splits nat.splits)

lemma dev_write:
  assumes "df_file d = Some fn" "dv_segs (hm_world s) fn = Some b"
  shows "\<exists>r t. dio_writeAt (dev_io cap) d x off s = (r, t) \<and>
    (r = Inr (length x) \<and> dv_segs (hm_world t) = (dv_segs (hm_world s))(fn \<mapsto> b(off := x)) \<or>
     (\<exists>e. r = Inl (Err e)) \<and> blocksLike s t \<or>
     (\<exists>e. r = Inl (Err e)) \<and> dv_segs (hm_world t) = (dv_segs (hm_world s))(fn \<mapsto> b(off := dv_torn (hm_world s)))) \<and>
    dv_files (hm_world t) = dv_files (hm_world s) \<and> hm_base t = hm_base s \<and> hm_readWrite t = hm_readWrite s"
  using assms by (simp add: dio_writeAt_def exec_simps dev_io_def powered_def putBlock_def blocksLike_def
      split: option.splits nat.splits)

definition fine :: "bytes \<Rightarrow> bool" where
  "fine x = (length x = 4096 \<and> (\<exists>p. unmarshalData x = Inr p))"

lemma fine_valid: "fine x = validBlock (dev_io cap) x"
  by (simp add: fine_def validBlock_def dev_io_def)

lemma dev_lock:
  "0 < hm_polls s \<Longrightarrow> \<not> dv_busy (hm_world s) \<Longrightarrow> \<exists>lk. lockFileBlockRegionWithRetry (dev_io cap) d off s = (Inr lk, s)"
  by (cases "hm_polls s") (simp_all add: lockFileBlockRegionWithRetry_def lockFileBlockRegion_def ownTid_def exec_simps
      dev_io_def CreateLockKeysForIDs_def CreateLockKeys_def aget_def sget_def)

lemma dev_read:
  assumes "df_file d = Some fn" "dv_segs (hm_world s) fn = Some b" "0 \<le> off" "off < cap" "fine (b off)"
  shows "\<exists>t. readAndRestoreBlock (dev_io cap) d off s = (Inr (b off), t) \<and> blocksLike s t"
proof -
  obtain r t where "deleteCow (dev_io cap) fn off s = (r, t)" "blocksLike s t" "r = Inr () \<or> (\<exists>e. r = Inl (Err e))"
    using dev_deleteCow [of cap fn off s] by blast
  moreover have "dio_readAt (dev_io cap) d off s = (Inr (b off), s)"
    using assms by (simp add: dio_readAt_def exec_simps dev_io_def)
  moreover have "BlockSize (dev_io cap) = 4096" by (simp add: dev_io_def)
  ultimately show ?thesis using assms(1,5)
    by (auto simp: readAndRestoreBlock_def exec_simps fine_def dio_Name_def tolerate_def)
qed

lemma dev_writeRegion:
  assumes d: "df_file d = Some fn" "dv_segs (hm_world s) fn = Some b" and old: "length (b off) = 4096" "pos + HandleSizeInBytes \<le> 4096"
    and new: "length (mergeHandle (b off) pos dat) = 4096"
  shows "\<exists>r t x. writeBlockRegionPayload (dev_io cap) d off pos dat (b off) s = (r, t) \<and> hm_base t = hm_base s \<and> (r = Inr () \<or> (\<exists>e. r = Inl (Err e))) \<and>
    dv_segs (hm_world t) = (dv_segs (hm_world s))(fn \<mapsto> b(off := x)) \<and>
    (x = b off \<and> r \<noteq> Inr () \<or> x = mergeHandle (b off) pos dat \<or>
     x = dv_torn (hm_world s) \<and> r \<noteq> Inr () \<and> dv_files (hm_world t) (cowOf s fn off) = Some (b off))"
proof -
  have bs: "BlockSize (dev_io cap) = 4096" by (simp add: dev_io_def)
  obtain r1 t1 where c: "createCow (dev_io cap) fn off (b off) s = (r1, t1)" "blocksLike s t1"
    and r1: "r1 = Inr () \<and> dv_files (hm_world t1) (cowOf s fn off) = Some (b off) \<or> (\<exists>e. r1 = Inl (Err e))"
    using dev_createCow [of cap fn off "b off" s] by blast
  have keep: "dv_segs (hm_world u) = (dv_segs (hm_world s))(fn \<mapsto> b(off := b off))" if "blocksLike s u" for u
    using that d(2) by (auto simp: blocksLike_def)
  note step = writeBlockRegionPayload_def dio_Name_def d(1) exec_simps c(1) bs
  show ?thesis
  proof (cases "r1 = Inr ()")
    case False
    with r1 obtain e where "r1 = Inl (Err e)" by blast
    then show ?thesis using keep [OF c(2)] c(2)
      by (intro exI [of _ "Inl (Err e)"] exI [of _ t1] exI [of _ "b off"]) (simp add: step blocksLike_def)
  next
    case True
    with r1 have f1: "dv_files (hm_world t1) (cowOf s fn off) = Some (b off)" by simp
    have s1: "dv_segs (hm_world t1) fn = Some b" "hm_base t1 = hm_base s" "dv_torn (hm_world t1) = dv_torn (hm_world s)"
      "dv_segs (hm_world t1) = dv_segs (hm_world s)" using c(2) d(2) by (simp_all add: blocksLike_def)
    let ?new = "mergeHandle (b off) pos dat"
    obtain r2 t2 where w: "dio_writeAt (dev_io cap) d ?new off t1 = (r2, t2)" "dv_files (hm_world t2) = dv_files (hm_world t1)"
      "hm_base t2 = hm_base t1" and r2: "r2 = Inr (length ?new) \<and> dv_segs (hm_world t2) = (dv_segs (hm_world t1))(fn \<mapsto> b(off := ?new)) \<or>
       (\<exists>e. r2 = Inl (Err e)) \<and> blocksLike t1 t2 \<or>
       (\<exists>e. r2 = Inl (Err e)) \<and> dv_segs (hm_world t2) = (dv_segs (hm_world t1))(fn \<mapsto> b(off := dv_torn (hm_world t1)))"
      using dev_write [OF d(1) s1(1), of cap ?new off] by blast
    from r2 show ?thesis
    proof (elim disjE conjE exE)
      assume ok: "r2 = Inr (length ?new)" "dv_segs (hm_world t2) = (dv_segs (hm_world t1))(fn \<mapsto> b(off := ?new))"
      obtain r3 t3 where x: "deleteCow (dev_io cap) fn off t2 = (r3, t3)" "blocksLike t2 t3" "r3 = Inr () \<or> (\<exists>e. r3 = Inl (Err e))"
        using dev_deleteCow [of cap fn off t2] by blast
      show ?thesis using True w ok x s1 old new by (auto simp: step blocksLike_def)
    next
      fix e assume "r2 = Inl (Err e)" "blocksLike t1 t2"
      then show ?thesis using True w s1 old keep [OF blocksLike_trans [OF c(2)]]
        by (intro exI [of _ "Inl (Err e)"] exI [of _ t2] exI [of _ "b off"]) (simp add: step)
    next
      fix e assume "r2 = Inl (Err e)" "dv_segs (hm_world t2) = (dv_segs (hm_world t1))(fn \<mapsto> b(off := dv_torn (hm_world t1)))"
      then show ?thesis using True w s1 old f1 by (auto simp: step)
    qed
  qed
qed

lemma dev_recover:
  assumes d: "df_file d = Some fn" "dv_segs (hm_world s) fn = Some b" "0 \<le> off" "off < cap" and l: "length (b off) = 4096"
    and bad: "unmarshalData (b off) = Inl e" "dv_files (hm_world s) (cowOf s fn off) = Some old" "fine old"
  shows "\<exists>t. readAndRestoreBlock (dev_io cap) d off (reboot s) = (Inr old, t) \<and> dv_segs (hm_world t) fn = Some (b(off := old))"
proof -
  have "old \<noteq> []" "length old = 4096" "go_copy (b off) old = old" using bad(3) l by (auto simp: fine_def go_copy_def)
  moreover obtain p where "unmarshalData old = Inr p" using bad(3) by (auto simp: fine_def)
  moreover have "dio_readAt (dev_io cap) d off (reboot s) = (Inr (b off), reboot s)"
    using d by (simp add: dio_readAt_def exec_simps dev_io_def reboot_def)
  moreover have "checkCow (dev_io cap) fn off (reboot s) = (Inr (old, True), reboot s)"
    using bad \<open>old \<noteq> []\<close> \<open>length old = 4096\<close> \<open>unmarshalData old = Inr p\<close>
    by (simp add: checkCow_def exec_simps dev_io_def reboot_def Let_def)
  moreover have "\<exists>t. dio_writeAt (dev_io cap) d old off (reboot s) = (Inr 4096, t) \<and> dv_segs (hm_world t) fn = Some (b(off := old))"
    using d \<open>length old = 4096\<close> by (simp add: dio_writeAt_def exec_simps dev_io_def powered_def reboot_def putBlock_def)
  moreover have "BlockSize (dev_io cap) = 4096" by (simp add: dev_io_def)
  ultimately show ?thesis using d(1) l bad(1)
    by (auto simp: readAndRestoreBlock_def exec_simps dio_Name_def restoreFromCow_def Let_def)
qed


end
