(* ===== verification/Reg_Props.thy ===== *)
theory Reg_Props
  imports Reg_Dev
begin

text \<open>
  The registry's hash map on disk as its clients see it: adding and fetching, the removal of a handle that
  does not lie in its own slot, and the end of the wait for a lock.
\<close>

section \<open>Adding and fetching\<close>

text \<open>
  C5. The hash map on disk is a map from logical IDs to handles: fetching reads it, and adding a handle
  that is not in it adds exactly this one, in whatever slot and segment file it lands, while every other
  handle stays what it was.
\<close>

theorem findAndAdd_refines:
  assumes R: "registry_files F seg cap ok" and T: "registry_files.table F seg cap ok s filename n" "n < 999"
    and h: "filename \<noteq> []" "LogicalID h \<noteq> NilUUID" "registry_files.tableMap F seg s filename (LogicalID h) = None"
    and ids: "NilUUID \<notin> set ids"
  shows "\<exists>s' t u. hm_fetch F filename ids s = (Inr (List.map_filter (registry_files.tableMap F seg s filename) ids), u) \<and>
    findAndAdd F filename h s = (Inr (), s') \<and>
    hm_fetch F filename ids s' = (Inr (List.map_filter ((registry_files.tableMap F seg s filename)(LogicalID h \<mapsto> h)) ids), t)"
proof -
  note fetch = registry_files.fetch_run [OF R _ _ ids, unfolded registry_files.keeps_def [OF R]]
  from registry_files.add_run [OF R T h] obtain s' n' where a: "findAndAdd F filename h s = (Inr (), s')" "n' \<le> Suc n"
    "registry_files.table F seg cap ok s' filename n'" "registry_files.tableMap F seg s' filename = (registry_files.tableMap F seg s filename)(LogicalID h \<mapsto> h)"
    unfolding yields_def by auto
  from fetch [OF T(1)] T(2) obtain u where "hm_fetch F filename ids s = (Inr (List.map_filter (registry_files.tableMap F seg s filename) ids), u)"
    unfolding yields_def by auto
  moreover from fetch [OF a(3)] a(2,4) T(2) obtain t where
    "hm_fetch F filename ids s' = (Inr (List.map_filter ((registry_files.tableMap F seg s filename)(LogicalID h \<mapsto> h)) ids), t)"
    unfolding yields_def by auto
  ultimately show ?thesis using a(1) by blast
qed

section \<open>Removing a handle that lies in another slot\<close>

definition oneID :: "string \<Rightarrow> uuid \<Rightarrow> uuid registry_payload" where
  "oneID filename i = \<lparr>rp_RegistryTable = filename, rp_BlobTable = [], rp_CacheDuration = 0, rp_IsCacheTTL = False, rp_IDs = [i]\<rparr>"

context registry_files
begin

lemma remove_displaced:
  assumes "table s filename n" "1 \<le> n" "seg (hm_world s) (path s filename 1) = Some b" "slotHandle (b (blockOf s i)) (idealSlot i) = None"
  shows "\<exists>t. same s t \<and> rm_remove F [oneID filename i] s =
    (Inl (Err ''registryMap.remove failed, an item was not found, can't delete a missing item''), t)"
proof -
  have g: "good s" using assms(1) by (simp add: table_def)
  have "\<not> 1000 < (1 :: nat)" by simp
  then have f: "yields (findFrom F True filename i 1) s (\<lambda>frd t. same s t \<and> fr_handle frd = zeroHandle)"
    unfolding findFrom.simps [of F True filename i 1]
  proof (simp only: if_False yields_bind, intro yields_mono [OF open_existing [OF g, unfolded keeps_def]], goal_cases)
    case 1
    then show ?case using assms(3) by simp
  next
    case (2 r t)
    then obtain d where t: "same s t" "r = Inr d" "df_file d = Some (path s filename 1)" by auto
    then have t': "good t" "seg (hm_world t) (path s filename 1) = Some b" "blockOf t i = blockOf s i" using assms(3) by (auto simp: same_def blockOf_def)
    have "firstSome (hit True i (b (blockOf s i))) (probe (idealSlot i)) = Some (idealSlot i * HandleSizeInBytes, zeroHandle)"
      by (simp add: probe_def hit_def assms(4))
    note ss = keeps_searchSegment [OF t'(1) t(3) t'(2), of True i, unfolded keeps_def t'(3) this]
    show ?case unfolding t(2) sum.case yields_bind
      by (rule yields_mono [OF ss]) (use t(1) in \<open>auto simp: yields_ret intro: same_trans\<close>)
  qed
  then obtain frd t where "findFrom F True filename i 1 s = (Inr frd, t)" "same s t" "fr_handle frd = zeroHandle" unfolding yields_def by blast
  then show ?thesis by (auto simp: rm_remove_def oneID_def exec_simps findOneFileRegion_def h_IsEmpty_def zeroHandle_def)
qed

end

text \<open>
  C16. A stored handle cannot be removed while its own slot is free: it was put into another slot because its
  own was taken, the handle that took it is gone, and the search for the place to change now stops at the
  free slot. The removal reports a missing item although fetching finds it, before and after.
\<close>

theorem remove_displaced_handle:
  assumes R: "registry_files F seg cap ok" and T: "registry_files.table F seg cap ok s filename n" "1 \<le> n" "n < 1000"
    and i: "i \<noteq> NilUUID" "registry_files.tableMap F seg s filename i = Some h"
    and slot: "seg (hm_world s) (segmentPath (hm_base s) filename 1) = Some b"
      "slotHandle (b (fst (getBlockOffsetAndHandleInBlockOffset F (hashModValue s) i))) (registry_files.idealSlot i) = None"
  shows "\<exists>t u v. hm_fetch F filename [i] s = (Inr [h], v) \<and>
    rm_remove F [oneID filename i] s = (Inl (Err ''registryMap.remove failed, an item was not found, can't delete a missing item''), t) \<and>
    hm_fetch F filename [i] t = (Inr [h], u)"
proof -
  note fetch = registry_files.fetch_run [OF R, unfolded registry_files.keeps_def [OF R]]
  from registry_files.remove_displaced [OF R T(1,2) slot(1)] slot(2) obtain t where t: "registry_files.same F seg cap ok s t"
    "rm_remove F [oneID filename i] s = (Inl (Err ''registryMap.remove failed, an item was not found, can't delete a missing item''), t)"
    by (auto simp: registry_files.blockOf_def [OF R])
  have f: "\<exists>u. hm_fetch F filename [i] v = (Inr [h], u)" if "registry_files.table F seg cap ok v filename n" "registry_files.tableMap F seg v filename i = Some h" for v
    using fetch [OF that(1) T(3), of "[i]"] i(1) that(2) unfolding yields_def by (auto simp: map_filter_simps)
  have "registry_files.table F seg cap ok t filename n" "registry_files.tableMap F seg t filename i = Some h"
    using registry_files.same_table [OF R t(1) T(1)] registry_files.same_map [OF R t(1)] i(2) by simp_all
  with f [OF T(1) i(2)] f t(2) show ?thesis by blast
qed

section \<open>Waiting for a lock\<close>

text \<open>
  The clock is in nanoseconds and does not go back; a pause takes at least one. Nothing is assumed of the
  locks: they may be refused for ever.
\<close>

locale ticking =
  fixes F :: "'w fsys" and time :: "'w \<Rightarrow> int"
  assumes lock: "k_DualLock F d ks w = (r, w') \<Longrightarrow> r \<noteq> Inl OutOfFuel \<and> time w \<le> time w'"
    and uuid: "k_NewUUID F w = (ru, w') \<Longrightarrow> ru \<noteq> Inl OutOfFuel \<and> time w \<le> time w'"
    and ctx: "k_ctxErr F w = (rc, w') \<Longrightarrow> rc \<noteq> Inl OutOfFuel \<and> time w \<le> time w'"
    and now: "k_Now F w = (rt, w') \<Longrightarrow> rt \<noteq> Inl OutOfFuel \<and> time w \<le> time w' \<and> (\<forall>t. rt = Inr t \<longrightarrow> time w \<le> t \<and> t \<le> time w')"
    and sleep: "k_Sleep F w = (rs, w') \<Longrightarrow> rs \<noteq> Inl OutOfFuel \<and> time w + 1 \<le> time w'"
begin

abbreviation clock :: "'w hashmap \<Rightarrow> int" where
  "clock s \<equiv> time (hm_world s)"

text \<open>A computation that does not run out of fuel and does not turn the clock back.\<close>

definition ends :: "('w, 'a) hmm \<Rightarrow> 'w hashmap \<Rightarrow> ('a \<Rightarrow> 'w hashmap \<Rightarrow> bool) \<Rightarrow> bool" where
  "ends m s Q = (case m s of (Inl e, s') \<Rightarrow> e \<noteq> OutOfFuel | (Inr x, s') \<Rightarrow> clock s \<le> clock s' \<and> Q x s')"

lemma ends_bind: "ends m s (\<lambda>x s'. ends (f x) s' (\<lambda>y u. clock s' \<le> clock u \<longrightarrow> clock s \<le> clock s' \<longrightarrow> Q y u)) \<Longrightarrow> ends (gbind m f) s Q"
  by (cases "m s"; cases "fst (m s)")
    (auto simp: ends_def gbind_def split: prod.split_asm sum.split_asm prod.split sum.split intro: order_trans)

lemma ends_mono: "ends m s P \<Longrightarrow> (\<And>x s'. clock s \<le> clock s' \<Longrightarrow> P x s' \<Longrightarrow> Q x s') \<Longrightarrow> ends m s Q"
  by (auto simp: ends_def split: prod.splits sum.splits)

lemma ends_ret: "Q x s \<Longrightarrow> ends (ret x) s Q"
  by (simp add: ends_def ret_def)

lemma ends_reads_bind: "ends (f (g s)) s Q \<Longrightarrow> ends (gbind (reads g) f) s Q"
  by (simp add: ends_def gbind_def reads_def)

lemma ends_fail: "e \<noteq> OutOfFuel \<Longrightarrow> ends (fail e) s Q"
  by (simp add: ends_def fail_def)

lemma ends_try: "ends (lockFileBlockRegion F d off) s (\<lambda>_ _. True)"
proof -
  have l: "ends (onDisk (k_DualLock F dur ks)) s (\<lambda>_ _. True)" for s dur ks
    by (auto simp: ends_def zoom_def dest: lock split: prod.splits sum.splits)
  have u: "ends (ownTid F) s (\<lambda>_ _. True)" for s
    unfolding ownTid_def by (rule ends_reads_bind) (auto simp: ends_def zoom_def ret_def dest: uuid split: prod.splits sum.splits)
  have a: "ends (case x of (ok, owner, lk) \<Rightarrow> gbind (aget lk 0) (\<lambda>l. ret (ok, owner, l))) s (\<lambda>_ _. True)" for x :: "bool \<times> uuid \<times> lock_key list" and s
    by (cases x) (simp add: ends_def gbind_def aget_def sget_def lift_res_def ret_def)
  show ?thesis unfolding lockFileBlockRegion_def
    by (intro ends_bind ends_mono [OF u] ends_reads_bind ends_mono [OF l] ends_mono [OF a]) simp_all
qed

lemma ends_pause:
  "ends (pauseOrGiveUp F name t0) s (\<lambda>_ s'. clock s - t0 < lockSectorRetryTimeoutDuration \<and> clock s + 1 \<le> clock s')"
proof -
  have t: "ends (TimedOut F t0 maxTime) s (\<lambda>r _. r = NotYet \<longrightarrow> clock s - t0 < maxTime)" for maxTime
  proof -
    have c: "ends (onDisk (k_ctxErr F)) s (\<lambda>_ _. True)"
      by (auto simp: ends_def zoom_def dest: ctx split: prod.splits sum.splits)
    have n: "ends (onDisk (k_Now F)) s (\<lambda>t _. clock s \<le> t)" for s
      by (auto simp: ends_def zoom_def dest: now split: prod.splits sum.splits)
    show ?thesis unfolding TimedOut_def
      by (rule ends_bind, rule ends_mono [OF c]) (auto intro!: ends_ret ends_bind ends_mono [OF n] split: option.split if_split_asm)
  qed
  have sl: "ends (onDisk (k_Sleep F)) s (\<lambda>_ s'. clock s + 1 \<le> clock s')" for s
    by (auto simp: ends_def zoom_def dest: sleep split: prod.splits sum.splits)
  show ?thesis unfolding pauseOrGiveUp_def
    by (rule ends_bind, rule ends_mono [OF t])
      (auto simp: lockFailure_def split: timed.split intro!: ends_fail ends_mono [OF sl])
qed

lemma ends_loop:
  "0 < n \<Longrightarrow> lockSectorRetryTimeoutDuration - (clock s - t0) < int n \<Longrightarrow> ends (lockRegionLoop F n t0 d off) s (\<lambda>_ _. True)"
proof (induction n arbitrary: s)
  case (Suc n)
  show ?case unfolding lockRegionLoop.simps
  proof (rule ends_bind, rule ends_mono [OF ends_try], goal_cases)
    case (1 r t)
    obtain got x where r: "r = (got, x)" by (cases r)
    have "ends (gseq (pauseOrGiveUp F ''lockFileBlockRegionWithRetry'' t0) (lockRegionLoop F n t0 d off)) t (\<lambda>_ _. True)"
      unfolding gseq_def using Suc.prems 1
      by (intro ends_bind ends_mono [OF ends_pause] ends_mono [OF Suc.IH]) auto
    then show ?case using r by (cases x) (auto intro!: ends_ret elim!: ends_mono)
  qed
qed simp

lemma ends_wait: "nat lockSectorRetryTimeoutDuration < hm_polls s \<Longrightarrow> ends (lockFileBlockRegionWithRetry F d off) s (\<lambda>_ _. True)"
proof -
  assume p: "nat lockSectorRetryTimeoutDuration < hm_polls s"
  have n: "ends (onDisk (k_Now F)) s (\<lambda>t u. t \<le> clock u \<and> hm_polls u = hm_polls s)"
    by (auto simp: ends_def zoom_def dest: now split: prod.splits sum.splits)
  show ?thesis unfolding lockFileBlockRegionWithRetry_def
    by (rule ends_bind, rule ends_mono [OF n], rule ends_reads_bind, rule ends_mono [OF ends_loop]) (use p in auto)
qed

end

text \<open>
  C14. The wait for the lock of a block ends: with one poll more than the nanoseconds of the time limit the
  loop always comes to an end, with the lock or with an error, even when the lock is never given.
\<close>

theorem lock_wait_ends:
  assumes "ticking F time" "nat lockSectorRetryTimeoutDuration < hm_polls s"
  shows "fst (lockFileBlockRegionWithRetry F d off s) \<noteq> Inl OutOfFuel"
  using ticking.ends_wait [OF assms(1), of s d off] assms(2)
  by (auto simp: ticking.ends_def [OF assms(1)] split: prod.splits sum.splits)

end
