(* ===== verification/Reg_Sample.thy ===== *)
theory Reg_Sample
  imports Reg_Props
begin

text \<open>A registry on the device of \<open>Reg_Dev\<close>, empty, with a displaced handle, and with refused locks.\<close>

text \<open>A block whose checksum is one off.\<close>

definition torn_block :: bytes where
  "torn_block = (1 # replicate 4091 0) @ le_bytes 4 (ChecksumIEEE (1 # replicate 4091 0) + 1)"

definition sample_dev :: "(string \<Rightarrow> blocks option) \<Rightarrow> bool \<Rightarrow> nat option \<Rightarrow> dev" where
  "sample_dev segs busy pw = \<lparr>dv_segs = segs, dv_files = Map.empty, dv_dirs = (\<lambda>_. False), dv_power = pw,
     dv_torn = torn_block, dv_tornFile = [], dv_clock = 0, dv_busy = busy, dv_l2 = Map.empty\<rparr>"

definition sample_hm :: "(string \<Rightarrow> blocks option) \<Rightarrow> bool \<Rightarrow> nat option \<Rightarrow> nat \<Rightarrow> dev hashmap" where
  "sample_hm segs busy pw polls = newHashmap True 250 ''/db'' 7 (sample_dev segs busy pw) polls"

abbreviation sample_io :: "dev fsys" where
  "sample_io \<equiv> dev_io 1024000"

lemma sample_parts [simp]: "dv_segs (hm_world (sample_hm segs busy pw polls)) = segs" "hm_base (sample_hm segs busy pw polls) = ''/db''"
  by (simp_all add: sample_hm_def sample_dev_def newHashmap_def)

lemma sample_good:
  assumes "\<And>fn b off. segs fn = Some b \<Longrightarrow> fine (b off)" "0 < polls"
  shows "dev4k.good (sample_hm segs False None polls)"
proof -
  have "BlockSize sample_io = 4096" by (simp add: dev_io_def)
  then show ?thesis using assms
    by (auto simp: dev4k.good_def sample_hm_def sample_dev_def newHashmap_def getSegmentFileSize_def simp flip: fine_valid)
qed

section \<open>Adding to an empty registry\<close>

theorem findAndAdd_refines_witness:
  "\<exists>s t. findAndAdd sample_io ''t'' (NewHandle 5) (sample_hm Map.empty False None 1) = (Inr (), s) \<and>
     hm_fetch sample_io ''t'' [5, 6] s = (Inr [NewHandle 5], t)"
proof -
  let ?s = "sample_hm Map.empty False None 1"
  have "dev4k.table ?s ''t'' 0" and m: "dev4k.tableMap ?s ''t'' = Map.empty"
    using sample_good [of Map.empty 1]
    by (auto simp: dev4k.table_def dev4k.tableMap_def dev4k.inSegment_def dev4k.blockAt_def fun_eq_iff firstSome_None)
  from findAndAdd_refines [OF dev4k.registry_files_axioms this(1), of "NewHandle 5" "[5, 6]"] m
  show ?thesis by (auto simp: NewHandle_def zeroHandle_def map_filter_simps)
qed

section \<open>A displaced handle\<close>

definition displaced_block :: bytes where
  "displaced_block = mergeHandle (replicate 4096 0) (6 * HandleSizeInBytes) (Marshal (NewHandle 5) [])"

definition displaced_segs :: "string \<Rightarrow> blocks option" where
  "displaced_segs = [segmentPath ''/db'' ''t'' 1 \<mapsto> (\<lambda>_. displaced_block)]"

lemma zeros_roomy: "roomy (replicate 4096 0)"
  by (simp add: roomy_def handlesPerBlock_def HandleSizeInBytes_def)

lemma displaced_slot: "k < handlesPerBlock \<Longrightarrow> slotHandle displaced_block k = (if k = 6 then Some (NewHandle 5) else None)"
  unfolding displaced_block_def
  by (subst slotHandle_merge [OF zeros_roomy])
    (simp_all add: handlesPerBlock_def NewHandle_def zeroHandle_def slotHandle_zeros)

lemma displaced_fine: "fine displaced_block"
  unfolding displaced_block_def fine_valid [of _ 1024000]
  by (rule dev4k.mergeHandle_valid) (simp_all add: dev_io_def HandleSizeInBytes_def)

lemma ideal_5: "dev4k.idealSlot 5 = 5"
  by (simp add: dev4k.idealSlot_def Split_parts handlesPerBlock_def)

lemma displaced_good: "dev4k.good (sample_hm displaced_segs False None 1)"
  by (rule sample_good) (auto simp: displaced_segs_def displaced_fine split: if_splits)

lemma displaced_table: "dev4k.table (sample_hm displaced_segs False None 1) ''t'' 1"
  using displaced_good by (auto simp: dev4k.table_def displaced_segs_def dest: segmentPath_inj)

lemma displaced_map: "dev4k.tableMap (sample_hm displaced_segs False None 1) ''t'' 5 = Some (NewHandle 5)"
proof -
  have "firstSome (hit False 5 displaced_block) (probe 5) = hit False 5 displaced_block 6"
    using displaced_slot dev4k.probe_less [of 5]
    by (intro firstSome_only) (auto simp: probe_def hit_def handlesPerBlock_def)
  then have "dev4k.inSegment (sample_hm displaced_segs False None 1) ''t'' 5 1 = Some (NewHandle 5)"
    using displaced_slot [of 6]
    by (simp add: dev4k.inSegment_def dev4k.blockAt_def displaced_segs_def ideal_5 hit_def handlesPerBlock_def NewHandle_def)
  then show ?thesis using dev4k.tableMap_span [OF displaced_table] by simp
qed

theorem remove_displaced_handle_witness:
  "\<exists>t u. rm_remove sample_io [oneID ''t'' 5] (sample_hm displaced_segs False None 1) =
       (Inl (Err ''registryMap.remove failed, an item was not found, can't delete a missing item''), t) \<and>
     hm_fetch sample_io ''t'' [5] t = (Inr [NewHandle 5], u)"
  using remove_displaced_handle [OF dev4k.registry_files_axioms displaced_table _ _ _ displaced_map, of "\<lambda>_. displaced_block"] displaced_slot [of 5]
  by (auto simp: displaced_segs_def ideal_5 handlesPerBlock_def)

section \<open>Loss of power during a change\<close>


section \<open>Locks that are never given\<close>

interpretation dev_ticks: ticking "dev_io cap" dv_clock for cap
  by unfold_locales (auto simp: dev_io_def exec_simps)

theorem lock_wait_ends_witness:
  "fst (lockFileBlockRegionWithRetry sample_io newDio 0 (sample_hm Map.empty True None (nat lockSectorRetryTimeoutDuration + 1))) \<noteq> Inl OutOfFuel"
  by (rule lock_wait_ends [OF dev_ticks.ticking_axioms]) (simp add: sample_hm_def newHashmap_def)

end
