(* ===== verification/Reg_Disk.thy ===== *)
theory Reg_Disk
  imports Reg_Sample Node_Commit
begin

text \<open>
  The registry of a database on disk (\<open>fs/registry.go\<close>): the hash map on disk with the two caches of handles
  in front of it, the one of the process (L1) and the shared one (L2). The methods of the shared cache are
  the fields of \<open>l2_handles\<close>; its keys are the texts of the IDs, here the IDs.
\<close>

section \<open>The registry\<close>

record 'w l2_handles =
  l2h_GetStructs :: "uuid list \<Rightarrow> int \<Rightarrow> ('w, handle option list) gom"
  l2h_SetStruct :: "uuid \<Rightarrow> handle \<Rightarrow> int \<Rightarrow> ('w, unit) gom"
  l2h_Delete :: "uuid \<Rightarrow> ('w, bool) gom"

record 'w registry_on_disk =
  rg_hashmap :: "'w hashmap"
  rg_Handles :: "(uuid, handle) cache"

type_synonym ('w, 'a) rgm = "('w registry_on_disk, 'a) gom"

abbreviation onMap :: "('w, 'a) hmm \<Rightarrow> ('w, 'a) rgm" where
  "onMap \<equiv> zoom rg_hashmap (\<lambda>h s. s\<lparr>rg_hashmap := h\<rparr>)"

abbreviation onL2 :: "('w, 'a) gom \<Rightarrow> ('w, 'a) rgm" where
  "onL2 m \<equiv> onMap (onDisk m)"

abbreviation onHandles :: "((uuid, handle) cache, 'a) gom \<Rightarrow> ('w, 'a) rgm" where
  "onHandles \<equiv> zoom rg_Handles (\<lambda>c s. s\<lparr>rg_Handles := c\<rparr>)"

definition convertToKvp :: "handle list \<Rightarrow> (uuid \<times> handle) list" where
  "convertToKvp hs = map (\<lambda>h. (LogicalID h, h)) hs"

text \<open>After a write, both caches get the new handles; an error of the shared cache is only logged.\<close>

definition refreshCaches :: "'w l2_handles \<Rightarrow> handle registry_payload list \<Rightarrow> ('w, unit) rgm" where
  "refreshCaches L storesHandles = gfor storesHandles (\<lambda>sh.
     gseq (onHandles (cache_Set (convertToKvp (rp_IDs sh))))
     (gfor (rp_IDs sh) (\<lambda>h. tolerate (onL2 (l2h_SetStruct L (LogicalID h) h (rp_CacheDuration sh))))))"

definition reg_Add :: "'w fsys \<Rightarrow> 'w l2_handles \<Rightarrow> handle registry_payload list \<Rightarrow> ('w, unit) rgm" where
  "reg_Add F L storesHandles = gseq (onMap (rm_add F storesHandles)) (refreshCaches L storesHandles)"

definition updateOne :: "'w fsys \<Rightarrow> 'w l2_handles \<Rightarrow> handle registry_payload \<Rightarrow> handle \<Rightarrow> ('w, unit) rgm" where
  "updateOne F L sh h = gbind (onL2 (k_NewUUID F)) (\<lambda>u.
     gbind (onL2 (k_DualLock F (10 * 60 * 1000000000) (CreateLockKeys [(uuid_String (LogicalID h), u)]))) (\<lambda>(ok, _, lk).
     if \<not> ok then fail (Err ''lock failed, key is already locked by another'')
     else gbind (attempt (onMap (rm_set F [\<lparr>rp_RegistryTable = rp_RegistryTable sh, rp_BlobTable = [], rp_CacheDuration = 0,
            rp_IsCacheTTL = False, rp_IDs = [h]\<rparr>]))) (\<lambda>r. case r of
        Inl e \<Rightarrow> gseq (onHandles (cache_Delete [LogicalID h]))
          (gseq (tolerate (onL2 (l2h_Delete L (LogicalID h))))
          (gseq (tolerate (onL2 (k_Unlock F lk))) (fail (Err e))))
      | Inr _ \<Rightarrow> gseq (tolerate (onL2 (l2h_SetStruct L (LogicalID h) h (rp_CacheDuration sh)))) (onL2 (k_Unlock F lk)))))"

definition reg_Update :: "'w fsys \<Rightarrow> 'w l2_handles \<Rightarrow> handle registry_payload list \<Rightarrow> ('w, unit) rgm" where
  "reg_Update F L storesHandles = gfor storesHandles (\<lambda>sh.
     gseq (gfor (rp_IDs sh) (updateOne F L sh)) (onHandles (cache_Set (convertToKvp (rp_IDs sh)))))"

definition reg_UpdateNoLocks :: "'w fsys \<Rightarrow> 'w l2_handles \<Rightarrow> bool \<Rightarrow> handle registry_payload list \<Rightarrow> ('w, unit) rgm" where
  "reg_UpdateNoLocks F L allOrNothing storesHandles = gseq (onMap (rm_set F storesHandles)) (refreshCaches L storesHandles)"

text \<open>The handles that the shared cache had, and the IDs that it did not have; after its error, all of them.\<close>

fun splitFound :: "uuid list \<Rightarrow> handle option list \<Rightarrow> go_error + handle list \<times> uuid list" where
  "splitFound [] found = Inr ([], [])"
| "splitFound (i # is) found = (case found of [] \<Rightarrow> Inl Panic
   | f # found \<Rightarrow> map_sum id (\<lambda>(hs, lids). (case f of Some h \<Rightarrow> (h # hs, lids) | None \<Rightarrow> (hs, i # lids))) (splitFound is found))"

definition cachedHandles :: "'w l2_handles \<Rightarrow> uuid registry_payload \<Rightarrow> ('w, handle list \<times> uuid list) rgm" where
  "cachedHandles L p = gbind (attempt (onL2 (l2h_GetStructs L (rp_IDs p) (if rp_IsCacheTTL p then rp_CacheDuration p else 0)))) (\<lambda>r.
     case r of Inl _ \<Rightarrow> ret ([], rp_IDs p) | Inr found \<Rightarrow> lift_res (splitFound (rp_IDs p) found))"

definition getOnePayload :: "'w fsys \<Rightarrow> 'w l2_handles \<Rightarrow> uuid registry_payload \<Rightarrow> ('w, handle registry_payload) rgm" where
  "getOnePayload F L p = gbind (cachedHandles L p) (\<lambda>(handles, lids).
     let answer = (\<lambda>hs. \<lparr>rp_RegistryTable = rp_RegistryTable p, rp_BlobTable = rp_BlobTable p,
       rp_CacheDuration = rp_CacheDuration p, rp_IsCacheTTL = rp_IsCacheTTL p, rp_IDs = hs\<rparr>) in
     if lids = [] then ret (answer handles)
     else gbind (onMap (rm_fetch F [\<lparr>rp_RegistryTable = rp_RegistryTable p, rp_BlobTable = [], rp_CacheDuration = 0,
         rp_IsCacheTTL = False, rp_IDs = lids\<rparr>])) (\<lambda>mh.
       gbind (aget mh 0) (\<lambda>m.
       gseq (gfor (rp_IDs m) (\<lambda>h. tolerate (onL2 (l2h_SetStruct L (LogicalID h) h (rp_CacheDuration p)))))
       (ret (answer (handles @ rp_IDs m))))))"

fun reg_Get :: "'w fsys \<Rightarrow> 'w l2_handles \<Rightarrow> uuid registry_payload list \<Rightarrow> ('w, handle registry_payload list) rgm" where
  "reg_Get F L [] = ret []"
| "reg_Get F L (p # ps) = gbind (getOnePayload F L p) (\<lambda>a. gbind (reg_Get F L ps) (\<lambda>r. ret (a # r)))"

definition deleteFromCache :: "'w l2_handles \<Rightarrow> uuid registry_payload list \<Rightarrow> ('w, unit) rgm" where
  "deleteFromCache L storesLids = gfor storesLids (\<lambda>p. gseq (onHandles (cache_Delete (rp_IDs p)))
     (gfor (rp_IDs p) (\<lambda>i. tolerate (onL2 (l2h_Delete L i)))))"

definition reg_Remove :: "'w fsys \<Rightarrow> 'w l2_handles \<Rightarrow> uuid registry_payload list \<Rightarrow> ('w, unit) rgm" where
  "reg_Remove F L storesLids = deferred (onMap (rm_remove F storesLids)) (deleteFromCache L storesLids)"

text \<open>
  Replication writes the same changes to the passive folder, with a hash map of its own that is closed in
  the end; each error is reported to the replication tracker (\<open>onFail\<close>) and the last one is returned.
  \<open>paths\<close> is the order in which the files are closed.
\<close>

definition noteFailed :: "('w, unit) gom \<Rightarrow> string option \<Rightarrow> ('w, unit) hmm \<Rightarrow> ('w, string option) hmm" where
  "noteFailed onFail lastErr m = gbind (attempt m) (\<lambda>r. case r of
     Inl e \<Rightarrow> gseq (tolerate (onDisk onFail)) (ret (Some e)) | Inr _ \<Rightarrow> ret lastErr)"

definition reg_Replicate :: "'w fsys \<Rightarrow> bool \<Rightarrow> bool \<Rightarrow> string \<Rightarrow> ('w, unit) gom \<Rightarrow> string list \<Rightarrow> handle registry_payload list \<Rightarrow>
    handle registry_payload list \<Rightarrow> handle registry_payload list \<Rightarrow> handle registry_payload list \<Rightarrow> ('w, unit) rgm" where
  "reg_Replicate F doReplicate FailedToReplicate passive onFail paths newRoots added updated removed =
     (if \<not> doReplicate \<or> FailedToReplicate then ret ()
      else zoom (\<lambda>s. let h = rg_hashmap s in newHashmap True (hashModValue h) passive (hm_tid h) (hm_world h) (hm_polls h))
          (\<lambda>rm s. s\<lparr>rg_hashmap := (rg_hashmap s)\<lparr>hm_world := hm_world rm\<rparr>\<rparr>)
        (gbind (noteFailed onFail None (rm_add F newRoots)) (\<lambda>e.
         gbind (noteFailed onFail e (rm_add F added)) (\<lambda>e.
         gbind (noteFailed onFail e (rm_set F updated)) (\<lambda>e.
         gbind (noteFailed onFail e (rm_remove F (ExtractLogicalIDs removed))) (\<lambda>e.
         gbind (attempt (hm_close F paths)) (\<lambda>r. case (e, r) of
           (None, Inl c) \<Rightarrow> fail (Err c) | (Some e, _) \<Rightarrow> fail (Err e) | _ \<Rightarrow> ret ())))))))"

section \<open>The order of the answer\<close>

locale handle_cache = registry_files F seg cap ok
  for F :: "'w fsys" and seg :: "'w \<Rightarrow> string \<Rightarrow> blocks option" and cap :: int and ok :: "'w \<Rightarrow> bool" +
  fixes L :: "'w l2_handles" and l2 :: "'w \<Rightarrow> uuid \<rightharpoonup> handle"
  assumes getStructs: "ok w \<Longrightarrow> yields (l2h_GetStructs L is d) w (\<lambda>r w'. ok w' \<and> seg w' = seg w \<and> r = map (l2 w) is)"
    and setStruct: "ok w \<Longrightarrow> yields (l2h_SetStruct L i h d) w (\<lambda>_ w'. ok w' \<and> seg w' = seg w)"
begin

lemma splitFound_map: "splitFound is (map m is) = Inr (List.map_filter m is, filter (\<lambda>i. m i = None) is)"
  by (induction "is") (auto simp: map_filter_simps split: option.splits)

definition lasts :: "('w, 'a) rgm \<Rightarrow> 'w registry_on_disk \<Rightarrow> ('a \<Rightarrow> bool) \<Rightarrow> bool" where
  "lasts m s P = yields m s (\<lambda>r s'. same (rg_hashmap s) (rg_hashmap s') \<and> P r)"

lemma lasts_map: "keeps m (rg_hashmap s) P \<Longrightarrow> lasts (onMap m) s P"
  unfolding lasts_def keeps_def yields_zoom by (erule yields_mono) simp

lemma lasts_bind:
  assumes "lasts m s P" "\<And>r s'. same (rg_hashmap s) (rg_hashmap s') \<Longrightarrow> P r \<Longrightarrow> lasts (f r) s' Q"
  shows "lasts (gbind m f) s Q"
  using assms(1) unfolding lasts_def yields_bind
proof (rule yields_mono)
  fix r and s' :: "'w registry_on_disk" assume r: "same (rg_hashmap s) (rg_hashmap s') \<and> P r"
  with assms(2) have "yields (f r) s' (\<lambda>r t. same (rg_hashmap s') (rg_hashmap t) \<and> Q r)" by (simp add: lasts_def)
  then show "yields (f r) s' (\<lambda>r t. same (rg_hashmap s) (rg_hashmap t) \<and> Q r)"
    by (rule yields_mono) (use r in \<open>blast intro: same_trans\<close>)
qed

lemma lasts_ret: "good (rg_hashmap s) \<Longrightarrow> P x \<Longrightarrow> lasts (ret x) s P"
  by (simp add: lasts_def yields_ret same_refl)

lemma lasts_for:
  assumes "\<And>x s. good (rg_hashmap s) \<Longrightarrow> lasts (f x) s (\<lambda>_. True)" "good (rg_hashmap s)"
  shows "lasts (gfor xs f) s (\<lambda>_. True)"
  using assms(2)
  by (induction xs arbitrary: s) (auto simp: gseq_def intro!: lasts_ret lasts_bind [OF assms(1)] dest: same_good)

lemma lasts_store: "good (rg_hashmap s) \<Longrightarrow> lasts (tolerate (onL2 (l2h_SetStruct L i h d))) s (\<lambda>_. True)"
proof -
  assume g: "good (rg_hashmap s)"
  have "keeps (onDisk (l2h_SetStruct L i h d)) (rg_hashmap s) (\<lambda>_. True)"
    using setStruct [OF good_ok [OF g], of i h d] by (intro keeps_disk [OF g]) simp
  from lasts_map [OF this] show ?thesis unfolding lasts_def by (rule yields_tolerate) simp
qed

lemma lasts_cached:
  assumes "good (rg_hashmap s)"
  shows "lasts (cachedHandles L p) s (\<lambda>r. r = (List.map_filter (l2 (hm_world (rg_hashmap s))) (rp_IDs p),
    filter (\<lambda>i. l2 (hm_world (rg_hashmap s)) i = None) (rp_IDs p)))"
proof -
  let ?m = "l2 (hm_world (rg_hashmap s))"
  have "keeps (onDisk (l2h_GetStructs L (rp_IDs p) d)) (rg_hashmap s) (\<lambda>r. r = map ?m (rp_IDs p))" for d
    using getStructs [OF good_ok [OF assms]] by (intro keeps_disk [OF assms]) simp
  from lasts_map [OF this] have "lasts (attempt (onL2 (l2h_GetStructs L (rp_IDs p) d))) s (\<lambda>r. r = Inr (map ?m (rp_IDs p)))" for d
    unfolding lasts_def by (rule yields_attempt) simp
  then show ?thesis unfolding cachedHandles_def
    by (rule lasts_bind) (auto simp: splitFound_map lasts_def yields_simps same_refl same_good)
qed

lemma get_run:
  assumes T: "table (rg_hashmap s) (rp_RegistryTable p) n" "n < 1000" "NilUUID \<notin> set (rp_IDs p)"
  shows "lasts (getOnePayload F L p) s (\<lambda>a. rp_IDs a = List.map_filter (l2 (hm_world (rg_hashmap s))) (rp_IDs p) @
    List.map_filter (tableMap (rg_hashmap s) (rp_RegistryTable p)) (filter (\<lambda>i. l2 (hm_world (rg_hashmap s)) i = None) (rp_IDs p)))"
proof -
  let ?m = "l2 (hm_world (rg_hashmap s))" and ?t = "tableMap (rg_hashmap s) (rp_RegistryTable p)"
  let ?lids = "filter (\<lambda>i. ?m i = None) (rp_IDs p)"
  have g: "good (rg_hashmap s)" using T(1) by (simp add: table_def)
  have nil: "NilUUID \<notin> set ?lids" using T(3) by simp
  have f: "lasts (onMap (rm_fetch F [\<lparr>rp_RegistryTable = rp_RegistryTable p, rp_BlobTable = [], rp_CacheDuration = 0,
         rp_IsCacheTTL = False, rp_IDs = ?lids\<rparr>])) u (\<lambda>r. \<exists>a. r = [a] \<and> rp_IDs a = List.map_filter ?t ?lids)"
    if u: "same (rg_hashmap s) (rg_hashmap u)" for u :: "'w registry_on_disk"
  proof (rule lasts_map)
    have "keeps (hm_fetch F (rp_RegistryTable p) ?lids) (rg_hashmap u) (\<lambda>r. r = List.map_filter ?t ?lids)"
      using fetch_run [OF same_table [OF u T(1)] T(2) nil] same_map [OF u] by simp
    then have "keeps (wrapErr msg (hm_fetch F (rp_RegistryTable p) ?lids)) (rg_hashmap u) (\<lambda>r. r = List.map_filter ?t ?lids)" for msg
      unfolding keeps_def by (rule yields_wrapErr)
    then show "keeps (rm_fetch F [\<lparr>rp_RegistryTable = rp_RegistryTable p, rp_BlobTable = [], rp_CacheDuration = 0,
         rp_IsCacheTTL = False, rp_IDs = ?lids\<rparr>]) (rg_hashmap u) (\<lambda>r. \<exists>a. r = [a] \<and> rp_IDs a = List.map_filter ?t ?lids)"
      by (auto intro!: keeps_bind keeps_ret dest: same_good)
  qed
  show ?thesis unfolding getOnePayload_def
  proof (rule lasts_bind [OF lasts_cached [OF g]])
    fix r and u :: "'w registry_on_disk" assume u: "same (rg_hashmap s) (rg_hashmap u)" and r: "r = (List.map_filter ?m (rp_IDs p), ?lids)"
    show "lasts (case r of (handles, lids) \<Rightarrow> let answer = (\<lambda>hs. \<lparr>rp_RegistryTable = rp_RegistryTable p, rp_BlobTable = rp_BlobTable p,
       rp_CacheDuration = rp_CacheDuration p, rp_IsCacheTTL = rp_IsCacheTTL p, rp_IDs = hs\<rparr>) in
       if lids = [] then ret (answer handles)
       else gbind (onMap (rm_fetch F [\<lparr>rp_RegistryTable = rp_RegistryTable p, rp_BlobTable = [], rp_CacheDuration = 0,
           rp_IsCacheTTL = False, rp_IDs = lids\<rparr>])) (\<lambda>mh.
         gbind (aget mh 0) (\<lambda>m.
         gseq (gfor (rp_IDs m) (\<lambda>h. tolerate (onL2 (l2h_SetStruct L (LogicalID h) h (rp_CacheDuration p)))))
         (ret (answer (handles @ rp_IDs m)))))) u (\<lambda>a. rp_IDs a = List.map_filter ?m (rp_IDs p) @ List.map_filter ?t ?lids)"
    proof (cases "?lids = []")
      case True
      then show ?thesis unfolding r prod.case True Let_def by (simp add: lasts_ret same_good [OF u] map_filter_simps)
    next
      case False
      have "lasts (gbind (onMap (rm_fetch F [\<lparr>rp_RegistryTable = rp_RegistryTable p, rp_BlobTable = [], rp_CacheDuration = 0,
           rp_IsCacheTTL = False, rp_IDs = ?lids\<rparr>])) (\<lambda>mh. gbind (aget mh 0) (\<lambda>m.
         gseq (gfor (rp_IDs m) (\<lambda>h. tolerate (onL2 (l2h_SetStruct L (LogicalID h) h (rp_CacheDuration p)))))
         (ret \<lparr>rp_RegistryTable = rp_RegistryTable p, rp_BlobTable = rp_BlobTable p, rp_CacheDuration = rp_CacheDuration p,
           rp_IsCacheTTL = rp_IsCacheTTL p, rp_IDs = List.map_filter ?m (rp_IDs p) @ rp_IDs m\<rparr>)))) u
         (\<lambda>a. rp_IDs a = List.map_filter ?m (rp_IDs p) @ List.map_filter ?t ?lids)"
      proof (rule lasts_bind [OF f [OF u]], elim exE conjE)
        fix mh and v :: "'w registry_on_disk" and a :: "handle registry_payload" assume v: "same (rg_hashmap u) (rg_hashmap v)" and a: "mh = [a]" "rp_IDs a = List.map_filter ?t ?lids"
        have k: "gbind (aget mh 0) k = k a" for k :: "handle registry_payload \<Rightarrow> ('w, handle registry_payload) rgm"
          by (rule ext) (simp add: a(1) exec_simps)
        show "lasts (gbind (aget mh 0) (\<lambda>m.
           gseq (gfor (rp_IDs m) (\<lambda>h. tolerate (onL2 (l2h_SetStruct L (LogicalID h) h (rp_CacheDuration p)))))
           (ret \<lparr>rp_RegistryTable = rp_RegistryTable p, rp_BlobTable = rp_BlobTable p, rp_CacheDuration = rp_CacheDuration p,
             rp_IsCacheTTL = rp_IsCacheTTL p, rp_IDs = List.map_filter ?m (rp_IDs p) @ rp_IDs m\<rparr>))) v
           (\<lambda>a. rp_IDs a = List.map_filter ?m (rp_IDs p) @ List.map_filter ?t ?lids)"
          unfolding k gseq_def using a(2) same_good [OF v]
          by (auto intro!: lasts_bind [OF lasts_for] lasts_store lasts_ret dest: same_good)
      qed
      with False show ?thesis unfolding r prod.case Let_def by (simp only: if_False)
    qed
  qed
qed

end

text \<open>
  C15. The registry does not answer in the order of the question: the handles that the shared cache has come
  first, those that have to be read from disk after them, whatever their positions among the IDs asked for.
\<close>

theorem reg_Get_order:
  assumes H: "handle_cache F seg cap ok L l2" and T: "registry_files.table F seg cap ok (rg_hashmap s) (rp_RegistryTable p) n" "n < 1000"
    and ids: "NilUUID \<notin> set (rp_IDs p)"
  shows "\<exists>a t. reg_Get F L [p] s = (Inr [a], t) \<and>
    rp_IDs a = List.map_filter (l2 (hm_world (rg_hashmap s))) (rp_IDs p) @
      List.map_filter (registry_files.tableMap F seg (rg_hashmap s) (rp_RegistryTable p))
        (filter (\<lambda>i. l2 (hm_world (rg_hashmap s)) i = None) (rp_IDs p))"
  using handle_cache.get_run [OF H T ids] unfolding handle_cache.lasts_def [OF H] yields_def by (auto simp: exec_simps)

section \<open>The shared cache of the device\<close>

definition dev_l2 :: "dev l2_handles" where
  "dev_l2 = \<lparr>l2h_GetStructs = (\<lambda>is d. reads (\<lambda>w. map (dv_l2 w) is)),
     l2h_SetStruct = (\<lambda>i h d. modify (\<lambda>w. w\<lparr>dv_l2 := (dv_l2 w)(i \<mapsto> h)\<rparr>)),
     l2h_Delete = (\<lambda>i. gbind (reads (\<lambda>w. dv_l2 w i \<noteq> None)) (\<lambda>b. gseq (modify (\<lambda>w. w\<lparr>dv_l2 := (dv_l2 w)(i := None)\<rparr>)) (ret b)))\<rparr>"

interpretation dev_cache: handle_cache "dev_io 1024000" dv_segs 1024000 "\<lambda>w. dv_power w = None \<and> \<not> dv_busy w" dev_l2 dv_l2
  by unfold_locales (simp_all add: dev_l2_def yields_simps)

text \<open>Handle 5 is on disk, handle 9 in the shared cache: asked for 5 and 9, the registry answers 9 and 5.\<close>

definition sample_registry :: "dev registry_on_disk" where
  "sample_registry = \<lparr>rg_hashmap = (sample_hm displaced_segs False None 1)
       \<lparr>hm_world := (sample_dev displaced_segs False None)\<lparr>dv_l2 := [9 \<mapsto> NewHandle 9]\<rparr>\<rparr>,
     rg_Handles = NewCache 8 12\<rparr>"

theorem reg_Get_order_witness:
  "\<exists>a t. reg_Get sample_io dev_l2 [\<lparr>rp_RegistryTable = ''t'', rp_BlobTable = [], rp_CacheDuration = 0, rp_IsCacheTTL = False,
     rp_IDs = [5, 9]\<rparr>] sample_registry = (Inr [a], t) \<and> rp_IDs a = [NewHandle 9, NewHandle 5]"
proof -
  let ?s = "rg_hashmap sample_registry"
  have same: "dev4k.same (sample_hm displaced_segs False None 1) ?s"
    unfolding sample_registry_def registry_on_disk.simps
    by (rule dev4k.same_world [OF displaced_good]) (simp_all add: sample_dev_def)
  have T: "dev4k.table ?s ''t'' 1" "dev4k.tableMap ?s ''t'' 5 = Some (NewHandle 5)"
    using dev4k.same_table [OF same displaced_table] dev4k.same_map [OF same] displaced_map by simp_all
  have l2: "dv_l2 (hm_world ?s) = [9 \<mapsto> NewHandle 9]" by (simp add: sample_registry_def)
  let ?p = "\<lparr>rp_RegistryTable = ''t'', rp_BlobTable = [], rp_CacheDuration = 0, rp_IsCacheTTL = False, rp_IDs = [5, 9 :: uuid]\<rparr>"
  have "NilUUID \<notin> set (rp_IDs ?p)" by simp
  from reg_Get_order [OF dev_cache.handle_cache_axioms, of sample_registry ?p 1, OF _ _ this] T show ?thesis
    by (auto simp: l2 map_filter_simps)
qed

end
