(* ===== verification/Tx_Log.thy ===== *)
theory Tx_Log
  imports Node_Commit Cache_L2 Tx_Lifecycle
begin

text \<open>
  The transaction log (\<open>common/transactionlogger.go\<close>, first part), the data of a transaction
  (\<open>common/twophasecommittransaction.go\<close>) and the interfaces a commit works with: the caches' locks, the
  log stores, the store repository, and the back ends of the transaction's B-trees. An entry of the log has
  a typed payload: its encoding as JSON is left out.
\<close>

section \<open>Commit functions\<close>

datatype commit_function = C_unknown | C_createStore | C_lockTrackedItems | C_commitTrackedItemsValues |
  C_commitNewRootNodes | C_areFetchedItemsIntact | C_commitUpdatedNodes | C_commitRemovedNodes |
  C_commitAddedNodes | C_commitStoreInfo | C_beforeFinalize | C_finalizeCommit | C_deleteObsoleteEntries |
  C_deleteTrackedItemsValues | C_addActivelyPersistedItem

fun commitCode :: "commit_function \<Rightarrow> nat" where
  "commitCode C_unknown = 0"
| "commitCode C_createStore = 1"
| "commitCode C_lockTrackedItems = 2"
| "commitCode C_commitTrackedItemsValues = 3"
| "commitCode C_commitNewRootNodes = 4"
| "commitCode C_areFetchedItemsIntact = 5"
| "commitCode C_commitUpdatedNodes = 6"
| "commitCode C_commitRemovedNodes = 7"
| "commitCode C_commitAddedNodes = 8"
| "commitCode C_commitStoreInfo = 9"
| "commitCode C_beforeFinalize = 10"
| "commitCode C_finalizeCommit = 11"
| "commitCode C_deleteObsoleteEntries = 12"
| "commitCode C_deleteTrackedItemsValues = 13"
| "commitCode C_addActivelyPersistedItem = 99"

text \<open>The order of the numbers is the order of the steps of a commit.\<close>

instantiation commit_function :: linorder
begin

definition less_eq_commit_function :: "commit_function \<Rightarrow> commit_function \<Rightarrow> bool" where
  "less_eq_commit_function f g = (commitCode f \<le> commitCode g)"

definition less_commit_function :: "commit_function \<Rightarrow> commit_function \<Rightarrow> bool" where
  "less_commit_function f g = (commitCode f < commitCode g)"

lemma commitCode_inj: "commitCode f = commitCode g \<Longrightarrow> f = g"
  by (cases f; cases g) simp_all

instance
  by standard (auto simp: less_eq_commit_function_def less_commit_function_def commitCode_inj)

end

lemmas commit_order = less_eq_commit_function_def less_commit_function_def

section \<open>What is logged\<close>

type_synonym tracked_values = "(bool \<times> uuid blobs_payload) list"

datatype log_payload = NoPayload
  | ValuesPayload tracked_values
  | NodesPayload "uuid registry_payload list" "uuid blobs_payload list"
  | BlobsOnlyPayload "uuid blobs_payload list"
  | IDsPayload "uuid registry_payload list"
  | StoresPayload "store_info list"
  | FinalPayload "uuid registry_payload list" "uuid blobs_payload list" tracked_values
  | NamePayload string
  | ItemPayload "uuid blobs_payload"

type_synonym log_entries = "(commit_function \<times> log_payload) list"

text \<open>The log store and the priority log (\<open>sop.TransactionLog\<close>, \<open>sop.TransactionPriorityLog\<close>).\<close>

record 'w log_store =
  tl_Add :: "uuid \<Rightarrow> commit_function \<Rightarrow> log_payload \<Rightarrow> ('w, unit) gom"
  tl_Remove :: "uuid \<Rightarrow> ('w, unit) gom"
  tl_GetOne :: "('w, uuid \<times> string \<times> log_entries) gom"
  tl_GetOneOfHour :: "string \<Rightarrow> ('w, uuid \<times> log_entries) gom"
  pl_IsEnabled :: bool
  pl_Add :: "uuid \<Rightarrow> handle registry_payload list \<Rightarrow> ('w, unit) gom"
  pl_Get :: "uuid \<Rightarrow> ('w, handle registry_payload list option) gom"
  pl_Remove :: "uuid \<Rightarrow> ('w, unit) gom"
  pl_GetBatch :: "nat \<Rightarrow> ('w, (uuid \<times> handle registry_payload list) list) gom"
  pl_LogCommitChanges :: "store_info list \<Rightarrow> handle registry_payload list \<Rightarrow> handle registry_payload list \<Rightarrow>
    handle registry_payload list \<Rightarrow> handle registry_payload list \<Rightarrow> ('w, unit) gom"

text \<open>
  What else a transaction calls. Errors are texts: \<open>te_sopError\<close> says of a text whether it is a
  \<open>sop.Error\<close>, and whether its \<open>UserData\<close> is a lock key (\<open>errors.As\<close> and the type assertion), and
  \<open>te_restoreFailure\<close> whether the code is \<open>RestoreRegistryFileSectorFailure\<close>. The lock operations of the
  cache give the keys back as they leave them.
\<close>

record ('n, 'w) tx_env =
  te_id :: uuid
  te_maxTime :: int
  te_Lock :: "int \<Rightarrow> lock_key list \<Rightarrow> ('w, bool \<times> uuid \<times> lock_key list) gom"
  te_DualLock :: "int \<Rightarrow> lock_key list \<Rightarrow> ('w, bool \<times> uuid \<times> lock_key list) gom"
  te_IsLocked :: "lock_key list \<Rightarrow> ('w, bool) gom"
  te_IsLockedByOthers :: "string list \<Rightarrow> ('w, bool) gom"
  te_Unlock :: "lock_key list \<Rightarrow> ('w, unit) gom"
  te_GetEx :: "string \<Rightarrow> int \<Rightarrow> ('w, string option) gom"
  te_DeleteKey :: "string \<Rightarrow> ('w, bool) gom"
  te_SetNodeToMRU :: "uuid \<Rightarrow> 'n \<Rightarrow> int \<Rightarrow> ('w, unit) gom"
  te_DeleteNodes :: "uuid list \<Rightarrow> ('w, bool) gom"
  te_storeUpdate :: "store_info list \<Rightarrow> ('w, store_info list) gom"
  te_storeRemove :: "string \<Rightarrow> ('w, unit) gom"
  te_storeReplicate :: "store_info list \<Rightarrow> ('w, unit) gom"
  te_regReplicate :: "handle registry_payload list \<Rightarrow> handle registry_payload list \<Rightarrow>
    handle registry_payload list \<Rightarrow> handle registry_payload list \<Rightarrow> ('w, unit) gom"
  te_ctxErr :: "('w, string option) gom"
  te_Now :: "('w, int) gom"
  te_RandomSleep :: "('w, unit) gom"
  te_sopError :: "string \<Rightarrow> lock_key option option"
  te_restoreFailure :: "string \<Rightarrow> bool"
  te_onCommitHooks :: "('w, unit) gom list"

section \<open>The transaction\<close>

text \<open>The logger's fields first; \<open>nodesKeys\<close> is empty where Go has \<open>nil\<close>.\<close>

record ('n, 'w) txn =
  committedState :: commit_function
  logging :: bool
  transactionID :: uuid
  nodesKeys :: "lock_key list"
  updatedNodeHandles :: "handle registry_payload list"
  removedNodeHandles :: "handle registry_payload list"
  addedNodeHandles :: "handle registry_payload list"
  newRootNodeHandles :: "handle registry_payload list"
  updatedStoresInfo :: "store_info list"
  tn_updatedNodes :: "'n store_nodes"
  tn_addedNodes :: "'n store_nodes"
  tn_rootNodes :: "'n store_nodes"
  tn_world :: 'w

type_synonym ('n, 'w, 'a) txm = "(('n, 'w) txn, 'a) gom"

abbreviation inWorld :: "('w, 'a) gom \<Rightarrow> ('n, 'w, 'a) txm" where
  "inWorld \<equiv> zoom tn_world (\<lambda>w t. t\<lparr>tn_world := w\<rparr>)"

text \<open>
  \<open>btreeBackend\<close>: the functions through which the transaction reaches a B-tree's node repository, store
  description and item tracker. \<open>bk_walk\<close> is the order in which the run-time walks the map \<open>localCache\<close>.
\<close>

record ('n, 'w) backend =
  bk_created :: bool
  bk_repo :: "('n, 'w) txn \<Rightarrow> 'n node_repo"
  bk_walk :: "('n, 'w) txn \<Rightarrow> uuid list"
  bk_getStoreInfo :: "('n, 'w) txn \<Rightarrow> store_info"
  bk_hasTrackedItems :: "('n, 'w) txn \<Rightarrow> bool"
  bk_refetchAndMerge :: "('n, 'w, unit) txm"
  bk_checkTrackedItems :: "('n, 'w, unit) txm"
  bk_lockTrackedItems :: "int \<Rightarrow> ('n, 'w, unit) txm"
  bk_unlockTrackedItems :: "('n, 'w, unit) txm"
  bk_commitTrackedItemsValues :: "('n, 'w, unit) txm"
  bk_getForRollbackTrackedItemsValues :: "('n, 'w, uuid blobs_payload option) txm"
  bk_getObsoleteTrackedItemsValues :: "('n, 'w) txn \<Rightarrow> uuid blobs_payload option"

text \<open>All that a transaction works with.\<close>

record ('n, 'w) tx_parts =
  x_S :: "('n, 'w) services"
  x_L :: "'w log_store"
  x_E :: "('n, 'w) tx_env"
  x_B :: "('n, 'w) backend list"

section \<open>Logging\<close>

definition tlog :: "('n, 'w) tx_parts \<Rightarrow> commit_function \<Rightarrow> log_payload \<Rightarrow> ('n, 'w, unit) txm" where
  "tlog X f payload = gseq (modify (\<lambda>t. t\<lparr>committedState := f\<rparr>))
     (gbind (reads logging) (\<lambda>on. gbind (reads transactionID) (\<lambda>tid.
        if \<not> on \<or> f = C_unknown then ret () else inWorld (tl_Add (x_L X) tid f payload))))"

definition removeLogs :: "('n, 'w) tx_parts \<Rightarrow> ('n, 'w, unit) txm" where
  "removeLogs X = gbind (reads logging) (\<lambda>on. gbind (reads transactionID) (\<lambda>tid.
     if \<not> on then ret () else inWorld (tl_Remove (x_L X) tid)))"

text \<open>Lock keys for names: each has a lock ID of its own.\<close>

fun createLockKeys :: "('n, 'w) tx_parts \<Rightarrow> string list \<Rightarrow> ('n, 'w, lock_key list) txm" where
  "createLockKeys X [] = ret []"
| "createLockKeys X (k # ks) = gbind (inWorld (s_newUUID (x_S X))) (\<lambda>u. gbind (createLockKeys X ks) (\<lambda>r.
     ret (CreateLockKeys [(k, u)] @ r)))"

text \<open>\<open>sop.TimedOut\<close>, with the error it gives.\<close>

definition tx_timedOut :: "('n, 'w) tx_parts \<Rightarrow> string \<Rightarrow> int \<Rightarrow> int \<Rightarrow> ('n, 'w, unit) txm" where
  "tx_timedOut X name startTime limit = gbind (inWorld (te_ctxErr (x_E X))) (\<lambda>e. case e of
     Some c \<Rightarrow> fail (Err (name @ '' timed out: '' @ c))
   | None \<Rightarrow> gbind (inWorld (te_Now (x_E X))) (\<lambda>t.
       if t - startTime \<ge> limit then fail (Err (name @ '' timed out'')) else ret ()))"

section \<open>Successful runs\<close>

named_theorems run_elims "what a successful run is made of"

lemma gbindE [run_elims]:
  assumes "gbind m f s = (Inr x, s')"
  obtains y u where "m s = (Inr y, u)" "f y u = (Inr x, s')"
  using assms by (auto simp: gbind_def split: prod.splits sum.splits)

lemma gseqE [run_elims]:
  assumes "gseq m k s = (Inr x, s')"
  obtains y u where "m s = (Inr y, u)" "k u = (Inr x, s')"
  using assms unfolding gseq_def by (rule gbindE)

lemma readsE [run_elims]:
  assumes "reads f s = (Inr x, s')" obtains "x = f s" "s' = s"
  using assms unfolding reads_def prod.inject sum.inject by blast

lemma retE [run_elims]:
  assumes "ret y s = (Inr x, s')" obtains "x = y" "s' = s"
  using assms by (simp add: ret_def)

lemma modifyE [run_elims]:
  assumes "modify f s = (Inr x, s')" obtains "s' = f s"
  using assms by (simp add: modify_def)

lemma agetE [run_elims]:
  assumes "aget xs i s = (Inr x, s')" obtains "i < length xs" "x = xs ! i" "s' = s"
  using assms by (auto simp: aget_def sget_def lift_res_def split: if_splits)

lemma inWorldE [run_elims]:
  assumes "inWorld m s = (Inr x, s')"
  obtains w where "m (tn_world s) = (Inr x, w)" "s' = s\<lparr>tn_world := w\<rparr>"
  using assms by (auto simp: zoom_def split: prod.splits)

lemma tolerateE [run_elims]:
  assumes "tolerate m s = (Inr x, s')" obtains "s' = snd (m s)"
  using assms by (auto simp: tolerate_def attempt_def gbind_def ret_def split: prod.splits sum.splits go_error.splits)

lemma failE [run_elims]: "fail e s = (Inr x, s') \<Longrightarrow> R"
  by (simp add: fail_def)

end
