(* ===== verification/Tx_Commit.thy ===== *)
theory Tx_Commit
  imports Tx_Log
begin

text \<open>
  The commit of a transaction over its B-trees (\<open>phase1Commit\<close>, \<open>phase2Commit\<close>, \<open>rollback\<close> and what they
  call in \<open>common/twophasecommittransaction.go\<close> and \<open>common/twophasecommittransaction2.go\<close>). The background
  tasks of phase 2 run in the order in which they are started.
\<close>

section \<open>The back ends together\<close>

definition hasTrackedItems :: "('n, 'w) tx_parts \<Rightarrow> ('n, 'w) txn \<Rightarrow> bool" where
  "hasTrackedItems X t = list_ex (\<lambda>b. bk_hasTrackedItems b t) (x_B X)"

text \<open>A loop over the back ends that have tracked items.\<close>

definition forTracked :: "('n, 'w) tx_parts \<Rightarrow> (('n, 'w) backend \<Rightarrow> ('n, 'w, unit) txm) \<Rightarrow> ('n, 'w, unit) txm" where
  "forTracked X f = gfor (x_B X) (\<lambda>b. gbind (reads (bk_hasTrackedItems b)) (\<lambda>h. if h then f b else ret ()))"

definition checkTrackedItems :: "('n, 'w) tx_parts \<Rightarrow> ('n, 'w, unit) txm" where
  "checkTrackedItems X = forTracked X bk_checkTrackedItems"

definition tx_lockTrackedItems :: "('n, 'w) tx_parts \<Rightarrow> ('n, 'w, unit) txm" where
  "tx_lockTrackedItems X = forTracked X (\<lambda>b. bk_lockTrackedItems b (te_maxTime (x_E X)))"

fun unlockEach :: "('n, 'w) backend list \<Rightarrow> string option \<Rightarrow> ('n, 'w, string option) txm" where
  "unlockEach [] lastErr = ret lastErr"
| "unlockEach (b # bs) lastErr = gbind (reads (bk_hasTrackedItems b)) (\<lambda>h.
     gbind (if h then noteErr Replace [] lastErr (bk_unlockTrackedItems b) else ret lastErr) (unlockEach bs))"

definition unlockTrackedItems :: "('n, 'w) tx_parts \<Rightarrow> ('n, 'w, unit) txm" where
  "unlockTrackedItems X = gbind (unlockEach (x_B X) None) finishWith"

definition tx_commitTrackedItemsValues :: "('n, 'w) tx_parts \<Rightarrow> ('n, 'w, unit) txm" where
  "tx_commitTrackedItemsValues X = gfor (x_B X) bk_commitTrackedItemsValues"

definition refetchAndMergeModifications :: "('n, 'w) tx_parts \<Rightarrow> ('n, 'w, unit) txm" where
  "refetchAndMergeModifications X = gfor (x_B X) bk_refetchAndMerge"

text \<open>The IDs of values to delete, each with whether they are in the shared cache.\<close>

definition valuesOf :: "('n, 'w) backend \<Rightarrow> ('n, 'w) txn \<Rightarrow> uuid blobs_payload option \<Rightarrow> tracked_values" where
  "valuesOf b t v = (case v of None \<Rightarrow> []
     | Some p \<Rightarrow> if bp_Blobs p = [] then [] else [(IsValueDataGloballyCached (bk_getStoreInfo b t), p)])"

fun getForRollback :: "('n, 'w) backend list \<Rightarrow> ('n, 'w, tracked_values) txm" where
  "getForRollback [] = ret []"
| "getForRollback (b # bs) = gbind (bk_getForRollbackTrackedItemsValues b) (\<lambda>v.
     gbind (reads (\<lambda>t. valuesOf b t v)) (\<lambda>i. gbind (getForRollback bs) (\<lambda>r. ret (i @ r))))"

definition getForRollbackTrackedItemsValues :: "('n, 'w) tx_parts \<Rightarrow> ('n, 'w, tracked_values) txm" where
  "getForRollbackTrackedItemsValues X = getForRollback (x_B X)"

definition getObsoleteTrackedItemsValues :: "('n, 'w) tx_parts \<Rightarrow> ('n, 'w) txn \<Rightarrow> tracked_values" where
  "getObsoleteTrackedItemsValues X t = concat (map (\<lambda>b. valuesOf b t (bk_getObsoleteTrackedItemsValues b t)) (x_B X))"

definition formatItemKey :: "string \<Rightarrow> string" where
  "formatItemKey k = ''V'' @ k"

fun deleteKeys :: "('n, 'w) tx_parts \<Rightarrow> uuid list \<Rightarrow> string option \<Rightarrow> ('n, 'w, string option) txm" where
  "deleteKeys X [] lastErr = ret lastErr"
| "deleteKeys X (u # us) lastErr = gbind (noteErr Replace [] lastErr
     (inWorld (te_DeleteKey (x_E X) (formatItemKey (uuid_String u))))) (deleteKeys X us)"

fun deleteValues :: "('n, 'w) tx_parts \<Rightarrow> tracked_values \<Rightarrow> string option \<Rightarrow> ('n, 'w, string option) txm" where
  "deleteValues X [] lastErr = ret lastErr"
| "deleteValues X ((cached, p) # vs) lastErr =
     gbind (if cached then deleteKeys X (bp_Blobs p) lastErr else ret lastErr) (\<lambda>e.
     gbind (noteErr Replace [] e (inWorld (s_blobRemove (x_S X) [p]))) (deleteValues X vs))"

definition tx_deleteTrackedItemsValues :: "('n, 'w) tx_parts \<Rightarrow> tracked_values \<Rightarrow> ('n, 'w, unit) txm" where
  "tx_deleteTrackedItemsValues X vs = gbind (deleteValues X vs None) finishWith"

section \<open>Classification of the nodes\<close>

record 'n node_sets =
  ns_updated :: "'n store_nodes"
  ns_removed :: "'n store_nodes"
  ns_added :: "'n store_nodes"
  ns_fetched :: "'n store_nodes"
  ns_root :: "'n store_nodes"

text \<open>\<open>None\<close> is the new root of a store that was empty: it can be merged between transactions.\<close>

definition kindOf :: "('n, 'w) tx_parts \<Rightarrow> ('n, 'w) txn \<Rightarrow> ('n, 'w) backend \<Rightarrow> 'n cached_node \<Rightarrow> action_type option" where
  "kindOf X t b c = (if nr_count (bk_repo b t) = 0 \<and> cn_action c = addAction \<and>
       RootNodeID (bk_getStoreInfo b t) = s_ID (x_S X) (cn_node c) then None else Some (cn_action c))"

definition nodesOfKind :: "('n, 'w) tx_parts \<Rightarrow> ('n, 'w) txn \<Rightarrow> action_type option \<Rightarrow> ('n, 'w) backend \<Rightarrow> 'n store_nodes" where
  "nodesOfKind X t k b = (let ns = map cn_node (filter (\<lambda>c. kindOf X t b c = k)
       (List.map_filter (localCache (bk_repo b t)) (bk_walk b t)))
     in if ns = [] then [] else [(bk_getStoreInfo b t, ns)])"

definition storesNodes :: "('n, 'w) tx_parts \<Rightarrow> ('n, 'w) txn \<Rightarrow> action_type option \<Rightarrow> 'n store_nodes" where
  "storesNodes X t k = concat (map (nodesOfKind X t k) (x_B X))"

definition classifyModifiedNodes :: "('n, 'w) tx_parts \<Rightarrow> ('n, 'w) txn \<Rightarrow> 'n node_sets" where
  "classifyModifiedNodes X t = \<lparr>ns_updated = storesNodes X t (Some updateAction),
     ns_removed = storesNodes X t (Some removeAction), ns_added = storesNodes X t (Some addAction),
     ns_fetched = storesNodes X t (Some getAction), ns_root = storesNodes X t None\<rparr>"

section \<open>Counts of the stores\<close>

fun commitStoresInfo :: "('n, 'w) tx_parts \<Rightarrow> ('n, 'w) backend list \<Rightarrow> ('n, 'w, store_info list) txm" where
  "commitStoresInfo X [] = ret []"
| "commitStoresInfo X (b # bs) = gbind (reads (bk_getStoreInfo b)) (\<lambda>si. gbind (reads (bk_repo b)) (\<lambda>r.
     let d = si_Count si - nr_count r in
     gbind (if d = 0 then ret [] else gbind (inWorld (s_now (x_S X))) (\<lambda>t. ret [si\<lparr>CountDelta := d, Timestamp := t\<rparr>])) (\<lambda>s.
     gbind (commitStoresInfo X bs) (\<lambda>ss. ret (s @ ss)))))"

definition commitStores :: "('n, 'w) tx_parts \<Rightarrow> ('n, 'w, store_info list) txm" where
  "commitStores X = gbind (commitStoresInfo X (x_B X)) (\<lambda>stores.
     if stores = [] then ret [] else inWorld (te_storeUpdate (x_E X) stores))"

definition rollbackStoreInfo :: "('n, 'w) txn \<Rightarrow> ('n, 'w) backend \<Rightarrow> store_info" where
  "rollbackStoreInfo t b = (let si = bk_getStoreInfo b t in si\<lparr>CountDelta := nr_count (bk_repo b t) - si_Count si\<rparr>)"

definition getRollbackStoresInfo :: "('n, 'w) tx_parts \<Rightarrow> ('n, 'w) txn \<Rightarrow> store_info list" where
  "getRollbackStoresInfo X t = map (rollbackStoreInfo t) (x_B X)"

section \<open>Locks on the nodes\<close>

definition tx_unlockNodesKeys :: "('n, 'w) tx_parts \<Rightarrow> ('n, 'w, unit) txm" where
  "tx_unlockNodesKeys X = gbind (reads nodesKeys) (\<lambda>ks. if ks = [] then ret ()
     else gbind (attempt (inWorld (te_Unlock (x_E X) ks))) (\<lambda>r. gseq (modify (\<lambda>t. t\<lparr>nodesKeys := []\<rparr>))
       (case r of Inl e \<Rightarrow> fail (Err e) | Inr _ \<Rightarrow> ret ())))"

definition tx_nodesKeysExist :: "('n, 'w) txn \<Rightarrow> bool" where
  "tx_nodesKeysExist t = (nodesKeys t \<noteq> [])"

definition nodesKeysNilOrLocked :: "('n, 'w) tx_parts \<Rightarrow> ('n, 'w, unit) txm" where
  "nodesKeysNilOrLocked X = gbind (reads nodesKeys) (\<lambda>ks. if ks = [] then ret ()
     else gbind (attempt (inWorld (te_IsLocked (x_E X) ks))) (\<lambda>r.
       if r = Inr True then ret () else fail (Err ''node locks lost or expired during commit phase'')))"

text \<open>
  The keys by the IDs of their nodes, in the order of the IDs: the in-memory B-tree \<open>lookupByUUID\<close> with
  unique keys as the sorted sequence that it represents.
\<close>

fun addKey :: "uuid \<Rightarrow> lock_key \<Rightarrow> (uuid \<times> lock_key) list \<Rightarrow> (uuid \<times> lock_key) list" where
  "addKey i k [] = [(i, k)]"
| "addKey i k ((j, l) # xs) = (let c = UUID_Compare i j in
     if c < 0 then (i, k) # (j, l) # xs else if c = 0 then (j, l) # xs else (j, l) # addKey i k xs)"

definition updateKey :: "uuid \<Rightarrow> lock_key \<Rightarrow> (uuid \<times> lock_key) list \<Rightarrow> (uuid \<times> lock_key) list" where
  "updateKey i k xs = map (\<lambda>(j, l). if j = i then (j, k) else (j, l)) xs"

fun addKeys :: "('n, 'w) tx_parts \<Rightarrow> uuid list \<Rightarrow> (uuid \<times> lock_key) list \<Rightarrow> ('n, 'w, (uuid \<times> lock_key) list) txm" where
  "addKeys X [] xs = ret xs"
| "addKeys X (i # is) xs = gbind (createLockKeys X [uuid_String i]) (\<lambda>ks. gbind (aget ks 0) (\<lambda>k.
     addKeys X is (addKey i k xs)))"

text \<open>Keys that are held already are kept, those no longer needed are released.\<close>

fun keepHeld :: "('n, 'w) tx_parts \<Rightarrow> (string \<rightharpoonup> uuid) \<Rightarrow> lock_key list \<Rightarrow> (uuid \<times> lock_key) list \<Rightarrow>
    ('n, 'w, (uuid \<times> lock_key) list) txm" where
  "keepHeld X byName [] xs = ret xs"
| "keepHeld X byName (nk # nks) xs = (case byName (lk_Key nk) of
     Some i \<Rightarrow> keepHeld X byName nks (updateKey i nk xs)
   | None \<Rightarrow> gseq (tolerate (inWorld (te_Unlock (x_E X) [nk]))) (keepHeld X byName nks xs))"

definition mergeNodesKeys :: "('n, 'w) tx_parts \<Rightarrow> 'n store_nodes \<Rightarrow> 'n store_nodes \<Rightarrow> ('n, 'w, unit) txm" where
  "mergeNodesKeys X updated removed = gbind (reads nodesKeys) (\<lambda>held.
     if updated = [] \<and> removed = []
     then gseq (tolerate (inWorld (te_Unlock (x_E X) held))) (modify (\<lambda>t. t\<lparr>nodesKeys := []\<rparr>))
     else gbind (addKeys X (extractUUIDs (x_S X) updated) []) (\<lambda>xs.
       gbind (addKeys X (extractUUIDs (x_S X) removed) xs) (\<lambda>xs.
       if xs = [] then fail Panic
       else gbind (keepHeld X (map_of (rev (map (\<lambda>(i, k). (lk_Key k, i)) xs))) held xs) (\<lambda>xs.
         modify (\<lambda>t. t\<lparr>nodesKeys := map snd xs\<rparr>)))))"

section \<open>Rollback\<close>

text \<open>An undo step that is taken when the log has passed its commit step; its error replaces the last one.\<close>

definition undoIf :: "bool \<Rightarrow> string option \<Rightarrow> ('n, 'w, unit) txm \<Rightarrow> ('n, 'w, string option) txm" where
  "undoIf c lastErr m = (if c then noteErr Replace [] lastErr m else ret lastErr)"

definition withRepo :: "('n, 'w) tx_parts \<Rightarrow> ('w, 'a) gom \<Rightarrow> ('n, 'w, 'a) txm" where
  "withRepo X m = (if x_B X = [] then fail Panic else inWorld m)"

text \<open>Undoing the changes to the stores' counts; stores created by this transaction are removed instead.\<close>

definition undoStores :: "('n, 'w) tx_parts \<Rightarrow> ('n, 'w, unit) txm" where
  "undoStores X = gbind (reads (\<lambda>t. map (rollbackStoreInfo t) (filter (\<lambda>b. \<not> bk_created b) (x_B X)))) (\<lambda>stores.
     if stores = [] then ret () else gseq (inWorld (te_storeUpdate (x_E X) stores)) (ret ()))"

fun removeCreated :: "('n, 'w) tx_parts \<Rightarrow> ('n, 'w) backend list \<Rightarrow> string option \<Rightarrow> ('n, 'w, string option) txm" where
  "removeCreated X [] lastErr = ret lastErr"
| "removeCreated X (b # bs) lastErr = gbind (reads (\<lambda>t. si_Name (bk_getStoreInfo b t))) (\<lambda>name.
     gbind (undoIf (bk_created b) lastErr (inWorld (te_storeRemove (x_E X) name))) (removeCreated X bs))"

definition undoValues :: "('n, 'w) tx_parts \<Rightarrow> ('n, 'w, unit) txm" where
  "undoValues X = gbind (getForRollbackTrackedItemsValues X) (tx_deleteTrackedItemsValues X)"

definition forgetLogs :: "('n, 'w) tx_parts \<Rightarrow> ('n, 'w, unit) txm" where
  "forgetLogs X = gseq (tolerate (removeLogs X)) (tolerate (tlog X C_unknown NoPayload))"

definition undoNodes :: "('n, 'w) tx_parts \<Rightarrow> commit_function \<Rightarrow> 'n node_sets \<Rightarrow> string option \<Rightarrow> ('n, 'w, string option) txm" where
  "undoNodes X st ns e = (let S = x_S X; vids = convertToRegistryRequestPayload S; bibs = convertToBlobRequestPayload S in
     gbind (undoIf (C_commitAddedNodes < st) e
       (withRepo X (rollbackAddedNodes S (vids (ns_added ns)) (bibs (ns_added ns))))) (\<lambda>e.
     gbind (reads tx_nodesKeysExist) (\<lambda>locked.
     gbind (undoIf (C_commitRemovedNodes < st) e
       (withRepo X (rollbackRemovedNodes S locked (vids (ns_removed ns))))) (\<lambda>e.
     gbind (undoIf (C_commitUpdatedNodes < st) e
       (withRepo X (rollbackUpdatedNodes S locked (vids (ns_updated ns))))) (\<lambda>e.
     gseq (tolerate (tx_unlockNodesKeys X))
       (undoIf (C_commitNewRootNodes < st) e
         (withRepo X (rollbackNewRootNodes S (C_commitNewRootNodes < st) (vids (ns_root ns)) (bibs (ns_root ns))))))))))"

definition tx_rollback :: "('n, 'w) tx_parts \<Rightarrow> bool \<Rightarrow> ('n, 'w, unit) txm" where
  "tx_rollback X rollbackTrackedItemsValues = gbind (reads committedState) (\<lambda>st.
     if st = C_addActivelyPersistedItem
     then gbind (noteErr Replace [] None (undoValues X)) (\<lambda>e. gseq (forgetLogs X) (finishWith e))
     else if C_finalizeCommit < st then fail (Err ''transaction got committed, 'can't rollback it'')
     else gbind (undoIf (C_beforeFinalize \<le> st) None (inWorld (pl_Remove (x_L X) (te_id (x_E X))))) (\<lambda>e.
       gbind (reads (classifyModifiedNodes X)) (\<lambda>ns.
       gbind (undoIf (C_commitStoreInfo < st) e (undoStores X)) (\<lambda>e.
       gbind (undoNodes X st ns e) (\<lambda>e.
       gbind (undoIf (rollbackTrackedItemsValues \<and> C_commitTrackedItemsValues \<le> st) e (undoValues X)) (\<lambda>e.
       gbind (undoIf (C_lockTrackedItems \<le> st) e (unlockTrackedItems X)) (\<lambda>e.
       gbind (if C_createStore \<le> st then removeCreated X (x_B X) e else ret e) (\<lambda>e.
       gseq (forgetLogs X) (finishWith e)))))))))"

section \<open>Phase 1\<close>

definition phase1CommitMaxRetryCount :: nat where
  "phase1CommitMaxRetryCount = 30"

definition phase1LockAcquireMaxRetryCount :: nat where
  "phase1LockAcquireMaxRetryCount = 300"

text \<open>The variables of \<open>phase1Commit\<close>.\<close>

record 'n p1_vars =
  p1_nodes :: "'n node_sets"
  p1_updatedHandles :: "handle registry_payload list"
  p1_removedHandles :: "handle registry_payload list"
  p1_refetch :: bool
  p1_retry :: nat
  p1_lockRetry :: nat
  p1_preCommitTID :: uuid

text \<open>Another round of the loop because of locks, up to the limit.\<close>

definition retryLocks :: "('n, 'w) tx_parts \<Rightarrow> string \<Rightarrow> bool \<Rightarrow> 'n p1_vars \<Rightarrow> ('n, 'w, 'n p1_vars) txm" where
  "retryLocks X what refetch v = (let v = v\<lparr>p1_lockRetry := Suc (p1_lockRetry v)\<rparr> in
     if p1_lockRetry v \<ge> phase1LockAcquireMaxRetryCount then fail (Err (''phase 1 commit failed to '' @ what))
     else gseq (inWorld (te_RandomSleep (x_E X))) (ret (v\<lparr>p1_refetch := p1_refetch v \<or> refetch\<rparr>)))"

text \<open>A call of the cache that may leave the keys changed.\<close>

definition lockKeys :: "('n, 'w) tx_parts \<Rightarrow> (int \<Rightarrow> lock_key list \<Rightarrow> ('w, bool \<times> uuid \<times> lock_key list) gom) \<Rightarrow> ('n, 'w, bool) txm" where
  "lockKeys X lock = gbind (reads nodesKeys) (\<lambda>ks. gbind (inWorld (lock (te_maxTime (x_E X)) ks)) (\<lambda>(ok, _, ks).
     gseq (modify (\<lambda>t. t\<lparr>nodesKeys := ks\<rparr>)) (ret ok)))"

definition releaseKeys :: "('n, 'w) tx_parts \<Rightarrow> ('n, 'w, unit) txm" where
  "releaseKeys X = gbind (reads nodesKeys) (\<lambda>ks. tolerate (inWorld (te_Unlock (x_E X) ks)))"

text \<open>Fetching the nodes again and replaying the transaction's actions on them.\<close>

definition remerge :: "('n, 'w) tx_parts \<Rightarrow> 'n p1_vars \<Rightarrow> ('n, 'w, 'n p1_vars) txm" where
  "remerge X v = gseq (refetchAndMergeModifications X) (gseq (tlog X C_lockTrackedItems NoPayload)
     (gseq (tx_lockTrackedItems X) (gbind (reads (classifyModifiedNodes X)) (\<lambda>ns.
     gseq (mergeNodesKeys X (ns_updated ns) (ns_removed ns)) (ret (v\<lparr>p1_nodes := ns, p1_refetch := False\<rparr>))))))"

text \<open>The locks on the nodes: \<open>False\<close> means another round.\<close>

definition lockNodes :: "('n, 'w) tx_parts \<Rightarrow> 'n p1_vars \<Rightarrow> ('n, 'w, bool \<times> 'n p1_vars) txm" where
  "lockNodes X v = gbind (attempt (lockKeys X (te_Lock (x_E X)))) (\<lambda>r. case r of
     Inl e \<Rightarrow> gseq (releaseKeys X) (fail (Err e))
   | Inr False \<Rightarrow> gseq (releaseKeys X) (gbind (retryLocks X ''acquire node locks'' True v) (\<lambda>v. ret (False, v)))
   | Inr True \<Rightarrow> gbind (reads nodesKeys) (\<lambda>ks. gbind (inWorld (te_IsLocked (x_E X) ks)) (\<lambda>ok.
       if \<not> ok then gbind (retryLocks X ''confirm node locks'' False v) (\<lambda>v. ret (False, v))
       else if \<not> p1_refetch v then ret (True, v)
       else gbind (remerge X v) (\<lambda>v. gbind (attempt (lockKeys X (te_DualLock (x_E X)))) (\<lambda>r.
         if r = Inr True then ret (True, v)
         else gseq (releaseKeys X) (gbind (retryLocks X ''acquire node locks (dual lock)'' True v) (\<lambda>v. ret (False, v))))))))"

section \<open>The commit steps\<close>

definition tx_priorityRollback :: "('n, 'w) tx_parts \<Rightarrow> uuid \<Rightarrow> ('n, 'w, unit) txm" where
  "tx_priorityRollback X tid = (let L = x_L X in if \<not> pl_IsEnabled L then ret ()
     else gbind (inWorld (pl_Get L tid)) (\<lambda>r. case r of
       None \<Rightarrow> inWorld (pl_Remove L tid)
     | Some hs \<Rightarrow> gbind (attempt (inWorld (s_regUpdateNoLocks (x_S X) False hs))) (\<lambda>r. case r of
         Inl e \<Rightarrow> fail (Err (''RestoreRegistryFileSectorFailure: '' @ e))
       | Inr _ \<Rightarrow> inWorld (pl_Remove L tid))))"

text \<open>
  A lock on a registry sector that could not be had: the owner's priority log is rolled back and its lock
  released, when the error names the lock.
\<close>

definition recoverOwner :: "('n, 'w) tx_parts \<Rightarrow> string \<Rightarrow> ('n, 'w, unit) txm" where
  "recoverOwner X e = (case te_sopError (x_E X) e of
     Some (Some ud) \<Rightarrow> gbind (attempt (tx_priorityRollback X (lk_LockID ud))) (\<lambda>r. case r of
       Inl _ \<Rightarrow> fail (Err e)
     | Inr _ \<Rightarrow> tolerate (inWorld (te_Unlock (x_E X) [ud\<lparr>lk_IsLockOwner := True\<rparr>])))
   | _ \<Rightarrow> fail (Err e))"

definition handleRegistrySectorLockTimeout :: "('n, 'w) tx_parts \<Rightarrow> string \<Rightarrow> ('n, 'w, unit) txm" where
  "handleRegistrySectorLockTimeout X e = gbind (createLockKeys X [''DTrollbk'']) (\<lambda>lk.
     gbind (attempt (inWorld (te_DualLock (x_E X) (minutes 5) lk))) (\<lambda>r. case r of
       Inr (True, _, lk) \<Rightarrow> deferred (recoverOwner X e) (inWorld (te_Unlock (x_E X) lk))
     | _ \<Rightarrow> fail (Err e)))"

text \<open>A commit step whose \<open>sop.Error\<close> may be recovered from: \<open>None\<close> then.\<close>

definition stepOr :: "('n, 'w) tx_parts \<Rightarrow> ('w, 'a) gom \<Rightarrow> ('n, 'w, 'a option) txm" where
  "stepOr X m = gbind (attempt (withRepo X m)) (\<lambda>r. case r of
     Inr x \<Rightarrow> ret (Some x)
   | Inl e \<Rightarrow> (case te_sopError (x_E X) e of None \<Rightarrow> fail (Err e)
     | Some _ \<Rightarrow> gseq (handleRegistrySectorLockTimeout X e) (ret None)))"

definition outcome :: "(bool \<times> handle registry_payload list) option \<Rightarrow> bool \<times> handle registry_payload list" where
  "outcome r = (case r of None \<Rightarrow> (False, []) | Some q \<Rightarrow> q)"

text \<open>
  The variables of the code hold pointers to the nodes: what the trackers do to the items in them when they
  store the values is seen afterwards, so the nodes are read again here.
\<close>

definition commitValues :: "('n, 'w) tx_parts \<Rightarrow> 'n p1_vars \<Rightarrow> ('n, 'w, 'n p1_vars) txm" where
  "commitValues X v = gbind (getForRollbackTrackedItemsValues X) (\<lambda>vs.
     gseq (tlog X C_commitTrackedItemsValues (ValuesPayload vs)) (gseq (tx_commitTrackedItemsValues X)
     (gseq (if p1_preCommitTID v = NilUUID then ret () else tolerate (inWorld (tl_Remove (x_L X) (p1_preCommitTID v))))
     (gbind (reads (classifyModifiedNodes X)) (\<lambda>ns. ret (v\<lparr>p1_preCommitTID := NilUUID, p1_nodes := ns\<rparr>))))))"

definition commitRoots :: "('n, 'w) tx_parts \<Rightarrow> 'n p1_vars \<Rightarrow> ('n, 'w, bool) txm" where
  "commitRoots X v = (let S = x_S X; roots = ns_root (p1_nodes v) in
     gseq (tlog X C_commitNewRootNodes (NodesPayload (convertToRegistryRequestPayload S roots) (convertToBlobRequestPayload S roots)))
     (gbind (stepOr X (commitNewRootNodes S roots)) (\<lambda>r.
      gseq (modify (\<lambda>t. t\<lparr>newRootNodeHandles := snd (outcome r)\<rparr>)) (ret (fst (outcome r))))))"

definition checkFetched :: "('n, 'w) tx_parts \<Rightarrow> 'n p1_vars \<Rightarrow> ('n, 'w, bool) txm" where
  "checkFetched X v = gseq (tlog X C_areFetchedItemsIntact NoPayload)
     (withRepo X (areFetchedItemsIntact (x_S X) (ns_fetched (p1_nodes v))))"

definition commitUpdates :: "('n, 'w) tx_parts \<Rightarrow> 'n p1_vars \<Rightarrow> ('n, 'w, bool \<times> 'n p1_vars) txm" where
  "commitUpdates X v = gbind (stepOr X (commitUpdatedNodes (x_S X) (ns_updated (p1_nodes v)))) (\<lambda>r.
     gseq (tlog X C_commitUpdatedNodes (BlobsOnlyPayload (extractInactiveBlobsIDs (snd (outcome r)))))
       (ret (fst (outcome r), v\<lparr>p1_updatedHandles := snd (outcome r)\<rparr>)))"

definition commitRemovals :: "('n, 'w) tx_parts \<Rightarrow> 'n p1_vars \<Rightarrow> ('n, 'w, bool \<times> 'n p1_vars) txm" where
  "commitRemovals X v = (let S = x_S X; removed = ns_removed (p1_nodes v) in
     gseq (tlog X C_commitRemovedNodes (IDsPayload (convertToRegistryRequestPayload S removed)))
     (gbind (withRepo X (commitRemovedNodes S removed)) (\<lambda>(ok, hs). ret (ok, v\<lparr>p1_removedHandles := hs\<rparr>))))"

definition commitAdditions :: "('n, 'w) tx_parts \<Rightarrow> 'n p1_vars \<Rightarrow> ('n, 'w, bool) txm" where
  "commitAdditions X v = (let S = x_S X; added = ns_added (p1_nodes v) in
     gseq (tlog X C_commitAddedNodes (NodesPayload (convertToRegistryRequestPayload S added) (convertToBlobRequestPayload S added)))
     (gbind (stepOr X (commitAddedNodes S added)) (\<lambda>r.
      gseq (modify (\<lambda>t. t\<lparr>addedNodeHandles := (case r of None \<Rightarrow> [] | Some hs \<Rightarrow> hs)\<rparr>)) (ret (r \<noteq> None)))))"

text \<open>Each step is taken only when those before it were successful.\<close>

definition commitSteps :: "('n, 'w) tx_parts \<Rightarrow> 'n p1_vars \<Rightarrow> ('n, 'w, bool \<times> 'n p1_vars) txm" where
  "commitSteps X v = gbind (commitValues X v) (\<lambda>v. gbind (commitRoots X v) (\<lambda>ok. if \<not> ok then ret (False, v)
     else gbind (checkFetched X v) (\<lambda>ok. if \<not> ok then ret (False, v)
     else gbind (commitUpdates X v) (\<lambda>(ok, v). if \<not> ok then ret (False, v)
     else gbind (commitRemovals X v) (\<lambda>(ok, v). if \<not> ok then ret (False, v)
     else gbind (commitAdditions X v) (\<lambda>ok. ret (ok, v)))))))"

definition retryCommit :: "('n, 'w) tx_parts \<Rightarrow> 'n p1_vars \<Rightarrow> ('n, 'w, 'n p1_vars) txm" where
  "retryCommit X v = (let v = v\<lparr>p1_retry := Suc (p1_retry v)\<rparr> in
     if p1_retry v \<ge> phase1CommitMaxRetryCount then fail (Err ''phase 1 commit exceeded retry limit after rollback'')
     else gbind (attempt (tx_rollback X False)) (\<lambda>r. case r of
       Inl e \<Rightarrow> fail (Err (''phase 1 commit failed, then rollback errored with: '' @ e))
     | Inr _ \<Rightarrow> gseq (inWorld (te_RandomSleep (x_E X))) (ret (v\<lparr>p1_refetch := True\<rparr>))))"

text \<open>
  The loop, with fuel: \<open>None\<close> is not a result of the program. Each round that does not end it counts one of
  the two retry counters up, so the fuel \<open>phase1Fuel\<close> is never used up.
\<close>

definition phase1Round :: "('n, 'w) tx_parts \<Rightarrow> int \<Rightarrow> 'n p1_vars \<Rightarrow> ('n, 'w, bool \<times> 'n p1_vars) txm" where
  "phase1Round X startTime v = gseq (tx_timedOut X ''transaction'' startTime (te_maxTime (x_E X)))
     (gbind (lockNodes X v) (\<lambda>(locked, v). if \<not> locked then ret (False, v)
      else gbind (commitSteps X v) (\<lambda>(ok, v). if ok then ret (True, v)
        else gbind (retryCommit X v) (\<lambda>v. ret (False, v)))))"

fun phase1Loop :: "('n, 'w) tx_parts \<Rightarrow> nat \<Rightarrow> int \<Rightarrow> 'n p1_vars \<Rightarrow> ('n, 'w, 'n p1_vars option) txm" where
  "phase1Loop X 0 startTime v = ret None"
| "phase1Loop X (Suc n) startTime v = gbind (phase1Round X startTime v) (\<lambda>(done, v).
     if done then ret (Some v) else phase1Loop X n startTime v)"

definition phase1Fuel :: nat where
  "phase1Fuel = 331"

text \<open>What follows the loop.\<close>

definition confirmLocks :: "('n, 'w) tx_parts \<Rightarrow> ('n, 'w, unit) txm" where
  "confirmLocks X = gbind (attempt (nodesKeysNilOrLocked X)) (\<lambda>r. case r of
     Inr _ \<Rightarrow> ret ()
   | Inl e \<Rightarrow> gbind (attempt (lockKeys X (te_DualLock (x_E X)))) (\<lambda>r. if r = Inr True then ret () else fail (Err e)))"

definition finishPhase1 :: "('n, 'w) tx_parts \<Rightarrow> 'n p1_vars \<Rightarrow> ('n, 'w, unit) txm" where
  "finishPhase1 X v =
     gseq (gbind (reads (getRollbackStoresInfo X)) (\<lambda>si. tlog X C_commitStoreInfo (StoresPayload si)))
     (gbind (commitStores X) (\<lambda>si. gseq (modify (\<lambda>t. t\<lparr>updatedStoresInfo := si\<rparr>))
     (gseq (tlog X C_beforeFinalize NoPayload)
     (gseq (if p1_updatedHandles v = [] \<and> p1_removedHandles v = [] then ret ()
            else inWorld (pl_Add (x_L X) (te_id (x_E X)) (p1_updatedHandles v @ p1_removedHandles v)))
     (gseq (checkTrackedItems X) (gseq (confirmLocks X)
     (modify (\<lambda>t. t\<lparr>updatedNodeHandles := activateInactiveNodes (p1_updatedHandles v),
        removedNodeHandles := touchNodes (p1_removedHandles v), tn_addedNodes := ns_added (p1_nodes v),
        tn_rootNodes := ns_root (p1_nodes v), tn_updatedNodes := ns_updated (p1_nodes v)\<rparr>))))))))"

definition p1_start :: "'n node_sets \<Rightarrow> uuid \<Rightarrow> 'n p1_vars" where
  "p1_start ns pre = \<lparr>p1_nodes = ns, p1_updatedHandles = [], p1_removedHandles = [], p1_refetch = False,
     p1_retry = 0, p1_lockRetry = 0, p1_preCommitTID = pre\<rparr>"

definition phase1Commit :: "('n, 'w) tx_parts \<Rightarrow> ('n, 'w, unit) txm" where
  "phase1Commit X = gbind (reads id) (\<lambda>t. if \<not> hasTrackedItems X t then ret ()
     else let pre = (if committedState t = C_addActivelyPersistedItem then transactionID t else NilUUID) in
       gseq (modify (\<lambda>t. t\<lparr>transactionID := te_id (x_E X)\<rparr>))
       (gseq (tlog X C_lockTrackedItems NoPayload) (gseq (tx_lockTrackedItems X)
       (gbind (reads (classifyModifiedNodes X)) (\<lambda>ns.
       gseq (mergeNodesKeys X (ns_updated ns) (ns_removed ns))
       (gbind (inWorld (te_Now (x_E X))) (\<lambda>startTime.
        gbind (phase1Loop X phase1Fuel startTime (p1_start ns pre)) (\<lambda>r. case r of
          None \<Rightarrow> fail OutOfFuel
        | Some v \<Rightarrow> finishPhase1 X v)))))))) "

section \<open>Readers\<close>

text \<open>The loop of a reader's commit is bounded by time only: \<open>n\<close> is the number of rounds given to it.\<close>

fun readerLoop :: "('n, 'w) tx_parts \<Rightarrow> nat \<Rightarrow> int \<Rightarrow> ('n, 'w, unit) txm" where
  "readerLoop X 0 startTime = fail OutOfFuel"
| "readerLoop X (Suc n) startTime = gseq (tx_timedOut X ''transaction'' startTime (te_maxTime (x_E X)))
     (gbind (reads (classifyModifiedNodes X)) (\<lambda>ns.
      gbind (withRepo X (areFetchedItemsIntact (x_S X) (ns_fetched ns))) (\<lambda>ok.
      if ok then ret ()
      else gseq (inWorld (te_RandomSleep (x_E X))) (gseq (refetchAndMergeModifications X) (readerLoop X n startTime)))))"

definition commitForReaderTransaction :: "('n, 'w) tx_parts \<Rightarrow> nat \<Rightarrow> transaction_mode \<Rightarrow> ('n, 'w, unit) txm" where
  "commitForReaderTransaction X n mode = (if mode = ForWriting then ret ()
     else gbind (reads (hasTrackedItems X)) (\<lambda>h. if \<not> h then ret ()
       else gbind (inWorld (te_Now (x_E X))) (readerLoop X n)))"

section \<open>Phase 2\<close>

text \<open>
  What the commit leaves behind: the IDs that were current before the flip, and the removed nodes with
  their handles.
\<close>

definition getToBeObsoleteEntries :: "('n, 'w) txn \<Rightarrow> uuid registry_payload list \<times> uuid blobs_payload list" where
  "getToBeObsoleteEntries t =
     (map (\<lambda>p. \<lparr>rp_RegistryTable = rp_RegistryTable p, rp_BlobTable = [], rp_CacheDuration = 0, rp_IsCacheTTL = False,
        rp_IDs = map LogicalID (rp_IDs p)\<rparr>) (removedNodeHandles t),
      map (\<lambda>p. \<lparr>bp_BlobTable = rp_BlobTable p, bp_Blobs = map GetInActiveID (rp_IDs p)\<rparr>) (updatedNodeHandles t) @
      map (\<lambda>p. \<lparr>bp_BlobTable = rp_BlobTable p, bp_Blobs = map GetActiveID (rp_IDs p)\<rparr>) (removedNodeHandles t))"

fun uncacheObsolete :: "('n, 'w) tx_parts \<Rightarrow> uuid blobs_payload list \<Rightarrow> string option \<Rightarrow> ('n, 'w, string option) txm" where
  "uncacheObsolete X [] lastErr = ret lastErr"
| "uncacheObsolete X (p # ps) lastErr =
     gbind (noteErr Replace [] lastErr (inWorld (te_DeleteNodes (x_E X) (bp_Blobs p)))) (uncacheObsolete X ps)"

definition tx_deleteObsoleteEntries :: "('n, 'w) tx_parts \<Rightarrow> uuid registry_payload list \<Rightarrow> uuid blobs_payload list \<Rightarrow> ('n, 'w, unit) txm" where
  "tx_deleteObsoleteEntries X deletedRegistryIDs unusedNodeIDs =
     gbind (if unusedNodeIDs = [] then ret None
            else gbind (uncacheObsolete X unusedNodeIDs None) (\<lambda>e.
              noteErr Replace [] e (inWorld (s_blobRemove (x_S X) unusedNodeIDs)))) (\<lambda>e.
     gbind (noteErr Replace [] e (inWorld (s_regRemove (x_S X) deletedRegistryIDs))) finishWith)"

definition tx_cleanup :: "('n, 'w) tx_parts \<Rightarrow> ('n, 'w, unit) txm" where
  "tx_cleanup X = gseq (tlog X C_deleteObsoleteEntries NoPayload)
     (gbind (reads getToBeObsoleteEntries) (\<lambda>(ids, blobs).
      gseq (tolerate (tx_deleteObsoleteEntries X ids blobs))
     (gseq (tlog X C_deleteTrackedItemsValues NoPayload)
     (gbind (reads (getObsoleteTrackedItemsValues X)) (\<lambda>vs.
      gseq (tolerate (tx_deleteTrackedItemsValues X vs)) (tolerate (removeLogs X)))))))"

text \<open>The new nodes in the L1 cache, with the versions of their handles.\<close>

fun populateEach :: "('n, 'w) tx_parts \<Rightarrow> int \<Rightarrow> 'n list \<Rightarrow> handle list \<Rightarrow> ('n, 'w, unit) txm" where
  "populateEach X d [] hs = ret ()"
| "populateEach X d (n # ns) [] = fail Panic"
| "populateEach X d (n # ns) (h # hs) =
     gseq (tolerate (inWorld (te_SetNodeToMRU (x_E X) (GetActiveID h) (s_SetVersion (x_S X) (h_Version h) n) d)))
     (populateEach X d ns hs)"

fun updateVersionThenPopulateMru :: "('n, 'w) tx_parts \<Rightarrow> handle registry_payload list \<Rightarrow> 'n store_nodes \<Rightarrow> ('n, 'w, unit) txm" where
  "updateVersionThenPopulateMru X ps [] = ret ()"
| "updateVersionThenPopulateMru X ps ((si, ns) # nodes) =
     gseq (populateEach X (NodeCacheDuration (CacheConfig si)) ns (case ps of [] \<Rightarrow> [] | p # _ \<Rightarrow> rp_IDs p))
     (updateVersionThenPopulateMru X (tl ps) nodes)"

definition populateMru :: "('n, 'w) tx_parts \<Rightarrow> ('n, 'w, unit) txm" where
  "populateMru X = gbind (reads id) (\<lambda>t.
     gseq (updateVersionThenPopulateMru X (addedNodeHandles t) (tn_addedNodes t))
     (gseq (updateVersionThenPopulateMru X (updatedNodeHandles t) (tn_updatedNodes t))
     (updateVersionThenPopulateMru X (newRootNodeHandles t) (tn_rootNodes t))))"

text \<open>The last step that makes a commit complete, and the removal of its priority log.\<close>

definition publish :: "('n, 'w) tx_parts \<Rightarrow> ('n, 'w, unit) txm" where
  "publish X = gbind (reads id) (\<lambda>t. let hs = updatedNodeHandles t @ removedNodeHandles t in
     if hs = [] then ret ()
     else gseq (inWorld (s_regUpdateNoLocks (x_S X) True hs)) (tolerate (inWorld (pl_Remove (x_L X) (te_id (x_E X))))))"

definition replicateCommit :: "('n, 'w) tx_parts \<Rightarrow> ('n, 'w, unit) txm" where
  "replicateCommit X = gbind (reads id) (\<lambda>t.
     gseq (tolerate (inWorld (te_regReplicate (x_E X) (newRootNodeHandles t) (addedNodeHandles t) (updatedNodeHandles t) (removedNodeHandles t))))
     (gseq (tolerate (inWorld (te_storeReplicate (x_E X) (updatedStoresInfo t))))
     (tolerate (inWorld (pl_LogCommitChanges (x_L X) (updatedStoresInfo t) (newRootNodeHandles t) (addedNodeHandles t)
        (updatedNodeHandles t) (removedNodeHandles t))))))"

definition logFinalize :: "('n, 'w) tx_parts \<Rightarrow> ('n, 'w, unit) txm" where
  "logFinalize X = gbind (reads id) (\<lambda>t. let (ids, blobs) = getToBeObsoleteEntries t; vs = getObsoleteTrackedItemsValues X t in
     gbind (attempt (tlog X C_finalizeCommit (FinalPayload ids blobs vs))) (\<lambda>r. case r of
       Inl e \<Rightarrow> gseq (tolerate (tx_unlockNodesKeys X)) (fail (Err e)) | Inr _ \<Rightarrow> ret ()))"

definition phase2Commit :: "('n, 'w) tx_parts \<Rightarrow> ('n, 'w, unit) txm" where
  "phase2Commit X = gseq (logFinalize X) (gseq (publish X) (gseq (replicateCommit X) (gseq (populateMru X)
     (gseq (tolerate (tx_unlockNodesKeys X)) (gseq (tolerate (unlockTrackedItems X)) (gseq (tolerate (tx_cleanup X))
     (gfor (te_onCommitHooks (x_E X)) (\<lambda>h. tolerate (inWorld h)))))))))"

section \<open>The bodies of the life cycle\<close>

text \<open>
  The life cycle of \<open>Tx_Lifecycle\<close> with these bodies. Its record takes functions without errors where the
  code drops the error; \<open>onIdle\<close>, \<open>Close\<close> and the replication handler stay arguments.
\<close>

definition quietly :: "('n, 'w, 'a) txm \<Rightarrow> ('n, 'w) txn \<Rightarrow> ('n, 'w) txn" where
  "quietly m t = snd (m t)"

definition rollbackReport :: "('n, 'w) tx_parts \<Rightarrow> ('n, 'w) txn \<Rightarrow> (string \<times> bool) option \<times> ('n, 'w) txn" where
  "rollbackReport X t = (case tx_priorityRollback X (te_id (x_E X)) t of
     (Inl (Err e), t') \<Rightarrow> (Some (e, te_restoreFailure (x_E X) e), t') | (_, t') \<Rightarrow> (None, t'))"

definition commit_bodies :: "('n, 'w) tx_parts \<Rightarrow> nat \<Rightarrow> ('n, 'w, unit) txm \<Rightarrow> (('n, 'w) txn \<Rightarrow> ('n, 'w) txn) \<Rightarrow>
    (string option \<Rightarrow> string option \<Rightarrow> bool \<Rightarrow> ('n, 'w) txn \<Rightarrow> ('n, 'w) txn) option \<Rightarrow> ('n, 'w) txn tx_bodies" where
  "commit_bodies X n close idle handler = \<lparr>phase1Body = phase1Commit X, phase2Body = phase2Commit X,
     readerBody = commitForReaderTransaction X n ForReading, rollbackBody = tx_rollback X, closeBody = close, onIdleBody = idle,
     replError = handler, nodesKeysExist = tx_nodesKeysExist, priorityRollback = rollbackReport X,
     unlockNodesKeys = quietly (tx_unlockNodesKeys X),
     removePriorityLog = quietly (inWorld (pl_Remove (x_L X) (te_id (x_E X))))\<rparr>"

end
