(* ===== verification/Tx_Keys.thy ===== *)
theory Tx_Keys
  imports Tx_Commit
begin

text \<open>
  The locks on the nodes that a commit changes: one key for each node, in the order of the IDs, with the
  locks that are held already kept and the others released.
\<close>

section \<open>The order of UUIDs\<close>

lemma cmp_bytes_eq: "cmp_bytes a b = 0 \<Longrightarrow> a = b"
proof (induction a arbitrary: b)
  case (Cons x a)
  then show ?case
    by (cases b) (auto simp: cmp_bytes_def cmp_byte_def cmp_int_def Let_def word_uint_eq_iff split: if_splits)
next
  case Nil
  then show ?case by (cases b) (simp_all add: cmp_bytes_def)
qed

lemma UUID_Compare_eq [simp]: "UUID_Compare i j = 0 \<longleftrightarrow> i = j"
proof
  assume "UUID_Compare i j = 0"
  then have "uuid_bytes i = uuid_bytes j" unfolding UUID_Compare_def by (rule cmp_bytes_eq)
  then show "i = j" by (metis uuid_FromBytes_bytes sum.inject(2))
qed (simp add: uuid_order.cmp_refl)

definition uuid_less :: "uuid \<Rightarrow> uuid \<Rightarrow> bool" where
  "uuid_less i j = (UUID_Compare i j < 0)"

interpretation uuid_linear: linorder "\<lambda>i j. UUID_Compare i j \<le> 0" uuid_less
proof
  fix i j k :: uuid
  show "uuid_less i j \<longleftrightarrow> UUID_Compare i j \<le> 0 \<and> \<not> UUID_Compare j i \<le> 0"
    using uuid_order.cmp_swap [of i j] by (auto simp: uuid_less_def)
  show "UUID_Compare i i \<le> 0" by (simp add: uuid_order.cmp_refl)
  show "UUID_Compare i j \<le> 0 \<Longrightarrow> UUID_Compare j k \<le> 0 \<Longrightarrow> UUID_Compare i k \<le> 0" by (rule uuid_order.cmp_trans)
  show "i = j" if "UUID_Compare i j \<le> 0" "UUID_Compare j i \<le> 0"
    using that uuid_order.cmp_le_swap [of j i] UUID_Compare_eq [of i j] by simp
  show "UUID_Compare i j \<le> 0 \<or> UUID_Compare j i \<le> 0" by (rule uuid_order.cmp_total)
qed

section \<open>The keys under construction\<close>

definition keyName :: "uuid \<Rightarrow> string" where
  "keyName i = FormatLockKey (uuid_String i)"

text \<open>Distinct IDs in order, each with a key of its own name.\<close>

definition keys_ok :: "(uuid \<times> lock_key) list \<Rightarrow> bool" where
  "keys_ok xs = (sorted_wrt uuid_less (map fst xs) \<and> (\<forall>(i, k)\<in>set xs. lk_Key k = keyName i))"

lemma addKey_ids: "fst ` set (addKey i k xs) = insert i (fst ` set xs)"
  by (induction xs rule: addKey.induct) (auto simp: Let_def)

lemma addKey_ok:
  assumes "keys_ok xs" "lk_Key k = keyName i"
  shows "keys_ok (addKey i k xs)"
  using assms
proof (induction xs)
  case (Cons x xs)
  obtain j l where x: "x = (j, l)" by (cases x)
  have xs: "keys_ok xs" using Cons.prems by (auto simp: keys_ok_def)
  have after: "\<forall>a\<in>fst ` set xs. uuid_less j a" using Cons.prems(1) by (auto simp: keys_ok_def x)
  have "uuid_less j i" if "\<not> uuid_less i j" "i \<noteq> j" using that uuid_linear.linorder_cases by blast
  then have "\<forall>a\<in>fst ` set (addKey i k xs). uuid_less j a" if "\<not> uuid_less i j" "i \<noteq> j"
    unfolding addKey_ids using that after by simp
  moreover have "\<forall>a\<in>fst ` set xs. uuid_less i a" if "uuid_less i j"
    using that after uuid_linear.less_trans by blast
  ultimately show ?case
    using Cons.IH [OF xs Cons.prems(2)] Cons.prems
    by (auto simp: keys_ok_def x Let_def uuid_less_def [symmetric])
qed (simp add: keys_ok_def)

lemma createLockKeys_one:
  "createLockKeys X [n] t = (Inr ks, t') \<Longrightarrow> nodesKeys t' = nodesKeys t \<and> (\<exists>k. ks = [k] \<and> lk_Key k = FormatLockKey n)"
  by (auto simp: CreateLockKeys_def elim!: run_elims)

lemma addKeys_ok:
  "addKeys X is xs t = (Inr ys, t') \<Longrightarrow> keys_ok xs \<Longrightarrow>
   keys_ok ys \<and> fst ` set ys = set is \<union> fst ` set xs \<and> nodesKeys t' = nodesKeys t"
proof (induction "is" arbitrary: xs t)
  case (Cons i "is")
  from Cons.prems(1) obtain ks u where ks: "createLockKeys X [uuid_String i] t = (Inr ks, u)"
    and rest: "addKeys X is (addKey i (ks ! 0) xs) u = (Inr ys, t')"
    by (auto elim!: gbindE agetE simp del: createLockKeys.simps)
  from createLockKeys_one [OF ks] have k: "nodesKeys u = nodesKeys t" "lk_Key (ks ! 0) = keyName i"
    by (auto simp: keyName_def)
  from Cons.IH [OF rest addKey_ok [OF Cons.prems(2) k(2)]] k(1) show ?case by (auto simp: addKey_ids)
qed (simp add: exec_simps)

text \<open>Replacing the keys that are held.\<close>

lemma updateKey_ids [simp]: "map fst (updateKey i k xs) = map fst xs"
  by (induction xs) (auto simp: updateKey_def)

lemma updateKey_ok: "keys_ok xs \<Longrightarrow> lk_Key k = keyName i \<Longrightarrow> keys_ok (updateKey i k xs)"
  unfolding keys_ok_def updateKey_ids by (auto simp: updateKey_def split: if_splits)

definition names_ok :: "(string \<rightharpoonup> uuid) \<Rightarrow> uuid set \<Rightarrow> bool" where
  "names_ok m I = (\<forall>n i. m n = Some i \<longrightarrow> i \<in> I \<and> n = keyName i)"

lemma keepHeld_ok:
  assumes "keepHeld X m held xs t = (Inr ys, t')" "keys_ok xs" "names_ok m (fst ` set xs)" "distinct (map lk_Key held)"
  shows "keys_ok ys \<and> map fst ys = map fst xs \<and> nodesKeys t' = nodesKeys t \<and>
    (\<forall>(i, k)\<in>set ys. (i, k) \<in> set xs \<or> k \<in> set held) \<and>
    (\<forall>(i, k)\<in>set xs. m (lk_Key k) = None \<or> lk_Key k \<notin> lk_Key ` set held \<longrightarrow> (i, k) \<in> set ys) \<and>
    (\<forall>nk\<in>set held. m (lk_Key nk) \<noteq> None \<longrightarrow> nk \<in> snd ` set ys)"
  using assms
proof (induction held arbitrary: xs t)
  case (Cons nk held)
  show ?case
  proof (cases "m (lk_Key nk)")
    case None
    then have run: "gseq (tolerate (inWorld (te_Unlock (x_E X) [nk]))) (keepHeld X m held xs) t = (Inr ys, t')"
      using Cons.prems(1) by simp
    then obtain u where "keepHeld X m held xs u = (Inr ys, t')" "nodesKeys u = nodesKeys t"
      by (auto elim!: gseqE tolerateE simp: zoom_def split: prod.splits)
    with Cons.IH [OF this(1) Cons.prems(2,3)] Cons.prems(4) None show ?thesis by auto
  next
    case (Some i)
    then have run: "keepHeld X m held (updateKey i nk xs) t = (Inr ys, t')" using Cons.prems(1) by simp
    have i: "i \<in> fst ` set xs" "lk_Key nk = keyName i" using Cons.prems(3) Some by (auto simp: names_ok_def)
    have ids: "fst ` set (updateKey i nk xs) = fst ` set xs"
      using arg_cong [OF updateKey_ids [of i nk xs], of set] by (simp only: list.set_map)
    have ok: "keys_ok (updateKey i nk xs)" by (rule updateKey_ok [OF Cons.prems(2) i(2)])
    have mem: "(i, nk) \<in> set (updateKey i nk xs)" using i(1) by (force simp: updateKey_def)
    have old: "(j, k) \<in> set (updateKey i nk xs)" if "(j, k) \<in> set xs" "lk_Key k \<noteq> lk_Key nk" for j k
      using that Cons.prems(2) i(2) by (force simp: updateKey_def keys_ok_def)
    have new: "(j, k) \<in> set (updateKey i nk xs) \<Longrightarrow> (j, k) \<in> set xs \<or> k = nk" for j k
      by (auto simp: updateKey_def split: if_splits)
    have nm: "names_ok m (fst ` set (updateKey i nk xs))" unfolding ids by (rule Cons.prems(3))
    note IH = Cons.IH [OF run ok nm]
    from Cons.prems(4) have "distinct (map lk_Key held)" "lk_Key nk \<notin> lk_Key ` set held" by auto
    note IH = IH [OF this(1)] and nk = this(2)
    have kept: "(j, k) \<in> set ys" if "(j, k) \<in> set (updateKey i nk xs)" "m (lk_Key k) = None \<or> lk_Key k \<notin> lk_Key ` set held" for j k
      using IH that by blast
    have rest: "nl \<in> snd ` set ys" if "nl \<in> set held" "m (lk_Key nl) \<noteq> None" for nl using IH that by blast
    have here: "nk \<in> snd ` set ys" using imageI [OF kept [OF mem disjI2 [OF nk]], of snd] by simp
    have "\<forall>(j, k)\<in>set xs. m (lk_Key k) = None \<or> lk_Key k \<notin> lk_Key ` set (nk # held) \<longrightarrow> (j, k) \<in> set ys"
    proof clarify
      fix j k assume k: "(j, k) \<in> set xs" "m (lk_Key k) = None \<or> lk_Key k \<notin> lk_Key ` set (nk # held)"
      then have "lk_Key k \<noteq> lk_Key nk" using Some by auto
      from kept [OF old [OF k(1) this]] k(2) show "(j, k) \<in> set ys" by auto
    qed
    moreover have "\<forall>nl\<in>set (nk # held). m (lk_Key nl) \<noteq> None \<longrightarrow> nl \<in> snd ` set ys" using here rest by simp
    moreover have "\<forall>(j, k)\<in>set ys. (j, k) \<in> set xs \<or> k \<in> set (nk # held)" 
    proof clarify
      fix j k assume k: "(j, k) \<in> set ys" "k \<notin> set (nk # held)"
      then have "(j, k) \<in> set (updateKey i nk xs)" using IH by auto
      from new [OF this] k(2) show "(j, k) \<in> set xs" by simp
    qed
    ultimately show ?thesis using IH by simp
  qed
qed (auto simp: exec_simps)

section \<open>The locks of a commit\<close>

lemma map_of_rev_mem: "map_of (rev ps) n = Some i \<Longrightarrow> (n, i) \<in> set ps"
  using map_of_SomeD [of "rev ps"] by simp

lemma names_of_keys: "keys_ok xs \<Longrightarrow> names_ok (map_of (rev (map (\<lambda>(i, k). (lk_Key k, i)) xs))) (fst ` set xs)"
  unfolding names_ok_def keys_ok_def by (auto dest!: map_of_rev_mem) force+

lemma names_complete: "(i, k) \<in> set xs \<Longrightarrow> map_of (rev (map (\<lambda>(i, k). (lk_Key k, i)) xs)) (lk_Key k) \<noteq> None"
  unfolding map_of_eq_None_iff by force

text \<open>
  C20. The keys a commit locks: one for each node it changes or removes and no other, in the order of the
  node IDs (every transaction asks for its locks in the same order), each under its node's name. A lock
  that the transaction holds already on one of these nodes is kept as it is.
\<close>

theorem mergeNodesKeys_ordered:
  assumes "mergeNodesKeys X updated removed t = (Inr (), t')" "distinct (map lk_Key (nodesKeys t))"
  shows "\<exists>ids. sorted_wrt (\<lambda>i j. UUID_Compare i j < 0) ids \<and>
    set ids = set (extractUUIDs (x_S X) updated) \<union> set (extractUUIDs (x_S X) removed) \<and>
    map lk_Key (nodesKeys t') = map (\<lambda>i. FormatLockKey (uuid_String i)) ids \<and>
    (\<forall>k\<in>set (nodesKeys t). lk_Key k \<in> lk_Key ` set (nodesKeys t') \<longrightarrow> k \<in> set (nodesKeys t'))"
proof (cases "updated = [] \<and> removed = []")
  case True
  then have "nodesKeys t' = []" using assms(1)
    by (auto simp: mergeNodesKeys_def elim!: run_elims)
  with True show ?thesis by (intro exI [of _ "[]"]) (simp add: extractUUIDs_def)
next
  case False
  let ?m = "\<lambda>xs :: (uuid \<times> lock_key) list. map_of (rev (map (\<lambda>(i, k). (lk_Key k, i)) xs))"
  from assms(1) False obtain xs0 t0 xs t1 ys t2 where run:
    "addKeys X (extractUUIDs (x_S X) updated) [] t = (Inr xs0, t0)"
    "addKeys X (extractUUIDs (x_S X) removed) xs0 t0 = (Inr xs, t1)"
    "keepHeld X (?m xs) (nodesKeys t) xs t1 = (Inr ys, t2)" "t' = t2\<lparr>nodesKeys := map snd ys\<rparr>"
    unfolding mergeNodesKeys_def
    by (elim gbindE readsE) (simp split: if_splits, (auto elim!: gbindE modifyE split: if_splits simp: fail_def)+)
  have "keys_ok ([] :: (uuid \<times> lock_key) list)" by (simp add: keys_ok_def)
  from addKeys_ok [OF run(1) this] have x0: "keys_ok xs0" "fst ` set xs0 = set (extractUUIDs (x_S X) updated)" by simp_all
  from addKeys_ok [OF run(2) x0(1)] x0(2) have x1: "keys_ok xs"
    "fst ` set xs = set (extractUUIDs (x_S X) updated) \<union> set (extractUUIDs (x_S X) removed)" by auto
  note held = keepHeld_ok [OF run(3) x1(1) names_of_keys [OF x1(1)] assms(2)]
  then have ys: "keys_ok ys" "map fst ys = map fst xs" by auto
  have names: "map lk_Key (map snd ys) = map (\<lambda>i. FormatLockKey (uuid_String i)) (map fst ys)"
    using ys(1) by (auto simp: keys_ok_def keyName_def)
  have "set (map fst ys) = set (extractUUIDs (x_S X) updated) \<union> set (extractUUIDs (x_S X) removed)"
    using x1(2) unfolding ys(2) by simp
  moreover have "k \<in> snd ` set ys" if "k \<in> set (nodesKeys t)" "lk_Key k \<in> lk_Key ` snd ` set ys" for k
  proof -
    from that(2) obtain i l where "(i, l) \<in> set ys" "lk_Key l = lk_Key k" by force
    then have k: "lk_Key k = keyName i" using ys(1) by (auto simp: keys_ok_def)
    have "i \<in> set (map fst ys)" using \<open>(i, l) \<in> set ys\<close> by force
    then obtain l' where l': "(i, l') \<in> set xs" unfolding ys(2) by auto
    then have "lk_Key l' = lk_Key k" using x1(1) k by (auto simp: keys_ok_def)
    with l' have "\<exists>i l'. (i, l') \<in> set xs \<and> lk_Key l' = lk_Key k" by blast
    then have "?m xs (lk_Key k) \<noteq> None" using names_complete by metis
    with held that(1) show ?thesis by blast
  qed
  moreover have "sorted_wrt (\<lambda>i j. UUID_Compare i j < 0) (map fst ys)"
    using ys(1) by (simp add: keys_ok_def uuid_less_def [abs_def])
  moreover have "nodesKeys t' = map snd ys" using run(4) by simp
  ultimately show ?thesis using names by (intro exI [of _ "map fst ys"]) (simp only: list.set_map, blast)
qed

end
