(* ===== verification/Tx_Phase1.thy ===== *)
theory Tx_Phase1
  imports Tx_Commit
begin

text \<open>
  Phase 1 of a commit ends: every round of its loop that is not the last one counts one of the two retry
  counters up, so the fuel that the model gives to the loop is more than the program can use, whatever the
  caches, the registry, the B-trees and the log do.
\<close>

section \<open>What a computation can return\<close>

definition gives :: "('s, 'a) gom \<Rightarrow> ('a \<Rightarrow> bool) \<Rightarrow> bool" where
  "gives m Q = (\<forall>s x s'. m s = (Inr x, s') \<longrightarrow> Q x)"

named_theorems gives_intros "results of composed computations"

lemma gives_bind:
  "gives m R \<Longrightarrow> (\<And>x. R x \<Longrightarrow> gives (f x) Q) \<Longrightarrow> gives (gbind m f) Q"
  unfolding gives_def by (simp add: gbind_def split: prod.split sum.split) metis

lemma gives_ret [gives_intros]: "Q x \<Longrightarrow> gives (ret x) Q"
  by (simp add: gives_def ret_def)

lemma gives_fail [gives_intros]: "gives (fail e) Q"
  by (simp add: gives_def fail_def)

lemma gives_seq: "gives k Q \<Longrightarrow> gives (gseq m k) Q"
  unfolding gseq_def by (rule gives_bind [where R = "\<lambda>_. True"]) (simp_all add: gives_def)

lemma gives_mono: "gives m R \<Longrightarrow> (\<And>x. R x \<Longrightarrow> Q x) \<Longrightarrow> gives m Q"
  unfolding gives_def by blast

lemma gives_free: "(\<And>x. gives (f x) Q) \<Longrightarrow> gives (gbind m f) Q"
  by (rule gives_bind [where R = "\<lambda>_. True"]) (simp_all add: gives_def)

section \<open>The counters of the loop\<close>

definition same_counts :: "'n p1_vars \<Rightarrow> 'n p1_vars \<Rightarrow> bool" where
  "same_counts v w = (p1_retry w = p1_retry v \<and> p1_lockRetry w = p1_lockRetry v)"

text \<open>How many rounds the counters still allow.\<close>

definition budget :: "'n p1_vars \<Rightarrow> nat" where
  "budget v = (phase1LockAcquireMaxRetryCount - p1_lockRetry v) + (phase1CommitMaxRetryCount - p1_retry v)"

definition spent :: "'n p1_vars \<Rightarrow> 'n p1_vars \<Rightarrow> bool" where
  "spent v w = (budget w < budget v)"

lemma same_counts_refl [simp]: "same_counts v v"
  by (simp add: same_counts_def)

lemma same_counts_spent: "same_counts v w \<Longrightarrow> spent w u \<Longrightarrow> spent v u"
  by (simp add: same_counts_def spent_def budget_def)

lemma retryLocks_spent: "gives (retryLocks X what r v) (spent v)"
  unfolding retryLocks_def Let_def
  by (auto intro!: gives_intros gives_seq simp: spent_def budget_def)

lemma remerge_counts: "gives (remerge X v) (same_counts v)"
  unfolding remerge_def by (auto intro!: gives_seq gives_free gives_ret simp: same_counts_def)

definition step_ok :: "'n p1_vars \<Rightarrow> bool \<times> 'n p1_vars \<Rightarrow> bool" where
  "step_ok v r = (if fst r then same_counts v (snd r) else spent v (snd r))"

lemma retry_step: "gives (gbind (retryLocks X what r v) (\<lambda>v. ret (False, v))) (step_ok v)"
  by (rule gives_bind [OF retryLocks_spent]) (auto intro: gives_ret simp: step_ok_def)

lemma lockNodes_counts: "gives (lockNodes X v) (step_ok v)"
proof -
  have dual: "gives (gbind (attempt (lockKeys X (te_DualLock (x_E X)))) (\<lambda>r.
      if r = Inr True then ret (True, w)
      else gseq (releaseKeys X) (gbind (retryLocks X what True w) (\<lambda>v. ret (False, v))))) (step_ok v)"
    if "same_counts v w" for w what
  proof (rule gives_free)
    fix r
    have "gives (gbind (retryLocks X what True w) (\<lambda>v. ret (False, v))) (step_ok v)"
      by (rule gives_mono [OF retry_step [of X what True w]])
        (use that in \<open>auto simp: step_ok_def same_counts_def spent_def budget_def\<close>)
    with that show "gives (if r = Inr True then ret (True, w)
        else gseq (releaseKeys X) (gbind (retryLocks X what True w) (\<lambda>v. ret (False, v)))) (step_ok v)"
      by (auto intro!: gives_intros gives_seq simp: step_ok_def)
  qed
  show ?thesis
    unfolding lockNodes_def
    by (intro gives_free) (auto intro!: gives_seq gives_fail gives_free retry_step gives_bind [OF remerge_counts] dual
      gives_ret [of "step_ok v" "(True, v)"] simp: step_ok_def [of v "(True, v)"] split: sum.split bool.split)
qed

text \<open>The steps of a commit leave the counters alone.\<close>

definition counts_kept :: "'n p1_vars \<Rightarrow> bool \<times> 'n p1_vars \<Rightarrow> bool" where
  "counts_kept v r = same_counts v (snd r)"

lemma commitValues_counts: "gives (commitValues X v) (same_counts v)"
  unfolding commitValues_def by (auto intro!: gives_free gives_seq gives_ret simp: same_counts_def)

lemma commitUpdates_counts: "gives (commitUpdates X v) (counts_kept v)"
  unfolding commitUpdates_def by (auto intro!: gives_free gives_seq gives_ret simp: same_counts_def counts_kept_def)

lemma commitRemovals_counts: "gives (commitRemovals X v) (counts_kept v)"
  unfolding commitRemovals_def Let_def
  by (auto intro!: gives_free gives_seq gives_ret simp: same_counts_def counts_kept_def)

lemma commitSteps_counts: "gives (commitSteps X v) (counts_kept v)"
  unfolding commitSteps_def
  by (rule gives_bind [OF commitValues_counts])
    (auto intro!: gives_free gives_ret gives_bind [OF commitUpdates_counts] gives_bind [OF commitRemovals_counts]
      simp: counts_kept_def same_counts_def split: prod.split)

lemma retryCommit_spent: "gives (retryCommit X v) (spent v)"
  unfolding retryCommit_def Let_def
  by (auto intro!: gives_free gives_fail gives_seq gives_ret simp: spent_def budget_def split: sum.split)

lemma phase1Round_counts: "gives (phase1Round X startTime v) (\<lambda>(done, w). \<not> done \<longrightarrow> spent v w)"
proof -
  have rest: "gives (gbind (commitSteps X w) (\<lambda>(ok, w). if ok then ret (True, w)
      else gbind (retryCommit X w) (\<lambda>w. ret (False, w)))) (\<lambda>(done, u). \<not> done \<longrightarrow> spent v u)"
    if "same_counts v w" for w
    by (rule gives_bind [OF commitSteps_counts])
      (use that in \<open>auto intro!: gives_ret gives_bind [OF retryCommit_spent]
         simp: counts_kept_def same_counts_def spent_def budget_def\<close>)
  show ?thesis
    unfolding phase1Round_def
    by (intro gives_seq gives_bind [OF lockNodes_counts]) (auto simp: step_ok_def intro!: gives_ret rest)
qed

lemma phase1Loop_enough:
  "budget v < n \<Longrightarrow> fst (phase1Loop X n startTime v t) \<noteq> Inr None \<and>
     phase1Loop X (n + k) startTime v t = phase1Loop X n startTime v t"
proof (induction n arbitrary: v t)
  case (Suc n)
  obtain r s where r: "phase1Round X startTime v t = (r, s)" by (cases "phase1Round X startTime v t")
  show ?case
  proof (cases r)
    case (Inr x)
    obtain d w where x: "x = (d, w)" by (cases x)
    have "\<not> d \<Longrightarrow> budget w < n"
      using phase1Round_counts [of X startTime v] r Suc.prems unfolding Inr x gives_def spent_def by fastforce
    then show ?thesis using Suc.IH [of w s] r unfolding Inr x by (cases d) (simp_all add: exec_simps)
  qed (simp add: r exec_simps)
qed simp

text \<open>
  C11. Phase 1 of a commit ends: however often locks are lost, conflicts occur and steps are undone, the
  loop stops within \<open>phase1Fuel\<close> rounds. More fuel changes nothing, and running out of it is no outcome.
\<close>

theorem phase1_ends:
  "fst (phase1Loop X phase1Fuel startTime (p1_start ns pre) t) \<noteq> Inr None \<and>
   phase1Loop X (phase1Fuel + k) startTime (p1_start ns pre) t = phase1Loop X phase1Fuel startTime (p1_start ns pre) t"
  by (rule phase1Loop_enough)
    (simp add: budget_def p1_start_def phase1Fuel_def phase1LockAcquireMaxRetryCount_def phase1CommitMaxRetryCount_def)

end
