(* ===== verification/Tx_Isolation.thy ===== *)
theory Tx_Isolation
  imports Tx_Phase1 Node_Isolation
begin

text \<open>
  Isolation of a transaction that changes and removes nodes: whatever happens in the first phase of its
  commit (conflicts, lost locks, failing services, rounds that are undone and tried again), readers see what
  they saw before. The environment of the transaction is a locale: the node storage of \<open>Node_Storage\<close>, and
  calls that leave what is stored there alone.
\<close>

section \<open>Handles that do not share physical IDs\<close>

definition apart :: "(uuid \<rightharpoonup> handle) \<Rightarrow> bool" where
  "apart m = ((\<forall>i j h k. m i = Some h \<longrightarrow> m j = Some k \<longrightarrow> i \<noteq> j \<longrightarrow> physicalIDs h \<inter> physicalIDs k = {}) \<and>
     (\<forall>i h. m i = Some h \<longrightarrow> GetActiveID h \<noteq> NilUUID \<and> GetActiveID h \<noteq> GetInActiveID h))"

lemma apartD: "apart m \<Longrightarrow> m i = Some h \<Longrightarrow> m j = Some k \<Longrightarrow> i \<noteq> j \<Longrightarrow> physicalIDs h \<inter> physicalIDs k = {}"
  unfolding apart_def by blast

lemma apart_self: "apart m \<Longrightarrow> m i = Some h \<Longrightarrow> GetActiveID h \<noteq> NilUUID \<and> GetActiveID h \<noteq> GetInActiveID h"
  unfolding apart_def by blast

text \<open>A handle that replaces another of the same ID, under which readers see the same.\<close>

definition milder :: "handle \<Rightarrow> handle \<Rightarrow> bool" where
  "milder h h' = (LogicalID h' = LogicalID h \<and> GetActiveID h' = GetActiveID h \<and> h_Version h' = h_Version h \<and>
     GetInActiveID h' \<in> {GetInActiveID h, NilUUID})"

lemma milder_physical: "milder h h' \<Longrightarrow> physicalIDs h' \<subseteq> physicalIDs h"
  by (auto simp: milder_def physicalIDs_active)

text \<open>The registry after such replacements, each for a handle that is there.\<close>

definition milder_map :: "(uuid \<rightharpoonup> handle) \<Rightarrow> (uuid \<rightharpoonup> handle) \<Rightarrow> bool" where
  "milder_map m m' = (\<forall>i. rel_option milder (m i) (m' i))"

lemma milder_refl [simp]: "milder h h" by (simp add: milder_def)

lemma milder_map_refl [simp]: "milder_map m m"
  by (simp add: milder_map_def option.rel_refl)

lemma milder_trans: "milder h k \<Longrightarrow> milder k l \<Longrightarrow> milder h l"
  by (auto simp: milder_def)

lemma milder_map_upd:
  assumes "milder_map m m'" "\<And>h'. h' \<in> set hs \<Longrightarrow> \<exists>h. m (LogicalID h') = Some h \<and> milder h h'"
  shows "milder_map m (updHandles hs m')"
  using assms
proof (induction hs arbitrary: m')
  case (Cons a hs)
  have "milder_map m (m'(LogicalID a \<mapsto> a))"
    using Cons.prems(1) Cons.prems(2) [of a] by (auto simp: milder_map_def)
  from Cons.IH [OF this] Cons.prems(2) show ?case by (simp add: updHandles_def del: fun_upd_apply)
qed (simp add: updHandles_def)

lemma milder_map_apart: "milder_map m m' \<Longrightarrow> apart m \<Longrightarrow> apart m'"
proof -
  assume mm: "milder_map m m'" and a: "apart m"
  have old: "\<exists>h. m i = Some h \<and> milder h h'" if "m' i = Some h'" for i h'
    using mm that unfolding milder_map_def by (metis option.rel_cases option.distinct(1) option.inject)
  show "apart m'"
    unfolding apart_def
  proof (intro conjI allI impI)
    fix i j h' k' assume "m' i = Some h'" "m' j = Some k'" "i \<noteq> j"
    then obtain h k where "m i = Some h" "milder h h'" "m j = Some k" "milder k k'" using old by metis
    then show "physicalIDs h' \<inter> physicalIDs k' = {}"
      using apartD [OF a _ _ \<open>i \<noteq> j\<close>, of h k] milder_physical by blast
  next
    fix i h' assume "m' i = Some h'"
    then obtain h where "m i = Some h" "milder h h'" using old by metis
    with apart_self [OF a, of i h] show "GetActiveID h' \<noteq> NilUUID" "GetActiveID h' \<noteq> GetInActiveID h'"
      by (auto simp: milder_def)
  qed
qed

lemma milder_visible:
  assumes "milder_map m m'" "\<And>i h. m i = Some h \<Longrightarrow> b' (GetActiveID h) = b (GetActiveID h)"
  shows "visible m' b' = visible m b"
proof
  fix i
  have "rel_option milder (m i) (m' i)" using assms(1) by (simp add: milder_map_def)
  then show "visible m' b' i = visible m b i"
    using assms(2) [of i] by (cases "m i"; cases "m' i") (auto simp: visible_def milder_def)
qed

lemma milder_unstage: "milder h (unstage h)"
  by (auto simp: milder_def unstage_def ClearInactiveID_def GetActiveID_def GetInActiveID_def)

lemma milder_unmark: "milder h (unmark h)"
  by (auto simp: milder_def unmark_def GetActiveID_def GetInActiveID_def)

lemma milder_mark: "milder h (h\<lparr>IsDeleted := d, WorkInProgressTimestamp := t\<rparr>)"
  by (auto simp: milder_def GetActiveID_def GetInActiveID_def)

text \<open>Handles with fresh second IDs, one for each.\<close>

lemma apart_staged:
  assumes "apart m" and old: "\<And>i h. m i = Some h \<Longrightarrow> physicalIDs h \<subseteq> D"
    and new: "\<And>i h'. m' i = Some h' \<Longrightarrow> m i = Some h' \<or> (\<exists>h u. m i = Some h \<and> staged h h' u \<and> F i = Some u)"
    and fresh: "\<And>i u. F i = Some u \<Longrightarrow> u \<notin> D" and "inj_on F (dom F)"
  shows "apart m'"
proof -
  have sub: "\<exists>h. m i = Some h \<and> physicalIDs h' \<subseteq> physicalIDs h \<union> set_option (F i)" if "m' i = Some h'" for i h'
    using new [OF that] by (auto simp: staged_def physicalIDs_active)
  show ?thesis
    unfolding apart_def
  proof (intro conjI allI impI)
    fix i j h' k' assume a: "m' i = Some h'" "m' j = Some k'" "i \<noteq> j"
    obtain h where h: "m i = Some h" "physicalIDs h' \<subseteq> physicalIDs h \<union> set_option (F i)" using sub [OF a(1)] by blast
    obtain k where k: "m j = Some k" "physicalIDs k' \<subseteq> physicalIDs k \<union> set_option (F j)" using sub [OF a(2)] by blast
    have "set_option (F i) \<inter> set_option (F j) = {}"
      using inj_onD [OF assms(5), of i j] a(3) by (auto simp: dom_def)
    moreover have "set_option (F i) \<inter> D = {}" "set_option (F j) \<inter> D = {}" using fresh by auto
    ultimately show "physicalIDs h' \<inter> physicalIDs k' = {}"
      using h(2) k(2) apartD [OF assms(1) h(1) k(1) a(3)] old [OF h(1)] old [OF k(1)] by blast
  next
    fix i h' assume a: "m' i = Some h'"
    have "GetActiveID h' \<noteq> NilUUID \<and> GetActiveID h' \<noteq> GetInActiveID h'"
    proof (cases "m i = Some h'")
      case False
      with new [OF a] obtain h u where "m i = Some h" "staged h h' u" "F i = Some u" by blast
      then show ?thesis using old [of i h] fresh [of i u] apart_self [OF assms(1), of i h]
        by (auto simp: staged_def physicalIDs_active)
    qed (rule apart_self [OF assms(1)])
    then show "GetActiveID h' \<noteq> NilUUID" "GetActiveID h' \<noteq> GetInActiveID h'" by simp_all
  qed
qed

section \<open>The steps of the node storage\<close>

context storage
begin

definition safe :: "'w \<Rightarrow> bool" where
  "safe w = (valid w \<and> apart (regs (abs w)))"

definition shown :: "'w \<Rightarrow> uuid \<Rightarrow> (32 word \<times> bytes option) option" where
  "shown w = visible (regs (abs w)) (blobs (abs w))"

lemma safe_quiet: "safe w \<Longrightarrow> valid w' \<Longrightarrow> quiet (abs w) (abs w') \<Longrightarrow> safe w' \<and> shown w' = shown w"
  by (simp add: safe_def shown_def quiet_def)

lemma safe_mild:
  assumes "safe w" "valid w'" "milder_map (regs (abs w)) (regs (abs w'))"
    "\<And>i h. regs (abs w) i = Some h \<Longrightarrow> blobs (abs w') (GetActiveID h) = blobs (abs w) (GetActiveID h)"
  shows "safe w' \<and> shown w' = shown w"
proof -
  have "shown w' = shown w" unfolding shown_def by (rule milder_visible [OF assms(3)]) (rule assms(4))
  with milder_map_apart [OF assms(3)] assms(1,2) show ?thesis by (simp add: safe_def)
qed

lemma commitUpdatedNodes_safe:
  assumes "safe w" "distinct (map (s_ID S) (flat nodes))" "commitUpdatedNodes S nodes w = (r, w')"
  shows "safe w' \<and> shown w' = shown w"
proof -
  have v: "valid w" "apart (regs (abs w))" using assms(1) by (simp_all add: safe_def)
  from commitUpdatedNodes_run [OF v(1), of nodes] assms(3) have v': "valid w'"
    and r: "case r of Inl _ \<Rightarrow> quiet (abs w) (abs w') | Inr (False, _) \<Rightarrow> quiet (abs w) (abs w')
     | Inr (True, ps') \<Rightarrow> \<exists>hs rows. prepared w nodes hs rows w' \<and> payloadIDs ps' = map fst rows" by auto
  then consider "quiet (abs w) (abs w')" | hs rows where "prepared w nodes hs rows w'"
    by (auto split: sum.splits bool.splits)
  then show ?thesis
  proof cases
    case 1
    with safe_quiet assms(1) v' show ?thesis by blast
  next
    case 2
    note nth = prepared_nth [OF v(1) 2] and regs = prepared_regs [OF v(1) 2 assms(2)]
    have rows: "rows_ok w (flat nodes) hs rows w'" using 2 by (simp add: prepared_def)
    have len: "length rows = length (flat nodes)" using prepared_ids [OF v(1) 2] by (metis length_map)
    let ?ids = "map (s_ID S) (flat nodes)"
    let ?F = "map_of (zip ?ids (map (fst \<circ> snd) rows))"
    have F: "?F (s_ID S (flat nodes ! k)) = Some (fst (snd (rows ! k)))" if "k < length rows" for k
      using map_of_zip_nth [of ?ids "map (fst \<circ> snd) rows" k] assms(2) len that by simp
    have Fk: "\<exists>k < length rows. i = s_ID S (flat nodes ! k) \<and> u = fst (snd (rows ! k))" if "?F i = Some u" for i u
      using map_of_SomeD [OF that] len by (auto simp: set_zip)
    have "apart (regs (abs w'))"
    proof (rule apart_staged [OF v(2), of "used (abs w)" _ ?F])
      show "regs (abs w) i = Some h \<Longrightarrow> physicalIDs h \<subseteq> used (abs w)" for i h
        using valid_ok [OF v(1)] by (auto simp: stored_ok_def)
      show "regs (abs w) i = Some h' \<or> (\<exists>h u. regs (abs w) i = Some h \<and> staged h h' u \<and> ?F i = Some u)"
        if "regs (abs w') i = Some h'" for i h'
      proof (cases "i \<in> s_ID S ` set (flat nodes)")
        case True
        then obtain k where k: "k < length (flat nodes)" "i = s_ID S (flat nodes ! k)" by (metis imageE in_set_conv_nth)
        then have "staged (hs ! k) h' (fst (snd (rows ! k)))" "regs (abs w) i = Some (hs ! k)"
          using nth(1,2) [of k] regs(1) [of k] that by (auto simp: row_ok_def split: prod.splits)
        then show ?thesis using F [of k] k len by auto
      qed (use regs(2) that in simp)
      show "u \<notin> used (abs w)" if "?F i = Some u" for i u
        using Fk [OF that] rows by (force simp: rows_ok_def)
      have d: "distinct (map (fst \<circ> snd) rows)" using rows by (simp add: rows_ok_def)
      show "inj_on ?F (dom ?F)"
      proof (rule inj_onI)
        fix i j assume a: "i \<in> dom ?F" "j \<in> dom ?F" "?F i = ?F j"
        then obtain u where "?F i = Some u" "?F j = Some u" unfolding dom_def by fastforce
        then obtain k l where "k < length rows" "i = s_ID S (flat nodes ! k)" "u = fst (snd (rows ! k))"
          "l < length rows" "j = s_ID S (flat nodes ! l)" "u = fst (snd (rows ! l))" using Fk by metis
        then show "i = j" using nth_eq_iff_index_eq [OF d, of k l] by simp
      qed
    qed
    then show ?thesis using v' prepared_invisible [OF v(1) 2 assms(2)] by (simp add: safe_def shown_def)
  qed
qed

lemma lookups_mem: "h \<in> set (lookups m ids) \<Longrightarrow> \<exists>i. m i = Some h"
  by (auto simp: lookups_def map_filter_def)

lemma regGet_mem:
  assumes "valid w" "s_regGet S vids w = (Inr ps, w')"
  shows "valid w'" "quiet (abs w) (abs w')" "length ps = length vids"
    "h \<in> set (payloadIDs ps) \<Longrightarrow> regs (abs w) (LogicalID h) = Some h"
proof -
  obtain ps' v where "s_regGet S vids w = (Inr ps', v)" "valid v" "quiet (abs w) (abs v)"
    "map rp_IDs ps' = map (\<lambda>v. lookups (regs (abs w)) (rp_IDs v)) vids" using regGet [OF assms(1)] by blast
  with assms(2) have q: "valid w'" "quiet (abs w) (abs w')" "map rp_IDs ps = map (\<lambda>v. lookups (regs (abs w)) (rp_IDs v)) vids"
    by simp_all
  then show "valid w'" "quiet (abs w) (abs w')" "length ps = length vids" by (auto dest: arg_cong [of _ _ length])
  assume "h \<in> set (payloadIDs ps)"
  then have "h \<in> set (lookups (regs (abs w)) (payloadIDs vids))" using lookups_concat [OF q(3)] by simp
  then obtain i where "regs (abs w) i = Some h" using lookups_mem by metis
  with valid_ok [OF assms(1)] show "regs (abs w) (LogicalID h) = Some h" by (auto simp: stored_ok_def)
qed

text \<open>Handles that may be written: each replaces one that is there.\<close>

definition replaces :: "'w \<Rightarrow> handle list \<Rightarrow> bool" where
  "replaces w hs = (\<forall>h'\<in>set hs. \<exists>h. regs (abs w) (LogicalID h') = Some h \<and> milder h h')"

lemma replaces_ok:
  assumes "valid w" "replaces w hs" "h' \<in> set hs"
  shows "LogicalID h' \<noteq> NilUUID \<and> physicalIDs h' \<subseteq> used (abs w)"
proof -
  obtain h where "regs (abs w) (LogicalID h') = Some h" "milder h h'" using assms(2,3) unfolding replaces_def by blast
  then show ?thesis using valid_ok [OF assms(1)] milder_physical [of h h'] by (fastforce simp: stored_ok_def)
qed

lemma replaces_map: "replaces w (map f hs)"
  if "\<And>h. h \<in> set hs \<Longrightarrow> regs (abs w) (LogicalID h) = Some h" "\<And>h. milder h (f h)"
  using that by (auto simp: replaces_def milder_def)

lemma replaces_quiet: "regs (abs w') = regs (abs w) \<Longrightarrow> replaces w' hs = replaces w hs"
  by (simp add: replaces_def)

lemma regUpdateNoLocks_safe:
  assumes "safe w" "replaces w (payloadIDs ps)" "s_regUpdateNoLocks S b ps w = (r, w')"
  shows "safe w' \<and> shown w' = shown w"
proof -
  have v: "valid w" using assms(1) by (simp add: safe_def)
  from regUpdateNoLocks [OF v, of ps b] replaces_ok [OF v assms(2)] assms(3) have w': "valid w'"
    "regs (abs w') = updHandles (payloadIDs ps) (regs (abs w))" "blobs (abs w') = blobs (abs w)" by auto
  have "milder_map (regs (abs w)) (regs (abs w'))"
    unfolding w'(2) by (rule milder_map_upd) (use assms(2) in \<open>auto simp: replaces_def\<close>)
  from safe_mild [OF assms(1) w'(1) this] w'(3) show ?thesis by simp
qed

lemma blobRemove_safe:
  assumes "safe w" "s_blobRemove S us w = (r, w')"
    and "\<And>u. u \<in> set (blobIDs us) \<Longrightarrow> u \<noteq> NilUUID \<and> (\<exists>i h. regs (abs w) i = Some h \<and> GetInActiveID h = u)"
  shows "safe w' \<and> shown w' = shown w \<and> regs (abs w') = regs (abs w)"
proof -
  have v: "valid w" "apart (regs (abs w))" using assms(1) by (simp_all add: safe_def)
  from blobRemove [OF v(1), of us] assms(2) have w': "valid w'" "regs (abs w') = regs (abs w)"
    "blobs (abs w') = blobs (abs w) |` (- set (blobIDs us))" by auto
  have "GetActiveID h \<notin> set (blobIDs us)" if h: "regs (abs w) i = Some h" for i h
  proof
    assume "GetActiveID h \<in> set (blobIDs us)"
    with assms(3) obtain j k where k: "GetActiveID h \<noteq> NilUUID" "regs (abs w) j = Some k" "GetInActiveID k = GetActiveID h" by blast
    show False
    proof (cases "i = j")
      case True
      then show ?thesis using h k apart_self [OF v(2) h] by auto
    next
      case False
      with apartD [OF v(2) h k(2)] k show ?thesis by (auto simp: physicalIDs_active)
    qed
  qed
  then have "blobs (abs w') (GetActiveID h) = blobs (abs w) (GetActiveID h)" if "regs (abs w) i = Some h" for i h
    using that by (simp add: w'(3))
  from safe_mild [OF assms(1) w'(1) _ this] w'(2) show ?thesis by simp
qed

end

end
