(* ===== verification/Tx_View.thy ===== *)
theory Tx_View
  imports Tx_Isolation
begin

text \<open>
  The environment of a transaction that changes and removes nodes of existing stores whose values are in the
  nodes (\<open>commit_env\<close>), and the parts of a commit that leave the stored nodes alone. They are shown to keep
  any relation between worlds that such parts keep (\<open>commit_view\<close>): the view of the readers is one, the
  stored nodes themselves are another.
\<close>

section \<open>The environment\<close>

text \<open>A call that leaves the registry and the blobs alone, whatever its outcome.\<close>

definition leaves :: "('s \<Rightarrow> stored) \<Rightarrow> ('s \<Rightarrow> bool) \<Rightarrow> ('s, 'a) gom \<Rightarrow> bool" where
  "leaves st valid m = (\<forall>s. valid s \<longrightarrow> valid (snd (m s)) \<and> quiet (st s) (st (snd (m s))))"

definition changes_only :: "('n, 'w) tx_parts \<Rightarrow> ('n, 'w) txn \<Rightarrow> bool" where
  "changes_only X t = (let ns = classifyModifiedNodes X t in ns_added ns = [] \<and> ns_root ns = [] \<and>
     distinct (map (s_ID (x_S X)) (concat (map snd (ns_updated ns @ ns_removed ns)))))"

locale commit_env = storage "x_S X" st valid
  for X :: "('n, 'w) tx_parts" and st :: "'w \<Rightarrow> stored" and valid :: "'w \<Rightarrow> bool" +
  assumes regUpdate: "valid w \<Longrightarrow>
      (\<And>h. h \<in> set (payloadIDs ps) \<Longrightarrow> LogicalID h \<noteq> NilUUID \<and> physicalIDs h \<subseteq> used (st w)) \<Longrightarrow>
      \<exists>r w' k. s_regUpdate (x_S X) ps w = (r, w') \<and> valid w' \<and>
        regs (st w') = updHandles (take k (payloadIDs ps)) (regs (st w)) \<and>
        blobs (st w') = blobs (st w) \<and> used (st w) \<subseteq> used (st w')"
    and logs: "leaves st valid (tl_Add (x_L X) i f pl)" "leaves st valid (tl_Remove (x_L X) i)"
      "leaves st valid (pl_Add (x_L X) i hs)" "leaves st valid (pl_Remove (x_L X) i)"
    and locks: "leaves st valid (te_Lock (x_E X) d ks)" "leaves st valid (te_DualLock (x_E X) d ks)"
      "leaves st valid (te_IsLocked (x_E X) ks)" "leaves st valid (te_Unlock (x_E X) ks)"
    and stores: "leaves st valid (te_storeUpdate (x_E X) si)" "leaves st valid (te_storeRemove (x_E X) nm)"
    and time: "leaves st valid (te_ctxErr (x_E X))" "leaves st valid (te_Now (x_E X))" "leaves st valid (te_RandomSleep (x_E X))"
    and trees: "b \<in> set (x_B X) \<Longrightarrow> leaves (st \<circ> tn_world) (valid \<circ> tn_world) (bk_refetchAndMerge b)"
      "b \<in> set (x_B X) \<Longrightarrow> leaves (st \<circ> tn_world) (valid \<circ> tn_world) (bk_checkTrackedItems b)"
      "b \<in> set (x_B X) \<Longrightarrow> leaves (st \<circ> tn_world) (valid \<circ> tn_world) (bk_lockTrackedItems b d)"
      "b \<in> set (x_B X) \<Longrightarrow> leaves (st \<circ> tn_world) (valid \<circ> tn_world) (bk_unlockTrackedItems b)"
      "b \<in> set (x_B X) \<Longrightarrow> leaves (st \<circ> tn_world) (valid \<circ> tn_world) (bk_commitTrackedItemsValues b)"
      "b \<in> set (x_B X) \<Longrightarrow> leaves (st \<circ> tn_world) (valid \<circ> tn_world) (bk_getForRollbackTrackedItemsValues b)"
    and values_in_nodes: "b \<in> set (x_B X) \<Longrightarrow> fst (bk_getForRollbackTrackedItemsValues b t) = Inr v \<Longrightarrow> v = None"
    and regRemove: "valid w \<Longrightarrow> \<exists>r w' k. s_regRemove (x_S X) vids w = (r, w') \<and> valid w' \<and>
      regs (st w') = regs (st w) |` (- set (take k (payloadIDs vids))) \<and>
      blobs (st w') = blobs (st w) \<and> used (st w) \<subseteq> used (st w')"
    and caches: "leaves st valid (te_DeleteNodes (x_E X) us)" "leaves st valid (te_SetNodeToMRU (x_E X) u n d)"
    and replicas: "leaves st valid (te_regReplicate (x_E X) h1 h2 h3 h4)" "leaves st valid (te_storeReplicate (x_E X) si)"
      "leaves st valid (pl_LogCommitChanges (x_L X) si h1 h2 h3 h4)"
    and hooks: "h \<in> set (te_onCommitHooks (x_E X)) \<Longrightarrow> leaves st valid h"
    and no_obsolete_values: "b \<in> set (x_B X) \<Longrightarrow> bk_getObsoleteTrackedItemsValues b t = None"
    and unlock_keeps_handles: "b \<in> set (x_B X) \<Longrightarrow> updatedNodeHandles (snd (bk_unlockTrackedItems b t)) = updatedNodeHandles t \<and>
      removedNodeHandles (snd (bk_unlockTrackedItems b t)) = removedNodeHandles t"
    and no_sector_locks: "te_sopError (x_E X) e = None"
    and only_changes: "changes_only X t"
begin

definition good :: "'n node_sets \<Rightarrow> bool" where
  "good ns = (ns_added ns = [] \<and> ns_root ns = [] \<and>
     distinct (map (s_ID (x_S X)) (concat (map snd (ns_updated ns @ ns_removed ns)))) \<and>
     (\<exists>t. ns = classifyModifiedNodes X t))"

definition good_vars :: "'n p1_vars \<Rightarrow> bool" where
  "good_vars v = good (p1_nodes v)"

lemma good_vars_upd [simp]:
  "good_vars (v\<lparr>p1_updatedHandles := a\<rparr>) = good_vars v" "good_vars (v\<lparr>p1_removedHandles := a\<rparr>) = good_vars v"
  "good_vars (v\<lparr>p1_refetch := b\<rparr>) = good_vars v" "good_vars (v\<lparr>p1_retry := n\<rparr>) = good_vars v"
  "good_vars (v\<lparr>p1_lockRetry := n\<rparr>) = good_vars v"
  by (simp_all add: good_vars_def)

end

section \<open>What keeps a view\<close>

named_theorems quiet_parts "parts of a transaction that leave the stored nodes alone"

locale commit_view = commit_env X st valid
  for X :: "('n, 'w) tx_parts" and st :: "'w \<Rightarrow> stored" and valid :: "'w \<Rightarrow> bool" +
  fixes J :: "'w \<Rightarrow> 'w \<Rightarrow> bool"
  assumes J_refl: "J w w" and J_trans: "J u v \<Longrightarrow> J v w \<Longrightarrow> J u w"
    and J_rest: "(valid w \<Longrightarrow> valid w' \<and> quiet (st w) (st w')) \<Longrightarrow> J w w'"
begin

definition keeps :: "('s \<Rightarrow> 'w) \<Rightarrow> ('s, 'a) gom \<Rightarrow> ('a \<Rightarrow> bool) \<Rightarrow> bool" where
  "keeps p m Q = (\<forall>s. J (p s) (p (snd (m s))) \<and> (\<forall>x. fst (m s) = Inr x \<longrightarrow> Q x))"

abbreviation calls :: "('s \<Rightarrow> 'w) \<Rightarrow> ('s, 'a) gom \<Rightarrow> bool" where
  "calls p m \<equiv> keeps p m (\<lambda>_. True)"

lemma keepsI:
  assumes "\<And>s r s'. m s = (r, s') \<Longrightarrow> J (p s) (p s') \<and> (\<forall>x. r = Inr x \<longrightarrow> Q x)" shows "keeps p m Q"
  unfolding keeps_def using assms by (metis prod.collapse)

lemma keepsD: "keeps p m Q \<Longrightarrow> m s = (r, s') \<Longrightarrow> J (p s) (p s') \<and> (\<forall>x. r = Inr x \<longrightarrow> Q x)"
  unfolding keeps_def by (metis fst_conv snd_conv)

lemma keeps_mono: "keeps p m R \<Longrightarrow> (\<And>x. R x \<Longrightarrow> Q x) \<Longrightarrow> keeps p m Q"
  by (auto simp: keeps_def)

lemma keeps_ret: "Q x \<Longrightarrow> keeps p (ret x) Q"
  by (simp add: keeps_def J_refl ret_def)

lemma keeps_fail: "keeps p (fail e) Q"
  by (simp add: keeps_def J_refl fail_def)

lemma keeps_reads: "(\<And>s. Q (f s)) \<Longrightarrow> keeps p (reads f) Q"
  by (simp add: keeps_def J_refl reads_def)

lemma keeps_lift: "(\<And>x. r = Inr x \<Longrightarrow> Q x) \<Longrightarrow> keeps p (lift_res r) Q"
  by (simp add: keeps_def J_refl lift_res_def)

lemma keeps_modify: "(\<And>s. p (f s) = p s) \<Longrightarrow> Q () \<Longrightarrow> keeps p (modify f) Q"
  by (simp add: keeps_def J_refl modify_def)

lemma keeps_bind:
  assumes "keeps p m R" "\<And>x. R x \<Longrightarrow> keeps p (f x) Q"
  shows "keeps p (gbind m f) Q"
  unfolding keeps_def
proof (intro allI)
  fix s
  obtain r s1 where r: "m s = (r, s1)" by (cases "m s")
  with assms(1) have 1: "J (p s) (p s1)" "\<And>x. r = Inr x \<Longrightarrow> R x" unfolding keeps_def by (metis fst_conv snd_conv)+
  show "J (p s) (p (snd (gbind m f s))) \<and> (\<forall>x. fst (gbind m f s) = Inr x \<longrightarrow> Q x)"
  proof (cases r)
    case (Inr x)
    from assms(2) [OF 1(2) [OF Inr]] have "J (p s1) (p (snd (f x s1)))" "\<forall>y. fst (f x s1) = Inr y \<longrightarrow> Q y"
      by (auto simp: keeps_def)
    with J_trans [OF 1(1)] Inr r show ?thesis by (simp add: gbind_def)
  qed (use 1 r in \<open>simp add: gbind_def\<close>)
qed

lemma keeps_then: "calls p m \<Longrightarrow> (\<And>x. keeps p (f x) Q) \<Longrightarrow> keeps p (gbind m f) Q"
  by (rule keeps_bind) auto

lemma keeps_seq: "calls p m \<Longrightarrow> keeps p k Q \<Longrightarrow> keeps p (gseq m k) Q"
  unfolding gseq_def by (rule keeps_then)

lemma keeps_if: "(b \<Longrightarrow> keeps p m Q) \<Longrightarrow> (\<not> b \<Longrightarrow> keeps p k Q) \<Longrightarrow> keeps p (if b then m else k) Q"
  by simp

lemma keeps_attempt: "keeps p m R \<Longrightarrow> keeps p (attempt m) (\<lambda>r. case r of Inl _ \<Rightarrow> True | Inr x \<Rightarrow> R x)"
  by (rule keepsI) (auto simp: attempt_def dest: keepsD split: prod.splits sum.splits go_error.splits)

lemma calls_attempt: "calls p m \<Longrightarrow> calls p (attempt m)"
  by (rule keeps_mono [OF keeps_attempt]) auto

lemma calls_tolerate: "calls p m \<Longrightarrow> calls p (tolerate m)"
  unfolding tolerate_def by (intro keeps_then calls_attempt keeps_ret TrueI)

lemma calls_noteErr: "calls p m \<Longrightarrow> calls p (noteErr pol msg e m)"
  unfolding noteErr_def by (intro keeps_then calls_attempt keeps_ret TrueI)

lemma calls_wrapErr: "calls p m \<Longrightarrow> calls p (wrapErr msg m)"
  unfolding wrapErr_def by (intro keeps_then calls_attempt) (auto intro: keeps_ret keeps_fail split: sum.split)

lemma calls_finishWith: "calls p (finishWith e)"
  by (auto simp: finishWith_def intro: keeps_ret keeps_fail split: option.split)

lemma calls_gfor: "(\<And>x. x \<in> set xs \<Longrightarrow> calls p (f x)) \<Longrightarrow> calls p (gfor xs f)"
  by (induction xs) (auto intro!: keeps_ret keeps_seq)

lemma keeps_inWorld: "keeps id m Q \<Longrightarrow> keeps tn_world (inWorld m) Q"
  by (rule keepsI) (auto simp: zoom_def dest: keepsD split: prod.splits)

lemma calls_leaves: "leaves st valid m \<Longrightarrow> calls id m"
  unfolding keeps_def leaves_def by (auto intro: J_rest)

lemma calls_world: "leaves st valid m \<Longrightarrow> calls tn_world (inWorld m)"
  by (intro keeps_inWorld calls_leaves)

lemma calls_tree: "leaves (st \<circ> tn_world) (valid \<circ> tn_world) m \<Longrightarrow> calls tn_world m"
  unfolding keeps_def leaves_def comp_def by (auto intro: J_rest)

lemmas calls_logs = logs [THEN calls_world]
lemmas calls_locks = locks [THEN calls_world]
lemmas calls_stores = stores [THEN calls_world]
lemmas calls_time = time [THEN calls_world]
lemmas calls_caches = caches [THEN calls_world]
lemmas calls_replicas = replicas [THEN calls_world]
lemmas calls_trees = trees [THEN calls_tree]

lemma calls_newUUID: "calls tn_world (inWorld (s_newUUID (x_S X)))"
proof (rule calls_world, unfold leaves_def, intro allI impI)
  fix w assume "valid w"
  from newUUID [OF this] show "valid (snd (s_newUUID (x_S X) w)) \<and> quiet (st w) (st (snd (s_newUUID (x_S X) w)))" by auto
qed

lemma calls_now: "calls tn_world (inWorld (s_now (x_S X)))"
proof (rule calls_world, unfold leaves_def, intro allI impI)
  fix w assume "valid w"
  from now [OF this] show "valid (snd (s_now (x_S X) w)) \<and> quiet (st w) (st (snd (s_now (x_S X) w)))" by auto
qed

lemma calls_regGet: "calls id (s_regGet (x_S X) vids)"
proof (rule calls_leaves, unfold leaves_def, intro allI impI)
  fix w assume "valid w"
  from regGet [OF this, of vids] show "valid (snd (s_regGet (x_S X) vids w)) \<and> quiet (st w) (st (snd (s_regGet (x_S X) vids w)))" by auto
qed

lemma calls_l2DelNode: "calls id (s_l2DelNode (x_S X) u)"
proof (rule calls_leaves, unfold leaves_def, intro allI impI)
  fix w assume "valid w"
  from l2DelNode [OF this, of u] show "valid (snd (s_l2DelNode (x_S X) u w)) \<and> quiet (st w) (st (snd (s_l2DelNode (x_S X) u w)))" by auto
qed

section \<open>The parts of a commit\<close>

abbreviation txcalls :: "('n, 'w, 'a) txm \<Rightarrow> bool" where
  "txcalls m \<equiv> keeps tn_world m (\<lambda>_. True)"

declare keeps_ret [quiet_parts] keeps_fail [quiet_parts] keeps_seq [quiet_parts] calls_attempt [quiet_parts]
  calls_tolerate [quiet_parts] calls_noteErr [quiet_parts] calls_finishWith [quiet_parts] calls_gfor [quiet_parts]
  calls_logs [quiet_parts] calls_locks [quiet_parts] calls_stores [quiet_parts] calls_time [quiet_parts]
  calls_trees [quiet_parts] calls_caches [quiet_parts] calls_replicas [quiet_parts] calls_newUUID [quiet_parts] calls_now [quiet_parts] keeps_reads [quiet_parts]
  keeps_modify [quiet_parts] keeps_lift [quiet_parts]

lemma calls_inWorld [quiet_parts]: "calls id m \<Longrightarrow> txcalls (inWorld m)"
  by (rule keeps_inWorld)

lemma calls_withRepo [quiet_parts]: "calls id m \<Longrightarrow> txcalls (withRepo X m)"
  by (simp add: withRepo_def keeps_fail calls_inWorld)

lemma calls_deferred [quiet_parts]: "calls p m \<Longrightarrow> calls p u \<Longrightarrow> calls p (deferred m u)"
  unfolding deferred_def
  by (rule keeps_then, erule calls_attempt) (auto intro!: quiet_parts split: sum.split)

lemma calls_undoIf [quiet_parts]: "(c \<Longrightarrow> txcalls m) \<Longrightarrow> txcalls (undoIf c e m)"
  by (auto simp: undoIf_def intro!: quiet_parts)

lemma calls_tlog [quiet_parts]: "txcalls (tlog X f pl)"
  unfolding tlog_def by (intro keeps_seq keeps_then) (auto intro!: quiet_parts)

lemma calls_removeLogs [quiet_parts]: "txcalls (removeLogs X)"
  unfolding removeLogs_def by (intro keeps_then) (auto intro!: quiet_parts)

lemma calls_createLockKeys [quiet_parts]: "txcalls (createLockKeys X ks)"
  by (induction ks) (auto intro!: keeps_then quiet_parts)

lemma calls_timedOut [quiet_parts]: "txcalls (tx_timedOut X nm s l)"
  unfolding tx_timedOut_def
  by (intro keeps_then) (auto intro!: keeps_then quiet_parts split: option.split)

lemma calls_forTracked: "(\<And>b. b \<in> set (x_B X) \<Longrightarrow> txcalls (f b)) \<Longrightarrow> txcalls (forTracked X f)"
  unfolding forTracked_def by (intro calls_gfor keeps_then) (auto intro!: quiet_parts)

lemma calls_checkTrackedItems [quiet_parts]: "txcalls (checkTrackedItems X)"
  unfolding checkTrackedItems_def by (rule calls_forTracked) (rule calls_trees)

lemma calls_lockTrackedItems [quiet_parts]: "txcalls (tx_lockTrackedItems X)"
  unfolding tx_lockTrackedItems_def by (rule calls_forTracked) (rule calls_trees)

lemma calls_unlockEach: "set bs \<subseteq> set (x_B X) \<Longrightarrow> txcalls (unlockEach bs e)"
  by (induction bs arbitrary: e) (auto intro!: keeps_then quiet_parts)

lemma calls_unlockTrackedItems [quiet_parts]: "txcalls (unlockTrackedItems X)"
  unfolding unlockTrackedItems_def by (intro keeps_then calls_unlockEach quiet_parts) simp

lemma calls_commitTrackedItemsValues [quiet_parts]: "txcalls (tx_commitTrackedItemsValues X)"
  unfolding tx_commitTrackedItemsValues_def by (intro quiet_parts)

lemma calls_refetchAndMerge [quiet_parts]: "txcalls (refetchAndMergeModifications X)"
  unfolding refetchAndMergeModifications_def by (intro quiet_parts)

lemma keeps_bkForRollback:
  "b \<in> set (x_B X) \<Longrightarrow> keeps tn_world (bk_getForRollbackTrackedItemsValues b) (\<lambda>v. v = None)"
  using calls_trees(6) [of b] values_in_nodes [of b] by (auto simp: keeps_def)

lemma keeps_getForRollback: "set bs \<subseteq> set (x_B X) \<Longrightarrow> keeps tn_world (getForRollback bs) (\<lambda>vs. vs = [])"
proof (induction bs)
  case (Cons b bs)
  then show ?case unfolding getForRollback.simps
    by (intro keeps_bind [OF keeps_bkForRollback] keeps_bind [OF keeps_reads [of "\<lambda>i. i = []"]] keeps_bind [OF Cons.IH])
      (auto simp: valuesOf_def intro: keeps_ret)
qed (simp add: keeps_ret)

lemma calls_undoValues [quiet_parts]: "txcalls (undoValues X)"
  unfolding undoValues_def getForRollbackTrackedItemsValues_def
  by (rule keeps_bind [OF keeps_getForRollback]) (auto simp: tx_deleteTrackedItemsValues_def intro: quiet_parts)

section \<open>Locks\<close>

lemma calls_unlockNodesKeys [quiet_parts]: "txcalls (tx_unlockNodesKeys X)"
  unfolding tx_unlockNodesKeys_def
  by (intro keeps_then) (auto intro!: keeps_then quiet_parts split: sum.split)

lemma calls_nodesKeysNilOrLocked [quiet_parts]: "txcalls (nodesKeysNilOrLocked X)"
  unfolding nodesKeysNilOrLocked_def by (intro keeps_then) (auto intro!: keeps_then quiet_parts)

lemma calls_aget [quiet_parts]: "calls p (aget xs i)"
  unfolding aget_def by (rule keeps_lift) simp

lemma calls_addKeys [quiet_parts]: "txcalls (addKeys X is xs)"
  by (induction "is" arbitrary: xs) (auto intro!: keeps_then quiet_parts simp del: createLockKeys.simps)

lemma calls_keepHeld [quiet_parts]: "txcalls (keepHeld X m held xs)"
  by (induction held arbitrary: xs) (auto intro!: quiet_parts split: option.split)

lemma calls_mergeNodesKeys [quiet_parts]: "txcalls (mergeNodesKeys X u r)"
  unfolding mergeNodesKeys_def by (intro keeps_then) (auto intro!: keeps_then quiet_parts)

lemma calls_lockKeys: "(\<And>d ks. leaves st valid (f d ks)) \<Longrightarrow> txcalls (lockKeys X f)"
  unfolding lockKeys_def by (intro keeps_then) (auto intro!: keeps_then quiet_parts calls_leaves split: prod.split)

lemmas calls_lock = calls_lockKeys [OF locks(1)]
lemmas calls_dualLock = calls_lockKeys [OF locks(2)]

lemma calls_releaseKeys [quiet_parts]: "txcalls (releaseKeys X)"
  unfolding releaseKeys_def by (intro keeps_then) (auto intro!: quiet_parts)

lemma calls_confirmLocks [quiet_parts]: "txcalls (confirmLocks X)"
  unfolding confirmLocks_def
  by (intro keeps_then quiet_parts) (auto intro!: keeps_then quiet_parts calls_dualLock split: sum.split)

section \<open>Parts of rollback and phase 1\<close>

lemma calls_areFetchedItemsIntact: "calls id (areFetchedItemsIntact (x_S X) nodes)"
  unfolding areFetchedItemsIntact_def Let_def
  by (intro keeps_if keeps_ret TrueI keeps_then calls_regGet keeps_lift)

lemma keeps_classify: "keeps p (reads (classifyModifiedNodes X)) good"
  by (rule keeps_reads) (use only_changes in \<open>auto simp: good_def changes_only_def Let_def\<close>)

lemma calls_undoStores [quiet_parts]: "txcalls (undoStores X)"
  unfolding undoStores_def by (intro keeps_then) (auto intro!: quiet_parts)

lemma calls_removeCreated [quiet_parts]: "txcalls (removeCreated X bs e)"
  by (induction bs arbitrary: e) (auto intro!: keeps_then quiet_parts)

lemma calls_forgetLogs [quiet_parts]: "txcalls (forgetLogs X)"
  unfolding forgetLogs_def by (intro quiet_parts)

lemma keeps_stepOr: "calls id m \<Longrightarrow> txcalls (stepOr X m)"
  unfolding stepOr_def
  by (intro keeps_then quiet_parts) (auto simp: no_sector_locks intro!: quiet_parts split: sum.split)

lemma calls_commitValues: "keeps tn_world (commitValues X v) (\<lambda>v. good (p1_nodes v))"
  unfolding commitValues_def
  by (intro keeps_then keeps_seq keeps_bind [OF keeps_classify] keeps_ret keeps_if quiet_parts)
    (auto intro!: quiet_parts keeps_mono [OF keeps_getForRollback] simp: getForRollbackTrackedItemsValues_def)

lemma calls_commitRoots: "good_vars v \<Longrightarrow> txcalls (commitRoots X v)"
  unfolding commitRoots_def Let_def good_vars_def good_def
  by (intro keeps_seq keeps_then keeps_stepOr quiet_parts) (auto simp: commitNewRootNodes_def intro!: quiet_parts)

lemma calls_checkFetched: "txcalls (checkFetched X v)"
  unfolding checkFetched_def by (intro quiet_parts calls_areFetchedItemsIntact)

lemma calls_commitAdditions: "good_vars v \<Longrightarrow> txcalls (commitAdditions X v)"
  unfolding commitAdditions_def Let_def good_vars_def good_def
  by (intro keeps_seq keeps_then keeps_stepOr quiet_parts) (auto simp: commitAddedNodes_def intro!: quiet_parts)

lemma keeps_retryLocks: "good_vars v \<Longrightarrow> keeps tn_world (retryLocks X what r v) good_vars"
  unfolding retryLocks_def Let_def by (auto intro!: keeps_seq quiet_parts)

lemma keeps_remerge: "keeps tn_world (remerge X v) good_vars"
  unfolding remerge_def
  by (intro keeps_seq keeps_bind [OF keeps_classify] keeps_ret quiet_parts) (simp_all add: good_vars_def)

lemma keeps_lockNodes: "good_vars v \<Longrightarrow> keeps tn_world (lockNodes X v) (\<lambda>r. good_vars (snd r))"
  unfolding lockNodes_def
  by (intro keeps_then calls_attempt calls_lock)
    (auto intro!: keeps_seq keeps_then keeps_bind [OF keeps_retryLocks] keeps_bind [OF keeps_remerge] calls_dualLock quiet_parts
      split: sum.split bool.split)

lemma calls_commitStoresInfo: "txcalls (commitStoresInfo X bs)"
  by (induction bs) (auto intro!: keeps_then quiet_parts simp: Let_def)

lemma calls_commitStores [quiet_parts]: "txcalls (commitStores X)"
  unfolding commitStores_def by (intro keeps_then calls_commitStoresInfo) (auto intro!: quiet_parts)

lemma calls_finishPhase1 [quiet_parts]: "txcalls (finishPhase1 X v)"
  unfolding finishPhase1_def by (intro keeps_then keeps_seq quiet_parts) (auto intro!: quiet_parts)

lemma keeps_onWorld: "txcalls m \<Longrightarrow> calls (tn_world \<circ> world) (onWorld m)"
  by (rule keepsI) (auto simp: zoom_def dest: keepsD split: prod.splits)

lemma calls_uncacheNodes: "calls id (uncacheNodes (x_S X) msg us e)"
  by (induction us arbitrary: e) (auto intro!: keeps_ret keeps_then calls_noteErr calls_l2DelNode)

end

end
