(* ===== verification/Tx_Env.thy ===== *)
theory Tx_Env
  imports Tx_View
begin

text \<open>
  The steps of a commit and of a rollback that work on the stored nodes: readers see the same before and
  after each of them.
\<close>

context commit_env
begin

definition same_view :: "'w \<Rightarrow> 'w \<Rightarrow> bool" where
  "same_view w w' = (safe w \<longrightarrow> safe w' \<and> shown w' = shown w)"

end

sublocale commit_env \<subseteq> shown?: commit_view X st valid same_view
proof
  show "same_view w w" for w by (simp add: same_view_def)
  show "same_view u v \<Longrightarrow> same_view v w \<Longrightarrow> same_view u w" for u v w by (auto simp: same_view_def)
  show "(valid w \<Longrightarrow> valid w' \<and> quiet (st w) (st w')) \<Longrightarrow> same_view w w'" for w w'
    by (auto simp: same_view_def safe_def shown_def quiet_def)
qed

context commit_env
begin

section \<open>The steps on the nodes\<close>

lemma keeps_step: "(\<And>w r w'. safe w \<Longrightarrow> m w = (r, w') \<Longrightarrow> safe w' \<and> shown w' = shown w) \<Longrightarrow> calls id m"
  by (rule keepsI) (auto simp: same_view_def)

lemma calls_commitUpdatedNodes:
  "distinct (map (s_ID (x_S X)) (concat (map snd nodes))) \<Longrightarrow> calls id (commitUpdatedNodes (x_S X) nodes)"
  by (rule keeps_step) (rule commitUpdatedNodes_safe)

text \<open>Reading handles and writing replacements for them.\<close>

lemma keeps_regGet:
  assumes "\<And>ps w. safe w \<Longrightarrow> length ps = length vids \<Longrightarrow> (\<And>h. h \<in> set (payloadIDs ps) \<Longrightarrow> regs (st w) (LogicalID h) = Some h) \<Longrightarrow>
    safe (snd (f ps w)) \<and> shown (snd (f ps w)) = shown w"
  shows "calls id (gbind (s_regGet (x_S X) vids) f)"
proof (rule keeps_step)
  fix w r w' assume s: "safe w" and run: "gbind (s_regGet (x_S X) vids) f w = (r, w')"
  then have v: "valid w" by (simp add: safe_def)
  from regGet [OF v, of vids] obtain ps w1 where g: "s_regGet (x_S X) vids w = (Inr ps, w1)" by blast
  note m = regGet_mem [OF v g]
  from safe_quiet [OF s m(1,2)] have 1: "safe w1" "shown w1 = shown w" by simp_all
  have "regs (st w1) (LogicalID h) = Some h" if "h \<in> set (payloadIDs ps)" for h
    using m(4) [OF that] m(2) by (simp add: quiet_def)
  from assms [OF 1(1) m(3) this] run 1(2) g show "safe w' \<and> shown w' = shown w" by (simp add: gbind_def)
qed

lemma markRemoved_milder:
  "markRemoved S t ns hs = Inr (Some ks) \<Longrightarrow> list_all2 milder hs ks"
proof (induction S t ns hs arbitrary: ks rule: markRemoved.induct)
  case (2 S t ns h hs)
  then show ?case by (auto simp: milder_mark split: if_splits list.splits sum.splits option.splits)
qed simp

lemma markRemovedAll_milder:
  "markRemovedAll S t nodes ps = Inr (Some qs) \<Longrightarrow> list_all2 milder (payloadIDs ps) (payloadIDs qs)"
proof (induction S t nodes ps arbitrary: qs rule: markRemovedAll.induct)
  case (2 S t nodes p ps)
  from "2.prems" obtain r q where r: "markRemoved S t (case nodes of [] \<Rightarrow> [] | (si, ns) # _ \<Rightarrow> ns) (rp_IDs p) = Inr (Some r)"
    "markRemovedAll S t (tl nodes) ps = Inr (Some q)" "qs = p\<lparr>rp_IDs := r\<rparr> # q"
    by (auto split: sum.splits option.splits)
  from "2.IH" [OF r(1) HOL.refl r(2)] markRemoved_milder [OF r(1)] r(3) show ?case
    by (simp add: payloadIDs_def list_all2_appendI)
qed (simp add: payloadIDs_def)

lemma replaces_all2:
  assumes "list_all2 milder hs ks" "\<And>h. h \<in> set hs \<Longrightarrow> regs (st w) (LogicalID h) = Some h"
  shows "replaces w ks"
  unfolding replaces_def
proof
  fix k assume "k \<in> set ks"
  then obtain i where "i < length ks" "k = ks ! i" by (metis in_set_conv_nth)
  with assms(1) have "milder (hs ! i) k" "hs ! i \<in> set hs" by (auto simp: list_all2_conv_all_nth)
  with assms(2) [of "hs ! i"] show "\<exists>h. regs (st w) (LogicalID k) = Some h \<and> milder h k" by (auto simp: milder_def)
qed

lemma calls_commitRemovedNodes: "calls id (commitRemovedNodes (x_S X) nodes)"
proof -
  have "calls id (gbind (s_regGet (x_S X) vids) (\<lambda>handles. gbind (s_now (x_S X)) (\<lambda>t.
     gbind (lift_res (markRemovedAll (x_S X) t nodes handles)) (\<lambda>r. case r of
       None \<Rightarrow> ret (False, [])
     | Some q \<Rightarrow> gseq (s_regUpdateNoLocks (x_S X) False q) (ret (True, q))))))" for vids
  proof (rule keeps_regGet)
    fix ps w assume s: "safe w" and ps: "\<And>h. h \<in> set (payloadIDs ps) \<Longrightarrow> regs (st w) (LogicalID h) = Some h"
    let ?f = "\<lambda>t. gbind (lift_res (markRemovedAll (x_S X) t nodes ps)) (\<lambda>r. case r of
       None \<Rightarrow> ret (False, []) | Some q \<Rightarrow> gseq (s_regUpdateNoLocks (x_S X) False q) (ret (True, q)))"
    have "valid w" using s by (simp add: safe_def)
    from now [OF this] obtain t w1 where t: "s_now (x_S X) w = (Inr t, w1)" "valid w1" "quiet (st w) (st w1)" by blast
    from safe_quiet [OF s t(2,3)] have 1: "safe w1" "shown w1 = shown w" by simp_all
    have "safe (snd (?f t w1)) \<and> shown (snd (?f t w1)) = shown w1"
    proof (cases "markRemovedAll (x_S X) t nodes ps")
      case (Inr r)
      show ?thesis
      proof (cases r)
        case (Some q)
        have "replaces w1 (payloadIDs q)"
          using markRemovedAll_milder [of "x_S X" t nodes ps q] Inr Some ps t(3)
          by (intro replaces_all2 [of "payloadIDs ps"]) (auto simp: quiet_def)
        from regUpdateNoLocks_safe [OF 1(1) this, of False] Inr Some show ?thesis
          by (cases "s_regUpdateNoLocks (x_S X) False q w1") (auto simp: exec_simps split: sum.split)
      qed (use Inr 1 in \<open>simp add: exec_simps\<close>)
    qed (use 1 in \<open>simp add: exec_simps\<close>)
    with 1(2) t(1) show "safe (snd (gbind (s_now (x_S X)) ?f w)) \<and> shown (snd (gbind (s_now (x_S X)) ?f w)) = shown w"
      by (simp add: gbind_def)
  qed
  then show ?thesis unfolding commitRemovedNodes_def by (intro keeps_if keeps_ret TrueI)
qed

text \<open>The rollback of changed nodes: the staged blobs are nobody's active ones.\<close>

lemma writeBack_safe:
  assumes "safe w" "replaces w (payloadIDs ps)"
  shows "safe (snd ((if b then s_regUpdateNoLocks (x_S X) False ps else s_regUpdate (x_S X) ps) w)) \<and>
    shown (snd ((if b then s_regUpdateNoLocks (x_S X) False ps else s_regUpdate (x_S X) ps) w)) = shown w"
proof (cases b)
  case True
  then show ?thesis using regUpdateNoLocks_safe [OF assms, of False] by (cases "s_regUpdateNoLocks (x_S X) False ps w") simp
next
  case False
  have v: "valid w" using assms(1) by (simp add: safe_def)
  from regUpdate [OF v, of ps] replaces_ok [OF v assms(2)] obtain r w' k where w': "s_regUpdate (x_S X) ps w = (r, w')"
    "valid w'" "regs (st w') = updHandles (take k (payloadIDs ps)) (regs (st w))" "blobs (st w') = blobs (st w)" by blast
  have "milder_map (regs (st w)) (regs (st w'))"
    unfolding w'(3) by (rule milder_map_upd) (use assms(2) set_take_subset in \<open>fastforce simp: replaces_def\<close>)+
  from safe_mild [OF assms(1) w'(2) this] w'(1,4) False show ?thesis by simp
qed

lemma safe_step: "calls id m \<Longrightarrow> safe w \<Longrightarrow> safe (snd (m w)) \<and> shown (snd (m w)) = shown w"
  by (simp add: keeps_def same_view_def)

lemma noteErr_snd: "snd (noteErr pol msg e m w) = snd (m w)"
  by (simp add: noteErr_def exec_simps split: prod.splits sum.splits go_error.splits)

lemma wrapErr_snd: "snd (wrapErr msg m w) = snd (m w)"
  by (simp add: wrapErr_def exec_simps split: prod.splits sum.splits go_error.splits)

lemma gbind_wrapErr_snd: "snd (gbind (wrapErr msg m) f w) = snd (gbind m f w)"
  by (simp add: wrapErr_def exec_simps split: prod.splits sum.splits go_error.splits)

lemma calls_cong: "calls p m \<Longrightarrow> (\<And>w. snd (m' w) = snd (m w)) \<Longrightarrow> calls p m'"
  by (simp add: keeps_def)

lemma noteErr_then_safe:
  assumes "safe (snd (m w))" "shown (snd (m w)) = shown w"
    "\<And>e. safe (snd (f e (snd (m w)))) \<and> shown (snd (f e (snd (m w)))) = shown (snd (m w))"
  shows "safe (snd (gbind (noteErr pol msg e m) f w)) \<and> shown (snd (gbind (noteErr pol msg e m) f w)) = shown w"
proof -
  obtain r w1 where r: "noteErr pol msg e m w = (r, w1)" by (cases "noteErr pol msg e m w")
  then have w1: "w1 = snd (m w)" using noteErr_snd [of pol msg e m w] by simp
  show ?thesis using assms r w1 by (cases r) (simp_all add: gbind_def)
qed

lemma calls_rollbackUpdatedNodes: "calls id (rollbackUpdatedNodes (x_S X) locked vids)"
proof (cases "vids = []")
  case True
  then show ?thesis by (simp add: rollbackUpdatedNodes_def keeps_ret)
next
  case False
  have "calls id (gbind (s_regGet (x_S X) vids) (\<lambda>handles. gbind (lift_res (stagedBlobs vids handles)) (\<lambda>bibs.
       gbind (noteErr Replace ''unable to undo updated nodes: '' None (s_blobRemove (x_S X) bibs)) (\<lambda>e.
       gbind (noteErr Chain ''unable to undo updated nodes registration: '' e
          (if locked then s_regUpdateNoLocks (x_S X) False (mapHandles unstage handles) else s_regUpdate (x_S X) (mapHandles unstage handles))) (\<lambda>e.
       gbind (uncacheNodes (x_S X) ''unable to undo updated nodes in redis: '' (blobIDs bibs) e) finishWith)))))"
    (is "calls id (gbind _ (\<lambda>handles. gbind _ (?f handles)))")
  proof (rule keeps_regGet)
    fix ps w assume s: "safe w" "length ps = length vids"
      and ps: "\<And>h. h \<in> set (payloadIDs ps) \<Longrightarrow> regs (st w) (LogicalID h) = Some h"
    obtain bibs where b: "stagedBlobs vids ps = Inr bibs" "blobIDs bibs = inactiveIDs (payloadIDs ps)"
      using blobIDs_stagedBlobs [OF s(2)] by blast
    obtain r w1 where w1: "s_blobRemove (x_S X) bibs w = (r, w1)" by (cases "s_blobRemove (x_S X) bibs w")
    have "u \<noteq> NilUUID \<and> (\<exists>i h. regs (st w) i = Some h \<and> GetInActiveID h = u)" if "u \<in> set (blobIDs bibs)" for u
      using that ps by (auto simp: b(2) inactiveIDs_def)
    from blobRemove_safe [OF s(1) w1 this] have 1: "safe w1" "shown w1 = shown w" "regs (st w1) = regs (st w)" by auto
    have rep: "replaces w1 (payloadIDs (mapHandles unstage ps))"
      unfolding payloadIDs_mapHandles by (rule replaces_map) (use ps 1(3) in \<open>simp_all add: milder_unstage\<close>)
    have "safe (snd (?f ps bibs w)) \<and> shown (snd (?f ps bibs w)) = shown w"
    proof (rule noteErr_then_safe)
      fix e
      let ?m = "if locked then s_regUpdateNoLocks (x_S X) False (mapHandles unstage ps) else s_regUpdate (x_S X) (mapHandles unstage ps)"
      let ?k = "gbind (noteErr Chain ''unable to undo updated nodes registration: '' e ?m) (\<lambda>e.
         gbind (uncacheNodes (x_S X) ''unable to undo updated nodes in redis: '' (blobIDs bibs) e) finishWith)"
      note 2 = writeBack_safe [OF 1(1) rep, of locked]
      have "safe (snd (?k w1)) \<and> shown (snd (?k w1)) = shown w1"
        by (rule noteErr_then_safe [where m = ?m and w = w1, OF 2 [THEN conjunct1] 2 [THEN conjunct2]])
          (rule safe_step [OF _ 2 [THEN conjunct1]], intro keeps_then calls_uncacheNodes calls_finishWith)
      then show "safe (snd (?k (snd (s_blobRemove (x_S X) bibs w)))) \<and>
        shown (snd (?k (snd (s_blobRemove (x_S X) bibs w)))) = shown (snd (s_blobRemove (x_S X) bibs w))" by (simp add: w1)
    qed (use 1 w1 in simp_all)
    then show "safe (snd (gbind (lift_res (stagedBlobs vids ps)) (?f ps) w)) \<and> shown (snd (gbind (lift_res (stagedBlobs vids ps)) (?f ps) w)) = shown w"
      by (simp add: b(1) gbind_def lift_res_def)
  qed
  with False show ?thesis by (simp add: rollbackUpdatedNodes_def Let_def)
qed

lemma calls_rollbackRemovedNodes: "calls id (rollbackRemovedNodes (x_S X) locked vids)"
proof (cases "vids = []")
  case True
  then show ?thesis by (simp add: rollbackRemovedNodes_def keeps_ret)
next
  case False
  let ?undone = "\<lambda>handles. map (\<lambda>p. \<lparr>rp_RegistryTable = rp_RegistryTable p, rp_BlobTable = [], rp_CacheDuration = 0,
             rp_IsCacheTTL = False, rp_IDs = map unmark (filter marked (rp_IDs p))\<rparr>) handles"
  let ?put = "\<lambda>handles. wrapErr ''unable to undo removed nodes in registry: ''
         (if locked then s_regUpdateNoLocks (x_S X) False (?undone handles) else s_regUpdate (x_S X) (?undone handles))"
  have put: "safe (snd (?put ps w)) \<and> shown (snd (?put ps w)) = shown w"
    if s: "safe w" and ps: "\<And>h. h \<in> set (payloadIDs ps) \<Longrightarrow> regs (st w) (LogicalID h) = Some h" for ps w
  proof -
    have "payloadIDs (?undone ps) = map unmark (filter marked (payloadIDs ps))"
      by (induction ps) (simp_all add: payloadIDs_def)
    then have "replaces w (payloadIDs (?undone ps))"
      by simp (rule replaces_map, use ps in \<open>simp_all add: milder_unmark\<close>)
    from writeBack_safe [OF s this, of locked] show ?thesis by (simp only: wrapErr_snd)
  qed
  have "calls id (gbind (s_regGet (x_S X) vids) ?put)" by (rule keeps_regGet) (rule put)
  then have "calls id (gbind (wrapErr ''unable to fetch removed nodes from registry: '' (s_regGet (x_S X) vids)) ?put)"
    by (rule calls_cong) (rule gbind_wrapErr_snd)
  with False show ?thesis by (simp add: rollbackRemovedNodes_def Let_def)
qed

end

end
