(* ===== verification/Tx_Invisible.thy ===== *)
theory Tx_Invisible
  imports Tx_Env
begin

text \<open>
  The first phase of a commit and its rollback in the environment of \<open>commit_env\<close>: every part leaves what readers
  see alone.
\<close>

context commit_env
begin

section \<open>Rollback\<close>

lemma calls_undoNodes: "good ns \<Longrightarrow> txcalls (undoNodes X s ns e)"
  unfolding undoNodes_def Let_def good_def
  by (intro keeps_then quiet_parts calls_rollbackRemovedNodes calls_rollbackUpdatedNodes)
    (auto simp: rollbackAddedNodes_def rollbackNewRootNodes_def convertToRegistryRequestPayload_def
      intro!: quiet_parts)

lemma calls_rollback [quiet_parts]: "txcalls (tx_rollback X v)"
  unfolding tx_rollback_def
  by (intro keeps_then keeps_if keeps_bind [OF keeps_classify] calls_undoNodes quiet_parts) (auto intro!: quiet_parts)

section \<open>The steps of phase 1\<close>

lemma keeps_commitUpdates: "good_vars v \<Longrightarrow> keeps tn_world (commitUpdates X v) (\<lambda>r. good_vars (snd r))"
  unfolding commitUpdates_def
  by (intro keeps_seq keeps_then keeps_stepOr calls_commitUpdatedNodes quiet_parts) (simp_all add: good_vars_def good_def)

lemma keeps_commitRemovals: "good_vars v \<Longrightarrow> keeps tn_world (commitRemovals X v) (\<lambda>r. good_vars (snd r))"
  unfolding commitRemovals_def Let_def
  by (intro keeps_seq keeps_then calls_withRepo calls_commitRemovedNodes calls_tlog) (auto intro!: quiet_parts split: prod.split)

lemma keeps_commitSteps: "keeps tn_world (commitSteps X v) (\<lambda>r. good_vars (snd r))"
  unfolding commitSteps_def
  by (rule keeps_bind [OF calls_commitValues])
    (auto intro!: keeps_then calls_commitRoots calls_checkFetched keeps_bind [OF keeps_commitUpdates]
      keeps_bind [OF keeps_commitRemovals] calls_commitAdditions keeps_ret simp: good_vars_def split: prod.split)

lemma keeps_retryCommit: "good_vars v \<Longrightarrow> keeps tn_world (retryCommit X v) good_vars"
  unfolding retryCommit_def Let_def
  by (auto intro!: keeps_then keeps_seq quiet_parts split: sum.split)

lemma keeps_phase1Round: "good_vars v \<Longrightarrow> keeps tn_world (phase1Round X s v) (\<lambda>r. good_vars (snd r))"
  unfolding phase1Round_def
  by (intro keeps_seq keeps_bind [OF keeps_lockNodes] calls_timedOut)
    (auto intro!: keeps_bind [OF keeps_commitSteps] keeps_bind [OF keeps_retryCommit] keeps_ret split: prod.split)

lemma calls_phase1Loop: "good_vars v \<Longrightarrow> txcalls (phase1Loop X n s v)"
proof (induction n arbitrary: v)
  case (Suc n)
  then show ?case
    unfolding phase1Loop.simps by (intro keeps_bind [OF keeps_phase1Round]) (auto intro!: keeps_ret)
qed (simp add: keeps_ret)

lemma calls_phase1Commit [quiet_parts]: "txcalls (phase1Commit X)"
  unfolding phase1Commit_def Let_def
  by (intro keeps_then keeps_seq keeps_if keeps_bind [OF keeps_classify] quiet_parts calls_phase1Loop)
    (auto intro!: quiet_parts simp: p1_start_def good_vars_def split: option.split)

text \<open>Both, with any outcome.\<close>

lemma phase1_keeps:
  assumes "safe (tn_world t)" "phase1Commit X t = (r, t')"
  shows "safe (tn_world t') \<and> shown (tn_world t') = shown (tn_world t)"
  using calls_phase1Commit assms by (auto dest: keepsD simp: same_view_def)

lemma rollback_keeps:
  assumes "safe (tn_world t)" "tx_rollback X b t = (r, t')"
  shows "safe (tn_world t') \<and> shown (tn_world t') = shown (tn_world t)"
  using keepsD [OF calls_rollback assms(2)] assms(1) by (simp add: same_view_def)

section \<open>The life cycle\<close>

lemma calls_readerLoop: "txcalls (readerLoop X n s)"
  by (induction n) (auto intro!: keeps_seq keeps_then quiet_parts calls_areFetchedItemsIntact)

lemma calls_reader: "txcalls (commitForReaderTransaction X n mode)"
  unfolding commitForReaderTransaction_def by (intro keeps_if keeps_then) (auto intro!: keeps_then quiet_parts calls_readerLoop)

lemma calls_Phase1Commit: "calls (tn_world \<circ> world) (Phase1Commit (commit_bodies X n close idle None))"
  unfolding Phase1Commit_def setPhase_def notifyReplication_def commit_bodies_def
  by (intro keeps_then keeps_if keeps_seq quiet_parts)
    (auto intro!: keeps_then keeps_seq quiet_parts keeps_onWorld calls_reader split: sum.split)

lemma Phase1Commit_keeps:
  assumes "safe (tn_world (world t))" "Phase1Commit (commit_bodies X n close idle None) t = (r, t')"
  shows "safe (tn_world (world t')) \<and> shown (tn_world (world t')) = shown (tn_world (world t))"
  using calls_Phase1Commit [of n close idle] assms by (auto dest: keepsD simp: same_view_def)

lemma calls_closing: "leaves (st \<circ> tn_world) (valid \<circ> tn_world) close \<Longrightarrow>
  calls (tn_world \<circ> world) (Close (commit_bodies X n close idle None))"
  by (simp add: Close_def commit_bodies_def keeps_onWorld calls_tree)

lemma calls_Rollback: "leaves (st \<circ> tn_world) (valid \<circ> tn_world) close \<Longrightarrow>
  calls (tn_world \<circ> world) (Rollback (commit_bodies X n close idle None) e)"
  using calls_closing [of close n idle] unfolding Rollback_def setPhase_def notifyReplication_def
  by (intro keeps_then keeps_if keeps_seq quiet_parts)
    (auto intro!: keeps_then keeps_seq quiet_parts keeps_onWorld split: sum.split simp: commit_bodies_def)

lemma Rollback_keeps:
  assumes "safe (tn_world (world t))" "leaves (st \<circ> tn_world) (valid \<circ> tn_world) close"
    "Rollback (commit_bodies X n close idle None) e t = (r, t')"
  shows "safe (tn_world (world t')) \<and> shown (tn_world (world t')) = shown (tn_world (world t))"
  using calls_Rollback [OF assms(2), of n idle e] assms(1,3) by (auto dest: keepsD simp: same_view_def)

end

end
