(* ===== verification/Tx_Mocks.thy ===== *)
theory Tx_Mocks
  imports Tx_Keys Tx_Invisible Node_Sample
begin

text \<open>
  A whole environment for a commit: the in-memory registry and blob store, the in-memory cache with its
  locks, the in-memory store repository (\<open>common/mocks/mock_store_repository.go\<close>) and a log that is a list
  of entries (with the priority log of \<open>common/mocks/mock_transaction_log.go\<close>, which does nothing). On it
  the laws of \<open>commit_env\<close> hold, and the first phase of a commit can be run.
\<close>

section \<open>The world\<close>

record 'n tx_world = "'n mock_world" +
  tw_cache :: l2_cache
  store_lookup :: "string \<rightharpoonup> store_info"
  tw_log :: "(uuid \<times> commit_function \<times> log_payload) list"

type_synonym ('n, 'a) twm = "('n tx_world, 'a) gom"

abbreviation inCache :: "'a l2m \<Rightarrow> ('n, 'a) twm" where
  "inCache \<equiv> zoom tw_cache (\<lambda>c w. w\<lparr>tw_cache := c\<rparr>)"

text \<open>A store that is not there counts as Go's zero value. \<open>Update\<close> returns no stores.\<close>

definition mock_storeAdd :: "store_info list \<Rightarrow> ('n, unit) twm" where
  "mock_storeAdd stores = gfor stores (\<lambda>s. modify (\<lambda>w. w\<lparr>store_lookup := (store_lookup w)(si_Name s \<mapsto> s)\<rparr>))"

definition mock_storeUpdate :: "store_info list \<Rightarrow> ('n, store_info list) twm" where
  "mock_storeUpdate stores = gseq (gfor stores (\<lambda>s. modify (\<lambda>w.
     let n = (case store_lookup w (si_Name s) of None \<Rightarrow> 0 | Some c \<Rightarrow> si_Count c)
     in w\<lparr>store_lookup := (store_lookup w)(si_Name s \<mapsto> s\<lparr>si_Count := n + CountDelta s, CountDelta := 0\<rparr>)\<rparr>))) (ret [])"

definition mock_storeRemove :: "string list \<Rightarrow> ('n, unit) twm" where
  "mock_storeRemove names = gfor names (\<lambda>n. modify (\<lambda>w. w\<lparr>store_lookup := (store_lookup w)(n := None)\<rparr>))"

definition mock_storeReplicate :: "store_info list \<Rightarrow> ('n, unit) twm" where
  "mock_storeReplicate stores = ret ()"

definition mock_log :: "('n tx_world) log_store" where
  "mock_log = \<lparr>tl_Add = (\<lambda>i f p. modify (\<lambda>w. w\<lparr>tw_log := tw_log w @ [(i, f, p)]\<rparr>)),
     tl_Remove = (\<lambda>i. modify (\<lambda>w. w\<lparr>tw_log := filter (\<lambda>e. fst e \<noteq> i) (tw_log w)\<rparr>)),
     tl_GetOne = ret (NilUUID, [], []), tl_GetOneOfHour = (\<lambda>_. ret (NilUUID, [])),
     pl_IsEnabled = False, pl_Add = (\<lambda>_ _. ret ()), pl_Get = (\<lambda>_. ret None), pl_Remove = (\<lambda>_. ret ()),
     pl_GetBatch = (\<lambda>_. ret []), pl_LogCommitChanges = (\<lambda>_ _ _ _ _. ret ())\<rparr>"

definition mock_env :: "uuid \<Rightarrow> int \<Rightarrow> ('n, 'n tx_world) tx_env" where
  "mock_env i limit = \<lparr>te_id = i, te_maxTime = limit,
     te_Lock = (\<lambda>d ks. inCache (l2_Lock d ks)), te_DualLock = (\<lambda>d ks. inCache (l2_DualLock d ks)),
     te_IsLocked = (\<lambda>ks. inCache (l2_IsLocked ks)), te_IsLockedByOthers = (\<lambda>ns. inCache (l2_IsLockedByOthers ns)),
     te_Unlock = (\<lambda>ks. inCache (l2_Unlock ks)), te_GetEx = (\<lambda>k d. inCache (l2_GetEx k d)),
     te_DeleteKey = (\<lambda>k. inCache (l2_Delete [k])),
     te_SetNodeToMRU = (\<lambda>u n d. modify (\<lambda>w. w\<lparr>mw_nodes := (mw_nodes w)(u \<mapsto> n)\<rparr>)),
     te_DeleteNodes = (\<lambda>us. gseq (modify (\<lambda>w. w\<lparr>mw_nodes := mw_nodes w |` (- set us)\<rparr>)) (ret True)),
     te_storeUpdate = mock_storeUpdate, te_storeRemove = (\<lambda>n. mock_storeRemove [n]),
     te_storeReplicate = mock_storeReplicate, te_regReplicate = (\<lambda>_ _ _ _. ret ()),
     te_ctxErr = ret None, te_Now = inCache now, te_RandomSleep = ret (),
     te_sopError = (\<lambda>_. None), te_restoreFailure = (\<lambda>_. False), te_onCommitHooks = []\<rparr>"

text \<open>The same for a transaction that has no rival: every lock is granted.\<close>

definition granting :: "('n, 'w) tx_env \<Rightarrow> ('n, 'w) tx_env" where
  "granting E = E\<lparr>te_Lock := \<lambda>d ks. ret (True, NilUUID, ks), te_DualLock := \<lambda>d ks. ret (True, NilUUID, ks),
     te_IsLocked := \<lambda>ks. ret True, te_Unlock := \<lambda>ks. ret ()\<rparr>"

text \<open>A store whose values are in its nodes, with the nodes that a transaction has in its local cache.\<close>

definition fixedTree :: "store_info \<Rightarrow> 'n node_repo \<Rightarrow> uuid list \<Rightarrow> ('n, 'w) backend" where
  "fixedTree si r walk = \<lparr>bk_created = False, bk_repo = (\<lambda>_. r), bk_walk = (\<lambda>_. walk), bk_getStoreInfo = (\<lambda>_. si),
     bk_hasTrackedItems = (\<lambda>_. True), bk_refetchAndMerge = ret (), bk_checkTrackedItems = ret (),
     bk_lockTrackedItems = (\<lambda>_. ret ()), bk_unlockTrackedItems = ret (), bk_commitTrackedItemsValues = ret (),
     bk_getForRollbackTrackedItemsValues = ret None, bk_getObsoleteTrackedItemsValues = (\<lambda>_. None)\<rparr>"

definition mock_parts :: "'n node_meta \<Rightarrow> ('n, 'n tx_world) tx_env \<Rightarrow> ('n, 'n tx_world) backend list \<Rightarrow> ('n, 'n tx_world) tx_parts" where
  "mock_parts M E bs = \<lparr>x_S = mock_services M, x_L = mock_log, x_E = E, x_B = bs\<rparr>"

section \<open>The laws of the environment\<close>

lemma leaves_ret: "leaves st valid (ret x)"
  by (simp add: leaves_def ret_def)

lemma ret_sel: "fst (ret x s) = Inr x" "snd (ret x s) = s"
  by (simp_all add: ret_def)

lemma leaves_modify:
  "(\<And>w. mock_abs (f w) = mock_abs w) \<Longrightarrow> (\<And>w. mock_valid w \<Longrightarrow> mock_valid (f w)) \<Longrightarrow> leaves mock_abs mock_valid (modify f)"
  by (simp add: leaves_def modify_def)

lemma leaves_seq:
  assumes "leaves st valid m" "leaves st valid k" shows "leaves st valid (gseq m k)"
  unfolding leaves_def
proof (intro allI impI)
  fix s assume v: "valid s"
  obtain r s1 where r: "m s = (r, s1)" by (cases "m s")
  with v assms(1) have 1: "valid s1" "quiet (st s) (st s1)" unfolding leaves_def by (metis snd_conv)+
  with assms(2) have "valid (snd (k s1))" "quiet (st s1) (st (snd (k s1)))" by (simp_all add: leaves_def)
  with 1 r show "valid (snd (gseq m k s)) \<and> quiet (st s) (st (snd (gseq m k s)))"
    by (cases r) (auto simp: gseq_def gbind_def intro: quiet_trans)
qed

lemma leaves_gfor: "(\<And>x. leaves st valid (f x)) \<Longrightarrow> leaves st valid (gfor xs f)"
  by (induction xs) (auto intro: leaves_ret leaves_seq)

lemma abs_cache [simp]:
  "mock_abs (w\<lparr>tw_cache := c\<rparr>) = mock_abs w" "mock_valid (w\<lparr>tw_cache := c\<rparr>) = mock_valid w"
  "mock_abs (w\<lparr>store_lookup := s\<rparr>) = mock_abs w" "mock_valid (w\<lparr>store_lookup := s\<rparr>) = mock_valid w"
  "mock_abs (w\<lparr>mw_nodes := m\<rparr>) = mock_abs w" "mock_valid (w\<lparr>mw_nodes := m\<rparr>) = mock_valid w"
  "mock_abs (w\<lparr>tw_log := l\<rparr>) = mock_abs w" "mock_valid (w\<lparr>tw_log := l\<rparr>) = mock_valid w"
  by (simp_all add: mock_abs_def mock_valid_def)

lemma leaves_inCache: "leaves mock_abs mock_valid (inCache m)"
  by (auto simp: leaves_def zoom_def split: prod.splits)

lemma leaves_stores:
  "leaves mock_abs mock_valid (mock_storeUpdate ss)" "leaves mock_abs mock_valid (mock_storeRemove ns)"
  by (auto simp: mock_storeUpdate_def mock_storeRemove_def Let_def intro!: leaves_seq leaves_gfor leaves_ret leaves_modify)

lemma mock_parts_sel [simp]:
  "x_S (mock_parts M E bs) = mock_services M" "x_L (mock_parts M E bs) = mock_log"
  "x_E (mock_parts M E bs) = E" "x_B (mock_parts M E bs) = bs"
  by (simp_all add: mock_parts_def)

lemma mock_Remove_run: "mock_Remove vids w = (Inr (), w\<lparr>Lookup := Lookup w |` (- set (payloadIDs vids))\<rparr>)"
proof -
  have "fold (\<lambda>u w. w\<lparr>Lookup := (Lookup w)(u := None)\<rparr>) xs v = v\<lparr>Lookup := Lookup v |` (- set xs)\<rparr>"
    for xs and v :: "('a, 'b) mock_world_scheme"
  proof (induction xs arbitrary: v)
    case (Cons x xs)
    have "((Lookup v)(x := None)) |` (- set xs) = Lookup v |` (- set (x # xs))"
      by (rule ext) (auto simp: restrict_map_def)
    with Cons [of "v\<lparr>Lookup := (Lookup v)(x := None)\<rparr>"] show ?case
      by (simp del: fun_upd_apply restrict_map_upds add: fun_upd_def [symmetric])
  next
    case Nil
    have "m |` UNIV = m" for m :: "uuid \<rightharpoonup> handle" by (simp add: restrict_map_def)
    then show ?case by simp
  qed
  then show ?thesis by (simp add: mock_Remove_def gfor_modify)
qed

lemma mock_commit_env:
  assumes "E = mock_env i d \<or> E = granting (mock_env i d)" and "\<And>t. changes_only (mock_parts M E [fixedTree si r walk]) t"
  shows "commit_env (mock_parts M E [fixedTree si r walk]) mock_abs mock_valid"
proof (unfold commit_env_def, intro conjI)
  show "storage (x_S (mock_parts M E [fixedTree si r walk])) mock_abs mock_valid"
    using ms.storage_axioms by simp
  show "commit_env_axioms (mock_parts M E [fixedTree si r walk]) mock_abs mock_valid"
  proof
    fix w :: "'a tx_world" and ps
    assume v: "mock_valid w" and ok: "\<And>h. h \<in> set (payloadIDs ps) \<Longrightarrow> LogicalID h \<noteq> NilUUID \<and> physicalIDs h \<subseteq> used (mock_abs w)"
    then have "stored_ok ((mock_abs w)\<lparr>regs := updHandles (payloadIDs ps) (regs (mock_abs w))\<rparr>)"
      by (intro stored_ok_upd) (simp_all add: mock_valid_def)
    with v show "\<exists>q w' k. s_regUpdate (x_S (mock_parts M E [fixedTree si r walk])) ps w = (q, w') \<and> mock_valid w' \<and>
        regs (mock_abs w') = updHandles (take k (payloadIDs ps)) (regs (mock_abs w)) \<and>
        blobs (mock_abs w') = blobs (mock_abs w) \<and> used (mock_abs w) \<subseteq> used (mock_abs w')"
      by (auto simp: mock_services_def mock_Update_def exec_simps putHandles_run mock_valid_def mock_abs_def intro!: exI [of _ "length (payloadIDs ps)"])
  next
    fix w :: "'a tx_world" and vids
    assume "mock_valid w"
    then show "\<exists>q w' k. s_regRemove (x_S (mock_parts M E [fixedTree si r walk])) vids w = (q, w') \<and> mock_valid w' \<and>
        regs (mock_abs w') = regs (mock_abs w) |` (- set (take k (payloadIDs vids))) \<and>
        blobs (mock_abs w') = blobs (mock_abs w) \<and> used (mock_abs w) \<subseteq> used (mock_abs w')"
      by (auto simp: mock_services_def mock_Remove_run mock_valid_def mock_abs_def stored_ok_def
        restrict_map_def split: if_splits intro!: exI [of _ "length (payloadIDs vids)"])
  qed (use assms in \<open>auto simp: mock_log_def mock_env_def granting_def fixedTree_def mock_storeReplicate_def ret_sel
      intro!: leaves_ret leaves_modify leaves_seq leaves_inCache leaves_stores\<close>)
qed

section \<open>A transaction that changes one node and removes another\<close>

definition tx_sample_repo :: "plain_node node_repo" where
  "tx_sample_repo = (newNodeRepository ((sample_info False)\<lparr>si_Count := 2\<rparr>))\<lparr>localCache :=
     [1 \<mapsto> \<lparr>cn_node = (1, 0, [10]), cn_action = removeAction\<rparr>,
      2 \<mapsto> \<lparr>cn_node = (2, 4, [21]), cn_action = updateAction\<rparr>]\<rparr>"

definition tx_sample :: "(plain_node, plain_node tx_world) tx_parts" where
  "tx_sample = mock_parts plain_meta (mock_env 100 1000) [fixedTree ((sample_info False)\<lparr>si_Count := 1\<rparr>) tx_sample_repo [1, 2]]"

definition tx_sample_cache :: l2_cache where
  "tx_sample_cache = \<lparr>l2_data = newShardedMap id 0, l2_locks = newShardedMap id 0, standalone = True,
     clock = int, ticks = 0\<rparr>"

definition tx_sample_world :: "plain_node tx_world" where
  "tx_sample_world = \<lparr>Lookup = Lookup plain_world, InducedErrorOnUpdateAllOrNothing = False,
     blob_lookup = blob_lookup plain_world, mw_nodes = Map.empty, mw_fresh = [7, 8, 9], mw_clock = 5,
     tw_cache = tx_sample_cache, store_lookup = [''sample'' \<mapsto> (sample_info False)\<lparr>si_Count := 2\<rparr>], tw_log = []\<rparr>"

definition tx_sample_txn :: "(plain_node, plain_node tx_world) txn" where
  "tx_sample_txn = \<lparr>committedState = C_unknown, logging = True, transactionID = NilUUID, nodesKeys = [],
     updatedNodeHandles = [], removedNodeHandles = [], addedNodeHandles = [], newRootNodeHandles = [],
     updatedStoresInfo = [], tn_updatedNodes = [], tn_addedNodes = [], tn_rootNodes = [], tn_world = tx_sample_world\<rparr>"

definition tx_sample_begun :: "(plain_node, plain_node tx_world) txn tx" where
  "tx_sample_begun = \<lparr>tx_mode = ForWriting, phaseDone = 0, committed = False, maxTime = 1000, world = tx_sample_txn\<rparr>"

abbreviation tx_sample_bodies :: "(plain_node, plain_node tx_world) txn tx_bodies" where
  "tx_sample_bodies \<equiv> commit_bodies tx_sample 1 (ret ()) id None"

text \<open>The laws hold for it, and its world is one that they speak about.\<close>

lemma tx_sample_changes: "changes_only tx_sample t"
proof -
  have "classifyModifiedNodes tx_sample t = \<lparr>ns_updated = [((sample_info False)\<lparr>si_Count := 1\<rparr>, [(2, 4, [21])])],
      ns_removed = [((sample_info False)\<lparr>si_Count := 1\<rparr>, [(1, 0, [10])])], ns_added = [], ns_fetched = [], ns_root = []\<rparr>"
    by (simp add: classifyModifiedNodes_def storesNodes_def nodesOfKind_def kindOf_def tx_sample_def fixedTree_def
      tx_sample_repo_def newNodeRepository_def map_filter_simps)
  then show ?thesis by (simp add: changes_only_def tx_sample_def mock_services_def plain_meta_def)
qed

interpretation tx_sample_env: commit_env tx_sample mock_abs mock_valid
  unfolding tx_sample_def by (rule mock_commit_env [OF disjI1]) (rule HOL.refl, rule tx_sample_changes [unfolded tx_sample_def])

lemma tx_sample_valid: "mock_valid tx_sample_world"
  by (auto simp: mock_valid_def mock_abs_def stored_ok_def tx_sample_world_def plain_world_def NewHandle_def zeroHandle_def
    physicalIDs_def split: if_splits)

lemma tx_sample_apart: "apart (regs (mock_abs tx_sample_world))"
  by (auto simp: apart_def mock_abs_def tx_sample_world_def plain_world_def NewHandle_def zeroHandle_def
    physicalIDs_def GetActiveID_def GetInActiveID_def split: if_splits)



text \<open>The merge of keys on it, with no key held before.\<close>

lemma addKey_not_Nil: "addKey i k xs \<noteq> []"
  by (cases "(i, k, xs)" rule: addKey.cases) (simp_all add: Let_def)

lemma tx_sample_addKey:
  assumes "mw_fresh (tn_world t) = u # us"
  shows "addKeys tx_sample [i] xs t = (Inr (addKey i \<lparr>lk_Key = FormatLockKey (uuid_String i), lk_LockID = u, lk_IsLockOwner = False\<rparr> xs),
    t\<lparr>tn_world := (tn_world t)\<lparr>mw_fresh := us\<rparr>\<rparr>)"
  using assms
  by (simp add: exec_simps zoom_def tx_sample_def mock_services_def drawUUID_def CreateLockKeys_def aget_def sget_def lift_res_def
    del: addKey.simps)

theorem mergeNodesKeys_ordered_witness:
  "\<exists>ids. set ids = {1, 2} \<and> sorted_wrt (\<lambda>i j. UUID_Compare i j < 0) ids \<and>
    map lk_Key (nodesKeys (snd (mergeNodesKeys tx_sample [(sample_info False, [(2, 4, [21])])] [(sample_info False, [(1, 0, [10])])] tx_sample_txn))) =
      map (\<lambda>i. FormatLockKey (uuid_String i)) ids"
proof -
  let ?u = "[(sample_info False, [(2, 4, [21])])] :: plain_node store_nodes"
  let ?r = "[(sample_info False, [(1, 0, [10])])] :: plain_node store_nodes"
  have ids: "extractUUIDs (x_S tx_sample) ?u = [2]" "extractUUIDs (x_S tx_sample) ?r = [1]"
    by (simp_all add: extractUUIDs_def tx_sample_def mock_services_def plain_meta_def)
  have "fst (mergeNodesKeys tx_sample ?u ?r tx_sample_txn) = Inr ()"
    by (simp add: mergeNodesKeys_def ids exec_simps tx_sample_addKey tx_sample_txn_def tx_sample_world_def addKey_not_Nil
      del: addKeys.simps addKey.simps)
  then obtain t' where run: "mergeNodesKeys tx_sample ?u ?r tx_sample_txn = (Inr (), t')" by (metis prod.collapse)
  have "distinct (map lk_Key (nodesKeys tx_sample_txn))" by (simp add: tx_sample_txn_def)
  from mergeNodesKeys_ordered [OF run this] obtain js where "sorted_wrt (\<lambda>i j. UUID_Compare i j < 0) js" "set js = {1, 2}"
    "map lk_Key (nodesKeys t') = map (\<lambda>i. FormatLockKey (uuid_String i)) js" by (auto simp: ids)
  with run show ?thesis by (intro exI [of _ "js"]) simp
qed

end
