(* ===== verification/Tx_Publish.thy ===== *)
theory Tx_Publish
  imports Tx_Invisible
begin

text \<open>
  A commit that succeeds publishes: after phase 1 the registry holds the handles that phase 2 is going to
  flip, and after phase 2 every reader gets the new nodes.
\<close>

context commit_env
begin

definition untouched :: "'w \<Rightarrow> 'w \<Rightarrow> bool" where
  "untouched w w' = (valid w \<longrightarrow> valid w' \<and> quiet (st w) (st w'))"

end

sublocale commit_env \<subseteq> rest: commit_view X st valid untouched
proof
  show "untouched w w" for w by (simp add: untouched_def)
  show "untouched u v \<Longrightarrow> untouched v w \<Longrightarrow> untouched u w" for u v w by (auto simp: untouched_def intro: quiet_trans)
  show "(valid w \<Longrightarrow> valid w' \<and> quiet (st w) (st w')) \<Longrightarrow> untouched w w'" for w w' by (simp add: untouched_def)
qed

context commit_env
begin

section \<open>Handles that wait for the flip\<close>

definition holds_handles :: "'w \<Rightarrow> handle list \<Rightarrow> bool" where
  "holds_handles w hs = (distinct (map LogicalID hs) \<and> (\<forall>h\<in>set hs. regs (st w) (LogicalID h) = Some h))"

definition carries :: "'w \<Rightarrow> 'n store_nodes \<Rightarrow> handle list \<Rightarrow> bool" where
  "carries w nodes hs = (LogicalID ` set hs = s_ID (x_S X) ` set (concat (map snd nodes)) \<and>
     (\<forall>n\<in>set (concat (map snd nodes)). \<exists>h\<in>set hs. \<exists>ba. LogicalID h = s_ID (x_S X) n \<and>
       h_Version h = s_Version (x_S X) n \<and> s_marshal (x_S X) n = Inr ba \<and>
       GetInActiveID h \<noteq> NilUUID \<and> blobs (st w) (GetInActiveID h) = Some ba) \<and>
     (\<forall>h\<in>set hs. GetInActiveID h \<noteq> NilUUID))"

lemma waits_quiet:
  "quiet (st w) (st w') \<Longrightarrow> holds_handles w' hs = holds_handles w hs"
  "quiet (st w) (st w') \<Longrightarrow> carries w' nodes hs = carries w nodes hs"
  by (simp_all add: holds_handles_def carries_def quiet_def)

lemma commitUpdatedNodes_carries:
  assumes "safe w" "distinct (map (s_ID (x_S X)) (concat (map snd nodes)))"
    "commitUpdatedNodes (x_S X) nodes w = (Inr (True, ps), w')"
  shows "holds_handles w' (payloadIDs ps) \<and> carries w' nodes (payloadIDs ps)"
proof -
  let ?S = "x_S X" and ?ns = "concat (map snd nodes)"
  have v: "valid w" using assms(1) by (simp add: safe_def)
  from commit_success [OF v assms(3)] obtain hs rows where p: "valid w'" "prepared w nodes hs rows w'"
    and ps: "payloadIDs ps = map fst rows" .
  note nth = prepared_nth [OF v p(2)] and regs = prepared_regs [OF v p(2) assms(2)]
  have ids: "map (LogicalID \<circ> fst) rows = map (s_ID ?S) ?ns" using prepared_ids(3) [OF v p(2)] by simp
  have len: "length rows = length ?ns" using ids by (metis length_map)
  have row: "\<exists>h u ba. rows ! i = (h, u, ba) \<and> LogicalID h = s_ID ?S (?ns ! i) \<and> h_Version h = s_Version ?S (?ns ! i) \<and>
      s_marshal ?S (?ns ! i) = Inr ba \<and> GetInActiveID h = u \<and> u \<noteq> NilUUID \<and> blobs (st w') u = Some ba \<and>
      regs (st w') (LogicalID h) = Some h" if "i < length ?ns" for i
  proof -
    obtain h u ba where r: "rows ! i = (h, u, ba)" by (cases "rows ! i")
    with nth(2) [OF that] have s: "staged (hs ! i) h u" "h_Version (hs ! i) = s_Version ?S (?ns ! i)" "s_marshal ?S (?ns ! i) = Inr ba"
      by (simp_all add: row_ok_def)
    have "blobs (st w') u = Some ba"
      using prepared_blobs(1) [OF v p(2)] nth(3) [OF that] r by (metis nth_mem)
    with s nth(4) [OF that] regs(1) [OF that] r show ?thesis by (auto simp: staged_def)
  qed
  have "holds_handles w' (payloadIDs ps)"
    unfolding holds_handles_def ps map_map
    using ids assms(2) row len by (fastforce simp: in_set_conv_nth)
  moreover have "carries w' nodes (payloadIDs ps)"
    unfolding carries_def
  proof (intro conjI ballI)
    show "LogicalID ` set (payloadIDs ps) = s_ID ?S ` set ?ns"
      using arg_cong [OF ids, of set] by (simp add: ps image_image)
    show "\<exists>h\<in>set (payloadIDs ps). \<exists>ba. LogicalID h = s_ID ?S n \<and> h_Version h = s_Version ?S n \<and>
       s_marshal ?S n = Inr ba \<and> GetInActiveID h \<noteq> NilUUID \<and> blobs (st w') (GetInActiveID h) = Some ba"
      if "n \<in> set ?ns" for n
    proof -
      from that obtain i where i: "i < length ?ns" "n = ?ns ! i" by (metis in_set_conv_nth)
      with row [OF i(1)] len show ?thesis unfolding ps by (metis (no_types, lifting) fst_conv imageI list.set_map nth_mem)
    qed
    show "GetInActiveID h \<noteq> NilUUID" if "h \<in> set (payloadIDs ps)" for h
      using that row len unfolding ps by (fastforce simp: in_set_conv_nth)
  qed
  ultimately show ?thesis by blast
qed

text \<open>Marking nodes as removed writes handles that differ from those there in the mark only.\<close>

lemma lookups_IDs: "(\<And>i h. m i = Some h \<Longrightarrow> LogicalID h = i) \<Longrightarrow>
  map LogicalID (lookups m ids) = filter (\<lambda>i. m i \<noteq> None) ids"
  by (induction ids) (auto simp: lookups_def map_filter_simps split: option.split)

lemma milder_IDs: "list_all2 milder hs ks \<Longrightarrow> map LogicalID ks = map LogicalID hs"
  by (induction rule: list_all2_induct) (simp_all add: milder_def)

lemma commitRemovedNodes_holds:
  assumes "safe w" "distinct (map (s_ID (x_S X)) (concat (map snd nodes)))"
    "commitRemovedNodes (x_S X) nodes w = (Inr (True, qs), w')"
  shows "holds_handles w' (payloadIDs qs) \<and> LogicalID ` set (payloadIDs qs) \<subseteq> s_ID (x_S X) ` set (concat (map snd nodes)) \<and>
    blobs (st w') = blobs (st w) \<and> (\<forall>j. j \<notin> s_ID (x_S X) ` set (concat (map snd nodes)) \<longrightarrow> regs (st w') j = regs (st w) j)"
proof (cases "nodes = []")
  case True
  with assms(3) show ?thesis by (simp add: commitRemovedNodes_def ret_def holds_handles_def payloadIDs_def)
next
  case False
  let ?S = "x_S X" and ?vids = "convertToRegistryRequestPayload (x_S X) nodes"
  have v: "valid w" using assms(1) by (simp add: safe_def)
  from assms(3) False obtain ps w1 t w2 where run: "s_regGet ?S ?vids w = (Inr ps, w1)" "s_now ?S w1 = (Inr t, w2)"
    "markRemovedAll ?S t nodes ps = Inr (Some qs)" "s_regUpdateNoLocks ?S False qs w2 = (Inr (), w')"
    unfolding commitRemovedNodes_def
    by (auto elim!: gbindE gseqE retE simp: lift_res_def split: option.splits if_splits)
  note get = regGet_mem [OF v run(1)]
  from now [OF get(1)] run(2) have now: "valid w2" "quiet (st w1) (st w2)" by auto
  have q2: "quiet (st w) (st w2)" using get(2) now(2) by (rule quiet_trans)
  have m: "list_all2 milder (payloadIDs ps) (payloadIDs qs)" by (rule markRemovedAll_milder [OF run(3)])
  from safe_quiet [OF assms(1) now(1) q2] have s2: "safe w2" by simp
  have rep: "replaces w2 (payloadIDs qs)"
    using m get(4) q2 by (intro replaces_all2 [of "payloadIDs ps"]) (auto simp: quiet_def)
  from regUpdateNoLocks [OF now(1), of qs False] replaces_ok [OF now(1) rep] run(4)
  have w': "regs (st w') = updHandles (payloadIDs qs) (regs (st w2))" "blobs (st w') = blobs (st w2)" by auto
  from regGet [OF v, of ?vids] run(1) have "map rp_IDs ps = map (\<lambda>v. lookups (regs (st w)) (rp_IDs v)) ?vids" by auto
  from lookups_concat [OF this] have "payloadIDs ps = lookups (regs (st w)) (map (s_ID ?S) (concat (map snd nodes)))"
    by (simp add: payloadIDs_def convertToRegistryRequestPayload_def comp_def case_prod_beta map_concat)
  moreover have "LogicalID h = i" if "regs (st w) i = Some h" for i h
    using valid_ok [OF v] that by (auto simp: stored_ok_def)
  ultimately have ids: "map LogicalID (payloadIDs qs) = filter (\<lambda>i. regs (st w) i \<noteq> None) (map (s_ID ?S) (concat (map snd nodes)))"
    using milder_IDs [OF m] lookups_IDs [of "regs (st w)"] by simp
  then have d: "distinct (map LogicalID (payloadIDs qs))" using assms(2) by (metis distinct_filter)
  have sub: "LogicalID ` set (payloadIDs qs) \<subseteq> s_ID ?S ` set (concat (map snd nodes))"
    using arg_cong [OF ids, of set] by auto
  have "holds_handles w' (payloadIDs qs)"
    using d updHandles_mem [OF d] by (simp add: holds_handles_def w'(1))
  moreover have "regs (st w') j = regs (st w) j" if "j \<notin> s_ID ?S ` set (concat (map snd nodes))" for j
  proof -
    have "j \<notin> LogicalID ` set (payloadIDs qs)" using sub that by blast
    then show ?thesis using q2 by (simp add: w'(1) updHandles_other quiet_def)
  qed
  ultimately show ?thesis using sub q2 w'(2) by (simp add: quiet_def)
qed

section \<open>The end of phase 1\<close>

text \<open>What phase 1 leaves for phase 2.\<close>

definition ready :: "'n p1_vars \<Rightarrow> 'w \<Rightarrow> bool" where
  "ready v w = (safe w \<and> good_vars v \<and>
     holds_handles w (payloadIDs (p1_updatedHandles v) @ payloadIDs (p1_removedHandles v)) \<and>
     carries w (ns_updated (p1_nodes v)) (payloadIDs (p1_updatedHandles v)))"

lemma ready_untouched: "ready v w \<Longrightarrow> untouched w w' \<Longrightarrow> ready v w'"
  unfolding ready_def untouched_def
  using safe_quiet [of w w'] waits_quiet [of w w'] by (auto simp: safe_def)

lemma stepOr_ok:
  assumes "stepOr X m s = (Inr r, s')"
  obtains x w where "r = Some x" "m (tn_world s) = (Inr x, w)" "s' = s\<lparr>tn_world := w\<rparr>"
  using assms unfolding stepOr_def withRepo_def
  by (auto simp: no_sector_locks attempt_def fail_def ret_def gbind_def zoom_def
    split: if_splits prod.splits sum.splits go_error.splits)

lemma withRepo_ok:
  assumes "withRepo X m s = (Inr x, s')"
  obtains w where "m (tn_world s) = (Inr x, w)" "s' = s\<lparr>tn_world := w\<rparr>"
  using assms unfolding withRepo_def by (auto simp: fail_def elim: inWorldE split: if_splits)

lemma commitSteps_ready:
  assumes "commitSteps X v s = (Inr (True, v'), s')" "safe (tn_world s)"
  shows "ready v' (tn_world s')"
proof -
  from assms(1) obtain v1 s1 s2 s3 v2 s4 s5 where run: "commitValues X v s = (Inr v1, s1)" "commitRoots X v1 s1 = (Inr True, s2)"
    "checkFetched X v1 s2 = (Inr True, s3)" "commitUpdates X v1 s3 = (Inr (True, v2), s4)"
    "commitRemovals X v2 s4 = (Inr (True, v'), s5)" "commitAdditions X v' s5 = (Inr True, s')"
    unfolding commitSteps_def
    by (auto elim!: gbindE retE split: if_splits prod.splits)
  have g1: "good (p1_nodes v1)" using rest.keepsD [OF rest.calls_commitValues run(1)] by simp
  have 1: "safe (tn_world s3)"
    using keepsD [OF calls_commitValues run(1)] keepsD [OF calls_commitRoots run(2)] keepsD [OF calls_checkFetched run(3)] assms(2) g1
    by (auto simp: same_view_def good_vars_def)
  from run(4) obtain ps u s3' where u: "commitUpdatedNodes (x_S X) (ns_updated (p1_nodes v1)) (tn_world s3) = (Inr (True, ps), u)"
    "tlog X C_commitUpdatedNodes (BlobsOnlyPayload (extractInactiveBlobsIDs ps)) (s3\<lparr>tn_world := u\<rparr>) = (Inr (), s4)"
    "v2 = v1\<lparr>p1_updatedHandles := ps\<rparr>"
    unfolding commitUpdates_def by (auto elim!: gbindE gseqE retE stepOr_ok simp: outcome_def)
  let ?U = "s_ID (x_S X) ` set (concat (map snd (ns_updated (p1_nodes v1))))"
  let ?R = "s_ID (x_S X) ` set (concat (map snd (ns_removed (p1_nodes v1))))"
  have d: "distinct (map (s_ID (x_S X)) (concat (map snd (ns_updated (p1_nodes v1)))))"
    "distinct (map (s_ID (x_S X)) (concat (map snd (ns_removed (p1_nodes v1)))))" and dis: "?U \<inter> ?R = {}"
    using g1 by (auto simp: good_def)
  have 2: "safe u" using commitUpdatedNodes_safe [OF 1 d(1) u(1)] by simp
  have q4: "untouched u (tn_world s4)" using rest.keepsD [OF rest.calls_tlog u(2)] by simp
  then have 4: "safe (tn_world s4)" using 2 safe_quiet [OF 2] by (auto simp: untouched_def safe_def)
  have w4: "holds_handles (tn_world s4) (payloadIDs ps)" "carries (tn_world s4) (ns_updated (p1_nodes v1)) (payloadIDs ps)"
    using commitUpdatedNodes_carries [OF 1 d(1) u(1)] waits_quiet [of u "tn_world s4"] q4 2 by (auto simp: untouched_def safe_def)
  from run(5) u(3) obtain s4a qs x where r: "tlog X C_commitRemovedNodes x s4 = (Inr (), s4a)"
    "commitRemovedNodes (x_S X) (ns_removed (p1_nodes v1)) (tn_world s4a) = (Inr (True, qs), tn_world s5)"
    "v' = v2\<lparr>p1_removedHandles := qs\<rparr>"
    unfolding commitRemovals_def by (auto elim!: gbindE gseqE retE withRepo_ok simp: Let_def split: prod.splits)
  have q5: "untouched (tn_world s4) (tn_world s4a)" using rest.keepsD [OF rest.calls_tlog r(1)] by simp
  then have 5: "safe (tn_world s4a)" using 4 safe_quiet [OF 4] by (auto simp: untouched_def safe_def)
  have w5: "holds_handles (tn_world s4a) (payloadIDs ps)" "carries (tn_world s4a) (ns_updated (p1_nodes v1)) (payloadIDs ps)"
    using w4 waits_quiet [of "tn_world s4" "tn_world s4a"] q5 4 by (auto simp: untouched_def safe_def)
  note rem = commitRemovedNodes_holds [OF 5 d(2) r(2)]
  have 6: "safe (tn_world s5)" using safe_step [OF calls_commitRemovedNodes 5] r(2) by (metis snd_conv)
  have ids: "LogicalID ` set (payloadIDs ps) = ?U" using w5(2) by (simp add: carries_def)
  have apart_ids: "LogicalID ` set (payloadIDs ps) \<inter> LogicalID ` set (payloadIDs qs) = {}"
    using rem dis unfolding ids by blast
  have "holds_handles (tn_world s5) (payloadIDs ps @ payloadIDs qs)"
    unfolding holds_handles_def
  proof (intro conjI ballI)
    show "distinct (map LogicalID (payloadIDs ps @ payloadIDs qs))"
      using w5(1) rem apart_ids by (simp add: holds_handles_def)
    show "regs (st (tn_world s5)) (LogicalID h) = Some h" if "h \<in> set (payloadIDs ps @ payloadIDs qs)" for h
    proof (cases "h \<in> set (payloadIDs qs)")
      case False
      with that have "LogicalID h \<in> ?U" "regs (st (tn_world s4a)) (LogicalID h) = Some h"
        using ids w5(1) by (auto simp: holds_handles_def)
      then have "LogicalID h \<notin> ?R" using dis by blast
      with rem \<open>regs (st (tn_world s4a)) (LogicalID h) = Some h\<close> show ?thesis by simp
    qed (use rem in \<open>simp add: holds_handles_def\<close>)
  qed
  moreover have "carries (tn_world s5) (ns_updated (p1_nodes v1)) (payloadIDs ps)"
  proof -
    have "blobs (st (tn_world s5)) = blobs (st (tn_world s4a))" using rem by blast
    show ?thesis unfolding carries_def \<open>blobs (st (tn_world s5)) = _\<close> by (rule w5(2) [unfolded carries_def])
  qed
  moreover have "good_vars v'" using g1 r(3) u(3) by (simp add: good_vars_def)
  ultimately have ready: "ready v' (tn_world s5)" using 6 r(3) u(3) by (simp add: ready_def)
  from rest.keepsD [OF rest.calls_commitAdditions [OF \<open>good_vars v'\<close>] run(6)] ready_untouched [OF ready] show ?thesis by simp
qed

lemma phase1Loop_ready:
  "phase1Loop X n start v s = (Inr (Some v'), s') \<Longrightarrow> safe (tn_world s) \<Longrightarrow> good_vars v \<Longrightarrow> ready v' (tn_world s')"
proof (induction n arbitrary: v s)
  case (Suc n)
  from Suc.prems(1) obtain d v1 s1 where r: "phase1Round X start v s = (Inr (d, v1), s1)"
    "(if d then ret (Some v1) else phase1Loop X n start v1) s1 = (Inr (Some v'), s')"
    by (auto elim!: gbindE split: prod.splits)
  have k: "safe (tn_world s1)" "good_vars v1"
    using keepsD [OF keeps_phase1Round [OF Suc.prems(3)] r(1)] Suc.prems(2) by (auto simp: same_view_def)
  show ?case
  proof (cases d)
    case True
    with r have v': "v' = v1" "s' = s1" by (auto elim: retE)
    from r(1) True obtain s0 v0 s2 where q: "tx_timedOut X ''transaction'' start (te_maxTime (x_E X)) s = (Inr (), s0)"
      "lockNodes X v s0 = (Inr (True, v0), s2)" "commitSteps X v0 s2 = (Inr (True, v1), s1)"
      unfolding phase1Round_def
      by (auto elim!: gbindE gseqE retE split: prod.splits if_splits)
    have "safe (tn_world s2)"
      using keepsD [OF calls_timedOut q(1)] keepsD [OF keeps_lockNodes [OF Suc.prems(3)] q(2)] Suc.prems(2)
      by (auto simp: same_view_def)
    with commitSteps_ready [OF q(3)] v' show ?thesis by simp
  qed (use r k Suc.IH in simp)
qed (auto elim: retE)

text \<open>The whole of phase 1.\<close>

definition prepared_commit :: "('n, 'w) txn \<Rightarrow> bool" where
  "prepared_commit t = ((\<exists>us rs. updatedNodeHandles t = activateInactiveNodes us \<and> removedNodeHandles t = touchNodes rs \<and>
     safe (tn_world t) \<and> holds_handles (tn_world t) (payloadIDs us @ payloadIDs rs) \<and>
     carries (tn_world t) (tn_updatedNodes t) (payloadIDs us)) \<and>
     (\<exists>s. tn_updatedNodes t = ns_updated (classifyModifiedNodes X s)))"

lemma phase1Commit_ready:
  assumes "phase1Commit X t = (Inr (), t1)" "hasTrackedItems X t" "safe (tn_world t)"
  shows "prepared_commit t1 \<and> shown (tn_world t1) = shown (tn_world t)"
proof -
  from assms(1,2) obtain pre ns start ta tb tc td te tf v where run:
    "tlog X C_lockTrackedItems NoPayload (t\<lparr>transactionID := te_id (x_E X)\<rparr>) = (Inr (), ta)"
    "tx_lockTrackedItems X ta = (Inr (), tb)" "ns = classifyModifiedNodes X tb"
    "mergeNodesKeys X (ns_updated ns) (ns_removed ns) tb = (Inr (), td)"
    "inWorld (te_Now (x_E X)) td = (Inr start, te)"
    "phase1Loop X phase1Fuel start (p1_start ns pre) te = (Inr (Some v), tf)" "finishPhase1 X v tf = (Inr (), t1)"
    unfolding phase1Commit_def Let_def
    by (auto elim!: gbindE gseqE readsE modifyE simp: fail_def split: option.splits)
  from run(7) obtain sa sb sc sd se sf sg si where f:
    "tlog X C_commitStoreInfo (StoresPayload (getRollbackStoresInfo X tf)) tf = (Inr (), sa)"
    "commitStores X sa = (Inr si, sb)" "tlog X C_beforeFinalize NoPayload (sb\<lparr>updatedStoresInfo := si\<rparr>) = (Inr (), sc)"
    "(if p1_updatedHandles v = [] \<and> p1_removedHandles v = [] then ret ()
      else inWorld (pl_Add (x_L X) (te_id (x_E X)) (p1_updatedHandles v @ p1_removedHandles v))) sc = (Inr (), sd)"
    "checkTrackedItems X sd = (Inr (), se)" "confirmLocks X se = (Inr (), sf)"
    "t1 = sf\<lparr>updatedNodeHandles := activateInactiveNodes (p1_updatedHandles v),
        removedNodeHandles := touchNodes (p1_removedHandles v), tn_addedNodes := ns_added (p1_nodes v),
        tn_rootNodes := ns_root (p1_nodes v), tn_updatedNodes := ns_updated (p1_nodes v)\<rparr>"
    unfolding finishPhase1_def by (elim gbindE gseqE readsE modifyE) (rule that; simp)
  have p: "rest.txcalls (if p1_updatedHandles v = [] \<and> p1_removedHandles v = [] then ret ()
      else inWorld (pl_Add (x_L X) (te_id (x_E X)) (p1_updatedHandles v @ p1_removedHandles v)))"
    by (intro rest.keeps_if quiet_parts) simp
  have "untouched (tn_world tf) (tn_world sf)"
    using rest.keepsD [OF rest.calls_tlog f(1)] rest.keepsD [OF rest.calls_commitStores f(2)] rest.keepsD [OF rest.calls_tlog f(3)]
      rest.keepsD [OF p f(4)] rest.keepsD [OF rest.calls_checkTrackedItems f(5)] rest.keepsD [OF rest.calls_confirmLocks f(6)]
    by simp (blast intro: rest.J_trans)
  moreover have "good ns" using run(3) only_changes [of tb] by (auto simp: good_def changes_only_def Let_def)
  moreover have "safe (tn_world te)"
    using keepsD [OF calls_tlog run(1)] keepsD [OF calls_lockTrackedItems run(2)] keepsD [OF calls_mergeNodesKeys run(4)]
      keepsD [OF calls_time(2) run(5)] assms(3) by (simp add: same_view_def)
  ultimately have "ready v (tn_world sf)"
    using ready_untouched phase1Loop_ready [OF run(6)] by (simp add: good_vars_def p1_start_def)
  then show ?thesis
    using phase1_keeps [OF assms(3,1)] by (auto simp: prepared_commit_def ready_def good_vars_def good_def f(7))
qed

end

end
