(* ===== verification/Tx_Phase2.thy ===== *)
theory Tx_Phase2
  imports Tx_Publish
begin

text \<open>
  The second phase of a commit: the flip shows the new nodes, all of them at once, and what follows (the
  logs, the replicas, the caches, the locks and the removal of what became obsolete) changes nothing of that.
\<close>

section \<open>Handles that the commit changes stay as they are until the end\<close>

definition same_handles :: "('n, 'w, 'a) txm \<Rightarrow> bool" where
  "same_handles m = (\<forall>t. updatedNodeHandles (snd (m t)) = updatedNodeHandles t \<and>
     removedNodeHandles (snd (m t)) = removedNodeHandles t)"

named_theorems handle_parts "parts of a transaction that keep its handles"

lemma same_handlesD:
  "same_handles m \<Longrightarrow> m t = (r, t') \<Longrightarrow> updatedNodeHandles t' = updatedNodeHandles t \<and> removedNodeHandles t' = removedNodeHandles t"
  unfolding same_handles_def by (metis snd_conv)

lemma same_handlesI:
  "(\<And>t r t'. m t = (r, t') \<Longrightarrow> updatedNodeHandles t' = updatedNodeHandles t \<and> removedNodeHandles t' = removedNodeHandles t) \<Longrightarrow>
   same_handles m"
  unfolding same_handles_def by (metis prod.collapse)

lemma same_handles_basic [handle_parts]:
  "same_handles (ret x)" "same_handles (fail e)" "same_handles (reads f)" "same_handles (lift_res q)"
  by (simp_all add: same_handles_def ret_def fail_def reads_def lift_res_def)

lemma same_handles_modify [handle_parts]:
  "same_handles (modify (\<lambda>t. t\<lparr>nodesKeys := ks\<rparr>))"
  "same_handles (modify (\<lambda>t. t\<lparr>committedState := f\<rparr>))"
  by (simp_all add: same_handles_def modify_def)

lemma same_handles_inWorld [handle_parts]: "same_handles (inWorld m)"
  by (simp add: same_handles_def zoom_def split: prod.split)

lemma same_handles_bind:
  assumes "same_handles m" "\<And>x. same_handles (f x)" shows "same_handles (gbind m f)"
proof (rule same_handlesI)
  fix t r t' assume run: "gbind m f t = (r, t')"
  obtain q t1 where q: "m t = (q, t1)" by (cases "m t")
  with run same_handlesD [OF assms(1) q] same_handlesD [OF assms(2)]
  show "updatedNodeHandles t' = updatedNodeHandles t \<and> removedNodeHandles t' = removedNodeHandles t"
    by (cases q) (auto simp: gbind_def)
qed

lemma same_handles_seq [handle_parts]: "same_handles m \<Longrightarrow> same_handles k \<Longrightarrow> same_handles (gseq m k)"
  by (simp add: gseq_def same_handles_bind)

lemma same_handles_attempt [handle_parts]: "same_handles m \<Longrightarrow> same_handles (attempt m)"
  by (rule same_handlesI) (auto simp: attempt_def dest: same_handlesD split: prod.splits sum.splits go_error.splits)

lemma same_handles_tolerate [handle_parts]: "same_handles m \<Longrightarrow> same_handles (tolerate m)"
  unfolding tolerate_def by (intro same_handles_bind handle_parts)

lemma same_handles_noteErr [handle_parts]: "same_handles m \<Longrightarrow> same_handles (noteErr p s e m)"
  unfolding noteErr_def by (intro same_handles_bind handle_parts)

lemma same_handles_tlog [handle_parts]: "same_handles (tlog X f pl)"
  unfolding tlog_def
  by (intro same_handles_seq same_handles_bind) (auto intro!: handle_parts same_handles_bind)

lemma same_handles_finishWith [handle_parts]: "same_handles (finishWith e)"
  by (simp add: finishWith_def handle_parts split: option.split)

lemma same_handles_unlockNodesKeys [handle_parts]: "same_handles (tx_unlockNodesKeys X)"
  unfolding tx_unlockNodesKeys_def
  by (intro same_handles_bind) (auto intro!: handle_parts same_handles_bind split: sum.split)

lemma same_handles_unlockEach:
  "(\<And>b. b \<in> set bs \<Longrightarrow> same_handles (bk_unlockTrackedItems b)) \<Longrightarrow> same_handles (unlockEach bs e)"
  by (induction bs arbitrary: e) (auto intro!: handle_parts same_handles_bind)

lemma same_handles_populateEach [handle_parts]: "same_handles (populateEach X d ns hs)"
  by (induction X d ns hs rule: populateEach.induct) (auto intro!: handle_parts)

lemma same_handles_populate [handle_parts]: "same_handles (updateVersionThenPopulateMru X ps nodes)"
  by (induction X ps nodes rule: updateVersionThenPopulateMru.induct) (auto intro!: handle_parts)

lemma same_handles_logFinalize: "same_handles (logFinalize X)"
  unfolding logFinalize_def Let_def
  by (intro same_handles_bind) (auto intro!: handle_parts same_handles_bind split: sum.split prod.split)

lemma same_handles_replicateCommit: "same_handles (replicateCommit X)"
  unfolding replicateCommit_def by (intro same_handles_bind) (auto intro!: handle_parts)

lemma same_handles_populateMru: "same_handles (populateMru X)"
  unfolding populateMru_def by (intro same_handles_bind) (auto intro!: handle_parts)

section \<open>The flip\<close>

context commit_env
begin

definition shows_commit :: "'n store_nodes \<Rightarrow> handle list \<Rightarrow> (uuid \<Rightarrow> (32 word \<times> bytes option) option) \<Rightarrow> 'w \<Rightarrow> bool" where
  "shows_commit nodes hs old w = (safe w \<and>
     (\<forall>n\<in>set (concat (map snd nodes)). \<exists>ba. s_marshal (x_S X) n = Inr ba \<and>
       shown w (s_ID (x_S X) n) = Some (s_Version (x_S X) n + 1, Some ba)) \<and>
     (\<forall>j. j \<notin> LogicalID ` set hs \<longrightarrow> shown w j = old j))"

definition flipped :: "'n store_nodes \<Rightarrow> handle list \<Rightarrow> handle list \<Rightarrow> (uuid \<Rightarrow> (32 word \<times> bytes option) option) \<Rightarrow> 'w \<Rightarrow> bool" where
  "flipped nodes us rs old w = (shows_commit nodes (us @ rs) old w \<and> distinct (map LogicalID (us @ rs)) \<and>
     LogicalID ` set us = s_ID (x_S X) ` set (concat (map snd nodes)) \<and>
     (\<forall>h\<in>set (map activate us @ map touch rs). regs (st w) (LogicalID h) = Some h))"

lemma flipped_untouched: "flipped nodes us rs old w \<Longrightarrow> untouched w w' \<Longrightarrow> flipped nodes us rs old w'"
proof -
  assume f: "flipped nodes us rs old w" and q: "untouched w w'"
  then have "safe w" by (simp add: flipped_def shows_commit_def)
  with q have "valid w'" "quiet (st w) (st w')" by (simp_all add: untouched_def safe_def)
  with safe_quiet [OF \<open>safe w\<close> this] f show ?thesis unfolding flipped_def shows_commit_def quiet_def by presburger
qed

text \<open>The two IDs of a handle change their roles only.\<close>

lemma activate_sel: "LogicalID (activate h) = LogicalID h" "GetActiveID (activate h) = GetInActiveID h"
  "GetInActiveID (activate h) = GetActiveID h" "physicalIDs (activate h) = physicalIDs h"
  "h_Version (activate h) = h_Version h + 1"
  by (auto simp: activate_def FlipActiveID_def GetActiveID_def GetInActiveID_def physicalIDs_def)

lemma touch_sel: "LogicalID (touch h) = LogicalID h" "GetActiveID (touch h) = GetActiveID h"
  "GetInActiveID (touch h) = GetInActiveID h" "physicalIDs (touch h) = physicalIDs h"
  by (auto simp: touch_def GetActiveID_def GetInActiveID_def physicalIDs_def)

lemma apart_renew:
  assumes "apart m" "\<And>i h'. m' i = Some h' \<Longrightarrow> \<exists>h. m i = Some h \<and> physicalIDs h' = physicalIDs h \<and>
      {GetActiveID h', GetInActiveID h'} = {GetActiveID h, GetInActiveID h} \<and> GetActiveID h' \<noteq> NilUUID"
  shows "apart m'"
  unfolding apart_def
proof (intro conjI allI impI)
  fix i j h' k' assume "m' i = Some h'" "m' j = Some k'" "i \<noteq> j"
  with assms(2) apartD [OF assms(1)] show "physicalIDs h' \<inter> physicalIDs k' = {}" by metis
next
  fix i h' assume a: "m' i = Some h'"
  with assms(2) show "GetActiveID h' \<noteq> NilUUID" by blast
  from assms(2) [OF a] apart_self [OF assms(1)] show "GetActiveID h' \<noteq> GetInActiveID h'"
    by (metis doubleton_eq_iff)
qed

lemma flip:
  assumes s: "safe w" and h: "holds_handles w (us @ rs)" and c: "carries w nodes us"
    and pay: "payloadIDs ps = map activate us @ map touch rs" and run: "s_regUpdateNoLocks (x_S X) b ps w = (r, w')"
  shows "r = Inr () \<and> flipped nodes us rs (shown w) w'"
proof -
  let ?hs = "map activate us @ map touch rs"
  have v: "valid w" "apart (regs (st w))" using s by (simp_all add: safe_def)
  have old: "\<exists>k. regs (st w) (LogicalID h) = Some k \<and> physicalIDs h = physicalIDs k \<and>
      {GetActiveID h, GetInActiveID h} = {GetActiveID k, GetInActiveID k} \<and> GetActiveID h \<noteq> NilUUID" if "h \<in> set ?hs" for h
  proof -
    from that consider u where "u \<in> set us" "h = activate u" | u where "u \<in> set rs" "h = touch u" by auto
    then show ?thesis
    proof cases
      case 1
      then show ?thesis using h c by (auto simp: activate_sel holds_handles_def carries_def)
    next
      case 2
      then have "regs (st w) (LogicalID u) = Some u" using h by (simp add: holds_handles_def)
      with 2 apart_self [OF v(2)] show ?thesis by (auto simp: touch_sel)
    qed
  qed
  have ok: "LogicalID h \<noteq> NilUUID \<and> physicalIDs h \<subseteq> used (st w)" if "h \<in> set (payloadIDs ps)" for h
  proof -
    from old [of h] that obtain k where "regs (st w) (LogicalID h) = Some k" "physicalIDs h = physicalIDs k" by (auto simp: pay)
    with valid_ok [OF v(1)] show ?thesis by (auto simp: stored_ok_def)
  qed
  from regUpdateNoLocks [OF v(1), of ps b, OF ok] run have w': "r = Inr ()" "valid w'" "regs (st w') = updHandles ?hs (regs (st w))"
    "blobs (st w') = blobs (st w)" unfolding pay by auto
  have d: "distinct (map LogicalID ?hs)" using h by (simp add: holds_handles_def comp_def activate_sel touch_sel)
  have ids: "LogicalID ` set ?hs = LogicalID ` set (us @ rs)"
    by (simp add: image_Un image_image activate_sel touch_sel)
  have new: "regs (st w') (LogicalID h) = Some h" if "h \<in> set ?hs" for h
    unfolding w'(3) using that by (rule updHandles_mem [OF d])
  have rest: "regs (st w') j = regs (st w) j" if "j \<notin> LogicalID ` set (us @ rs)" for j
    unfolding w'(3) by (rule updHandles_other) (use that ids in simp)
  have "apart (regs (st w'))"
  proof (rule apart_renew [OF v(2)])
    fix i k assume k: "regs (st w') i = Some k"
    show "\<exists>h. regs (st w) i = Some h \<and> physicalIDs k = physicalIDs h \<and>
        {GetActiveID k, GetInActiveID k} = {GetActiveID h, GetInActiveID h} \<and> GetActiveID k \<noteq> NilUUID"
    proof (cases "i \<in> LogicalID ` set ?hs")
      case True
      then obtain h where "h \<in> set ?hs" "i = LogicalID h" by blast
      with new [of h] old [of h] k show ?thesis by auto
    next
      case False
      then have "regs (st w) i = Some k" using rest [of i] k ids by simp
      with apart_self [OF v(2)] show ?thesis by blast
    qed
  qed
  then have 1: "safe w'" using w'(2) by (simp add: safe_def)
  have 2: "\<exists>ba. s_marshal (x_S X) n = Inr ba \<and> shown w' (s_ID (x_S X) n) = Some (s_Version (x_S X) n + 1, Some ba)"
    if "n \<in> set (concat (map snd nodes))" for n
  proof -
    from c that obtain u ba where u: "u \<in> set us" "LogicalID u = s_ID (x_S X) n" "h_Version u = s_Version (x_S X) n"
      "s_marshal (x_S X) n = Inr ba" "blobs (st w) (GetInActiveID u) = Some ba" unfolding carries_def by blast
    with new [of "activate u"] show ?thesis by (auto simp: shown_def visible_def activate_sel w'(4))
  qed
  have 3: "shown w' j = shown w j" if "j \<notin> LogicalID ` set (us @ rs)" for j
    using rest [OF that] by (simp add: shown_def visible_def w'(4))
  have "distinct (map LogicalID (us @ rs))" "LogicalID ` set us = s_ID (x_S X) ` set (concat (map snd nodes))"
    using h c by (simp_all add: holds_handles_def carries_def)
  with w'(1) 1 2 3 new show ?thesis unfolding flipped_def shows_commit_def by blast
qed

section \<open>What became obsolete\<close>

lemma shows_untouched: "shows_commit nodes hs old w \<Longrightarrow> untouched w w' \<Longrightarrow> shows_commit nodes hs old w'"
  unfolding shows_commit_def untouched_def using safe_quiet [of w w'] by (auto simp: safe_def)

lemma flipped_shows: "flipped nodes us rs old w \<Longrightarrow> shows_commit nodes (us @ rs) old w"
  by (simp add: flipped_def)

lemma flipped_others:
  assumes "flipped nodes us rs old w" "safe w'" "\<And>j. j \<notin> LogicalID ` set rs \<Longrightarrow> shown w' j = shown w j"
  shows "shows_commit nodes (us @ rs) old w'"
proof -
  have "s_ID (x_S X) n \<notin> LogicalID ` set rs" if "n \<in> set (concat (map snd nodes))" for n
  proof -
    have "s_ID (x_S X) n \<in> LogicalID ` set us" using assms(1) that by (simp add: flipped_def)
    moreover have "LogicalID ` set us \<inter> LogicalID ` set rs = {}"
      using assms(1) unfolding flipped_def map_append distinct_append set_map by blast
    ultimately show ?thesis by blast
  qed
  with assms show ?thesis unfolding flipped_def shows_commit_def set_append image_Un Un_iff by metis
qed

lemma blobRemove_flipped:
  assumes f: "flipped nodes us rs old w" and run: "s_blobRemove (x_S X) vs w = (r, w')"
    and ids: "set (blobIDs vs) \<subseteq> GetInActiveID ` set (map activate us) \<union> GetActiveID ` set (map touch rs)"
  shows "flipped nodes us rs old w'"
proof -
  have v: "valid w" "apart (regs (st w))" using f by (simp_all add: flipped_def shows_commit_def safe_def)
  from blobRemove [OF v(1), of vs] run have w': "valid w'" "regs (st w') = regs (st w)"
    "blobs (st w') = blobs (st w) |` (- set (blobIDs vs))" by auto
  have held: "regs (st w) (LogicalID h) = Some h" if "h \<in> set (map activate us @ map touch rs)" for h
    using f that by (simp add: flipped_def)
  have "GetActiveID h \<notin> set (blobIDs vs)" if h: "regs (st w) i = Some h" and i: "i \<notin> LogicalID ` set rs" for i h
  proof
    assume "GetActiveID h \<in> set (blobIDs vs)"
    with ids consider u where "u \<in> set us" "GetActiveID h = GetInActiveID (activate u)"
      | u where "u \<in> set rs" "GetActiveID h = GetActiveID (touch u)" by fastforce
    then show False
    proof cases
      case 1
      then have k: "regs (st w) (LogicalID (activate u)) = Some (activate u)" using held by simp
      show ?thesis
      proof (cases "i = LogicalID (activate u)")
        case False
        from apartD [OF v(2) h k False] apart_self [OF v(2) h] 1(2) show ?thesis by (auto simp: physicalIDs_active)
      qed (use apart_self [OF v(2) h] h k 1(2) in simp)
    next
      case 2
      then have k: "regs (st w) (LogicalID (touch u)) = Some (touch u)" using held by simp
      have "i \<noteq> LogicalID (touch u)" using i 2(1) by (auto simp: touch_sel)
      from apartD [OF v(2) h k this] apart_self [OF v(2) h] 2(2) show ?thesis by (auto simp: physicalIDs_active)
    qed
  qed
  then have "shown w' j = shown w j" if "j \<notin> LogicalID ` set rs" for j
    using that by (cases "regs (st w) j") (simp_all add: shown_def visible_def w'(2,3))
  from flipped_others [OF f _ this] have "shows_commit nodes (us @ rs) old w'" using v(2) w'(1,2) by (simp add: safe_def)
  with f w'(2) show ?thesis unfolding flipped_def by presburger
qed

lemma apart_restrict: "apart m \<Longrightarrow> apart (m |` A)"
proof -
  have "m i = Some h" if "(m |` A) i = Some h" for i h using that by (simp add: restrict_map_def split: if_splits)
  then show "apart m \<Longrightarrow> apart (m |` A)" unfolding apart_def by blast
qed

lemma regRemove_shows:
  assumes f: "flipped nodes us rs old w" and run: "s_regRemove (x_S X) vids w = (r, w')"
    and ids: "set (payloadIDs vids) \<subseteq> LogicalID ` set rs"
  shows "shows_commit nodes (us @ rs) old w'"
proof -
  have v: "valid w" "apart (regs (st w))" using f by (simp_all add: flipped_def shows_commit_def safe_def)
  from regRemove [OF v(1), of vids] obtain q v k where v0: "s_regRemove (x_S X) vids w = (q, v)" "valid v"
    "regs (st v) = regs (st w) |` (- set (take k (payloadIDs vids)))" "blobs (st v) = blobs (st w)"
    by (elim exE conjE) (rule that; assumption)
  have "v = w'" using v0(1) run by simp
  note w' = v0(2,4,3) [unfolded this]
  have sub: "set (take k (payloadIDs vids)) \<subseteq> LogicalID ` set rs" by (rule subset_trans [OF set_take_subset ids])
  have "shown w' j = shown w j" if "j \<notin> LogicalID ` set rs" for j
  proof -
    have "j \<notin> set (take k (payloadIDs vids))" using sub that by blast
    then show ?thesis by (simp add: shown_def visible_def w'(2,3))
  qed
  moreover have "apart (regs (st w'))"
    unfolding w'(3) by (rule apart_restrict [OF v(2)])
  ultimately show ?thesis using flipped_others [OF f, of w'] w'(1) by (simp add: safe_def)
qed

section \<open>After the flip\<close>

definition in_flip :: "'n store_nodes \<Rightarrow> handle registry_payload list \<Rightarrow> handle registry_payload list \<Rightarrow>
    (uuid \<Rightarrow> (32 word \<times> bytes option) option) \<Rightarrow> ('n, 'w) txn \<Rightarrow> bool" where
  "in_flip nodes us rs old t = (flipped nodes (payloadIDs us) (payloadIDs rs) old (tn_world t) \<and>
     updatedNodeHandles t = activateInactiveNodes us \<and> removedNodeHandles t = touchNodes rs)"

abbreviation is_shown :: "'n store_nodes \<Rightarrow> handle registry_payload list \<Rightarrow> handle registry_payload list \<Rightarrow>
    (uuid \<Rightarrow> (32 word \<times> bytes option) option) \<Rightarrow> ('n, 'w) txn \<Rightarrow> bool" where
  "is_shown nodes us rs old t \<equiv> shows_commit nodes (payloadIDs us @ payloadIDs rs) old (tn_world t)"

lemma in_flip_shown: "in_flip nodes us rs old t \<Longrightarrow> is_shown nodes us rs old t"
  by (simp add: in_flip_def flipped_shows)

lemma in_flip_step:
  assumes "rest.txcalls m" "same_handles m" "in_flip nodes us rs old t"
  shows "in_flip nodes us rs old (snd (m t))"
proof -
  obtain q t' where m: "m t = (q, t')" by (cases "m t")
  from rest.keepsD [OF assms(1) m] same_handlesD [OF assms(2) m] assms(3) flipped_untouched m show ?thesis
    by (simp add: in_flip_def) blast
qed

lemma is_shown_step:
  assumes "rest.txcalls m" "is_shown nodes us rs old t" shows "is_shown nodes us rs old (snd (m t))"
proof -
  obtain q t' where m: "m t = (q, t')" by (cases "m t")
  from rest.keepsD [OF assms(1) m] assms(2) shows_untouched m show ?thesis by (simp; blast)
qed

lemma bind_shown:
  assumes "in_flip nodes us rs old (snd (m t))" "\<And>x s. m t = (Inr x, s) \<Longrightarrow> in_flip nodes us rs old s \<Longrightarrow> is_shown nodes us rs old (snd (f x s))"
  shows "is_shown nodes us rs old (snd (gbind m f t))"
proof -
  obtain q s where m: "m t = (q, s)" by (cases "m t")
  with assms in_flip_shown show ?thesis by (cases q) (auto simp: gbind_def)
qed

lemma seq_shown:
  assumes "rest.txcalls m" "same_handles m" "in_flip nodes us rs old t"
    "\<And>s. in_flip nodes us rs old s \<Longrightarrow> is_shown nodes us rs old (snd (k s))"
  shows "is_shown nodes us rs old (snd (gseq m k t))"
  unfolding gseq_def by (rule bind_shown) (use in_flip_step [OF assms(1-3)] assms(4) in auto)

lemma shown_seq:
  assumes "is_shown nodes us rs old (snd (m t))" "rest.txcalls k" shows "is_shown nodes us rs old (snd (gseq m k t))"
proof -
  obtain q s where m: "m t = (q, s)" by (cases "m t")
  with assms is_shown_step [OF assms(2), of nodes us rs old s] show ?thesis by (cases q) (auto simp: gbind_def gseq_def)
qed

lemma calls_uncacheObsolete: "rest.txcalls (uncacheObsolete X ps e)"
  by (induction ps arbitrary: e) (auto intro!: rest.keeps_then quiet_parts)

lemma same_handles_uncacheObsolete: "same_handles (uncacheObsolete X ps e)"
  by (induction ps arbitrary: e) (auto intro!: handle_parts same_handles_bind)

lemma obsolete_ids:
  assumes "in_flip nodes us rs old t"
  shows "payloadIDs (fst (getToBeObsoleteEntries t)) = map LogicalID (payloadIDs rs)"
    "set (blobIDs (snd (getToBeObsoleteEntries t))) =
       GetInActiveID ` set (map activate (payloadIDs us)) \<union> GetActiveID ` set (map touch (payloadIDs rs))"
  using assms
  by (simp_all add: in_flip_def getToBeObsoleteEntries_def activateInactiveNodes_def touchNodes_def mapHandles_def
    payloadIDs_def blobIDs_def comp_def map_concat touch_sel image_UN image_image)

lemma deleteObsolete_shown:
  assumes f: "in_flip nodes us rs old t" and e: "getToBeObsoleteEntries t = (ids, bs)"
  shows "is_shown nodes us rs old (snd (tx_deleteObsoleteEntries X ids bs t))"
proof -
  note sets = obsolete_ids [OF f, unfolded e, simplified]
  have rem: "in_flip nodes us rs old (snd (noteErr Replace [] x (inWorld (s_blobRemove (x_S X) bs)) s))"
    if "in_flip nodes us rs old s" for s x
  proof -
    obtain q w' where w: "s_blobRemove (x_S X) bs (tn_world s) = (q, w')" by (cases "s_blobRemove (x_S X) bs (tn_world s)")
    have "flipped nodes (payloadIDs us) (payloadIDs rs) old w'"
      using blobRemove_flipped [OF _ w] that sets(2) by (simp add: in_flip_def)
    with that w show ?thesis by (simp add: noteErr_snd in_flip_def zoom_apply)
  qed
  have first: "in_flip nodes us rs old (snd ((if bs = [] then ret None else gbind (uncacheObsolete X bs None) (\<lambda>x.
     noteErr Replace [] x (inWorld (s_blobRemove (x_S X) bs)))) t))"
  proof (cases "bs = []")
    case False
    obtain q s where s: "uncacheObsolete X bs None t = (q, s)" by (cases "uncacheObsolete X bs None t")
    have "in_flip nodes us rs old s"
      using in_flip_step [OF calls_uncacheObsolete same_handles_uncacheObsolete f, of bs None] s by simp
    with rem False s show ?thesis by (cases q) (simp_all add: gbind_def)
  qed (use f in \<open>simp add: ret_def\<close>)
  show ?thesis
    unfolding tx_deleteObsoleteEntries_def
  proof (rule bind_shown)
    show "in_flip nodes us rs old (snd ((if bs = [] then ret None else gbind (uncacheObsolete X bs None) (\<lambda>x.
      noteErr Replace [] x (inWorld (s_blobRemove (x_S X) bs)))) t))" by (rule first)
    fix x s assume s: "in_flip nodes us rs old s"
    let ?m = "noteErr Replace [] x (inWorld (s_regRemove (x_S X) ids))"
    obtain q w' where w: "s_regRemove (x_S X) ids (tn_world s) = (q, w')" by (cases "s_regRemove (x_S X) ids (tn_world s)")
    have "shows_commit nodes (payloadIDs us @ payloadIDs rs) old w'"
      using regRemove_shows [OF _ w] s sets(1) by (simp add: in_flip_def)
    then have 1: "is_shown nodes us rs old (snd (?m s))" using w by (simp add: noteErr_snd zoom_apply)
    obtain q2 s2 where s2: "?m s = (q2, s2)" by (cases "?m s")
    have "rest.txcalls (finishWith y)" for y by (rule rest.calls_finishWith)
    from is_shown_step [OF this, of nodes us rs old s2] 1 s2
    show "is_shown nodes us rs old (snd (gbind ?m finishWith s))" by (cases q2) (simp_all add: gbind_def)
  qed
qed

lemma calls_dropped: "rest.txcalls (tx_deleteTrackedItemsValues X (getObsoleteTrackedItemsValues X t))"
proof -
  have "valuesOf b t (bk_getObsoleteTrackedItemsValues b t) = []" if "b \<in> set (x_B X)" for b
    using no_obsolete_values [OF that] by (simp add: valuesOf_def)
  then have "getObsoleteTrackedItemsValues X t = []" by (simp add: getObsoleteTrackedItemsValues_def)
  then show ?thesis by (auto simp: tx_deleteTrackedItemsValues_def intro!: quiet_parts)
qed

lemma tolerate_snd: "snd (tolerate m t) = snd (m t)"
  by (simp add: tolerate_def gbind_def attempt_def ret_def split: prod.split sum.split go_error.split)

lemma cleanup_shown:
  assumes "in_flip nodes us rs old t" shows "is_shown nodes us rs old (snd (tx_cleanup X t))"
  unfolding tx_cleanup_def
proof (rule seq_shown [OF rest.calls_tlog same_handles_tlog assms])
  fix s assume f: "in_flip nodes us rs old s"
  obtain ids bs where e: "getToBeObsoleteEntries s = (ids, bs)" by (cases "getToBeObsoleteEntries s")
  let ?k = "gseq (tlog X C_deleteTrackedItemsValues NoPayload) (gbind (reads (getObsoleteTrackedItemsValues X)) (\<lambda>vs.
      gseq (tolerate (tx_deleteTrackedItemsValues X vs)) (tolerate (removeLogs X))))"
  have k: "rest.txcalls ?k"
  proof (intro rest.keeps_seq rest.calls_tlog rest.keepsI)
    fix s0 q s1 assume run: "gbind (reads (getObsoleteTrackedItemsValues X)) (\<lambda>vs.
      gseq (tolerate (tx_deleteTrackedItemsValues X vs)) (tolerate (removeLogs X))) s0 = (q, s1)"
    have "rest.txcalls (gseq (tolerate (tx_deleteTrackedItemsValues X (getObsoleteTrackedItemsValues X s0))) (tolerate (removeLogs X)))"
      by (intro quiet_parts rest.calls_tolerate calls_dropped rest.calls_removeLogs)
    from rest.keepsD [OF this, of s0 q s1] run
    show "untouched (tn_world s0) (tn_world s1) \<and> (\<forall>x. q = Inr x \<longrightarrow> True)" by (simp add: gbind_def reads_def)
  qed
  have "is_shown nodes us rs old (snd (tolerate (tx_deleteObsoleteEntries X ids bs) s))"
    using deleteObsolete_shown [OF f e]
    by (simp add: tolerate_snd)
  then have "is_shown nodes us rs old (snd (gseq (tolerate (tx_deleteObsoleteEntries X ids bs)) ?k s))" using k by (rule shown_seq)
  with e show "is_shown nodes us rs old (snd (gbind (reads getToBeObsoleteEntries) (\<lambda>(ids, bs).
      gseq (tolerate (tx_deleteObsoleteEntries X ids bs)) ?k) s))" by (simp add: gbind_def reads_def)
qed

lemma calls_populateEach: "rest.txcalls (populateEach X d ns hs)"
proof (induction ns arbitrary: hs)
  case (Cons n ns)
  then show ?case by (cases hs) (auto intro!: quiet_parts rest.calls_caches)
qed (auto intro!: quiet_parts)

lemma calls_populate: "rest.txcalls (updateVersionThenPopulateMru X ps nodes)"
proof (induction nodes arbitrary: ps)
  case (Cons n nodes)
  then show ?case by (cases n) (auto intro!: quiet_parts calls_populateEach)
qed (auto intro!: quiet_parts)

lemma calls_populateMru: "rest.txcalls (populateMru X)"
  unfolding populateMru_def by (intro rest.keeps_then) (auto intro!: quiet_parts calls_populate)

lemma calls_replicateCommit: "rest.txcalls (replicateCommit X)"
  unfolding replicateCommit_def by (intro rest.keeps_then) (auto intro!: quiet_parts)

lemma calls_logFinalize: "rest.txcalls (logFinalize X)"
  unfolding logFinalize_def Let_def
  by (intro rest.keeps_then) (auto intro!: rest.keeps_then quiet_parts split: prod.split sum.split)

lemma same_handles_unlockTrackedItems: "same_handles (unlockTrackedItems X)"
  unfolding unlockTrackedItems_def
  by (intro same_handles_bind same_handles_unlockEach handle_parts) (auto simp: same_handles_def unlock_keeps_handles)

lemma after_flip:
  assumes "in_flip nodes us rs old t"
  shows "is_shown nodes us rs old (snd (gseq (replicateCommit X) (gseq (populateMru X) (gseq (tolerate (tx_unlockNodesKeys X))
     (gseq (tolerate (unlockTrackedItems X)) (gseq (tolerate (tx_cleanup X))
     (gfor (te_onCommitHooks (x_E X)) (\<lambda>h. tolerate (inWorld h))))))) t))"
  using assms
proof (intro seq_shown [OF calls_replicateCommit same_handles_replicateCommit] seq_shown [OF calls_populateMru same_handles_populateMru]
    seq_shown [of "tolerate (tx_unlockNodesKeys X)"] seq_shown [of "tolerate (unlockTrackedItems X)"] shown_seq)
  fix s assume "in_flip nodes us rs old s"
  from cleanup_shown [OF this] show "is_shown nodes us rs old (snd (tolerate (tx_cleanup X) s))"
    by (simp add: tolerate_snd)
next
  show "rest.txcalls (gfor (te_onCommitHooks (x_E X)) (\<lambda>h. tolerate (inWorld h)))"
    by (intro quiet_parts rest.calls_tolerate rest.calls_world hooks)
qed (auto intro!: quiet_parts handle_parts same_handles_unlockTrackedItems)

section \<open>Phase 2\<close>

lemma prepared_flip:
  assumes p: "updatedNodeHandles t = activateInactiveNodes us" "removedNodeHandles t = touchNodes rs" "safe (tn_world t)"
      "holds_handles (tn_world t) (payloadIDs us @ payloadIDs rs)" "carries (tn_world t) nodes (payloadIDs us)"
  shows "in_flip nodes us rs (shown (tn_world t)) (snd (publish X t))"
proof (cases "updatedNodeHandles t @ removedNodeHandles t = []")
  case True
  then have e: "us = []" "rs = []" using p(1,2) by (simp_all add: activateInactiveNodes_def touchNodes_def mapHandles_def)
  have "concat (map snd nodes) = []" using p(5) by (auto simp: carries_def e payloadIDs_def)
  then show ?thesis using True p(3) by (simp add: publish_def gbind_def reads_def ret_def in_flip_def flipped_def shows_commit_def e payloadIDs_def
      activateInactiveNodes_def touchNodes_def mapHandles_def)
next
  case False
  let ?ps = "updatedNodeHandles t @ removedNodeHandles t"
  have pay: "payloadIDs ?ps = map activate (payloadIDs us) @ map touch (payloadIDs rs)"
    using payloadIDs_mapHandles [of activate us] payloadIDs_mapHandles [of touch rs]
    by (simp add: p(1,2) activateInactiveNodes_def touchNodes_def payloadIDs_def)
  obtain q w' where w: "s_regUpdateNoLocks (x_S X) True ?ps (tn_world t) = (q, w')"
    by (cases "s_regUpdateNoLocks (x_S X) True ?ps (tn_world t)")
  from flip [OF p(3-5) pay w] have q: "q = Inr ()" "flipped nodes (payloadIDs us) (payloadIDs rs) (shown (tn_world t)) w'" by simp_all
  then have "in_flip nodes us rs (shown (tn_world t)) (t\<lparr>tn_world := w'\<rparr>)" using p(1,2) by (simp add: in_flip_def)
  from in_flip_step [OF _ _ this, of "tolerate (inWorld (pl_Remove (x_L X) (te_id (x_E X))))"]
  show ?thesis using False w q(1)
    by (simp add: publish_def gbind_def gseq_def reads_def zoom_apply Let_def quiet_parts rest.calls_tolerate rest.calls_logs handle_parts
        del: append_is_Nil_conv)
qed

lemma phase2_shown:
  assumes "prepared_commit t" "phase2Commit X t = (r, t')"
  defines "hs \<equiv> payloadIDs (updatedNodeHandles t @ removedNodeHandles t)"
  shows "if fst (logFinalize X t) = Inr () then shows_commit (tn_updatedNodes t) hs (shown (tn_world t)) (tn_world t')
    else r \<noteq> Inr () \<and> safe (tn_world t') \<and> shown (tn_world t') = shown (tn_world t)"
proof -
  from assms(1) obtain us rs where p: "updatedNodeHandles t = activateInactiveNodes us" "removedNodeHandles t = touchNodes rs"
    "safe (tn_world t)" "holds_handles (tn_world t) (payloadIDs us @ payloadIDs rs)"
    "carries (tn_world t) (tn_updatedNodes t) (payloadIDs us)" unfolding prepared_commit_def by blast
  obtain q s where s: "logFinalize X t = (q, s)" by (cases "logFinalize X t")
  from p(3) rest.keepsD [OF calls_logFinalize s] have v: "valid (tn_world s)" "quiet (st (tn_world t)) (st (tn_world s))"
    by (simp_all add: untouched_def safe_def)
  note q = safe_quiet [OF p(3) v] and w = waits_quiet [OF v(2)] and h = same_handlesD [OF same_handles_logFinalize s]
  show ?thesis
  proof (cases q)
    case (Inl e)
    with assms(2) s q show ?thesis by (auto simp: phase2Commit_def gseq_def gbind_def)
  next
    case (Inr u)
    have "in_flip (tn_updatedNodes t) us rs (shown (tn_world s)) (snd (publish X s))"
      by (rule prepared_flip) (use h p q w in simp_all)
    then have "is_shown (tn_updatedNodes t) us rs (shown (tn_world s)) (snd (gseq (publish X)
      (gseq (replicateCommit X) (gseq (populateMru X) (gseq (tolerate (tx_unlockNodesKeys X))
     (gseq (tolerate (unlockTrackedItems X)) (gseq (tolerate (tx_cleanup X))
     (gfor (te_onCommitHooks (x_E X)) (\<lambda>h. tolerate (inWorld h)))))))) s))"
      unfolding gseq_def [of "publish X"] by (rule bind_shown) (rule after_flip)
    then have "is_shown (tn_updatedNodes t) us rs (shown (tn_world t)) t'"
      using assms(2) s Inr q by (simp add: phase2Commit_def gseq_def [of "logFinalize X"] gbind_def [of "logFinalize X"])
    moreover have "LogicalID ` set hs = LogicalID ` set (payloadIDs us @ payloadIDs rs)"
      unfolding hs_def p(1,2)
      using payloadIDs_mapHandles [of activate us] payloadIDs_mapHandles [of touch rs]
      by (simp add: activateInactiveNodes_def touchNodes_def payloadIDs_def image_Un image_image activate_sel touch_sel)
    ultimately show ?thesis using s Inr by (simp add: shows_commit_def)
  qed
qed

end

end
