(* ===== verification/Tx_Atomic.thy ===== *)
theory Tx_Atomic
  imports Tx_Mocks Tx_Phase2
begin

text \<open>
  A commit as a whole, phase 1 and phase 2: what readers find afterwards, and a run of it from the first
  lock to the last cleanup.
\<close>


text \<open>A transaction without rivals: both phases succeed.\<close>

definition tx_granted :: "(plain_node, plain_node tx_world) tx_parts" where
  "tx_granted = mock_parts plain_meta (granting (mock_env 100 1000)) [fixedTree ((sample_info False)\<lparr>si_Count := 1\<rparr>) tx_sample_repo [1, 2]]"

lemma tx_granted_changes: "changes_only tx_granted t"
  using tx_sample_changes [of t]
  by (simp add: changes_only_def tx_granted_def tx_sample_def classifyModifiedNodes_def storesNodes_def nodesOfKind_def kindOf_def)

interpretation tx_granted_env: commit_env tx_granted mock_abs mock_valid
  unfolding tx_granted_def by (rule mock_commit_env [OF disjI2]) (rule HOL.refl, rule tx_granted_changes [unfolded tx_granted_def])

lemma tx_granted_phase1: "fst (phase1Commit tx_granted tx_sample_txn) = Inr ()"
  by code_simp

lemma tx_granted_updated: "ns_updated (classifyModifiedNodes tx_granted s) = [((sample_info False)\<lparr>si_Count := 1\<rparr>, [(2, 4, [21])])]"
  by (simp add: classifyModifiedNodes_def storesNodes_def nodesOfKind_def kindOf_def tx_granted_def fixedTree_def
      tx_sample_repo_def newNodeRepository_def map_filter_simps)

lemma tx_granted_logs: "fst (logFinalize tx_granted t) = Inr ()"
  by (cases "getToBeObsoleteEntries t") (simp add: logFinalize_def tlog_def exec_simps tx_granted_def mock_log_def zoom_apply)


end
