(* ===== verification/Item_Tracker.thy ===== *)
theory Item_Tracker
  imports Tx_Commit Btree_Data
begin

text \<open>
  The item action tracker of a B-tree in a transaction (\<open>common/itemactiontracker.go\<close> and
  \<open>common/itemactiontracker.valuedata.go\<close>): what was done to which item, the locks on the items, and the
  values that are stored apart from the nodes. The B-tree and the tracker share items by pointer, so the
  items are in a heap. A Go map is walked in any order: the loops take that order as an argument.
\<close>

section \<open>Data\<close>

record lock_record =
  lr_LockID :: uuid
  lr_Action :: action_type

text \<open>\<open>ci_item\<close> is a pointer, \<open>None\<close> when nil.\<close>

record cache_item =
  ci_lock :: lock_record
  ci_item :: "nat option"
  versionInDB :: "32 word"
  isLockOwner :: bool
  persisted :: bool

record ('k, 'v, 'w) item_tracker =
  it_info :: store_info
  it_items :: "uuid \<rightharpoonup> cache_item"
  forDeletionItems :: "uuid list"
  it_heap :: "nat \<rightharpoonup> ('k, 'v) item"
  it_world :: 'w

text \<open>The L2 cache, the blob store, the transaction log, the encoding of values and the source of UUIDs.\<close>

record ('v, 'w) item_services =
  is_GetStruct :: "string \<Rightarrow> ('w, 'v option) gom"
  is_GetStructEx :: "string \<Rightarrow> int \<Rightarrow> ('w, 'v option) gom"
  is_SetStruct :: "string \<Rightarrow> 'v \<Rightarrow> int \<Rightarrow> ('w, unit) gom"
  is_GetStructs :: "string list \<Rightarrow> ('w, lock_record option list) gom"
  is_SetStructs :: "(string \<times> lock_record) list \<Rightarrow> int \<Rightarrow> ('w, unit) gom"
  is_Delete :: "string list \<Rightarrow> ('w, bool) gom"
  is_FormatLockKey :: "string \<Rightarrow> string"
  is_GetOne :: "string \<Rightarrow> uuid \<Rightarrow> ('w, bytes option) gom"
  is_blobAdd :: "(uuid \<times> bytes) blobs_payload list \<Rightarrow> ('w, unit) gom"
  is_log :: "commit_function \<Rightarrow> log_payload \<Rightarrow> ('w, unit) gom"
  is_Marshal :: "'v \<Rightarrow> string + bytes"
  is_Unmarshal :: "bytes option \<Rightarrow> string + 'v"
  is_newUUID :: "('w, uuid) gom"

type_synonym ('k, 'v, 'w, 'a) itm = "(('k, 'v, 'w) item_tracker, 'a) gom"

abbreviation onServices :: "('w, 'a) gom \<Rightarrow> ('k, 'v, 'w, 'a) itm" where
  "onServices \<equiv> zoom it_world (\<lambda>w t. t\<lparr>it_world := w\<rparr>)"

definition newItemActionTracker :: "store_info \<Rightarrow> (nat \<rightharpoonup> ('k, 'v) item) \<Rightarrow> 'w \<Rightarrow> ('k, 'v, 'w) item_tracker" where
  "newItemActionTracker si h w = \<lparr>it_info = si, it_items = Map.empty, forDeletionItems = [], it_heap = h, it_world = w\<rparr>"

text \<open>Reads and writes through an item pointer, and of the tracker's fields.\<close>

definition deref :: "nat option \<Rightarrow> ('k, 'v, 'w, ('k, 'v) item) itm" where
  "deref p = gbind (reads (\<lambda>t. Option.bind p (it_heap t))) (\<lambda>x. case x of None \<Rightarrow> fail Panic | Some it \<Rightarrow> ret it)"

definition assign :: "nat option \<Rightarrow> (('k, 'v) item \<Rightarrow> ('k, 'v) item) \<Rightarrow> ('k, 'v, 'w, unit) itm" where
  "assign p f = gbind (deref p) (\<lambda>it. modify (\<lambda>t. t\<lparr>it_heap := (it_heap t)(the p \<mapsto> f it)\<rparr>))"

definition putItem :: "uuid \<Rightarrow> cache_item \<Rightarrow> ('k, 'v, 'w, unit) itm" where
  "putItem u c = modify (\<lambda>t. t\<lparr>it_items := (it_items t)(u \<mapsto> c)\<rparr>)"

definition queueDeletion :: "uuid \<Rightarrow> ('k, 'v, 'w, unit) itm" where
  "queueDeletion u = modify (\<lambda>t. t\<lparr>forDeletionItems := forDeletionItems t @ [u]\<rparr>)"

definition orFail :: "string + 'a \<Rightarrow> ('s, 'a) gom" where
  "orFail r = (case r of Inl e \<Rightarrow> fail (Err e) | Inr x \<Rightarrow> ret x)"

abbreviation ci_Action :: "cache_item \<Rightarrow> action_type" where
  "ci_Action c \<equiv> lr_Action (ci_lock c)"

text \<open>A new entry for an item, with a lock ID of its own.\<close>

definition newEntry :: "('v, 'w) item_services \<Rightarrow> action_type \<Rightarrow> nat option \<Rightarrow> ('k, 'v, 'w, cache_item) itm" where
  "newEntry S a p = gbind (onServices (is_newUUID S)) (\<lambda>l. gbind (deref p) (\<lambda>it.
     ret \<lparr>ci_lock = \<lparr>lr_LockID = l, lr_Action = a\<rparr>, ci_item = p, versionInDB = itemVersion it,
       isLockOwner = False, persisted = False\<rparr>))"

section \<open>Values\<close>

text \<open>An item gives its value away to be written, under a new ID when its old value is stored already.\<close>

definition readyValue :: "('v, 'w) item_services \<Rightarrow> uuid \<Rightarrow> cache_item \<Rightarrow> ('k, 'v, 'w, unit) itm" where
  "readyValue S u c = (case ci_Action c of
     removeAction \<Rightarrow> gbind (deref (ci_item c)) (\<lambda>it.
       gseq (if ValueNeedsFetch it then queueDeletion (itemID it) else ret ())
         (assign (ci_item c) (\<lambda>it. it\<lparr>ValueNeedsFetch := False\<rparr>)))
   | updateAction \<Rightarrow> gseq (gbind (deref (ci_item c)) (\<lambda>it.
       if ValueNeedsFetch it \<and> Value it \<noteq> None
       then gseq (queueDeletion (itemID it)) (gbind (onServices (is_newUUID S)) (\<lambda>n.
         assign (ci_item c) (\<lambda>it. it\<lparr>ValueNeedsFetch := False, itemID := n\<rparr>)))
       else ret ())) (putItem u c)
   | _ \<Rightarrow> ret ())"

definition takeValue :: "('v, 'w) item_services \<Rightarrow> cache_item \<Rightarrow> ('k, 'v, 'w, (uuid \<times> bytes) option) itm" where
  "takeValue S c = gbind (deref (ci_item c)) (\<lambda>it. case Value it of None \<Rightarrow> ret None
     | Some v \<Rightarrow> gbind (orFail (is_Marshal S v)) (\<lambda>ba.
         gseq (assign (ci_item c) (\<lambda>it. it\<lparr>Value := None, ValueNeedsFetch := True\<rparr>)) (ret (Some (itemID it, ba)))))"

definition manage :: "('v, 'w) item_services \<Rightarrow> uuid \<Rightarrow> cache_item \<Rightarrow> ('k, 'v, 'w, (uuid \<times> bytes) option) itm" where
  "manage S u c = (if persisted c then ret None
     else gseq (readyValue S u c)
       (if ci_Action c \<noteq> addAction \<and> ci_Action c \<noteq> updateAction then ret None
        else gbind (takeValue S c) (\<lambda>r. gseq (putItem u c) (ret r))))"

definition extractRequestPayloadIDs :: "(uuid \<times> bytes) blobs_payload \<Rightarrow> uuid blobs_payload" where
  "extractRequestPayloadIDs p = \<lparr>bp_BlobTable = bp_BlobTable p, bp_Blobs = map fst (bp_Blobs p)\<rparr>"

definition cacheValue :: "('v, 'w) item_services \<Rightarrow> uuid \<Rightarrow> 'v option \<Rightarrow> ('k, 'v, 'w, unit) itm" where
  "cacheValue S u iv = gbind (reads it_info) (\<lambda>si. if \<not> IsValueDataGloballyCached si then ret ()
     else case iv of None \<Rightarrow> ret ()
       | Some v \<Rightarrow> tolerate (onServices (is_SetStruct S (formatItemKey (uuid_String u)) v (ValueDataCacheDuration (CacheConfig si)))))"

text \<open>
  The value of an item that is added or changed in a store whose values are written at once. The log has one
  number for both (\<open>updateActivelyPersistedItem\<close> is \<open>addActivelyPersistedItem\<close>).
\<close>

definition activelyPersist :: "('v, 'w) item_services \<Rightarrow> uuid \<Rightarrow> cache_item \<Rightarrow> ('k, 'v, 'w, unit) itm" where
  "activelyPersist S u c = gbind (reads it_info) (\<lambda>si. if \<not> IsValueDataActivelyPersisted si then ret ()
     else gbind (deref (ci_item c)) (\<lambda>it. gbind (manage S u c) (\<lambda>r. case r of None \<Rightarrow> ret ()
       | Some (k, ba) \<Rightarrow> let p = \<lparr>bp_BlobTable = BlobTable si, bp_Blobs = [(k, ba)]\<rparr>
           in gseq (onServices (is_log S C_addActivelyPersistedItem (ItemPayload (extractRequestPayloadIDs p))))
             (gseq (onServices (is_blobAdd S [p])) (cacheValue S k (Value it))))))"

section \<open>Actions\<close>

definition blobValue :: "('v, 'w) item_services \<Rightarrow> store_info \<Rightarrow> uuid \<Rightarrow> ('k, 'v, 'w, 'v) itm" where
  "blobValue S si u = gbind (onServices (is_GetOne S (BlobTable si) u)) (\<lambda>ba. orFail (is_Unmarshal S ba))"

definition fetchValue :: "('v, 'w) item_services \<Rightarrow> uuid \<Rightarrow> ('k, 'v, 'w, 'v) itm" where
  "fetchValue S u = gbind (reads it_info) (\<lambda>si. let k = formatItemKey (uuid_String u); d = ValueDataCacheDuration (CacheConfig si) in
     if \<not> IsValueDataGloballyCached si then blobValue S si u
     else gbind (attempt (onServices (if IsValueDataCacheTTL (CacheConfig si) then is_GetStructEx S k d else is_GetStruct S k))) (\<lambda>r.
       case r of Inr (Some v) \<Rightarrow> ret v
       | _ \<Rightarrow> gbind (blobValue S si u) (\<lambda>v. gseq (tolerate (onServices (is_SetStruct S k v d))) (ret v))))"

definition it_Get :: "('v, 'w) item_services \<Rightarrow> nat option \<Rightarrow> ('k, 'v, 'w, unit) itm" where
  "it_Get S p = gbind (deref p) (\<lambda>it. gbind (reads (\<lambda>t. it_items t (itemID it))) (\<lambda>e.
     gbind (case e of None \<Rightarrow> ret True | Some c \<Rightarrow> if ci_item c = None then ret True
       else gbind (deref (ci_item c)) (\<lambda>x. ret (ValueNeedsFetch x))) (\<lambda>look.
     if \<not> look then ret ()
     else gbind (if Value it = None \<and> ValueNeedsFetch it
         then gbind (fetchValue S (itemID it)) (\<lambda>v.
           gseq (assign p (\<lambda>it. it\<lparr>Value := Some v, ValueNeedsFetch := False\<rparr>)) (ret (e \<noteq> None)))
         else ret False) (\<lambda>done.
       if done then ret () else gbind (newEntry S getAction p) (putItem (itemID it))))))"

definition bumpVersion :: "nat option \<Rightarrow> ('k, 'v, 'w, unit) itm" where
  "bumpVersion p = assign p (\<lambda>it. it\<lparr>itemVersion := itemVersion it + 1\<rparr>)"

definition it_Add :: "('v, 'w) item_services \<Rightarrow> nat option \<Rightarrow> ('k, 'v, 'w, unit) itm" where
  "it_Add S p = gbind (newEntry S addAction p) (\<lambda>c. gbind (deref p) (\<lambda>it.
     gseq (putItem (itemID it) c) (gseq (bumpVersion p) (activelyPersist S (itemID it) c))))"

definition it_Update :: "('v, 'w) item_services \<Rightarrow> nat option \<Rightarrow> ('k, 'v, 'w, unit) itm" where
  "it_Update S p = gbind (deref p) (\<lambda>it. gbind (reads (\<lambda>t. it_items t (itemID it))) (\<lambda>e. case e of
     Some c \<Rightarrow> if ci_Action c = addAction then activelyPersist S (itemID it) c
       else let c = c\<lparr>ci_lock := (ci_lock c)\<lparr>lr_Action := updateAction\<rparr>, ci_item := p\<rparr>
         in gseq (putItem (itemID it) c) (gseq (if itemVersion it = versionInDB c then bumpVersion p else ret ())
           (activelyPersist S (itemID it) c))
   | None \<Rightarrow> gbind (newEntry S updateAction p) (\<lambda>c.
       gseq (putItem (itemID it) c) (gseq (bumpVersion p) (activelyPersist S (itemID it) c)))))"

definition it_Remove :: "('v, 'w) item_services \<Rightarrow> nat option \<Rightarrow> ('k, 'v, 'w, unit) itm" where
  "it_Remove S p = gbind (deref p) (\<lambda>it. gbind (reads it_info) (\<lambda>si.
     if IsValueDataActivelyPersisted si
     then gseq (queueDeletion (itemID it)) (assign p (\<lambda>it. it\<lparr>ValueNeedsFetch := False\<rparr>))
     else gbind (reads (\<lambda>t. it_items t (itemID it))) (\<lambda>e.
       if (case e of None \<Rightarrow> False | Some c \<Rightarrow> ci_Action c = addAction)
       then modify (\<lambda>t. t\<lparr>it_items := (it_items t)(itemID it := None)\<rparr>)
       else gbind (newEntry S removeAction p) (putItem (itemID it)))))"

text \<open>\<open>walk\<close> holds the keys of the map in the order in which the loop gets them.\<close>

definition it_hasTrackedItems :: "uuid list \<Rightarrow> ('k, 'v, 'w) item_tracker \<Rightarrow> bool" where
  "it_hasTrackedItems walk t = (List.map_filter (it_items t) walk \<noteq> [])"

section \<open>Values at commit and rollback\<close>

fun collectValues :: "('v, 'w) item_services \<Rightarrow> uuid list \<Rightarrow> ('k, 'v, 'w, ((uuid \<times> bytes) \<times> 'v option) list) itm" where
  "collectValues S [] = ret []"
| "collectValues S (u # us) = gbind (reads (\<lambda>t. it_items t u)) (\<lambda>e. case e of None \<Rightarrow> collectValues S us
   | Some c \<Rightarrow> gbind (deref (ci_item c)) (\<lambda>it. gbind (manage S u c) (\<lambda>r. gbind (collectValues S us) (\<lambda>rs.
       ret ((case r of None \<Rightarrow> [] | Some kb \<Rightarrow> [(kb, Value it)]) @ rs)))))"

definition it_commitValues :: "('v, 'w) item_services \<Rightarrow> uuid list \<Rightarrow> ('k, 'v, 'w, unit) itm" where
  "it_commitValues S walk = gbind (reads it_info) (\<lambda>si.
     if IsValueDataInNodeSegment si \<or> IsValueDataActivelyPersisted si then ret ()
     else gbind (collectValues S walk) (\<lambda>vs.
       gseq (if vs = [] then ret () else onServices (is_blobAdd S [\<lparr>bp_BlobTable = BlobTable si, bp_Blobs = map fst vs\<rparr>]))
         (gfor vs (\<lambda>((k, ba), iv). cacheValue S k iv))))"

fun undoIDs :: "uuid list \<Rightarrow> ('k, 'v, 'w, uuid list) itm" where
  "undoIDs [] = ret []"
| "undoIDs (u # us) = gbind (reads (\<lambda>t. it_items t u)) (\<lambda>e. case e of None \<Rightarrow> undoIDs us
   | Some c \<Rightarrow> if ci_Action c \<noteq> addAction \<and> ci_Action c \<noteq> updateAction then undoIDs us
       else gbind (deref (ci_item c)) (\<lambda>it. gseq (assign (ci_item c) (\<lambda>it. it\<lparr>itemID := u\<rparr>))
         (gseq (putItem u c) (gbind (undoIDs us) (\<lambda>r. ret (itemID it # r))))))"

definition it_getForRollback :: "uuid list \<Rightarrow> ('k, 'v, 'w, uuid blobs_payload option) itm" where
  "it_getForRollback walk = gbind (reads it_info) (\<lambda>si. if IsValueDataInNodeSegment si then ret None
     else gbind (undoIDs walk) (\<lambda>ids. gseq (modify (\<lambda>t. t\<lparr>forDeletionItems := []\<rparr>))
       (ret (Some \<lparr>bp_BlobTable = BlobTable si, bp_Blobs = ids\<rparr>))))"

definition it_getObsolete :: "('k, 'v, 'w) item_tracker \<Rightarrow> uuid blobs_payload option" where
  "it_getObsolete t = (if IsValueDataInNodeSegment (it_info t) then None
     else Some \<lparr>bp_BlobTable = BlobTable (it_info t), bp_Blobs = forDeletionItems t\<rparr>)"

section \<open>Locks\<close>

definition itemConflict :: "uuid \<Rightarrow> string" where
  "itemConflict u = ''lock(item: '' @ uuid_String u @ '') call detected conflict''"

definition cantLock :: "uuid \<Rightarrow> string" where
  "cantLock u = ''lock(item: '' @ uuid_String u @ '') call can't attain a lock in Redis''"

definition itemKey :: "('v, 'w) item_services \<Rightarrow> uuid \<Rightarrow> string" where
  "itemKey S u = is_FormatLockKey S (uuid_String u)"

text \<open>Two readers of an item do not disturb each other.\<close>

definition bothRead :: "lock_record \<Rightarrow> lock_record \<Rightarrow> bool" where
  "bothRead r l = (lr_Action r = getAction \<and> lr_Action l = getAction)"

definition toLock :: "uuid list \<Rightarrow> ('k, 'v, 'w) item_tracker \<Rightarrow> (uuid \<times> cache_item) list" where
  "toLock walk t = List.map_filter (\<lambda>u. case it_items t u of None \<Rightarrow> None
     | Some c \<Rightarrow> if ci_Action c = addAction then None else Some (u, c)) walk"

fun freeItems :: "(uuid \<times> cache_item) list \<Rightarrow> lock_record option list \<Rightarrow> go_error + (uuid \<times> cache_item) list" where
  "freeItems [] found = Inr []"
| "freeItems (uc # us) [] = Inl Panic"
| "freeItems ((u, c) # us) (None # found) = map_sum id (Cons (u, c)) (freeItems us found)"
| "freeItems ((u, c) # us) (Some r # found) =
     (if lr_LockID r = lr_LockID (ci_lock c) \<or> bothRead r (ci_lock c) then freeItems us found
      else Inl (Err (itemConflict u)))"

text \<open>The three accesses to the cache that a lock makes.\<close>

definition lockLook :: "('v, 'w) item_services \<Rightarrow> uuid list \<Rightarrow> ('k, 'v, 'w, (uuid \<times> cache_item) list) itm" where
  "lockLook S walk = gbind (reads (toLock walk)) (\<lambda>us. if us = [] then ret []
     else gbind (onServices (is_GetStructs S (map (itemKey S \<circ> fst) us))) (\<lambda>found. lift_res (freeItems us found)))"

definition lockSet :: "('v, 'w) item_services \<Rightarrow> int \<Rightarrow> (uuid \<times> cache_item) list \<Rightarrow> ('k, 'v, 'w, unit) itm" where
  "lockSet S d us = onServices (is_SetStructs S (map (\<lambda>(u, c). (itemKey S u, ci_lock c)) us) d)"

fun verifyEach :: "(uuid \<times> cache_item) list \<Rightarrow> lock_record option list \<Rightarrow> ('k, 'v, 'w, unit) itm" where
  "verifyEach [] found = ret ()"
| "verifyEach (uc # us) [] = fail Panic"
| "verifyEach ((u, c) # us) (None # found) = fail (Err (cantLock u))"
| "verifyEach ((u, c) # us) (Some r # found) =
     (if lr_LockID r = lr_LockID (ci_lock c) then gseq (putItem u (c\<lparr>isLockOwner := True\<rparr>)) (verifyEach us found)
      else if bothRead r (ci_lock c) then verifyEach us found
      else fail (Err (if lr_LockID r = NilUUID then cantLock u else itemConflict u)))"

definition lockVerify :: "('v, 'w) item_services \<Rightarrow> (uuid \<times> cache_item) list \<Rightarrow> ('k, 'v, 'w, unit) itm" where
  "lockVerify S us = gbind (onServices (is_GetStructs S (map (itemKey S \<circ> fst) us))) (verifyEach us)"

definition it_lock :: "('v, 'w) item_services \<Rightarrow> int \<Rightarrow> uuid list \<Rightarrow> ('k, 'v, 'w, unit) itm" where
  "it_lock S d walk = gbind (lockLook S walk) (\<lambda>us. if us = [] then ret () else gseq (lockSet S d us) (lockVerify S us))"

fun checkEach :: "(uuid \<times> cache_item) list \<Rightarrow> lock_record option list \<Rightarrow> string option \<Rightarrow> ('k, 'v, 'w, string option) itm" where
  "checkEach [] found lastErr = ret lastErr"
| "checkEach (uc # us) [] lastErr = fail Panic"
| "checkEach ((u, c) # us) (None # found) lastErr = gseq (putItem u (c\<lparr>isLockOwner := False\<rparr>)) (checkEach us found lastErr)"
| "checkEach ((u, c) # us) (Some r # found) lastErr =
     (if lr_LockID r = lr_LockID (ci_lock c) then gseq (putItem u (c\<lparr>isLockOwner := True\<rparr>)) (checkEach us found lastErr)
      else if bothRead r (ci_lock c) then checkEach us found lastErr
      else gseq (putItem u (c\<lparr>isLockOwner := False\<rparr>)) (checkEach us found (Some (itemConflict u))))"

definition it_check :: "('v, 'w) item_services \<Rightarrow> uuid list \<Rightarrow> ('k, 'v, 'w, unit) itm" where
  "it_check S walk = gbind (reads (toLock walk)) (\<lambda>us. if us = [] then ret ()
     else gbind (onServices (is_GetStructs S (map (itemKey S \<circ> fst) us))) (\<lambda>found.
       gbind (checkEach us found None) finishWith))"

definition it_unlock :: "('v, 'w) item_services \<Rightarrow> uuid list \<Rightarrow> ('k, 'v, 'w, unit) itm" where
  "it_unlock S walk = gbind (reads (\<lambda>t. filter (isLockOwner \<circ> snd) (toLock walk t))) (\<lambda>us. if us = [] then ret ()
     else gseq (onServices (is_Delete S (map (itemKey S \<circ> fst) us))) (ret ()))"

end
