(* ===== verification/Item_Values.thy ===== *)
theory Item_Values
  imports Item_Tracker
begin

text \<open>
  The values of items in stores that write them at once (\<open>IsValueDataActivelyPersisted\<close>): until the commit, a
  value that was there before stays where it is, and a rollback does not delete it.
\<close>

section \<open>What the tracker relies on\<close>

definition keeps_values :: "('w \<Rightarrow> uuid \<rightharpoonup> bytes) \<Rightarrow> ('w \<Rightarrow> uuid set) \<Rightarrow> ('w, 'a) gom \<Rightarrow> bool" where
  "keeps_values vblobs taken m = (\<forall>w. vblobs (snd (m w)) = vblobs w \<and> taken w \<subseteq> taken (snd (m w)))"

lemma keeps_valuesD:
  "keeps_values vblobs taken m \<Longrightarrow> m w = (r, w') \<Longrightarrow> vblobs w' = vblobs w \<and> taken w \<subseteq> taken w'"
  unfolding keeps_values_def by (metis snd_conv)

locale item_storage =
  fixes S :: "('v, 'w) item_services" and vblobs :: "'w \<Rightarrow> uuid \<rightharpoonup> bytes" and taken :: "'w \<Rightarrow> uuid set"
  assumes reading: "keeps_values vblobs taken (is_GetStruct S k)" "keeps_values vblobs taken (is_GetStructEx S k d)"
      "keeps_values vblobs taken (is_GetOne S tb u)"
    and caching: "keeps_values vblobs taken (is_SetStruct S k v d)"
    and logging: "keeps_values vblobs taken (is_log S f pl)"
    and blobAdd: "is_blobAdd S ps w = (r, w') \<Longrightarrow> taken w \<subseteq> taken w' \<and>
      (\<forall>i. i \<notin> fst ` set (blobIDs ps) \<longrightarrow> vblobs w' i = vblobs w i)"
    and newUUID: "is_newUUID S w = (q, w') \<Longrightarrow> vblobs w' = vblobs w \<and> taken w \<subseteq> taken w' \<and>
      (case q of Inl e \<Rightarrow> e = Panic | Inr u \<Rightarrow> u \<notin> taken w)"
begin

text \<open>Parts that change neither the tracker nor the stored values.\<close>

definition idle :: "('k, 'v, 'w, 'a) itm \<Rightarrow> bool" where
  "idle m = (\<forall>t. it_info (snd (m t)) = it_info t \<and> it_items (snd (m t)) = it_items t \<and> it_heap (snd (m t)) = it_heap t \<and>
     forDeletionItems (snd (m t)) = forDeletionItems t \<and>
     vblobs (it_world (snd (m t))) = vblobs (it_world t) \<and> taken (it_world t) \<subseteq> taken (it_world (snd (m t))))"

lemma idleD: "idle m \<Longrightarrow> m t = (r, t') \<Longrightarrow> it_info t' = it_info t \<and> it_items t' = it_items t \<and> it_heap t' = it_heap t \<and>
    forDeletionItems t' = forDeletionItems t \<and>
    vblobs (it_world t') = vblobs (it_world t) \<and> taken (it_world t) \<subseteq> taken (it_world t')"
  unfolding idle_def by (metis snd_conv)

lemma idleI:
  assumes "\<And>t r t'. m t = (r, t') \<Longrightarrow> it_info t' = it_info t \<and> it_items t' = it_items t \<and> it_heap t' = it_heap t \<and>
    forDeletionItems t' = forDeletionItems t \<and>
    vblobs (it_world t') = vblobs (it_world t) \<and> taken (it_world t) \<subseteq> taken (it_world t')"
  shows "idle m"
  unfolding idle_def using assms by (metis prod.collapse)

lemma idle_basic: "idle (ret x)" "idle (fail e)" "idle (reads f)"
  by (simp_all add: idle_def exec_simps)

lemma idle_orFail: "idle (orFail q)"
  by (simp add: orFail_def idle_basic split: sum.split)

lemma idle_bind:
  assumes "idle m" "\<And>x. idle (f x)" shows "idle (gbind m f)"
proof (rule idleI)
  fix t r t' assume run: "gbind m f t = (r, t')"
  obtain q t1 where m: "m t = (q, t1)" by (cases "m t")
  note 1 = idleD [OF assms(1) m]
  show "it_info t' = it_info t \<and> it_items t' = it_items t \<and> it_heap t' = it_heap t \<and> forDeletionItems t' = forDeletionItems t \<and>
    vblobs (it_world t') = vblobs (it_world t) \<and> taken (it_world t) \<subseteq> taken (it_world t')"
  proof (cases q)
    case (Inr x)
    then have "f x t1 = (r, t')" using run m by (simp add: gbind_def)
    from idleD [OF assms(2) this] 1 show ?thesis by auto
  qed (use run m 1 in \<open>simp add: gbind_def\<close>)
qed

lemma idle_seq: "idle m \<Longrightarrow> idle k \<Longrightarrow> idle (gseq m k)"
  by (simp add: gseq_def idle_bind)

lemma idle_attempt: "idle m \<Longrightarrow> idle (attempt m)"
  by (rule idleI) (auto simp: attempt_def dest: idleD split: prod.splits sum.splits go_error.splits)

lemma idle_tolerate: "idle m \<Longrightarrow> idle (tolerate m)"
  by (simp add: tolerate_def idle_bind idle_attempt idle_basic)

lemma idle_services: "keeps_values vblobs taken m \<Longrightarrow> idle (onServices m)"
  by (rule idleI) (auto simp: zoom_def dest!: keeps_valuesD split: prod.splits)

lemmas idle_rules = idle_basic idle_orFail idle_seq idle_tolerate idle_attempt

lemma idle_cacheValue: "idle (cacheValue S k iv)"
  unfolding cacheValue_def
  by (intro idle_bind) (auto intro!: idle_rules idle_services caching split: option.split)

lemma idle_fetchValue: "idle (fetchValue S u)"
  unfolding fetchValue_def blobValue_def Let_def
  by (intro idle_bind) (auto intro!: idle_rules idle_bind idle_services caching reading split: sum.split option.split)

lemma readyValue_run:
  assumes "ci_Action c = addAction \<or> ci_Action c = updateAction" "ci_item c = Some p" "it_heap t p = Some it"
    and "readyValue S u c t = (r, t')" "r \<noteq> Inl Panic"
  shows "r = Inr () \<and> it_info t' = it_info t \<and> (it_items t' = it_items t \<or> it_items t' = (it_items t)(u \<mapsto> c)) \<and>
    vblobs (it_world t') = vblobs (it_world t) \<and> taken (it_world t) \<subseteq> taken (it_world t') \<and>
    (\<forall>q. q \<noteq> p \<longrightarrow> it_heap t' q = it_heap t q) \<and>
    (\<exists>it'. it_heap t' p = Some it' \<and> (if ci_Action c = updateAction \<and> ValueNeedsFetch it \<and> Value it \<noteq> None
       then itemID it' \<notin> taken (it_world t) else itemID it' = itemID it))"
  using assms(1)
proof
  assume a: "ci_Action c = updateAction"
  show ?thesis
  proof (cases "ValueNeedsFetch it \<and> Value it \<noteq> None")
    case True
    obtain q w where n: "is_newUUID S (it_world t) = (q, w)" by (cases "is_newUUID S (it_world t)")
    show ?thesis
      using assms(2-5) a True n newUUID [OF n]
      by (cases q) (auto simp: readyValue_def exec_simps deref_def assign_def putItem_def queueDeletion_def)
  qed (use assms(2-5) a in \<open>auto simp: readyValue_def exec_simps deref_def putItem_def\<close>)
qed (use assms(2-5) in \<open>auto simp: readyValue_def exec_simps\<close>)

lemma takeValue_run:
  assumes "ci_item c = Some p" "it_heap t p = Some it" "takeValue S c t = (r, t')"
  shows "it_info t' = it_info t \<and> it_items t' = it_items t \<and> it_world t' = it_world t \<and>
    (\<forall>q. q \<noteq> p \<longrightarrow> it_heap t' q = it_heap t q) \<and>
    (\<exists>it'. it_heap t' p = Some it' \<and> itemID it' = itemID it \<and> (\<forall>k ba. r = Inr (Some (k, ba)) \<longrightarrow> k = itemID it'))"
proof (cases "Value it")
  case (Some v)
  then show ?thesis
    using assms by (cases "is_Marshal S v") (auto simp: takeValue_def exec_simps deref_def assign_def orFail_def)
qed (use assms in \<open>auto simp: takeValue_def exec_simps deref_def\<close>)

lemma manage_run:
  assumes "ci_Action c = addAction \<or> ci_Action c = updateAction" "\<not> persisted c" "ci_item c = Some p" "it_heap t p = Some it"
    and "manage S u c t = (r, t')" "r \<noteq> Inl Panic"
  shows "it_info t' = it_info t \<and> (it_items t' = it_items t \<or> it_items t' = (it_items t)(u \<mapsto> c)) \<and>
    vblobs (it_world t') = vblobs (it_world t) \<and> taken (it_world t) \<subseteq> taken (it_world t') \<and>
    (\<forall>q. q \<noteq> p \<longrightarrow> it_heap t' q = it_heap t q) \<and>
    (\<exists>it'. it_heap t' p = Some it' \<and> (if ci_Action c = updateAction \<and> ValueNeedsFetch it \<and> Value it \<noteq> None
       then itemID it' \<notin> taken (it_world t) else itemID it' = itemID it) \<and>
       (\<forall>k ba. r = Inr (Some (k, ba)) \<longrightarrow> k = itemID it'))"
proof -
  obtain r1 t1 where 1: "readyValue S u c t = (r1, t1)" by (cases "readyValue S u c t")
  obtain r2 t2 where 2: "takeValue S c t1 = (r2, t2)" by (cases "takeValue S c t1")
  have "r1 \<noteq> Inl Panic" using assms(1,2,5,6) 1 by (auto simp: manage_def exec_simps)
  note ready = readyValue_run [OF assms(1,3,4) 1 this]
  then obtain it1 where it1: "it_heap t1 p = Some it1" "if ci_Action c = updateAction \<and> ValueNeedsFetch it \<and> Value it \<noteq> None
       then itemID it1 \<notin> taken (it_world t) else itemID it1 = itemID it" by blast
  from takeValue_run [OF assms(3) it1(1) 2] obtain it2 where take: "it_info t2 = it_info t1" "it_items t2 = it_items t1"
    "it_world t2 = it_world t1" "\<And>q. q \<noteq> p \<Longrightarrow> it_heap t2 q = it_heap t1 q" "it_heap t2 p = Some it2" "itemID it2 = itemID it1"
    "\<And>k ba. r2 = Inr (Some (k, ba)) \<Longrightarrow> k = itemID it2" by blast
  have r1: "r1 = Inr ()" using ready by blast
  have act: "(ci_Action c \<noteq> addAction \<and> ci_Action c \<noteq> updateAction) = False" using assms(1) by blast
  have "manage S u c t = (case r2 of Inl e \<Rightarrow> (Inl e, t2) | Inr x \<Rightarrow> (Inr x, t2\<lparr>it_items := (it_items t2)(u \<mapsto> c)\<rparr>))"
    unfolding manage_def act using assms(2) 1 r1 2 by (simp add: exec_simps putItem_def split: sum.split)
  then have t': "r = r2" "it_info t' = it_info t2" "it_world t' = it_world t2" "it_heap t' = it_heap t2"
    "it_items t' = it_items t2 \<or> it_items t' = (it_items t2)(u \<mapsto> c)" using assms(5) by (simp_all split: sum.splits)
  have items: "it_items t' = it_items t \<or> it_items t' = (it_items t)(u \<mapsto> c)"
    using ready take(2) t'(5) by (elim conjE disjE) simp_all
  have "it_info t' = it_info t" "vblobs (it_world t') = vblobs (it_world t)" "taken (it_world t) \<subseteq> taken (it_world t')"
    "\<forall>q. q \<noteq> p \<longrightarrow> it_heap t' q = it_heap t q" using ready take(1,3,4) t'(2-4) by simp_all
  moreover have "it_heap t' p = Some it2" "\<forall>k ba. r = Inr (Some (k, ba)) \<longrightarrow> k = itemID it2"
    using take(5,7) t'(1,4) by simp_all
  moreover have "if ci_Action c = updateAction \<and> ValueNeedsFetch it \<and> Value it \<noteq> None
       then itemID it2 \<notin> taken (it_world t) else itemID it2 = itemID it" using it1(2) unfolding take(6) .
  ultimately show ?thesis using items by blast
qed

section \<open>What was there before a transaction\<close>

text \<open>
  \<open>C\<close> holds the IDs under which values were stored before the transaction, \<open>b\<close> the values. No item that
  the transaction has added or changed is under such an ID, and the values are there.
\<close>

definition spares :: "uuid set \<Rightarrow> (uuid \<rightharpoonup> bytes) \<Rightarrow> ('k, 'v, 'w) item_tracker \<Rightarrow> bool" where
  "spares C b t = (IsValueDataActivelyPersisted (it_info t) \<and> C \<subseteq> taken (it_world t) \<and>
     (\<forall>i\<in>C. vblobs (it_world t) i = b i) \<and>
     (\<forall>u c. it_items t u = Some c \<longrightarrow> \<not> persisted c \<and> (ci_Action c = addAction \<or> ci_Action c = updateAction \<longrightarrow>
        (\<exists>p it. ci_item c = Some p \<and> it_heap t p = Some it \<and> itemID it \<notin> C))))"

text \<open>The values reach the store only under the new IDs.\<close>

lemma world_spares:
  assumes "spares C b t" "it_info t' = it_info t" "it_items t' = it_items t" "it_heap t' = it_heap t"
    "taken (it_world t) \<subseteq> taken (it_world t')" "\<And>i. i \<in> C \<Longrightarrow> vblobs (it_world t') i = vblobs (it_world t) i"
  shows "spares C b t'"
  using assms unfolding spares_def by auto

text \<open>An entry that is about to be made for an item: it gets a new ID, or is not under an old one.\<close>

definition staged_entry :: "uuid set \<Rightarrow> ('k, 'v, 'w) item_tracker \<Rightarrow> cache_item \<Rightarrow> bool" where
  "staged_entry C t c = (\<not> persisted c \<and> (ci_Action c = addAction \<or> ci_Action c = updateAction) \<and>
     (\<exists>p it. ci_item c = Some p \<and> it_heap t p = Some it \<and>
        (itemID it \<notin> C \<or> ci_Action c = updateAction \<and> ValueNeedsFetch it \<and> Value it \<noteq> None)))"

lemma activelyPersist_spares:
  assumes s: "spares C b (t\<lparr>it_items := (it_items t)(u := None)\<rparr>)" and e: "staged_entry C t c" "it_items t u = Some c"
    and run: "activelyPersist S u c t = (r, t')" "r \<noteq> Inl Panic"
  shows "spares C b t' \<and> it_items t' = it_items t"
proof -
  from e(1) obtain p it where c: "\<not> persisted c" "ci_Action c = addAction \<or> ci_Action c = updateAction" "ci_item c = Some p"
    "it_heap t p = Some it" "itemID it \<notin> C \<or> ci_Action c = updateAction \<and> ValueNeedsFetch it \<and> Value it \<noteq> None"
    unfolding staged_entry_def by blast
  have act: "IsValueDataActivelyPersisted (it_info t)" using s by (simp add: spares_def)
  obtain q t1 where m: "manage S u c t = (q, t1)" by (cases "manage S u c t")
  have body: "activelyPersist S u c t = (case q of Inl e \<Rightarrow> (Inl e, t1) | Inr None \<Rightarrow> (Inr (), t1)
      | Inr (Some (k, ba)) \<Rightarrow> gseq (onServices (is_log S C_addActivelyPersistedItem (ItemPayload (extractRequestPayloadIDs
             \<lparr>bp_BlobTable = BlobTable (it_info t), bp_Blobs = [(k, ba)]\<rparr>))))
          (gseq (onServices (is_blobAdd S [\<lparr>bp_BlobTable = BlobTable (it_info t), bp_Blobs = [(k, ba)]\<rparr>])) (cacheValue S k (Value it))) t1)"
    using act c(3,4) m by (simp add: activelyPersist_def exec_simps deref_def Let_def split: sum.split option.split)
  have "q \<noteq> Inl Panic" using run body by auto
  from manage_run [OF c(2,1,3,4) m this] obtain it' where t1: "it_info t1 = it_info t"
    "it_items t1 = it_items t \<or> it_items t1 = (it_items t)(u \<mapsto> c)" "vblobs (it_world t1) = vblobs (it_world t)"
    "taken (it_world t) \<subseteq> taken (it_world t1)" "\<And>q. q \<noteq> p \<Longrightarrow> it_heap t1 q = it_heap t q" "it_heap t1 p = Some it'"
    "if ci_Action c = updateAction \<and> ValueNeedsFetch it \<and> Value it \<noteq> None then itemID it' \<notin> taken (it_world t) else itemID it' = itemID it"
    "\<And>k ba. q = Inr (Some (k, ba)) \<Longrightarrow> k = itemID it'" by blast
  have "C \<subseteq> taken (it_world t)" using s by (simp add: spares_def)
  then have new: "itemID it' \<notin> C" using t1(7) c(5) by (auto split: if_splits)
  have items: "it_items t1 = it_items t" using t1(2) e(2) by auto
  have others: "\<not> persisted c' \<and> (ci_Action c' = addAction \<or> ci_Action c' = updateAction \<longrightarrow>
      (\<exists>p it. ci_item c' = Some p \<and> it_heap t p = Some it \<and> itemID it \<notin> C))" if "it_items t u' = Some c'" "u' \<noteq> u" for u' c'
  proof -
    have "\<forall>v d. it_items (t\<lparr>it_items := (it_items t)(u := None)\<rparr>) v = Some d \<longrightarrow> \<not> persisted d \<and>
        (ci_Action d = addAction \<or> ci_Action d = updateAction \<longrightarrow> (\<exists>p it. ci_item d = Some p \<and>
          it_heap (t\<lparr>it_items := (it_items t)(u := None)\<rparr>) p = Some it \<and> itemID it \<notin> C))"
      using s unfolding spares_def by blast
    from this [rule_format, of u' c'] that show ?thesis by simp
  qed
  have s1: "spares C b t1"
    unfolding spares_def
  proof (intro conjI ballI allI impI)
    fix u' c' assume u': "it_items t1 u' = Some c'"
    show "\<not> persisted c'" using u' c(1) e(2) items others [of u' c'] by (cases "u' = u") auto
    assume a: "ci_Action c' = addAction \<or> ci_Action c' = updateAction"
    show "\<exists>p it. ci_item c' = Some p \<and> it_heap t1 p = Some it \<and> itemID it \<notin> C"
    proof (cases "u' = u \<or> ci_item c' = Some p")
      case True
      then have "ci_item c' = Some p" using u' e(2) items c(3) by auto
      then show ?thesis using t1(6) new by blast
    next
      case False
      then obtain p' it2 where "ci_item c' = Some p'" "it_heap t p' = Some it2" "itemID it2 \<notin> C"
        using others [of u' c'] u' a items by auto
      then show ?thesis using False t1(5) [of p'] by auto
    qed
  qed (use s t1 in \<open>auto simp: spares_def\<close>)
  show ?thesis
  proof (cases "\<exists>k ba. q = Inr (Some (k, ba))")
    case False
    then show ?thesis using run(1) body s1 items by (auto split: sum.splits option.splits)
  next
    case True
    then obtain k ba where q: "q = Inr (Some (k, ba))" by blast
    let ?p = "\<lparr>bp_BlobTable = BlobTable (it_info t), bp_Blobs = [(k, ba)]\<rparr>"
    obtain r2 w2 where l: "is_log S C_addActivelyPersistedItem (ItemPayload (extractRequestPayloadIDs ?p)) (it_world t1) = (r2, w2)"
      by (cases "is_log S C_addActivelyPersistedItem (ItemPayload (extractRequestPayloadIDs ?p)) (it_world t1)")
    have 2: "spares C b (t1\<lparr>it_world := w2\<rparr>)" using keeps_valuesD [OF logging l] by (intro world_spares [OF s1]) simp_all
    obtain r3 w3 where a: "is_blobAdd S [?p] w2 = (r3, w3)" by (cases "is_blobAdd S [?p] w2")
    have "k \<notin> C" using new t1(8) [OF q] by simp
    then have 3: "spares C b (t1\<lparr>it_world := w3\<rparr>)"
      using blobAdd [OF a] by (intro world_spares [OF 2]) (auto simp: blobIDs_def)
    obtain r4 t4 where v: "cacheValue S k (Value it) (t1\<lparr>it_world := w3\<rparr>) = (r4, t4)" by (cases "cacheValue S k (Value it) (t1\<lparr>it_world := w3\<rparr>)")
    have 4: "spares C b t4" using idleD [OF idle_cacheValue v] by (intro world_spares [OF 3]) simp_all
    have "t' \<in> {t1\<lparr>it_world := w2\<rparr>, t1\<lparr>it_world := w3\<rparr>, t4}"
      using run(1) body q l a v by (cases r2; cases r3) (auto simp: exec_simps)
    then show ?thesis using 2 3 4 idleD [OF idle_cacheValue v] items by auto
  qed
qed

section \<open>The tracker's calls\<close>

lemma heap_spares:
  assumes "spares C b t" "\<And>q it. it_heap t q = Some it \<Longrightarrow> \<exists>it'. h q = Some it' \<and> itemID it' = itemID it"
  shows "spares C b (t\<lparr>it_heap := h\<rparr>)"
  using assms unfolding spares_def by simp metis

lemma queue_spares: "spares C b t \<Longrightarrow> spares C b (t\<lparr>forDeletionItems := q\<rparr>)"
  by (simp add: spares_def)

lemma drop_spares: "spares C b t \<Longrightarrow> spares C b (t\<lparr>it_items := (it_items t)(u := None)\<rparr>)"
  by (simp add: spares_def)

lemma put_spares:
  assumes "spares C b t" "\<not> persisted c" "ci_Action c = getAction \<or> ci_Action c = removeAction"
  shows "spares C b (t\<lparr>it_items := (it_items t)(u \<mapsto> c)\<rparr>)"
  using assms by (auto simp: spares_def)

lemma newEntry_run:
  assumes "newEntry S a p t = (r, t')" "r \<noteq> Inl Panic"
  obtains l v w where "r = Inr \<lparr>ci_lock = \<lparr>lr_LockID = l, lr_Action = a\<rparr>, ci_item = p, versionInDB = v,
      isLockOwner = False, persisted = False\<rparr>" "t' = t\<lparr>it_world := w\<rparr>" "vblobs w = vblobs (it_world t)" "taken (it_world t) \<subseteq> taken w"
proof -
  obtain q w where n: "is_newUUID S (it_world t) = (q, w)" by (cases "is_newUUID S (it_world t)")
  have q: "case q of Inl e \<Rightarrow> e = Panic | Inr u \<Rightarrow> True" using newUUID [OF n] by (auto split: sum.splits)
  show ?thesis
  proof (cases "Option.bind p (it_heap t)")
    case (Some it)
    obtain l where l: "q = Inr l" using q assms n Some by (cases q) (auto simp: newEntry_def exec_simps)
    then have "newEntry S a p t = (Inr \<lparr>ci_lock = \<lparr>lr_LockID = l, lr_Action = a\<rparr>, ci_item = p, versionInDB = itemVersion it,
        isLockOwner = False, persisted = False\<rparr>, t\<lparr>it_world := w\<rparr>)"
      using n Some by (simp add: newEntry_def exec_simps deref_def)
    then show ?thesis using that [of l "itemVersion it" w] newUUID [OF n] assms(1) by simp
  qed (use assms n q in \<open>cases q; auto simp: newEntry_def exec_simps deref_def\<close>)
qed

lemma Add_spares:
  assumes s: "spares C b t" and p: "it_heap t p = Some it" "itemID it \<notin> C"
    and run: "it_Add S (Some p) t = (r, t')" "r \<noteq> Inl Panic"
  shows "spares C b t' \<and> (\<exists>c. ci_item c = Some p \<and> (it_items t' = it_items t \<or> it_items t' = (it_items t)(itemID it \<mapsto> c)))"
proof -
  obtain q t1 where n: "newEntry S addAction (Some p) t = (q, t1)" by (cases "newEntry S addAction (Some p) t")
  have "q \<noteq> Inl Panic" using run n by (auto simp: it_Add_def exec_simps)
  from newEntry_run [OF n this] obtain l v w where e: "q = Inr \<lparr>ci_lock = \<lparr>lr_LockID = l, lr_Action = addAction\<rparr>, ci_item = Some p,
      versionInDB = v, isLockOwner = False, persisted = False\<rparr>" "t1 = t\<lparr>it_world := w\<rparr>"
    "vblobs w = vblobs (it_world t)" "taken (it_world t) \<subseteq> taken w" by blast
  let ?c = "\<lparr>ci_lock = \<lparr>lr_LockID = l, lr_Action = addAction\<rparr>, ci_item = Some p, versionInDB = v, isLockOwner = False, persisted = False\<rparr>"
  let ?it = "it\<lparr>itemVersion := itemVersion it + 1\<rparr>"
  let ?t = "t1\<lparr>it_items := (it_items t1)(itemID it \<mapsto> ?c), it_heap := (it_heap t1)(p \<mapsto> ?it)\<rparr>"
  have a: "activelyPersist S (itemID it) ?c ?t = (r, t')"
    using run(1) n e(1,2) p(1) by (simp add: it_Add_def exec_simps deref_def assign_def putItem_def bumpVersion_def)
  have "spares C b (t\<lparr>it_world := w\<rparr>)" by (rule world_spares [OF s]) (simp_all add: e(3,4))
  then have "spares C b ((t\<lparr>it_world := w\<rparr>)\<lparr>it_heap := (it_heap t)(p \<mapsto> ?it)\<rparr>)"
    by (rule heap_spares) (use p(1) in auto)
  from drop_spares [OF this, of "itemID it"]
  have 1: "spares C b (?t\<lparr>it_items := (it_items ?t)(itemID it := None)\<rparr>)" by (simp add: spares_def e(2))
  from activelyPersist_spares [OF 1 _ _ a run(2)] p(2) e(2) show ?thesis
    by (auto simp: staged_entry_def intro!: exI [of _ ?c])
qed

lemma Update_spares:
  assumes s: "spares C b t" and p: "it_heap t p = Some it" "itemID it \<notin> C \<or> ValueNeedsFetch it \<and> Value it \<noteq> None"
    and run: "it_Update S (Some p) t = (r, t')" "r \<noteq> Inl Panic"
  shows "spares C b t' \<and> (\<exists>c. ci_item c = Some p \<and> (it_items t' = it_items t \<or> it_items t' = (it_items t)(itemID it \<mapsto> c)))"
proof -
  let ?it = "it\<lparr>itemVersion := itemVersion it + 1\<rparr>"
  have staged: "spares C b t' \<and> it_items t' = (it_items t)(itemID it \<mapsto> c)"
    if c: "\<not> persisted c" "ci_Action c = updateAction" "ci_item c = Some p"
      and w: "vblobs w = vblobs (it_world t)" "taken (it_world t) \<subseteq> taken w"
      and h: "h = it_heap t \<or> h = (it_heap t)(p \<mapsto> ?it)"
      and a: "activelyPersist S (itemID it) c (t\<lparr>it_world := w, it_items := (it_items t)(itemID it \<mapsto> c), it_heap := h\<rparr>) = (r, t')" for c w h
  proof -
    have "spares C b (t\<lparr>it_world := w\<rparr>)" by (rule world_spares [OF s]) (simp_all add: w)
    then have "spares C b ((t\<lparr>it_world := w\<rparr>)\<lparr>it_heap := h\<rparr>)"
      by (rule heap_spares) (use p(1) h in auto)
    note dropped = drop_spares [OF this, of "itemID it"]
    let ?t = "t\<lparr>it_world := w, it_items := (it_items t)(itemID it \<mapsto> c), it_heap := h\<rparr>"
    have 1: "spares C b (?t\<lparr>it_items := (it_items ?t)(itemID it := None)\<rparr>)"
      using dropped by (simp add: spares_def)
    have "\<exists>it'. h p = Some it' \<and> itemID it' = itemID it \<and> ValueNeedsFetch it' = ValueNeedsFetch it \<and> Value it' = Value it"
      using p(1) h by auto
    then have "staged_entry C ?t c" using c p(2) by (auto simp: staged_entry_def)
    from activelyPersist_spares [OF 1 this _ a run(2)] show ?thesis by simp
  qed
  show ?thesis
  proof (cases "it_items t (itemID it)")
    case None
    obtain q t1 where n: "newEntry S updateAction (Some p) t = (q, t1)" by (cases "newEntry S updateAction (Some p) t")
    have "q \<noteq> Inl Panic" using run n None p(1) by (auto simp: it_Update_def exec_simps deref_def)
    from newEntry_run [OF n this] obtain l v w where e: "q = Inr \<lparr>ci_lock = \<lparr>lr_LockID = l, lr_Action = updateAction\<rparr>, ci_item = Some p,
        versionInDB = v, isLockOwner = False, persisted = False\<rparr>" "t1 = t\<lparr>it_world := w\<rparr>"
      "vblobs w = vblobs (it_world t)" "taken (it_world t) \<subseteq> taken w" by blast
    let ?c = "\<lparr>ci_lock = \<lparr>lr_LockID = l, lr_Action = updateAction\<rparr>, ci_item = Some p, versionInDB = v, isLockOwner = False, persisted = False\<rparr>"
    have "activelyPersist S (itemID it) ?c (t\<lparr>it_world := w, it_items := (it_items t)(itemID it \<mapsto> ?c), it_heap := (it_heap t)(p \<mapsto> ?it)\<rparr>) = (r, t')"
      using run(1) n e(1,2) p(1) None by (simp add: it_Update_def exec_simps deref_def assign_def putItem_def bumpVersion_def)
    from staged [OF _ _ _ e(3,4) _ this] show ?thesis by (intro conjI exI [of _ ?c]) simp_all
  next
    case (Some c)
    have c: "\<not> persisted c" using s Some by (auto simp: spares_def)
    show ?thesis
    proof (cases "ci_Action c = addAction")
      case True
      have "activelyPersist S (itemID it) c t = (r, t')"
        using run(1) Some True p(1) by (simp add: it_Update_def exec_simps deref_def)
      moreover have "staged_entry C t c" using s Some True unfolding staged_entry_def spares_def by blast
      ultimately show ?thesis
        using activelyPersist_spares [OF drop_spares [OF s] _ Some _ run(2)] by (auto intro: exI [of _ "c\<lparr>ci_item := Some p\<rparr>"])
    next
      case False
      let ?c = "c\<lparr>ci_lock := (ci_lock c)\<lparr>lr_Action := updateAction\<rparr>, ci_item := Some p\<rparr>"
      have "activelyPersist S (itemID it) ?c (t\<lparr>it_world := it_world t, it_items := (it_items t)(itemID it \<mapsto> ?c),
          it_heap := (if itemVersion it = versionInDB c then (it_heap t)(p \<mapsto> ?it) else it_heap t)\<rparr>) = (r, t')"
        using run(1) Some False p(1)
        by (cases "itemVersion it = versionInDB c") (simp_all add: it_Update_def exec_simps deref_def assign_def putItem_def bumpVersion_def Let_def)
      from staged [OF _ _ _ _ _ _ this] c show ?thesis by (intro conjI exI [of _ ?c]) simp_all
    qed
  qed
qed

lemma Get_spares:
  assumes s: "spares C b t" and p: "it_heap t p = Some it" and run: "it_Get S (Some p) t = (r, t')" "r \<noteq> Inl Panic"
  shows "spares C b t' \<and> (it_items t' = it_items t \<or>
    (\<exists>c. ci_Action c = getAction \<and> it_items t' = (it_items t)(itemID it \<mapsto> c)))"
proof -
  have new: "spares C b t' \<and> (\<exists>c. ci_Action c = getAction \<and> it_items t' = (it_items t1)(itemID it \<mapsto> c))"
    if s1: "spares C b t1" and n: "gbind (newEntry S getAction (Some p)) (putItem (itemID it)) t1 = (r, t')" for t1
  proof -
    obtain q t2 where e: "newEntry S getAction (Some p) t1 = (q, t2)" by (cases "newEntry S getAction (Some p) t1")
    have "q \<noteq> Inl Panic" using run(2) n e by (auto simp: exec_simps)
    from newEntry_run [OF e this] obtain l v w where q: "q = Inr \<lparr>ci_lock = \<lparr>lr_LockID = l, lr_Action = getAction\<rparr>, ci_item = Some p,
        versionInDB = v, isLockOwner = False, persisted = False\<rparr>" "t2 = t1\<lparr>it_world := w\<rparr>"
      "vblobs w = vblobs (it_world t1)" "taken (it_world t1) \<subseteq> taken w" by blast
    let ?c = "\<lparr>ci_lock = \<lparr>lr_LockID = l, lr_Action = getAction\<rparr>, ci_item = Some p, versionInDB = v, isLockOwner = False, persisted = False\<rparr>"
    have "spares C b t2" by (rule world_spares [OF s1]) (simp_all add: q(2-4))
    from put_spares [OF this, of ?c "itemID it"] have "spares C b (t2\<lparr>it_items := (it_items t2)(itemID it \<mapsto> ?c)\<rparr>)" by simp
    moreover have "t' = t2\<lparr>it_items := (it_items t2)(itemID it \<mapsto> ?c)\<rparr>" using n e q(1) by (simp add: exec_simps putItem_def)
    moreover have "it_items t2 = it_items t1" using q(2) by simp
    ultimately show ?thesis by (intro conjI exI [of _ ?c]) simp_all
  qed
  let ?look = "case it_items t (itemID it) of None \<Rightarrow> ret True | Some c \<Rightarrow> if ci_item c = None then ret True
       else gbind (deref (ci_item c)) (\<lambda>x. ret (ValueNeedsFetch x))"
  obtain q0 t0 where l: "?look t = (q0, t0)" by (cases "?look t")
  then have t0: "t0 = t" by (auto simp: exec_simps deref_def split: option.splits if_splits)
  have run': "(case q0 of Inl e \<Rightarrow> (Inl e, t) | Inr look \<Rightarrow> (if \<not> look then ret ()
     else gbind (if Value it = None \<and> ValueNeedsFetch it
         then gbind (fetchValue S (itemID it)) (\<lambda>v.
           gseq (assign (Some p) (\<lambda>it. it\<lparr>Value := Some v, ValueNeedsFetch := False\<rparr>)) (ret (it_items t (itemID it) \<noteq> None)))
         else ret False) (\<lambda>done.
       if done then ret () else gbind (newEntry S getAction (Some p)) (putItem (itemID it)))) t) = (r, t')"
    using run(1) p l t0 by (simp add: it_Get_def exec_simps deref_def split: sum.splits)
  show ?thesis
  proof (cases q0)
    case (Inr look)
    show ?thesis
    proof (cases "look \<and> Value it = None \<and> ValueNeedsFetch it")
      case True
      obtain q1 t1 where f: "fetchValue S (itemID it) t = (q1, t1)" by (cases "fetchValue S (itemID it) t")
      note i = idleD [OF idle_fetchValue f]
      have s1: "spares C b t1" by (rule world_spares [OF s]) (use i in simp_all)
      show ?thesis
      proof (cases q1)
        case (Inl e)
        then show ?thesis using run' Inr True f s1 i by (auto simp: exec_simps)
      next
        case v: (Inr v)
        let ?t2 = "t1\<lparr>it_heap := (it_heap t1)(p \<mapsto> it\<lparr>Value := Some v, ValueNeedsFetch := False\<rparr>)\<rparr>"
        have s2: "spares C b ?t2" by (rule heap_spares [OF s1]) (use p i in auto)
        have "(if it_items t (itemID it) \<noteq> None then ret () else gbind (newEntry S getAction (Some p)) (putItem (itemID it))) ?t2 = (r, t')"
          using run' Inr True f v p i by (simp add: exec_simps deref_def assign_def)
        then show ?thesis
          using new [OF s2] run(2) s2 i by (cases "it_items t (itemID it)") (auto simp: exec_simps)
      qed
    next
      case False
      then show ?thesis using run' Inr new [OF s] run(2) s by (cases look) (auto simp: exec_simps)
    qed
  qed (use run' s in simp)
qed

lemma Remove_spares:
  assumes s: "spares C b t" and p: "it_heap t p = Some it" and run: "it_Remove S (Some p) t = (r, t')"
  shows "spares C b t' \<and> it_items t' = it_items t"
proof -
  have "IsValueDataActivelyPersisted (it_info t)" using s by (simp add: spares_def)
  then have "t' = t\<lparr>forDeletionItems := forDeletionItems t @ [itemID it], it_heap := (it_heap t)(p \<mapsto> it\<lparr>ValueNeedsFetch := False\<rparr>)\<rparr>"
    using run p by (simp add: it_Remove_def exec_simps deref_def assign_def queueDeletion_def)
  moreover have "spares C b (t\<lparr>forDeletionItems := forDeletionItems t @ [itemID it], it_heap := (it_heap t)(p \<mapsto> it\<lparr>ValueNeedsFetch := False\<rparr>)\<rparr>)"
    by (rule heap_spares [OF queue_spares [OF s]]) (use p in auto)
  ultimately show ?thesis by simp
qed

end

section \<open>Sessions\<close>

text \<open>
  The calls of a B-tree: it makes items and works on those it has without changing their IDs, and hands a
  pointer of its own to \<open>Add\<close> and \<open>Update\<close> (the methods of \<open>btree/btree.go\<close> pass the address of a copy of the slot). A new item is not
  under an old ID, and an item whose value is stored is updated together with a new value, before the old
  one was fetched.
\<close>

definition untracked :: "('k, 'v, 'w) item_tracker \<Rightarrow> nat \<Rightarrow> bool" where
  "untracked t p = (\<forall>u c. it_items t u = Some c \<longrightarrow> ci_item c \<noteq> Some p)"

inductive tracker_step :: "('v, 'w) item_services \<Rightarrow> uuid set \<Rightarrow> ('k, 'v, 'w) item_tracker \<Rightarrow> ('k, 'v, 'w) item_tracker \<Rightarrow> bool"
  for S :: "('v, 'w) item_services" and C :: "uuid set" where
  make: "it_heap t p = None \<Longrightarrow> tracker_step S C t (t\<lparr>it_heap := (it_heap t)(p \<mapsto> it)\<rparr>)"
| edit: "it_heap t p = Some it \<Longrightarrow> itemID it' = itemID it \<Longrightarrow> tracker_step S C t (t\<lparr>it_heap := (it_heap t)(p \<mapsto> it')\<rparr>)"
| add: "it_heap t p = Some it \<Longrightarrow> itemID it \<notin> C \<Longrightarrow> untracked t p \<Longrightarrow>
    it_Add S (Some p) t = (r, t') \<Longrightarrow> r \<noteq> Inl Panic \<Longrightarrow> tracker_step S C t t'"
| get: "it_heap t p = Some it \<Longrightarrow> it_Get S (Some p) t = (r, t') \<Longrightarrow> r \<noteq> Inl Panic \<Longrightarrow> tracker_step S C t t'"
| update: "it_heap t p = Some it \<Longrightarrow> itemID it \<notin> C \<or> ValueNeedsFetch it \<and> Value it \<noteq> None \<Longrightarrow> untracked t p \<Longrightarrow>
    it_Update S (Some p) t = (r, t') \<Longrightarrow> r \<noteq> Inl Panic \<Longrightarrow> tracker_step S C t t'"
| remove: "it_heap t p = Some it \<Longrightarrow> it_Remove S (Some p) t = (r, t') \<Longrightarrow> tracker_step S C t t'"

text \<open>No two changed items share a pointer.\<close>

definition unshared :: "(uuid \<rightharpoonup> cache_item) \<Rightarrow> bool" where
  "unshared m = (\<forall>u v c d. m u = Some c \<longrightarrow> m v = Some d \<longrightarrow> u \<noteq> v \<longrightarrow> ci_Action c \<noteq> getAction \<longrightarrow> ci_Action d \<noteq> getAction \<longrightarrow>
     ci_item c \<noteq> ci_item d)"

lemma unshared_put:
  assumes "unshared m" "ci_Action c = getAction \<or> (\<forall>u d. m u = Some d \<longrightarrow> ci_item d \<noteq> ci_item c)"
  shows "unshared (m(u \<mapsto> c))"
  using assms unfolding unshared_def by (auto split: if_splits) metis+

context item_storage
begin

lemma step_spares:
  assumes "tracker_step S C t t'" "spares C b t" "unshared (it_items t)"
  shows "spares C b t' \<and> unshared (it_items t')"
  using assms(1)
proof cases
  case (make p it)
  have "spares C b t'" unfolding make by (rule heap_spares [OF assms(2)]) (use make in auto)
  with assms(3) make show ?thesis by simp
next
  case (edit p it it')
  have "spares C b t'" unfolding edit by (rule heap_spares [OF assms(2)]) (use edit in auto)
  with assms(3) edit show ?thesis by simp
next
  case (add p it r)
  from Add_spares [OF assms(2) add(1,2,4,5)] obtain c where c: "spares C b t'" "ci_item c = Some p"
    "it_items t' = it_items t \<or> it_items t' = (it_items t)(itemID it \<mapsto> c)" by blast
  from unshared_put [OF assms(3), of c "itemID it"] c(2,3) add(3) assms(3) have "unshared (it_items t')" by (auto simp: untracked_def)
  with c(1) show ?thesis by simp
next
  case (get p it r)
  from Get_spares [OF assms(2) get] show ?thesis using unshared_put [OF assms(3)] assms(3) by auto
next
  case (update p it r)
  from Update_spares [OF assms(2) update(1,2,4,5)] obtain c where c: "spares C b t'" "ci_item c = Some p"
    "it_items t' = it_items t \<or> it_items t' = (it_items t)(itemID it \<mapsto> c)" by blast
  from unshared_put [OF assms(3), of c "itemID it"] c(2,3) update(3) assms(3) have "unshared (it_items t')" by (auto simp: untracked_def)
  with c(1) show ?thesis by simp
next
  case (remove p it r)
  from Remove_spares [OF assms(2) remove] assms(3) show ?thesis by simp
qed

lemma session_spares:
  assumes "(tracker_step S C)\<^sup>*\<^sup>* t t'" "spares C b t" "unshared (it_items t)"
  shows "spares C b t' \<and> unshared (it_items t')"
  using assms by (induction rule: rtranclp_induct) (simp, metis step_spares)

end

text \<open>A rollback: the IDs under which the transaction wrote, and the items under their old IDs again.\<close>

abbreviation changed :: "cache_item \<Rightarrow> bool" where
  "changed c \<equiv> ci_Action c = addAction \<or> ci_Action c = updateAction"

definition undone :: "uuid list \<Rightarrow> ('k, 'v, 'w) item_tracker \<Rightarrow> ('k, 'v, 'w) item_tracker \<Rightarrow> bool" where
  "undone us t t' = (it_items t' = it_items t \<and>
    (\<forall>q. (\<forall>u\<in>set us. \<forall>c. it_items t u = Some c \<longrightarrow> changed c \<longrightarrow> ci_item c \<noteq> Some q) \<longrightarrow> it_heap t' q = it_heap t q) \<and>
    (\<forall>u\<in>set us. \<forall>c. it_items t u = Some c \<longrightarrow> changed c \<longrightarrow>
       (\<exists>p it. ci_item c = Some p \<and> it_heap t' p = Some it \<and> itemID it = u)))"

lemma undoIDs_run:
  assumes "distinct walk" "unshared (it_items t)"
    and "\<And>u c. u \<in> set walk \<Longrightarrow> it_items t u = Some c \<Longrightarrow> changed c \<Longrightarrow>
      \<exists>p it. ci_item c = Some p \<and> it_heap t p = Some it \<and> itemID it \<notin> C"
  shows "\<exists>ids t'. undoIDs walk t = (Inr ids, t') \<and> set ids \<inter> C = {} \<and> undone walk t t'"
  using assms
proof (induction walk arbitrary: t)
  case Nil
  then show ?case by (simp add: exec_simps undone_def)
next
  case (Cons u us)
  show ?case
  proof (cases "\<exists>c. it_items t u = Some c \<and> changed c")
    case False
    then have skip: "undoIDs (u # us) t = undoIDs us t"
      by (cases "it_items t u") (auto simp: exec_simps)
    have "\<exists>ids t'. undoIDs us t = (Inr ids, t') \<and> set ids \<inter> C = {} \<and> undone us t t'"
      by (rule Cons.IH) (use Cons.prems in auto)
    then obtain ids t' where r: "undoIDs us t = (Inr ids, t')" "set ids \<inter> C = {}" "undone us t t'" by blast
    have "undone (u # us) t t'" using r(3) False unfolding undone_def by (simp only: list.set ball_simps) blast
    with r(1,2) skip show ?thesis by simp
  next
    case True
    then obtain c where c: "it_items t u = Some c" "changed c" by blast
    with Cons.prems(3) [of u c] obtain p it where p: "ci_item c = Some p" "it_heap t p = Some it" "itemID it \<notin> C" by auto
    let ?t = "t\<lparr>it_heap := (it_heap t)(p \<mapsto> it\<lparr>itemID := u\<rparr>), it_items := (it_items t)(u \<mapsto> c)\<rparr>"
    have items: "it_items ?t = it_items t" using c by auto
    have apart: "ci_item d \<noteq> Some p" if "v \<in> set us" "it_items t v = Some d" "changed d" for v d
    proof -
      have "u \<noteq> v" "ci_Action c \<noteq> getAction" "ci_Action d \<noteq> getAction" using Cons.prems(1) that c(2) by auto
      then have "ci_item c \<noteq> ci_item d" using Cons.prems(2) c(1) that(2) unfolding unshared_def by blast
      with p(1) show ?thesis by simp
    qed
    have "\<exists>ids t'. undoIDs us ?t = (Inr ids, t') \<and> set ids \<inter> C = {} \<and> undone us ?t t'"
    proof (rule Cons.IH)
      show "distinct us" "unshared (it_items ?t)" using Cons.prems(1,2) items by simp_all
      show "\<exists>q x. ci_item d = Some q \<and> it_heap ?t q = Some x \<and> itemID x \<notin> C"
        if "v \<in> set us" "it_items ?t v = Some d" "changed d" for v d
      proof -
        have d: "it_items t v = Some d" using that(2) unfolding items .
        with Cons.prems(3) [of v d] that obtain q x where q: "ci_item d = Some q" "it_heap t q = Some x" "itemID x \<notin> C" by auto
        have "q \<noteq> p" using apart [OF that(1) d that(3)] q(1) by auto
        with q show ?thesis by auto
      qed
    qed
    then obtain ids t' where r: "undoIDs us ?t = (Inr ids, t')" "set ids \<inter> C = {}" "undone us ?t t'" by blast
    have run: "undoIDs (u # us) t = (Inr (itemID it # ids), t')"
      using c p r(1) by (auto simp: exec_simps deref_def assign_def putItem_def)
    note u = r(3) [unfolded undone_def items]
    have "it_heap t' p = it_heap ?t p" using u apart by blast
    then have here: "it_heap t' p = Some (it\<lparr>itemID := u\<rparr>)" by simp
    have "undone (u # us) t t'"
      unfolding undone_def
    proof (intro conjI allI impI ballI)
      show "it_items t' = it_items t" using u by blast
      show "it_heap t' q = it_heap t q" if q: "\<forall>v\<in>set (u # us). \<forall>d. it_items t v = Some d \<longrightarrow> changed d \<longrightarrow> ci_item d \<noteq> Some q" for q
      proof -
        have "q \<noteq> p" using q c p(1) by auto
        moreover have "it_heap t' q = it_heap ?t q" using u q by simp
        ultimately show ?thesis by simp
      qed
      show "\<exists>p it. ci_item d = Some p \<and> it_heap t' p = Some it \<and> itemID it = v"
        if "v \<in> set (u # us)" "it_items t v = Some d" "changed d" for v d
      proof (cases "v = u")
        case True
        then show ?thesis using that(2) c(1) p(1) here by auto
      next
        case False
        then have "v \<in> set us" using that(1) by simp
        with u that(2,3) show ?thesis by blast
      qed
    qed
    with run r(2) p(3) show ?thesis by simp
  qed
qed


text \<open>
  C36. The condition that an update brings a new value is needed. When an item whose value is stored
  apart is updated in its key only (\<open>UpdateCurrentKey\<close> with a value that was not fetched), the tracker has
  the ID of the stored value as the one it wrote under: a rollback names it for deletion, although the transaction never wrote it.
\<close>

theorem key_update_endangers_value:
  assumes "it_heap t p = Some it" "Value it = None" "it_items t (itemID it) = None" "it_Update S (Some p) t = (Inr (), t1)"
    and "\<not> IsValueDataInNodeSegment (it_info t)" "it_getForRollback [itemID it] t1 = (Inr (Some b), t2)"
  shows "bp_Blobs b = [itemID it]"
proof -
  let ?c = "\<lambda>l. \<lparr>ci_lock = \<lparr>lr_LockID = l, lr_Action = updateAction\<rparr>, ci_item = Some p, versionInDB = itemVersion it, isLockOwner = False, persisted = False\<rparr>"
  obtain l w where n: "is_newUUID S (it_world t) = (Inr l, w)"
    using assms(1,3,4) by (auto simp: it_Update_def newEntry_def exec_simps deref_def split: prod.splits sum.splits)
  let ?t = "t\<lparr>it_world := w, it_items := (it_items t)(itemID it \<mapsto> ?c l), it_heap := (it_heap t)(p \<mapsto> it\<lparr>itemVersion := itemVersion it + 1\<rparr>)\<rparr>"
  have "it_Update S (Some p) t = activelyPersist S (itemID it) (?c l) ?t"
    using assms(1,3) n by (simp add: it_Update_def newEntry_def exec_simps deref_def assign_def putItem_def bumpVersion_def)
  moreover have "activelyPersist S (itemID it) (?c l) ?t = (Inr (), ?t)"
    using assms(2) by (simp add: activelyPersist_def manage_def readyValue_def takeValue_def exec_simps deref_def putItem_def)
  ultimately have "t1 = ?t" using assms(4) by simp
  then show ?thesis using assms(5,6) by (auto simp: it_getForRollback_def exec_simps deref_def assign_def putItem_def)
qed

end
