(* ===== verification/Item_Locks.thy ===== *)
theory Item_Locks
  imports Item_Tracker
begin

text \<open>
  The locks on the items of a transaction: who gets them, what a conflict leaves behind, that unlocking gives
  back what locking took, and how a lock that two transactions got at the same time is found out.
\<close>

section \<open>Keys\<close>

lemma hex_digit_inj: "i < 16 \<Longrightarrow> j < 16 \<Longrightarrow> ''0123456789abcdef'' ! i = ''0123456789abcdef'' ! j \<Longrightarrow> i = j"
  by (simp add: nth_eq_iff_index_eq)

definition hexOf :: "8 word list \<Rightarrow> string" where
  "hexOf bs = concat (map (\<lambda>b. [''0123456789abcdef'' ! (unat b div 16), ''0123456789abcdef'' ! (unat b mod 16)]) bs)"

lemma length_hexOf [simp]: "length (hexOf bs) = 2 * length bs"
  by (induction bs) (simp_all add: hexOf_def)

lemma hexOf_inj: "hexOf bs = hexOf cs \<Longrightarrow> length bs = length cs \<Longrightarrow> bs = cs"
proof (induction bs cs rule: list_induct2')
  case (4 b bs c cs)
  have b: "unat b < 256" for b :: "8 word" using unsigned_less [of b] by simp
  from 4 have "unat b div 16 = unat c div 16" "unat b mod 16 = unat c mod 16"
    using b [of b] b [of c] by (auto simp: hexOf_def intro!: hex_digit_inj)
  then have "b = c" by (metis div_mult_mod_eq word_unat_eq_iff)
  with 4 show ?case by (simp add: hexOf_def)
qed auto

lemma uuid_String_inj: "uuid_String u = uuid_String v \<Longrightarrow> u = v"
proof -
  assume e: "uuid_String u = uuid_String v"
  have groups: "x = y" if "take 8 x @ ''-'' @ take 4 (drop 8 x) @ ''-'' @ take 4 (drop 12 x) @ ''-'' @ take 4 (drop 16 x) @ ''-'' @ drop 20 x =
      take 8 y @ ''-'' @ take 4 (drop 8 y) @ ''-'' @ take 4 (drop 12 y) @ ''-'' @ take 4 (drop 16 y) @ ''-'' @ drop 20 y"
    "length x = 32" "length y = 32" for x y :: string
  proof -
    from that have "take 8 x = take 8 y" "take 4 (drop 8 x) = take 4 (drop 8 y)" "take 4 (drop 12 x) = take 4 (drop 12 y)"
      "take 4 (drop 16 x) = take 4 (drop 16 y)" "drop 20 x = drop 20 y" by (simp_all add: append_eq_append_conv)
    moreover have "z = take 8 z @ take 4 (drop 8 z) @ take 4 (drop 12 z) @ take 4 (drop 16 z) @ drop 20 z" for z :: string
      using append_take_drop_id [of 8 z] append_take_drop_id [of 4 "drop 8 z"] append_take_drop_id [of 4 "drop 12 z"]
        append_take_drop_id [of 4 "drop 16 z"] by simp
    ultimately show "x = y" by metis
  qed
  have "hexOf (uuid_bytes u) = hexOf (uuid_bytes v)"
    by (rule groups) (use e in \<open>simp_all add: uuid_String_def hexOf_def [symmetric] Let_def\<close>)
  then have "uuid_bytes u = uuid_bytes v" by (rule hexOf_inj) simp
  then show "u = v" by (metis uuid_FromBytes_bytes sum.inject(2))
qed

section \<open>The cache\<close>

text \<open>What the tracker relies on in the cache, where a call succeeds.\<close>

locale item_cache =
  fixes S :: "('v, 'w) item_services" and locks :: "'w \<Rightarrow> string \<rightharpoonup> lock_record"
  assumes GetStructs: "is_GetStructs S ks w = (r, w') \<Longrightarrow> locks w' = locks w \<and> (\<forall>rs. r = Inr rs \<longrightarrow> rs = map (locks w) ks)"
    and SetStructs: "is_SetStructs S kvs d w = (Inr x, w') \<Longrightarrow> locks w' = fold (\<lambda>(k, v) m. m(k \<mapsto> v)) kvs (locks w)"
    and Delete: "is_Delete S ks w = (Inr y, w') \<Longrightarrow> locks w' = locks w |` (- set ks)"
    and FormatLockKey: "is_FormatLockKey S j = is_FormatLockKey S k \<Longrightarrow> j = k"
begin

lemma itemKey_inj: "itemKey S u = itemKey S v \<longleftrightarrow> u = v"
  using FormatLockKey uuid_String_inj by (auto simp: itemKey_def)

end

lemma fold_put_other: "k \<notin> fst ` set kvs \<Longrightarrow> fold (\<lambda>(k, v) m. m(k \<mapsto> v)) kvs m k = m k"
  by (induction kvs arbitrary: m) auto

lemma fold_put_mem: "distinct (map fst kvs) \<Longrightarrow> (k, v) \<in> set kvs \<Longrightarrow> fold (\<lambda>(k, v) m. m(k \<mapsto> v)) kvs m k = Some v"
proof (induction kvs arbitrary: m)
  case (Cons kv kvs)
  obtain a w where kv: "kv = (a, w)" by (cases kv)
  show ?case
  proof (cases "(k, v) = kv")
    case True
    then show ?thesis using Cons.prems(1) kv fold_put_other [of k kvs "m(k \<mapsto> v)"] by (simp del: fun_upd_apply) simp
  next
    case False
    then have "(k, v) \<in> set kvs" "distinct (map fst kvs)" using Cons.prems by auto
    from Cons.IH [OF this(2,1)] show ?thesis by (simp add: kv del: fun_upd_apply)
  qed
qed simp

lemma toLock_mem: "(u, c) \<in> set (toLock walk t) \<longleftrightarrow> u \<in> set walk \<and> it_items t u = Some c \<and> ci_Action c \<noteq> addAction"
  by (induction walk) (auto simp: toLock_def map_filter_simps split: option.split)

lemma toLock_distinct: "distinct walk \<Longrightarrow> distinct (map fst (toLock walk t))"
proof (induction walk)
  case (Cons u us)
  have "u \<notin> fst ` set (toLock us t)" using Cons.prems by (auto simp: toLock_mem)
  with Cons show ?case by (auto simp: toLock_def map_filter_simps split: option.split)
qed (simp add: toLock_def map_filter_simps)

lemma toLock_items: "it_items t' = it_items t \<Longrightarrow> toLock walk t' = toLock walk t"
  by (simp add: toLock_def)

section \<open>One tracker\<close>

definition compatible :: "lock_record \<Rightarrow> cache_item \<Rightarrow> bool" where
  "compatible r c = (lr_LockID r = lr_LockID (ci_lock c) \<or> bothRead r (ci_lock c))"

lemma freeItems_spec:
  "(\<forall>u c. (u, c) \<in> set us \<longrightarrow> (case f u of None \<Rightarrow> True | Some r \<Rightarrow> compatible r c)) \<Longrightarrow>
     freeItems us (map (f \<circ> fst) us) = Inr (filter (\<lambda>(u, c). f u = None) us)"
  "(u, c) \<in> set us \<Longrightarrow> f u = Some r \<Longrightarrow> \<not> compatible r c \<Longrightarrow> \<exists>e. freeItems us (map (f \<circ> fst) us) = Inl (Err e)"
proof (induction us)
  case (Cons uc us)
  { case 1 then show ?case using Cons by (cases uc) (auto simp: compatible_def split: option.splits)
  next
    case 2 then show ?case using Cons by (cases uc; cases "f (fst uc)") (auto simp: compatible_def) }
qed simp_all

definition mark :: "(uuid \<times> cache_item) list \<Rightarrow> (uuid \<rightharpoonup> cache_item) \<Rightarrow> (uuid \<rightharpoonup> cache_item)" where
  "mark us m = fold (\<lambda>(u, c) m. m(u \<mapsto> c\<lparr>isLockOwner := True\<rparr>)) us m"

lemma mark_fold: "mark us m = fold (\<lambda>(k, v) m. m(k \<mapsto> v)) (map (\<lambda>(u, c). (u, c\<lparr>isLockOwner := True\<rparr>)) us) m"
  by (simp add: mark_def fold_map comp_def case_prod_unfold)

lemma toLock_marked:
  assumes "distinct walk" "fs = filter P (toLock walk t)" "it_items t' = mark fs (it_items t)"
  shows "(u, c) \<in> set (toLock walk t') \<longleftrightarrow> (\<exists>d. (u, d) \<in> set (toLock walk t) \<and> c = (if (u, d) \<in> set fs then d\<lparr>isLockOwner := True\<rparr> else d))"
proof -
  have d: "distinct (map fst (map (\<lambda>(u, c). (u, c\<lparr>isLockOwner := True\<rparr>)) fs))"
    using toLock_distinct [OF assms(1), of t] unfolding assms(2) by (simp add: comp_def case_prod_unfold) (metis distinct_map_filter)
  have in_fs: "it_items t' u = Some (d\<lparr>isLockOwner := True\<rparr>)" if "(u, d) \<in> set fs" for d
    unfolding assms(3) mark_fold by (rule fold_put_mem [OF d]) (use that in force)
  have out: "it_items t' u = it_items t u" if "u \<notin> fst ` set fs"
    unfolding assms(3) mark_fold by (rule fold_put_other) (use that in \<open>auto simp: image_iff\<close>)
  have fs: "it_items t u = Some d" "u \<in> set walk" "ci_Action d \<noteq> addAction" if "(u, d) \<in> set fs" for d
    using that unfolding assms(2) by (auto simp: toLock_mem)
  show ?thesis
  proof (cases "\<exists>d. (u, d) \<in> set fs")
    case True
    then obtain d where "(u, d) \<in> set fs" by blast
    with in_fs fs show ?thesis by (auto simp: toLock_mem)
  next
    case False
    then have "u \<notin> fst ` set fs" by auto
    with out False show ?thesis by (auto simp: toLock_mem)
  qed
qed

lemma verifyEach_own:
  "(\<forall>u c. (u, c) \<in> set us \<longrightarrow> f u = Some (ci_lock c)) \<Longrightarrow>
   verifyEach us (map (f \<circ> fst) us) t = (Inr (), t\<lparr>it_items := mark us (it_items t)\<rparr>)"
proof (induction us arbitrary: t)
  case (Cons uc us)
  then show ?case by (cases uc) (simp add: exec_simps putItem_def mark_def)
qed (simp add: exec_simps mark_def)

context item_cache
begin

lemma lockLook_run:
  assumes "lockLook S walk t = (r, t')"
  shows "it_items t' = it_items t \<and> it_heap t' = it_heap t \<and> locks (it_world t') = locks (it_world t) \<and>
    (\<forall>fs. r = Inr fs \<longrightarrow> fs = filter (\<lambda>(u, c). locks (it_world t) (itemKey S u) = None) (toLock walk t) \<and>
      (\<forall>u c. (u, c) \<in> set (toLock walk t) \<longrightarrow> (case locks (it_world t) (itemKey S u) of None \<Rightarrow> True | Some r \<Rightarrow> compatible r c)))"
proof (cases "toLock walk t = []")
  case True
  then show ?thesis using assms by (auto simp: lockLook_def exec_simps)
next
  case False
  let ?us = "toLock walk t" and ?f = "\<lambda>u. locks (it_world t) (itemKey S u)"
  obtain q w where g: "is_GetStructs S (map (itemKey S \<circ> fst) ?us) (it_world t) = (q, w)"
    by (cases "is_GetStructs S (map (itemKey S \<circ> fst) ?us) (it_world t)")
  note l = GetStructs [OF g]
  show ?thesis
  proof (cases q)
    case (Inr rs)
    then have rs: "rs = map (?f \<circ> fst) ?us" using l by simp
    have run: "r = freeItems ?us rs" "t' = t\<lparr>it_world := w\<rparr>" using assms g Inr False by (auto simp: lockLook_def exec_simps)
    show ?thesis
    proof (cases "\<forall>u c. (u, c) \<in> set ?us \<longrightarrow> (case ?f u of None \<Rightarrow> True | Some r \<Rightarrow> compatible r c)")
      case True
      from freeItems_spec(1) [OF True] run rs l True show ?thesis by simp
    next
      case False
      then obtain u c k where "(u, c) \<in> set ?us" "?f u = Some k" "\<not> compatible k c" by (auto split: option.splits)
      from freeItems_spec(2) [where f = ?f, OF this] run rs l show ?thesis by auto
    qed
  qed (use assms g False l in \<open>auto simp: lockLook_def exec_simps\<close>)
qed

lemma lockSet_run:
  assumes "lockSet S d us t = (Inr x, t')" "distinct (map fst us)"
  shows "it_items t' = it_items t \<and> it_heap t' = it_heap t \<and>
    (\<forall>u c. (u, c) \<in> set us \<longrightarrow> locks (it_world t') (itemKey S u) = Some (ci_lock c)) \<and>
    (\<forall>k. k \<notin> itemKey S ` fst ` set us \<longrightarrow> locks (it_world t') k = locks (it_world t) k)"
proof -
  let ?kvs = "map (\<lambda>(u, c). (itemKey S u, ci_lock c)) us"
  from assms(1) obtain w where w: "is_SetStructs S ?kvs d (it_world t) = (Inr x, w)" "t' = t\<lparr>it_world := w\<rparr>"
    by (auto simp: lockSet_def zoom_def split: prod.splits)
  have "map fst ?kvs = map (itemKey S) (map fst us)" by (simp add: comp_def case_prod_beta)
  then have d: "distinct (map fst ?kvs)" using assms(2) itemKey_inj by (simp only: distinct_map inj_on_def) blast
  have l: "locks (it_world t') = fold (\<lambda>(k, v) m. m(k \<mapsto> v)) ?kvs (locks (it_world t))" using SetStructs [OF w(1)] w(2) by simp
  have "locks (it_world t') (itemKey S u) = Some (ci_lock c)" if "(u, c) \<in> set us" for u c
    unfolding l by (rule fold_put_mem [OF d]) (use that in force)
  moreover have "locks (it_world t') k = locks (it_world t) k" if "k \<notin> itemKey S ` fst ` set us" for k
    unfolding l by (rule fold_put_other) (use that in \<open>auto simp: image_iff\<close>)
  ultimately show ?thesis using w(2) by simp
qed

lemma lockVerify_run:
  assumes "lockVerify S us t = (Inr x, t')" "\<And>u c. (u, c) \<in> set us \<Longrightarrow> locks (it_world t) (itemKey S u) = Some (ci_lock c)"
  shows "locks (it_world t') = locks (it_world t) \<and> it_items t' = mark us (it_items t) \<and> it_heap t' = it_heap t"
proof -
  from assms(1) obtain rs w where g: "is_GetStructs S (map (itemKey S \<circ> fst) us) (it_world t) = (Inr rs, w)"
    "verifyEach us rs (t\<lparr>it_world := w\<rparr>) = (Inr x, t')"
    by (auto simp: lockVerify_def gbind_def zoom_def split: prod.splits sum.splits)
  let ?f = "\<lambda>u. locks (it_world t) (itemKey S u)"
  have rs: "rs = map (?f \<circ> fst) us" "locks w = locks (it_world t)" using GetStructs [OF g(1)] by simp_all
  have "\<forall>u c. (u, c) \<in> set us \<longrightarrow> ?f u = Some (ci_lock c)" using assms(2) by simp
  from verifyEach_own [where f = ?f, OF this, of "t\<lparr>it_world := w\<rparr>"]
  have "t' = t\<lparr>it_world := w, it_items := mark us (it_items t)\<rparr>" using g(2) unfolding rs(1) by simp
  with rs(2) show ?thesis by simp
qed

text \<open>A lock that succeeds: every item is held under a compatible record.\<close>

lemma lock_run:
  assumes "it_lock S d walk t = (Inr x, t')" "distinct walk"
  defines "us \<equiv> toLock walk t" and "fs \<equiv> filter (\<lambda>(u, c). locks (it_world t) (itemKey S u) = None) (toLock walk t)"
  shows "it_heap t' = it_heap t \<and> it_items t' = mark fs (it_items t) \<and>
    (\<forall>u c. (u, c) \<in> set us \<longrightarrow> (\<exists>r. locks (it_world t') (itemKey S u) = Some r \<and> compatible r c)) \<and>
    (\<forall>u c. (u, c) \<in> set fs \<longrightarrow> locks (it_world t') (itemKey S u) = Some (ci_lock c)) \<and>
    (\<forall>k. k \<notin> itemKey S ` fst ` set fs \<longrightarrow> locks (it_world t') k = locks (it_world t) k)"
proof -
  from assms(1) obtain gs t1 where l: "lockLook S walk t = (Inr gs, t1)"
    "(if gs = [] then ret () else gseq (lockSet S d gs) (lockVerify S gs)) t1 = (Inr x, t')"
    by (auto simp: it_lock_def gbind_def split: prod.splits sum.splits)
  note look = lockLook_run [OF l(1)]
  have gs: "gs = fs" using look by (simp add: fs_def)
  have d: "distinct (map fst fs)" unfolding fs_def
    using toLock_distinct [OF assms(2)] by (metis distinct_map_filter)
  have main: "it_heap t' = it_heap t \<and> it_items t' = mark fs (it_items t) \<and>
      (\<forall>u c. (u, c) \<in> set fs \<longrightarrow> locks (it_world t') (itemKey S u) = Some (ci_lock c)) \<and>
      (\<forall>k. k \<notin> itemKey S ` fst ` set fs \<longrightarrow> locks (it_world t') k = locks (it_world t) k)"
  proof (cases "fs = []")
    case True
    then show ?thesis using l(2) gs look by (auto simp: exec_simps mark_def)
  next
    case False
    with l(2) gs obtain y t2 where s: "lockSet S d fs t1 = (Inr y, t2)" "lockVerify S fs t2 = (Inr x, t')"
      by (auto simp: gseq_def gbind_def split: prod.splits sum.splits)
    note set = lockSet_run [OF s(1) d]
    have "locks (it_world t2) (itemKey S u) = Some (ci_lock c)" if "(u, c) \<in> set fs" for u c using set that by blast
    note verify = lockVerify_run [OF s(2) this]
    show ?thesis using verify set look by simp
  qed
  have "\<exists>r. locks (it_world t') (itemKey S u) = Some r \<and> compatible r c" if uc: "(u, c) \<in> set us" for u c
  proof (cases "locks (it_world t) (itemKey S u)")
    case None
    then have "(u, c) \<in> set fs" using uc by (simp add: us_def fs_def)
    with main show ?thesis by (auto simp: compatible_def)
  next
    case (Some r)
    have "itemKey S u \<notin> itemKey S ` fst ` set fs" using Some itemKey_inj by (auto simp: fs_def)
    then have "locks (it_world t') (itemKey S u) = Some r" using main Some by simp
    moreover have "case locks (it_world t) (itemKey S u) of None \<Rightarrow> True | Some r \<Rightarrow> compatible r c"
      using look uc unfolding us_def by blast
    ultimately show ?thesis using Some by simp
  qed
  with main show ?thesis by blast
qed

text \<open>A conflict: the lock is refused and the cache is as before.\<close>

lemma lock_conflict:
  assumes "it_lock S d walk t = (r, t')" "(u, c) \<in> set (toLock walk t)" "locks (it_world t) (itemKey S u) = Some k" "\<not> compatible k c"
  shows "(\<exists>e. r = Inl e) \<and> locks (it_world t') = locks (it_world t) \<and> it_items t' = it_items t"
proof -
  obtain q t1 where l: "lockLook S walk t = (q, t1)" by (cases "lockLook S walk t")
  note look = lockLook_run [OF l]
  have "\<exists>e. q = Inl e"
  proof (cases q)
    case (Inr fs)
    then have "case locks (it_world t) (itemKey S u) of None \<Rightarrow> True | Some r \<Rightarrow> compatible r c" using look assms(2) by blast
    with assms(3,4) show ?thesis by simp
  qed simp
  with assms(1) l look show ?thesis by (auto simp: it_lock_def gbind_def)
qed

text \<open>Unlocking gives back what locking took.\<close>

lemma lock_unlock:
  assumes "it_lock S d walk t = (Inr x, t1)" "it_unlock S walk t1 = (Inr y, t2)" "distinct walk"
    and free: "\<And>u c. (u, c) \<in> set (toLock walk t) \<Longrightarrow> locks (it_world t) (itemKey S u) = None"
  shows "locks (it_world t2) = locks (it_world t)"
proof -
  let ?fs = "filter (\<lambda>(u, c). locks (it_world t) (itemKey S u) = None) (toLock walk t)"
  note l = lock_run [OF assms(1,3)]
  have all: "?fs = toLock walk t" using free by (auto intro: filter_True)
  have own: "set (filter (isLockOwner \<circ> snd) (toLock walk t1)) = (\<lambda>(u, c). (u, c\<lparr>isLockOwner := True\<rparr>)) ` set (toLock walk t)"
  proof -
    have "it_items t1 = mark ?fs (it_items t)" using l by blast
    note m = toLock_marked [OF assms(3) HOL.refl this, unfolded all]
    have "(u, c) \<in> set (toLock walk t1) \<longleftrightarrow> (\<exists>d. (u, d) \<in> set (toLock walk t) \<and> c = d\<lparr>isLockOwner := True\<rparr>)" for u c
      unfolding m by auto
    then show ?thesis by force
  qed
  let ?ks = "map (itemKey S \<circ> fst) (filter (isLockOwner \<circ> snd) (toLock walk t1))"
  have keys: "set ?ks = itemKey S ` fst ` set (toLock walk t)"
  proof -
    have "set ?ks = (itemKey S \<circ> fst) ` ((\<lambda>(u, c). (u, c\<lparr>isLockOwner := True\<rparr>)) ` set (toLock walk t))" using own by simp
    then show ?thesis by (simp add: image_image case_prod_unfold)
  qed
  have rest: "locks (it_world t1) k = locks (it_world t) k" if "k \<notin> set ?ks" for k using l that unfolding keys all by blast
  have none: "locks (it_world t) k = None" if "k \<in> set ?ks" for k using that free unfolding keys by auto
  show ?thesis
  proof (cases "filter (isLockOwner \<circ> snd) (toLock walk t1) = []")
    case True
    then have "t2 = t1" using assms(2) by (auto simp: it_unlock_def exec_simps)
    with rest True show ?thesis by (auto intro: ext)
  next
    case False
    then obtain z w where w: "is_Delete S ?ks (it_world t1) = (Inr z, w)" "t2 = t1\<lparr>it_world := w\<rparr>"
      using assms(2) by (auto simp: it_unlock_def exec_simps split: prod.splits sum.splits)
    have "locks w = locks (it_world t1) |` (- set ?ks)" by (rule Delete [OF w(1)])
    then have "locks w k = locks (it_world t) k" for k
      using rest [of k] none [of k] by (cases "k \<in> set ?ks") simp_all
    then show ?thesis using w(2) by (auto intro: ext)
  qed
qed

text \<open>The second look at the locks.\<close>

lemma checkEach_conflict:
  "(u, c) \<in> set us \<Longrightarrow> f u = Some r \<Longrightarrow> \<not> compatible r c \<Longrightarrow> checkEach us (map (f \<circ> fst) us) e t = (Inr x, t') \<Longrightarrow> x \<noteq> None"
  "checkEach us (map (f \<circ> fst) us) (Some m) t = (Inr x, t') \<Longrightarrow> x \<noteq> None"
proof (induction us arbitrary: e t m)
  case (Cons uc us)
  { case 1
    then show ?case
      using Cons.IH by (cases uc; cases "f (fst uc)") (auto simp: compatible_def exec_simps putItem_def split: if_splits)
  next
    case 2
    then show ?case
      using Cons.IH(2) by (cases uc; cases "f (fst uc)") (auto simp: exec_simps putItem_def split: if_splits) }
qed (auto simp: exec_simps)

lemma check_conflict:
  assumes "it_check S walk t = (r, t')" "(u, c) \<in> set (toLock walk t)" "locks (it_world t) (itemKey S u) = Some k" "\<not> compatible k c"
  shows "\<exists>e. r = Inl e"
proof (rule ccontr)
  assume "\<not> ?thesis"
  then obtain y where "r = Inr y" by (cases r) auto
  moreover have "toLock walk t \<noteq> []" using assms(2) by auto
  ultimately obtain rs w x t1 where g: "is_GetStructs S (map (itemKey S \<circ> fst) (toLock walk t)) (it_world t) = (Inr rs, w)"
    "checkEach (toLock walk t) rs None (t\<lparr>it_world := w\<rparr>) = (Inr x, t1)" "finishWith x t1 = (Inr y, t')"
    using assms(1) by (auto simp: it_check_def exec_simps split: prod.splits sum.splits)
  let ?f = "\<lambda>u. locks (it_world t) (itemKey S u)"
  have "rs = map (?f \<circ> fst) (toLock walk t)" using GetStructs [OF g(1)] by simp
  with checkEach_conflict(1) [where f = ?f, OF assms(2-4)] g(2) have "x \<noteq> None" by blast
  with g(3) show False by (auto simp: finishWith_def exec_simps split: option.splits)
qed

end

section \<open>Two trackers\<close>

text \<open>
  C19. The item locks exclude each other. Once a transaction has locked its items, another one that has an item in
  common with it, which one of the two is not merely reading, does not get its locks, and its attempt
  leaves all locks in the cache as they are. Their lock IDs for the item differ from each other and from that of
  a record the cache may have had for it before.
\<close>

theorem item_locks_exclude:
  assumes "item_cache S locks" "it_lock S d wa ta = (Inr (), ta')" "distinct wa"
    and "it_lock S d' wb (tb\<lparr>it_world := it_world ta'\<rparr>) = (r, tb')"
    and "u \<in> set wa" "it_items ta u = Some ca" "ci_Action ca \<noteq> addAction"
    and "u \<in> set wb" "it_items tb u = Some cb" "ci_Action cb \<noteq> addAction"
    and "ci_Action ca \<noteq> getAction \<or> ci_Action cb \<noteq> getAction" "lr_LockID (ci_lock ca) \<noteq> lr_LockID (ci_lock cb)"
    and "\<forall>k. locks (it_world ta) (itemKey S u) = Some k \<longrightarrow> lr_LockID k \<notin> {lr_LockID (ci_lock ca), lr_LockID (ci_lock cb)}"
  shows "(\<exists>e. r = Inl e) \<and> locks (it_world tb') = locks (it_world ta')"
proof -
  note env = assms(1)
  have a: "(u, ca) \<in> set (toLock wa ta)" using assms(5-7) by (simp add: toLock_mem)
  have b: "(u, cb) \<in> set (toLock wb (tb\<lparr>it_world := it_world ta'\<rparr>))" using assms(8-10) by (simp add: toLock_mem)
  note l = item_cache.lock_run [OF env assms(2,3)]
  then obtain k where k: "locks (it_world ta') (itemKey S u) = Some k" "compatible k ca" using a by blast
  have "\<not> compatible k cb"
  proof (cases "locks (it_world ta) (itemKey S u)")
    case None
    then have "locks (it_world ta') (itemKey S u) = Some (ci_lock ca)" using l a by simp
    with k(1) assms(11,12) show ?thesis by (auto simp: compatible_def bothRead_def)
  next
    case (Some k')
    have "itemKey S u \<notin> itemKey S ` fst ` set (filter (\<lambda>(u, c). locks (it_world ta) (itemKey S u) = None) (toLock wa ta))"
      using Some item_cache.itemKey_inj [OF env] by auto
    then have "k = k'" using l k(1) Some by simp
    with Some assms(11,13) k(2) show ?thesis by (auto simp: compatible_def bothRead_def)
  qed
  with item_cache.lock_conflict [OF env assms(4) b] k(1) show ?thesis by simp
qed

text \<open>
  C27. A transaction that locks items nobody has locked and then unlocks them leaves the locks in the cache as it
  found them, whatever the orders in which its items are walked are; in between, the records are its own.
\<close>

theorem item_lock_unlock:
  assumes "item_cache S locks" "it_lock S d walk t = (Inr (), t1)" "it_unlock S walk t1 = (Inr (), t2)" "distinct walk"
    and "\<forall>u\<in>set walk. \<forall>c. it_items t u = Some c \<longrightarrow> ci_Action c \<noteq> addAction \<longrightarrow> locks (it_world t) (itemKey S u) = None"
  shows "locks (it_world t2) = locks (it_world t) \<and>
    (\<forall>u\<in>set walk. \<forall>c. it_items t u = Some c \<longrightarrow> ci_Action c \<noteq> addAction \<longrightarrow>
       locks (it_world t1) (itemKey S u) = Some (ci_lock c))"
proof -
  have free: "locks (it_world t) (itemKey S u) = None" if "(u, c) \<in> set (toLock walk t)" for u c
    using assms(5) that by (auto simp: toLock_mem)
  have "locks (it_world t1) (itemKey S u) = Some (ci_lock c)" if "u \<in> set walk" "it_items t u = Some c" "ci_Action c \<noteq> addAction" for u c
  proof -
    have "(u, c) \<in> set (toLock walk t)" using that by (simp add: toLock_mem)
    with free item_cache.lock_run [OF assms(1,2,4)] show ?thesis by auto
  qed
  moreover have "locks (it_world t2) = locks (it_world t)" by (rule item_cache.lock_unlock [OF assms(1-4)]) (rule free)
  ultimately show ?thesis by blast
qed


end
