(* ===== verification/Item_Mocks.thy ===== *)
theory Item_Mocks
  imports Item_Values Item_Locks Node_Sample
begin

text \<open>
  The tracker on the in-memory cache of \<open>common/mocks/mock_redis.go\<close> and the in-memory blob store. The cache
  keeps structures as bytes in one map: here there is a map for each of the two types that the tracker
  stores, under keys that differ in their first letter (\<open>V\<close> or \<open>L\<close>). Encoding them does not fail, and the
  cache's second map, of strings, has no entry under these keys.
\<close>

section \<open>The cache\<close>

record ('n, 'v) item_world = "'n mock_world" +
  mr_values :: "string \<rightharpoonup> 'v"
  mr_locks :: "string \<rightharpoonup> lock_record"
  iw_log :: "(commit_function \<times> log_payload) list"

type_synonym ('n, 'v, 'a) iwm = "(('n, 'v) item_world, 'a) gom"

definition mock_SetStruct :: "string \<Rightarrow> 'v \<Rightarrow> int \<Rightarrow> ('n, 'v, unit) iwm" where
  "mock_SetStruct k v d = modify (\<lambda>w. w\<lparr>mr_values := (mr_values w)(k \<mapsto> v)\<rparr>)"

definition mock_GetStruct :: "string \<Rightarrow> ('n, 'v, 'v option) iwm" where
  "mock_GetStruct k = reads (\<lambda>w. mr_values w k)"

definition mock_GetStructEx :: "string \<Rightarrow> int \<Rightarrow> ('n, 'v, 'v option) iwm" where
  "mock_GetStructEx k d = mock_GetStruct k"

definition mock_SetStructs :: "(string \<times> lock_record) list \<Rightarrow> int \<Rightarrow> ('n, 'v, unit) iwm" where
  "mock_SetStructs kvs d = gfor kvs (\<lambda>(k, r). modify (\<lambda>w. w\<lparr>mr_locks := (mr_locks w)(k \<mapsto> r)\<rparr>))"

definition mock_GetStructs :: "string list \<Rightarrow> ('n, 'v, lock_record option list) iwm" where
  "mock_GetStructs ks = reads (\<lambda>w. map (mr_locks w) ks)"

fun mock_DeleteEach :: "string list \<Rightarrow> bool \<Rightarrow> ('n, 'v, bool) iwm" where
  "mock_DeleteEach [] deletedAny = ret deletedAny"
| "mock_DeleteEach (k # ks) deletedAny = gbind (reads (\<lambda>w. mr_values w k \<noteq> None \<or> mr_locks w k \<noteq> None)) (\<lambda>found.
     gseq (modify (\<lambda>w. w\<lparr>mr_values := (mr_values w)(k := None), mr_locks := (mr_locks w)(k := None)\<rparr>))
       (mock_DeleteEach ks (deletedAny \<or> found)))"

definition mock_Delete :: "string list \<Rightarrow> ('n, 'v, bool) iwm" where
  "mock_Delete ks = mock_DeleteEach ks False"

definition mock_FormatLockKey :: "string \<Rightarrow> string" where
  "mock_FormatLockKey k = ''L'' @ k"

definition mock_items :: "('v \<Rightarrow> string + bytes) \<Rightarrow> (bytes option \<Rightarrow> string + 'v) \<Rightarrow> ('v, ('n, 'v) item_world) item_services" where
  "mock_items enc dec = \<lparr>is_GetStruct = mock_GetStruct, is_GetStructEx = mock_GetStructEx, is_SetStruct = mock_SetStruct,
     is_GetStructs = mock_GetStructs, is_SetStructs = mock_SetStructs, is_Delete = mock_Delete,
     is_FormatLockKey = mock_FormatLockKey, is_GetOne = mock_GetOne, is_blobAdd = mock_blobAdd,
     is_log = (\<lambda>f p. modify (\<lambda>w. w\<lparr>iw_log := iw_log w @ [(f, p)]\<rparr>)), is_Marshal = enc, is_Unmarshal = dec,
     is_newUUID = drawUUID\<rparr>"

lemma mock_SetStructs_run: "mock_SetStructs kvs d w = (Inr (), w\<lparr>mr_locks := fold (\<lambda>(k, r) m. m(k \<mapsto> r)) kvs (mr_locks w)\<rparr>)"
  unfolding mock_SetStructs_def by (induction kvs arbitrary: w) (auto simp: exec_simps simp del: fun_upd_apply)

lemma mock_Delete_locks: "mock_DeleteEach ks b w = (Inr x, w') \<Longrightarrow> mr_locks w' = mr_locks w |` (- set ks)"
proof (induction ks arbitrary: b w)
  case Nil
  have "m |` UNIV = m" for m :: "string \<rightharpoonup> lock_record" by (simp add: restrict_map_def)
  with Nil show ?case by (simp add: exec_simps)
next
  case (Cons k ks)
  let ?w = "w\<lparr>mr_values := (mr_values w)(k := None), mr_locks := (mr_locks w)(k := None)\<rparr>"
  have "mock_DeleteEach ks (b \<or> (mr_values w k \<noteq> None \<or> mr_locks w k \<noteq> None)) ?w = (Inr x, w')"
    using Cons.prems by (simp add: exec_simps del: fun_upd_apply)
  from Cons.IH [OF this] show ?case by (auto simp: restrict_map_def)
qed

interpretation mock_storage: item_storage "mock_items enc dec" blob_lookup "\<lambda>w. - set (mw_fresh w)" for enc dec
proof
  show "- set (mw_fresh w) \<subseteq> - set (mw_fresh w') \<and> (\<forall>i. i \<notin> fst ` set (blobIDs ps) \<longrightarrow> blob_lookup w' i = blob_lookup w i)"
    if "is_blobAdd (mock_items enc dec) ps w = (r, w')" for ps r and w w' :: "('b, 'a) item_world"
    using that by (auto simp: mock_items_def mock_blobAdd_run updBlobs_other)
  show "blob_lookup w' = blob_lookup w \<and> - set (mw_fresh w) \<subseteq> - set (mw_fresh w') \<and>
      (case q of Inl e \<Rightarrow> e = Panic | Inr u \<Rightarrow> u \<notin> - set (mw_fresh w))"
    if "is_newUUID (mock_items enc dec) w = (q, w')" for q and w w' :: "('b, 'a) item_world"
    using that by (auto simp: mock_items_def drawUUID_def split: list.splits)
qed (auto simp: keeps_values_def mock_items_def mock_GetStruct_def mock_GetStructEx_def mock_SetStruct_def mock_GetOne_def exec_simps)

interpretation mock_cache: item_cache "mock_items enc dec" mr_locks for enc dec
  by unfold_locales
    (auto simp: mock_items_def mock_GetStructs_def mock_SetStructs_run mock_Delete_def mock_FormatLockKey_def exec_simps
      dest: mock_Delete_locks)

section \<open>Sessions on it\<close>

text \<open>An item 5 with a stored value: it gets a new value, or a new key only.\<close>

definition decodeBytes :: "bytes option \<Rightarrow> string + bytes" where
  "decodeBytes b = (case b of None \<Rightarrow> Inl ''no bytes'' | Some x \<Rightarrow> Inr x)"

abbreviation byte_items :: "(bytes, (unit, bytes) item_world) item_services" where
  "byte_items \<equiv> mock_items Inr decodeBytes"

definition item_sample :: "bytes option \<Rightarrow> (int, bytes, (unit, bytes) item_world) item_tracker" where
  "item_sample v = newItemActionTracker
     ((sample_info False)\<lparr>IsValueDataInNodeSegment := False, IsValueDataActivelyPersisted := True\<rparr>)
     [0 \<mapsto> \<lparr>itemID = 5, Key = 1, Value = v, itemVersion = 3, ValueNeedsFetch = True, valueWasFetched = False\<rparr>]
     \<lparr>Lookup = Map.empty, InducedErrorOnUpdateAllOrNothing = False, blob_lookup = [5 \<mapsto> [1]], mw_nodes = Map.empty,
       mw_fresh = [7, 8], mw_clock = 0, mr_values = Map.empty, mr_locks = Map.empty, iw_log = []\<rparr>"

lemmas item_run_simps = it_Update_def newEntry_def exec_simps deref_def assign_def putItem_def bumpVersion_def activelyPersist_def
  manage_def readyValue_def takeValue_def queueDeletion_def orFail_def cacheValue_def mock_items_def drawUUID_def mock_blobAdd_def blobIDs_def
  item_sample_def newItemActionTracker_def sample_info_def


theorem key_update_endangers_value_witness:
  "\<exists>t1 b t2. it_Update byte_items (Some 0) (item_sample None) = (Inr (), t1) \<and>
    it_getForRollback [5] t1 = (Inr (Some b), t2) \<and> bp_Blobs b = [5]"
proof -
  obtain t1 b t2 where run: "it_Update byte_items (Some 0) (item_sample None) = (Inr (), t1)" "it_getForRollback [5] t1 = (Inr (Some b), t2)"
    by (simp add: item_run_simps it_getForRollback_def)
  have "bp_Blobs b = [5]"
    using key_update_endangers_value [OF _ _ _ run(1), of "\<lparr>itemID = 5, Key = 1, Value = None, itemVersion = 3, ValueNeedsFetch = True, valueWasFetched = False\<rparr>" b t2] run(2)
    by (simp add: item_sample_def newItemActionTracker_def)
  with run show ?thesis by blast
qed

section \<open>Locks on it\<close>

definition lock_sample :: "uuid \<Rightarrow> (int, bytes, (unit, bytes) item_world) item_tracker" where
  "lock_sample l = (item_sample None)\<lparr>it_items := [5 \<mapsto> \<lparr>ci_lock = \<lparr>lr_LockID = l, lr_Action = updateAction\<rparr>, ci_item = Some 0,
     versionInDB = 3, isLockOwner = False, persisted = False\<rparr>]\<rparr>"

lemmas lock_run_simps = it_lock_def lockLook_def lockSet_def lockVerify_def it_unlock_def toLock_def map_filter_simps exec_simps
  mock_items_def mock_GetStructs_def mock_SetStructs_def mock_Delete_def itemKey_def putItem_def lock_sample_def item_sample_def
  newItemActionTracker_def

theorem item_locks_exclude_witness:
  "\<exists>ta' r tb'. it_lock byte_items 0 [5] (lock_sample 20) = (Inr (), ta') \<and>
    it_lock byte_items 0 [5] ((lock_sample 21)\<lparr>it_world := it_world ta'\<rparr>) = (r, tb') \<and> r \<noteq> Inr ()"
proof -
  obtain ta' where a: "it_lock byte_items 0 [5] (lock_sample 20) = (Inr (), ta')" by (simp add: lock_run_simps)
  obtain r tb' where b: "it_lock byte_items 0 [5] ((lock_sample 21)\<lparr>it_world := it_world ta'\<rparr>) = (r, tb')" by (cases rule: prod.exhaust)
  have "\<exists>e. r = Inl e"
    using item_locks_exclude [OF mock_cache.item_cache_axioms a _ b, of 5] by (simp add: lock_sample_def item_sample_def newItemActionTracker_def)
  with a b show ?thesis by auto
qed

theorem item_lock_unlock_witness:
  "\<exists>t1 t2. it_lock byte_items 0 [5] (lock_sample 20) = (Inr (), t1) \<and> it_unlock byte_items [5] t1 = (Inr (), t2) \<and>
    mr_locks (it_world t2) = Map.empty"
proof -
  obtain t1 t2 where run: "it_lock byte_items 0 [5] (lock_sample 20) = (Inr (), t1)" "it_unlock byte_items [5] t1 = (Inr (), t2)"
    by (simp add: lock_run_simps)
  have "mr_locks (it_world t2) = mr_locks (it_world (lock_sample 20))"
    using item_lock_unlock [OF mock_cache.item_cache_axioms run] by (simp add: lock_sample_def item_sample_def newItemActionTracker_def)
  with run show ?thesis by (auto simp: lock_sample_def item_sample_def newItemActionTracker_def)
qed


end
