(* ===== verification/Spec2Isabelle.thy ===== *)
theory Spec2Isabelle
  imports Tx_Btree Btree_Cursor Cache_Mru Cache_Locks Node_Sample Reg_Disk Tx_Atomic Item_Mocks
begin

text \<open>
  A verification development for SOP (joltrin), a transactional B-tree storage engine in Go.

  The program. A store is a B-tree of nodes (\<open>btree/\<close>), which a client uses through a transaction
  (\<open>btree/withtransaction.go\<close>, \<open>common/twophasecommittransaction.go\<close>). The transaction keeps the nodes it
  reads and changes in a local repository (\<open>common/noderepository.*.go\<close>) and writes them at commit: the
  bytes of a node are a blob under a physical ID, and the registry maps the node's logical ID to a handle
  (\<open>handle.go\<close>) with two physical IDs, of which one is active. A commit writes the new bytes under the
  inactive IDs and then flips the handles. It takes locks from a shared cache (\<open>cache/l2inmemorycache.go\<close>)
  and logs its steps, so that it can be undone. The registry is a hash map of handles in segment files
  (\<open>fs/hashmap*.go\<close>, \<open>fs/registry*.go\<close>).

  The theories, with the files under \<open>src/\<close> that they model.

  Shared ground. \<open>Sop_Prelude\<close>: UUIDs as 128-bit words, the error values, the state-and-error monad \<open>gom\<close> in
  which all stateful code is written (\<open>OutOfFuel\<close> marks a loop whose fuel is used up, \<open>Panic\<close> a Go panic),
  slices with bounds checks. \<open>Comparer\<close>: \<open>btree/comparer.go\<close>. \<open>Store_Info\<close>: \<open>storeinfo.go\<close>,
  \<open>storeoptions.go\<close>.

  The B-tree. \<open>Btree_Data\<close> (items, nodes, the node repository), \<open>Btree_Ops\<close> (insertion) and \<open>Btree_Api\<close>
  (search, cursor, removal, public methods) translate \<open>btree/node.go\<close>, \<open>btree/node.handlenilchild.go\<close> and
  \<open>btree/btree.go\<close> method by method on a heap of nodes linked by IDs. \<open>Btree_Rep\<close> says which tree a heap
  represents and what a well-formed tree is; \<open>Btree_Exec\<close>, \<open>Btree_Search\<close>, \<open>Btree_Find\<close>, \<open>Btree_Lookup\<close>
  show that the walks of the cursor and \<open>Find\<close> do what the in-order sequence of items says, and
  \<open>Btree_Promote\<close>, \<open>Btree_Grow\<close>, \<open>Btree_PromoteLoop\<close>, \<open>Btree_Leaf\<close>, \<open>Btree_Add\<close> that \<open>Add\<close> is a sorted
  insertion whatever splits and promotions it needs. \<open>Btree_Session\<close>, \<open>Btree_Sample\<close> and \<open>Btree_Cursor\<close>
  (\<open>btree/btreecursor.go\<close>) build on that. Loops have as fuel a bound on the height or on the number of
  nodes of a well-formed tree, and the theorems show that it is enough.

  Caches. \<open>Cache_Dll\<close>, \<open>Cache_Mru\<close>: the linked list and the bounded cache (\<open>cache/doublylinkedlist.go\<close>,
  \<open>cache/cache.go\<close>, \<open>cache/mru.go\<close>), refined to a list in order of use. \<open>Cache_L2\<close>, \<open>Cache_Locks\<close>: the
  in-memory L2 cache with its sharded tables (\<open>cache/l2inmemorycache*.go\<close>) and what its locks guarantee.

  The registry. \<open>Handle\<close>: handles and their binary form (\<open>handle.go\<close>, \<open>encoding/handle.go\<close>). \<open>Reg_Block\<close>,
  \<open>Reg_Files\<close>, \<open>Reg_Hashmap\<close>: blocks with checksums, direct I/O on segment files, copies of blocks, region
  locks, the hash map (\<open>fs/marshaldata.go\<close>, \<open>fs/filedirectio.go\<close>, \<open>fs/hashmap*.go\<close>, \<open>fs/registrymap.go\<close>).
  The operating system, the clock and the locks are the record \<open>fsys\<close>; the locale \<open>registry_files\<close> in
  \<open>Reg_Device\<close> states what is relied on and \<open>Reg_Dev\<close> has a device that may lose power at any write.
  \<open>Reg_Table\<close>, \<open>Reg_Refine\<close>, \<open>Reg_Props\<close> show that the files implement a map and that writing a block is
  atomic under a crash. \<open>Reg_Disk\<close>: \<open>fs/registry.go\<close>. The search through segment files stops after the
  1000 segments that the code allows; the loops that wait for a lock have as fuel one poll more than the
  nanoseconds of their time limit, which a clock that advances cannot use up.

  Transactions. \<open>Node_Repo\<close>, \<open>Node_Commit\<close>: the node repository and the commit and rollback steps on nodes
  (\<open>common/noderepository.*.go\<close>). The locale \<open>storage\<close> in \<open>Node_Storage\<close> states what they rely on in the
  registry, the blob store and the caches; \<open>Node_Isolation\<close> shows that a prepared commit is invisible, that
  conflicts are refused, what activation shows and what a rollback restores; \<open>Node_Mocks\<close> fulfils the locale
  with the in-memory registry and blob store (\<open>common/mocks/\<close>). \<open>Tx_Lifecycle\<close>: the phases of
  \<open>common.Transaction\<close> and \<open>transaction.go\<close>; \<open>With_Transaction\<close>, \<open>Tx_Btree\<close>: the wrapper around the B-tree
  (\<open>btree/withtransaction.go\<close>). \<open>Tx_Log\<close>, \<open>Tx_Commit\<close>: the bodies of the two phases and of the rollback
  (\<open>common/twophasecommittransaction*.go\<close>, \<open>common/transactionlogger.go\<close>). The loop of phase 1 has the fuel
  331, more than its limits of 300 and 30 on two retry counters allow (\<open>Tx_Phase1\<close>); the loop of a reader,
  which only time bounds, has its number of rounds as argument. \<open>Tx_Keys\<close>: the locks on the nodes.
  \<open>Tx_View\<close>: the laws of a transaction's environment (the locale \<open>commit_env\<close>) and, for any relation between
  worlds that the calls outside the node storage keep (\<open>commit_view\<close>), that the parts of a commit keep it.
  \<open>Tx_Isolation\<close>, \<open>Tx_Env\<close>, \<open>Tx_Invisible\<close> use it to show that nothing of phase 1 or a rollback is seen by
  readers; \<open>Tx_Publish\<close> shows what phase 1 leaves for phase 2, \<open>Tx_Phase2\<close> that phase 2 shows all of a commit
  and that its cleanup takes nothing of that away. \<open>Tx_Mocks\<close> fulfils the laws with the in-memory cache and
  store repository; \<open>Tx_Atomic\<close> has the two phases together, and a run of them.

  Items. \<open>Item_Tracker\<close>: the item action tracker of a B-tree in a transaction (\<open>common/itemactiontracker.go\<close>,
  \<open>common/itemactiontracker.valuedata.go\<close>), with the items in a heap, since the B-tree and the tracker share
  them by pointer, and the order in which a Go map is walked as an argument. \<open>Item_Values\<close>: that a session and
  its rollback spare the values stored before, given the laws of the locale \<open>item_storage\<close>. \<open>Item_Locks\<close>: what
  the locks on items guarantee, given those of \<open>item_cache\<close>. \<open>Item_Mocks\<close> fulfils both with the in-memory
  cache of structures (\<open>common/mocks/mock_redis.go\<close>) and blob store.

  Not modelled, and why. Recovery of transactions that died, the L1 cache, blob files, the store repository
  and replication on disk: they are arguments of the definitions that use them, as is the tracker in those of a
  commit (a record of functions in \<open>Tx_Commit\<close>). JSON and other reflective encodings (payloads of logs are
  typed values). Concurrency inside phase 2: its background tasks run in the order in which they are
  started, and nodes are passed by value where the code keeps pointers and reads them again. Sessions of
  several processes appear as arbitrary states between calls. The AI agents, memory and search, tools,
  language bindings, adapters to Redis and Cassandra, governance and demos are applications of the engine
  or glue to services.
\<close>

end
